(* ===== verification/Prelude.thy ===== *)
theory Prelude
  imports Main "HOL-Library.Word" "HOL-Library.AList"
begin

text \<open>
  Shared vocabulary of the development: the widths of the C++ integer types, the two lemmas that
  read a machine counter as a natural number as long as it neither overflows nor underflows, the
  association-list view of \<^verbatim>\<open>std::unordered_map\<close>, and list facts on counting and summing that the
  flow-control proofs share.

  Conventions. \<^verbatim>\<open>std::uintN_t\<close> is a word of N bits; \<^verbatim>\<open>std::int64_t\<close> is a 64-bit word read by
  \<open>sint\<close>. Lengths of strings and containers are natural numbers (no container reaches the size of
  the address space), while counters that the code keeps in \<^verbatim>\<open>std::size_t\<close> variables are 64-bit
  words, so that their arithmetic wraps as in C++. A \<^verbatim>\<open>std::string\<close> is a list of 8-bit characters.
\<close>

unbundle bit_operations_syntax

type_synonym u8 = "8 word"
type_synonym u16 = "16 word"
type_synonym u32 = "32 word"
type_synonym u64 = "64 word"
type_synonym i64 = "64 word"

text \<open>Definitions that are unfolded by the proofs of several components.\<close>

named_theorems wire_defs \<open>validators and path predicates of the interaction layer\<close>
named_theorems credit_simps \<open>frame lemmas of the report credit manager\<close>

text \<open>A validator is a cascade of early \<open>return false\<close>; as a formula it is a conjunction.\<close>

lemma guard_conj: "(if b then False else x) \<longleftrightarrow> \<not> b \<and> x"
  by simp

lemma if_trueD: "(if b then x else y) \<Longrightarrow> b \<Longrightarrow> x"
  by simp

section \<open>Counters as machine words\<close>

text \<open>\<open>std::numeric_limits<std::uint64_t>::max()\<close>.\<close>

abbreviation max_u64 :: u64 where
  "max_u64 \<equiv> - 1"

lemma unat_max_u64: "unat (max_u64) = 2 ^ 64 - 1"
  by (simp add: unsigned_minus_1_eq_mask mask_eq_exp_minus_1)

lemma unat_u64_less: "unat (a :: u64) < 2 ^ 64"
  using unsigned_less [where 'a = nat, of a] by simp

lemma unat_add_of_nat:
  fixes a :: u64
  assumes "unat a + n < 2 ^ 64"
  shows "unat (a + of_nat n) = unat a + n"
proof -
  have n: "unat (of_nat n :: u64) = n"
    using assms by (simp add: unat_of_nat)
  then show ?thesis
    using assms by (subst unat_add_lem [THEN iffD1]) simp_all
qed

lemma unat_sub_of_nat:
  fixes a :: u64
  assumes "n \<le> unat a"
  shows "unat (a - of_nat n) = unat a - n"
proof -
  have "n < 2 ^ 64" using assms unat_u64_less [of a] by simp
  then have n: "unat (of_nat n :: u64) = n" by (simp add: unat_of_nat)
  then have "of_nat n \<le> a" using assms by (simp add: word_le_nat_alt)
  then show ?thesis by (simp add: unat_sub n)
qed

lemma unat_plus_one:
  fixes a :: u64
  assumes "a \<noteq> max_u64"
  shows "unat (a + 1) = unat a + 1"
proof -
  have "unat a \<noteq> 2 ^ 64 - 1" using assms unat_max_u64 by (metis word_unat_eq_iff)
  with unat_u64_less [of a] have "unat a + 1 < 2 ^ 64" by simp
  with unat_add_of_nat [of a 1] show ?thesis by simp
qed

lemma unat_minus_one_pos:
  fixes a :: u64
  assumes "0 < unat a"
  shows "unat (a - 1) = unat a - 1"
  using unat_sub_of_nat [of 1 a] assms by simp

lemma u64_not_max_iff: "(a :: u64) \<noteq> max_u64 \<longleftrightarrow> unat a < 2 ^ 64 - 1"
proof -
  have "a = max_u64 \<longleftrightarrow> unat a = 2 ^ 64 - 1" using unat_max_u64 by (metis word_unat_eq_iff)
  with unat_u64_less [of a] show ?thesis by auto
qed

lemma u64_eq_iff_unat: "(a :: u64) = b \<longleftrightarrow> unat a = unat b"
  by (simp add: word_unat_eq_iff)

section \<open>Widening and narrowing\<close>

text \<open>\<open>static_cast\<close> between unsigned widths is \<open>ucast\<close>.\<close>

lemma unat_u32_less: "unat (i :: u32) < 2 ^ 32"
  using unsigned_less [where 'a = nat, of i] by simp

lemma unat_u16_less: "unat (i :: u16) < 2 ^ 16"
  using unsigned_less [where 'a = nat, of i] by simp

lemma unat_u8_less: "unat (i :: u8) < 2 ^ 8"
  using unsigned_less [where 'a = nat, of i] by simp

lemma unat_ucast_u32_u64 [simp]: "unat (ucast (i :: u32) :: u64) = unat i"
  using unat_u32_less [of i] by (simp add: unsigned_ucast_eq take_bit_nat_eq_self)

lemma unat_ucast_u16_u64 [simp]: "unat (ucast (i :: u16) :: u64) = unat i"
  using unat_u16_less [of i] by (simp add: unsigned_ucast_eq take_bit_nat_eq_self)

lemma unat_ucast_u64_u32: "unat (ucast (i :: u64) :: u32) = unat i mod 2 ^ 32"
  by (simp add: unsigned_ucast_eq take_bit_eq_mod)

lemma unat_ucast_u64_u16: "unat (ucast (i :: u64) :: u16) = unat i mod 2 ^ 16"
  by (simp add: unsigned_ucast_eq take_bit_eq_mod)

lemma ucast_u32_down [simp]: "(ucast (ucast (i :: u32) :: u64) :: u32) = i"
  using unat_u32_less [of i] by (simp add: word_unat_eq_iff unat_ucast_u64_u32)

lemma ucast_u16_down [simp]: "(ucast (ucast (i :: u16) :: u64) :: u16) = i"
  using unat_u16_less [of i] by (simp add: word_unat_eq_iff unat_ucast_u64_u16)

lemma ucast_u32_up: "(v :: u64) \<le> 0xFFFFFFFF \<Longrightarrow> ucast (ucast v :: u32) = v"
  by (simp add: word_unat_eq_iff unat_ucast_u64_u32 word_le_nat_alt)

lemma ucast_u16_up: "(v :: u64) \<le> 0xFFFF \<Longrightarrow> ucast (ucast v :: u16) = v"
  by (simp add: word_unat_eq_iff unat_ucast_u64_u16 word_le_nat_alt)

lemma ucast_u32_le: "(ucast (i :: u32) :: u64) \<le> 0xFFFFFFFF"
  using unat_u32_less [of i] by (simp add: word_le_nat_alt)

lemma ucast_u16_le: "(ucast (i :: u16) :: u64) \<le> 0xFFFF"
  using unat_u16_less [of i] by (simp add: word_le_nat_alt)

section \<open>Association lists as unordered maps\<close>

text \<open>
  \<open>m.find\<close> is \<open>map_of m\<close>, \<open>m.erase(k)\<close> is \<open>AList.delete k m\<close>, \<open>m[k] = v\<close> is \<open>AList.update k v m\<close>;
  a map's keys are distinct, which \<open>distinct_keys\<close> records.
\<close>

type_synonym 'v strmap = "(string \<times> 'v) list"

abbreviation distinct_keys :: "('k \<times> 'v) list \<Rightarrow> bool" where
  "distinct_keys m \<equiv> distinct (map fst m)"

lemma map_of_update [simp]: "map_of (AList.update k v m) = (map_of m)(k \<mapsto> v)"
  by (simp add: update_conv')

lemma map_of_delete [simp]: "map_of (AList.delete k m) = (map_of m)(k := None)"
  by (simp add: delete_conv')

lemma distinct_keys_update [simp]: "distinct_keys m \<Longrightarrow> distinct_keys (AList.update k v m)"
  by (simp add: distinct_update)

lemma distinct_keys_delete [simp]: "distinct_keys m \<Longrightarrow> distinct_keys (AList.delete k m)"
  by (simp add: distinct_delete)

lemma length_update_present: "map_of m k = Some w \<Longrightarrow> length (AList.update k v m) = length m"
  by (induction m) (auto split: if_splits)

lemma update_absent: "map_of m k = None \<Longrightarrow> AList.update k v m = m @ [(k, v)]"
  by (induction m) (auto split: if_splits)

lemma length_delete_le: "length (AList.delete k m) \<le> length m"
  by (simp add: AList.delete_eq)

lemma filter_delete_le:
  "length (filter P (AList.delete k m)) \<le> length (filter P m)"
  by (induction m) (auto simp: AList.delete_eq)

lemma filter_update_present:
  assumes "map_of m k = Some w" "distinct_keys m"
  shows "length (filter (\<lambda>p. Q (snd p)) (AList.update k v m)) + (if Q w then 1 else 0)
       = length (filter (\<lambda>p. Q (snd p)) m) + (if Q v then 1 else 0)"
  using assms by (induction m) (auto split: if_splits)

section \<open>Counting and summing over queues\<close>

lemma sum_list_map_filter_le:
  fixes f :: "'a \<Rightarrow> nat"
  shows "sum_list (map f (filter P xs)) \<le> sum_list (map f xs)"
  by (induction xs) auto

lemma sum_list_filter_split:
  fixes f :: "'a \<Rightarrow> nat"
  shows "sum_list (map f (filter P xs)) + sum_list (map f (filter (\<lambda>x. \<not> P x) xs))
       = sum_list (map f xs)"
  by (induction xs) auto

lemma length_filter_pos: "x \<in> set xs \<Longrightarrow> P x \<Longrightarrow> 0 < length (filter P xs)"
  by (induction xs) auto

lemma filter_singleton_eq: "filter P xs = [y] \<Longrightarrow> x \<in> set xs \<Longrightarrow> P x \<Longrightarrow> x = y"
  by (induction xs) (auto simp: filter_empty_conv split: if_splits)

lemma find_distinct_key:
  assumes "distinct (map f xs)"
  shows "List.find (\<lambda>x. f x = key) xs = Some y \<longleftrightarrow> y \<in> set xs \<and> f y = key"
  using assms by (induction xs) (auto simp: image_iff)

lemma list_all_butfirst: "list_all P (x # xs) \<Longrightarrow> list_all P xs"
  by simp

section \<open>Components driven by a sequence of calls\<close>

text \<open>
  A stateful class is modelled by one function \<open>step op s\<close> that runs the method call \<open>op\<close> on the
  object \<open>s\<close> and returns the answer with the new object.  \<open>run_ops\<close> performs a sequence of calls; the
  locale \<open>machine\<close> is the contract every such class offers to its clients: an invariant that each
  call keeps, and a guarantee on each answer given under the invariant.
\<close>

fun run_ops :: "('op \<Rightarrow> 's \<Rightarrow> 'o \<times> 's) \<Rightarrow> 's \<Rightarrow> 'op list \<Rightarrow> 'o list \<times> 's" where
  "run_ops step s [] = ([], s)"
| "run_ops step s (op # ops) =
     (let (r, s') = step op s; (rs, t) = run_ops step s' ops in (r # rs, t))"

lemma run_ops_append:
  "run_ops step s (ops @ ops') =
     (let (rs, t) = run_ops step s ops; (rs', t') = run_ops step t ops' in (rs @ rs', t'))"
  by (induction ops arbitrary: s) (simp_all add: Let_def case_prod_beta)

lemma length_run_ops: "length (fst (run_ops step s ops)) = length ops"
  by (induction ops arbitrary: s) (simp_all add: Let_def case_prod_beta)

locale machine =
  fixes step :: "'op \<Rightarrow> 's \<Rightarrow> 'o \<times> 's"
    and inv :: "'s \<Rightarrow> bool"
    and answer_ok :: "'s \<Rightarrow> 'op \<Rightarrow> 'o \<Rightarrow> bool"
  assumes step_inv: "inv s \<Longrightarrow> inv (snd (step op s))"
    and step_answer: "inv s \<Longrightarrow> answer_ok s op (fst (step op s))"
begin

lemma run_inv: "inv s \<Longrightarrow> inv (snd (run_ops step s ops))"
  by (induction ops arbitrary: s) (simp_all add: Let_def case_prod_beta step_inv)

text \<open>Every answer of a run satisfies the guarantee in the state in which the call was made.\<close>

lemma run_answers:
  assumes "inv s" "i < length ops"
  shows "answer_ok (snd (run_ops step s (take i ops))) (ops ! i) (fst (run_ops step s ops) ! i)"
  using assms
proof (induction ops arbitrary: s i)
  case (Cons op ops)
  show ?case
  proof (cases i)
    case 0
    then show ?thesis using step_answer [OF Cons.prems(1), of op]
      by (simp add: Let_def case_prod_beta)
  next
    case (Suc j)
    then show ?thesis
      using Cons.IH [OF step_inv [OF Cons.prems(1), of op], of j] Cons.prems(2)
      by (simp add: Let_def case_prod_beta)
  qed
qed simp

text \<open>A quantity that no single call lets decrease does not decrease along a run.\<close>

lemma run_mono:
  fixes f :: "'s \<Rightarrow> 'n :: preorder"
  assumes "inv s" and "\<And>op s. inv s \<Longrightarrow> f s \<le> f (snd (step op s))"
  shows "f s \<le> f (snd (run_ops step s ops))"
  using assms(1)
proof (induction ops arbitrary: s)
  case (Cons op ops)
  have "f s \<le> f (snd (step op s))" using assms(2) Cons.prems by blast
  also have "\<dots> \<le> f (snd (run_ops step (snd (step op s)) ops))"
    using Cons.IH step_inv [OF Cons.prems] by blast
  finally show ?case by (simp add: Let_def case_prod_beta)
qed simp

end

end
