(* ===== verification/MatterValue.thy ===== *)
theory MatterValue
  imports Prelude
begin

text \<open>
  The value registry of \<^verbatim>\<open>native/src/value.cpp\<close>: the table of supported Matter attributes, commands
  and events, the conversion of decoded SDK values into typed elements and the validation of
  elements that arrive from the wire. Enumerators carry the initials of their C++ enum
  (\<open>ET_U8\<close> is \<^verbatim>\<open>ElementType::U8\<close>, \<open>Sch_U8\<close> is \<^verbatim>\<open>Schema::U8\<close>); fields of \<^verbatim>\<open>NativeValue\<close> carry the
  prefix \<open>nv_\<close>, those of \<^verbatim>\<open>Descriptor\<close> the prefix \<open>d_\<close>. A null pointer to an element is \<open>None\<close>.
\<close>

section \<open>Data\<close>

datatype MemberKind = MK_Attribute | MK_Command | MK_Event

datatype Operation = Op_Read | Op_Write | Op_Invoke | Op_Subscribe

datatype Schema =
    Sch_NullableI16 | Sch_I16 | Sch_U8 | Sch_Boolean | Sch_EmptyStructure | Sch_DeviceTypeList
  | Sch_ClusterList | Sch_PartsList | Sch_ReachableEvent | Sch_AccessControlList
  | Sch_WindowStatus | Sch_NullableFabricIndex | Sch_NullableVendorId

datatype ElementType =
    ET_Null | ET_I16 | ET_U8 | ET_U16 | ET_U32 | ET_U64 | ET_Boolean | ET_Structure | ET_Array

datatype TagKind = TK_Anonymous | TK_Context

datatype Tag = Tag (tag_kind: TagKind) (tag_id: u8)

datatype Element = Element
  (elem_tag: Tag) (elem_type: ElementType) (signed_value: i64) (unsigned_value: u64)
  (boolean_value: bool) (children: "Element list")

record DeviceType =
  dt_id :: u32
  dt_revision :: u16

datatype NativeValueKind =
    NK_Null | NK_Signed | NK_Unsigned | NK_Boolean | NK_EmptyStructure | NK_DeviceTypes
  | NK_Identifiers | NK_Reachable

record NativeValue =
  nv_kind :: NativeValueKind
  nv_signed :: i64
  nv_unsigned :: u64
  nv_boolean :: bool
  nv_device_types :: "DeviceType list"
  nv_identifiers :: "u32 list"

record Descriptor =
  d_kind :: MemberKind
  d_cluster :: u32
  d_member :: u32
  d_schema :: Schema
  d_operations :: u8

datatype ConversionError =
    CE_None | CE_UnsupportedSchema | CE_UnsupportedOperation | CE_NotWritable | CE_InvalidValue

record Conversion =
  conv_error :: ConversionError
  conv_element :: "Element option"

abbreviation anonymous :: Tag where
  "anonymous \<equiv> Tag TK_Anonymous 0"

section \<open>The descriptor table\<close>

definition kRead :: u8 where "kRead = push_bit 0 1"
definition kWrite :: u8 where "kWrite = push_bit 1 1"
definition kInvoke :: u8 where "kInvoke = push_bit 2 1"
definition kSubscribe :: u8 where "kSubscribe = push_bit 3 1"

definition mk_descriptor :: "MemberKind \<Rightarrow> u32 \<Rightarrow> u32 \<Rightarrow> Schema \<Rightarrow> u8 \<Rightarrow> Descriptor" where
  "mk_descriptor k c m s ops =
     \<lparr>d_kind = k, d_cluster = c, d_member = m, d_schema = s, d_operations = ops\<rparr>"

definition kDescriptors :: "Descriptor list" where
  "kDescriptors =
    [mk_descriptor MK_Attribute 0x0201 0x0000 Sch_NullableI16 (kRead OR kSubscribe),
     mk_descriptor MK_Attribute 0x0201 0x0011 Sch_I16 (kRead OR kWrite),
     mk_descriptor MK_Attribute 0x0201 0x0012 Sch_I16 (kRead OR kWrite),
     mk_descriptor MK_Attribute 0x0201 0x001C Sch_U8 (kRead OR kWrite),
     mk_descriptor MK_Attribute 0x0006 0x0000 Sch_Boolean (kRead OR kSubscribe),
     mk_descriptor MK_Command 0x0006 0x0000 Sch_EmptyStructure kInvoke,
     mk_descriptor MK_Command 0x0006 0x0001 Sch_EmptyStructure kInvoke,
     mk_descriptor MK_Command 0x0006 0x0002 Sch_EmptyStructure kInvoke,
     mk_descriptor MK_Attribute 0x001D 0x0000 Sch_DeviceTypeList kRead,
     mk_descriptor MK_Attribute 0x001D 0x0001 Sch_ClusterList kRead,
     mk_descriptor MK_Attribute 0x001D 0x0002 Sch_ClusterList kRead,
     mk_descriptor MK_Attribute 0x001D 0x0003 Sch_PartsList kRead,
     mk_descriptor MK_Attribute 0x0039 0x0011 Sch_Boolean (kRead OR kSubscribe),
     mk_descriptor MK_Event 0x0039 0x0003 Sch_ReachableEvent (kRead OR kSubscribe),
     mk_descriptor MK_Attribute 0x0402 0x0000 Sch_NullableI16 (kRead OR kSubscribe),
     mk_descriptor MK_Attribute 0x001F 0x0000 Sch_AccessControlList (kRead OR kWrite),
     mk_descriptor MK_Attribute 0x003C 0x0000 Sch_WindowStatus kRead,
     mk_descriptor MK_Attribute 0x003C 0x0001 Sch_NullableFabricIndex kRead,
     mk_descriptor MK_Attribute 0x003C 0x0002 Sch_NullableVendorId kRead]"

fun operation_flag :: "Operation \<Rightarrow> u8" where
  "operation_flag Op_Read = kRead"
| "operation_flag Op_Write = kWrite"
| "operation_flag Op_Invoke = kInvoke"
| "operation_flag Op_Subscribe = kSubscribe"

definition element :: "ElementType \<Rightarrow> Element" where
  "element t = Element anonymous t 0 0 False []"

definition context_element :: "ElementType \<Rightarrow> u8 \<Rightarrow> Element" where
  "context_element t i = Element (Tag TK_Context i) t 0 0 False []"

definition success :: "Element \<Rightarrow> Conversion" where
  "success e = \<lparr>conv_error = CE_None, conv_element = Some e\<rparr>"

definition failure :: "ConversionError \<Rightarrow> Conversion" where
  "failure e = \<lparr>conv_error = e, conv_element = None\<rparr>"

definition valid_cluster :: "u32 \<Rightarrow> bool" where
  "valid_cluster v \<longleftrightarrow>
     v \<le> 0x7FFF \<or>
     (0x0001FC00 \<le> v \<and> v \<le> 0xFFF4FFFE \<and> 0xFC00 \<le> v mod 65536 \<and> v mod 65536 \<le> 0xFFFE)"

text \<open>The range of \<open>std::int16_t\<close> inside \<open>std::int64_t\<close>.\<close>

definition in_i16 :: "i64 \<Rightarrow> bool" where
  "in_i16 v \<longleftrightarrow> - 32768 \<le> sint v \<and> sint v \<le> 32767"

section \<open>Access control lists\<close>

text \<open>
  \<open>ContextField\<close>: the loop returns null at once on a field without a context tag or on a second
  field with the requested id.
\<close>

fun context_field_loop :: "u8 \<Rightarrow> Element option \<Rightarrow> Element list \<Rightarrow> Element option" where
  "context_field_loop i result [] = result"
| "context_field_loop i result (field # rest) =
     (if tag_kind (elem_tag field) \<noteq> TK_Context then None
      else if tag_id (elem_tag field) = i
      then (if result \<noteq> None then None else context_field_loop i (Some field) rest)
      else context_field_loop i result rest)"

definition ContextField :: "Element \<Rightarrow> u8 \<Rightarrow> Element option" where
  "ContextField structure i = context_field_loop i None (children structure)"

definition NullableTargetField :: "Element option \<Rightarrow> ElementType \<Rightarrow> u64 \<Rightarrow> bool \<Rightarrow> bool" where
  "NullableTargetField field t maximum cluster =
     (case field of None \<Rightarrow> False
      | Some f \<Rightarrow> elem_type f = ET_Null \<or>
          (elem_type f = t \<and> unsigned_value f \<le> maximum \<and>
           (\<not> cluster \<or> valid_cluster (ucast (unsigned_value f)))))"

definition ValidTarget :: "Element \<Rightarrow> bool" where
  "ValidTarget target =
     (if tag_kind (elem_tag target) \<noteq> TK_Anonymous \<or> elem_type target \<noteq> ET_Structure \<or>
         length (children target) \<noteq> 3
      then False
      else
        let cluster = ContextField target 0;
            endpoint = ContextField target 1;
            device_type = ContextField target 2;
            null = (\<lambda>f. elem_type (the f) = ET_Null)
        in NullableTargetField cluster ET_U32 0xFFFFFFFF True \<and>
           NullableTargetField endpoint ET_U16 0xFFFE False \<and>
           NullableTargetField device_type ET_U32 0xFFFFFFFF False \<and>
           (\<not> null cluster \<or> \<not> null endpoint \<or> \<not> null device_type) \<and>
           (null endpoint \<or> null device_type))"

definition ValidNullableSubjects :: "Element option \<Rightarrow> bool" where
  "ValidNullableSubjects subjects =
     (case subjects of None \<Rightarrow> False
      | Some s \<Rightarrow>
          if tag_kind (elem_tag s) \<noteq> TK_Context \<or> tag_id (elem_tag s) \<noteq> 3 then False
          else if elem_type s = ET_Null then True
          else elem_type s = ET_Array \<and> length (children s) \<le> 64 \<and>
            list_all (\<lambda>x. tag_kind (elem_tag x) = TK_Anonymous \<and> elem_type x = ET_U64)
              (children s))"

definition ValidNullableTargets :: "Element option \<Rightarrow> bool" where
  "ValidNullableTargets targets =
     (case targets of None \<Rightarrow> False
      | Some t \<Rightarrow>
          if tag_kind (elem_tag t) \<noteq> TK_Context \<or> tag_id (elem_tag t) \<noteq> 4 then False
          else elem_type t = ET_Null \<or>
            (elem_type t = ET_Array \<and> length (children t) \<le> 64 \<and>
             list_all ValidTarget (children t)))"

text \<open>The body of the loop over the entries of an access control list.\<close>

definition valid_acl_entry :: "Operation \<Rightarrow> Element \<Rightarrow> bool" where
  "valid_acl_entry operation entry =
     (if tag_kind (elem_tag entry) \<noteq> TK_Anonymous \<or> elem_type entry \<noteq> ET_Structure \<or>
         length (children entry) < 4 \<or> length (children entry) > 6
      then False
      else
        let privilege = ContextField entry 1;
            auth_mode = ContextField entry 2;
            subjects = ContextField entry 3;
            targets = ContextField entry 4;
            auxiliary = ContextField entry 5;
            fabric = ContextField entry 254
        in list_all (\<lambda>f. tag_kind (elem_tag f) = TK_Context \<and>
                         tag_id (elem_tag f) \<in> {1, 2, 3, 4, 5, 254}) (children entry) \<and>
           (case privilege of None \<Rightarrow> False
            | Some p \<Rightarrow> elem_type p = ET_U8 \<and> 1 \<le> unsigned_value p \<and> unsigned_value p \<le> 5) \<and>
           (case auth_mode of None \<Rightarrow> False
            | Some a \<Rightarrow> elem_type a = ET_U8 \<and> 2 \<le> unsigned_value a \<and> unsigned_value a \<le> 3) \<and>
           ValidNullableSubjects subjects \<and> ValidNullableTargets targets \<and>
           (case auxiliary of None \<Rightarrow> True
            | Some x \<Rightarrow> elem_type x = ET_U8 \<and> unsigned_value x \<le> 1) \<and>
           (case fabric of None \<Rightarrow> True
            | Some x \<Rightarrow> operation = Op_Read \<and> elem_type x = ET_U8 \<and>
                1 \<le> unsigned_value x \<and> unsigned_value x \<le> 254))"

definition valid_access_control_list :: "Element \<Rightarrow> Operation \<Rightarrow> bool" where
  "valid_access_control_list e operation \<longleftrightarrow>
     elem_type e = ET_Array \<and> tag_kind (elem_tag e) = TK_Anonymous \<and>
     length (children e) \<le> 64 \<and> list_all (valid_acl_entry operation) (children e)"

section \<open>Conversion\<close>

text \<open>
  The loops of \<open>convert\<close> over identifiers: a child per identifier, and \<open>None\<close> for the early
  \<open>failure(ConversionError::InvalidValue)\<close>.
\<close>

fun identifier_children :: "(u32 \<Rightarrow> bool) \<Rightarrow> ElementType \<Rightarrow> u32 list \<Rightarrow> Element list option" where
  "identifier_children ok t [] = Some []"
| "identifier_children ok t (i # is) =
     (if \<not> ok i then None
      else case identifier_children ok t is of None \<Rightarrow> None
           | Some es \<Rightarrow> Some (Element anonymous t 0 (ucast i) False [] # es))"

definition device_type_entry :: "DeviceType \<Rightarrow> Element" where
  "device_type_entry d =
     Element anonymous ET_Structure 0 0 False
       [Element (Tag TK_Context 0) ET_U32 0 (ucast (dt_id d)) False [],
        Element (Tag TK_Context 1) ET_U16 0 (ucast (dt_revision d)) False []]"

definition convert_i16 :: "NativeValue \<Rightarrow> Conversion" where
  "convert_i16 v =
     (if nv_kind v = NK_Signed \<and> in_i16 (nv_signed v)
      then success (Element anonymous ET_I16 (nv_signed v) 0 False [])
      else failure CE_InvalidValue)"

definition convert_unsigned :: "ElementType \<Rightarrow> u64 \<Rightarrow> u64 \<Rightarrow> NativeValue \<Rightarrow> Conversion" where
  "convert_unsigned t lo hi v =
     (if nv_kind v = NK_Unsigned \<and> lo \<le> nv_unsigned v \<and> nv_unsigned v \<le> hi
      then success (Element anonymous t 0 (nv_unsigned v) False [])
      else failure CE_InvalidValue)"

definition convert_identifiers :: "(u32 \<Rightarrow> bool) \<Rightarrow> ElementType \<Rightarrow> NativeValue \<Rightarrow> Conversion" where
  "convert_identifiers ok t v =
     (if nv_kind v = NK_Identifiers \<and> length (nv_identifiers v) \<le> 1023
      then (case identifier_children ok t (nv_identifiers v) of
              None \<Rightarrow> failure CE_InvalidValue
            | Some es \<Rightarrow> success (Element anonymous ET_Array 0 0 False es))
      else failure CE_InvalidValue)"

definition convert :: "Descriptor \<Rightarrow> NativeValue \<Rightarrow> Conversion" where
  "convert descriptor v =
     (case d_schema descriptor of
        Sch_NullableI16 \<Rightarrow> if nv_kind v = NK_Null then success (element ET_Null) else convert_i16 v
      | Sch_I16 \<Rightarrow> convert_i16 v
      | Sch_U8 \<Rightarrow> convert_unsigned ET_U8 0 0xFF v
      | Sch_Boolean \<Rightarrow>
          if nv_kind v = NK_Boolean
          then success (Element anonymous ET_Boolean 0 0 (nv_boolean v) [])
          else failure CE_InvalidValue
      | Sch_EmptyStructure \<Rightarrow>
          if nv_kind v = NK_EmptyStructure then success (element ET_Structure)
          else failure CE_InvalidValue
      | Sch_DeviceTypeList \<Rightarrow>
          if nv_kind v = NK_DeviceTypes \<and> length (nv_device_types v) \<le> 1023
          then success (Element anonymous ET_Array 0 0 False
                 (map device_type_entry (nv_device_types v)))
          else failure CE_InvalidValue
      | Sch_ClusterList \<Rightarrow> convert_identifiers valid_cluster ET_U32 v
      | Sch_PartsList \<Rightarrow> convert_identifiers (\<lambda>i. i \<le> 0xFFFE) ET_U16 v
      | Sch_ReachableEvent \<Rightarrow>
          if nv_kind v = NK_Reachable
          then success (Element anonymous ET_Structure 0 0 False
                 [Element (Tag TK_Context 0) ET_Boolean 0 0 (nv_boolean v) []])
          else failure CE_InvalidValue
      | Sch_WindowStatus \<Rightarrow> convert_unsigned ET_U8 0 2 v
      | Sch_NullableFabricIndex \<Rightarrow>
          if nv_kind v = NK_Null then success (element ET_Null) else convert_unsigned ET_U8 1 254 v
      | Sch_NullableVendorId \<Rightarrow>
          if nv_kind v = NK_Null then success (element ET_Null)
          else convert_unsigned ET_U16 1 0xFFFE v
      | Sch_AccessControlList \<Rightarrow> failure CE_InvalidValue)"

definition default_value :: NativeValue where
  "default_value =
     \<lparr>nv_kind = NK_Null, nv_signed = 0, nv_unsigned = 0, nv_boolean = False,
      nv_device_types = [], nv_identifiers = []\<rparr>"

definition null_value :: NativeValue where
  "null_value = default_value"

definition signed_integer :: "i64 \<Rightarrow> NativeValue" where
  "signed_integer v = default_value\<lparr>nv_kind := NK_Signed, nv_signed := v\<rparr>"

definition unsigned_integer :: "u64 \<Rightarrow> NativeValue" where
  "unsigned_integer v = default_value\<lparr>nv_kind := NK_Unsigned, nv_unsigned := v\<rparr>"

definition native_boolean :: "bool \<Rightarrow> NativeValue" where
  "native_boolean b = default_value\<lparr>nv_kind := NK_Boolean, nv_boolean := b\<rparr>"

definition empty_structure :: NativeValue where
  "empty_structure = default_value\<lparr>nv_kind := NK_EmptyStructure\<rparr>"

definition device_type_list :: "DeviceType list \<Rightarrow> NativeValue" where
  "device_type_list ds = default_value\<lparr>nv_kind := NK_DeviceTypes, nv_device_types := ds\<rparr>"

definition identifier_list :: "u32 list \<Rightarrow> NativeValue" where
  "identifier_list is = default_value\<lparr>nv_kind := NK_Identifiers, nv_identifiers := is\<rparr>"

definition reachable_value :: "bool \<Rightarrow> NativeValue" where
  "reachable_value b = default_value\<lparr>nv_kind := NK_Reachable, nv_boolean := b\<rparr>"

section \<open>Lookup, conversion and validation\<close>

definition lookup_descriptor :: "MemberKind \<Rightarrow> u32 \<Rightarrow> u32 \<Rightarrow> Descriptor option" where
  "lookup_descriptor k c m =
     List.find (\<lambda>d. d_kind d = k \<and> d_cluster d = c \<and> d_member d = m) kDescriptors"

definition convert_value ::
    "MemberKind \<Rightarrow> u32 \<Rightarrow> u32 \<Rightarrow> Operation \<Rightarrow> NativeValue \<Rightarrow> Conversion" where
  "convert_value k c m operation v =
     (case lookup_descriptor k c m of
        None \<Rightarrow> failure CE_UnsupportedSchema
      | Some d \<Rightarrow>
          if d_operations d AND operation_flag operation = 0
          then failure (if operation = Op_Write then CE_NotWritable else CE_UnsupportedOperation)
          else convert d v)"

definition verdict :: "bool \<Rightarrow> ConversionError" where
  "verdict ok = (if ok then CE_None else CE_InvalidValue)"

text \<open>One entry of a device type list as \<open>validate_element\<close> accepts it.\<close>

definition valid_device_type_entry :: "Element \<Rightarrow> bool" where
  "valid_device_type_entry entry \<longleftrightarrow>
     tag_kind (elem_tag entry) = TK_Anonymous \<and> elem_type entry = ET_Structure \<and>
     (case children entry of
        [i, r] \<Rightarrow> tag_kind (elem_tag i) = TK_Context \<and> tag_id (elem_tag i) = 0 \<and>
                  elem_type i = ET_U32 \<and>
                  tag_kind (elem_tag r) = TK_Context \<and> tag_id (elem_tag r) = 1 \<and>
                  elem_type r = ET_U16
      | _ \<Rightarrow> False)"

definition valid_body :: "Schema \<Rightarrow> Operation \<Rightarrow> Element \<Rightarrow> bool" where
  "valid_body schema operation e =
     (case schema of
        Sch_NullableI16 \<Rightarrow>
          elem_type e = ET_Null \<or> (elem_type e = ET_I16 \<and> in_i16 (signed_value e))
      | Sch_I16 \<Rightarrow> elem_type e = ET_I16 \<and> in_i16 (signed_value e)
      | Sch_U8 \<Rightarrow> elem_type e = ET_U8 \<and> unsigned_value e \<le> 0xFF
      | Sch_Boolean \<Rightarrow> elem_type e = ET_Boolean
      | Sch_EmptyStructure \<Rightarrow> elem_type e = ET_Structure \<and> children e = []
      | Sch_DeviceTypeList \<Rightarrow>
          elem_type e = ET_Array \<and> length (children e) \<le> 1023 \<and>
          list_all valid_device_type_entry (children e)
      | Sch_ClusterList \<Rightarrow>
          elem_type e = ET_Array \<and> length (children e) \<le> 1023 \<and>
          list_all (\<lambda>x. tag_kind (elem_tag x) = TK_Anonymous \<and> elem_type x = ET_U32 \<and>
                        valid_cluster (ucast (unsigned_value x))) (children e)
      | Sch_PartsList \<Rightarrow>
          elem_type e = ET_Array \<and> length (children e) \<le> 1023 \<and>
          list_all (\<lambda>x. tag_kind (elem_tag x) = TK_Anonymous \<and> elem_type x = ET_U16 \<and>
                        unsigned_value x \<le> 0xFFFE) (children e)
      | Sch_ReachableEvent \<Rightarrow>
          elem_type e = ET_Structure \<and>
          (case children e of
             [x] \<Rightarrow> tag_kind (elem_tag x) = TK_Context \<and> tag_id (elem_tag x) = 0 \<and>
                    elem_type x = ET_Boolean
           | _ \<Rightarrow> False)
      | Sch_WindowStatus \<Rightarrow> elem_type e = ET_U8 \<and> unsigned_value e \<le> 2
      | Sch_NullableFabricIndex \<Rightarrow>
          elem_type e = ET_Null \<or>
          (elem_type e = ET_U8 \<and> 1 \<le> unsigned_value e \<and> unsigned_value e \<le> 254)
      | Sch_NullableVendorId \<Rightarrow>
          elem_type e = ET_Null \<or>
          (elem_type e = ET_U16 \<and> 1 \<le> unsigned_value e \<and> unsigned_value e \<le> 0xFFFE)
      | Sch_AccessControlList \<Rightarrow> valid_access_control_list e operation)"

definition validate_element ::
    "MemberKind \<Rightarrow> u32 \<Rightarrow> u32 \<Rightarrow> Operation \<Rightarrow> Element \<Rightarrow> ConversionError" where
  "validate_element k c m operation e =
     (case lookup_descriptor k c m of
        None \<Rightarrow> CE_UnsupportedSchema
      | Some d \<Rightarrow>
          if d_operations d AND operation_flag operation = 0
          then (if operation = Op_Write then CE_NotWritable else CE_UnsupportedOperation)
          else if tag_kind (elem_tag e) \<noteq> TK_Anonymous then CE_InvalidValue
          else verdict (valid_body (d_schema d) operation e))"

section \<open>Well-formed elements\<close>

text \<open>
  The C++ \<open>Element\<close> keeps every payload side by side. An element is well formed when only the
  payload selected by its type is in use, within that type's width, and an anonymous tag has no id.
  This is what the conversion and the wire decoder produce.
\<close>

definition wf_tag :: "Tag \<Rightarrow> bool" where
  "wf_tag t \<longleftrightarrow> (tag_kind t = TK_Anonymous \<longrightarrow> tag_id t = 0)"

fun unsigned_maximum :: "ElementType \<Rightarrow> u64" where
  "unsigned_maximum ET_U8 = 0xFF"
| "unsigned_maximum ET_U16 = 0xFFFF"
| "unsigned_maximum ET_U32 = 0xFFFFFFFF"
| "unsigned_maximum ET_U64 = max_u64"
| "unsigned_maximum _ = 0"

fun wf_element :: "Element \<Rightarrow> bool" where
  "wf_element (Element t ty s u b cs) \<longleftrightarrow>
     wf_tag t \<and>
     (ty = ET_I16 \<longrightarrow> in_i16 s) \<and> (ty \<noteq> ET_I16 \<longrightarrow> s = 0) \<and>
     u \<le> unsigned_maximum ty \<and>
     (ty \<noteq> ET_Boolean \<longrightarrow> \<not> b) \<and>
     (ty \<notin> {ET_Structure, ET_Array} \<longrightarrow> cs = []) \<and> list_all wf_element cs"

lemma unsigned_maximum_zero [simp]:
  "ty \<notin> {ET_U8, ET_U16, ET_U32, ET_U64} \<Longrightarrow> unsigned_maximum ty = 0"
  by (cases ty) auto

lemma success_simps [simp]:
  "conv_error (success e) = CE_None" "conv_element (success e) = Some e"
  "success e = success e' \<longleftrightarrow> e = e'"
  by (auto simp: success_def)

lemma failure_simps [simp]:
  "conv_error (failure x) = x" "conv_element (failure x) = None"
  by (simp_all add: failure_def)

lemma element_sel [simp]:
  "elem_tag (element t) = anonymous" "elem_type (element t) = t" "children (element t) = []"
  by (simp_all add: element_def)

lemma wf_element_leaf [simp]: "wf_element (element t) \<longleftrightarrow> t \<noteq> ET_I16 \<or> in_i16 0"
  by (auto simp: element_def wf_tag_def)

section \<open>Soundness and completeness of conversion\<close>

lemma identifier_children_Some:
  "identifier_children ok t is = Some es \<Longrightarrow>
     es = map (\<lambda>i. Element anonymous t 0 (ucast i) False []) is \<and> list_all ok is"
  by (induction "is" arbitrary: es) (auto split: if_splits option.splits)

lemma identifier_children_map:
  "list_all ok is \<Longrightarrow>
     identifier_children ok t is = Some (map (\<lambda>i. Element anonymous t 0 (ucast i) False []) is)"
  by (induction "is") auto

lemma convert_i16_success:
  "conv_error (convert_i16 v) = CE_None \<Longrightarrow>
     \<exists>s. convert_i16 v = success (Element anonymous ET_I16 s 0 False []) \<and> in_i16 s"
  by (auto simp: convert_i16_def split: if_splits)

lemma convert_unsigned_success:
  "conv_error (convert_unsigned t lo hi v) = CE_None \<Longrightarrow>
     \<exists>u. convert_unsigned t lo hi v = success (Element anonymous t 0 u False []) \<and> lo \<le> u \<and> u \<le> hi"
  by (auto simp: convert_unsigned_def split: if_splits)

lemma convert_identifiers_success:
  "conv_error (convert_identifiers ok t v) = CE_None \<Longrightarrow>
     \<exists>is. convert_identifiers ok t v =
            success (Element anonymous ET_Array 0 0 False
              (map (\<lambda>i. Element anonymous t 0 (ucast i) False []) is)) \<and>
          list_all ok is \<and> length is \<le> 1023"
  by (auto simp: convert_identifiers_def split: if_splits option.splits
      dest: identifier_children_Some)

lemmas convert_successes =
  convert_i16_success convert_unsigned_success convert_identifiers_success

lemma device_type_entry_valid [simp]:
  "valid_device_type_entry (device_type_entry d)" "wf_element (device_type_entry d)"
  by (simp_all add: valid_device_type_entry_def device_type_entry_def wf_tag_def
      ucast_u32_le ucast_u16_le)

lemma identifier_child_bounds:
  "(i :: u32) \<le> 0xFFFE \<Longrightarrow> (ucast i :: u64) \<le> 0xFFFE"
  "(i :: u32) \<le> 0xFFFE \<Longrightarrow> (ucast i :: u64) \<le> 0xFFFF"
  by (simp_all add: word_le_nat_alt)

lemma unsigned_range_trans:
  "(u :: u64) \<le> 2 \<Longrightarrow> u \<le> 0xFF" "u \<le> 254 \<Longrightarrow> u \<le> 0xFF" "u \<le> 0xFFFE \<Longrightarrow> u \<le> 0xFFFF"
  by (simp_all add: word_le_nat_alt)

text \<open>A successful conversion is accepted by the validator of its schema.\<close>

lemma convert_sound:
  assumes "conv_error (convert d v) = CE_None"
  shows "\<exists>e. convert d v = success e \<and> wf_element e \<and> elem_tag e = anonymous \<and>
             valid_body (d_schema d) operation e"
  using assms
  by (cases "d_schema d")
     (auto simp: convert_def valid_body_def wf_tag_def list_all_iff ucast_u32_le
        identifier_child_bounds unsigned_range_trans
       split: if_splits dest!: convert_successes)

text \<open>
  Every well-formed element that a schema other than the access control list accepts is the image
  of some decoded value.
\<close>

definition element_value :: "Schema \<Rightarrow> Element \<Rightarrow> NativeValue" where
  "element_value schema e =
     (case schema of
        Sch_DeviceTypeList \<Rightarrow> device_type_list
          (map (\<lambda>x. \<lparr>dt_id = ucast (unsigned_value (children x ! 0)),
                     dt_revision = ucast (unsigned_value (children x ! 1))\<rparr>) (children e))
      | Sch_ClusterList \<Rightarrow> identifier_list (map (\<lambda>x. ucast (unsigned_value x)) (children e))
      | Sch_PartsList \<Rightarrow> identifier_list (map (\<lambda>x. ucast (unsigned_value x)) (children e))
      | Sch_ReachableEvent \<Rightarrow> reachable_value (boolean_value (children e ! 0))
      | Sch_EmptyStructure \<Rightarrow> empty_structure
      | _ \<Rightarrow>
        (case elem_type e of
           ET_Null \<Rightarrow> null_value
         | ET_I16 \<Rightarrow> signed_integer (signed_value e)
         | ET_Boolean \<Rightarrow> native_boolean (boolean_value e)
         | _ \<Rightarrow> unsigned_integer (unsigned_value e)))"

lemmas native_value_defs =
  default_value_def null_value_def signed_integer_def unsigned_integer_def native_boolean_def
  empty_structure_def device_type_list_def identifier_list_def reachable_value_def

lemma wf_leaf_eq:
  assumes "wf_element x" "tag_kind (elem_tag x) = TK_Anonymous" "elem_type x = t"
    and "t \<in> {ET_U8, ET_U16, ET_U32, ET_U64}"
  shows "x = Element anonymous t 0 (unsigned_value x) False [] \<and> unsigned_value x \<le> unsigned_maximum t"
  using assms by (cases x; cases "elem_tag x") (auto simp: wf_tag_def)

lemma identifier_children_image:
  assumes "list_all wf_element cs"
    and "list_all (\<lambda>x. tag_kind (elem_tag x) = TK_Anonymous \<and> elem_type x = t \<and> Q x) cs"
    and "t \<in> {ET_U16, ET_U32}"
  shows "map (\<lambda>i. Element anonymous t 0 (ucast i) False []) (map (\<lambda>x. ucast (unsigned_value x) :: u32) cs) = cs"
proof (unfold map_map, rule map_idI)
  fix x assume "x \<in> set cs"
  with assms have x: "x = Element anonymous t 0 (unsigned_value x) False []"
    and u: "unsigned_value x \<le> unsigned_maximum t"
    using wf_leaf_eq [of x t] by (auto simp: list_all_iff)
  from u assms(3) have "unsigned_value x \<le> 0xFFFFFFFF" by (auto simp: word_le_nat_alt)
  then show "((\<lambda>i. Element anonymous t 0 (ucast i) False []) \<circ> (\<lambda>x. ucast (unsigned_value x) :: u32)) x = x"
    using x by (simp add: ucast_u32_up)
qed

lemma device_type_entry_image:
  assumes "wf_element x" "valid_device_type_entry x"
  shows "device_type_entry \<lparr>dt_id = ucast (unsigned_value (children x ! 0)),
           dt_revision = ucast (unsigned_value (children x ! 1))\<rparr> = x"
proof -
  obtain t ty s u b cs where x: "x = Element t ty s u b cs" by (cases x)
  with assms(2) obtain i r where cs: "cs = [i, r]"
    by (auto simp: valid_device_type_entry_def split: list.splits)
  obtain ti yi si ui bi ci where i: "i = Element ti yi si ui bi ci" by (cases i)
  obtain tr yr sr ur br cr where r: "r = Element tr yr sr ur br cr" by (cases r)
  show ?thesis
    using assms unfolding x cs i r
    by (cases t; cases ti; cases tr)
       (auto simp: valid_device_type_entry_def device_type_entry_def wf_tag_def
          ucast_u32_up ucast_u16_up)
qed

lemma device_types_image:
  assumes "list_all wf_element cs" "list_all valid_device_type_entry cs"
  shows "map device_type_entry (map (\<lambda>x. \<lparr>dt_id = ucast (unsigned_value (children x ! 0)),
           dt_revision = ucast (unsigned_value (children x ! 1))\<rparr>) cs) = cs"
  unfolding map_map using assms
  by (intro map_idI) (simp add: list_all_iff device_type_entry_image [unfolded One_nat_def])

lemma parts_in_range:
  assumes "list_all (\<lambda>x. tag_kind (elem_tag x) = TK_Anonymous \<and> elem_type x = ET_U16 \<and>
             unsigned_value x \<le> 0xFFFE) cs"
  shows "list_all (\<lambda>i. i \<le> (0xFFFE :: u32)) (map (\<lambda>x. ucast (unsigned_value x)) cs)"
  using assms by (auto simp: list_all_iff word_le_nat_alt unat_ucast_u64_u32)

lemma convert_complete:
  assumes "wf_element e" "tag_kind (elem_tag e) = TK_Anonymous"
    and "valid_body (d_schema d) operation e" "d_schema d \<noteq> Sch_AccessControlList"
  shows "convert d (element_value (d_schema d) e) = success e"
proof -
  obtain t ty s u b cs where e: "e = Element t ty s u b cs" by (cases e)
  have t: "t = anonymous" using assms(1,2) e by (cases t) (auto simp: wf_tag_def)
  have cs: "list_all wf_element cs" using assms(1) e by simp
  note simps = convert_def valid_body_def element_value_def native_value_defs convert_i16_def
    convert_unsigned_def convert_identifiers_def element_def
  show ?thesis
  proof (cases "d_schema d")
    case Sch_DeviceTypeList
    then show ?thesis using assms e t device_types_image [OF cs] by (auto simp: simps)
  next
    case Sch_ClusterList
    then have "list_all valid_cluster (map (\<lambda>x. ucast (unsigned_value x)) cs)"
      using assms(3) e by (auto simp: valid_body_def list_all_iff)
    with Sch_ClusterList show ?thesis
      using assms e t identifier_children_image [OF cs, of ET_U32]
      by (auto simp: simps identifier_children_map)
  next
    case Sch_PartsList
    then have "list_all (\<lambda>i. i \<le> (0xFFFE :: u32)) (map (\<lambda>x. ucast (unsigned_value x)) cs)"
      using assms(3) e by (intro parts_in_range) (simp add: valid_body_def)
    with Sch_PartsList show ?thesis
      using assms e t identifier_children_image [OF cs, of ET_U16]
      by (auto simp: simps identifier_children_map)
  next
    case Sch_ReachableEvent
    with assms(3) e obtain x where x: "cs = [x]"
      by (auto simp: valid_body_def split: list.splits)
    obtain tx yx sx ux bx cx where "x = Element tx yx sx ux bx cx" by (cases x)
    with Sch_ReachableEvent show ?thesis
      using assms e t x by (cases tx) (auto simp: simps)
  qed (use assms e t in \<open>auto simp: simps\<close>)
qed

section \<open>Access control fields\<close>

text \<open>
  A field found by \<open>ContextField\<close> is the only field with its id, and then every field of the
  structure has a context tag.
\<close>

lemma context_field_loop_Some:
  "context_field_loop i (Some r) fs = Some f \<Longrightarrow>
     f = r \<and> list_all (\<lambda>x. tag_kind (elem_tag x) = TK_Context \<and> tag_id (elem_tag x) \<noteq> i) fs"
  by (induction fs) (auto split: if_splits)

lemma context_field_loop_None:
  "context_field_loop i None fs = Some f \<Longrightarrow>
     filter (\<lambda>x. tag_id (elem_tag x) = i) fs = [f] \<and>
     list_all (\<lambda>x. tag_kind (elem_tag x) = TK_Context) fs"
proof (induction fs)
  case (Cons g fs)
  then show ?case
    using context_field_loop_Some [of i g fs f]
    by (auto simp: list_all_iff filter_empty_conv split: if_splits)
qed simp

lemma ContextField_Some:
  "ContextField s i = Some f \<Longrightarrow>
     filter (\<lambda>x. tag_id (elem_tag x) = i) (children s) = [f] \<and>
     list_all (\<lambda>x. tag_kind (elem_tag x) = TK_Context) (children s)"
  unfolding ContextField_def by (rule context_field_loop_None)

lemma context_field_loop_absent:
  "list_all (\<lambda>x. tag_kind (elem_tag x) = TK_Context) fs \<Longrightarrow>
   list_all (\<lambda>x. tag_id (elem_tag x) \<noteq> i) fs \<Longrightarrow> context_field_loop i r fs = r"
  by (induction fs) auto

lemma context_field_loop_unique:
  "list_all (\<lambda>x. tag_kind (elem_tag x) = TK_Context) fs \<Longrightarrow>
   filter (\<lambda>x. tag_id (elem_tag x) = i) fs = [f] \<Longrightarrow> context_field_loop i None fs = Some f"
  by (induction fs) (auto simp: filter_empty_conv list_all_iff split: if_splits
      intro!: context_field_loop_absent)

lemma valid_acl_entry_fields:
  assumes "valid_acl_entry operation entry"
  shows "\<exists>p a s t. ContextField entry 1 = Some p \<and> ContextField entry 2 = Some a \<and>
           ContextField entry 3 = Some s \<and> ContextField entry 4 = Some t \<and>
           1 \<le> unsigned_value p \<and> unsigned_value p \<le> 5 \<and>
           2 \<le> unsigned_value a \<and> unsigned_value a \<le> 3"
  using assms
  by (auto simp: valid_acl_entry_def Let_def ValidNullableSubjects_def ValidNullableTargets_def
      split: if_splits option.splits)

section \<open>Properties\<close>

text \<open>
  Conversion is sound: whenever \<open>convert_value\<close> reports no error it carries an
  element, and that element is well formed (one payload, inside its width) and accepted by
  \<open>validate_element\<close> for the same member and operation.
\<close>

theorem convert_value_sound:
  assumes "conv_error (convert_value k c m operation v) = CE_None"
  shows "\<exists>e. convert_value k c m operation v = success e \<and> wf_element e \<and>
             validate_element k c m operation e = CE_None"
proof -
  from assms obtain d where d: "lookup_descriptor k c m = Some d"
    and op: "d_operations d AND operation_flag operation \<noteq> 0"
    and ok: "conv_error (convert d v) = CE_None"
    by (auto simp: convert_value_def split: option.splits if_splits)
  obtain e where "convert d v = success e" "wf_element e" "elem_tag e = anonymous"
    "valid_body (d_schema d) operation e"
    using convert_sound [OF ok, of operation] by blast
  then show ?thesis
    using d op by (auto simp: convert_value_def validate_element_def verdict_def)
qed

theorem convert_value_sound_witness:
  "\<exists>e. convert_value MK_Attribute 0x0201 0 Op_Read (signed_integer 2150) = success e \<and>
       wf_element e \<and> validate_element MK_Attribute 0x0201 0 Op_Read e = CE_None"
proof (rule convert_value_sound)
  show "conv_error (convert_value MK_Attribute 0x0201 0 Op_Read (signed_integer 2150)) = CE_None"
    by code_simp
qed

text \<open>
  Conversion is complete: every well-formed element that \<open>validate_element\<close> accepts
  for a member whose schema is not the access control list is produced by \<open>convert_value\<close> from
  some decoded value, so the converter and the validator agree on the value space.
\<close>

theorem convert_value_complete:
  assumes "wf_element e" "validate_element k c m operation e = CE_None"
    and "map_option d_schema (lookup_descriptor k c m) \<noteq> Some Sch_AccessControlList"
  shows "\<exists>v. convert_value k c m operation v = success e"
proof -
  from assms(2,3) obtain d where d: "lookup_descriptor k c m = Some d"
    and "d_operations d AND operation_flag operation \<noteq> 0" "tag_kind (elem_tag e) = TK_Anonymous"
    and "valid_body (d_schema d) operation e" "d_schema d \<noteq> Sch_AccessControlList"
    by (auto simp: validate_element_def verdict_def split: option.splits if_splits)
  then show ?thesis
    using convert_complete [OF assms(1), of d operation]
    by (intro exI [of _ "element_value (d_schema d) e"]) (simp add: convert_value_def)
qed

theorem convert_value_complete_witness:
  "\<exists>v. convert_value MK_Attribute 0x001D 1 Op_Read v =
         success (Element anonymous ET_Array 0 0 False
           [Element anonymous ET_U32 0 6 False [], Element anonymous ET_U32 0 0x201 False []])"
proof (rule convert_value_complete)
  show "wf_element (Element anonymous ET_Array 0 0 False
      [Element anonymous ET_U32 0 6 False [], Element anonymous ET_U32 0 0x201 False []])"
    by code_simp
  show "validate_element MK_Attribute 0x001D 1 Op_Read (Element anonymous ET_Array 0 0 False
      [Element anonymous ET_U32 0 6 False [], Element anonymous ET_U32 0 0x201 False []]) = CE_None"
    by code_simp
  show "map_option d_schema (lookup_descriptor MK_Attribute 0x001D 1) \<noteq> Some Sch_AccessControlList"
    by code_simp
qed

text \<open>
  An access control list accepted for writing names only operational
  authentication modes: in every entry the privilege (1), authentication mode (2), subjects (3) and
  targets (4) fields occur exactly once, the authentication mode is CASE (2) or group (3), never
  PASE (1), the privilege is between 1 and 5, and no entry carries a single fabric index (254).
\<close>

theorem acl_write_operational:
  assumes "validate_element MK_Attribute 0x001F 0 Op_Write e = CE_None"
    and "entry \<in> set (children e)"
  shows "(\<forall>i\<in>{1, 2, 3, 4}. length (filter (\<lambda>f. tag_id (elem_tag f) = i) (children entry)) = 1) \<and>
         (\<forall>f\<in>set (children entry). tag_id (elem_tag f) = 2 \<longrightarrow>
             unsigned_value f = 2 \<or> unsigned_value f = 3) \<and>
         (\<forall>f\<in>set (children entry). tag_id (elem_tag f) = 1 \<longrightarrow>
             1 \<le> unsigned_value f \<and> unsigned_value f \<le> 5) \<and>
         length (filter (\<lambda>f. tag_id (elem_tag f) = 254) (children entry)) \<noteq> 1"
proof -
  have "lookup_descriptor MK_Attribute 0x001F 0 =
      Some (mk_descriptor MK_Attribute 0x001F 0 Sch_AccessControlList (kRead OR kWrite))"
    by code_simp
  with assms have v: "valid_acl_entry Op_Write entry"
    by (auto simp: validate_element_def mk_descriptor_def verdict_def valid_body_def
        valid_access_control_list_def list_all_iff split: if_splits)
  obtain p a s t where f: "ContextField entry 1 = Some p" "ContextField entry 2 = Some a"
      "ContextField entry 3 = Some s" "ContextField entry 4 = Some t"
    and p: "1 \<le> unsigned_value p" "unsigned_value p \<le> 5"
    and a: "2 \<le> unsigned_value a" "unsigned_value a \<le> 3"
    using valid_acl_entry_fields [OF v] by blast
  note u = f [THEN ContextField_Some]
  have only: "\<And>g. g \<in> set (children entry) \<Longrightarrow> tag_id (elem_tag g) = 2 \<Longrightarrow> g = a"
    "\<And>g. g \<in> set (children entry) \<Longrightarrow> tag_id (elem_tag g) = 1 \<Longrightarrow> g = p"
    using u(1,2) by (auto dest: filter_singleton_eq)
  have a': "unsigned_value a = 2 \<or> unsigned_value a = 3"
    using a by (auto simp: word_le_nat_alt word_unat_eq_iff)
  have "ContextField entry 254 = None"
    using v by (auto simp: valid_acl_entry_def Let_def split: if_splits option.splits)
  then have fabric: "length (filter (\<lambda>f. tag_id (elem_tag f) = 254) (children entry)) \<noteq> 1"
    using u(1) context_field_loop_unique [of "children entry" 254]
    by (auto simp: ContextField_def length_Suc_conv)
  show ?thesis using u only p a' fabric by auto
qed

definition example_acl_entry :: "Element list \<Rightarrow> Element" where
  "example_acl_entry extra =
     Element anonymous ET_Structure 0 0 False
       ([Element (Tag TK_Context 1) ET_U8 0 5 False [],
         Element (Tag TK_Context 2) ET_U8 0 2 False [],
         Element (Tag TK_Context 3) ET_Array 0 0 False [Element anonymous ET_U64 0 112233 False []],
         Element (Tag TK_Context 4) ET_Null 0 0 False []] @ extra)"

definition example_acl :: "Element list \<Rightarrow> Element" where
  "example_acl extra = Element anonymous ET_Array 0 0 False [example_acl_entry extra]"

theorem acl_write_operational_witness:
  "validate_element MK_Attribute 0x001F 0 Op_Write (example_acl []) = CE_None \<and>
   length (filter (\<lambda>f. tag_id (elem_tag f) = 2) (children (example_acl_entry []))) = 1"
proof -
  have v: "validate_element MK_Attribute 0x001F 0 Op_Write (example_acl []) = CE_None"
    by code_simp
  have m: "example_acl_entry [] \<in> set (children (example_acl []))"
    by (simp add: example_acl_def)
  show ?thesis using v acl_write_operational [OF v m] by simp
qed

text \<open>
  The single-occurrence test of optional fields is one-sided: \<open>ContextField\<close>
  answers null for a duplicated field as it does for an absent one, so an entry that carries the
  fabric index twice is accepted for writing although an entry that carries it once is rejected.
\<close>

theorem acl_duplicate_fabric_index:
  "(\<forall>x. validate_element MK_Attribute 0x001F 0 Op_Write
      (example_acl [Element (Tag TK_Context 254) ET_U8 0 x False []]) = CE_InvalidValue) \<and>
   (\<forall>x y. validate_element MK_Attribute 0x001F 0 Op_Write
      (example_acl [Element (Tag TK_Context 254) ET_U8 0 x False [],
                    Element (Tag TK_Context 254) ET_U8 0 y False []]) = CE_None)"
proof -
  have d: "lookup_descriptor MK_Attribute 0x001F 0 =
      Some (mk_descriptor MK_Attribute 0x001F 0 Sch_AccessControlList (kRead OR kWrite))"
    by code_simp
  have op: "(kRead OR kWrite) AND kWrite \<noteq> 0"
    by code_simp
  show ?thesis
    using op
    by (simp add: validate_element_def d mk_descriptor_def verdict_def valid_body_def
        valid_access_control_list_def example_acl_def example_acl_entry_def valid_acl_entry_def
        ContextField_def ValidNullableSubjects_def ValidNullableTargets_def)
qed

text \<open>
  The descriptor table is unambiguous: a lookup returns exactly the table's entry
  for the member, so the first-match loop hides no later entry.
\<close>

theorem lookup_descriptor_iff:
  "lookup_descriptor k c m = Some d \<longleftrightarrow>
     d \<in> set kDescriptors \<and> d_kind d = k \<and> d_cluster d = c \<and> d_member d = m"
proof -
  have "distinct (map (\<lambda>d. (d_kind d, d_cluster d, d_member d)) kDescriptors)"
    by code_simp
  then show ?thesis
    unfolding lookup_descriptor_def
    by (auto simp: find_distinct_key [of "\<lambda>d. (d_kind d, d_cluster d, d_member d)" _ "(k, c, m)", simplified])
qed

end
