(* ===== verification/Interaction.thy ===== *)
theory Interaction
  imports MatterValue
begin

text \<open>
  \<^verbatim>\<open>native/include/wotex_matter/interaction.hpp\<close> and \<^verbatim>\<open>native/src/interaction.cpp\<close>: the requests and
  responses of the Interaction Model operations, their validators, the remaining-time computation
  and the completion latch shared by the SDK thread and the waiting host thread. Record fields
  carry a prefix for their struct (\<open>ps_\<close> PathSelector, \<open>cp_\<close> ConcretePath, \<open>rq_\<close> InteractionRequest,
  \<open>ie_\<close> InteractionError, \<open>pr_\<close> PathResult, \<open>rs_\<close> InteractionResponse).
\<close>

section \<open>Data\<close>

definition kMaximumInteractionPaths :: nat where "kMaximumInteractionPaths = 64"
definition kMaximumInteractionReports :: nat where "kMaximumInteractionReports = 1024"
definition kMaximumInteractionResultBytes :: nat where "kMaximumInteractionResultBytes = 98304"

definition kMaximumOperationalNode :: u64 where
  "kMaximumOperationalNode = 0xFFFFFFEFFFFFFFFF"

datatype InteractionKind = IK_ReadAttribute | IK_ReadAttributes | IK_ReadEvents | IK_Write | IK_Invoke

datatype InteractionEffect = Effect_None | Effect_Unknown

record PathSelector =
  ps_fabric_id :: u64
  ps_node_id :: u64
  ps_endpoint :: "u16 option"
  ps_cluster :: "u32 option"
  ps_member :: "u32 option"

record ConcretePath =
  cp_fabric_id :: u64
  cp_node_id :: u64
  cp_endpoint :: u16
  cp_cluster :: u32
  cp_member :: u32

record InteractionRequest =
  rq_kind :: InteractionKind
  rq_fabric_id :: u64
  rq_node_id :: u64
  rq_paths :: "PathSelector list"
  rq_value :: "Element option"
  rq_expected_data_version :: "u32 option"
  rq_timed_request_timeout_ms :: "u16 option"
  rq_minimum_event_number :: "u64 option"
  rq_timeout_ms :: u32

record InteractionError =
  ie_code :: string
  ie_status :: "u8 option"
  ie_cluster_status :: "u8 option"
  ie_effect :: InteractionEffect

record AttributeData =
  ad_path :: ConcretePath
  ad_value :: Element
  ad_data_version :: "u32 option"

datatype TimestampKind = TS_System | TS_Epoch

record EventData =
  ed_path :: ConcretePath
  ed_value :: Element
  ed_event_number :: u64
  ed_priority :: u8
  ed_timestamp_kind :: TimestampKind
  ed_timestamp_value :: u64

record PathResult =
  pr_path :: ConcretePath
  pr_attribute :: "AttributeData option"
  pr_event :: "EventData option"
  pr_error :: "InteractionError option"

record InteractionResponse =
  rs_ok :: bool
  rs_error :: "InteractionError option"
  rs_results :: "PathResult list"
  rs_response_path :: "ConcretePath option"
  rs_response_value :: "Element option"
  rs_status :: u8
  rs_cluster_status :: "u8 option"

section \<open>Path predicates\<close>

definition ValidSelector :: "PathSelector \<Rightarrow> bool \<Rightarrow> bool" where [wire_defs]:
  "ValidSelector path concrete =
     (if ps_fabric_id path = 0 \<or> ps_node_id path = 0 \<or> ps_node_id path > 0xFFFFFFEFFFFFFFFF
      then False
      else if concrete \<and> (ps_endpoint path = None \<or> ps_cluster path = None \<or> ps_member path = None)
      then False
      else (case ps_endpoint path of None \<Rightarrow> True | Some x \<Rightarrow> x \<le> 0xFFFE) \<and>
           (case ps_cluster path of None \<Rightarrow> True | Some x \<Rightarrow> valid_cluster x) \<and>
           (case ps_member path of None \<Rightarrow> True | Some x \<Rightarrow> x \<le> 0xFFFFFFFE))"

definition SamePath :: "ConcretePath \<Rightarrow> ConcretePath \<Rightarrow> bool" where
  "SamePath l r \<longleftrightarrow>
     cp_fabric_id l = cp_fabric_id r \<and> cp_node_id l = cp_node_id r \<and>
     cp_endpoint l = cp_endpoint r \<and> cp_cluster l = cp_cluster r \<and> cp_member l = cp_member r"

definition Selected :: "PathSelector \<Rightarrow> ConcretePath \<Rightarrow> bool" where [wire_defs]:
  "Selected s p \<longleftrightarrow>
     ps_fabric_id s = cp_fabric_id p \<and> ps_node_id s = cp_node_id p \<and>
     (case ps_endpoint s of None \<Rightarrow> True | Some x \<Rightarrow> x = cp_endpoint p) \<and>
     (case ps_cluster s of None \<Rightarrow> True | Some x \<Rightarrow> x = cp_cluster p) \<and>
     (case ps_member s of None \<Rightarrow> True | Some x \<Rightarrow> x = cp_member p)"

definition ValidPathResult :: "InteractionRequest \<Rightarrow> PathResult \<Rightarrow> bool" where
  "ValidPathResult request result =
     (if \<not> list_ex (\<lambda>path. Selected path (pr_path result)) (rq_paths request) then False
      else if of_bool (pr_attribute result \<noteq> None) + of_bool (pr_event result \<noteq> None) +
              of_bool (pr_error result \<noteq> None) \<noteq> (1 :: nat)
      then False
      else case pr_attribute result of
        Some a \<Rightarrow>
          rq_kind request \<noteq> IK_ReadEvents \<and> SamePath (pr_path result) (ad_path a) \<and>
          validate_element MK_Attribute (cp_cluster (pr_path result)) (cp_member (pr_path result))
            Op_Read (ad_value a) = CE_None
      | None \<Rightarrow>
        (case pr_event result of
           Some e \<Rightarrow>
             rq_kind request = IK_ReadEvents \<and> SamePath (pr_path result) (ed_path e) \<and>
             validate_element MK_Event (cp_cluster (pr_path result)) (cp_member (pr_path result))
               Op_Read (ed_value e) = CE_None
         | None \<Rightarrow>
             (case pr_error result of
                None \<Rightarrow> False
              | Some x \<Rightarrow> ie_code x \<noteq> [] \<and> ie_effect x = Effect_None)))"

section \<open>Validators\<close>

definition valid_encoded_result_size :: "nat \<Rightarrow> bool" where
  "valid_encoded_result_size bytes \<longleftrightarrow> bytes \<le> kMaximumInteractionResultBytes"

definition is_mutation :: "InteractionKind \<Rightarrow> bool" where [wire_defs]:
  "is_mutation k \<longleftrightarrow> k = IK_Write \<or> k = IK_Invoke"

definition valid_interaction_request :: "InteractionRequest \<Rightarrow> bool" where
  "valid_interaction_request request =
     (if rq_timeout_ms request = 0 \<or> rq_timeout_ms request > 60000 \<or>
         rq_fabric_id request = 0 \<or> rq_node_id request = 0 \<or>
         rq_node_id request > 0xFFFFFFEFFFFFFFFF \<or> rq_paths request = [] \<or>
         length (rq_paths request) > kMaximumInteractionPaths
      then False
      else
        let concrete = rq_kind request \<noteq> IK_ReadAttributes;
            mutation = is_mutation (rq_kind request)
        in if \<not> list_all (\<lambda>path. ps_fabric_id path = rq_fabric_id request \<and>
                                 ps_node_id path = rq_node_id request \<and>
                                 ValidSelector path concrete) (rq_paths request)
           then False
           else if mutation \<noteq> (rq_value request \<noteq> None) then False
           else if rq_expected_data_version request \<noteq> None \<and> rq_kind request \<noteq> IK_Write
           then False
           else if (case rq_timed_request_timeout_ms request of None \<Rightarrow> False
                    | Some t \<Rightarrow> \<not> mutation \<or> t = 0 \<or> ucast t > rq_timeout_ms request)
           then False
           else if rq_minimum_event_number request \<noteq> None \<and> rq_kind request \<noteq> IK_ReadEvents
           then False
           else if mutation
           then let path = hd (rq_paths request);
                    member_kind = (if rq_kind request = IK_Write then MK_Attribute else MK_Command);
                    operation = (if rq_kind request = IK_Write then Op_Write else Op_Invoke)
                in length (rq_paths request) = 1 \<and>
                   validate_element member_kind (the (ps_cluster path)) (the (ps_member path))
                     operation (the (rq_value request)) = CE_None
           else rq_value request = None \<and> rq_expected_data_version request = None \<and>
                rq_timed_request_timeout_ms request = None)"

definition has_wildcard :: "PathSelector \<Rightarrow> bool" where [wire_defs]:
  "has_wildcard path \<longleftrightarrow> ps_endpoint path = None \<or> ps_cluster path = None \<or> ps_member path = None"

definition valid_interaction_response :: "InteractionRequest \<Rightarrow> InteractionResponse \<Rightarrow> bool" where
  "valid_interaction_response request response =
     (if \<not> rs_ok response
      then (case rs_error response of None \<Rightarrow> False | Some e \<Rightarrow> ie_code e \<noteq> []) \<and>
           rs_results response = [] \<and> rs_response_path response = None \<and>
           rs_response_value response = None
      else if rs_error response \<noteq> None \<or>
              length (rs_results response) > kMaximumInteractionReports
      then False
      else if rq_kind request = IK_ReadAttribute \<or> rq_kind request = IK_ReadAttributes \<or>
              rq_kind request = IK_ReadEvents
      then let all_wildcard = rq_kind request = IK_ReadAttributes \<and>
                 list_all has_wildcard (rq_paths request)
           in (rs_results response \<noteq> [] \<or> all_wildcard \<or> rq_kind request = IK_ReadEvents) \<and>
              list_all (ValidPathResult request) (rs_results response)
      else if length (rq_paths request) \<noteq> 1 then False
      else if rq_kind request = IK_Write
      then rs_results response = [] \<and> rs_status response = 0 \<and>
           (case rs_response_path response of None \<Rightarrow> False
            | Some p \<Rightarrow> Selected (hd (rq_paths request)) p) \<and>
           rs_response_value response = None
      else if rq_kind request \<noteq> IK_Invoke \<or> rs_results response \<noteq> [] \<or> rs_status response \<noteq> 0 \<or>
              (rs_response_path response \<noteq> None) \<noteq> (rs_response_value response \<noteq> None)
      then False
      else case rs_response_path response of
        None \<Rightarrow> True
      | Some path \<Rightarrow>
          let target = hd (rq_paths request)
          in cp_fabric_id path = ps_fabric_id target \<and> cp_node_id path = ps_node_id target \<and>
             ps_endpoint target = Some (cp_endpoint path) \<and>
             ps_cluster target = Some (cp_cluster path) \<and>
             validate_element MK_Command (cp_cluster path) (cp_member path) Op_Invoke
               (the (rs_response_value response)) = CE_None)"

definition remaining_timeout_ms :: "u32 \<Rightarrow> u64 \<Rightarrow> u32" where
  "remaining_timeout_ms timeout_ms elapsed_ms =
     (if elapsed_ms \<ge> ucast timeout_ms then 0 else ucast (ucast timeout_ms - elapsed_ms))"

section \<open>The completion latch\<close>

text \<open>
  \<open>MutationCompletion\<close> is one atomic byte: bit 0 records the submission, bit 1 the completion.
  Each method is a single atomic operation, so a concurrent run is a sequence of these steps.
\<close>

type_synonym latch = u8

datatype latch_op = L_Submit | L_Complete | L_Timeout

definition latch_init :: latch where "latch_init = 0"

definition Submit_latch :: "latch \<Rightarrow> bool \<times> latch" where
  "Submit_latch s = (if s = 0 then (True, 1) else (False, s))"

definition Complete :: "latch \<Rightarrow> bool \<times> latch" where
  "Complete s = ((s AND 2) = 0, s OR 2)"

definition Timeout :: "latch \<Rightarrow> bool \<times> latch" where
  "Timeout s = Complete s"

definition completed :: "latch \<Rightarrow> bool" where
  "completed s \<longleftrightarrow> s AND 2 \<noteq> 0"

definition submitted :: "latch \<Rightarrow> bool" where
  "submitted s \<longleftrightarrow> s AND 1 \<noteq> 0"

fun latch_step :: "latch_op \<Rightarrow> latch \<Rightarrow> bool \<times> latch" where
  "latch_step L_Submit s = Submit_latch s"
| "latch_step L_Complete s = Complete s"
| "latch_step L_Timeout s = Timeout s"

text \<open>A run: the list of operations with the answers they got, and the final byte.\<close>

fun latch_run :: "latch \<Rightarrow> latch_op list \<Rightarrow> (latch_op \<times> bool) list \<times> latch" where
  "latch_run s [] = ([], s)"
| "latch_run s (op # ops) =
     (let (r, s') = latch_step op s; (rs, t) = latch_run s' ops in ((op, r) # rs, t))"

section \<open>Lemmas\<close>

lemma SamePath_iff_eq: "SamePath l r \<longleftrightarrow> l = r"
  by (cases l; cases r) (auto simp: SamePath_def)

lemma ValidSelector_concrete:
  "ValidSelector p True \<Longrightarrow> \<exists>e c m. ps_endpoint p = Some e \<and> ps_cluster p = Some c \<and> ps_member p = Some m"
  by (auto simp: ValidSelector_def split: if_splits)

lemmas valid_request_conj = valid_interaction_request_def [unfolded Let_def guard_conj]

lemma valid_request_paths:
  assumes "valid_interaction_request q"
  shows "rq_paths q \<noteq> []" "length (rq_paths q) \<le> 64"
    and "\<forall>p\<in>set (rq_paths q). ps_fabric_id p = rq_fabric_id q \<and> ps_node_id p = rq_node_id q \<and>
           ValidSelector p (rq_kind q \<noteq> IK_ReadAttributes)"
  using assms unfolding valid_request_conj kMaximumInteractionPaths_def list_all_iff
  by (blast, linarith, blast)

lemma valid_request_mutation:
  assumes "valid_interaction_request q" "is_mutation (rq_kind q)"
  shows "length (rq_paths q) = 1" and "rq_value q \<noteq> None"
    and "validate_element (if rq_kind q = IK_Write then MK_Attribute else MK_Command)
      (the (ps_cluster (hd (rq_paths q)))) (the (ps_member (hd (rq_paths q))))
      (if rq_kind q = IK_Write then Op_Write else Op_Invoke) (the (rq_value q)) = CE_None"
  using assms unfolding valid_request_conj by (blast dest: if_trueD)+

text \<open>The latch: its reachable bytes and the winner of each run.\<close>

lemma latch_bytes: "(0 :: u8) AND 2 = 0" "(1 :: u8) AND 2 = 0" "(2 :: u8) AND 2 = 2"
  "(3 :: u8) AND 2 = 2" "(0 :: u8) OR 2 = 2" "(1 :: u8) OR 2 = 3" "(2 :: u8) OR 2 = 2"
  "(3 :: u8) OR 2 = 3"
  by simp_all

definition finishing :: "latch_op \<Rightarrow> bool" where
  "finishing op \<longleftrightarrow> op = L_Complete \<or> op = L_Timeout"

definition winners :: "(latch_op \<times> bool) list \<Rightarrow> latch_op list" where
  "winners rs = map fst (filter (\<lambda>(op, r). r \<and> finishing op) rs)"

lemma latch_run_winners:
  "s \<in> {0, 1, 2, 3} \<Longrightarrow>
     length (winners (fst (latch_run s ops))) =
       (if completed s then 0 else if list_ex finishing ops then 1 else 0)"
proof (induction ops arbitrary: s)
  case Nil
  then show ?case by (simp add: winners_def)
next
  case (Cons op ops)
  have step: "snd (latch_step op s) \<in> {0, 1, 2, 3}"
    using Cons.prems
    by (cases op) (auto simp: Submit_latch_def Complete_def Timeout_def latch_bytes)
  have "length (winners (fst (latch_run s (op # ops)))) =
      (if fst (latch_step op s) \<and> finishing op then 1 else 0) +
      length (winners (fst (latch_run (snd (latch_step op s)) ops)))"
    by (simp add: winners_def case_prod_beta Let_def)
  also have "\<dots> = (if completed s then 0 else if list_ex finishing (op # ops) then 1 else 0)"
    using Cons.prems Cons.IH [OF step]
    by (cases op)
       (auto simp: finishing_def Submit_latch_def Complete_def Timeout_def completed_def latch_bytes)
  finally show ?case .
qed

lemma latch_run_submits:
  "s \<in> {0, 1, 2, 3} \<Longrightarrow>
     length (filter (\<lambda>r. r = (L_Submit, True)) (fst (latch_run s ops))) \<le> (if s = 0 then 1 else 0)"
proof (induction ops arbitrary: s)
  case (Cons op ops)
  have step: "snd (latch_step op s) \<in> {0, 1, 2, 3}"
    using Cons.prems
    by (cases op) (auto simp: Submit_latch_def Complete_def Timeout_def latch_bytes)
  show ?case
    using Cons.prems Cons.IH [OF step]
    by (cases op)
       (auto simp: Submit_latch_def Complete_def Timeout_def latch_bytes case_prod_beta Let_def)
qed simp

section \<open>Properties\<close>

text \<open>
  A valid request can be executed without a null dereference: it has between one
  and 64 paths, all of its own fabric and node; unless it is a wildcard read every path is concrete;
  and a write or invoke has exactly one path and a value that the member's schema accepts for that
  operation.
\<close>

theorem valid_interaction_request_safe:
  assumes "valid_interaction_request q"
  shows "1 \<le> length (rq_paths q) \<and> length (rq_paths q) \<le> 64 \<and>
    (\<forall>p\<in>set (rq_paths q). ps_fabric_id p = rq_fabric_id q \<and> ps_node_id p = rq_node_id q \<and>
       (rq_kind q \<noteq> IK_ReadAttributes \<longrightarrow> \<not> has_wildcard p)) \<and>
    (is_mutation (rq_kind q) \<longrightarrow>
      (\<exists>p e c m v. rq_paths q = [p] \<and> ps_endpoint p = Some e \<and> ps_cluster p = Some c \<and>
         ps_member p = Some m \<and> rq_value q = Some v \<and>
         validate_element (if rq_kind q = IK_Write then MK_Attribute else MK_Command) c m
           (if rq_kind q = IK_Write then Op_Write else Op_Invoke) v = CE_None))"
proof -
  note paths = valid_request_paths [OF assms]
  have concrete: "\<exists>e c m. ps_endpoint p = Some e \<and> ps_cluster p = Some c \<and> ps_member p = Some m"
    if "p \<in> set (rq_paths q)" "rq_kind q \<noteq> IK_ReadAttributes" for p
    using paths(3) that by (intro ValidSelector_concrete) auto
  have "\<exists>p e c m v. rq_paths q = [p] \<and> ps_endpoint p = Some e \<and> ps_cluster p = Some c \<and>
         ps_member p = Some m \<and> rq_value q = Some v \<and>
         validate_element (if rq_kind q = IK_Write then MK_Attribute else MK_Command) c m
           (if rq_kind q = IK_Write then Op_Write else Op_Invoke) v = CE_None"
    if mut: "is_mutation (rq_kind q)"
  proof -
    note m = valid_request_mutation [OF assms mut]
    obtain v where v: "rq_value q = Some v" using m(2) by blast
    obtain p where p: "rq_paths q = [p]" using m(1) by (cases "rq_paths q") auto
    obtain e c m where "ps_endpoint p = Some e" "ps_cluster p = Some c" "ps_member p = Some m"
      using concrete [of p] p mut by (auto simp: is_mutation_def)
    with p v m(3) show ?thesis by simp
  qed
  then show ?thesis
    using paths concrete by (auto simp: has_wildcard_def Suc_le_eq)
qed

definition example_write :: InteractionRequest where
  "example_write =
     \<lparr>rq_kind = IK_Write, rq_fabric_id = 1, rq_node_id = 2,
      rq_paths = [\<lparr>ps_fabric_id = 1, ps_node_id = 2, ps_endpoint = Some 1,
                   ps_cluster = Some 0x0201, ps_member = Some 0x0012\<rparr>],
      rq_value = Some (Element anonymous ET_I16 2150 0 False []),
      rq_expected_data_version = Some 7, rq_timed_request_timeout_ms = Some 500,
      rq_minimum_event_number = None, rq_timeout_ms = 5000\<rparr>"

theorem valid_interaction_request_safe_witness:
  "valid_interaction_request example_write \<and> length (rq_paths example_write) \<le> 64"
proof -
  have v: "valid_interaction_request example_write" by code_simp
  show ?thesis using v valid_interaction_request_safe [OF v] by blast
qed

text \<open>
  A successful read response that passes validation answers only what was asked:
  every result lies under one of the request's paths, hence in the request's fabric and node, has
  exactly one outcome, and a delivered value is for the same path and accepted by the member's
  schema.
\<close>

theorem valid_read_response_selected:
  assumes "valid_interaction_request q" "valid_interaction_response q r"
    and "rs_ok r" "\<not> is_mutation (rq_kind q)" "x \<in> set (rs_results r)"
  shows "(\<exists>p\<in>set (rq_paths q). Selected p (pr_path x)) \<and>
    cp_fabric_id (pr_path x) = rq_fabric_id q \<and> cp_node_id (pr_path x) = rq_node_id q \<and>
    ((\<exists>a. pr_attribute x = Some a \<and> pr_event x = None \<and> pr_error x = None \<and> ad_path a = pr_path x \<and>
        validate_element MK_Attribute (cp_cluster (pr_path x)) (cp_member (pr_path x)) Op_Read
          (ad_value a) = CE_None) \<or>
     (\<exists>e. pr_attribute x = None \<and> pr_event x = Some e \<and> pr_error x = None \<and> ed_path e = pr_path x \<and>
        validate_element MK_Event (cp_cluster (pr_path x)) (cp_member (pr_path x)) Op_Read
          (ed_value e) = CE_None) \<or>
     (\<exists>e. pr_attribute x = None \<and> pr_event x = None \<and> pr_error x = Some e \<and> ie_code e \<noteq> []))"
proof -
  have k: "rq_kind q = IK_ReadAttribute \<or> rq_kind q = IK_ReadAttributes \<or> rq_kind q = IK_ReadEvents"
    using assms(4) by (cases "rq_kind q") (auto simp: is_mutation_def)
  then have v: "ValidPathResult q x"
    using assms(2,3,5)
    by (auto simp: valid_interaction_response_def Let_def list_all_iff split: if_splits)
  then obtain p where p: "p \<in> set (rq_paths q)" "Selected p (pr_path x)"
    by (auto simp: ValidPathResult_def list_ex_iff split: if_splits)
  have "ps_fabric_id p = rq_fabric_id q" "ps_node_id p = rq_node_id q"
    using valid_request_paths(3) [OF assms(1)] p(1) by auto
  then have "cp_fabric_id (pr_path x) = rq_fabric_id q" "cp_node_id (pr_path x) = rq_node_id q"
    using p(2) by (auto simp: Selected_def)
  then show ?thesis
    using p v
    by (cases "pr_attribute x"; cases "pr_event x"; cases "pr_error x")
       (auto simp: ValidPathResult_def SamePath_iff_eq split: if_splits)
qed

definition example_read :: InteractionRequest where
  "example_read = example_write
     \<lparr>rq_kind := IK_ReadAttribute, rq_value := None, rq_expected_data_version := None,
      rq_timed_request_timeout_ms := None\<rparr>"

definition example_result :: PathResult where
  "example_result =
     (let p = \<lparr>cp_fabric_id = 1, cp_node_id = 2, cp_endpoint = 1, cp_cluster = 0x0201,
               cp_member = 0x0012\<rparr>
      in \<lparr>pr_path = p,
          pr_attribute = Some \<lparr>ad_path = p, ad_value = Element anonymous ET_I16 2150 0 False [],
                               ad_data_version = Some 3\<rparr>,
          pr_event = None, pr_error = None\<rparr>)"

definition example_response :: InteractionResponse where
  "example_response =
     \<lparr>rs_ok = True, rs_error = None, rs_results = [example_result], rs_response_path = None,
      rs_response_value = None, rs_status = 0, rs_cluster_status = None\<rparr>"

theorem valid_read_response_selected_witness:
  "cp_fabric_id (pr_path example_result) = rq_fabric_id example_read"
proof -
  have q: "valid_interaction_request example_read" by code_simp
  have r: "valid_interaction_response example_read example_response" by code_simp
  have "rs_ok example_response" "\<not> is_mutation (rq_kind example_read)"
    "example_result \<in> set (rs_results example_response)"
    by (simp_all add: example_response_def example_read_def is_mutation_def)
  then show ?thesis using valid_read_response_selected [OF q r] by blast
qed

text \<open>
  Completion is decided once: however the submitting thread, the SDK callback and
  the timed-out waiter interleave, exactly one \<open>Complete\<close> or \<open>Timeout\<close> call (if there is any)
  is answered true, and at most one \<open>Submit\<close> is.
\<close>

theorem latch_single_winner:
  "length (winners (fst (latch_run latch_init ops))) = (if list_ex finishing ops then 1 else 0) \<and>
   length (filter (\<lambda>r. r = (L_Submit, True)) (fst (latch_run latch_init ops))) \<le> 1"
  using latch_run_winners [of latch_init ops] latch_run_submits [of latch_init ops]
  by (simp add: latch_init_def completed_def)

text \<open>
  The remaining time is exact: it is the timeout minus the elapsed time, and zero
  from the deadline on, with no wrap-around in the mixed-width subtraction.
\<close>

theorem remaining_timeout_exact:
  "unat (remaining_timeout_ms t e) = unat t - unat e"
proof (cases "unat t \<le> unat e")
  case True
  then show ?thesis by (simp add: remaining_timeout_ms_def word_le_nat_alt)
next
  case False
  then have "unat ((ucast t :: u64) - e) = unat t - unat e"
    by (simp add: unat_sub word_le_nat_alt)
  moreover have "unat t - unat e < 2 ^ 32" using unat_u32_less [of t] by simp
  ultimately show ?thesis
    using False by (simp add: remaining_timeout_ms_def word_le_nat_alt unat_ucast_u64_u32)
qed

end
