(* ===== verification/Commissioning.thy ===== *)
theory Commissioning
  imports Interaction
begin

text \<open>
  \<^verbatim>\<open>native/include/wotex_matter/commissioning.hpp\<close> and \<^verbatim>\<open>native/src/commissioning.cpp\<close>: the setup
  passcode rule and the validators of commissioning and commissioning-window requests and
  responses.
\<close>

section \<open>Data\<close>

record CommissioningError =
  ce_code :: string
  ce_sdk_status :: "u32 option"
  ce_effect :: InteractionEffect

record CommissioningRequest =
  cq_node_id :: u64
  cq_setup_pin :: u32
  cq_discriminator :: u16
  cq_timeout_ms :: u32

record CommissioningResponse =
  cr_ok :: bool
  cr_error :: "CommissioningError option"
  cr_node_id :: u64
  cr_fabric_id :: u64
  cr_case_established :: bool

record CommissioningWindowRequest =
  wq_node_id :: u64
  wq_timeout_s :: u16
  wq_iteration_count :: u32
  wq_discriminator :: u16
  wq_timeout_ms :: u32

record CommissioningWindowResponse =
  wr_ok :: bool
  wr_error :: "CommissioningError option"
  wr_node_id :: u64
  wr_setup_pin :: u32
  wr_discriminator :: u16
  wr_expires_in_s :: u16
  wr_manual_code :: string
  wr_qr_code :: string

section \<open>Validators\<close>

definition ValidFailure :: "CommissioningError option \<Rightarrow> bool" where
  "ValidFailure err =
     (case err of None \<Rightarrow> False | Some e \<Rightarrow> ce_code e \<noteq> [] \<and> length (ce_code e) \<le> 64)"

text \<open>The first loop of \<open>RepeatedDigit\<close> peels off eight decimal digits, least significant first.\<close>

fun pin_digits :: "nat \<Rightarrow> u32 \<Rightarrow> u8 list" where
  "pin_digits 0 pin = []"
| "pin_digits (Suc n) pin = ucast (pin mod 10) # pin_digits n (pin div 10)"

definition RepeatedDigit :: "u32 \<Rightarrow> bool" where
  "RepeatedDigit pin =
     (let digits = pin_digits 8 pin in list_all (\<lambda>d. d = hd digits) (tl digits))"

definition valid_setup_pin :: "u32 \<Rightarrow> bool" where
  "valid_setup_pin pin \<longleftrightarrow>
     1 \<le> pin \<and> pin \<le> 99999998 \<and> pin \<noteq> 12345678 \<and> pin \<noteq> 87654321 \<and> \<not> RepeatedDigit pin"

definition valid_commissioning_request :: "CommissioningRequest \<Rightarrow> bool" where
  "valid_commissioning_request q \<longleftrightarrow>
     1 \<le> cq_node_id q \<and> cq_node_id q \<le> kMaximumOperationalNode \<and>
     valid_setup_pin (cq_setup_pin q) \<and> cq_discriminator q \<le> 4095 \<and>
     1 \<le> cq_timeout_ms q \<and> cq_timeout_ms q \<le> 60000"

definition valid_commissioning_response ::
    "CommissioningRequest \<Rightarrow> CommissioningResponse \<Rightarrow> bool" where
  "valid_commissioning_response q r =
     (if \<not> cr_ok r
      then ValidFailure (cr_error r) \<and> cr_node_id r = 0 \<and> cr_fabric_id r = 0 \<and>
           \<not> cr_case_established r
      else cr_error r = None \<and> cr_node_id r = cq_node_id q \<and> cr_fabric_id r > 0 \<and>
           cr_case_established r)"

definition valid_commissioning_window_request :: "CommissioningWindowRequest \<Rightarrow> bool" where
  "valid_commissioning_window_request q \<longleftrightarrow>
     1 \<le> wq_node_id q \<and> wq_node_id q \<le> kMaximumOperationalNode \<and>
     180 \<le> wq_timeout_s q \<and> wq_timeout_s q \<le> 900 \<and>
     1000 \<le> wq_iteration_count q \<and> wq_iteration_count q \<le> 100000 \<and>
     wq_discriminator q \<le> 4095 \<and> 1 \<le> wq_timeout_ms q \<and> wq_timeout_ms q \<le> 60000"

definition valid_commissioning_window_response ::
    "CommissioningWindowRequest \<Rightarrow> CommissioningWindowResponse \<Rightarrow> bool" where
  "valid_commissioning_window_response q r =
     (if \<not> wr_ok r
      then ValidFailure (wr_error r) \<and> wr_node_id r = 0 \<and> wr_setup_pin r = 0 \<and>
           wr_discriminator r = 0 \<and> wr_expires_in_s r = 0 \<and> wr_manual_code r = [] \<and>
           wr_qr_code r = []
      else wr_error r = None \<and> wr_node_id r = wq_node_id q \<and> valid_setup_pin (wr_setup_pin r) \<and>
           wr_discriminator r = wq_discriminator q \<and> wr_expires_in_s r = wq_timeout_s q \<and>
           10 \<le> length (wr_manual_code r) \<and> length (wr_manual_code r) \<le> 21 \<and>
           4 \<le> length (wr_qr_code r) \<and> length (wr_qr_code r) \<le> 512 \<and>
           take 3 (wr_qr_code r) = ''MT:'')"

section \<open>The repeated-digit test\<close>

lemma pin_digits_nth:
  "pin_digits n pin = map (\<lambda>k. ucast ((((\<lambda>q. q div 10) ^^ k) pin) mod 10)) [0..<n]"
proof (induction n arbitrary: pin)
  case (Suc n)
  have "[0..<Suc n] = 0 # map Suc [0..<n]"
    by (simp add: map_Suc_upt upt_conv_Cons del: upt_Suc)
  then show ?case
    by (simp add: Suc.IH funpow_Suc_right del: upt_Suc funpow.simps(2))
qed simp

lemma unat_div_ten_pow: "unat (((\<lambda>q. q div 10) ^^ k) (pin :: u32)) = unat pin div 10 ^ k"
  by (induction k) (simp_all add: unat_div div_mult2_eq [symmetric] mult.commute)

lemma ucast_digit_eq:
  fixes a b :: u32
  shows "(ucast (a mod 10) :: u8) = ucast (b mod 10) \<longleftrightarrow> unat a mod 10 = unat b mod 10"
  by (simp add: word_unat_eq_iff unsigned_ucast_eq take_bit_eq_mod unat_mod)

lemma RepeatedDigit_iff:
  "RepeatedDigit pin \<longleftrightarrow> (\<forall>k<8. unat pin div 10 ^ k mod 10 = unat pin mod 10)"
proof -
  have "RepeatedDigit pin \<longleftrightarrow>
      (\<forall>k\<in>{1..<8}. unat pin div 10 ^ k mod 10 = unat pin div 10 ^ 0 mod 10)"
    by (simp add: RepeatedDigit_def Let_def pin_digits_nth hd_map map_tl [symmetric] list_all_iff
        ucast_digit_eq unat_div_ten_pow)
  also have "\<dots> \<longleftrightarrow> (\<forall>k<8. unat pin div 10 ^ k mod 10 = unat pin mod 10)"
  proof (intro iffI allI impI ballI)
    fix k :: nat
    assume *: "\<forall>k\<in>{1..<8}. unat pin div 10 ^ k mod 10 = unat pin div 10 ^ 0 mod 10" "k < 8"
    then show "unat pin div 10 ^ k mod 10 = unat pin mod 10"
      by (cases "k = 0") (simp_all add: Suc_le_eq)
  qed auto
  finally show ?thesis .
qed

lemma equal_digits_mod:
  assumes "\<forall>k<n. p div 10 ^ k mod 10 = (d :: nat)"
  shows "p mod 10 ^ n = d * (\<Sum>k<n. 10 ^ k)"
  using assms
proof (induction n)
  case (Suc n)
  have "p mod 10 ^ Suc n = 10 ^ n * (p div 10 ^ n mod 10) + p mod 10 ^ n"
    using mod_mult2_eq [of p "10 ^ n" 10] by (simp only: power_Suc mult.commute)
  with Suc show ?case by (simp add: algebra_simps)
qed simp

lemma RepeatedDigit_multiple:
  assumes "unat pin < 100000000"
  shows "RepeatedDigit pin \<longleftrightarrow> (\<exists>d<10. unat pin = d * 11111111)"
proof
  assume "RepeatedDigit pin"
  then have "unat pin mod 10 ^ 8 = unat pin mod 10 * (\<Sum>k<8. 10 ^ k)"
    by (intro equal_digits_mod) (simp add: RepeatedDigit_iff)
  moreover have "(\<Sum>k<8. 10 ^ k :: nat) = 11111111" by (simp add: lessThan_nat_numeral lessThan_Suc)
  ultimately have "unat pin = unat pin mod 10 * 11111111"
    using assms by simp
  then show "\<exists>d<10. unat pin = d * 11111111" by (intro exI [of _ "unat pin mod 10"]) simp
next
  assume "\<exists>d<10. unat pin = d * 11111111"
  then obtain d where d: "d < 10" "unat pin = d * 11111111" by blast
  have "unat pin div 10 ^ k mod 10 = unat pin mod 10" if "k < 8" for k
  proof -
    have "d \<in> {0, 1, 2, 3, 4, 5, 6, 7, 8, 9}" and "k \<in> {0, 1, 2, 3, 4, 5, 6, 7}"
      using d that by auto
    then show ?thesis unfolding d(2) by (elim insertE emptyE) simp_all
  qed
  then show "RepeatedDigit pin" by (simp add: RepeatedDigit_iff)
qed

section \<open>Properties\<close>

text \<open>
  The setup passcode test accepts exactly the passcodes the Matter specification
  allows: a number from 1 to 99999998 that is neither eight equal digits nor one of 12345678 and
  87654321.  The digit loop of the code, on 32-bit words, is thereby shown to compute the list of
  forbidden values.
\<close>

theorem valid_setup_pin_iff:
  "valid_setup_pin pin \<longleftrightarrow>
     unat pin \<in> {1..99999998} -
       {11111111, 22222222, 33333333, 44444444, 55555555, 66666666, 77777777, 88888888,
        12345678, 87654321}"
proof (cases "1 \<le> pin \<and> pin \<le> 99999998")
  case True
  then have range: "1 \<le> unat pin" "unat pin \<le> 99999998"
    by (simp_all add: word_le_nat_alt)
  have "RepeatedDigit pin \<longleftrightarrow> (\<exists>d\<in>{1..8}. unat pin = d * 11111111)"
    unfolding RepeatedDigit_multiple [OF order.strict_trans1 [OF range(2)], simplified]
    using range by auto
  moreover have "{1..8 :: nat} = {1, 2, 3, 4, 5, 6, 7, 8}" by auto
  ultimately show ?thesis
    using True range by (auto simp: valid_setup_pin_def word_unat_eq_iff)
next
  case False
  then show ?thesis by (auto simp: valid_setup_pin_def word_le_nat_alt)
qed

end
