(* ===== verification/Codec.thy ===== *)
theory Codec
  imports Prelude
begin

text \<open>
  The byte codecs of \<^verbatim>\<open>native/src/storage.cpp\<close>: the UTF-8 validator for storage keys and the
  canonical base64 of stored values.  Characters of a \<^verbatim>\<open>std::string\<close> are read as unsigned bytes by
  \<open>of_char\<close>; code points stay below \<open>2 ^ 21\<close>, so natural numbers stand for \<^verbatim>\<open>std::uint32_t\<close> here.
\<close>

section \<open>UTF-8\<close>

text \<open>The lead byte gives the number of continuation bytes and the first bits of the code point.\<close>

definition lead_byte :: "nat \<Rightarrow> (nat \<times> nat) option" where
  "lead_byte first =
     (if first \<ge> 0xC2 \<and> first \<le> 0xDF then Some (1, first AND 0x1F)
      else if first \<ge> 0xE0 \<and> first \<le> 0xEF then Some (2, first AND 0x0F)
      else if first \<ge> 0xF0 \<and> first \<le> 0xF4 then Some (3, first AND 0x07)
      else None)"

fun continuation_loop :: "nat \<Rightarrow> nat \<Rightarrow> nat list \<Rightarrow> nat option" where
  "continuation_loop 0 codepoint bytes = Some codepoint"
| "continuation_loop (Suc n) codepoint [] = None"
| "continuation_loop (Suc n) codepoint (byte # bytes) =
     (if byte AND 0xC0 \<noteq> 0x80 then None
      else continuation_loop n (push_bit 6 codepoint OR (byte AND 0x3F)) bytes)"

function utf8_loop :: "nat list \<Rightarrow> bool" where
  "utf8_loop [] = True"
| "utf8_loop (first # rest) =
     (if first = 0 then False
      else if first \<le> 0x7F then utf8_loop rest
      else case lead_byte first of
        None \<Rightarrow> False
      | Some (continuation, bits) \<Rightarrow>
          if continuation \<ge> length (first # rest) then False
          else case continuation_loop continuation bits rest of
            None \<Rightarrow> False
          | Some codepoint \<Rightarrow>
              if (continuation = 2 \<and> codepoint < 0x800) \<or>
                 (continuation = 3 \<and> codepoint < 0x10000) \<or>
                 (codepoint \<ge> 0xD800 \<and> codepoint \<le> 0xDFFF) \<or> codepoint > 0x10FFFF
              then False
              else utf8_loop (drop continuation rest))"
  by pat_completeness auto
termination
  by (relation "measure length") auto

definition ValidUtf8 :: "string \<Rightarrow> bool" where
  "ValidUtf8 v = utf8_loop (map of_char v)"

section \<open>Base64\<close>

definition alphabet :: string where
  "alphabet = ''ABCDEFGHIJKLMNOPQRSTUVWXYZabcdefghijklmnopqrstuvwxyz0123456789+/''"

function Base64Encode :: "u8 list \<Rightarrow> string" where
  "Base64Encode [] = []"
| "Base64Encode (b # rest) =
     (let first = ucast b :: u32;
          second = (if rest \<noteq> [] then ucast (rest ! 0) else 0) :: u32;
          third = (if length rest > 1 then ucast (rest ! 1) else 0) :: u32;
          v = (push_bit 16 first OR push_bit 8 second) OR third
      in [alphabet ! unat (drop_bit 18 v AND 0x3F), alphabet ! unat (drop_bit 12 v AND 0x3F),
          if rest \<noteq> [] then alphabet ! unat (drop_bit 6 v AND 0x3F) else CHR ''='',
          if length rest > 1 then alphabet ! unat (v AND 0x3F) else CHR ''='']
         @ Base64Encode (drop 2 rest))"
  by pat_completeness auto
termination
  by (relation "measure length") auto

definition Base64Value :: "char \<Rightarrow> int" where
  "Base64Value c =
     (let v = of_char c :: int
      in if v \<ge> 65 \<and> v \<le> 90 then v - 65
         else if v \<ge> 97 \<and> v \<le> 122 then v - 97 + 26
         else if v \<ge> 48 \<and> v \<le> 57 then v - 48 + 52
         else if v = 43 then 62
         else if v = 47 then 63
         else - 1)"

fun base64_loop :: "string \<Rightarrow> u8 list option" where
  "base64_loop (c0 # c1 # c2 # c3 # rest) =
     (let last = rest = [];
          a = Base64Value c0;
          b = Base64Value c1;
          pad_c = c2 = CHR ''='';
          pad_d = c3 = CHR ''='';
          c = (if pad_c then 0 else Base64Value c2);
          d = (if pad_d then 0 else Base64Value c3)
      in if a < 0 \<or> b < 0 \<or> c < 0 \<or> d < 0 \<or> (\<not> last \<and> (pad_c \<or> pad_d)) \<or> (pad_c \<and> \<not> pad_d)
         then None
         else
           let v = ((push_bit 18 (of_int a) OR push_bit 12 (of_int b)) OR push_bit 6 (of_int c))
                     OR of_int d :: u32;
               bytes = [ucast (drop_bit 16 v AND 0xFF)] @
                       (if \<not> pad_c then [ucast (drop_bit 8 v AND 0xFF)] else []) @
                       (if \<not> pad_d then [ucast (v AND 0xFF)] else [])
           in map_option ((@) bytes) (base64_loop rest))"
| "base64_loop _ = Some []"

definition kMaximumValueBytes :: nat where "kMaximumValueBytes = 65535"

definition Base64Decode :: "string \<Rightarrow> u8 list option" where
  "Base64Decode encoded =
     (if length encoded mod 4 \<noteq> 0 then None
      else case base64_loop encoded of
        None \<Rightarrow> None
      | Some bytes \<Rightarrow>
          if length bytes \<le> kMaximumValueBytes \<and> Base64Encode bytes = encoded then Some bytes
          else None)"

section \<open>Bits and arithmetic\<close>

lemma and_31: "(b :: nat) AND 31 = b mod 32"
  using take_bit_eq_mask [of 5 b] by (simp add: mask_eq_exp_minus_1 take_bit_eq_mod)

lemma and_15: "(b :: nat) AND 15 = b mod 16"
  using take_bit_eq_mask [of 4 b] by (simp add: mask_eq_exp_minus_1 take_bit_eq_mod)

lemma and_7: "(b :: nat) AND 7 = b mod 8"
  using take_bit_eq_mask [of 3 b] by (simp add: mask_eq_exp_minus_1 take_bit_eq_mod)

lemma and_63: "(b :: nat) AND 63 = b mod 64"
  using take_bit_eq_mask [of 6 b] by (simp add: mask_eq_exp_minus_1 take_bit_eq_mod)

lemma and_3: "(b :: nat) AND 3 = b mod 4"
  using take_bit_eq_mask [of 2 b] by (simp add: mask_eq_exp_minus_1 take_bit_eq_mod)

lemma and_192: "(b :: nat) AND 192 = 64 * (b div 64 mod 4)"
proof -
  have "b AND push_bit 6 k = push_bit 6 (drop_bit 6 b AND k)" for k :: nat
    by (rule bit_eqI) (auto simp: bit_push_bit_iff_nat bit_and_iff bit_drop_bit_eq)
  from this [of 3] show ?thesis by (simp add: push_bit_eq_mult drop_bit_eq_div and_3)
qed

lemma continuation_byte: "b < 256 \<Longrightarrow> (b :: nat) AND 192 = 128 \<longleftrightarrow> 128 \<le> b \<and> b < 192"
  by (simp add: and_192) linarith

lemma append_six_bits: "push_bit 6 (a :: nat) OR (b AND 63) = a * 64 + b mod 64"
proof -
  have "push_bit 6 a AND (b mod 64) = 0"
    by (rule bit_eqI) (auto simp: bit_simps take_bit_eq_mod [of 6, symmetric, simplified])
  then have "push_bit 6 a OR (b mod 64) = push_bit 6 a + b mod 64"
    by (simp add: disjunctive_add_eq_or)
  then show ?thesis by (simp add: and_63 push_bit_eq_mult)
qed

lemmas utf8_bits = and_31 and_15 and_7 continuation_byte append_six_bits

section \<open>The UTF-8 language\<close>

text \<open>The encoding form of the Unicode standard, as bytes, and the code points a key may have.\<close>

definition utf8_encode :: "nat \<Rightarrow> nat list" where
  "utf8_encode cp =
     (if cp < 0x80 then [cp]
      else if cp < 0x800 then [0xC0 + cp div 64, 0x80 + cp mod 64]
      else if cp < 0x10000
      then [0xE0 + cp div 4096, 0x80 + cp div 64 mod 64, 0x80 + cp mod 64]
      else [0xF0 + cp div 262144, 0x80 + cp div 4096 mod 64, 0x80 + cp div 64 mod 64, 0x80 + cp mod 64])"

definition key_scalar :: "nat \<Rightarrow> bool" where
  "key_scalar cp \<longleftrightarrow> cp \<noteq> 0 \<and> cp \<le> 0x10FFFF \<and> \<not> (0xD800 \<le> cp \<and> cp \<le> 0xDFFF)"

lemma utf8_loop_encode_1: "key_scalar cp \<Longrightarrow> cp < 128 \<Longrightarrow> utf8_loop (utf8_encode cp @ rest) = utf8_loop rest"
  by (simp add: utf8_encode_def key_scalar_def)

lemma lead_byte_values:
  "2 \<le> x \<Longrightarrow> x < 32 \<Longrightarrow> lead_byte (192 + x) = Some (1, x)"
  "x < 16 \<Longrightarrow> lead_byte (224 + x) = Some (2, x)"
  "x < 5 \<Longrightarrow> lead_byte (240 + x) = Some (3, x)"
proof -
  have "(192 + x) mod 32 = x mod 32" "(224 + x) mod 16 = x mod 16" "(240 + x) mod 8 = x mod 8"
    using mod_mult_self1 [of x 6 32] mod_mult_self1 [of x 14 16] mod_mult_self1 [of x 30 8]
    by (simp_all add: add.commute)
  then show "2 \<le> x \<Longrightarrow> x < 32 \<Longrightarrow> lead_byte (192 + x) = Some (1, x)"
    "x < 16 \<Longrightarrow> lead_byte (224 + x) = Some (2, x)" "x < 5 \<Longrightarrow> lead_byte (240 + x) = Some (3, x)"
    by (simp_all add: lead_byte_def and_31 and_15 and_7)
qed

lemma continuation_value:
  fixes x :: nat
  shows "(128 + x mod 64) AND 192 = 128" "(128 + x mod 64) mod 64 = x mod 64"
proof -
  have "128 + x mod 64 < 256" by (rule order.strict_trans [of _ "128 + 64"]) simp_all
  then show "(128 + x mod 64) AND 192 = 128" by (subst continuation_byte) simp_all
  show "(128 + x mod 64) mod 64 = x mod 64"
    using mod_mult_self1 [of "x mod 64" 2 64] by (simp add: add.commute)
qed

lemma continuation_loop_byte:
  "continuation_loop (Suc n) cp ((128 + x mod 64) # bytes) = continuation_loop n (cp * 64 + x mod 64) bytes"
  by (simp add: continuation_value append_six_bits)

lemma utf8_loop_encode_2:
  assumes "128 \<le> cp" "cp < 2048"
  shows "utf8_loop (utf8_encode cp @ rest) = utf8_loop rest"
proof -
  have "2 \<le> cp div 64" "cp div 64 < 32" using assms by linarith+
  then have lead: "lead_byte (192 + cp div 64) = Some (1, cp div 64)" by (rule lead_byte_values)
  have "continuation_loop (Suc 0) (cp div 64) ((128 + cp mod 64) # rest) = Some cp"
    by (simp add: continuation_loop_byte del: continuation_loop.simps(3))
  then show ?thesis
    using assms lead by (simp add: utf8_encode_def del: continuation_loop.simps(3))
qed

lemma utf8_loop_encode_3:
  assumes "2048 \<le> cp" "cp < 65536" "key_scalar cp"
  shows "utf8_loop (utf8_encode cp @ rest) = utf8_loop rest"
proof -
  have "cp div 4096 < 16" using assms by linarith
  then have lead: "lead_byte (224 + cp div 4096) = Some (2, cp div 4096)" by (rule lead_byte_values)
  have "cp div 4096 * 64 + cp div 64 mod 64 = cp div 64"
    using div_mult_mod_eq [of "cp div 64" 64] by (simp add: div_mult2_eq [symmetric])
  then have "continuation_loop (Suc (Suc 0)) (cp div 4096)
      ((128 + cp div 64 mod 64) # (128 + cp mod 64) # rest) = Some cp"
    by (simp add: continuation_loop_byte del: continuation_loop.simps(3))
  then show ?thesis
    using assms lead
    by (auto simp: utf8_encode_def key_scalar_def numeral_2_eq_2 simp del: continuation_loop.simps(3))
qed

lemma utf8_loop_encode_4:
  assumes "65536 \<le> cp" "key_scalar cp"
  shows "utf8_loop (utf8_encode cp @ rest) = utf8_loop rest"
proof -
  have "cp div 262144 < 5" using assms by (simp add: key_scalar_def)
  then have lead: "lead_byte (240 + cp div 262144) = Some (3, cp div 262144)" by (rule lead_byte_values)
  have "cp div 262144 * 64 + cp div 4096 mod 64 = cp div 4096"
    using div_mult_mod_eq [of "cp div 4096" 64] by (simp add: div_mult2_eq [symmetric])
  moreover have "cp div 4096 * 64 + cp div 64 mod 64 = cp div 64"
    using div_mult_mod_eq [of "cp div 64" 64] by (simp add: div_mult2_eq [symmetric])
  ultimately have "continuation_loop (Suc (Suc (Suc 0))) (cp div 262144)
      ((128 + cp div 4096 mod 64) # (128 + cp div 64 mod 64) # (128 + cp mod 64) # rest) = Some cp"
    by (simp add: continuation_loop_byte del: continuation_loop.simps(3))
  then show ?thesis
    using assms lead
    by (auto simp: utf8_encode_def key_scalar_def numeral_3_eq_3 simp del: continuation_loop.simps(3))
qed

lemma utf8_loop_encode:
  "key_scalar cp \<Longrightarrow> utf8_loop (utf8_encode cp @ rest) = utf8_loop rest"
  using utf8_loop_encode_1 utf8_loop_encode_2 utf8_loop_encode_3 utf8_loop_encode_4
  by (meson not_less)

lemma lead_byte_inv:
  assumes "lead_byte b = Some (n, bits)"
  obtains (two) x where "n = 1" "b = 192 + x" "2 \<le> x" "x < 32" "bits = x"
  | (three) x where "n = 2" "b = 224 + x" "x < 16" "bits = x"
  | (four) x where "n = 3" "b = 240 + x" "x < 5" "bits = x"
proof -
  consider "194 \<le> b \<and> b \<le> 223" | "224 \<le> b \<and> b \<le> 239" | "240 \<le> b \<and> b \<le> 244"
    using assms by (auto simp: lead_byte_def split: if_splits)
  then show thesis
  proof cases
    case 1
    then have "b = 192 + (b - 192)" "2 \<le> b - 192" "b - 192 < 32" by linarith+
    with assms lead_byte_values(1) [of "b - 192"] show thesis by (intro two) auto
  next
    case 2
    then have "b = 224 + (b - 224)" "b - 224 < 16" by linarith+
    with assms lead_byte_values(2) [of "b - 224"] show thesis by (intro three) auto
  next
    case 3
    then have "b = 240 + (b - 240)" "b - 240 < 5" by linarith+
    with assms lead_byte_values(3) [of "b - 240"] show thesis by (intro four) auto
  qed
qed

lemma continuation_inv:
  assumes "continuation_loop (Suc n) cp bs = Some r" "\<forall>b\<in>set bs. b < 256"
  obtains y rest where "y < 64" "bs = (128 + y) # rest" "continuation_loop n (cp * 64 + y) rest = Some r"
proof (cases bs)
  case (Cons b rest)
  then have b: "b AND 192 = 128" "b < 256"
    and r: "continuation_loop n (cp * 64 + b mod 64) rest = Some r"
    using assms by (auto simp: append_six_bits split: if_splits)
  then have "128 \<le> b" "b < 192" by (simp_all add: continuation_byte)
  then have "b = 128 + (b - 128)" "b - 128 < 64" by simp_all
  moreover have "b mod 64 = b - 128"
    using calculation mod_mult_self1 [of "b - 128" 2 64] by (simp add: add.commute)
  ultimately show thesis using that [of "b - 128" rest] r Cons by metis
qed (use assms in simp)

lemma utf8_encode_groups:
  "2 \<le> x \<Longrightarrow> x < 32 \<Longrightarrow> y < 64 \<Longrightarrow> utf8_encode (x * 64 + y) = [192 + x, 128 + y]"
  "x < 16 \<Longrightarrow> y < 64 \<Longrightarrow> z < 64 \<Longrightarrow> 2048 \<le> (x * 64 + y) * 64 + z \<Longrightarrow>
     utf8_encode ((x * 64 + y) * 64 + z) = [224 + x, 128 + y, 128 + z]"
  "x < 5 \<Longrightarrow> y < 64 \<Longrightarrow> z < 64 \<Longrightarrow> u < 64 \<Longrightarrow> 65536 \<le> ((x * 64 + y) * 64 + z) * 64 + u \<Longrightarrow>
     utf8_encode (((x * 64 + y) * 64 + z) * 64 + u) = [240 + x, 128 + y, 128 + z, 128 + u]"
proof -
  have div64: "(a * 64 + b) div 64 = a" "(a * 64 + b) mod 64 = b" if "b < 64" for a b :: nat
    using that by simp_all
  show "2 \<le> x \<Longrightarrow> x < 32 \<Longrightarrow> y < 64 \<Longrightarrow> utf8_encode (x * 64 + y) = [192 + x, 128 + y]"
    by (simp add: utf8_encode_def)
  show "x < 16 \<Longrightarrow> y < 64 \<Longrightarrow> z < 64 \<Longrightarrow> 2048 \<le> (x * 64 + y) * 64 + z \<Longrightarrow>
     utf8_encode ((x * 64 + y) * 64 + z) = [224 + x, 128 + y, 128 + z]"
    using div_mult2_eq [of "(x * 64 + y) * 64 + z" 64 64]
    by (simp add: utf8_encode_def div64 del: distrib_right_numeral)
  show "x < 5 \<Longrightarrow> y < 64 \<Longrightarrow> z < 64 \<Longrightarrow> u < 64 \<Longrightarrow> 65536 \<le> ((x * 64 + y) * 64 + z) * 64 + u \<Longrightarrow>
     utf8_encode (((x * 64 + y) * 64 + z) * 64 + u) = [240 + x, 128 + y, 128 + z, 128 + u]"
    using div_mult2_eq [of "((x * 64 + y) * 64 + z) * 64 + u" 64 64]
      div_mult2_eq [of "((x * 64 + y) * 64 + z) * 64 + u" 64 4096]
      div_mult2_eq [of "(x * 64 + y) * 64 + z" 64 64]
    by (simp add: utf8_encode_def div64 del: distrib_right_numeral)
qed

lemma utf8_loop_split:
  assumes ok: "utf8_loop (b # bs)" and bytes: "\<forall>b\<in>set bs. b < 256"
  obtains cp rest where "key_scalar cp" "b # bs = utf8_encode cp @ rest" "utf8_loop rest"
proof (cases "b \<le> 127")
  case True
  then show thesis
    using ok that [of b bs] by (auto simp: key_scalar_def utf8_encode_def split: if_splits)
next
  case False
  then obtain n bits cp where lead: "lead_byte b = Some (n, bits)"
    and loop: "continuation_loop n bits bs = Some cp" and rest: "utf8_loop (drop n bs)"
    and ok': "\<not> (n = 2 \<and> cp < 2048)" "\<not> (n = 3 \<and> cp < 65536)" "\<not> (55296 \<le> cp \<and> cp \<le> 57343)"
      "cp \<le> 1114111"
    using ok by (auto split: if_splits option.splits)
  from lead show thesis
  proof (cases rule: lead_byte_inv)
    case (two x)
    then have loop1: "continuation_loop (Suc 0) x bs = Some cp" using loop by simp
    obtain y r1 where y: "y < 64" "bs = (128 + y) # r1" "continuation_loop 0 (x * 64 + y) r1 = Some cp"
      using continuation_inv [OF loop1 bytes] by metis
    then have "cp = x * 64 + y" by simp
    with two y utf8_encode_groups(1) [of x y] rest show thesis
      by (intro that [of cp r1]) (simp_all add: key_scalar_def)
  next
    case (three x)
    then have loop1: "continuation_loop (Suc (Suc 0)) x bs = Some cp"
      using loop by (simp add: numeral_2_eq_2)
    obtain y r1 where y: "y < 64" "bs = (128 + y) # r1"
      and loop2: "continuation_loop (Suc 0) (x * 64 + y) r1 = Some cp"
      using continuation_inv [OF loop1 bytes] by metis
    obtain z r2 where z: "z < 64" "r1 = (128 + z) # r2"
      and cp: "continuation_loop 0 ((x * 64 + y) * 64 + z) r2 = Some cp"
      using continuation_inv [OF loop2] bytes y by auto
    then have "cp = (x * 64 + y) * 64 + z" by simp
    with three y z utf8_encode_groups(2) [of x y z] rest ok' show thesis
      by (intro that [of cp r2]) (auto simp: key_scalar_def numeral_2_eq_2)
  next
    case (four x)
    then have loop1: "continuation_loop (Suc (Suc (Suc 0))) x bs = Some cp"
      using loop by (simp add: numeral_3_eq_3)
    obtain y r1 where y: "y < 64" "bs = (128 + y) # r1"
      and loop2: "continuation_loop (Suc (Suc 0)) (x * 64 + y) r1 = Some cp"
      using continuation_inv [OF loop1 bytes] by metis
    obtain z r2 where z: "z < 64" "r1 = (128 + z) # r2"
      and loop3: "continuation_loop (Suc 0) ((x * 64 + y) * 64 + z) r2 = Some cp"
      using continuation_inv [OF loop2] bytes y by auto
    obtain u r3 where u: "u < 64" "r2 = (128 + u) # r3"
      and cp: "continuation_loop 0 (((x * 64 + y) * 64 + z) * 64 + u) r3 = Some cp"
      using continuation_inv [OF loop3] bytes y z by auto
    then have "cp = ((x * 64 + y) * 64 + z) * 64 + u" by simp
    with four y z u utf8_encode_groups(3) [of x y z u] rest ok' show thesis
      by (intro that [of cp r3]) (auto simp: key_scalar_def numeral_3_eq_3)
  qed
qed

lemma utf8_encode_nonempty: "utf8_encode cp \<noteq> []"
  by (simp add: utf8_encode_def)

lemma utf8_loop_iff:
  assumes "\<forall>b\<in>set bs. b < 256"
  shows "utf8_loop bs \<longleftrightarrow> (\<exists>cps. list_all key_scalar cps \<and> bs = concat (map utf8_encode cps))"
proof
  show "\<exists>cps. list_all key_scalar cps \<and> bs = concat (map utf8_encode cps)" if "utf8_loop bs"
    using that assms
  proof (induction "length bs" arbitrary: bs rule: less_induct)
    case less
    show ?case
    proof (cases bs)
      case Nil
      then show ?thesis by (intro exI [of _ "[]"]) simp
    next
      case (Cons b rest)
      with less.prems obtain cp r where cp: "key_scalar cp" "bs = utf8_encode cp @ r" "utf8_loop r"
        using utf8_loop_split [of b rest] by auto
      have "length r < length bs" using cp(2) utf8_encode_nonempty [of cp] by (cases "utf8_encode cp") auto
      then obtain cps where "list_all key_scalar cps" "r = concat (map utf8_encode cps)"
        using less.hyps [of r] cp less.prems(2) by auto
      then show ?thesis using cp by (intro exI [of _ "cp # cps"]) simp
    qed
  qed
  assume "\<exists>cps. list_all key_scalar cps \<and> bs = concat (map utf8_encode cps)"
  then obtain cps where "list_all key_scalar cps" "bs = concat (map utf8_encode cps)" by blast
  then show "utf8_loop bs"
    by (induction cps arbitrary: bs) (simp_all add: utf8_loop_encode)
qed

section \<open>Base64 round trip\<close>

lemma alphabet_value: "i < 64 \<Longrightarrow> Base64Value (alphabet ! i) = int i \<and> alphabet ! i \<noteq> CHR ''=''"
proof -
  have "list_all (\<lambda>i. Base64Value (alphabet ! i) = int i \<and> alphabet ! i \<noteq> CHR ''='') [0..<64]"
    by code_simp
  then show "i < 64 \<Longrightarrow> ?thesis" by (simp add: list_all_iff)
qed

lemma sextet_mask: "(x :: u32) AND 0x3F = take_bit 6 x"
  using take_bit_eq_mask [of 6 x] by (simp add: mask_eq_exp_minus_1)

lemma octet_mask: "(x :: u32) AND 0xFF = take_bit 8 x"
  using take_bit_eq_mask [of 8 x] by (simp add: mask_eq_exp_minus_1)

lemma sextet_value:
  fixes x :: u32
  shows "Base64Value (alphabet ! unat (take_bit 6 x)) = int (unat (take_bit 6 x))"
    and "alphabet ! unat (take_bit 6 x) \<noteq> CHR ''=''"
proof -
  have "unat (take_bit 6 x) < 64"
    by (simp add: take_bit_eq_mod unat_mod)
  then show "Base64Value (alphabet ! unat (take_bit 6 x)) = int (unat (take_bit 6 x))"
    "alphabet ! unat (take_bit 6 x) \<noteq> CHR ''=''"
    using alphabet_value by blast+
qed

definition triple :: "u8 \<Rightarrow> u8 \<Rightarrow> u8 \<Rightarrow> u32" where
  "triple a b c = (push_bit 16 (ucast a) OR push_bit 8 (ucast b)) OR ucast c"

lemma bit_triple:
  "bit (triple a b c) n \<longleftrightarrow>
     n < 32 \<and> (16 \<le> n \<and> bit a (n - 16) \<or> 8 \<le> n \<and> bit b (n - 8) \<or> bit c n)"
  by (auto simp: triple_def bit_simps dest: bit_imp_le_length)

lemma bit_u8: "bit (a :: u8) n \<Longrightarrow> n < 8"
  by (auto dest: bit_imp_le_length)

lemma triple_octets:
  "ucast (drop_bit 16 (triple a b c) AND 0xFF) = a"
  "ucast (drop_bit 8 (triple a b c) AND 0xFF) = b"
  "ucast (triple a b c AND 0xFF) = c"
  by (rule bit_word_eqI, auto simp: octet_mask bit_triple bit_simps dest: bit_u8)+

lemma triple_sextets:
  "((push_bit 18 (take_bit 6 (drop_bit 18 (triple a b c))) OR
     push_bit 12 (take_bit 6 (drop_bit 12 (triple a b c)))) OR
     push_bit 6 (take_bit 6 (drop_bit 6 (triple a b c)))) OR take_bit 6 (triple a b c)
   = triple a b c"
proof (rule bit_word_eqI)
  fix n
  assume "n < LENGTH(32)"
  moreover have "bit (triple a b c) n \<Longrightarrow> n < 24" by (auto simp: bit_triple dest: bit_u8)
  ultimately show "bit (((push_bit 18 (take_bit 6 (drop_bit 18 (triple a b c))) OR
     push_bit 12 (take_bit 6 (drop_bit 12 (triple a b c)))) OR
     push_bit 6 (take_bit 6 (drop_bit 6 (triple a b c)))) OR take_bit 6 (triple a b c)) n
   = bit (triple a b c) n"
    by (cases "18 \<le> n"; cases "12 \<le> n"; cases "6 \<le> n") (auto simp: bit_simps)
qed

lemma triple_pads:
  "take_bit 6 (triple a b 0) = 0" "take_bit 6 (drop_bit 6 (triple a 0 0)) = 0"
  by (rule bit_word_eqI, auto simp: bit_simps bit_triple)+

text \<open>One turn of the encoder, by the number of bytes that are left.\<close>

lemma Base64Encode_one:
  "Base64Encode [a] =
     [alphabet ! unat (take_bit 6 (drop_bit 18 (triple a 0 0))),
      alphabet ! unat (take_bit 6 (drop_bit 12 (triple a 0 0))), CHR ''='', CHR ''='']"
  by (simp add: Let_def triple_def sextet_mask)

lemma Base64Encode_two:
  "Base64Encode [a, b] =
     [alphabet ! unat (take_bit 6 (drop_bit 18 (triple a b 0))),
      alphabet ! unat (take_bit 6 (drop_bit 12 (triple a b 0))),
      alphabet ! unat (take_bit 6 (drop_bit 6 (triple a b 0))), CHR ''='']"
  by (simp add: Let_def triple_def sextet_mask)

lemma Base64Encode_three:
  "Base64Encode (a # b # c # rest) =
     [alphabet ! unat (take_bit 6 (drop_bit 18 (triple a b c))),
      alphabet ! unat (take_bit 6 (drop_bit 12 (triple a b c))),
      alphabet ! unat (take_bit 6 (drop_bit 6 (triple a b c))),
      alphabet ! unat (take_bit 6 (triple a b c))] @ Base64Encode rest"
  by (simp add: Let_def triple_def sextet_mask)

lemma base64_loop_quad:
  fixes s0 s1 s2 s3 v :: u32
  assumes "Base64Value c0 = int (unat s0)" "Base64Value c1 = int (unat s1)"
    and "if pad_c then c2 = CHR ''='' \<and> s2 = 0 \<and> pad_d \<and> rest = []
      else c2 \<noteq> CHR ''='' \<and> Base64Value c2 = int (unat s2)"
    and "if pad_d then c3 = CHR ''='' \<and> s3 = 0 \<and> rest = []
      else c3 \<noteq> CHR ''='' \<and> Base64Value c3 = int (unat s3)"
    and v: "((push_bit 18 s0 OR push_bit 12 s1) OR push_bit 6 s2) OR s3 = v"
  shows "base64_loop (c0 # c1 # c2 # c3 # rest) =
    map_option ((@) (ucast (drop_bit 16 v AND 0xFF) #
      (if \<not> pad_c then [ucast (drop_bit 8 v AND 0xFF)] else []) @
      (if \<not> pad_d then [ucast (v AND 0xFF)] else []))) (base64_loop rest)"
  using assms(1-4) unfolding v [symmetric]
  by (cases pad_c; cases pad_d) (simp_all add: Let_def ucast_id)

lemma base64_loop_three:
  "base64_loop (alphabet ! unat (take_bit 6 (drop_bit 18 (triple a b c))) #
      alphabet ! unat (take_bit 6 (drop_bit 12 (triple a b c))) #
      alphabet ! unat (take_bit 6 (drop_bit 6 (triple a b c))) #
      alphabet ! unat (take_bit 6 (triple a b c)) # rest) =
   map_option ((@) [a, b, c]) (base64_loop rest)"
  by (subst base64_loop_quad [where pad_c = False and pad_d = False, OF _ _ _ _ triple_sextets])
     (simp_all only: sextet_value if_False not_False_eq_True if_True simp_thms triple_octets append.simps)

lemma base64_loop_two:
  "base64_loop (Base64Encode [a, b]) = Some [a, b]"
  unfolding Base64Encode_two
  by (subst base64_loop_quad [where pad_c = False and pad_d = True,
        OF _ _ _ _ triple_sextets [of a b 0]])
     (simp_all only: sextet_value if_False not_False_eq_True not_True_eq_False if_True simp_thms
       triple_octets append.simps triple_pads base64_loop.simps option.map)

lemma base64_loop_one:
  "base64_loop (Base64Encode [a]) = Some [a]"
  unfolding Base64Encode_one
  by (subst base64_loop_quad [where pad_c = True and pad_d = True,
        OF _ _ _ _ triple_sextets [of a 0 0]])
     (simp_all only: sextet_value if_False not_False_eq_True not_True_eq_False if_True simp_thms
       triple_octets append.simps triple_pads base64_loop.simps option.map)

lemma base64_loop_encode: "base64_loop (Base64Encode bs) = Some bs"
proof (induction "length bs" arbitrary: bs rule: less_induct)
  case less
  consider "bs = []" | a where "bs = [a]" | a b where "bs = [a, b]"
    | a b c rest where "bs = a # b # c # rest"
    by (metis list.exhaust)
  then show ?case
  proof cases
    case (4 a b c rest)
    then have "base64_loop (Base64Encode rest) = Some rest" by (intro less) simp
    then show ?thesis
      unfolding 4 Base64Encode_three append.simps base64_loop_three by simp
  qed (simp_all only: base64_loop_one base64_loop_two, simp)
qed

lemma length_Base64Encode: "length (Base64Encode bs) = (length bs + 2) div 3 * 4"
proof (induction "length bs" arbitrary: bs rule: less_induct)
  case less
  consider "bs = []" | a where "bs = [a]" | a b where "bs = [a, b]"
    | a b c rest where "bs = a # b # c # rest"
    by (metis list.exhaust)
  then show ?case
  proof cases
    case (4 a b c rest)
    then have "length (Base64Encode rest) = (length rest + 2) div 3 * 4" by (intro less) simp
    moreover have "(length rest + 5) div 3 = (length rest + 2) div 3 + 1"
      using div_add_self2 [of 3 "length rest + 2"] by simp
    ultimately show ?thesis unfolding 4 Base64Encode_three by (simp add: add.commute)
  qed (simp_all only: Base64Encode_one Base64Encode_two, simp_all)
qed

section \<open>Properties\<close>

text \<open>
  Property C39. The UTF-8 validator accepts exactly the strings that are the UTF-8 encoding of some
  sequence of Unicode scalar values other than NUL: no overlong form, no surrogate, nothing above
  U+10FFFF and no truncated sequence passes, and everything else does.
\<close>

theorem ValidUtf8_iff:
  "ValidUtf8 v \<longleftrightarrow>
     (\<exists>cps. list_all key_scalar cps \<and> map of_char v = concat (map utf8_encode cps))"
proof -
  have "of_char c < (256 :: nat)" for c
    by (metis of_char_mod_256 mod_less_divisor zero_less_numeral)
  then have "\<forall>b\<in>set (map of_char v). b < (256 :: nat)" by simp
  then show ?thesis unfolding ValidUtf8_def by (rule utf8_loop_iff)
qed

lemma Base64Decode_encode: "length bytes \<le> 65535 \<Longrightarrow> Base64Decode (Base64Encode bytes) = Some bytes"
  by (simp add: Base64Decode_def base64_loop_encode length_Base64Encode kMaximumValueBytes_def
      del: Base64Encode.simps base64_loop.simps)

lemma Base64Decode_bound: "Base64Decode s = Some bytes \<Longrightarrow> length bytes \<le> 65535"
  by (auto simp: Base64Decode_def kMaximumValueBytes_def split: if_splits option.splits)

text \<open>
  Base64 decoding accepts exactly the canonical encodings of at most 65535 bytes, and
  it inverts the encoder: a stored value is read back unchanged, and no two texts decode to the same
  value.
\<close>

theorem Base64Decode_iff:
  "Base64Decode s = Some bytes \<longleftrightarrow> s = Base64Encode bytes \<and> length bytes \<le> 65535"
proof
  assume "Base64Decode s = Some bytes"
  then show "s = Base64Encode bytes \<and> length bytes \<le> 65535"
    by (auto simp: Base64Decode_def kMaximumValueBytes_def split: if_splits option.splits)
next
  assume "s = Base64Encode bytes \<and> length bytes \<le> 65535"
  then show "Base64Decode s = Some bytes"
    by (simp add: Base64Decode_encode del: Base64Encode.simps)
qed

end
