(* ===== verification/Json.thy ===== *)
theory Json
  imports Prelude
begin

text \<open>
  JSON documents as \<^verbatim>\<open>nlohmann::json\<close> represents them, and the SAX handler \<open>BoundedSax\<close> of
  \<^verbatim>\<open>native/src/protocol.cpp\<close> that bounds a document before it is built. The library's parser is not
  part of the repository: \<open>ParseBounded\<close> takes as parameters the sequence of handler calls that the
  library makes for a line and the document it builds for it.

  An object is its list of members. The tree that a text denotes may repeat a key; the documents
  that the library hands out do not.
\<close>

section \<open>Documents\<close>

datatype json =
  JNull
| JBool bool
| JInt i64
| JUint u64
| JFloat string
| JStr string
| JArr "json list"
| JObj "(string \<times> json) list"

fun is_string :: "json \<Rightarrow> bool" where
  "is_string (JStr _) = True"
| "is_string _ = False"

fun is_number_unsigned :: "json \<Rightarrow> bool" where
  "is_number_unsigned (JUint _) = True"
| "is_number_unsigned _ = False"

fun is_object :: "json \<Rightarrow> bool" where
  "is_object (JObj _) = True"
| "is_object _ = False"

fun is_array :: "json \<Rightarrow> bool" where
  "is_array (JArr _) = True"
| "is_array _ = False"

fun is_boolean :: "json \<Rightarrow> bool" where
  "is_boolean (JBool _) = True"
| "is_boolean _ = False"

fun members :: "json \<Rightarrow> (string \<times> json) list" where
  "members (JObj ms) = ms"
| "members _ = []"

fun elements :: "json \<Rightarrow> json list" where
  "elements (JArr xs) = xs"
| "elements _ = []"

fun get_string :: "json \<Rightarrow> string" where
  "get_string (JStr s) = s"
| "get_string _ = []"

fun get_unsigned :: "json \<Rightarrow> u64" where
  "get_unsigned (JUint v) = v"
| "get_unsigned (JInt v) = v"
| "get_unsigned _ = 0"

fun get_boolean :: "json \<Rightarrow> bool" where
  "get_boolean (JBool b) = b"
| "get_boolean _ = False"

text \<open>\<open>contains\<close>, \<open>size\<close> and \<open>operator[]\<close> of an object; the code indexes a key only after it has
  checked that the key is there.\<close>

definition contains :: "json \<Rightarrow> string \<Rightarrow> bool" where
  "contains j k \<longleftrightarrow> map_of (members j) k \<noteq> None"

definition at_key :: "json \<Rightarrow> string \<Rightarrow> json" where
  "at_key j k = (case map_of (members j) k of None \<Rightarrow> JNull | Some v \<Rightarrow> v)"

fun json_size :: "json \<Rightarrow> nat" where
  "json_size (JObj ms) = length ms"
| "json_size (JArr xs) = length xs"
| "json_size JNull = 0"
| "json_size _ = 1"

section \<open>BoundedSax\<close>

definition kMaximumDepth :: nat where "kMaximumDepth = 24"
definition kMaximumCollectionEntries :: nat where "kMaximumCollectionEntries = 1024"
definition kMaximumNodes :: nat where "kMaximumNodes = 4096"

datatype Collection = Col_Object | Col_Array

text \<open>The three parallel vectors are one stack; its head is the \<open>back()\<close> of the vectors.\<close>

record BoundedSax =
  sx_nodes :: nat
  sx_stack :: "(Collection \<times> nat \<times> string list) list"

definition mk_sax :: BoundedSax where
  "mk_sax = \<lparr>sx_nodes = 0, sx_stack = []\<rparr>"

datatype sax_event =
  SE_Value
| SE_Binary
| SE_StartObject
| SE_Key string
| SE_EndObject
| SE_StartArray
| SE_EndArray
| SE_ParseError

text \<open>A handler that answers false is \<open>None\<close>: the library then stops parsing.\<close>

definition Value_sax :: "BoundedSax \<Rightarrow> BoundedSax option" where
  "Value_sax s =
     (case sx_stack s of
        (Col_Array, count, keys) # rest \<Rightarrow>
          if count + 1 > kMaximumCollectionEntries \<or> sx_nodes s + 1 > kMaximumNodes then None
          else Some (s\<lparr>sx_nodes := sx_nodes s + 1, sx_stack := (Col_Array, count + 1, keys) # rest\<rparr>)
      | _ \<Rightarrow>
          if sx_nodes s + 1 > kMaximumNodes then None else Some (s\<lparr>sx_nodes := sx_nodes s + 1\<rparr>))"

definition StartCollection :: "Collection \<Rightarrow> BoundedSax \<Rightarrow> BoundedSax option" where
  "StartCollection collection s =
     (case Value_sax s of
        None \<Rightarrow> None
      | Some s' \<Rightarrow>
          if length (sx_stack s') + 1 > kMaximumDepth then None
          else Some (s'\<lparr>sx_stack := (collection, 0, []) # sx_stack s'\<rparr>))"

definition EndCollection :: "Collection \<Rightarrow> BoundedSax \<Rightarrow> BoundedSax option" where
  "EndCollection expected s =
     (case sx_stack s of
        [] \<Rightarrow> None
      | (collection, _, _) # rest \<Rightarrow>
          if collection \<noteq> expected then None else Some (s\<lparr>sx_stack := rest\<rparr>))"

definition key_sax :: "string \<Rightarrow> BoundedSax \<Rightarrow> BoundedSax option" where
  "key_sax k s =
     (case sx_stack s of
        (Col_Object, count, keys) # rest \<Rightarrow>
          if count + 1 > kMaximumCollectionEntries \<or> sx_nodes s + 1 > kMaximumNodes then None
          else if k \<in> set keys then None
          else Some (s\<lparr>sx_nodes := sx_nodes s + 1,
                       sx_stack := (Col_Object, count + 1, k # keys) # rest\<rparr>)
      | _ \<Rightarrow> None)"

fun sax_handler :: "sax_event \<Rightarrow> BoundedSax \<Rightarrow> BoundedSax option" where
  "sax_handler SE_Value s = Value_sax s"
| "sax_handler SE_Binary s = None"
| "sax_handler SE_StartObject s = StartCollection Col_Object s"
| "sax_handler (SE_Key k) s = key_sax k s"
| "sax_handler SE_EndObject s = EndCollection Col_Object s"
| "sax_handler SE_StartArray s = StartCollection Col_Array s"
| "sax_handler SE_EndArray s = EndCollection Col_Array s"
| "sax_handler SE_ParseError s = None"

text \<open>\<open>sax_parse\<close> calls the handler for each event and stops at the first false.\<close>

fun sax_run :: "sax_event list \<Rightarrow> BoundedSax \<Rightarrow> BoundedSax option" where
  "sax_run [] s = Some s"
| "sax_run (e # es) s = (case sax_handler e s of None \<Rightarrow> None | Some s' \<Rightarrow> sax_run es s')"

section \<open>ParseBounded\<close>

definition kMaximumFrameBytes :: nat where "kMaximumFrameBytes = 131072"

definition ParseBounded ::
    "(string \<Rightarrow> sax_event list) \<Rightarrow> (string \<Rightarrow> json option) \<Rightarrow> string \<Rightarrow> json option" where
  "ParseBounded lib_sax lib_parse line =
     (if line = [] \<or> length line + 1 > kMaximumFrameBytes \<or> CHR 0x00 \<in> set line then None
      else if sax_run (lib_sax line) mk_sax = None then None
      else lib_parse line)"

section \<open>What the handler bounds\<close>

text \<open>The handler calls the library documents for a tree.\<close>

fun sax_events :: "json \<Rightarrow> sax_event list" and sax_elements :: "json list \<Rightarrow> sax_event list"
  and sax_members :: "(string \<times> json) list \<Rightarrow> sax_event list" where
  "sax_events (JArr xs) = SE_StartArray # sax_elements xs @ [SE_EndArray]"
| "sax_events (JObj ms) = SE_StartObject # sax_members ms @ [SE_EndObject]"
| "sax_events JNull = [SE_Value]"
| "sax_events (JBool _) = [SE_Value]"
| "sax_events (JInt _) = [SE_Value]"
| "sax_events (JUint _) = [SE_Value]"
| "sax_events (JFloat _) = [SE_Value]"
| "sax_events (JStr _) = [SE_Value]"
| "sax_elements [] = []"
| "sax_elements (x # xs) = sax_events x @ sax_elements xs"
| "sax_members [] = []"
| "sax_members ((k, v) # ms) = SE_Key k # sax_events v @ sax_members ms"

text \<open>Values and keys of a tree, and its shape below \<open>d\<close> enclosing collections.\<close>

fun tree_nodes :: "json \<Rightarrow> nat" and element_nodes :: "json list \<Rightarrow> nat"
  and member_nodes :: "(string \<times> json) list \<Rightarrow> nat" where
  "tree_nodes (JArr xs) = Suc (element_nodes xs)"
| "tree_nodes (JObj ms) = Suc (member_nodes ms)"
| "tree_nodes JNull = 1"
| "tree_nodes (JBool _) = 1"
| "tree_nodes (JInt _) = 1"
| "tree_nodes (JUint _) = 1"
| "tree_nodes (JFloat _) = 1"
| "tree_nodes (JStr _) = 1"
| "element_nodes [] = 0"
| "element_nodes (x # xs) = tree_nodes x + element_nodes xs"
| "member_nodes [] = 0"
| "member_nodes ((k, v) # ms) = Suc (tree_nodes v + member_nodes ms)"

fun tree_shape :: "nat \<Rightarrow> json \<Rightarrow> bool" and element_shapes :: "nat \<Rightarrow> json list \<Rightarrow> bool"
  and member_shapes :: "nat \<Rightarrow> (string \<times> json) list \<Rightarrow> bool" where
  "tree_shape d (JArr xs) \<longleftrightarrow> d < kMaximumDepth \<and> length xs \<le> 1024 \<and> element_shapes (Suc d) xs"
| "tree_shape d (JObj ms) \<longleftrightarrow>
     d < kMaximumDepth \<and> length ms \<le> 1024 \<and> distinct_keys ms \<and> member_shapes (Suc d) ms"
| "tree_shape d JNull = True"
| "tree_shape d (JBool _) = True"
| "tree_shape d (JInt _) = True"
| "tree_shape d (JUint _) = True"
| "tree_shape d (JFloat _) = True"
| "tree_shape d (JStr _) = True"
| "element_shapes d [] = True"
| "element_shapes d (x # xs) \<longleftrightarrow> tree_shape d x \<and> element_shapes d xs"
| "member_shapes d [] = True"
| "member_shapes d ((k, v) # ms) \<longleftrightarrow> tree_shape d v \<and> member_shapes d ms"

lemmas sax_limits = kMaximumDepth_def kMaximumCollectionEntries_def kMaximumNodes_def

definition room :: "(Collection \<times> nat \<times> string list) list \<Rightarrow> bool" where
  "room S = (case S of (Col_Array, c, _) # _ \<Rightarrow> c < 1024 | _ \<Rightarrow> True)"

definition bump :: "(Collection \<times> nat \<times> string list) list \<Rightarrow> (Collection \<times> nat \<times> string list) list" where
  "bump S = (case S of (Col_Array, c, keys) # R \<Rightarrow> (Col_Array, c + 1, keys) # R | _ \<Rightarrow> S)"

lemma length_bump [simp]: "length (bump S) = length S"
  by (simp add: bump_def split: list.splits prod.splits Collection.splits)

lemma bump_room_simps [simp]:
  "room ((Col_Array, c, keys) # R) \<longleftrightarrow> c < 1024"
  "room ((Col_Object, c, keys) # R)" "room []"
  "bump ((Col_Array, c, keys) # R) = (Col_Array, Suc c, keys) # R"
  "bump ((Col_Object, c, keys) # R) = (Col_Object, c, keys) # R"
  by (simp_all add: room_def bump_def)

lemma Value_sax_eq:
  "Value_sax \<lparr>sx_nodes = n, sx_stack = S\<rparr> =
     (if room S \<and> n < 4096 then Some \<lparr>sx_nodes = Suc n, sx_stack = bump S\<rparr> else None)"
  by (simp add: Value_sax_def room_def bump_def sax_limits
      split: list.splits prod.splits Collection.splits)

lemma StartCollection_eq:
  "StartCollection C \<lparr>sx_nodes = n, sx_stack = S\<rparr> =
     (if room S \<and> n < 4096 \<and> length S < 24
      then Some \<lparr>sx_nodes = Suc n, sx_stack = (C, 0, []) # bump S\<rparr> else None)"
  by (simp add: StartCollection_def Value_sax_eq sax_limits)

lemma sax_run_append:
  "sax_run (es @ es') s = (case sax_run es s of None \<Rightarrow> None | Some s' \<Rightarrow> sax_run es' s')"
  by (induction es arbitrary: s) (simp_all split: option.splits)

text \<open>Reading one tree, the elements of an array and the members of an object.\<close>

definition reads_tree :: "json \<Rightarrow> bool" where
  "reads_tree j \<longleftrightarrow> (\<forall>n S. n \<le> 4096 \<longrightarrow>
     sax_run (sax_events j) \<lparr>sx_nodes = n, sx_stack = S\<rparr> =
       (if room S \<and> n + tree_nodes j \<le> 4096 \<and> tree_shape (length S) j
        then Some \<lparr>sx_nodes = n + tree_nodes j, sx_stack = bump S\<rparr> else None))"

definition reads_elements :: "json list \<Rightarrow> bool" where
  "reads_elements xs \<longleftrightarrow> (\<forall>n c keys R. n \<le> 4096 \<longrightarrow> c \<le> 1024 \<longrightarrow>
     sax_run (sax_elements xs) \<lparr>sx_nodes = n, sx_stack = (Col_Array, c, keys) # R\<rparr> =
       (if c + length xs \<le> 1024 \<and> n + element_nodes xs \<le> 4096 \<and> element_shapes (Suc (length R)) xs
        then Some \<lparr>sx_nodes = n + element_nodes xs, sx_stack = (Col_Array, c + length xs, keys) # R\<rparr>
        else None))"

definition reads_members :: "(string \<times> json) list \<Rightarrow> bool" where
  "reads_members ms \<longleftrightarrow> (\<forall>n c keys R. n \<le> 4096 \<longrightarrow> c \<le> 1024 \<longrightarrow>
     sax_run (sax_members ms) \<lparr>sx_nodes = n, sx_stack = (Col_Object, c, keys) # R\<rparr> =
       (if c + length ms \<le> 1024 \<and> n + member_nodes ms \<le> 4096 \<and> distinct_keys ms \<and>
           set (map fst ms) \<inter> set keys = {} \<and> member_shapes (Suc (length R)) ms
        then Some \<lparr>sx_nodes = n + member_nodes ms,
                   sx_stack = (Col_Object, c + length ms, rev (map fst ms) @ keys) # R\<rparr>
        else None))"

lemma reads_array:
  assumes "reads_elements xs"
  shows "reads_tree (JArr xs)"
  unfolding reads_tree_def
proof (intro allI impI)
  fix n :: nat and S
  assume "n \<le> 4096"
  have "sax_run (sax_elements xs) \<lparr>sx_nodes = Suc n, sx_stack = (Col_Array, 0, []) # bump S\<rparr> =
       (if length xs \<le> 1024 \<and> Suc n + element_nodes xs \<le> 4096 \<and> element_shapes (Suc (length S)) xs
        then Some \<lparr>sx_nodes = Suc n + element_nodes xs,
                   sx_stack = (Col_Array, length xs, []) # bump S\<rparr>
        else None)" if "n < 4096"
    using assms that unfolding reads_elements_def by simp
  then show "sax_run (sax_events (JArr xs)) \<lparr>sx_nodes = n, sx_stack = S\<rparr> =
       (if room S \<and> n + tree_nodes (JArr xs) \<le> 4096 \<and> tree_shape (length S) (JArr xs)
        then Some \<lparr>sx_nodes = n + tree_nodes (JArr xs), sx_stack = bump S\<rparr> else None)"
    by (auto simp: StartCollection_eq sax_run_append EndCollection_def sax_limits)
qed

lemma reads_object:
  assumes "reads_members ms"
  shows "reads_tree (JObj ms)"
  unfolding reads_tree_def
proof (intro allI impI)
  fix n :: nat and S
  assume "n \<le> 4096"
  have "sax_run (sax_members ms) \<lparr>sx_nodes = Suc n, sx_stack = (Col_Object, 0, []) # bump S\<rparr> =
       (if length ms \<le> 1024 \<and> Suc n + member_nodes ms \<le> 4096 \<and> distinct_keys ms \<and>
           member_shapes (Suc (length S)) ms
        then Some \<lparr>sx_nodes = Suc n + member_nodes ms,
                   sx_stack = (Col_Object, length ms, rev (map fst ms)) # bump S\<rparr>
        else None)" if "n < 4096"
    using assms that unfolding reads_members_def by simp
  then show "sax_run (sax_events (JObj ms)) \<lparr>sx_nodes = n, sx_stack = S\<rparr> =
       (if room S \<and> n + tree_nodes (JObj ms) \<le> 4096 \<and> tree_shape (length S) (JObj ms)
        then Some \<lparr>sx_nodes = n + tree_nodes (JObj ms), sx_stack = bump S\<rparr> else None)"
    by (auto simp: StartCollection_eq sax_run_append EndCollection_def sax_limits)
qed

lemma reads_scalar:
  "sax_events j = [SE_Value] \<Longrightarrow> tree_nodes j = 1 \<Longrightarrow> (\<And>d. tree_shape d j) \<Longrightarrow> reads_tree j"
  by (auto simp: reads_tree_def Value_sax_eq)

lemma reads_Cons_element:
  assumes "reads_tree x" "reads_elements xs"
  shows "reads_elements (x # xs)"
  unfolding reads_elements_def
proof (intro allI impI)
  fix n c :: nat and keys R
  assume "n \<le> 4096" "c \<le> 1024"
  then show "sax_run (sax_elements (x # xs)) \<lparr>sx_nodes = n, sx_stack = (Col_Array, c, keys) # R\<rparr> =
       (if c + length (x # xs) \<le> 1024 \<and> n + element_nodes (x # xs) \<le> 4096 \<and>
           element_shapes (Suc (length R)) (x # xs)
        then Some \<lparr>sx_nodes = n + element_nodes (x # xs),
                   sx_stack = (Col_Array, c + length (x # xs), keys) # R\<rparr>
        else None)"
    using assms unfolding reads_tree_def reads_elements_def by (auto simp: sax_run_append)
qed

lemma reads_Cons_member:
  assumes "reads_tree v" "reads_members ms"
  shows "reads_members ((k, v) # ms)"
  unfolding reads_members_def
proof (intro allI impI)
  fix n c :: nat and keys R
  assume "n \<le> 4096" "c \<le> 1024"
  then show "sax_run (sax_members ((k, v) # ms)) \<lparr>sx_nodes = n, sx_stack = (Col_Object, c, keys) # R\<rparr> =
       (if c + length ((k, v) # ms) \<le> 1024 \<and> n + member_nodes ((k, v) # ms) \<le> 4096 \<and>
           distinct_keys ((k, v) # ms) \<and> set (map fst ((k, v) # ms)) \<inter> set keys = {} \<and>
           member_shapes (Suc (length R)) ((k, v) # ms)
        then Some \<lparr>sx_nodes = n + member_nodes ((k, v) # ms),
                   sx_stack = (Col_Object, c + length ((k, v) # ms),
                     rev (map fst ((k, v) # ms)) @ keys) # R\<rparr>
        else None)"
    using assms unfolding reads_tree_def reads_members_def
    by (auto simp: sax_run_append key_sax_def sax_limits)
qed

lemma reads_all: "reads_tree j" "reads_elements xs" "reads_members ms"
  by (induction j and xs and ms rule: sax_events_sax_elements_sax_members.induct)
     (auto intro: reads_array reads_object reads_scalar reads_Cons_element reads_Cons_member
       simp: reads_elements_def [of "[]"] reads_members_def [of "[]"])

lemma bounded_sax_shape:
  "sax_run (sax_events j) mk_sax = None \<longleftrightarrow> \<not> (tree_nodes j \<le> 4096 \<and> tree_shape 0 j)"
  using reads_all(1) [of j] by (simp add: reads_tree_def mk_sax_def)

section \<open>Properties\<close>

text \<open>
  Property C40. The streaming handler accepts the events of a document exactly when the document is
  within the bounds of the protocol: nesting of at most 24 collections, at most 1024 entries in each
  collection, at most 4096 values and keys in all, and no key twice in any object.
\<close>

theorem bounded_sax_iff:
  "sax_run (sax_events j) mk_sax \<noteq> None \<longleftrightarrow> tree_nodes j \<le> 4096 \<and> tree_shape 0 j"
  by (simp add: bounded_sax_shape)

text \<open>
  A line is admitted as a document exactly when it is a non-empty frame of less than
  128 KiB without NUL whose tree is within those bounds; the library parameters are only assumed to
  report the tree of this line and to build its document.
\<close>

theorem ParseBounded_iff:
  assumes "lib_sax line = sax_events tree" "lib_parse line = Some doc"
  shows "ParseBounded lib_sax lib_parse line = Some doc \<longleftrightarrow>
    line \<noteq> [] \<and> length line < 131072 \<and> CHR 0x00 \<notin> set line \<and>
    tree_nodes tree \<le> 4096 \<and> tree_shape 0 tree"
  using bounded_sax_shape [of tree] assms
  by (auto simp: ParseBounded_def kMaximumFrameBytes_def)

theorem ParseBounded_iff_witness:
  "ParseBounded (\<lambda>_. sax_events (JObj [(''a'', JArr [JNull])]))
     (\<lambda>_. Some (JObj [(''a'', JArr [JNull])])) ''{\"a\":[null]}'' = Some (JObj [(''a'', JArr [JNull])])"
  using ParseBounded_iff [of "\<lambda>_. sax_events (JObj [(''a'', JArr [JNull])])" "''{\"a\":[null]}''"
      "JObj [(''a'', JArr [JNull])]" "\<lambda>_. Some (JObj [(''a'', JArr [JNull])])"]
  by (simp add: kMaximumDepth_def)

end
