(* ===== verification/StoreFormat.thy ===== *)
theory StoreFormat
  imports Codec Json
    "HOL-Library.List_Lexorder" "HOL-Library.Char_ord"
begin

text \<open>
  The document of the durable store, from \<^verbatim>\<open>native/src/storage.cpp\<close>: identities and keys, the parser
  \<open>ParseState\<close> with its duplicate-key callback, and \<open>SerializeState\<close>.

  The JSON library is a parameter: \<open>dump\<close> prints a document (\<open>None\<close> when it throws), \<open>lib_events\<close> gives
  the calls of the parser callback for a text and \<open>lib_doc\<close> the document (\<open>None\<close> when it is discarded or
  the parser throws).  \<^verbatim>\<open>std::map\<close> is a list of pairs in the order of the keys.
\<close>

section \<open>Identity and keys\<close>

record ControllerIdentity =
  ci_fabric_id :: u64
  ci_controller_node_id :: u64
  ci_vendor_id :: u16

definition kMaximumFileBytes :: nat where "kMaximumFileBytes = 16 * 1024 * 1024"
definition kMaximumKeys :: nat where "kMaximumKeys = 4096"
definition kMaximumKeyBytes :: nat where "kMaximumKeyBytes = 255"
definition kMaximumOperationalNode :: u64 where "kMaximumOperationalNode = 0xFFFFFFEFFFFFFFFF"

definition ValidIdentity :: "ControllerIdentity \<Rightarrow> bool" where
  "ValidIdentity identity \<longleftrightarrow>
     ci_fabric_id identity > 0 \<and> ci_controller_node_id identity > 0 \<and>
     ci_controller_node_id identity \<le> kMaximumOperationalNode \<and>
     ci_vendor_id identity > 0 \<and> ci_vendor_id identity < 0xFFFF"

text \<open>A key is the memory at a pointer that may be null; \<open>strnlen\<close> reads up to the first NUL.\<close>

definition ValidKey :: "string option \<Rightarrow> string option" where
  "ValidKey key =
     (case key of
        None \<Rightarrow> None
      | Some memory \<Rightarrow>
          let normalized = takeWhile (\<lambda>c. c \<noteq> CHR 0x00) memory
          in if normalized = [] \<or> length normalized > kMaximumKeyBytes then None
             else if ValidUtf8 normalized then Some normalized else None)"

section \<open>Values\<close>

type_synonym Values = "u8 list strmap"

fun map_put :: "string \<Rightarrow> 'v \<Rightarrow> 'v strmap \<Rightarrow> 'v strmap" where
  "map_put k v [] = [(k, v)]"
| "map_put k v ((l, w) # ms) =
     (if k = l then (k, v) # ms else if k < l then (k, v) # (l, w) # ms else (l, w) # map_put k v ms)"

definition map_erase :: "string \<Rightarrow> 'v strmap \<Rightarrow> 'v strmap" where
  "map_erase k ms = filter (\<lambda>(l, _). l \<noteq> k) ms"

definition map_emplace :: "string \<Rightarrow> 'v \<Rightarrow> 'v strmap \<Rightarrow> 'v strmap" where
  "map_emplace k v ms = (if map_of ms k = None then map_put k v ms else ms)"

section \<open>Reading the document\<close>

definition kSchema :: string where "kSchema = ''wotex.matter.store''"

definition ExactKeys_store :: "json \<Rightarrow> bool" where
  "ExactKeys_store document =
     (let expected = [''authority'', ''controller_node_id'', ''fabric_id'', ''schema'', ''values'',
                      ''vendor_id'', ''version'']
      in if \<not> is_object document \<or> json_size document \<noteq> length expected then False
         else set (map fst (members document)) = set expected)"

datatype parse_event = PE_ObjectStart | PE_Key string | PE_Other

text \<open>The callback: the flag \<open>duplicate\<close> and the map from a depth to the keys seen there.\<close>

fun callback :: "nat \<times> parse_event \<Rightarrow> bool \<times> (nat \<Rightarrow> string list) \<Rightarrow> bool \<times> (nat \<Rightarrow> string list)" where
  "callback (depth, PE_ObjectStart) (duplicate, keys) = (duplicate, keys(depth := []))"
| "callback (depth, PE_Key key) (duplicate, keys) =
     (if key \<in> set (keys depth) then (True, keys) else (duplicate, keys(depth := key # keys depth)))"
| "callback (depth, PE_Other) (duplicate, keys) = (duplicate, keys)"

definition duplicate_key :: "(nat \<times> parse_event) list \<Rightarrow> bool" where
  "duplicate_key events = fst (fold callback events (False, \<lambda>_. []))"

fun load_values :: "(string \<times> json) list \<Rightarrow> Values \<Rightarrow> Values option" where
  "load_values [] loaded = Some loaded"
| "load_values ((key, v) # entries) loaded =
     (if key = [] \<or> length key > kMaximumKeyBytes \<or> \<not> ValidUtf8 key \<or> \<not> is_string v then None
      else case Base64Decode (get_string v) of
        None \<Rightarrow> None
      | Some decoded \<Rightarrow> load_values entries (map_emplace key decoded loaded))"

definition ParseState ::
    "(string \<Rightarrow> (nat \<times> parse_event) list) \<Rightarrow> (string \<Rightarrow> json option) \<Rightarrow> string \<Rightarrow>
     ControllerIdentity \<Rightarrow> Values option" where
  "ParseState lib_events lib_doc contents expected_identity =
     (case lib_doc contents of
        None \<Rightarrow> None
      | Some document \<Rightarrow>
          if duplicate_key (lib_events contents) \<or> \<not> ExactKeys_store document \<or>
             \<not> is_string (at_key document ''schema'') \<or>
             get_string (at_key document ''schema'') \<noteq> kSchema \<or>
             \<not> is_number_unsigned (at_key document ''version'') \<or>
             get_unsigned (at_key document ''version'') \<noteq> 1 \<or>
             \<not> is_number_unsigned (at_key document ''fabric_id'') \<or>
             \<not> is_number_unsigned (at_key document ''controller_node_id'') \<or>
             \<not> is_number_unsigned (at_key document ''vendor_id'') \<or>
             \<not> is_string (at_key document ''authority'') \<or>
             get_string (at_key document ''authority'') \<noteq> ''generate_root'' \<or>
             \<not> is_object (at_key document ''values'')
          then None
          else
            let vendor_id = get_unsigned (at_key document ''vendor_id'')
            in if vendor_id = 0 \<or> vendor_id \<ge> 0xFFFF then None
               else
                 let identity = \<lparr>ci_fabric_id = get_unsigned (at_key document ''fabric_id''),
                                 ci_controller_node_id = get_unsigned (at_key document ''controller_node_id''),
                                 ci_vendor_id = ucast vendor_id\<rparr>
                 in if \<not> ValidIdentity identity \<or> identity \<noteq> expected_identity \<or>
                       json_size (at_key document ''values'') > kMaximumKeys
                    then None
                    else load_values (members (at_key document ''values'')) [])"

section \<open>Writing the document\<close>

definition state_document :: "ControllerIdentity \<Rightarrow> Values \<Rightarrow> json" where
  "state_document identity vals =
     JObj [(''schema'', JStr kSchema), (''version'', JInt 1),
           (''fabric_id'', JUint (ci_fabric_id identity)),
           (''controller_node_id'', JUint (ci_controller_node_id identity)),
           (''vendor_id'', JUint (ucast (ci_vendor_id identity))),
           (''authority'', JStr ''generate_root''),
           (''values'', JObj (map (\<lambda>(key, v). (key, JStr (Base64Encode v))) vals))]"

definition SerializeState ::
    "(json \<Rightarrow> string option) \<Rightarrow> ControllerIdentity \<Rightarrow> Values \<Rightarrow> string option" where
  "SerializeState dump identity vals =
     (case dump (state_document identity vals) of
        None \<Rightarrow> None
      | Some text \<Rightarrow>
          let contents = text @ [CHR 0x0A]
          in if length contents \<le> kMaximumFileBytes then Some contents else None)"

section \<open>Sorted maps\<close>

definition key_sorted :: "'v strmap \<Rightarrow> bool" where
  "key_sorted ms \<longleftrightarrow> sorted_wrt (<) (map fst ms)"

lemma key_sorted_simps [simp]:
  "key_sorted []" "key_sorted ((k, v) # ms) \<longleftrightarrow> (\<forall>l \<in> fst ` set ms. k < l) \<and> key_sorted ms"
  by (auto simp: key_sorted_def)

lemma map_of_map_put [simp]: "map_of (map_put k v ms) = (map_of ms)(k \<mapsto> v)"
  by (induction k v ms rule: map_put.induct) auto

lemma fst_map_put: "fst ` set (map_put k v ms) = insert k (fst ` set ms)"
  by (induction k v ms rule: map_put.induct) auto

lemma key_sorted_map_put: "key_sorted ms \<Longrightarrow> key_sorted (map_put k v ms)"
  by (induction k v ms rule: map_put.induct) (auto simp: fst_map_put)

lemma map_of_map_erase [simp]: "map_of (map_erase k ms) = (map_of ms)(k := None)"
  by (induction ms) (auto simp: map_erase_def)

lemma key_sorted_map_erase: "key_sorted ms \<Longrightarrow> key_sorted (map_erase k ms)"
  by (induction ms) (auto simp: map_erase_def)

lemma key_sorted_distinct: "key_sorted ms \<Longrightarrow> distinct_keys ms"
  by (simp add: key_sorted_def strict_sorted_iff)

lemma key_sorted_sorted: "key_sorted ms \<Longrightarrow> sorted (map fst ms)"
  by (simp add: key_sorted_def strict_sorted_iff)

lemma map_put_last: "(\<forall>l \<in> fst ` set ms. l < k) \<Longrightarrow> map_put k v ms = ms @ [(k, v)]"
  by (induction k v ms rule: map_put.induct) auto

lemma length_map_put: "length (map_put k v ms) \<le> Suc (length ms)"
  by (induction k v ms rule: map_put.induct) auto

lemma length_map_put_present:
  "key_sorted ms \<Longrightarrow> map_of ms k \<noteq> None \<Longrightarrow> length (map_put k v ms) = length ms"
proof (induction k v ms rule: map_put.induct)
  case (2 k v l w ms)
  then have "map_of ms k = None" if "k < l"
    using that by (auto simp: map_of_eq_None_iff dest: order.asym)
  then show ?case using 2 by (auto split: if_splits)
qed simp

lemma set_map_put: "set (map_put k v ms) \<subseteq> insert (k, v) (set ms)"
  by (induction k v ms rule: map_put.induct) auto

section \<open>Well-formed values\<close>

definition wf_entry :: "string \<times> u8 list \<Rightarrow> bool" where
  "wf_entry = (\<lambda>(key, v). key \<noteq> [] \<and> length key \<le> 255 \<and> ValidUtf8 key \<and> length v \<le> 65535)"

definition wf_values :: "Values \<Rightarrow> bool" where
  "wf_values vals \<longleftrightarrow> key_sorted vals \<and> length vals \<le> 4096 \<and> list_all wf_entry vals"

lemma list_all_map_put: "list_all P ms \<Longrightarrow> P (k, v) \<Longrightarrow> list_all P (map_put k v ms)"
  by (induction k v ms rule: map_put.induct) auto

lemma load_values_wf:
  assumes "load_values entries loaded = Some vals" "key_sorted loaded" "list_all wf_entry loaded"
  shows "key_sorted vals \<and> list_all wf_entry vals \<and> length vals \<le> length loaded + length entries"
  using assms
proof (induction entries loaded rule: load_values.induct)
  case (2 key v entries loaded)
  then obtain decoded where d: "Base64Decode (get_string v) = Some decoded"
      "load_values entries (map_emplace key decoded loaded) = Some vals"
    and k: "wf_entry (key, decoded)"
    using Base64Decode_bound
    by (auto simp: wf_entry_def kMaximumKeyBytes_def split: if_splits option.splits)
  let ?l = "map_emplace key decoded loaded"
  have "key_sorted ?l" "list_all wf_entry ?l" "length ?l \<le> Suc (length loaded)"
    using 2 k by (auto simp: map_emplace_def key_sorted_map_put list_all_map_put length_map_put)
  then show ?case using 2 d by (auto split: if_splits)
qed simp

lemma load_values_encoded:
  assumes "key_sorted (loaded @ vals)" "list_all wf_entry vals"
  shows "load_values (map (\<lambda>(key, v). (key, JStr (Base64Encode v))) vals) loaded = Some (loaded @ vals)"
  using assms
proof (induction vals arbitrary: loaded)
  case (Cons e vals)
  obtain key v where e: "e = (key, v)" by fastforce
  have below: "\<forall>l \<in> fst ` set loaded. l < key"
    using Cons.prems(1) by (auto simp: key_sorted_def sorted_wrt_append e)
  then have "map_of loaded key = None" by (auto simp: map_of_eq_None_iff)
  then have "map_emplace key v loaded = loaded @ [(key, v)]"
    using below by (simp add: map_emplace_def map_put_last)
  then show ?case
    using Cons.IH [of "loaded @ [(key, v)]"] Cons.prems
    by (simp add: e wf_entry_def kMaximumKeyBytes_def Base64Decode_encode del: Base64Encode.simps)
qed simp

section \<open>What the JSON library documents\<close>

text \<open>The callback calls for a tree: \<open>object_start\<close> carries the depth of the parent, \<open>key\<close> the depth of
  the object itself.\<close>

fun parse_events :: "nat \<Rightarrow> json \<Rightarrow> (nat \<times> parse_event) list"
  and parse_members :: "nat \<Rightarrow> (string \<times> json) list \<Rightarrow> (nat \<times> parse_event) list"
  and parse_elements :: "nat \<Rightarrow> json list \<Rightarrow> (nat \<times> parse_event) list" where
  "parse_events d (JObj ms) = (d, PE_ObjectStart) # parse_members (Suc d) ms @ [(d, PE_Other)]"
| "parse_events d (JArr xs) = (d, PE_Other) # parse_elements (Suc d) xs @ [(d, PE_Other)]"
| "parse_events d JNull = [(d, PE_Other)]"
| "parse_events d (JBool _) = [(d, PE_Other)]"
| "parse_events d (JInt _) = [(d, PE_Other)]"
| "parse_events d (JUint _) = [(d, PE_Other)]"
| "parse_events d (JFloat _) = [(d, PE_Other)]"
| "parse_events d (JStr _) = [(d, PE_Other)]"
| "parse_members d [] = []"
| "parse_members d ((k, v) # ms) = (d, PE_Key k) # parse_events d v @ parse_members d ms"
| "parse_elements d [] = []"
| "parse_elements d (x # xs) = parse_events d x @ parse_elements d xs"

text \<open>The document built for a printed tree without repeated keys: members in key order, and a
  non-negative integer is unsigned.\<close>

fun parsed_form :: "json \<Rightarrow> json" where
  "parsed_form (JInt i) = (if 0 \<le> sint i then JUint i else JInt i)"
| "parsed_form (JObj ms) = JObj (sort_key fst (map (\<lambda>(k, v). (k, parsed_form v)) ms))"
| "parsed_form (JArr xs) = JArr (map parsed_form xs)"
| "parsed_form j = j"

definition library_reads ::
    "(json \<Rightarrow> string option) \<Rightarrow> (string \<Rightarrow> (nat \<times> parse_event) list) \<Rightarrow> (string \<Rightarrow> json option) \<Rightarrow> json \<Rightarrow>
     bool" where
  "library_reads dump lib_events lib_doc document \<longleftrightarrow>
     (case dump document of
        None \<Rightarrow> True
      | Some text \<Rightarrow>
          lib_events (text @ [CHR 0x0A]) = parse_events 0 document \<and>
          lib_doc (text @ [CHR 0x0A]) = Some (parsed_form document))"

section \<open>The document is read back\<close>

lemma callback_other [simp]: "callback (d, PE_Other) s = s"
  by (cases s) simp

lemma key_events_no_duplicate:
  assumes "distinct (map fst ms)" "\<forall>k \<in> fst ` set ms. k \<notin> set (keys d)"
  shows "fst (fold callback (parse_members d (map (\<lambda>(k, v). (k, JStr (f v))) ms)) (dup, keys)) = dup"
  using assms
proof (induction ms arbitrary: keys)
  case (Cons m ms)
  obtain k v where m: "m = (k, v)" by fastforce
  have "\<forall>k' \<in> fst ` set ms. k' \<notin> set ((keys(d := k # keys d)) d)"
    using Cons.prems m by force
  then show ?case using Cons.IH [of "keys(d := k # keys d)"] Cons.prems m by (simp del: fun_upd_apply)
qed simp

lemma state_document_no_duplicate:
  assumes "key_sorted vals"
  shows "\<not> duplicate_key (parse_events 0 (state_document identity vals))"
  by (simp add: duplicate_key_def state_document_def key_events_no_duplicate key_sorted_distinct assms)

lemma sort_encoded_values:
  assumes "key_sorted vals"
  shows "sort_key fst (map (\<lambda>(key, v). (key, JStr (Base64Encode v))) vals) =
    map (\<lambda>(key, v). (key, JStr (Base64Encode v))) vals"
  using key_sorted_sorted [OF assms]
  by (intro sort_key_id_if_sorted) (simp add: case_prod_beta comp_def)

lemma parsed_state_document:
  assumes "key_sorted vals"
  shows "parsed_form (state_document identity vals) =
    JObj [(''authority'', JStr ''generate_root''),
          (''controller_node_id'', JUint (ci_controller_node_id identity)),
          (''fabric_id'', JUint (ci_fabric_id identity)), (''schema'', JStr kSchema),
          (''values'', JObj (map (\<lambda>(key, v). (key, JStr (Base64Encode v))) vals)),
          (''vendor_id'', JUint (ucast (ci_vendor_id identity))), (''version'', JUint 1)]"
  using sort_encoded_values [OF assms]
  by (simp add: state_document_def case_prod_unfold comp_def less_char_def)

lemma ParseState_wf:
  assumes "ParseState lib_events lib_doc contents identity = Some vals"
  shows "ValidIdentity identity \<and> wf_values vals"
proof -
  obtain document where "load_values (members (at_key document ''values'')) [] = Some vals"
      "json_size (at_key document ''values'') \<le> 4096" "is_object (at_key document ''values'')"
      "ValidIdentity identity"
    using assms by (auto simp: ParseState_def Let_def kMaximumKeys_def split: option.splits if_splits)
  then show ?thesis
    using load_values_wf [of "members (at_key document ''values'')" "[]" vals]
    by (cases "at_key document ''values''") (auto simp: wf_values_def)
qed

text \<open>Whatever the library makes of a file, values that \<open>ParseState\<close> loads belong to a valid
  identity, the expected one, and are well formed: at most 4096 entries in key order without repetition,
  every key 1 to 255 bytes of UTF-8 without NUL, every value at most 65535 bytes.\<close>

theorem ParseState_sound:
  assumes "ParseState lib_events lib_doc contents identity = Some vals"
  shows "ValidIdentity identity \<and> wf_values vals"
  using assms by (rule ParseState_wf)

text \<open>The helper behind the round trip.\<close>

lemma ParseState_serialized:
  assumes "ValidIdentity identity" "wf_values vals"
    "library_reads dump lib_events lib_doc (state_document identity vals)"
    "SerializeState dump identity vals = Some contents"
  shows "ParseState lib_events lib_doc contents expected =
    (if expected = identity then Some vals else None)"
proof -
  have sorted: "key_sorted vals" and small: "length vals \<le> 4096" and ok: "list_all wf_entry vals"
    using assms(2) by (auto simp: wf_values_def)
  have "lib_events contents = parse_events 0 (state_document identity vals)"
      "lib_doc contents = Some (parsed_form (state_document identity vals))"
    using assms(3,4) by (auto simp: library_reads_def SerializeState_def Let_def split: option.splits if_splits)
  moreover have "ucast (ci_vendor_id identity) \<noteq> (0 :: u64) \<and> \<not> (ucast (ci_vendor_id identity) :: u64) \<ge> 0xFFFF"
    using assms(1) by (simp add: ValidIdentity_def word_le_nat_alt word_less_nat_alt word_unat_eq_iff)
  moreover have "load_values (map (\<lambda>(key, v). (key, JStr (Base64Encode v))) vals) [] = Some vals"
    using load_values_encoded [of "[]" vals] sorted ok by simp
  moreover have "ExactKeys_store (parsed_form (state_document identity vals))"
    by (auto simp: ExactKeys_store_def parsed_state_document [OF sorted])
  moreover have "ValidIdentity \<lparr>ci_fabric_id = ci_fabric_id identity,
      ci_controller_node_id = ci_controller_node_id identity, ci_vendor_id = ci_vendor_id identity\<rparr>"
    using assms(1) by (simp add: ValidIdentity_def)
  ultimately show ?thesis
    using state_document_no_duplicate [OF sorted, of identity] assms(1) small
    by (cases "identity = expected")
      (auto simp add: ParseState_def parsed_state_document [OF sorted] at_key_def kMaximumKeys_def Let_def)
qed

text \<open>Property C37. A document that \<open>SerializeState\<close> writes for a valid identity and well-formed values is read
  back: under the library's documented behaviour on that one document, \<open>ParseState\<close> returns exactly the
  values for that identity, and refuses the file for every other identity.\<close>

theorem store_roundtrip:
  assumes "ValidIdentity identity" "wf_values vals"
    "library_reads dump lib_events lib_doc (state_document identity vals)"
    "SerializeState dump identity vals = Some contents"
  shows "ParseState lib_events lib_doc contents expected =
    (if expected = identity then Some vals else None)"
  using assms by (rule ParseState_serialized)

definition example_identity :: ControllerIdentity where
  "example_identity = \<lparr>ci_fabric_id = 1, ci_controller_node_id = 112233, ci_vendor_id = 0xFFF1\<rparr>"

definition example_values :: Values where
  "example_values = [(''f/1'', [1, 2]), (''g'', [])]"

lemma example_wf: "ValidIdentity example_identity" "wf_values example_values"
proof -
  show "ValidIdentity example_identity"
    by (simp add: ValidIdentity_def example_identity_def kMaximumOperationalNode_def)
  have "ValidUtf8 ''f/1''" "ValidUtf8 ''g''" by (simp_all add: ValidUtf8_def)
  then show "wf_values example_values"
    by (simp add: wf_values_def wf_entry_def example_values_def less_char_def)
qed

text \<open>A library that prints the example as \<open>{...}\<close> and reads that text back.\<close>

lemma example_library:
  "library_reads (\<lambda>_. Some ''{...}'') (\<lambda>_. parse_events 0 d) (\<lambda>_. Some (parsed_form d)) d"
  "SerializeState (\<lambda>_. Some ''{...}'') identity vals = Some (''{...}'' @ [CHR 0x0A])"
  by (simp_all add: library_reads_def SerializeState_def kMaximumFileBytes_def)

lemma store_roundtrip_witness:
  "ParseState (\<lambda>_. parse_events 0 (state_document example_identity example_values))
     (\<lambda>_. Some (parsed_form (state_document example_identity example_values)))
     (''{...}'' @ [CHR 0x0A]) example_identity = Some example_values"
  using store_roundtrip [OF example_wf example_library] by simp

lemma ParseState_sound_witness:
  "ParseState (\<lambda>_. parse_events 0 (state_document example_identity example_values))
     (\<lambda>_. Some (parsed_form (state_document example_identity example_values)))
     (''{...}'' @ [CHR 0x0A]) example_identity = Some example_values \<and>
   ValidIdentity example_identity \<and> wf_values example_values"
proof -
  have p: "ParseState (\<lambda>_. parse_events 0 (state_document example_identity example_values))
     (\<lambda>_. Some (parsed_form (state_document example_identity example_values)))
     (''{...}'' @ [CHR 0x0A]) example_identity = Some example_values"
    using ParseState_serialized [OF example_wf example_library] by simp
  then show ?thesis using ParseState_sound [OF p] by simp
qed

section \<open>Duplicate keys of the root object\<close>

text \<open>The \<open>object_start\<close> of the nested \<open>values\<close> object carries the depth of the root's own keys, so it
  clears the record of the keys of the root object.  A second \<open>values\<close> member is then not seen as a
  duplicate, and the library keeps the last one.\<close>

definition duplicated_values :: "ControllerIdentity \<Rightarrow> Values \<Rightarrow> json" where
  "duplicated_values identity vals =
     JObj (members (state_document identity vals) @ [(''values'', JObj [])])"

text \<open>\<open>ParseState\<close> accepts a file whose root object has two \<open>values\<close> members: with the
  callback calls that the library documents for that text, and the document it builds (the last member of
  a name wins), the store opens with the second, empty map instead of refusing the duplicate key.\<close>

theorem duplicate_root_key_accepted:
  "ParseState (\<lambda>_. parse_events 0 (duplicated_values example_identity example_values))
     (\<lambda>_. Some (parsed_form (state_document example_identity []))) contents example_identity = Some []"
proof -
  have "\<not> duplicate_key (parse_events 0 (duplicated_values example_identity example_values))"
    by (simp add: duplicate_key_def duplicated_values_def state_document_def example_values_def)
  moreover have "ParseState (\<lambda>_. parse_events 0 (state_document example_identity []))
      (\<lambda>_. Some (parsed_form (state_document example_identity []))) (''{...}'' @ [CHR 0x0A]) example_identity =
    Some []"
    using ParseState_serialized [OF example_wf(1) _ example_library, of "[]"] by (simp add: wf_values_def)
  ultimately show ?thesis
    using state_document_no_duplicate [of "[]" example_identity]
    by (simp add: ParseState_def)
qed

end
