(* ===== verification/Storage.thy ===== *)
theory Storage
  imports StoreFormat
begin

text \<open>
  \<open>DurableStorage\<close> of \<^verbatim>\<open>native/src/storage.cpp\<close> over a model of its directory.

  The directory has the entries that the process sees and the entries that are on disk; the operations
  made since the last \<open>fsync\<close> of the directory are a log, any part of which may have reached the disk.
  A file has the bytes written to it and whether they have been synced.  Every system call consumes one
  outcome; when the outcomes are used up the process has died and no further call has an effect, so
  that every prefix of a run is a run.
\<close>

section \<open>The directory\<close>

record inode =
  in_content :: string
  in_synced :: bool
  in_exact :: bool
  in_locked :: bool

datatype dir_op = D_Link string nat | D_Rename string string | D_Unlink string

fun apply_op :: "dir_op \<Rightarrow> (string \<rightharpoonup> nat) \<Rightarrow> (string \<rightharpoonup> nat)" where
  "apply_op (D_Link name i) dir = dir(name \<mapsto> i)"
| "apply_op (D_Rename a b) dir =
     (case dir a of None \<Rightarrow> dir | Some i \<Rightarrow> (dir(b \<mapsto> i))(a := None))"
| "apply_op (D_Unlink name) dir = dir(name := None)"

record disk =
  dk_present :: bool
  dk_private :: bool
  dk_entry_durable :: bool
  dk_live :: "string \<rightharpoonup> nat"
  dk_durable :: "string \<rightharpoonup> nat"
  dk_log :: "dir_op list"
  dk_inodes :: "inode list"

datatype outcome = Sys_Ok | Sys_Fail | Sys_Intr | Sys_Count nat

record world =
  wd_disk :: disk
  wd_outcomes :: "outcome list"
  wd_umask_clear :: bool

section \<open>System calls\<close>

definition sys_call :: "(disk \<Rightarrow> disk option) \<Rightarrow> world \<Rightarrow> bool \<times> world" where
  "sys_call effect w =
     (case wd_outcomes w of
        [] \<Rightarrow> (False, w)
      | x # xs \<Rightarrow>
          if x \<noteq> Sys_Ok then (False, w\<lparr>wd_outcomes := xs\<rparr>)
          else case effect (wd_disk w) of
            None \<Rightarrow> (False, w\<lparr>wd_outcomes := xs\<rparr>)
          | Some d \<Rightarrow> (True, w\<lparr>wd_outcomes := xs, wd_disk := d\<rparr>))"

definition update_inode :: "nat \<Rightarrow> (inode \<Rightarrow> inode) \<Rightarrow> disk \<Rightarrow> disk" where
  "update_inode i f d = d\<lparr>dk_inodes := (dk_inodes d)[i := f (dk_inodes d ! i)]\<rparr>"

definition do_dir_op :: "dir_op \<Rightarrow> disk \<Rightarrow> disk" where
  "do_dir_op op d = d\<lparr>dk_live := apply_op op (dk_live d), dk_log := dk_log d @ [op]\<rparr>"

definition do_nothing :: "disk \<Rightarrow> disk option" where
  "do_nothing d = Some d"

definition do_absent :: "string \<Rightarrow> disk \<Rightarrow> disk option" where
  "do_absent name d = (if dk_live d name = None then Some d else None)"

definition do_create :: "bool \<Rightarrow> string \<Rightarrow> disk \<Rightarrow> disk option" where
  "do_create exact name d =
     (if dk_live d name \<noteq> None then None
      else Some ((do_dir_op (D_Link name (length (dk_inodes d))) d)
             \<lparr>dk_inodes := dk_inodes d @
                [\<lparr>in_content = [], in_synced = False, in_exact = exact, in_locked = False\<rparr>]\<rparr>))"

definition do_fchmod :: "nat \<Rightarrow> disk \<Rightarrow> disk option" where
  "do_fchmod i d = Some (update_inode i (\<lambda>n. n\<lparr>in_exact := True, in_synced := False\<rparr>) d)"

definition do_fsync :: "nat \<Rightarrow> disk \<Rightarrow> disk option" where
  "do_fsync i d = Some (update_inode i (\<lambda>n. n\<lparr>in_synced := True\<rparr>) d)"

definition do_fsync_dir :: "disk \<Rightarrow> disk option" where
  "do_fsync_dir d = Some (d\<lparr>dk_durable := dk_live d, dk_log := []\<rparr>)"

definition do_rename :: "string \<Rightarrow> string \<Rightarrow> disk \<Rightarrow> disk option" where
  "do_rename a b d = (if dk_live d a = None then None else Some (do_dir_op (D_Rename a b) d))"

definition do_unlink :: "string \<Rightarrow> disk \<Rightarrow> disk option" where
  "do_unlink name d = (if dk_live d name = None then None else Some (do_dir_op (D_Unlink name) d))"

definition do_flock :: "nat \<Rightarrow> disk \<Rightarrow> disk option" where
  "do_flock i d =
     (if in_locked (dk_inodes d ! i) then None
      else Some (update_inode i (\<lambda>n. n\<lparr>in_locked := True\<rparr>) d))"

text \<open>Calls in a row, each made only when the one before succeeded.\<close>

fun run_all :: "(world \<Rightarrow> bool \<times> world) list \<Rightarrow> world \<Rightarrow> bool \<times> world" where
  "run_all [] w = (True, w)"
| "run_all (c # cs) w = (case c w of (False, w1) \<Rightarrow> (False, w1) | (True, w1) \<Rightarrow> run_all cs w1)"

text \<open>\<open>openat\<close> with \<open>O_CREAT | O_EXCL\<close>: the descriptor is the number of the new file.\<close>

definition sys_create :: "string \<Rightarrow> world \<Rightarrow> nat option \<times> world" where
  "sys_create name w =
     (case sys_call (do_create (wd_umask_clear w) name) w of
        (False, w1) \<Rightarrow> (None, w1)
      | (True, w1) \<Rightarrow> (Some (length (dk_inodes (wd_disk w))), w1))"

definition sys_open :: "string \<Rightarrow> world \<Rightarrow> nat option \<times> world" where
  "sys_open name w =
     (case sys_call do_nothing w of
        (False, w1) \<Rightarrow> (None, w1)
      | (True, w1) \<Rightarrow> (dk_live (wd_disk w1) name, w1))"

fun write_loop :: "nat \<Rightarrow> string \<Rightarrow> outcome list \<Rightarrow> disk \<Rightarrow> bool \<times> outcome list \<times> disk" where
  "write_loop i [] xs d = (True, xs, d)"
| "write_loop i (b # bytes) [] d = (False, [], d)"
| "write_loop i (b # bytes) (x # xs) d =
     (case x of
        Sys_Intr \<Rightarrow> write_loop i (b # bytes) xs d
      | Sys_Count n \<Rightarrow>
          if n = 0 then (False, xs, d)
          else write_loop i (drop n (b # bytes)) xs
                 (update_inode i (\<lambda>f. f\<lparr>in_content := in_content f @ take n (b # bytes), in_synced := False\<rparr>) d)
      | _ \<Rightarrow> (False, xs, d))"

definition WriteAll :: "nat \<Rightarrow> string \<Rightarrow> world \<Rightarrow> bool \<times> world" where
  "WriteAll i bytes w =
     (case write_loop i bytes (wd_outcomes w) (wd_disk w) of
        (ok, xs, d) \<Rightarrow> (ok, w\<lparr>wd_outcomes := xs, wd_disk := d\<rparr>))"

text \<open>The read loop: the rest of the file, and the bytes read so far.\<close>

fun read_loop :: "string \<Rightarrow> string \<Rightarrow> outcome list \<Rightarrow> string option \<times> outcome list" where
  "read_loop [] contents xs = (Some contents, xs)"
| "read_loop (b # rest) contents [] = (None, [])"
| "read_loop (b # rest) contents (x # xs) =
     (case x of
        Sys_Intr \<Rightarrow> read_loop (b # rest) contents xs
      | Sys_Count n \<Rightarrow>
          if n = 0 then (None, xs)
          else read_loop (drop n (b # rest)) (contents @ take n (b # rest)) xs
      | _ \<Rightarrow> (None, xs))"

section \<open>The store\<close>

definition kStateFile :: string where "kStateFile = ''store.json''"
definition kLockFile :: string where "kLockFile = ''store.lock''"
definition kTemporaryFile :: string where "kTemporaryFile = ''store.tmp''"
definition kIntentFile :: string where "kIntentFile = ''store.pending''"

datatype StorageMode = SM_CreateNew | SM_OpenExisting
datatype AuthorityMode = AM_GenerateRoot | AM_Stored

datatype chip_error =
  CHIP_ERROR_INVALID_ARGUMENT
| CHIP_ERROR_OPEN_FAILED
| CHIP_ERROR_PERSISTED_STORAGE_FAILED
| CHIP_ERROR_PERSISTED_STORAGE_VALUE_NOT_FOUND
| CHIP_ERROR_BUFFER_TOO_SMALL

record DurableStorage =
  ds_path :: string
  ds_identity :: ControllerIdentity
  ds_lock_fd :: nat
  ds_values :: Values
  ds_poisoned :: bool

definition CleanCommitState :: "world \<Rightarrow> bool \<times> world" where
  "CleanCommitState = run_all [sys_call (do_absent kTemporaryFile), sys_call (do_absent kIntentFile)]"

text \<open>A descriptor passes when \<open>fstat\<close> succeeds on a regular file of the owner with mode 0600.\<close>

definition do_exact :: "nat \<Rightarrow> disk \<Rightarrow> disk option" where
  "do_exact i d = (if in_exact (dk_inodes d ! i) then Some d else None)"

definition ExactRegularFile :: "nat \<Rightarrow> world \<Rightarrow> bool \<times> world" where
  "ExactRegularFile i = sys_call (do_exact i)"

definition do_size :: "nat \<Rightarrow> disk \<Rightarrow> disk option" where
  "do_size i d =
     (let size = length (in_content (dk_inodes d ! i))
      in if size = 0 \<or> size > kMaximumFileBytes then None else Some d)"

definition ReadState :: "world \<Rightarrow> string option \<times> world" where
  "ReadState w =
     (case sys_open kStateFile w of
        (None, w1) \<Rightarrow> (None, w1)
      | (Some i, w1) \<Rightarrow>
          (case run_all [ExactRegularFile i, sys_call (do_size i)] w1 of
             (False, w2) \<Rightarrow> (None, w2)
           | (True, w2) \<Rightarrow>
               (case read_loop (in_content (dk_inodes (wd_disk w2) ! i)) [] (wd_outcomes w2) of
                  (None, xs) \<Rightarrow> (None, w2\<lparr>wd_outcomes := xs\<rparr>)
                | (Some contents, xs) \<Rightarrow>
                    (case sys_call do_nothing (w2\<lparr>wd_outcomes := xs\<rparr>) of
                       (closed, w3) \<Rightarrow> (if closed then Some contents else None, w3)))))"

definition OpenLock :: "bool \<Rightarrow> world \<Rightarrow> nat option \<times> world" where
  "OpenLock create w =
     (case (if create then sys_create kLockFile w else sys_open kLockFile w) of
        (None, w1) \<Rightarrow> (None, w1)
      | (Some i, w1) \<Rightarrow>
          (case run_all [ExactRegularFile i, sys_call (do_flock i)] w1 of
             (False, w2) \<Rightarrow> (None, w2)
           | (True, w2) \<Rightarrow> (Some i, w2)))"

definition Poison :: "DurableStorage \<Rightarrow> DurableStorage" where
  "Poison s = s\<lparr>ds_poisoned := True\<rparr>"

text \<open>The part of \<open>Commit\<close> between the checks and the return; the lambda \<open>fail\<close> closes descriptors,
  which changes no file.\<close>

definition commit_files :: "string \<Rightarrow> world \<Rightarrow> bool \<times> world" where
  "commit_files contents w =
     (case sys_create kTemporaryFile w of
        (None, w1) \<Rightarrow> (False, w1)
      | (Some temporary_fd, w1) \<Rightarrow>
          (case run_all [sys_call (do_fchmod temporary_fd), WriteAll temporary_fd contents,
                         sys_call (do_fsync temporary_fd), sys_call do_nothing] w1 of
             (False, w2) \<Rightarrow> (False, w2)
           | (True, w2) \<Rightarrow>
               (case sys_create kIntentFile w2 of
                  (None, w3) \<Rightarrow> (False, w3)
                | (Some intent_fd, w3) \<Rightarrow>
                    run_all [sys_call (do_fchmod intent_fd), WriteAll intent_fd (''pending'' @ [CHR 0x0A]),
                             sys_call (do_fsync intent_fd), sys_call do_nothing,
                             sys_call do_fsync_dir,
                             sys_call (do_rename kTemporaryFile kStateFile),
                             sys_call do_fsync_dir,
                             sys_call (do_unlink kIntentFile),
                             sys_call do_fsync_dir] w3)))"

definition Commit ::
    "(json \<Rightarrow> string option) \<Rightarrow> Values \<Rightarrow> DurableStorage \<times> world \<Rightarrow>
     chip_error option \<times> DurableStorage \<times> world" where
  "Commit dump vals = (\<lambda>(s, w).
     let fail = (\<lambda>w'. (Some CHIP_ERROR_PERSISTED_STORAGE_FAILED, Poison s, w'))
     in if ds_poisoned s then fail w
        else case SerializeState dump (ds_identity s) vals of
          None \<Rightarrow> fail w
        | Some contents \<Rightarrow>
            (case CleanCommitState w of
               (False, w1) \<Rightarrow> fail w1
             | (True, w1) \<Rightarrow>
                 (case commit_files contents w1 of
                    (False, w2) \<Rightarrow> fail w2
                  | (True, w2) \<Rightarrow> (None, s, w2))))"

text \<open>The destructor: unlocking, or closing the descriptor, releases the lock.\<close>

definition release_lock :: "nat \<Rightarrow> world \<Rightarrow> world" where
  "release_lock i w = w\<lparr>wd_disk := update_inode i (\<lambda>n. n\<lparr>in_locked := False\<rparr>) (wd_disk w)\<rparr>"

definition Destroy :: "DurableStorage \<Rightarrow> world \<Rightarrow> world" where
  "Destroy s w = release_lock (ds_lock_fd s) w"

definition do_dir_absent :: "disk \<Rightarrow> disk option" where
  "do_dir_absent d = (if dk_present d then None else Some d)"

definition do_mkdir :: "bool \<Rightarrow> disk \<Rightarrow> disk option" where
  "do_mkdir exact d =
     (if dk_present d then None
      else Some (d\<lparr>dk_present := True, dk_private := exact, dk_entry_durable := False,
                   dk_live := Map.empty, dk_durable := Map.empty, dk_log := []\<rparr>))"

definition do_private :: "disk \<Rightarrow> disk option" where
  "do_private d = (if dk_present d \<and> dk_private d then Some d else None)"

definition Open ::
    "(json \<Rightarrow> string option) \<Rightarrow> (string \<Rightarrow> (nat \<times> parse_event) list) \<Rightarrow> (string \<Rightarrow> json option) \<Rightarrow> string \<Rightarrow>
     StorageMode \<Rightarrow> AuthorityMode \<Rightarrow> ControllerIdentity \<Rightarrow> world \<Rightarrow> (chip_error + DurableStorage) \<times> world" where
  "Open dump lib_events lib_doc path storage_mode authority_mode identity w =
     (if take 1 path \<noteq> ''/'' \<or> CHR 0x00 \<in> set path \<or> \<not> ValidIdentity identity \<or>
         (storage_mode = SM_CreateNew \<and> authority_mode \<noteq> AM_GenerateRoot) \<or>
         (storage_mode = SM_OpenExisting \<and> authority_mode \<noteq> AM_Stored)
      then (Inl CHIP_ERROR_INVALID_ARGUMENT, w)
      else
        let create = (storage_mode = SM_CreateNew)
        in case run_all ((if create then [sys_call do_dir_absent, sys_call (do_mkdir (wd_umask_clear w))] else [])
                         @ [sys_call do_private, sys_call do_nothing]) w of
             (False, w1) \<Rightarrow> (Inl CHIP_ERROR_OPEN_FAILED, w1)
           | (True, w1) \<Rightarrow>
               (case OpenLock create w1 of
                  (None, w2) \<Rightarrow> (Inl CHIP_ERROR_OPEN_FAILED, w2)
                | (Some lock_fd, w2) \<Rightarrow>
                    (case CleanCommitState w2 of
                       (False, w3) \<Rightarrow> (Inl CHIP_ERROR_PERSISTED_STORAGE_FAILED, release_lock lock_fd w3)
                     | (True, w3) \<Rightarrow>
                         if create then
                           (case Commit dump []
                                   (\<lparr>ds_path = path, ds_identity = identity, ds_lock_fd = lock_fd,
                                     ds_values = [], ds_poisoned = False\<rparr>, w3) of
                              (Some err, s, w4) \<Rightarrow> (Inl err, Destroy s w4)
                            | (None, s, w4) \<Rightarrow> (Inr s, w4))
                         else
                           (case ReadState w3 of
                              (None, w4) \<Rightarrow>
                                (Inl CHIP_ERROR_PERSISTED_STORAGE_FAILED, release_lock lock_fd w4)
                            | (Some contents, w4) \<Rightarrow>
                                (case ParseState lib_events lib_doc contents identity of
                                   None \<Rightarrow>
                                     (Inl CHIP_ERROR_PERSISTED_STORAGE_FAILED, release_lock lock_fd w4)
                                 | Some vals \<Rightarrow>
                                     (Inr \<lparr>ds_path = path, ds_identity = identity, ds_lock_fd = lock_fd,
                                           ds_values = vals, ds_poisoned = False\<rparr>, w4))))))"

text \<open>The answer, the bytes copied to the buffer and the size written back.\<close>

definition SyncGetKeyValue ::
    "string option \<Rightarrow> bool \<Rightarrow> u16 \<Rightarrow> DurableStorage \<Rightarrow> chip_error option \<times> u8 list \<times> u16" where
  "SyncGetKeyValue key buffer_null sz s =
     (if ds_poisoned s then (Some CHIP_ERROR_PERSISTED_STORAGE_FAILED, [], sz)
      else case ValidKey key of
        None \<Rightarrow> (Some CHIP_ERROR_INVALID_ARGUMENT, [], sz)
      | Some normalized \<Rightarrow>
          if buffer_null \<and> sz > 0 then (Some CHIP_ERROR_INVALID_ARGUMENT, [], sz)
          else case map_of (ds_values s) normalized of
            None \<Rightarrow> (Some CHIP_ERROR_PERSISTED_STORAGE_VALUE_NOT_FOUND, [], sz)
          | Some found \<Rightarrow>
              let copied = min (unat sz) (length found)
              in (if copied < length found then Some CHIP_ERROR_BUFFER_TOO_SMALL else None,
                  take copied found, of_nat copied))"

text \<open>A value is the memory at a pointer that may be null.\<close>

definition SyncSetKeyValue ::
    "(json \<Rightarrow> string option) \<Rightarrow> string option \<Rightarrow> u8 list option \<Rightarrow> u16 \<Rightarrow> DurableStorage \<times> world \<Rightarrow>
     chip_error option \<times> DurableStorage \<times> world" where
  "SyncSetKeyValue dump key mem sz = (\<lambda>(s, w).
     if ds_poisoned s then (Some CHIP_ERROR_PERSISTED_STORAGE_FAILED, s, w)
     else case ValidKey key of
       None \<Rightarrow> (Some CHIP_ERROR_INVALID_ARGUMENT, s, w)
     | Some normalized \<Rightarrow>
         if mem = None \<and> sz > 0 then (Some CHIP_ERROR_INVALID_ARGUMENT, s, w)
         else if map_of (ds_values s) normalized = None \<and> length (ds_values s) \<ge> kMaximumKeys
         then (Some CHIP_ERROR_PERSISTED_STORAGE_FAILED, s, w)
         else
           let bytes = (if sz = 0 then [] else take (unat sz) (the mem));
               vals = map_put normalized bytes (ds_values s)
           in case Commit dump vals (s, w) of
                (None, s1, w1) \<Rightarrow> (None, s1\<lparr>ds_values := vals\<rparr>, w1)
              | (Some err, s1, w1) \<Rightarrow> (Some err, s1, w1))"

definition SyncDeleteKeyValue ::
    "(json \<Rightarrow> string option) \<Rightarrow> string option \<Rightarrow> DurableStorage \<times> world \<Rightarrow>
     chip_error option \<times> DurableStorage \<times> world" where
  "SyncDeleteKeyValue dump key = (\<lambda>(s, w).
     if ds_poisoned s then (Some CHIP_ERROR_PERSISTED_STORAGE_FAILED, s, w)
     else case ValidKey key of
       None \<Rightarrow> (Some CHIP_ERROR_INVALID_ARGUMENT, s, w)
     | Some normalized \<Rightarrow>
         if map_of (ds_values s) normalized = None
         then (Some CHIP_ERROR_PERSISTED_STORAGE_VALUE_NOT_FOUND, s, w)
         else
           let vals = map_erase normalized (ds_values s)
           in case Commit dump vals (s, w) of
                (None, s1, w1) \<Rightarrow> (None, s1\<lparr>ds_values := vals\<rparr>, w1)
              | (Some err, s1, w1) \<Rightarrow> (Some err, s1, w1))"

section \<open>Loss of the process and loss of power\<close>

text \<open>The directories that may be on disk: any part of the operations since the last \<open>fsync\<close>.\<close>

definition crash_dirs :: "disk \<Rightarrow> (string \<rightharpoonup> nat) set" where
  "crash_dirs d = {fold apply_op ops (dk_durable d) | ops. ops \<in> set (subseqs (dk_log d))}"

definition process_death :: "disk \<Rightarrow> disk" where
  "process_death d = d\<lparr>dk_inodes := map (\<lambda>n. n\<lparr>in_locked := False\<rparr>) (dk_inodes d)\<rparr>"

text \<open>After a loss of power a file that was not synced may hold anything.\<close>

definition inode_survives :: "inode \<Rightarrow> inode \<Rightarrow> bool" where
  "inode_survives n n' \<longleftrightarrow> \<not> in_locked n' \<and>
     (in_synced n \<longrightarrow> in_synced n' \<and> in_content n' = in_content n \<and> in_exact n' = in_exact n)"

definition power_loss :: "disk \<Rightarrow> disk \<Rightarrow> bool" where
  "power_loss d d' \<longleftrightarrow>
     dk_live d' \<in> crash_dirs d \<and> dk_durable d' = dk_live d' \<and> dk_log d' = [] \<and>
     list_all2 inode_survives (dk_inodes d) (dk_inodes d') \<and>
     (dk_present d' \<longrightarrow> dk_present d) \<and> (dk_entry_durable d \<longrightarrow> dk_present d' = dk_present d)"

definition reboot :: "disk \<Rightarrow> disk \<Rightarrow> bool" where
  "reboot d d' \<longleftrightarrow> d' = process_death d \<or> power_loss d d'"

definition clean :: "disk \<Rightarrow> bool" where
  "clean d \<longleftrightarrow> dk_live d kTemporaryFile = None \<and> dk_live d kIntentFile = None"

section \<open>Settled directories\<close>

definition file_is :: "disk \<Rightarrow> nat \<Rightarrow> string \<Rightarrow> bool" where
  "file_is d i c \<longleftrightarrow> i < length (dk_inodes d) \<and> in_content (dk_inodes d ! i) = c \<and>
     in_synced (dk_inodes d ! i) \<and> in_exact (dk_inodes d ! i)"

definition file_ok :: "disk \<Rightarrow> nat option \<Rightarrow> string option \<Rightarrow> bool" where
  "file_ok d e oc \<longleftrightarrow>
     (case oc of None \<Rightarrow> e = None | Some c \<Rightarrow> \<exists>i. e = Some i \<and> file_is d i c)"

definition quiet :: "nat option \<Rightarrow> disk \<Rightarrow> bool" where
  "quiet e d \<longleftrightarrow> dk_live d kStateFile = e \<and> (\<forall>dir \<in> crash_dirs d. dir kStateFile = e)"

text \<open>The state file is \<open>oc\<close> whatever part of the pending directory operations reaches the disk.\<close>

definition settled :: "string option \<Rightarrow> disk \<Rightarrow> bool" where
  "settled oc d \<longleftrightarrow> clean d \<and> (\<exists>e. quiet e d \<and> file_ok d e oc)"

text \<open>Every restart finds an unfinished commit or a settled directory with one of the given states.\<close>

definition recoverable :: "string option set \<Rightarrow> disk \<Rightarrow> bool" where
  "recoverable S d \<longleftrightarrow> (\<forall>d'. reboot d d' \<longrightarrow> clean d' \<longrightarrow> (\<exists>oc \<in> S. settled oc d'))"

lemma crash_dirs_sync: "dk_log d = [] \<Longrightarrow> crash_dirs d = {dk_durable d}"
  by (auto simp: crash_dirs_def)

lemma set_subseqs_snoc: "set (subseqs (xs @ [x])) = set (subseqs xs) \<union> (\<lambda>ys. ys @ [x]) ` set (subseqs xs)"
  by (induction xs) (auto simp: Let_def image_image)

lemma crash_dirs_snoc:
  assumes "dk_log d' = dk_log d @ [op]" "dk_durable d' = dk_durable d"
  shows "crash_dirs d' = crash_dirs d \<union> apply_op op ` crash_dirs d"
  using assms by (auto simp: crash_dirs_def set_subseqs_snoc image_iff) (metis fold_append fold_simps comp_apply)+

lemma crash_dirs_cong: "dk_log d' = dk_log d \<Longrightarrow> dk_durable d' = dk_durable d \<Longrightarrow> crash_dirs d' = crash_dirs d"
  by (simp add: crash_dirs_def)

lemma process_death_simps [simp]:
  "dk_live (process_death d) = dk_live d" "dk_durable (process_death d) = dk_durable d"
  "dk_log (process_death d) = dk_log d" "crash_dirs (process_death d) = crash_dirs d"
  "dk_present (process_death d) = dk_present d"
  by (simp_all add: process_death_def crash_dirs_def)

lemma file_is_reboot: "reboot d d' \<Longrightarrow> file_is d i c \<Longrightarrow> file_is d' i c"
  by (auto simp: reboot_def power_loss_def process_death_def file_is_def list_all2_conv_all_nth inode_survives_def)

lemma file_ok_reboot: "reboot d d' \<Longrightarrow> file_ok d e oc \<Longrightarrow> file_ok d' e oc"
  by (auto simp: file_ok_def split: option.splits intro: file_is_reboot)

lemma quiet_reboot: "reboot d d' \<Longrightarrow> quiet e d \<Longrightarrow> quiet e d'"
  by (auto simp: reboot_def quiet_def power_loss_def crash_dirs_sync)

lemma recoverable_quiet: "quiet e d \<Longrightarrow> file_ok d e oc \<Longrightarrow> oc \<in> S \<Longrightarrow> recoverable S d"
  unfolding recoverable_def settled_def using quiet_reboot file_ok_reboot by blast

lemma recoverable_intent:
  assumes "\<forall>dir \<in> insert (dk_live d) (crash_dirs d). dir kIntentFile \<noteq> None"
  shows "recoverable S d"
  using assms by (auto simp: recoverable_def reboot_def clean_def power_loss_def)

lemma settled_recoverable: "settled oc d \<Longrightarrow> recoverable {oc} d"
  by (auto simp: settled_def intro: recoverable_quiet)

end
