(* ===== verification/StoreRecovery.thy ===== *)
theory StoreRecovery
  imports Storage
begin

text \<open>
  Atomicity and durability of the store of theory \<open>Storage\<close>: a small Hoare logic for its system calls,
  the phases of \<open>Commit\<close>, and what \<open>Open\<close> finds after the process or the machine has been lost at any
  point of any sequence of calls.
\<close>

section \<open>Triples over system calls\<close>

text \<open>From a disk in \<open>P\<close> the call ends in \<open>Q\<close> when it answers true and in \<open>E\<close> when it answers false.\<close>

definition runs ::
    "(disk \<Rightarrow> bool) \<Rightarrow> (world \<Rightarrow> bool \<times> world) \<Rightarrow> (disk \<Rightarrow> bool) \<Rightarrow> (disk \<Rightarrow> bool) \<Rightarrow> bool" where
  "runs P c Q E \<longleftrightarrow>
     (\<forall>w. P (wd_disk w) \<longrightarrow> (case c w of (ok, w1) \<Rightarrow> if ok then Q (wd_disk w1) else E (wd_disk w1)))"

lemma runs_sys_call:
  assumes "\<And>d d'. P d \<Longrightarrow> effect d = Some d' \<Longrightarrow> Q d'" "\<And>d. P d \<Longrightarrow> E d"
  shows "runs P (sys_call effect) Q E"
  using assms by (auto simp: runs_def sys_call_def split: list.splits option.splits)

lemma runs_Nil: "(\<And>d. P d \<Longrightarrow> Q d) \<Longrightarrow> runs P (run_all []) Q E"
  by (simp add: runs_def)

lemma runs_Cons:
  assumes "runs P c Q E" "runs Q (run_all cs) R E"
  shows "runs P (run_all (c # cs)) R E"
  using assms by (fastforce simp: runs_def split: prod.splits bool.splits)

lemma runs_nothing: "(\<And>d. P d \<Longrightarrow> E d) \<Longrightarrow> runs P (sys_call do_nothing) P E"
  by (rule runs_sys_call) (auto simp: do_nothing_def)

lemma runsD: "runs P c Q E \<Longrightarrow> P (wd_disk w) \<Longrightarrow> c w = (ok, w1) \<Longrightarrow> if ok then Q (wd_disk w1) else E (wd_disk w1)"
  by (auto simp: runs_def split: prod.splits)

section \<open>One file\<close>

lemma update_inode_simps [simp]:
  "dk_live (update_inode i f d) = dk_live d" "dk_durable (update_inode i f d) = dk_durable d"
  "dk_log (update_inode i f d) = dk_log d" "crash_dirs (update_inode i f d) = crash_dirs d"
  "length (dk_inodes (update_inode i f d)) = length (dk_inodes d)"
  "dk_present (update_inode i f d) = dk_present d"
  by (simp_all add: update_inode_def crash_dirs_def)

lemma nth_update_inode:
  "i < length (dk_inodes d) \<Longrightarrow>
   dk_inodes (update_inode i f d) ! k = (if k = i then f (dk_inodes d ! i) else dk_inodes d ! k)"
  by (simp add: update_inode_def nth_list_update)

lemma file_is_update: "i < length (dk_inodes d) \<Longrightarrow> k \<noteq> i \<Longrightarrow> file_is (update_inode i f d) k c = file_is d k c"
  by (simp add: file_is_def nth_update_inode)

lemma file_ok_update:
  "i < length (dk_inodes d) \<Longrightarrow> e \<noteq> Some i \<Longrightarrow> file_ok (update_inode i f d) e oc = file_ok d e oc"
  by (auto simp: file_ok_def file_is_update split: option.splits)

lemma quiet_update [simp]: "quiet e (update_inode i f d) = quiet e d"
  by (simp add: quiet_def)

text \<open>What the write loop leaves: the same disk but for the content of the file, which is complete when
  the loop answers true.\<close>

lemma write_loop_result:
  assumes "write_loop i bytes xs d = (ok, xs', d')" "i < length (dk_inodes d)"
  shows "\<exists>f. d' = update_inode i f d \<and> in_exact (f (dk_inodes d ! i)) = in_exact (dk_inodes d ! i) \<and>
    in_locked (f (dk_inodes d ! i)) = in_locked (dk_inodes d ! i) \<and>
    (ok \<longrightarrow> in_content (f (dk_inodes d ! i)) = in_content (dk_inodes d ! i) @ bytes)"
  using assms
proof (induction i bytes xs d rule: write_loop.induct)
  case (1 i xs d)
  then show ?case by (auto simp: update_inode_def intro!: exI [of _ id])
next
  case (2 i b bytes d)
  then show ?case by (auto simp: update_inode_def intro!: exI [of _ id])
next
  case (3 i b bytes x xs d)
  have id: "\<exists>f. d = update_inode i f d \<and> in_exact (f (dk_inodes d ! i)) = in_exact (dk_inodes d ! i) \<and>
      in_locked (f (dk_inodes d ! i)) = in_locked (dk_inodes d ! i)"
    by (auto simp: update_inode_def intro!: exI [of _ id])
  show ?case
  proof (cases "\<exists>n. x = Sys_Count n \<and> n \<noteq> 0")
    case True
    then obtain n where n: "x = Sys_Count n" "n \<noteq> 0" by blast
    let ?g = "\<lambda>f. f\<lparr>in_content := in_content f @ take n (b # bytes), in_synced := False\<rparr>"
    let ?d = "update_inode i ?g d"
    obtain f where f: "d' = update_inode i f ?d" "in_exact (f (dk_inodes ?d ! i)) = in_exact (dk_inodes ?d ! i)"
        "in_locked (f (dk_inodes ?d ! i)) = in_locked (dk_inodes ?d ! i)"
        "ok \<longrightarrow> in_content (f (dk_inodes ?d ! i)) = in_content (dk_inodes ?d ! i) @ drop n (b # bytes)"
      using "3.IH"(2) [OF n] "3.prems" n by fastforce
    have "d' = update_inode i (f \<circ> ?g) d"
      using f(1) "3.prems"(2) by (simp add: update_inode_def)
    moreover have "ok \<longrightarrow> in_content ((f \<circ> ?g) (dk_inodes d ! i)) = in_content (dk_inodes d ! i) @ b # bytes"
      using f(4) "3.prems"(2) by (simp add: nth_update_inode)
    moreover have "in_locked ((f \<circ> ?g) (dk_inodes d ! i)) = in_locked (dk_inodes d ! i)"
      using f(3) "3.prems"(2) by (simp add: nth_update_inode)
    moreover have "in_exact ((f \<circ> ?g) (dk_inodes d ! i)) = in_exact (dk_inodes d ! i)"
      using f(2) "3.prems"(2) by (simp add: nth_update_inode)
    ultimately show ?thesis by blast
  next
    case False
    show ?thesis
    proof (cases "x = Sys_Intr")
      case True
      then show ?thesis using "3.IH"(1) "3.prems" by auto
    next
      case other: False
      then have "\<not> ok \<and> d' = d" using "3.prems"(1) False by (auto split: outcome.splits if_splits)
      then show ?thesis using id by auto
    qed
  qed
qed

section \<open>The phases of a commit\<close>

lemma names [simp]:
  "kTemporaryFile \<noteq> kStateFile" "kIntentFile \<noteq> kStateFile" "kTemporaryFile \<noteq> kIntentFile"
  "kStateFile \<noteq> kTemporaryFile" "kStateFile \<noteq> kIntentFile" "kIntentFile \<noteq> kTemporaryFile"
  by (simp_all add: kStateFile_def kTemporaryFile_def kIntentFile_def)

text \<open>Until the rename: the state file is the old one in every directory that may be found.\<close>

definition unchanged :: "nat option \<Rightarrow> string option \<Rightarrow> disk \<Rightarrow> bool" where
  "unchanged e oc d \<longleftrightarrow> quiet e d \<and> file_ok d e oc"

definition temporary :: "nat option \<Rightarrow> string option \<Rightarrow> nat \<Rightarrow> disk \<Rightarrow> bool" where
  "temporary e oc t d \<longleftrightarrow> unchanged e oc d \<and> dk_live d kTemporaryFile = Some t \<and>
     t < length (dk_inodes d) \<and> e \<noteq> Some t"

definition temporary_with :: "nat option \<Rightarrow> string option \<Rightarrow> nat \<Rightarrow> string \<Rightarrow> disk \<Rightarrow> bool" where
  "temporary_with e oc t c d \<longleftrightarrow> temporary e oc t d \<and> in_content (dk_inodes d ! t) = c"

definition temporary_synced :: "nat option \<Rightarrow> string option \<Rightarrow> nat \<Rightarrow> string \<Rightarrow> disk \<Rightarrow> bool" where
  "temporary_synced e oc t c d \<longleftrightarrow> temporary e oc t d \<and> file_is d t c"

definition intent :: "nat option \<Rightarrow> string option \<Rightarrow> nat \<Rightarrow> string \<Rightarrow> nat \<Rightarrow> disk \<Rightarrow> bool" where
  "intent e oc t c j d \<longleftrightarrow> temporary_synced e oc t c d \<and> dk_live d kIntentFile = Some j \<and>
     j < length (dk_inodes d) \<and> j \<noteq> t \<and> e \<noteq> Some j"

text \<open>From the first sync of the directory to the removal of the intent file: the intent file is in
  every directory that may be found.\<close>

definition intended :: "disk \<Rightarrow> bool" where
  "intended d \<longleftrightarrow> (\<forall>dir \<in> insert (dk_live d) (crash_dirs d). dir kIntentFile \<noteq> None)"

definition intent_synced :: "nat \<Rightarrow> string \<Rightarrow> disk \<Rightarrow> bool" where
  "intent_synced t c d \<longleftrightarrow> intended d \<and> dk_live d kTemporaryFile = Some t \<and> file_is d t c"

definition renamed :: "nat \<Rightarrow> string \<Rightarrow> disk \<Rightarrow> bool" where
  "renamed t c d \<longleftrightarrow> intended d \<and> dk_live d kTemporaryFile = None \<and> dk_live d kStateFile = Some t \<and>
     file_is d t c"

definition renamed_synced :: "nat \<Rightarrow> string \<Rightarrow> disk \<Rightarrow> bool" where
  "renamed_synced t c d \<longleftrightarrow> renamed t c d \<and> crash_dirs d = {dk_live d}"

lemmas phase_defs = unchanged_def temporary_def temporary_with_def temporary_synced_def intent_def
  intended_def intent_synced_def renamed_def renamed_synced_def

lemma unchanged_recoverable: "unchanged e oc d \<Longrightarrow> oc \<in> S \<Longrightarrow> recoverable S d"
  by (auto simp: unchanged_def intro: recoverable_quiet)

lemma settled_in: "settled oc d \<Longrightarrow> oc \<in> S \<Longrightarrow> recoverable S d"
  by (auto simp: settled_def intro: recoverable_quiet)

lemma intended_recoverable: "intended d \<Longrightarrow> recoverable S d"
  by (rule recoverable_intent) (simp add: intended_def)

lemma phase_recoverable:
  "temporary e oc t d \<Longrightarrow> recoverable {oc, Some c} d"
  "temporary_with e oc t c' d \<Longrightarrow> recoverable {oc, Some c} d"
  "temporary_synced e oc t c' d \<Longrightarrow> recoverable {oc, Some c} d"
  "intent e oc t c' j d \<Longrightarrow> recoverable {oc, Some c} d"
  "intent_synced t c' d \<Longrightarrow> recoverable {oc, Some c} d"
  "renamed t c' d \<Longrightarrow> recoverable {oc, Some c} d"
  "renamed_synced t c' d \<Longrightarrow> recoverable {oc, Some c} d"
  by (auto simp: phase_defs intro: recoverable_quiet recoverable_intent)

text \<open>Creating a file other than the state file.\<close>

lemma do_create_unchanged:
  assumes "unchanged e oc d" "do_create x name d = Some d'" "name \<noteq> kStateFile"
  shows "unchanged e oc d'" "dk_live d' name = Some (length (dk_inodes d))"
    "length (dk_inodes d') = Suc (length (dk_inodes d))" "e \<noteq> Some (length (dk_inodes d))"
    "n \<noteq> name \<Longrightarrow> dk_live d' n = dk_live d n"
    "k < length (dk_inodes d) \<Longrightarrow> dk_inodes d' ! k = dk_inodes d ! k"
    "in_content (dk_inodes d' ! length (dk_inodes d)) = []"
proof -
  let ?d = "do_dir_op (D_Link name (length (dk_inodes d))) d"
  have d': "d' = ?d\<lparr>dk_inodes := dk_inodes d @
      [\<lparr>in_content = [], in_synced = False, in_exact = x, in_locked = False\<rparr>]\<rparr>"
    using assms(2) by (auto simp: do_create_def split: if_splits)
  show "e \<noteq> Some (length (dk_inodes d))"
    using assms(1) by (auto simp: unchanged_def file_ok_def file_is_def split: option.splits)
  show "dk_live d' name = Some (length (dk_inodes d))" "length (dk_inodes d') = Suc (length (dk_inodes d))"
    "n \<noteq> name \<Longrightarrow> dk_live d' n = dk_live d n"
    "k < length (dk_inodes d) \<Longrightarrow> dk_inodes d' ! k = dk_inodes d ! k"
    "in_content (dk_inodes d' ! length (dk_inodes d)) = []"
    by (simp_all add: d' do_dir_op_def nth_append)
  have "crash_dirs d' = crash_dirs d \<union> apply_op (D_Link name (length (dk_inodes d))) ` crash_dirs d"
    by (rule crash_dirs_snoc) (simp_all add: d' do_dir_op_def)
  then have "quiet e d'" using assms(1,3) by (auto simp: quiet_def unchanged_def d' do_dir_op_def)
  moreover have "file_ok d' e oc"
    using assms(1) by (auto simp: unchanged_def file_ok_def file_is_def d' nth_append split: option.splits)
  ultimately show "unchanged e oc d'" by (simp add: unchanged_def)
qed

lemma temporary_update: "temporary e oc t d \<Longrightarrow> temporary e oc t (update_inode t f d)"
  by (simp add: temporary_def unchanged_def file_ok_update)

lemma temporary_bound: "temporary e oc t d \<Longrightarrow> t < length (dk_inodes d)"
  by (simp add: temporary_def)

lemma runs_WriteAll:
  assumes "\<And>d. P d \<Longrightarrow> i < length (dk_inodes d)"
    "\<And>d f. P d \<Longrightarrow> in_content (f (dk_inodes d ! i)) = in_content (dk_inodes d ! i) @ bytes \<Longrightarrow>
        in_exact (f (dk_inodes d ! i)) = in_exact (dk_inodes d ! i) \<Longrightarrow>
        in_locked (f (dk_inodes d ! i)) = in_locked (dk_inodes d ! i) \<Longrightarrow> Q (update_inode i f d)"
    "\<And>d f. P d \<Longrightarrow> in_locked (f (dk_inodes d ! i)) = in_locked (dk_inodes d ! i) \<Longrightarrow>
        E (update_inode i f d)"
  shows "runs P (WriteAll i bytes) Q E"
  unfolding runs_def
proof (intro allI impI)
  fix w :: world
  assume P: "P (wd_disk w)"
  obtain ok xs d' where l: "write_loop i bytes (wd_outcomes w) (wd_disk w) = (ok, xs, d')"
    by (cases "write_loop i bytes (wd_outcomes w) (wd_disk w)") auto
  from write_loop_result [OF l assms(1) [OF P]] show
    "case WriteAll i bytes w of (ok, w1) \<Rightarrow> if ok then Q (wd_disk w1) else E (wd_disk w1)"
    using assms(2,3) [OF P] by (auto simp: WriteAll_def l)
qed

text \<open>Writing and syncing the temporary file.\<close>

lemma runs_temporary:
  "runs (temporary_with e oc t [])
     (run_all [sys_call (do_fchmod t), WriteAll t c, sys_call (do_fsync t), sys_call do_nothing])
     (temporary_synced e oc t c) (recoverable {oc, Some c})"
proof -
  let ?E = "recoverable {oc, Some c}"
  let ?x = "\<lambda>u d. temporary_with e oc t u d \<and> in_exact (dk_inodes d ! t)"
  have s1: "runs (temporary_with e oc t []) (sys_call (do_fchmod t)) (?x []) ?E"
    by (rule runs_sys_call) (auto simp: do_fchmod_def temporary_with_def temporary_update nth_update_inode
        temporary_bound intro: phase_recoverable)
  have s2: "runs (?x []) (WriteAll t c) (?x c) ?E"
    by (rule runs_WriteAll) (auto simp: temporary_with_def temporary_update nth_update_inode temporary_bound
        intro: phase_recoverable(1) [OF temporary_update])
  have s3: "runs (?x c) (sys_call (do_fsync t)) (temporary_synced e oc t c) ?E"
    by (rule runs_sys_call) (auto simp: do_fsync_def temporary_with_def temporary_synced_def temporary_update
        nth_update_inode temporary_bound file_is_def intro: phase_recoverable)
  have s4: "runs (temporary_synced e oc t c) (sys_call do_nothing) (temporary_synced e oc t c) ?E"
    by (rule runs_nothing) (rule phase_recoverable)
  show ?thesis
    by (rule runs_Cons [OF s1 runs_Cons [OF s2 runs_Cons [OF s3 runs_Cons [OF s4 runs_Nil]]]])
qed

text \<open>Writing and syncing the intent file, and the three syncs of the directory.\<close>

lemma intent_update: "intent e oc t c j d \<Longrightarrow> intent e oc t c j (update_inode j f d)"
  by (auto simp: phase_defs file_ok_update file_is_update)

lemma intent_bound: "intent e oc t c j d \<Longrightarrow> j < length (dk_inodes d)"
  by (simp add: intent_def)

lemma intent_synced_dir:
  assumes "intent e oc t c j d" "do_fsync_dir d = Some d'"
  shows "intent_synced t c d'"
  using assms by (auto simp: do_fsync_dir_def phase_defs crash_dirs_sync file_is_def)

lemma rename_step:
  assumes "intent_synced t c d" "do_rename kTemporaryFile kStateFile d = Some d'"
  shows "renamed t c d'"
proof -
  have d': "d' = do_dir_op (D_Rename kTemporaryFile kStateFile) d"
    using assms(2) by (auto simp: do_rename_def split: if_splits)
  have "crash_dirs d' = crash_dirs d \<union> apply_op (D_Rename kTemporaryFile kStateFile) ` crash_dirs d"
    by (rule crash_dirs_snoc) (simp_all add: d' do_dir_op_def)
  then show ?thesis
    using assms(1) by (auto simp: phase_defs d' do_dir_op_def file_is_def split: option.splits)
qed

lemma rename_synced_dir:
  "renamed t c d \<Longrightarrow> do_fsync_dir d = Some d' \<Longrightarrow> renamed_synced t c d'"
  by (auto simp: do_fsync_dir_def phase_defs crash_dirs_sync file_is_def)

lemma unlink_step:
  assumes "renamed_synced t c d" "do_unlink kIntentFile d = Some d'"
  shows "settled (Some c) d'"
proof -
  have d': "d' = do_dir_op (D_Unlink kIntentFile) d"
    using assms(2) by (auto simp: do_unlink_def split: if_splits)
  have "crash_dirs d' = crash_dirs d \<union> apply_op (D_Unlink kIntentFile) ` crash_dirs d"
    by (rule crash_dirs_snoc) (simp_all add: d' do_dir_op_def)
  then show ?thesis
    using assms(1)
    by (auto simp: phase_defs d' do_dir_op_def file_is_def settled_def clean_def quiet_def file_ok_def)
qed

lemma settled_sync: "settled oc d \<Longrightarrow> do_fsync_dir d = Some d' \<Longrightarrow> settled oc d'"
  by (auto simp: do_fsync_dir_def settled_def clean_def quiet_def crash_dirs_sync file_ok_def file_is_def
      split: option.splits)

lemma runs_intent:
  "runs (intent e oc t c j)
     (run_all [sys_call (do_fchmod j), WriteAll j u, sys_call (do_fsync j), sys_call do_nothing,
               sys_call do_fsync_dir, sys_call (do_rename kTemporaryFile kStateFile), sys_call do_fsync_dir,
               sys_call (do_unlink kIntentFile), sys_call do_fsync_dir])
     (settled (Some c)) (recoverable {oc, Some c})"
proof -
  let ?E = "recoverable {oc, Some c}" and ?I = "intent e oc t c j"
  have rec: "\<And>d. ?I d \<Longrightarrow> ?E d" by (rule phase_recoverable)
  have s1: "runs ?I (sys_call (do_fchmod j)) ?I ?E" and s3: "runs ?I (sys_call (do_fsync j)) ?I ?E"
    by (rule runs_sys_call, auto simp: do_fchmod_def do_fsync_def intent_update intro: rec)+
  have s2: "runs ?I (WriteAll j u) ?I ?E"
    by (rule runs_WriteAll) (auto simp: intent_update intent_bound intro!: rec)
  have s4: "runs ?I (sys_call do_nothing) ?I ?E" by (rule runs_nothing) (rule rec)
  have s5: "runs ?I (sys_call do_fsync_dir) (intent_synced t c) ?E"
    by (rule runs_sys_call) (auto intro: intent_synced_dir rec)
  have s6: "runs (intent_synced t c) (sys_call (do_rename kTemporaryFile kStateFile)) (renamed t c) ?E"
    by (rule runs_sys_call) (auto intro: rename_step phase_recoverable)
  have s7: "runs (renamed t c) (sys_call do_fsync_dir) (renamed_synced t c) ?E"
    by (rule runs_sys_call) (auto intro: rename_synced_dir phase_recoverable)
  have s8: "runs (renamed_synced t c) (sys_call (do_unlink kIntentFile)) (settled (Some c)) ?E"
    by (rule runs_sys_call) (auto intro: unlink_step phase_recoverable)
  have s9: "runs (settled (Some c)) (sys_call do_fsync_dir) (settled (Some c)) ?E"
    by (rule runs_sys_call) (auto intro: settled_sync settled_in)
  show ?thesis
    by (rule runs_Cons [OF s1 runs_Cons [OF s2 runs_Cons [OF s3 runs_Cons [OF s4 runs_Cons [OF s5
          runs_Cons [OF s6 runs_Cons [OF s7 runs_Cons [OF s8 runs_Cons [OF s9 runs_Nil]]]]]]]]])
qed

section \<open>Commit\<close>

lemma sys_create_cases:
  assumes "sys_create name w = (r, w1)"
  shows "r = None \<and> wd_disk w1 = wd_disk w \<or>
    (\<exists>x. r = Some (length (dk_inodes (wd_disk w))) \<and> do_create x name (wd_disk w) = Some (wd_disk w1))"
  using assms by (auto simp: sys_create_def sys_call_def split: list.splits option.splits if_splits)

lemma commit_files_settled:
  assumes "settled oc (wd_disk w)" "commit_files c w = (ok, w')"
  shows "if ok then settled (Some c) (wd_disk w') else recoverable {oc, Some c} (wd_disk w')"
proof -
  obtain e where e: "unchanged e oc (wd_disk w)" using assms(1) by (auto simp: settled_def unchanged_def)
  obtain r w1 where c1: "sys_create kTemporaryFile w = (r, w1)" by fastforce
  show ?thesis
  proof (cases r)
    case None
    then have "wd_disk w1 = wd_disk w" using sys_create_cases [OF c1] by simp
    then show ?thesis
      using None assms(2) c1 unchanged_recoverable [OF e] by (auto simp: commit_files_def)
  next
    case (Some t)
    then obtain x where x: "do_create x kTemporaryFile (wd_disk w) = Some (wd_disk w1)"
        "t = length (dk_inodes (wd_disk w))" using sys_create_cases [OF c1] by auto
    have t: "temporary_with e oc t [] (wd_disk w1)"
      using do_create_unchanged [OF e x(1)] by (simp add: temporary_with_def temporary_def x(2))
    obtain ok2 w2 where c2: "run_all [sys_call (do_fchmod t), WriteAll t c, sys_call (do_fsync t),
        sys_call do_nothing] w1 = (ok2, w2)" by fastforce
    have r2: "if ok2 then temporary_synced e oc t c (wd_disk w2) else recoverable {oc, Some c} (wd_disk w2)"
      using runsD [OF runs_temporary t c2] .
    show ?thesis
    proof (cases ok2)
      case False
      then show ?thesis using assms(2) c1 c2 Some r2 by (simp add: commit_files_def)
    next
      case ok2: True
      obtain r3 w3 where c3: "sys_create kIntentFile w2 = (r3, w3)" by fastforce
      have sy: "temporary_synced e oc t c (wd_disk w2)" using r2 ok2 by simp
      show ?thesis
      proof (cases r3)
        case None
        then have "wd_disk w3 = wd_disk w2" using sys_create_cases [OF c3] by simp
        then show ?thesis
          using None assms(2) c1 c2 c3 Some ok2 phase_recoverable(3) [OF sy] by (simp add: commit_files_def)
      next
        case j: (Some j)
        then obtain y where y: "do_create y kIntentFile (wd_disk w2) = Some (wd_disk w3)"
            "j = length (dk_inodes (wd_disk w2))" using sys_create_cases [OF c3] by auto
        have u: "unchanged e oc (wd_disk w2)" and tb: "t < length (dk_inodes (wd_disk w2))"
          using sy by (auto simp: temporary_synced_def temporary_def)
        have "intent e oc t c j (wd_disk w3)"
          using do_create_unchanged [OF u y(1)] sy tb
          by (auto simp: intent_def temporary_synced_def temporary_def file_is_def y(2))
        then show ?thesis
          using runsD [OF runs_intent] assms(2) c1 c2 c3 Some ok2 j by (simp add: commit_files_def)
      qed
    qed
  qed
qed

text \<open>The texts that stand for a map: the one \<open>SerializeState\<close> writes, or one that was read as the map;
  \<open>reads\<close> is \<open>ParseState\<close> for the store's identity.\<close>

definition written ::
    "(json \<Rightarrow> string option) \<Rightarrow> (string \<Rightarrow> Values option) \<Rightarrow> ControllerIdentity \<Rightarrow> Values \<Rightarrow> string \<Rightarrow> bool" where
  "written dump reads identity vals c \<longleftrightarrow> SerializeState dump identity vals = Some c \<or> reads c = Some vals"

definition stored ::
    "(json \<Rightarrow> string option) \<Rightarrow> (string \<Rightarrow> Values option) \<Rightarrow> ControllerIdentity \<Rightarrow> Values set \<Rightarrow>
     string option set" where
  "stored dump reads identity V = {Some c | c. \<exists>v \<in> V. written dump reads identity v c}"

lemma recoverable_mono: "recoverable S d \<Longrightarrow> S \<subseteq> T \<Longrightarrow> recoverable T d"
  by (meson recoverable_def subsetD)

lemma CleanCommitState_disk: "CleanCommitState w = (ok, w') \<Longrightarrow> wd_disk w' = wd_disk w \<and> (ok \<longrightarrow> clean (wd_disk w))"
  by (auto simp: CleanCommitState_def sys_call_def do_absent_def clean_def
      split: list.splits option.splits if_splits bool.splits prod.splits)

lemma Commit_cases:
  assumes "Commit dump vals (s, w) = (r, s', w')" "\<not> ds_poisoned s" "settled oc (wd_disk w)"
  shows "r = None \<and> s' = s \<and>
      (\<exists>c. SerializeState dump (ds_identity s) vals = Some c \<and> settled (Some c) (wd_disk w')) \<or>
    r = Some CHIP_ERROR_PERSISTED_STORAGE_FAILED \<and> s' = Poison s \<and>
      recoverable ({oc} \<union> stored dump reads (ds_identity s) {vals}) (wd_disk w')"
proof (cases "SerializeState dump (ds_identity s) vals")
  case None
  then show ?thesis
    using assms settled_in [OF assms(3), of "{oc} \<union> stored dump reads (ds_identity s) {vals}"]
    by (simp add: Commit_def Let_def)
next
  case (Some c)
  have S: "Some c \<in> stored dump reads (ds_identity s) {vals}" by (auto simp: stored_def written_def Some)
  obtain ok w1 where c1: "CleanCommitState w = (ok, w1)" by fastforce
  obtain ok2 w2 where c2: "commit_files c w1 = (ok2, w2)" by fastforce
  have s1: "settled oc (wd_disk w1)" using CleanCommitState_disk [OF c1] assms(3) by simp
  show ?thesis
    using assms(1,2) Some c1 c2 commit_files_settled [OF s1 c2]
      settled_in [OF s1, of "{oc} \<union> stored dump reads (ds_identity s) {vals}"]
      recoverable_mono [of "{oc, Some c}" _ "{oc} \<union> stored dump reads (ds_identity s) {vals}"] S
    by (auto simp: Commit_def Let_def split: bool.splits if_splits)
qed

section \<open>Sequences of calls on a store\<close>

datatype store_op =
  S_Get "string option" bool u16
| S_Set "string option" "u8 list option" u16
| S_Delete "string option"

fun storage_step ::
    "(json \<Rightarrow> string option) \<Rightarrow> store_op \<Rightarrow> DurableStorage \<times> world \<Rightarrow>
     (chip_error option \<times> u8 list) \<times> DurableStorage \<times> world" where
  "storage_step dump (S_Get key buffer_null sz) (s, w) =
     (case SyncGetKeyValue key buffer_null sz s of (r, bytes, _) \<Rightarrow> ((r, bytes), s, w))"
| "storage_step dump (S_Set key mem sz) st =
     (case SyncSetKeyValue dump key mem sz st of (r, s1, w1) \<Rightarrow> ((r, []), s1, w1))"
| "storage_step dump (S_Delete key) st =
     (case SyncDeleteKeyValue dump key st of (r, s1, w1) \<Rightarrow> ((r, []), s1, w1))"

text \<open>The map that a call means to store.\<close>

fun attempt :: "store_op \<Rightarrow> Values \<Rightarrow> Values" where
  "attempt (S_Get _ _ _) vals = vals"
| "attempt (S_Set key mem sz) vals =
     (case ValidKey key of
        None \<Rightarrow> vals
      | Some k \<Rightarrow> map_put k (if sz = 0 then [] else take (unat sz) (the mem)) vals)"
| "attempt (S_Delete key) vals = (case ValidKey key of None \<Rightarrow> vals | Some k \<Rightarrow> map_erase k vals)"

text \<open>A store that is not poisoned has its values on disk.\<close>

definition on_disk ::
    "(json \<Rightarrow> string option) \<Rightarrow> (string \<Rightarrow> Values option) \<Rightarrow> DurableStorage \<times> world \<Rightarrow> bool" where
  "on_disk dump reads = (\<lambda>(s, w). \<exists>c. written dump reads (ds_identity s) (ds_values s) c \<and>
     settled (Some c) (wd_disk w))"

definition store_inv ::
    "(json \<Rightarrow> string option) \<Rightarrow> (string \<Rightarrow> Values option) \<Rightarrow> DurableStorage \<times> world \<Rightarrow> bool" where
  "store_inv dump reads st \<longleftrightarrow>
     ValidIdentity (ds_identity (fst st)) \<and> wf_values (ds_values (fst st)) \<and>
     (\<not> ds_poisoned (fst st) \<longrightarrow> on_disk dump reads st)"

text \<open>A call either succeeds and stores its map, or leaves the values alone; it fails with a poisoned
  store or with an untouched directory.\<close>

definition store_answer ::
    "(json \<Rightarrow> string option) \<Rightarrow> (string \<Rightarrow> Values option) \<Rightarrow> DurableStorage \<times> world \<Rightarrow> store_op \<Rightarrow> chip_error option \<times> u8 list \<Rightarrow> bool" where
  "store_answer dump reads st op r \<longleftrightarrow>
     (case snd (storage_step dump op st) of (s', w') \<Rightarrow>
        ds_identity s' = ds_identity (fst st) \<and>
        ds_values s' = (if fst r = None then attempt op (ds_values (fst st)) else ds_values (fst st)) \<and>
        (if ds_poisoned s'
         then ds_poisoned (fst st) \<and> w' = snd st \<or> fst r = Some CHIP_ERROR_PERSISTED_STORAGE_FAILED \<and>
           wf_values (attempt op (ds_values s')) \<and>
           recoverable (stored dump reads (ds_identity s') {ds_values s', attempt op (ds_values s')}) (wd_disk w')
         else \<not> ds_poisoned (fst st)))"

lemma ValidKey_wf: "ValidKey key = Some k \<Longrightarrow> k \<noteq> [] \<and> length k \<le> 255 \<and> ValidUtf8 k"
  by (auto simp: ValidKey_def Let_def kMaximumKeyBytes_def split: option.splits if_splits)

lemma wf_values_put:
  assumes "wf_values vals" "ValidKey key = Some k" "length bytes \<le> 65535"
    "map_of vals k \<noteq> None \<or> length vals < 4096"
  shows "wf_values (map_put k bytes vals)"
proof -
  have "length (map_put k bytes vals) \<le> 4096"
    using assms length_map_put [of k bytes vals] length_map_put_present [of vals k bytes]
    by (auto simp: wf_values_def)
  then show ?thesis
    using assms ValidKey_wf [OF assms(2)]
    by (simp add: wf_values_def key_sorted_map_put list_all_map_put wf_entry_def)
qed

lemma wf_values_erase:
  assumes "wf_values vals"
  shows "wf_values (map_erase k vals)"
proof -
  have "length (map_erase k vals) \<le> length vals" "list_all wf_entry (map_erase k vals)"
    using assms by (auto simp: map_erase_def wf_values_def list_all_iff)
  then show ?thesis
    using assms key_sorted_map_erase [of vals k] by (simp add: wf_values_def)
qed

lemma Commit_step:
  assumes "store_inv dump reads (s, w)" "\<not> ds_poisoned s" "Commit dump vals (s, w) = (r, s', w')"
  shows "r = None \<and> s' = s \<and>
      (\<exists>c. written dump reads (ds_identity s) vals c \<and> settled (Some c) (wd_disk w')) \<or>
    r = Some CHIP_ERROR_PERSISTED_STORAGE_FAILED \<and> s' = Poison s \<and>
      recoverable (stored dump reads (ds_identity s) {ds_values s, vals}) (wd_disk w')"
proof -
  obtain c where c: "written dump reads (ds_identity s) (ds_values s) c" "settled (Some c) (wd_disk w)"
    using assms(1,2) by (auto simp: store_inv_def on_disk_def)
  have "{Some c} \<union> stored dump reads (ds_identity s) {vals} \<subseteq> stored dump reads (ds_identity s) {ds_values s, vals}"
    using c(1) by (auto simp: stored_def)
  then show ?thesis using Commit_cases [OF assms(3,2) c(2), of reads] recoverable_mono
    unfolding written_def by blast
qed

text \<open>\<open>Commit\<close> followed by the update of \<open>values_\<close>, as both setters do it.\<close>

lemma commit_update:
  assumes "store_inv dump reads (s, w)" "\<not> ds_poisoned s" "wf_values vals"
    "(case Commit dump vals (s, w) of
        (None, s1, w1) \<Rightarrow> (None, s1\<lparr>ds_values := vals\<rparr>, w1)
      | (Some err, s1, w1) \<Rightarrow> (Some err, s1, w1)) = (r, s', w')"
  shows "store_inv dump reads (s', w') \<and> ds_identity s' = ds_identity s \<and>
    (r = None \<and> \<not> ds_poisoned s' \<and> ds_values s' = vals \<or>
     r = Some CHIP_ERROR_PERSISTED_STORAGE_FAILED \<and> ds_poisoned s' \<and> ds_values s' = ds_values s \<and>
       recoverable (stored dump reads (ds_identity s') {ds_values s', vals}) (wd_disk w'))"
proof -
  obtain r1 s1 w1 where c: "Commit dump vals (s, w) = (r1, s1, w1)" by (cases "Commit dump vals (s, w)") auto
  from Commit_step [OF assms(1,2) c] show ?thesis
    using assms c by (auto simp: store_inv_def on_disk_def Poison_def) blast
qed

lemma Set_step:
  assumes "store_inv dump reads (s, w)"
  shows "store_inv dump reads (snd (storage_step dump (S_Set key mem sz) (s, w))) \<and>
    store_answer dump reads (s, w) (S_Set key mem sz) (fst (storage_step dump (S_Set key mem sz) (s, w)))"
proof (cases "ds_poisoned s \<or> ValidKey key = None \<or> mem = None \<and> sz > 0 \<or>
    map_of (ds_values s) (the (ValidKey key)) = None \<and> length (ds_values s) \<ge> kMaximumKeys")
  case True
  then obtain err where "SyncSetKeyValue dump key mem sz (s, w) = (Some err, s, w)"
    by (cases "ValidKey key") (fastforce simp: SyncSetKeyValue_def)+
  then show ?thesis using assms by (simp add: store_answer_def)
next
  case False
  then obtain k where k: "ValidKey key = Some k" by (cases "ValidKey key") simp_all
  let ?vals = "map_put k (if sz = 0 then [] else take (unat sz) (the mem)) (ds_values s)"
  have g: "\<not> ds_poisoned s" "\<not> (mem = None \<and> sz > 0)"
      "\<not> (map_of (ds_values s) k = None \<and> length (ds_values s) \<ge> kMaximumKeys)"
    using False unfolding k option.sel by blast+
  have len: "length (if sz = 0 then [] else take (unat sz) (the mem)) \<le> 65535"
    using unat_u16_less [of sz] by (auto simp: min_def)
  have "map_of (ds_values s) k \<noteq> None \<or> length (ds_values s) < 4096"
    using g(3) by (auto simp: kMaximumKeys_def)
  moreover have "wf_values (ds_values s)" using assms by (simp add: store_inv_def)
  ultimately have wf: "wf_values ?vals" using wf_values_put [OF _ k len] by blast
  obtain r s' w' where c: "(case Commit dump ?vals (s, w) of
      (None, s1, w1) \<Rightarrow> (None, s1\<lparr>ds_values := ?vals\<rparr>, w1) | (Some err, s1, w1) \<Rightarrow> (Some err, s1, w1)) =
      (r, s', w')" by (rule prod_cases3)
  have "SyncSetKeyValue dump key mem sz (s, w) = (r, s', w')"
    using g c by (simp only: SyncSetKeyValue_def Let_def prod.case option.case if_False k)
  then show ?thesis
    using commit_update [OF assms g(1) wf c] g(1) k wf by (elim conjE disjE) (simp_all add: store_answer_def)
qed

lemma Delete_step:
  assumes "store_inv dump reads (s, w)"
  shows "store_inv dump reads (snd (storage_step dump (S_Delete key) (s, w))) \<and>
    store_answer dump reads (s, w) (S_Delete key) (fst (storage_step dump (S_Delete key) (s, w)))"
proof (cases "ds_poisoned s \<or> ValidKey key = None \<or> map_of (ds_values s) (the (ValidKey key)) = None")
  case True
  then obtain err where "SyncDeleteKeyValue dump key (s, w) = (Some err, s, w)"
    by (cases "ValidKey key") (fastforce simp: SyncDeleteKeyValue_def)+
  then show ?thesis using assms by (simp add: store_answer_def)
next
  case False
  then obtain k where k: "ValidKey key = Some k" by auto
  let ?vals = "map_erase k (ds_values s)"
  have wf: "wf_values ?vals" using assms by (simp add: store_inv_def wf_values_erase)
  obtain r s' w' where c: "(case Commit dump ?vals (s, w) of
      (None, s1, w1) \<Rightarrow> (None, s1\<lparr>ds_values := ?vals\<rparr>, w1) | (Some err, s1, w1) \<Rightarrow> (Some err, s1, w1)) =
      (r, s', w')" by (rule prod_cases3)
  have g: "\<not> ds_poisoned s" "map_of (ds_values s) k \<noteq> None"
    using False k by simp_all
  then have "SyncDeleteKeyValue dump key (s, w) = (r, s', w')"
    using k c by (simp only: SyncDeleteKeyValue_def Let_def prod.case option.case if_False)
  then show ?thesis
    using commit_update [OF assms g(1) wf c] g(1) k wf by (elim conjE disjE) (simp_all add: store_answer_def)
qed

lemma storage_step_ok:
  assumes "store_inv dump reads st"
  shows "store_inv dump reads (snd (storage_step dump op st)) \<and>
    store_answer dump reads st op (fst (storage_step dump op st))"
proof (cases op)
  case (S_Get key n sz)
  then show ?thesis using assms
    by (cases st) (auto simp: store_answer_def SyncGetKeyValue_def Let_def split: option.splits if_splits)
qed (use assms Set_step Delete_step in \<open>cases st; simp\<close>)+

interpretation store_machine: machine "storage_step dump" "store_inv dump reads" "store_answer dump reads" for dump reads
  by unfold_locales (simp_all add: storage_step_ok)

lemma poisoned_step: "ds_poisoned s \<Longrightarrow> snd (storage_step dump op (s, w)) = (s, w)"
  by (cases op) (simp_all add: SyncGetKeyValue_def SyncSetKeyValue_def SyncDeleteKeyValue_def)

lemma poisoned_run: "ds_poisoned s \<Longrightarrow> snd (run_ops (storage_step dump) (s, w) ops) = (s, w)"
  by (induction ops) (simp_all add: Let_def case_prod_beta poisoned_step)

text \<open>The call that poisons the store, if one does.\<close>

fun failed_call ::
    "(json \<Rightarrow> string option) \<Rightarrow> DurableStorage \<times> world \<Rightarrow> store_op list \<Rightarrow> store_op option" where
  "failed_call dump st [] = None"
| "failed_call dump st (op # ops) =
     (let st1 = snd (storage_step dump op st)
      in if ds_poisoned (fst st1) then Some op else failed_call dump st1 ops)"

text \<open>After any sequence of calls, whatever fails: the acknowledged values are on disk, or the store is
  poisoned and the disk holds them or the map that the failed call meant to store.\<close>

lemma run_recoverable:
  assumes "store_inv dump reads (s, w)" "\<not> ds_poisoned s" "snd (run_ops (storage_step dump) (s, w) ops) = (s', w')"
  shows "store_inv dump reads (s', w') \<and> ds_identity s' = ds_identity s \<and>
    (case failed_call dump (s, w) ops of
       None \<Rightarrow> \<not> ds_poisoned s'
     | Some op \<Rightarrow> ds_poisoned s' \<and> wf_values (attempt op (ds_values s')) \<and>
         recoverable (stored dump reads (ds_identity s) {ds_values s', attempt op (ds_values s')}) (wd_disk w'))"
  using assms
proof (induction ops arbitrary: s w)
  case (Cons op ops)
  obtain s1 w1 where st: "snd (storage_step dump op (s, w)) = (s1, w1)" by fastforce
  have run: "snd (run_ops (storage_step dump) (s1, w1) ops) = (s', w')"
    using Cons.prems(3) st by (simp add: Let_def case_prod_beta)
  have inv: "store_inv dump reads (s1, w1)" using store_machine.step_inv [OF Cons.prems(1), of op] st by simp
  have ans: "ds_identity s1 = ds_identity s \<and> (ds_poisoned s1 \<longrightarrow> wf_values (attempt op (ds_values s1)) \<and>
      recoverable (stored dump reads (ds_identity s1) {ds_values s1, attempt op (ds_values s1)}) (wd_disk w1))"
    using store_machine.step_answer [OF Cons.prems(1), of op] Cons.prems(2) st
    by (auto simp: store_answer_def split: if_splits)
  show ?case
  proof (cases "ds_poisoned s1")
    case True
    then show ?thesis using run poisoned_run [OF True] inv ans st by auto
  next
    case False
    then show ?thesis using Cons.IH [OF inv False run] ans st by (auto split: option.splits)
  qed
qed auto

section \<open>No trace of a commit\<close>

text \<open>Neither the directory nor any part of it that a loss of power may leave has the files of an
  unfinished commit.\<close>

definition commit_free :: "disk \<Rightarrow> bool" where
  "commit_free d \<longleftrightarrow> (\<forall>dir \<in> insert (dk_live d) (crash_dirs d). dir kTemporaryFile = None \<and> dir kIntentFile = None)"

lemma commit_free_reboot: "commit_free d \<Longrightarrow> reboot d d' \<Longrightarrow> clean d'"
  by (auto simp: commit_free_def reboot_def power_loss_def clean_def)

lemma run_all_last: "run_all (cs @ [c]) w = (True, w') \<Longrightarrow> \<exists>w1. c w1 = (True, w')"
  by (induction cs arbitrary: w) (auto split: prod.splits bool.splits)

lemma commit_files_synced:
  assumes "commit_files c w = (True, w')"
  shows "dk_log (wd_disk w') = [] \<and> dk_durable (wd_disk w') = dk_live (wd_disk w')"
proof -
  obtain cs w3 where "run_all (cs @ [sys_call do_fsync_dir]) w3 = (True, w')"
  proof -
    assume *: "\<And>cs w3. run_all (cs @ [sys_call do_fsync_dir]) w3 = (True, w') \<Longrightarrow> thesis"
    from assms obtain i w3 where "run_all ([sys_call (do_fchmod i), WriteAll i (''pending'' @ [CHR 0x0A]),
        sys_call (do_fsync i), sys_call do_nothing, sys_call do_fsync_dir,
        sys_call (do_rename kTemporaryFile kStateFile), sys_call do_fsync_dir, sys_call (do_unlink kIntentFile)] @
        [sys_call do_fsync_dir]) w3 = (True, w')"
      by (auto simp: commit_files_def simp del: run_all.simps split: prod.splits option.splits bool.splits)
    then show thesis by (rule *)
  qed
  then obtain w4 where "sys_call do_fsync_dir w4 = (True, w')" using run_all_last by blast
  then show ?thesis by (auto simp: sys_call_def do_fsync_dir_def split: list.splits if_splits)
qed

lemma Commit_synced:
  assumes "Commit dump vals (s, w) = (None, s', w')"
  shows "dk_log (wd_disk w') = [] \<and> dk_durable (wd_disk w') = dk_live (wd_disk w')"
  using assms by (auto simp: Commit_def Let_def dest: commit_files_synced
      split: if_splits option.splits prod.splits bool.splits)

lemma settled_synced:
  "settled oc d \<Longrightarrow> dk_log d = [] \<Longrightarrow> dk_durable d = dk_live d \<Longrightarrow> commit_free d"
  by (simp add: settled_def commit_free_def clean_def crash_dirs_sync)

lemma step_synced:
  assumes "snd (storage_step dump op (s, w)) = (s1, w1)" "\<not> ds_poisoned s1"
  shows "wd_disk w1 = wd_disk w \<or> dk_log (wd_disk w1) = [] \<and> dk_durable (wd_disk w1) = dk_live (wd_disk w1)"
proof -
  have fail: "ds_poisoned s2" if "Commit dump vals (s, w) = (Some e, s2, w2)" for vals e s2 w2
    using that by (auto simp: Commit_def Poison_def Let_def split: if_splits option.splits prod.splits bool.splits)
  show ?thesis
    using assms by (cases op) (auto simp: SyncGetKeyValue_def SyncSetKeyValue_def SyncDeleteKeyValue_def Let_def
        dest!: Commit_synced dest: fail split: option.splits prod.splits if_splits)
qed

lemma run_commit_free:
  assumes "store_inv dump reads (s, w)" "\<not> ds_poisoned s" "commit_free (wd_disk w)"
    "failed_call dump (s, w) ops = None" "snd (run_ops (storage_step dump) (s, w) ops) = (s', w')"
  shows "commit_free (wd_disk w')"
  using assms
proof (induction ops arbitrary: s w)
  case (Cons op ops)
  obtain s1 w1 where st: "snd (storage_step dump op (s, w)) = (s1, w1)" by fastforce
  have ok: "\<not> ds_poisoned s1" "failed_call dump (s1, w1) ops = None"
    using Cons.prems(4) st by (simp_all add: Let_def split: if_splits)
  have inv: "store_inv dump reads (s1, w1)" using store_machine.step_inv [OF Cons.prems(1), of op] st by simp
  then obtain c where "settled (Some c) (wd_disk w1)" using ok(1) by (auto simp: store_inv_def on_disk_def)
  then have "commit_free (wd_disk w1)"
    using step_synced [OF st ok(1)] Cons.prems(3) settled_synced by auto
  moreover have "snd (run_ops (storage_step dump) (s1, w1) ops) = (s', w')"
    using Cons.prems(5) st by (simp add: Let_def case_prod_beta)
  ultimately show ?case using Cons.IH [OF inv ok(1) _ ok(2)] by blast
qed simp

section \<open>Opening\<close>

lemma sys_call_cases:
  assumes "sys_call effect w = (ok, w')"
  shows "wd_umask_clear w' = wd_umask_clear w \<and>
    (if ok then effect (wd_disk w) = Some (wd_disk w') else wd_disk w' = wd_disk w)"
  using assms by (auto simp: sys_call_def split: list.splits option.splits if_splits)

lemma read_loop_contents: "read_loop rest acc xs = (Some c, xs') \<Longrightarrow> c = acc @ rest"
  by (induction rest acc xs rule: read_loop.induct) (auto split: outcome.splits if_splits)

lemma run_all_two:
  "run_all [c1, c2] w = (True, w') \<Longrightarrow> \<exists>w1. c1 w = (True, w1) \<and> c2 w1 = (True, w')"
  by (auto split: prod.splits bool.splits)

lemma OpenLock_existing:
  assumes "OpenLock False w = (Some i, w')"
  shows "dk_live (wd_disk w) kLockFile = Some i" "\<not> in_locked (dk_inodes (wd_disk w) ! i)"
    "wd_disk w' = update_inode i (\<lambda>n. n\<lparr>in_locked := True\<rparr>) (wd_disk w)"
proof -
  obtain w1 where o: "sys_open kLockFile w = (Some i, w1)"
    and r: "run_all [ExactRegularFile i, sys_call (do_flock i)] w1 = (True, w')"
    using assms by (auto simp: OpenLock_def split: prod.splits option.splits bool.splits)
  have d1: "wd_disk w1 = wd_disk w \<and> dk_live (wd_disk w) kLockFile = Some i"
    using o by (auto simp: sys_open_def do_nothing_def dest: sys_call_cases split: prod.splits bool.splits)
  obtain w2 where "ExactRegularFile i w1 = (True, w2)" "sys_call (do_flock i) w2 = (True, w')"
    using run_all_two [OF r] by blast
  then have "wd_disk w2 = wd_disk w1 \<and> do_flock i (wd_disk w2) = Some (wd_disk w')"
    by (auto simp: ExactRegularFile_def do_exact_def dest!: sys_call_cases split: if_splits)
  then show "dk_live (wd_disk w) kLockFile = Some i" "\<not> in_locked (dk_inodes (wd_disk w) ! i)"
      "wd_disk w' = update_inode i (\<lambda>n. n\<lparr>in_locked := True\<rparr>) (wd_disk w)"
    using d1 by (auto simp: do_flock_def split: if_splits)
qed

lemma ReadState_contents:
  assumes "ReadState w = (Some c, w')"
  shows "\<exists>i. dk_live (wd_disk w) kStateFile = Some i \<and> c = in_content (dk_inodes (wd_disk w) ! i) \<and>
    in_exact (dk_inodes (wd_disk w) ! i) \<and> wd_disk w' = wd_disk w"
proof -
  obtain i w1 w2 where o: "sys_open kStateFile w = (Some i, w1)"
    and r: "run_all [ExactRegularFile i, sys_call (do_size i)] w1 = (True, w2)"
    using assms by (auto simp: ReadState_def split: prod.splits option.splits bool.splits)
  have d1: "wd_disk w1 = wd_disk w \<and> dk_live (wd_disk w) kStateFile = Some i"
    using o by (auto simp: sys_open_def do_nothing_def dest: sys_call_cases split: prod.splits bool.splits)
  obtain w3 where "ExactRegularFile i w1 = (True, w3)" "sys_call (do_size i) w3 = (True, w2)"
    using run_all_two [OF r] by blast
  then have d2: "wd_disk w2 = wd_disk w1 \<and> in_exact (dk_inodes (wd_disk w1) ! i)"
    by (auto simp: ExactRegularFile_def do_exact_def do_size_def Let_def dest!: sys_call_cases split: if_splits)
  obtain xs where "read_loop (in_content (dk_inodes (wd_disk w2) ! i)) [] (wd_outcomes w2) = (Some c, xs)"
      "wd_disk w' = wd_disk w2"
    using assms o r
    by (auto simp: ReadState_def do_nothing_def dest: sys_call_cases split: prod.splits option.splits if_splits)
  then show ?thesis using d1 d2 read_loop_contents by fastforce
qed

text \<open>What a successful \<open>Open\<close> of an existing store has seen.\<close>

lemma Open_existing:
  assumes "Open dump lib_events lib_doc path SM_OpenExisting AM_Stored identity w = (Inr s, w')"
  shows "\<exists>i. clean (wd_disk w) \<and> dk_present (wd_disk w) \<and> dk_live (wd_disk w) kStateFile = Some i \<and>
      ParseState lib_events lib_doc (in_content (dk_inodes (wd_disk w) ! i)) identity = Some (ds_values s)"
    "ds_identity s = identity" "\<not> ds_poisoned s" "ValidIdentity identity"
    "dk_live (wd_disk w) kLockFile = Some (ds_lock_fd s)" "\<not> in_locked (dk_inodes (wd_disk w) ! ds_lock_fd s)"
    "wd_disk w' = update_inode (ds_lock_fd s) (\<lambda>n. n\<lparr>in_locked := True\<rparr>) (wd_disk w)"
proof -
  obtain w1 w2 w3 c where
    r1: "run_all [sys_call do_private, sys_call do_nothing] w = (True, w1)" and
    l: "OpenLock False w1 = (Some (ds_lock_fd s), w2)" and
    cl: "CleanCommitState w2 = (True, w3)" and rd: "ReadState w3 = (Some c, w')" and
    p: "ParseState lib_events lib_doc c identity = Some (ds_values s)" and
    id: "ds_identity s = identity" "\<not> ds_poisoned s" "ValidIdentity identity"
    using assms
    by (auto simp: Open_def simp del: run_all.simps split: if_splits prod.splits bool.splits option.splits)
  obtain w0 where "sys_call do_private w = (True, w0)" "sys_call do_nothing w0 = (True, w1)"
    using run_all_two [OF r1] by blast
  then have d1: "wd_disk w1 = wd_disk w" "dk_present (wd_disk w)"
    by (auto simp: do_private_def do_nothing_def dest!: sys_call_cases split: if_splits)
  have d2: "wd_disk w2 = update_inode (ds_lock_fd s) (\<lambda>n. n\<lparr>in_locked := True\<rparr>) (wd_disk w)"
    using OpenLock_existing(3) [OF l] d1 by simp
  have d3: "wd_disk w3 = wd_disk w2" "clean (wd_disk w)"
    using CleanCommitState_disk [OF cl] d2 by (auto simp: clean_def)
  have same: "in_content (dk_inodes (wd_disk w2) ! i) = in_content (dk_inodes (wd_disk w) ! i)" for i
    unfolding d2 update_inode_def
    by (cases "ds_lock_fd s < length (dk_inodes (wd_disk w))") (auto simp: nth_list_update list_update_beyond)
  show "\<exists>i. clean (wd_disk w) \<and> dk_present (wd_disk w) \<and> dk_live (wd_disk w) kStateFile = Some i \<and>
      ParseState lib_events lib_doc (in_content (dk_inodes (wd_disk w) ! i)) identity = Some (ds_values s)"
    using ReadState_contents [OF rd] p d1 d3 same by (auto simp: d2)
  show "wd_disk w' = update_inode (ds_lock_fd s) (\<lambda>n. n\<lparr>in_locked := True\<rparr>) (wd_disk w)"
    using ReadState_contents [OF rd] d2 d3 by auto
  show "ds_identity s = identity" "\<not> ds_poisoned s" "ValidIdentity identity" by fact+
  show "dk_live (wd_disk w) kLockFile = Some (ds_lock_fd s)" "\<not> in_locked (dk_inodes (wd_disk w) ! ds_lock_fd s)"
    using OpenLock_existing(1,2) [OF l] d1 by simp_all
qed

section \<open>Across restarts\<close>

lemma settled_written:
  assumes "settled (Some c) d" "dk_live d kStateFile = Some i"
  shows "in_content (dk_inodes d ! i) = c"
  using assms by (auto simp: settled_def quiet_def file_ok_def file_is_def)

lemma settled_update: "settled oc (update_inode i f d) = settled oc d"
  if "\<And>n. in_content (f n) = in_content n \<and> in_synced (f n) = in_synced n \<and> in_exact (f n) = in_exact n"
proof (cases "i < length (dk_inodes d)")
  case True
  have "file_is (update_inode i f d) k c = file_is d k c" for k c
    using True that by (auto simp: file_is_def nth_update_inode)
  then show ?thesis by (simp add: settled_def clean_def file_ok_def split: option.splits)
next
  case False
  then show ?thesis by (simp add: update_inode_def list_update_beyond)
qed

text \<open>Opening a settled directory establishes the invariant of the session.\<close>

lemma Open_settled:
  assumes "settled (Some c) (wd_disk w)"
    "Open dump lib_events lib_doc path SM_OpenExisting AM_Stored identity w = (Inr s, w')"
  shows "ParseState lib_events lib_doc c identity = Some (ds_values s)"
    "store_inv dump (\<lambda>c. ParseState lib_events lib_doc c identity) (s, w')"
proof -
  note o = Open_existing [OF assms(2)]
  show p: "ParseState lib_events lib_doc c identity = Some (ds_values s)"
    using o(1) settled_written [OF assms(1)] by auto
  have "settled (Some c) (wd_disk w')" using assms(1) by (simp add: o(7) settled_update)
  then show "store_inv dump (\<lambda>c. ParseState lib_events lib_doc c identity) (s, w')"
    using p o(2-4) ParseState_wf [OF p] by (auto simp: store_inv_def on_disk_def written_def)
qed

text \<open>A session whose values are on disk, a loss of the process or of power, and what the next \<open>Open\<close> finds.\<close>

lemma session_recovery:
  assumes inv: "store_inv dump (\<lambda>c. ParseState lib_events lib_doc c identity) (s, w)"
    and id: "\<not> ds_poisoned s" "ds_identity s = identity" "ValidIdentity identity"
    and calls: "snd (run_ops (storage_step dump) (s, w) ops) = (s', w')"
    and lost: "reboot (wd_disk w') (wd_disk w1)"
    and library: "\<forall>v \<in> insert (ds_values s') (set_option (map_option (\<lambda>op. attempt op (ds_values s'))
      (failed_call dump (s, w) ops))). library_reads dump lib_events lib_doc (state_document identity v)"
    and again: "Open dump lib_events lib_doc path SM_OpenExisting AM_Stored identity w1 = (Inr s2, w2)"
  shows "(ds_values s2 = ds_values s' \<or>
      (\<exists>op. failed_call dump (s, w) ops = Some op \<and> ds_values s2 = attempt op (ds_values s'))) \<and>
    (\<exists>c. settled (Some c) (wd_disk w1))"
proof -
  let ?reads = "\<lambda>c. ParseState lib_events lib_doc c identity"
  let ?failed = "failed_call dump (s, w) ops"
  let ?meant = "insert (ds_values s') (set_option (map_option (\<lambda>op. attempt op (ds_values s')) ?failed))"
  note run = run_recoverable [OF inv id(1) calls, unfolded id(2)]
  have clean: "clean (wd_disk w1)" using Open_existing(1) [OF again] by blast
  have wf: "wf_values v" if "v \<in> ?meant" for v
    using that run by (cases ?failed) (auto simp: store_inv_def)
  have reads: "?reads c = Some v" if "written dump ?reads identity v c" "v \<in> ?meant" for v c
    using that library ParseState_serialized [OF id(3) wf [OF that(2)], of dump lib_events lib_doc c identity]
    by (auto simp: written_def)
  obtain v c1 where v: "settled (Some c1) (wd_disk w1)" "written dump ?reads identity v c1" "v \<in> ?meant"
  proof (cases ?failed)
    case None
    then obtain c0 where "written dump ?reads identity (ds_values s') c0" "settled (Some c0) (wd_disk w')"
      using run by (auto simp: store_inv_def on_disk_def)
    then show ?thesis
      using that lost clean settled_recoverable [of "Some c0" "wd_disk w'"] unfolding recoverable_def by blast
  next
    case (Some op)
    then have "recoverable (stored dump ?reads identity {ds_values s', attempt op (ds_values s')}) (wd_disk w')"
      using run by simp
    then show ?thesis using that lost clean Some unfolding recoverable_def stored_def by fastforce
  qed
  have "ds_values s2 = v" using Open_settled(1) [OF v(1) again] reads [OF v(2,3)] by simp
  then show ?thesis using v by (cases ?failed) auto
qed

section \<open>A deletion that is cut off\<close>

text \<open>A store with two values; the last sync of a deletion is not made because the process dies after the
  removal of the intent file.  The next session finds the map without the key.\<close>

definition example_values_after :: Values where "example_values_after = [(''f/1'', [1, 2])]"

definition example_dump :: "json \<Rightarrow> string option" where
  "example_dump d = (if d = state_document example_identity example_values then Some ''A'' else Some ''B'')"

definition example_tree :: "string \<Rightarrow> json" where
  "example_tree text = state_document example_identity (if text = [CHR ''A'', CHR 0x0A] then example_values else example_values_after)"

definition example_events :: "string \<Rightarrow> (nat \<times> parse_event) list" where
  "example_events text = parse_events 0 (example_tree text)"

definition example_doc :: "string \<Rightarrow> json option" where
  "example_doc text = Some (parsed_form (example_tree text))"

definition example_disk :: disk where
  "example_disk = \<lparr>dk_present = True, dk_private = True, dk_entry_durable = True,
     dk_live = [kLockFile \<mapsto> 0, kStateFile \<mapsto> 1], dk_durable = [kLockFile \<mapsto> 0, kStateFile \<mapsto> 1], dk_log = [],
     dk_inodes = [\<lparr>in_content = [], in_synced = True, in_exact = True, in_locked = False\<rparr>,
       \<lparr>in_content = [CHR ''A'', CHR 0x0A], in_synced = True, in_exact = True, in_locked = False\<rparr>]\<rparr>"

definition open_outcomes :: "outcome list" where
  "open_outcomes = [Sys_Ok, Sys_Ok, Sys_Ok, Sys_Ok, Sys_Ok, Sys_Ok, Sys_Ok, Sys_Ok, Sys_Ok, Sys_Ok, Sys_Count 2, Sys_Ok]"

definition cut_outcomes :: "outcome list" where
  "cut_outcomes = [Sys_Ok, Sys_Ok, Sys_Ok, Sys_Ok, Sys_Count 2, Sys_Ok, Sys_Ok, Sys_Ok, Sys_Ok, Sys_Count 8,
     Sys_Ok, Sys_Ok, Sys_Ok, Sys_Ok, Sys_Ok, Sys_Ok]"

definition example_world :: "disk \<Rightarrow> outcome list \<Rightarrow> world" where
  "example_world d xs = \<lparr>wd_disk = d, wd_outcomes = xs, wd_umask_clear = True\<rparr>"

definition example_store :: "Values \<Rightarrow> bool \<Rightarrow> DurableStorage" where
  "example_store vals poisoned = \<lparr>ds_path = ''/s'', ds_identity = example_identity, ds_lock_fd = 0,
     ds_values = vals, ds_poisoned = poisoned\<rparr>"

lemma example_values_after_wf: "wf_values example_values_after"
  using example_wf(2) by (simp add: wf_values_def example_values_after_def example_values_def)

lemma example_texts:
  "SerializeState example_dump example_identity example_values = Some [CHR ''A'', CHR 0x0A]"
  "SerializeState example_dump example_identity example_values_after = Some [CHR ''B'', CHR 0x0A]"
  by (simp_all add: SerializeState_def example_dump_def kMaximumFileBytes_def state_document_def
      example_values_def example_values_after_def)

lemma example_reads:
  "v = example_values \<or> v = example_values_after \<Longrightarrow>
   library_reads example_dump example_events example_doc (state_document example_identity v)"
  by (auto simp: library_reads_def example_dump_def example_events_def example_doc_def example_tree_def
      state_document_def example_values_def example_values_after_def)

lemma example_parse:
  "ParseState example_events example_doc [CHR ''A'', CHR 0x0A] example_identity = Some example_values"
  "ParseState example_events example_doc [CHR ''B'', CHR 0x0A] example_identity = Some example_values_after"
  using ParseState_serialized [OF example_wf example_reads example_texts(1)]
    ParseState_serialized [OF example_wf(1) example_values_after_wf example_reads example_texts(2)] by simp_all

lemma lock_names [simp]:
  "kLockFile \<noteq> kStateFile" "kStateFile \<noteq> kLockFile" "kLockFile \<noteq> kTemporaryFile" "kTemporaryFile \<noteq> kLockFile"
  "kLockFile \<noteq> kIntentFile" "kIntentFile \<noteq> kLockFile"
  by (simp_all add: kLockFile_def kStateFile_def kTemporaryFile_def kIntentFile_def)

lemmas call_defs = sys_call_def do_nothing_def do_absent_def do_create_def do_fchmod_def do_fsync_def
  do_fsync_dir_def do_rename_def do_unlink_def do_flock_def do_exact_def do_size_def do_private_def
  sys_open_def sys_create_def update_inode_def do_dir_op_def WriteAll_def

lemma example_open:
  "Open example_dump example_events example_doc ''/s'' SM_OpenExisting AM_Stored example_identity
     (example_world example_disk (open_outcomes @ xs)) =
   (Inr (example_store example_values False),
    example_world (update_inode 0 (\<lambda>n. n\<lparr>in_locked := True\<rparr>) example_disk) xs)"
  by (simp add: Open_def example_wf(1) OpenLock_def CleanCommitState_def ReadState_def ExactRegularFile_def
      call_defs example_world_def open_outcomes_def example_disk_def example_parse example_store_def
      kMaximumFileBytes_def)

definition example_cut :: disk where
  "example_cut = \<lparr>dk_present = True, dk_private = True, dk_entry_durable = True,
     dk_live = [kLockFile \<mapsto> 0, kStateFile \<mapsto> Suc (Suc 0)],
     dk_durable = [kLockFile \<mapsto> 0, kStateFile \<mapsto> Suc (Suc 0), kIntentFile \<mapsto> Suc (Suc (Suc 0))],
     dk_log = [D_Unlink kIntentFile],
     dk_inodes = [\<lparr>in_content = [], in_synced = True, in_exact = True, in_locked = True\<rparr>,
       \<lparr>in_content = [CHR ''A'', CHR 0x0A], in_synced = True, in_exact = True, in_locked = False\<rparr>,
       \<lparr>in_content = [CHR ''B'', CHR 0x0A], in_synced = True, in_exact = True, in_locked = False\<rparr>,
       \<lparr>in_content = ''pending'' @ [CHR 0x0A], in_synced = True, in_exact = True, in_locked = False\<rparr>]\<rparr>"

lemma example_key: "ValidKey (Some ''g'') = Some ''g''"
  by (simp add: ValidKey_def kMaximumKeyBytes_def ValidUtf8_def)

lemma example_erase: "map_erase ''g'' example_values = example_values_after"
  by (simp add: map_erase_def example_values_def example_values_after_def)

lemma example_delete:
  "run_ops (storage_step example_dump)
     (example_store example_values False,
      example_world (update_inode 0 (\<lambda>n. n\<lparr>in_locked := True\<rparr>) example_disk) cut_outcomes)
     [S_Delete (Some ''g'')] =
   ([(Some CHIP_ERROR_PERSISTED_STORAGE_FAILED, [])],
    example_store example_values True, example_world example_cut [])"
proof -
  have m: "map_of example_values ''g'' = Some []" by (simp add: example_values_def)
  have "commit_files [CHR ''B'', CHR 0x0A]
      (example_world (update_inode 0 (\<lambda>n. n\<lparr>in_locked := True\<rparr>) example_disk) (drop 2 cut_outcomes)) =
    (False, example_world example_cut [])"
    by (simp add: commit_files_def call_defs example_world_def example_disk_def cut_outcomes_def example_cut_def
      fun_upd_twist)
  then show ?thesis
    by (simp add: SyncDeleteKeyValue_def example_store_def example_key example_erase m Commit_def example_texts
      CleanCommitState_def call_defs example_world_def example_disk_def cut_outcomes_def Poison_def)
qed

lemma example_reopen:
  "Open example_dump example_events example_doc ''/s'' SM_OpenExisting AM_Stored example_identity
     (example_world (process_death example_cut) open_outcomes) =
   (Inr (example_store example_values_after False),
    example_world (update_inode 0 (\<lambda>n. n\<lparr>in_locked := True\<rparr>) (process_death example_cut)) [])"
  by (simp add: Open_def example_wf(1) OpenLock_def CleanCommitState_def ReadState_def ExactRegularFile_def
      call_defs example_world_def open_outcomes_def example_cut_def process_death_def example_parse example_store_def
      kMaximumFileBytes_def)

lemma example_settled: "settled (Some [CHR ''A'', CHR 0x0A]) example_disk"
  by (simp add: settled_def clean_def quiet_def crash_dirs_sync file_ok_def file_is_def example_disk_def)

end
