(* ===== verification/StoreContract.thy ===== *)
theory StoreContract
  imports StoreRecovery
begin

text \<open>
  What \<open>DurableStorage\<close> promises to its clients: a key-value map, a single owner, and a store that is on
  disk as soon as it has been created.
\<close>

section \<open>A key-value map\<close>

text \<open>The contract of a map whose calls may be refused: an acknowledged call has its effect on the map and a
  refused one has none.\<close>

locale key_value =
  fixes step :: "'op \<Rightarrow> 's \<Rightarrow> 'r \<times> 's"
    and inv :: "'s \<Rightarrow> bool"
    and lookup :: "'s \<Rightarrow> 'k \<rightharpoonup> 'v"
    and effect :: "'op \<Rightarrow> ('k \<rightharpoonup> 'v) \<Rightarrow> ('k \<rightharpoonup> 'v)"
    and acknowledged :: "'r \<Rightarrow> bool"
  assumes keeps_inv: "inv s \<Longrightarrow> inv (snd (step op s))"
    and lookup_step: "inv s \<Longrightarrow> lookup (snd (step op s)) =
          (if acknowledged (fst (step op s)) then effect op (lookup s) else lookup s)"
begin

lemma run_lookup:
  assumes "inv s"
  shows "lookup (snd (run_ops step s ops)) =
    fold (\<lambda>(op, r) m. if acknowledged r then effect op m else m)
      (zip ops (fst (run_ops step s ops))) (lookup s)"
  using assms
proof (induction ops arbitrary: s)
  case (Cons op ops)
  then show ?case
    using Cons.IH [OF keeps_inv [OF Cons.prems]] lookup_step [OF Cons.prems]
    by (simp add: Let_def case_prod_beta)
qed simp

end

definition store_lookup :: "DurableStorage \<times> world \<Rightarrow> string \<rightharpoonup> u8 list" where
  "store_lookup st = map_of (ds_values (fst st))"

fun map_effect :: "store_op \<Rightarrow> (string \<rightharpoonup> u8 list) \<Rightarrow> (string \<rightharpoonup> u8 list)" where
  "map_effect (S_Get _ _ _) m = m"
| "map_effect (S_Set key mem sz) m =
     (case ValidKey key of
        None \<Rightarrow> m | Some k \<Rightarrow> m(k \<mapsto> if sz = 0 then [] else take (unat sz) (the mem)))"
| "map_effect (S_Delete key) m = (case ValidKey key of None \<Rightarrow> m | Some k \<Rightarrow> m(k := None))"

lemma map_of_attempt: "map_of (attempt op vals) = map_effect op (map_of vals)"
  by (cases op) (simp_all split: option.splits)

interpretation store_map: key_value "storage_step dump" "store_inv dump reads" store_lookup map_effect
    "\<lambda>r. fst r = None" for dump reads
proof unfold_locales
  fix st :: "DurableStorage \<times> world" and op
  assume "store_inv dump reads st"
  then show "store_inv dump reads (snd (storage_step dump op st))"
    and "store_lookup (snd (storage_step dump op st)) =
      (if fst (fst (storage_step dump op st)) = None then map_effect op (store_lookup st) else store_lookup st)"
    using storage_step_ok [of dump reads st op]
    by (auto simp: store_answer_def store_lookup_def map_of_attempt split: prod.splits)
qed

text \<open>The answer of \<open>SyncGetKeyValue\<close> on a store that is not poisoned, against the map.\<close>

lemma Get_answer:
  assumes "\<not> ds_poisoned s" "ValidKey key = Some k"
  shows "SyncGetKeyValue key False sz s =
    (case map_of (ds_values s) k of
       None \<Rightarrow> (Some CHIP_ERROR_PERSISTED_STORAGE_VALUE_NOT_FOUND, [], sz)
     | Some v \<Rightarrow>
         if length v \<le> unat sz then (None, v, of_nat (length v))
         else (Some CHIP_ERROR_BUFFER_TOO_SMALL, take (unat sz) v, sz))"
  using assms by (auto simp: SyncGetKeyValue_def Let_def min_def word_unat_eq_iff split: option.splits)

text \<open>Property C2. The store refines a map: start from a store whose values are on disk, make any sequence
  of calls under any failures, and read a key with a large enough buffer.  The answer is the value that
  the acknowledged calls, and only those, give the key, in their order; a store that has failed once
  answers \<open>CHIP_ERROR_PERSISTED_STORAGE_FAILED\<close> instead.\<close>

theorem store_refines_map:
  assumes "store_inv dump reads st" "ValidKey key = Some k"
    "run_ops (storage_step dump) st ops = (answers, s', w')"
  shows "SyncGetKeyValue key False 0xFFFF s' =
    (if ds_poisoned s' then (Some CHIP_ERROR_PERSISTED_STORAGE_FAILED, [], 0xFFFF)
     else case fold (\<lambda>(op, r) m. if fst r = None then map_effect op m else m) (zip ops answers)
                 (store_lookup st) k of
       None \<Rightarrow> (Some CHIP_ERROR_PERSISTED_STORAGE_VALUE_NOT_FOUND, [], 0xFFFF)
     | Some v \<Rightarrow> (None, v, of_nat (length v)))"
proof (cases "ds_poisoned s'")
  case True
  then show ?thesis by (simp add: SyncGetKeyValue_def)
next
  case False
  have lookup: "map_of (ds_values s') =
      fold (\<lambda>(op, r) m. if fst r = None then map_effect op m else m) (zip ops answers) (store_lookup st)"
    using store_map.run_lookup [OF assms(1), of ops] assms(3) by (simp add: store_lookup_def)
  have "store_inv dump reads (s', w')" using store_machine.run_inv [OF assms(1), of ops] assms(3) by simp
  then have "length v \<le> 65535" if "map_of (ds_values s') k = Some v" for v
    using that by (auto simp: store_inv_def wf_values_def list_all_iff wf_entry_def dest!: map_of_SomeD)
  then show ?thesis
    using False Get_answer [OF False assms(2), of "0xFFFF"] lookup by (auto split: option.splits)
qed

lemma example_delete_done:
  "\<exists>w'. run_ops (storage_step example_dump)
     (example_store example_values False,
      example_world (update_inode 0 (\<lambda>n. n\<lparr>in_locked := True\<rparr>) example_disk) (cut_outcomes @ [Sys_Ok]))
     [S_Delete (Some ''g'')] =
   ([(None, [])], example_store example_values_after False, w')"
proof -
  have m: "map_of example_values ''g'' = Some []" by (simp add: example_values_def)
  have "\<exists>w'. commit_files [CHR ''B'', CHR 0x0A]
      (example_world (update_inode 0 (\<lambda>n. n\<lparr>in_locked := True\<rparr>) example_disk)
        (drop 2 (cut_outcomes @ [Sys_Ok]))) = (True, w')"
    by (simp add: commit_files_def call_defs example_world_def example_disk_def cut_outcomes_def)
  then show ?thesis
    by (simp add: SyncDeleteKeyValue_def example_store_def example_key example_erase m Commit_def example_texts
      CleanCommitState_def call_defs example_world_def example_disk_def cut_outcomes_def) auto
qed

lemma example_inv:
  "store_inv example_dump (\<lambda>c. ParseState example_events example_doc c example_identity)
     (example_store example_values False,
      example_world (update_inode 0 (\<lambda>n. n\<lparr>in_locked := True\<rparr>) example_disk) xs)"
  using Open_settled(2) [OF _ example_open, of "[CHR ''A'', CHR 0x0A]" xs] example_settled
  by (simp add: example_world_def)

text \<open>After the deletion of \<open>g\<close> the key is not found and the other one is.\<close>

lemma store_refines_map_witness:
  "SyncGetKeyValue (Some ''g'') False 0xFFFF (example_store example_values_after False) =
     (Some CHIP_ERROR_PERSISTED_STORAGE_VALUE_NOT_FOUND, [], 0xFFFF)"
proof -
  obtain w' where "run_ops (storage_step example_dump)
     (example_store example_values False,
      example_world (update_inode 0 (\<lambda>n. n\<lparr>in_locked := True\<rparr>) example_disk) (cut_outcomes @ [Sys_Ok]))
     [S_Delete (Some ''g'')] =
   ([(None, [])], example_store example_values_after False, w')" using example_delete_done by blast
  from store_refines_map [OF example_inv example_key this] show ?thesis
    by (simp add: example_key) (simp add: example_store_def)
qed

section \<open>A single owner\<close>

text \<open>The directory exists, and the lock file is in it and locked.\<close>

definition owned :: "nat \<Rightarrow> bool \<Rightarrow> disk \<Rightarrow> bool" where
  "owned i b d \<longleftrightarrow> dk_present d \<and> dk_entry_durable d = b \<and> dk_live d kLockFile = Some i \<and>
     i < length (dk_inodes d) \<and> in_locked (dk_inodes d ! i)"

lemma entry_durable_update [simp]: "dk_entry_durable (update_inode k f d) = dk_entry_durable d"
  by (simp add: update_inode_def)

lemma owned_update:
  assumes "owned i b d" "in_locked (f (dk_inodes d ! k)) = in_locked (dk_inodes d ! k)"
  shows "owned i b (update_inode k f d)"
proof (cases "k < length (dk_inodes d)")
  case True
  then show ?thesis using assms by (auto simp: owned_def nth_update_inode)
next
  case False
  then show ?thesis using assms by (simp add: update_inode_def list_update_beyond)
qed

lemma owned_create: "owned i b d \<Longrightarrow> do_create x name d = Some d' \<Longrightarrow> owned i b d'"
  by (auto simp: owned_def do_create_def do_dir_op_def nth_append split: if_splits)

lemma owned_effects:
  "owned i b d \<Longrightarrow> do_fchmod k d = Some d' \<Longrightarrow> owned i b d'"
  "owned i b d \<Longrightarrow> do_fsync k d = Some d' \<Longrightarrow> owned i b d'"
  "owned i b d \<Longrightarrow> do_fsync_dir d = Some d' \<Longrightarrow> owned i b d'"
  "owned i b d \<Longrightarrow> do_rename kTemporaryFile kStateFile d = Some d' \<Longrightarrow> owned i b d'"
  "owned i b d \<Longrightarrow> do_unlink kIntentFile d = Some d' \<Longrightarrow> owned i b d'"
  "owned i b d \<Longrightarrow> do_nothing d = Some d' \<Longrightarrow> owned i b d'"
  by (auto simp: do_fchmod_def do_fsync_def do_nothing_def intro!: owned_update)
     (auto simp: owned_def do_fsync_dir_def do_rename_def do_unlink_def do_dir_op_def
       split: if_splits option.splits)

lemma runs_owned: "(\<And>d d'. owned i b d \<Longrightarrow> e d = Some d' \<Longrightarrow> owned i b d') \<Longrightarrow>
    runs (owned i b) (sys_call e) (owned i b) (owned i b)"
  by (rule runs_sys_call)

lemma runs_owned_list:
  "list_all (\<lambda>c. runs (owned i b) c (owned i b) (owned i b)) cs \<Longrightarrow> runs (owned i b) (run_all cs) (owned i b) (owned i b)"
proof (induction cs)
  case (Cons c cs)
  then have "runs (owned i b) c (owned i b) (owned i b)" "runs (owned i b) (run_all cs) (owned i b) (owned i b)"
    by simp_all
  then show ?case by (rule runs_Cons)
qed (rule runs_Nil)

lemma owned_written:
  "owned i b d \<Longrightarrow> owned i b (update_inode k (\<lambda>f. f\<lparr>in_content := g f, in_synced := False\<rparr>) d)"
  by (rule owned_update) simp_all

lemma write_loop_owned:
  "owned i b d \<Longrightarrow> write_loop k u xs d = (ok, xs', d') \<Longrightarrow> owned i b d'"
  by (induction k u xs d rule: write_loop.induct) (auto split: outcome.splits if_splits simp: owned_written)

lemma runs_owned_write: "runs (owned i b) (WriteAll k u) (owned i b) (owned i b)"
  by (auto simp: runs_def WriteAll_def dest: write_loop_owned split: prod.splits)

lemmas owned_calls = runs_owned [OF owned_effects(1)] runs_owned [OF owned_effects(2)]
  runs_owned [OF owned_effects(3)] runs_owned [OF owned_effects(4)] runs_owned [OF owned_effects(5)]
  runs_owned [OF owned_effects(6)] runs_owned_write

lemma run_all_owned:
  assumes "run_all cs w = (ok, w')" "owned i b (wd_disk w)"
    "list_all (\<lambda>c. runs (owned i b) c (owned i b) (owned i b)) cs"
  shows "owned i b (wd_disk w')"
  using runsD [OF runs_owned_list [OF assms(3)] assms(2,1)] by (simp split: if_splits)

lemma sys_create_owned: "sys_create name w = (r, w') \<Longrightarrow> owned i b (wd_disk w) \<Longrightarrow> owned i b (wd_disk w')"
  using sys_create_cases [of name w r w'] owned_create by auto

lemma commit_files_owned:
  assumes "commit_files c w = (ok, w')" "owned i b (wd_disk w)"
  shows "owned i b (wd_disk w')"
proof -
  obtain r1 w1 where c1: "sys_create kTemporaryFile w = (r1, w1)" by fastforce
  have o1: "owned i b (wd_disk w1)" using sys_create_owned [OF c1 assms(2)] .
  show ?thesis
  proof (cases r1)
    case None
    then show ?thesis using assms(1) c1 o1 by (simp add: commit_files_def)
  next
    case (Some t)
    obtain ok2 w2 where c2: "run_all [sys_call (do_fchmod t), WriteAll t c, sys_call (do_fsync t),
        sys_call do_nothing] w1 = (ok2, w2)" by fastforce
    have o2: "owned i b (wd_disk w2)" by (rule run_all_owned [OF c2 o1]) (simp add: owned_calls)
    obtain r3 w3 where c3: "sys_create kIntentFile w2 = (r3, w3)" by fastforce
    have o3: "owned i b (wd_disk w3)" using sys_create_owned [OF c3 o2] .
    show ?thesis
    proof (cases "ok2 \<and> r3 \<noteq> None")
      case True
      then obtain j where "r3 = Some j" by auto
      then have "run_all [sys_call (do_fchmod j), WriteAll j (''pending'' @ [CHR 0x0A]), sys_call (do_fsync j),
          sys_call do_nothing, sys_call do_fsync_dir, sys_call (do_rename kTemporaryFile kStateFile),
          sys_call do_fsync_dir, sys_call (do_unlink kIntentFile), sys_call do_fsync_dir] w3 = (ok, w')"
        using assms(1) c1 c2 c3 Some True by (simp add: commit_files_def)
      from run_all_owned [OF this o3] show ?thesis by (simp add: owned_calls)
    next
      case False
      then show ?thesis using assms(1) c1 c2 c3 Some o2 o3
        by (cases ok2) (auto simp: commit_files_def split: option.splits)
    qed
  qed
qed

lemma Commit_owned:
  assumes "Commit dump vals (s, w) = (r, s', w')" "owned i b (wd_disk w)"
  shows "owned i b (wd_disk w') \<and> ds_lock_fd s' = ds_lock_fd s"
proof (cases "ds_poisoned s \<or> SerializeState dump (ds_identity s) vals = None")
  case True
  then show ?thesis using assms by (auto simp: Commit_def Poison_def Let_def split: if_splits)
next
  case False
  then obtain c where c: "SerializeState dump (ds_identity s) vals = Some c" by auto
  obtain ok1 w1 where c1: "CleanCommitState w = (ok1, w1)" by fastforce
  obtain ok2 w2 where c2: "commit_files c w1 = (ok2, w2)" by fastforce
  have "owned i b (wd_disk w1)" using CleanCommitState_disk [OF c1] assms(2) by simp
  with commit_files_owned [OF c2] have "owned i b (wd_disk w1)" "owned i b (wd_disk w2)" by blast+
  then show ?thesis using assms(1) False c c1 c2 by (cases ok1; cases ok2) (auto simp: Commit_def Poison_def Let_def)
qed

lemma storage_step_owned:
  assumes "snd (storage_step dump op (s, w)) = (s', w')" "owned i b (wd_disk w)"
  shows "owned i b (wd_disk w') \<and> ds_lock_fd s' = ds_lock_fd s"
proof -
  have *: "owned i b (wd_disk w1) \<and> ds_lock_fd s1 = ds_lock_fd s"
    if "Commit dump vals (s, w) = (r, s1, w1)" for vals r s1 w1
    using Commit_owned [OF that assms(2)] .
  show ?thesis
    using assms by (cases op) (auto simp: SyncGetKeyValue_def SyncSetKeyValue_def SyncDeleteKeyValue_def Let_def
        dest!: * split: option.splits prod.splits if_splits)
qed

lemma run_owned:
  assumes "snd (run_ops (storage_step dump) (s, w) ops) = (s', w')" "owned i b (wd_disk w)"
  shows "owned i b (wd_disk w') \<and> ds_lock_fd s' = ds_lock_fd s"
  using assms
proof (induction ops arbitrary: s w)
  case (Cons op ops)
  obtain s1 w1 where st: "snd (storage_step dump op (s, w)) = (s1, w1)" by fastforce
  have run: "snd (run_ops (storage_step dump) (s1, w1) ops) = (s', w')"
    using Cons.prems(1) st by (simp add: Let_def case_prod_beta)
  show ?case
    using Cons.IH [OF run] storage_step_owned [OF st Cons.prems(2)] by simp
qed simp

lemma Open_owned:
  assumes "owned i b (wd_disk w)"
  shows "\<exists>e w'. Open dump lib_events lib_doc path storage_mode authority_mode identity w = (Inl e, w')"
proof (rule ccontr)
  assume "\<nexists>e w'. Open dump lib_events lib_doc path storage_mode authority_mode identity w = (Inl e, w')"
  then obtain s w' where o: "Open dump lib_events lib_doc path storage_mode authority_mode identity w = (Inr s, w')"
    by (metis old.sum.exhaust surj_pair)
  show False
  proof (cases storage_mode)
    case SM_CreateNew
    then show ?thesis
      using o assms by (auto simp: Open_def sys_call_def do_dir_absent_def owned_def
          split: if_splits list.splits)
  next
    case SM_OpenExisting
    then have "authority_mode = AM_Stored" using o by (auto simp: Open_def split: if_splits)
    then show ?thesis using Open_existing(5,6) o SM_OpenExisting assms by (fastforce simp: owned_def)
  qed
qed

lemma Open_existing_owned:
  assumes "Open dump lib_events lib_doc path SM_OpenExisting AM_Stored identity w = (Inr s, w')"
    "ds_lock_fd s < length (dk_inodes (wd_disk w))"
  shows "owned (ds_lock_fd s) (dk_entry_durable (wd_disk w)) (wd_disk w')"
proof -
  note o = Open_existing [OF assms(1)]
  then show ?thesis using assms(2) by (auto simp: owned_def nth_update_inode)
qed

section \<open>Creation\<close>

lemma OpenLock_create:
  assumes "OpenLock True w = (Some i, w')" "dk_live (wd_disk w) = Map.empty" "dk_durable (wd_disk w) = Map.empty"
    "dk_log (wd_disk w) = []" "dk_present (wd_disk w)" "\<not> dk_entry_durable (wd_disk w)"
  shows "owned i False (wd_disk w')" "settled None (wd_disk w')"
proof -
  let ?n = "length (dk_inodes (wd_disk w))"
  obtain w1 where c: "sys_create kLockFile w = (Some i, w1)"
    and r: "run_all [ExactRegularFile i, sys_call (do_flock i)] w1 = (True, w')"
    using assms(1) by (auto simp: OpenLock_def split: prod.splits option.splits bool.splits)
  obtain x where i: "i = ?n" and d1: "do_create x kLockFile (wd_disk w) = Some (wd_disk w1)"
    using sys_create_cases [OF c] by auto
  obtain w2 where "ExactRegularFile i w1 = (True, w2)" "sys_call (do_flock i) w2 = (True, w')"
    using run_all_two [OF r] by blast
  then have d: "wd_disk w' = update_inode i (\<lambda>n. n\<lparr>in_locked := True\<rparr>) (wd_disk w1)"
    by (auto simp: ExactRegularFile_def do_exact_def do_flock_def dest!: sys_call_cases split: if_splits)
  have "unchanged None None (wd_disk w)"
    using assms(2-4) by (simp add: unchanged_def quiet_def file_ok_def crash_dirs_sync)
  note new = do_create_unchanged [OF this d1]
  have "quiet None (wd_disk w1)" "clean (wd_disk w1)"
    using new(1) new(5) [of kTemporaryFile] new(5) [of kIntentFile] assms(2)
    by (simp_all add: unchanged_def clean_def)
  then show "settled None (wd_disk w')"
    by (simp add: d settled_update) (auto simp: settled_def file_ok_def)
  show "owned i False (wd_disk w')"
  proof -
    have "wd_disk w1 = (do_dir_op (D_Link kLockFile ?n) (wd_disk w))\<lparr>dk_inodes := dk_inodes (wd_disk w) @
        [\<lparr>in_content = [], in_synced = False, in_exact = x, in_locked = False\<rparr>]\<rparr>"
      using d1 by (simp add: do_create_def split: if_splits)
    then show ?thesis
      using assms(5,6) by (simp add: d i owned_def nth_update_inode do_dir_op_def)
  qed
qed

lemma Open_create:
  assumes "Open dump lib_events lib_doc path SM_CreateNew AM_GenerateRoot identity w = (Inr s, w')"
  shows "(\<exists>c. SerializeState dump identity [] = Some c \<and> settled (Some c) (wd_disk w')) \<and>
    owned (ds_lock_fd s) False (wd_disk w') \<and> ds_values s = [] \<and> \<not> ds_poisoned s \<and>
    ds_identity s = identity \<and> \<not> dk_present (wd_disk w) \<and> ValidIdentity identity"
proof -
  let ?s = "\<lambda>i. \<lparr>ds_path = path, ds_identity = identity, ds_lock_fd = i, ds_values = [], ds_poisoned = False\<rparr>"
  obtain w1 w2 w3 i where
    r1: "run_all [sys_call do_dir_absent, sys_call (do_mkdir (wd_umask_clear w)), sys_call do_private,
      sys_call do_nothing] w = (True, w1)" and
    l: "OpenLock True w1 = (Some i, w2)" and cl: "CleanCommitState w2 = (True, w3)" and
    cm: "Commit dump [] (?s i, w3) = (None, s, w')" and id: "ValidIdentity identity"
    using assms
    by (auto simp: Open_def simp del: run_all.simps split: if_splits prod.splits bool.splits option.splits)
  have d1: "dk_live (wd_disk w1) = Map.empty" "dk_durable (wd_disk w1) = Map.empty" "dk_log (wd_disk w1) = []"
      "dk_present (wd_disk w1)" "\<not> dk_entry_durable (wd_disk w1)" "\<not> dk_present (wd_disk w)"
    using r1 by (auto simp: sys_call_def do_dir_absent_def do_mkdir_def do_private_def do_nothing_def
        split: list.splits if_splits option.splits)
  note lock = OpenLock_create [OF l d1(1-5)]
  have d3: "wd_disk w3 = wd_disk w2" using CleanCommitState_disk [OF cl] by simp
  have "s = ?s i \<and> (\<exists>c. SerializeState dump identity [] = Some c \<and> settled (Some c) (wd_disk w'))"
    using Commit_cases [OF cm, of None] lock(2) d3 by auto
  moreover have "owned i False (wd_disk w')"
    using Commit_owned [OF cm, of i False] lock(1) d3 by simp
  ultimately show ?thesis using id d1(6) by auto
qed

text \<open>Creating a store succeeds only where nothing existed, and when it has succeeded an empty map
  for the given identity is on disk: the directory is settled with the text of that map, the store is the
  owner of the lock, and the session invariant holds, so that every later call and every later restart is
  covered by the statements above.\<close>

theorem create_on_disk:
  assumes "Open dump lib_events lib_doc path SM_CreateNew AM_GenerateRoot identity w = (Inr s, w')"
  shows "\<not> dk_present (wd_disk w) \<and> ds_values s = [] \<and> ds_identity s = identity \<and>
    (\<exists>c. SerializeState dump identity [] = Some c \<and> settled (Some c) (wd_disk w')) \<and>
    owned (ds_lock_fd s) False (wd_disk w') \<and> store_inv dump reads (s, w')"
  using Open_create [OF assms] by (auto simp: store_inv_def on_disk_def written_def wf_values_def)

lemma Nil_subseqs: "[] \<in> set (subseqs xs)"
  by (induction xs) (auto simp: Let_def)

text \<open>The entry of a new directory in its parent is never synced: after every successful creation a
  loss of power may leave no store at all, although every later commit has been reported as durable.\<close>

theorem created_store_may_vanish:
  assumes "Open dump lib_events lib_doc path SM_CreateNew AM_GenerateRoot identity w = (Inr s, w')"
    "snd (run_ops (storage_step dump) (s, w') ops) = (s1, w1)"
  shows "\<exists>d'. power_loss (wd_disk w1) d' \<and> \<not> dk_present d'"
proof -
  have "\<not> dk_entry_durable (wd_disk w1)"
    using run_owned [OF assms(2)] Open_create [OF assms(1)] by (auto simp: owned_def)
  moreover have "dk_durable (wd_disk w1) \<in> crash_dirs (wd_disk w1)"
    by (auto simp: crash_dirs_def Nil_subseqs intro!: exI [of _ "[]"])
  ultimately show ?thesis
    by (intro exI [of _ "(wd_disk w1)\<lparr>dk_present := False, dk_live := dk_durable (wd_disk w1), dk_log := [],
          dk_inodes := map (\<lambda>n. n\<lparr>in_locked := False\<rparr>) (dk_inodes (wd_disk w1))\<rparr>"])
      (simp add: power_loss_def inode_survives_def list_all2_conv_all_nth)
qed

definition example_absent :: disk where
  "example_absent = \<lparr>dk_present = False, dk_private = False, dk_entry_durable = False, dk_live = Map.empty,
     dk_durable = Map.empty, dk_log = [], dk_inodes = []\<rparr>"

definition create_outcomes :: "outcome list" where
  "create_outcomes = [Sys_Ok, Sys_Ok, Sys_Ok, Sys_Ok, Sys_Ok, Sys_Ok, Sys_Ok, Sys_Ok, Sys_Ok] @ cut_outcomes @ [Sys_Ok]"

lemma example_create:
  "\<exists>w'. Open (\<lambda>_. Some ''E'') example_events example_doc ''/s'' SM_CreateNew AM_GenerateRoot example_identity
     (example_world example_absent create_outcomes) = (Inr (example_store [] False), w')"
  by (simp add: Open_def example_wf(1) OpenLock_def CleanCommitState_def ExactRegularFile_def Commit_def Let_def
      call_defs example_world_def create_outcomes_def cut_outcomes_def example_absent_def example_store_def
      do_dir_absent_def do_mkdir_def SerializeState_def kMaximumFileBytes_def commit_files_def)

lemma create_on_disk_witness:
  "\<exists>w'. Open (\<lambda>_. Some ''E'') example_events example_doc ''/s'' SM_CreateNew AM_GenerateRoot example_identity
      (example_world example_absent create_outcomes) = (Inr (example_store [] False), w') \<and>
    (\<exists>c. settled (Some c) (wd_disk w')) \<and> owned 0 False (wd_disk w')"
  using example_create create_on_disk by (fastforce simp: example_store_def)

lemma created_store_may_vanish_witness:
  "\<exists>w' d'. Open (\<lambda>_. Some ''E'') example_events example_doc ''/s'' SM_CreateNew AM_GenerateRoot example_identity
      (example_world example_absent create_outcomes) = (Inr (example_store [] False), w') \<and>
    power_loss (wd_disk w') d' \<and> \<not> dk_present d'"
proof -
  obtain w' where o: "Open (\<lambda>_. Some ''E'') example_events example_doc ''/s'' SM_CreateNew AM_GenerateRoot
      example_identity (example_world example_absent create_outcomes) = (Inr (example_store [] False), w')"
    using example_create by blast
  show ?thesis using created_store_may_vanish [OF o, of "[]"] o by auto
qed

section \<open>Exclusion and recovery\<close>

text \<open>What a successful \<open>Open\<close> gives in either mode.\<close>

lemma Open_modes:
  assumes "Open dump lib_events lib_doc path storage_mode authority_mode identity w = (Inr s, w')"
  shows "storage_mode = SM_CreateNew \<and> authority_mode = AM_GenerateRoot \<or>
    storage_mode = SM_OpenExisting \<and> authority_mode = AM_Stored"
  using assms by (cases storage_mode; cases authority_mode) (auto simp: Open_def split: if_splits)

lemma Open_any_owned:
  assumes "Open dump lib_events lib_doc path storage_mode authority_mode identity w = (Inr s, w')"
    "storage_mode = SM_OpenExisting \<longrightarrow> ds_lock_fd s < length (dk_inodes (wd_disk w))"
  shows "\<exists>b. owned (ds_lock_fd s) b (wd_disk w')"
  using Open_modes [OF assms(1)] assms Open_create Open_existing_owned by blast

lemma Open_session:
  assumes "Open dump lib_events lib_doc path storage_mode authority_mode identity w = (Inr s, w')"
    "storage_mode = SM_OpenExisting \<longrightarrow> (\<exists>c. settled (Some c) (wd_disk w))"
  shows "store_inv dump (\<lambda>c. ParseState lib_events lib_doc c identity) (s, w')" "\<not> ds_poisoned s"
    "ds_identity s = identity" "ValidIdentity identity"
proof -
  consider (create) "Open dump lib_events lib_doc path SM_CreateNew AM_GenerateRoot identity w = (Inr s, w')"
    | (existing) c where "settled (Some c) (wd_disk w)"
        "Open dump lib_events lib_doc path SM_OpenExisting AM_Stored identity w = (Inr s, w')"
    using Open_modes [OF assms(1)] assms by blast
  then have "store_inv dump (\<lambda>c. ParseState lib_events lib_doc c identity) (s, w') \<and> \<not> ds_poisoned s \<and>
      ds_identity s = identity \<and> ValidIdentity identity"
  proof cases
    case create
    then show ?thesis using Open_create [OF create]
      by (auto simp: store_inv_def on_disk_def written_def wf_values_def)
  next
    case existing
    then show ?thesis using Open_settled(2) [OF existing] Open_existing(2-4) [OF existing(2)] by blast
  qed
  then show "store_inv dump (\<lambda>c. ParseState lib_events lib_doc c identity) (s, w')" "\<not> ds_poisoned s"
    "ds_identity s = identity" "ValidIdentity identity" by blast+
qed

lemma Open_commit_free:
  assumes "Open dump lib_events lib_doc path storage_mode authority_mode identity w = (Inr s, w')"
    "storage_mode = SM_OpenExisting \<longrightarrow> commit_free (wd_disk w)"
  shows "commit_free (wd_disk w')"
proof (cases storage_mode)
  case SM_CreateNew
  then have c: "Open dump lib_events lib_doc path SM_CreateNew AM_GenerateRoot identity w = (Inr s, w')"
    using assms Open_modes [OF assms(1)] by auto
  then obtain vals s1 w1 where "Commit dump vals (s1, w1) = (None, s, w')"
    by (auto simp: Open_def simp del: run_all.simps split: if_splits prod.splits bool.splits option.splits)
  then show ?thesis using Open_create [OF c] Commit_synced settled_synced by blast
next
  case SM_OpenExisting
  then have "Open dump lib_events lib_doc path SM_OpenExisting AM_Stored identity w = (Inr s, w')"
    using assms Open_modes [OF assms(1)] by auto
  from Open_existing(7) [OF this] show ?thesis using assms(2) SM_OpenExisting by (simp add: commit_free_def)
qed

text \<open>Property C1. A store survives the loss of the process or of power at any moment.  Create a store or
  open a settled one, make any sequence of calls in which any system call may fail or be the last one that
  is executed, then let the process die or the power fail, with any part of the directory operations since
  the last sync lost and arbitrary bytes in every file that was not synced.  An \<open>Open\<close> that succeeds
  afterwards finds a settled directory and loads exactly what the acknowledged calls, in their order, make
  of the first values, or, only when a call failed or was cut off, what that one call, the first that
  failed, makes of them: never a mixture, an older state, the effect of another call or a damaged file.
  An interrupted commit may leave a directory that \<open>Open\<close> refuses, but only that: when no call failed, and
  no commit was unfinished on disk when an existing store was opened, the directory has no file of a commit,
  whatever is lost.\<close>

theorem crash_recovery:
  assumes first: "Open dump lib_events lib_doc path storage_mode authority_mode identity w0 = (Inr s, w)"
    and start: "storage_mode = SM_OpenExisting \<longrightarrow> (\<exists>c. settled (Some c) (wd_disk w0))"
    and calls: "run_ops (storage_step dump) (s, w) ops = (answers, s', w')"
    and lost: "reboot (wd_disk w') (wd_disk w1)"
    and library: "\<forall>v \<in> insert (ds_values s') (set_option (map_option (\<lambda>op. attempt op (ds_values s'))
      (failed_call dump (s, w) ops))). library_reads dump lib_events lib_doc (state_document identity v)"
  shows "let acknowledged = fold (\<lambda>(op, r) m. if fst r = None then map_effect op m else m) (zip ops answers)
      (map_of (ds_values s)) in
    (\<forall>s2 w2. Open dump lib_events lib_doc path' SM_OpenExisting AM_Stored identity w1 = (Inr s2, w2) \<longrightarrow>
      (\<exists>c. settled (Some c) (wd_disk w1)) \<and>
      (map_of (ds_values s2) = acknowledged \<or>
       (\<exists>op. failed_call dump (s, w) ops = Some op \<and> map_of (ds_values s2) = map_effect op acknowledged))) \<and>
    (failed_call dump (s, w) ops = None \<and> (storage_mode = SM_OpenExisting \<longrightarrow> commit_free (wd_disk w0)) \<longrightarrow>
      clean (wd_disk w1))"
unfolding Let_def
proof (intro conjI allI impI)
  let ?acknowledged = "fold (\<lambda>(op, r) m. if fst r = None then map_effect op m else m) (zip ops answers)
      (map_of (ds_values s))"
  note sess = Open_session [OF first start]
  have run: "snd (run_ops (storage_step dump) (s, w) ops) = (s', w')" using calls by simp
  have ack: "map_of (ds_values s') = ?acknowledged"
    using store_map.run_lookup [OF sess(1), of ops] calls by (simp add: store_lookup_def)
  fix s2 w2
  assume "Open dump lib_events lib_doc path' SM_OpenExisting AM_Stored identity w1 = (Inr s2, w2)"
  note rec = session_recovery [OF sess run lost library this]
  then show "\<exists>c. settled (Some c) (wd_disk w1)" by blast
  show "map_of (ds_values s2) = ?acknowledged \<or>
      (\<exists>op. failed_call dump (s, w) ops = Some op \<and> map_of (ds_values s2) = map_effect op ?acknowledged)"
    using rec ack map_of_attempt by metis
next
  assume none: "failed_call dump (s, w) ops = None \<and>
    (storage_mode = SM_OpenExisting \<longrightarrow> commit_free (wd_disk w0))"
  have "commit_free (wd_disk w')"
    by (rule run_commit_free [where ops = ops and s' = s',
          OF Open_session(1,2) [OF first start] Open_commit_free [OF first]])
      (use none calls in simp_all)
  then show "clean (wd_disk w1)" by (rule commit_free_reboot [OF _ lost])
qed

text \<open>The deletion of \<open>g\<close> is cut off before its last sync, the process dies, and the next \<open>Open\<close> loads the map
  without \<open>g\<close>.\<close>

lemma crash_recovery_witness:
  "reboot example_cut (process_death example_cut) \<and>
   failed_call example_dump (example_store example_values False,
      example_world (update_inode 0 (\<lambda>n. n\<lparr>in_locked := True\<rparr>) example_disk) cut_outcomes)
     [S_Delete (Some ''g'')] = Some (S_Delete (Some ''g'')) \<and>
   (map_of example_values_after = map_of example_values \<or>
    map_of example_values_after = map_effect (S_Delete (Some ''g'')) (map_of example_values)) \<and>
   (\<exists>c. settled (Some c) (process_death example_cut))"
proof -
  let ?w = "example_world (update_inode 0 (\<lambda>n. n\<lparr>in_locked := True\<rparr>) example_disk) cut_outcomes"
  have r: "reboot example_cut (process_death example_cut)" by (simp add: reboot_def)
  have f: "failed_call example_dump (example_store example_values False, ?w) [S_Delete (Some ''g'')] =
      Some (S_Delete (Some ''g''))"
  proof -
    obtain y s1 w1 where st: "storage_step example_dump (S_Delete (Some ''g'')) (example_store example_values False, ?w) =
        (y, s1, w1)" by (rule prod_cases3)
    with example_delete have "s1 = example_store example_values True" by (simp del: storage_step.simps)
    then show ?thesis using st by (simp add: example_store_def del: storage_step.simps)
  qed
  have lib: "\<forall>v \<in> insert (ds_values (example_store example_values True)) (set_option (map_option
      (\<lambda>op. attempt op (ds_values (example_store example_values True)))
      (failed_call example_dump (example_store example_values False, ?w) [S_Delete (Some ''g'')]))).
      library_reads example_dump example_events example_doc (state_document example_identity v)"
    unfolding f by (auto simp: example_key example_erase example_store_def intro: example_reads)
  have start: "SM_OpenExisting = SM_OpenExisting \<longrightarrow>
      (\<exists>c. settled (Some c) (wd_disk (example_world example_disk (open_outcomes @ cut_outcomes))))"
    using example_settled by (auto simp: example_world_def)
  have lost: "reboot (wd_disk (example_world example_cut []))
      (wd_disk (example_world (process_death example_cut) open_outcomes))"
    using r by (simp add: example_world_def)
  note rec = crash_recovery [OF example_open start example_delete lost lib, of "''/s''", unfolded Let_def f]
  have "(\<exists>c. settled (Some c) (process_death example_cut)) \<and>
      (map_of example_values_after = map_of example_values \<or>
       map_of example_values_after = map_effect (S_Delete (Some ''g'')) (map_of example_values))"
    using rec [THEN conjunct1, THEN spec, THEN spec, THEN mp, OF example_reopen]
    by (simp add: example_store_def example_world_def)
  with r f show ?thesis by blast
qed

text \<open>Property C3. A store has one owner: once \<open>Open\<close> has returned a store, created or found, every other
  \<open>Open\<close> of the same directory, in either mode and with any identity, fails, whatever calls the owner has
  made in between and whichever of them failed.\<close>

theorem store_exclusive:
  assumes "Open dump lib_events lib_doc path storage_mode authority_mode identity w0 = (Inr s, w)"
    "storage_mode = SM_OpenExisting \<longrightarrow> ds_lock_fd s < length (dk_inodes (wd_disk w0))"
    "snd (run_ops (storage_step dump) (s, w) ops) = (s', w')"
    "wd_disk w1 = wd_disk w'"
  shows "\<exists>e w2. Open dump' lib_events' lib_doc' path' storage_mode' authority_mode' identity' w1 = (Inl e, w2)"
  using Open_any_owned [OF assms(1,2)] run_owned [OF assms(3)] Open_owned assms(4) by metis

text \<open>An existing store after a failed deletion, and a store that has just been created.\<close>

lemma store_exclusive_witness:
  "(\<exists>e w2. Open example_dump example_events example_doc ''/s'' SM_OpenExisting AM_Stored example_identity
     (example_world example_cut open_outcomes) = (Inl e, w2)) \<and>
   (\<exists>w. Open (\<lambda>_. Some ''E'') example_events example_doc ''/s'' SM_CreateNew AM_GenerateRoot example_identity
       (example_world example_absent create_outcomes) = (Inr (example_store [] False), w) \<and>
     (\<exists>e w2. Open example_dump example_events example_doc ''/s'' SM_OpenExisting AM_Stored example_identity
       (example_world (wd_disk w) open_outcomes) = (Inl e, w2)))"
proof
  show "\<exists>e w2. Open example_dump example_events example_doc ''/s'' SM_OpenExisting AM_Stored example_identity
     (example_world example_cut open_outcomes) = (Inl e, w2)"
    using store_exclusive [OF example_open [of cut_outcomes], of "[S_Delete (Some ''g'')]"
        "example_store example_values True" "example_world example_cut []"
        "example_world example_cut open_outcomes" example_dump example_events example_doc "''/s''"
        SM_OpenExisting AM_Stored example_identity]
      example_delete by (simp add: example_store_def example_world_def example_disk_def)
  obtain w where o: "Open (\<lambda>_. Some ''E'') example_events example_doc ''/s'' SM_CreateNew AM_GenerateRoot
      example_identity (example_world example_absent create_outcomes) = (Inr (example_store [] False), w)"
    using example_create by blast
  have "\<exists>e w2. Open example_dump example_events example_doc ''/s'' SM_OpenExisting AM_Stored example_identity
      (example_world (wd_disk w) open_outcomes) = (Inl e, w2)"
    by (rule store_exclusive [OF o, of "[]"]) (simp_all add: example_world_def)
  with o show "\<exists>w. Open (\<lambda>_. Some ''E'') example_events example_doc ''/s'' SM_CreateNew AM_GenerateRoot example_identity
       (example_world example_absent create_outcomes) = (Inr (example_store [] False), w) \<and>
     (\<exists>e w2. Open example_dump example_events example_doc ''/s'' SM_OpenExisting AM_Stored example_identity
       (example_world (wd_disk w) open_outcomes) = (Inl e, w2))" by blast
qed

end
