(* ===== verification/Subscription.thy ===== *)
theory Subscription
  imports Interaction
begin

text \<open>
  \<^verbatim>\<open>native/include/wotex_matter/subscription.hpp\<close> and the first half of
  \<^verbatim>\<open>native/src/subscription.cpp\<close>: subscription requests and reports with their validators, the
  class \<open>SubscriptionBuffer\<close> that de-duplicates and queues reports until the subscription is
  activated, and the class \<open>SubscriptionRecovery\<close> that limits re-subscription attempts. The report
  credit manager of the same file is in the theory \<open>ReportCredit\<close>.
\<close>

section \<open>Data\<close>

datatype SubscriptionKind = SK_Attribute | SK_Event

record SubscriptionRequest =
  sr_subscription_id :: string
  sr_kind :: SubscriptionKind
  sr_fabric_id :: u64
  sr_node_id :: u64
  sr_paths :: "PathSelector list"
  sr_min_interval_s :: u16
  sr_max_interval_s :: u16
  sr_resubscribe :: bool
  sr_queue_limit :: u16
  sr_timeout_ms :: u32

record SubscriptionResponse =
  so_ok :: bool
  so_error_code :: string
  so_subscription_id :: string
  so_generation :: u64
  so_min_interval_s :: u16
  so_max_interval_s :: u16
  so_sdk_subscription_id :: u32

record SubscriptionReport =
  rp_subscription_id :: string
  rp_generation :: u64
  rp_kind :: SubscriptionKind
  rp_result :: PathResult
  rp_initial :: bool
  rp_report_id :: u64
  rp_min_interval_s :: u16
  rp_max_interval_s :: u16
  rp_sdk_subscription_id :: u32

datatype SubscriptionStatusKind = ST_Resubscribing | ST_Resubscribed
datatype SubscriptionContinuity = SC_Lost | SC_Unknown

record SubscriptionStatus =
  ss_subscription_id :: string
  ss_generation :: u64
  ss_status :: SubscriptionStatusKind
  ss_continuity :: SubscriptionContinuity
  ss_attempt :: u8
  ss_min_interval_s :: u16
  ss_max_interval_s :: u16
  ss_sdk_subscription_id :: u32

section \<open>Validators\<close>

definition Matches :: "PathSelector \<Rightarrow> ConcretePath \<Rightarrow> bool" where
  "Matches s p \<longleftrightarrow>
     ps_fabric_id s = cp_fabric_id p \<and> ps_node_id s = cp_node_id p \<and>
     ps_endpoint s = Some (cp_endpoint p) \<and> ps_cluster s = Some (cp_cluster p) \<and>
     ps_member s = Some (cp_member p)"

definition AdmittedRecipe :: "SubscriptionKind \<Rightarrow> u32 \<Rightarrow> u32 \<Rightarrow> bool" where
  "AdmittedRecipe kind cluster member =
     (if kind = SK_Event then cluster = 0x0039 \<and> member = 0x0003
      else (cluster = 0x0201 \<and> member = 0x0000) \<or> (cluster = 0x0006 \<and> member = 0x0000) \<or>
           (cluster = 0x0039 \<and> member = 0x0011) \<or> (cluster = 0x0402 \<and> member = 0x0000))"

definition hex_digit :: "char \<Rightarrow> bool" where
  "hex_digit c \<longleftrightarrow>
     (of_char c \<ge> (48 :: nat) \<and> of_char c \<le> (57 :: nat)) \<or>
     (of_char c \<ge> (97 :: nat) \<and> of_char c \<le> (102 :: nat))"

text \<open>The loop over the request's paths; \<open>seen\<close> is the \<open>std::set\<close> of triples met so far.\<close>

fun subscription_paths_loop ::
    "SubscriptionRequest \<Rightarrow> (u16 \<times> u32 \<times> u32) list \<Rightarrow> PathSelector list \<Rightarrow> bool" where
  "subscription_paths_loop q seen [] = True"
| "subscription_paths_loop q seen (p # ps) =
     (if ps_fabric_id p \<noteq> sr_fabric_id q \<or> ps_node_id p \<noteq> sr_node_id q then False
      else case (ps_endpoint p, ps_cluster p, ps_member p) of
        (Some e, Some c, Some m) \<Rightarrow>
          if \<not> AdmittedRecipe (sr_kind q) c m \<or> (e, c, m) \<in> set seen then False
          else subscription_paths_loop q ((e, c, m) # seen) ps
      | _ \<Rightarrow> False)"

definition valid_subscription_request :: "SubscriptionRequest \<Rightarrow> bool" where
  "valid_subscription_request q =
     (if length (sr_subscription_id q) \<noteq> 32 \<or> sr_fabric_id q = 0 \<or> sr_node_id q = 0 \<or>
         sr_paths q = [] \<or> length (sr_paths q) > 64 \<or>
         sr_min_interval_s q > sr_max_interval_s q \<or> sr_max_interval_s q = 0 \<or>
         sr_queue_limit q = 0 \<or> sr_queue_limit q > 10000 \<or> sr_timeout_ms q = 0 \<or>
         sr_timeout_ms q > 60000
      then False
      else if \<not> list_all hex_digit (sr_subscription_id q) then False
      else subscription_paths_loop q [] (sr_paths q))"

definition valid_subscription_report :: "SubscriptionRequest \<Rightarrow> SubscriptionReport \<Rightarrow> bool" where
  "valid_subscription_report q r =
     (if rp_subscription_id r \<noteq> sr_subscription_id q \<or> rp_generation r = 0 \<or>
         rp_kind r \<noteq> sr_kind q \<or> rp_report_id r = 0 \<or> rp_max_interval_s r = 0 \<or>
         rp_min_interval_s r > rp_max_interval_s r
      then False
      else
        (if sr_kind q = SK_Attribute
         then pr_attribute (rp_result r) \<noteq> None \<and> pr_event (rp_result r) = None \<and>
              pr_error (rp_result r) = None
         else pr_event (rp_result r) \<noteq> None \<and> pr_attribute (rp_result r) = None \<and>
              pr_error (rp_result r) = None) \<and>
        list_ex (\<lambda>p. Matches p (pr_path (rp_result r))) (sr_paths q))"

section \<open>SubscriptionBuffer\<close>

record SubscriptionBuffer =
  sb_request :: SubscriptionRequest
  sb_buffered :: "SubscriptionReport list"
  sb_ready :: "SubscriptionReport list"
  sb_current_attribute_paths :: "ConcretePath list"
  sb_current_event_ids :: "(ConcretePath \<times> u64) list"
  sb_initial_attribute_paths :: "ConcretePath list"
  sb_event_id_cache :: "(ConcretePath \<times> u64) list"
  sb_generation :: u64
  sb_report_id :: u64
  sb_sdk_subscription_id :: u32
  sb_revised_min_interval_s :: u16
  sb_revised_max_interval_s :: u16
  sb_in_report :: bool
  sb_established :: bool
  sb_activated :: bool
  sb_active :: bool

definition mk_buffer :: "SubscriptionRequest \<Rightarrow> SubscriptionBuffer" where
  "mk_buffer q =
     \<lparr>sb_request = q, sb_buffered = [], sb_ready = [], sb_current_attribute_paths = [],
      sb_current_event_ids = [], sb_initial_attribute_paths = [], sb_event_id_cache = [],
      sb_generation = 1, sb_report_id = 0, sb_sdk_subscription_id = 0,
      sb_revised_min_interval_s = 0, sb_revised_max_interval_s = 0, sb_in_report = False,
      sb_established = False, sb_activated = False, sb_active = True\<rparr>"

definition BeginReport :: "SubscriptionBuffer \<Rightarrow> SubscriptionBuffer" where
  "BeginReport b =
     (if \<not> sb_active b \<or> sb_in_report b \<or> sb_report_id b = max_u64
      then b\<lparr>sb_active := False\<rparr>
      else b\<lparr>sb_report_id := sb_report_id b + 1, sb_in_report := True,
             sb_current_attribute_paths := [], sb_current_event_ids := []\<rparr>)"

definition event_seen :: "(ConcretePath \<times> u64) list \<Rightarrow> PathResult \<Rightarrow> bool" where
  "event_seen ids result =
     (case pr_event result of
        None \<Rightarrow> False
      | Some e \<Rightarrow> list_ex (\<lambda>i. SamePath (fst i) (pr_path result) \<and> snd i = ed_event_number e) ids)"

definition DuplicateInCurrentReport :: "SubscriptionBuffer \<Rightarrow> PathResult \<Rightarrow> bool" where
  "DuplicateInCurrentReport b result =
     (if sr_kind (sb_request b) = SK_Attribute
      then list_ex (\<lambda>p. SamePath p (pr_path result)) (sb_current_attribute_paths b)
      else event_seen (sb_current_event_ids b) result)"

definition SuppressedDuplicate :: "SubscriptionBuffer \<Rightarrow> PathResult \<Rightarrow> bool" where
  "SuppressedDuplicate b result =
     (if sr_kind (sb_request b) = SK_Attribute
      then \<not> sb_established b \<and>
           list_ex (\<lambda>p. SamePath p (pr_path result)) (sb_initial_attribute_paths b)
      else event_seen (sb_event_id_cache b) result)"

definition build_report :: "SubscriptionBuffer \<Rightarrow> PathResult \<Rightarrow> SubscriptionReport" where
  "build_report b result =
     \<lparr>rp_subscription_id = sr_subscription_id (sb_request b), rp_generation = sb_generation b,
      rp_kind = sr_kind (sb_request b), rp_result = result, rp_initial = (\<not> sb_established b),
      rp_report_id = sb_report_id b,
      rp_min_interval_s = (if sb_established b then sb_revised_min_interval_s b
                           else sr_min_interval_s (sb_request b)),
      rp_max_interval_s = (if sb_established b then sb_revised_max_interval_s b
                           else sr_max_interval_s (sb_request b)),
      rp_sdk_subscription_id = sb_sdk_subscription_id b\<rparr>"

text \<open>The identities remembered for later duplicates; the event cache keeps the latest 1024.\<close>

definition remember :: "SubscriptionBuffer \<Rightarrow> PathResult \<Rightarrow> SubscriptionBuffer" where
  "remember b result =
     (if sr_kind (sb_request b) = SK_Attribute
      then b\<lparr>sb_current_attribute_paths := sb_current_attribute_paths b @ [pr_path result],
             sb_initial_attribute_paths :=
               (if \<not> sb_established b then sb_initial_attribute_paths b @ [pr_path result]
                else sb_initial_attribute_paths b)\<rparr>
      else let i = (pr_path result, ed_event_number (the (pr_event result)));
               cache = sb_event_id_cache b @ [i]
           in b\<lparr>sb_current_event_ids := sb_current_event_ids b @ [i],
                sb_event_id_cache := (if length cache > 1024 then tl cache else cache)\<rparr>)"

definition Add :: "PathResult \<Rightarrow> SubscriptionBuffer \<Rightarrow> bool \<times> SubscriptionBuffer" where
  "Add result b =
     (if \<not> sb_active b \<or> \<not> sb_in_report b then (False, b)
      else if DuplicateInCurrentReport b result \<or> SuppressedDuplicate b result then (True, b)
      else
        let report = build_report b result
        in if \<not> valid_subscription_report (sb_request b) report \<or>
              length (sb_buffered b) + length (sb_ready b) \<ge> unat (sr_queue_limit (sb_request b))
           then (False, b\<lparr>sb_active := False\<rparr>)
           else
             let b' = remember b result
             in (True, if sb_activated b' then b'\<lparr>sb_ready := sb_ready b' @ [report]\<rparr>
                       else b'\<lparr>sb_buffered := sb_buffered b' @ [report]\<rparr>))"

definition EndReport :: "SubscriptionBuffer \<Rightarrow> SubscriptionBuffer" where
  "EndReport b = b\<lparr>sb_in_report := False\<rparr>"

definition Establish :: "u32 \<Rightarrow> u16 \<Rightarrow> u16 \<Rightarrow> SubscriptionBuffer \<Rightarrow> bool \<times> SubscriptionBuffer" where
  "Establish sdk_id min_s max_s b =
     (if \<not> sb_active b \<or> sb_established b \<or> max_s = 0 \<or> min_s > max_s
      then (False, b\<lparr>sb_active := False\<rparr>)
      else (True, b\<lparr>sb_sdk_subscription_id := sdk_id, sb_revised_min_interval_s := min_s,
                    sb_revised_max_interval_s := max_s, sb_established := True,
                    sb_buffered := map (\<lambda>r. r\<lparr>rp_sdk_subscription_id := sdk_id,
                      rp_min_interval_s := min_s, rp_max_interval_s := max_s\<rparr>) (sb_buffered b)\<rparr>))"

definition PrepareRecovery :: "u64 \<Rightarrow> SubscriptionBuffer \<Rightarrow> bool \<times> SubscriptionBuffer" where
  "PrepareRecovery gen b =
     (if \<not> sb_active b \<or> gen = 0 \<or> sb_generation b = max_u64 \<or> gen \<noteq> sb_generation b + 1
      then (False, b\<lparr>sb_active := False\<rparr>)
      else (True, b\<lparr>sb_generation := gen, sb_report_id := 0, sb_sdk_subscription_id := 0,
                    sb_revised_min_interval_s := 0, sb_revised_max_interval_s := 0,
                    sb_in_report := False, sb_established := False, sb_activated := False,
                    sb_buffered := [], sb_ready := [], sb_current_attribute_paths := [],
                    sb_current_event_ids := [], sb_initial_attribute_paths := []\<rparr>))"

definition Activate :: "SubscriptionBuffer \<Rightarrow> SubscriptionBuffer" where
  "Activate b =
     (if \<not> sb_active b \<or> \<not> sb_established b \<or> sb_activated b then b
      else b\<lparr>sb_activated := True, sb_ready := sb_ready b @ sb_buffered b, sb_buffered := []\<rparr>)"

definition Cancel_buffer :: "SubscriptionBuffer \<Rightarrow> SubscriptionBuffer" where
  "Cancel_buffer b = b\<lparr>sb_active := False, sb_buffered := [], sb_ready := []\<rparr>"

definition TakeReady :: "SubscriptionBuffer \<Rightarrow> SubscriptionReport list \<times> SubscriptionBuffer" where
  "TakeReady b = (sb_ready b, b\<lparr>sb_ready := []\<rparr>)"

text \<open>The methods of the class as calls of one machine; the answer is the returned flag and the
  reports handed out.\<close>

datatype buffer_op =
  B_Begin | B_Add PathResult | B_End | B_Establish u32 u16 u16 | B_Prepare u64 | B_Activate
| B_Cancel | B_Take

fun buffer_step ::
    "buffer_op \<Rightarrow> SubscriptionBuffer \<Rightarrow> (bool \<times> SubscriptionReport list) \<times> SubscriptionBuffer" where
  "buffer_step B_Begin b = ((True, []), BeginReport b)"
| "buffer_step (B_Add result) b = (let (ok, b') = Add result b in ((ok, []), b'))"
| "buffer_step B_End b = ((True, []), EndReport b)"
| "buffer_step (B_Establish i mn mx) b = (let (ok, b') = Establish i mn mx b in ((ok, []), b'))"
| "buffer_step (B_Prepare gen) b = (let (ok, b') = PrepareRecovery gen b in ((ok, []), b'))"
| "buffer_step B_Activate b = ((True, []), Activate b)"
| "buffer_step B_Cancel b = ((True, []), Cancel_buffer b)"
| "buffer_step B_Take b = (let (rs, b') = TakeReady b in ((True, rs), b'))"

section \<open>SubscriptionRecovery\<close>

datatype RecoveryAction = RA_Disabled | RA_Retry | RA_Exhausted

record Decision =
  dc_action :: RecoveryAction
  dc_generation :: u64
  dc_attempt :: u8
  dc_remaining_ms :: u32

definition kMaximumAttempts :: u8 where "kMaximumAttempts = 5"
definition kMaximumDurationMs :: u32 where "kMaximumDurationMs = 60000"

record SubscriptionRecovery =
  rc_enabled :: bool
  rc_recovering :: bool
  rc_started_ms :: u64
  rc_generation :: u64
  rc_attempts :: u8

definition mk_recovery :: "bool \<Rightarrow> SubscriptionRecovery" where
  "mk_recovery enabled =
     \<lparr>rc_enabled = enabled, rc_recovering = False, rc_started_ms = 0, rc_generation = 1,
      rc_attempts = 0\<rparr>"

definition Next_recovery :: "u64 \<Rightarrow> SubscriptionRecovery \<Rightarrow> Decision \<times> SubscriptionRecovery" where
  "Next_recovery now_ms r =
     (if \<not> rc_enabled r then (Decision.make RA_Disabled (rc_generation r) 0 0, r)
      else if \<not> rc_recovering r \<and> rc_generation r = max_u64
      then (Decision.make RA_Exhausted (rc_generation r) 0 0, r)
      else
        let r1 = (if \<not> rc_recovering r
                  then r\<lparr>rc_recovering := True, rc_started_ms := now_ms, rc_attempts := 0,
                         rc_generation := rc_generation r + 1\<rparr>
                  else r);
            elapsed = (if now_ms \<ge> rc_started_ms r1 then now_ms - rc_started_ms r1 else 0)
        in if elapsed \<ge> ucast kMaximumDurationMs \<or> rc_attempts r1 \<ge> kMaximumAttempts
           then (Decision.make RA_Exhausted (rc_generation r1) (rc_attempts r1) 0, r1)
           else let r2 = r1\<lparr>rc_attempts := rc_attempts r1 + 1\<rparr>
                in (Decision.make RA_Retry (rc_generation r2) (rc_attempts r2)
                      (ucast (ucast kMaximumDurationMs - elapsed)), r2))"

definition Established_recovery :: "SubscriptionRecovery \<Rightarrow> SubscriptionRecovery" where
  "Established_recovery r = r\<lparr>rc_recovering := False, rc_started_ms := 0, rc_attempts := 0\<rparr>"

definition Cancel_recovery :: "SubscriptionRecovery \<Rightarrow> SubscriptionRecovery" where
  "Cancel_recovery r = Established_recovery (r\<lparr>rc_enabled := False\<rparr>)"

datatype recovery_op = R_Next u64 | R_Established | R_Cancel

fun recovery_step ::
    "recovery_op \<Rightarrow> SubscriptionRecovery \<Rightarrow> Decision option \<times> SubscriptionRecovery" where
  "recovery_step (R_Next now) r = (let (d, r') = Next_recovery now r in (Some d, r'))"
| "recovery_step R_Established r = (None, Established_recovery r)"
| "recovery_step R_Cancel r = (None, Cancel_recovery r)"

section \<open>Specification of what a buffer delivers\<close>

text \<open>
  The history of a subscription is the list of reports handed out so far.  \<open>delivery_ok\<close> is the
  abstract promise on it: every report is valid for the request, reports appear in order of
  (generation, report), one attribute appears at most once per report and at most once among the
  initial reports of a generation.
\<close>

abbreviation rp_path :: "SubscriptionReport \<Rightarrow> ConcretePath" where
  "rp_path r \<equiv> pr_path (rp_result r)"

abbreviation rp_event_id :: "SubscriptionReport \<Rightarrow> ConcretePath \<times> u64" where
  "rp_event_id r \<equiv> (rp_path r, ed_event_number (the (pr_event (rp_result r))))"

definition report_before :: "SubscriptionReport \<Rightarrow> SubscriptionReport \<Rightarrow> bool" where
  "report_before r r' \<longleftrightarrow> rp_generation r < rp_generation r' \<or>
     (rp_generation r = rp_generation r' \<and> rp_report_id r \<le> rp_report_id r')"

definition delivery_ok :: "SubscriptionRequest \<Rightarrow> SubscriptionReport list \<Rightarrow> bool" where
  "delivery_ok q rs \<longleftrightarrow>
     list_all (valid_subscription_report q) rs \<and> sorted_wrt report_before rs \<and>
     (sr_kind q = SK_Attribute \<longrightarrow>
        distinct (map (\<lambda>r. (rp_generation r, rp_report_id r, rp_path r)) rs) \<and>
        distinct (map (\<lambda>r. (rp_generation r, rp_path r)) (filter rp_initial rs)))"

definition pending :: "SubscriptionBuffer \<Rightarrow> SubscriptionReport list" where
  "pending b = sb_ready b @ sb_buffered b"

text \<open>The invariant of a buffer together with the history \<open>h\<close> of what it has handed out.\<close>

definition buffer_inv :: "SubscriptionReport list \<Rightarrow> SubscriptionBuffer \<Rightarrow> bool" where
  "buffer_inv h b \<longleftrightarrow>
     delivery_ok (sb_request b) (h @ pending b) \<and>
     length (pending b) \<le> unat (sr_queue_limit (sb_request b)) \<and>
     length (sb_event_id_cache b) \<le> 1024 \<and>
     (sb_activated b \<longrightarrow> sb_established b \<and> sb_buffered b = []) \<and>
     (\<forall>r\<in>set (h @ pending b).
        rp_generation r \<le> sb_generation b \<and>
        (rp_generation r = sb_generation b \<longrightarrow> rp_report_id r \<le> sb_report_id b) \<and>
        (rp_generation r = sb_generation b \<and> rp_report_id r = sb_report_id b \<and>
           sr_kind (sb_request b) = SK_Attribute \<longrightarrow>
           rp_path r \<in> set (sb_current_attribute_paths b)) \<and>
        (rp_generation r = sb_generation b \<and> rp_initial r \<and>
           sr_kind (sb_request b) = SK_Attribute \<longrightarrow>
           rp_path r \<in> set (sb_initial_attribute_paths b)))"

definition recorded :: "(bool \<times> SubscriptionReport list) list \<Rightarrow> SubscriptionReport list" where
  "recorded outs = concat (map snd outs)"

lemma recorded_Nil [simp]: "recorded [] = []"
  by (simp add: recorded_def)

lemma recorded_Cons [simp]: "recorded (out # outs) = snd out @ recorded outs"
  by (simp add: recorded_def)

lemma delivery_ok_prefix: "delivery_ok q (h @ rs) \<Longrightarrow> delivery_ok q h"
  by (auto simp: delivery_ok_def sorted_wrt_append)

lemma delivery_ok_snoc:
  assumes "delivery_ok q rs" "valid_subscription_report q r" "\<forall>r'\<in>set rs. report_before r' r"
    and "sr_kind q = SK_Attribute \<Longrightarrow>
      (rp_generation r, rp_report_id r, rp_path r) \<notin>
        (\<lambda>r. (rp_generation r, rp_report_id r, rp_path r)) ` set rs"
    and "sr_kind q = SK_Attribute \<Longrightarrow> rp_initial r \<Longrightarrow>
      (rp_generation r, rp_path r) \<notin> (\<lambda>r. (rp_generation r, rp_path r)) ` {r \<in> set rs. rp_initial r}"
  shows "delivery_ok q (rs @ [r])"
  using assms by (auto simp: delivery_ok_def sorted_wrt_append)

text \<open>\<open>Establish\<close> rewrites the reports still buffered; nothing the promise depends on changes.\<close>

lemma delivery_ok_map:
  assumes "delivery_ok q (h @ rs @ xs)"
    and "\<And>r. rp_generation (f r) = rp_generation r" "\<And>r. rp_report_id (f r) = rp_report_id r"
      "\<And>r. rp_result (f r) = rp_result r" "\<And>r. rp_initial (f r) = rp_initial r"
      "\<And>r. valid_subscription_report q r \<Longrightarrow> valid_subscription_report q (f r)"
  shows "delivery_ok q (h @ rs @ map f xs)"
proof -
  have "report_before r (f r') = report_before r r'" "report_before (f r) r' = report_before r r'"
    for r r'
    using assms(2,3) by (simp_all add: report_before_def)
  then show ?thesis
    using assms
    by (auto simp: delivery_ok_def list_all_iff sorted_wrt_append sorted_wrt_map comp_def filter_map)
qed

lemma valid_report_renegotiated:
  assumes "valid_subscription_report q r" "mx \<noteq> 0" "\<not> mn > mx"
  shows "valid_subscription_report q
    (r\<lparr>rp_sdk_subscription_id := i, rp_min_interval_s := mn, rp_max_interval_s := mx\<rparr>)"
  using assms unfolding valid_subscription_report_def guard_conj by simp

lemma buffer_inv_init: "buffer_inv [] (mk_buffer q)"
  by (simp add: buffer_inv_def mk_buffer_def pending_def delivery_ok_def)

lemma pending_deactivate [simp]: "pending (b\<lparr>sb_active := x\<rparr>) = pending b"
  by (simp add: pending_def)

lemma buffer_inv_active: "buffer_inv h b \<Longrightarrow> buffer_inv h (b\<lparr>sb_active := x\<rparr>)"
  by (simp add: buffer_inv_def)

lemma buffer_inv_BeginReport:
  assumes "buffer_inv h b"
  shows "buffer_inv h (BeginReport b)"
proof (cases "\<not> sb_active b \<or> sb_in_report b \<or> sb_report_id b = max_u64")
  case True
  then show ?thesis using assms by (simp add: BeginReport_def buffer_inv_active)
next
  case False
  then have more: "x \<le> sb_report_id b + 1 \<and> x \<noteq> sb_report_id b + 1" if "x \<le> sb_report_id b" for x
    using unat_plus_one [of "sb_report_id b"] that by (auto simp: word_le_nat_alt)
  show ?thesis
    using assms False more unfolding BeginReport_def buffer_inv_def
    by (fastforce simp: pending_def)
qed

lemma remember_simps [simp]:
  "sb_request (remember b result) = sb_request b" "sb_ready (remember b result) = sb_ready b"
  "sb_buffered (remember b result) = sb_buffered b"
  "sb_generation (remember b result) = sb_generation b"
  "sb_report_id (remember b result) = sb_report_id b"
  "sb_established (remember b result) = sb_established b"
  "sb_activated (remember b result) = sb_activated b"
  "sb_active (remember b result) = sb_active b"
  by (simp_all add: remember_def Let_def)

lemma remember_cache:
  "length (sb_event_id_cache b) \<le> 1024 \<Longrightarrow> length (sb_event_id_cache (remember b result)) \<le> 1024"
  by (simp add: remember_def Let_def)

lemma build_report_simps [simp]:
  "rp_generation (build_report b result) = sb_generation b"
  "rp_report_id (build_report b result) = sb_report_id b"
  "rp_result (build_report b result) = result"
  "rp_initial (build_report b result) = (\<not> sb_established b)"
  by (simp_all add: build_report_def)

text \<open>A report that passes the duplicate tests may be appended behind everything pending.\<close>

lemma delivery_ok_Add:
  assumes inv: "buffer_inv h b"
    and "\<not> DuplicateInCurrentReport b result" "\<not> SuppressedDuplicate b result"
    and "valid_subscription_report (sb_request b) (build_report b result)"
  shows "delivery_ok (sb_request b) ((h @ pending b) @ [build_report b result])"
  using assms
  by (intro delivery_ok_snoc)
     (auto simp: buffer_inv_def report_before_def DuplicateInCurrentReport_def
       SuppressedDuplicate_def SamePath_iff_eq list_ex_iff order_le_less)

lemma buffer_inv_Add:
  assumes "buffer_inv h b"
  shows "buffer_inv h (snd (Add result b))"
proof (cases "sb_active b \<and> sb_in_report b \<and> \<not> DuplicateInCurrentReport b result \<and>
    \<not> SuppressedDuplicate b result \<and>
    valid_subscription_report (sb_request b) (build_report b result) \<and>
    length (pending b) < unat (sr_queue_limit (sb_request b))")
  case False
  then show ?thesis
    using assms by (auto simp: Add_def Let_def pending_def buffer_inv_active not_less add.commute)
next
  case True
  define b' where "b' = snd (Add result b)"
  define b1 where "b1 = remember b result"
  have b': "b' = (if sb_activated b then b1\<lparr>sb_ready := sb_ready b @ [build_report b result]\<rparr>
                 else b1\<lparr>sb_buffered := sb_buffered b @ [build_report b result]\<rparr>)"
    using True by (simp add: b'_def b1_def Add_def Let_def pending_def add.commute)
  have pend: "pending b' = pending b @ [build_report b result]"
    using assms by (simp add: b' b1_def pending_def buffer_inv_def)
  have same: "sb_request b' = sb_request b" "sb_generation b' = sb_generation b"
    "sb_report_id b' = sb_report_id b" "sb_established b' = sb_established b"
    "sb_activated b' = sb_activated b" "sb_activated b \<Longrightarrow> sb_buffered b' = sb_buffered b"
    "sb_event_id_cache b' = sb_event_id_cache b1"
    "sb_current_attribute_paths b' = sb_current_attribute_paths b1"
    "sb_initial_attribute_paths b' = sb_initial_attribute_paths b1"
    by (simp_all add: b' b1_def)
  have paths: "set (sb_current_attribute_paths b) \<subseteq> set (sb_current_attribute_paths b1)"
    "set (sb_initial_attribute_paths b) \<subseteq> set (sb_initial_attribute_paths b1)"
    "sr_kind (sb_request b) = SK_Attribute \<Longrightarrow> pr_path result \<in> set (sb_current_attribute_paths b1)"
    "sr_kind (sb_request b) = SK_Attribute \<Longrightarrow> \<not> sb_established b \<Longrightarrow>
       pr_path result \<in> set (sb_initial_attribute_paths b1)"
    by (auto simp: b1_def remember_def Let_def)
  have "delivery_ok (sb_request b) (h @ pending b')"
    using delivery_ok_Add [OF assms] True by (simp add: pend)
  moreover have "length (sb_event_id_cache b1) \<le> 1024"
    using assms by (simp add: b1_def buffer_inv_def remember_cache)
  moreover have "\<forall>r\<in>set (h @ pending b').
        rp_generation r \<le> sb_generation b \<and>
        (rp_generation r = sb_generation b \<longrightarrow> rp_report_id r \<le> sb_report_id b) \<and>
        (rp_generation r = sb_generation b \<and> rp_report_id r = sb_report_id b \<and>
           sr_kind (sb_request b) = SK_Attribute \<longrightarrow>
           rp_path r \<in> set (sb_current_attribute_paths b1)) \<and>
        (rp_generation r = sb_generation b \<and> rp_initial r \<and>
           sr_kind (sb_request b) = SK_Attribute \<longrightarrow>
           rp_path r \<in> set (sb_initial_attribute_paths b1))"
    using assms paths unfolding pend buffer_inv_def by (auto simp del: append_assoc)
  ultimately have "buffer_inv h b'"
    using True assms unfolding buffer_inv_def same by (simp add: same pend)
  then show ?thesis by (simp add: b'_def)
qed

lemma buffer_inv_Establish:
  assumes "buffer_inv h b"
  shows "buffer_inv h (snd (Establish i mn mx b))"
proof (cases "\<not> sb_active b \<or> sb_established b \<or> mx = 0 \<or> mn > mx")
  case True
  then show ?thesis using assms by (simp add: Establish_def buffer_inv_active)
next
  case False
  let ?f = "\<lambda>r. r\<lparr>rp_sdk_subscription_id := i, rp_min_interval_s := mn, rp_max_interval_s := mx\<rparr>"
  have "delivery_ok (sb_request b) (h @ sb_ready b @ map ?f (sb_buffered b))"
    using assms False by (intro delivery_ok_map)
      (auto simp: buffer_inv_def pending_def valid_report_renegotiated)
  then show ?thesis
    using assms False unfolding Establish_def buffer_inv_def by (auto simp: pending_def)
qed

lemma buffer_inv_PrepareRecovery:
  assumes "buffer_inv h b"
  shows "buffer_inv h (snd (PrepareRecovery gen b))"
proof (cases "\<not> sb_active b \<or> gen = 0 \<or> sb_generation b = max_u64 \<or> gen \<noteq> sb_generation b + 1")
  case True
  then show ?thesis using assms by (simp add: PrepareRecovery_def buffer_inv_active)
next
  case False
  then have more: "x \<le> gen \<and> x \<noteq> gen" if "x \<le> sb_generation b" for x
    using unat_plus_one [of "sb_generation b"] that by (auto simp: word_le_nat_alt)
  show ?thesis
    using assms False more unfolding PrepareRecovery_def buffer_inv_def
    by (auto simp: pending_def dest: delivery_ok_prefix)
qed

lemma buffer_inv_rest:
  assumes "buffer_inv h b"
  shows "buffer_inv h (EndReport b)" "buffer_inv h (Activate b)" "buffer_inv h (Cancel_buffer b)"
    "buffer_inv (h @ sb_ready b) (snd (TakeReady b))"
  using assms
  by (auto simp: buffer_inv_def EndReport_def Activate_def Cancel_buffer_def TakeReady_def
      pending_def dest: delivery_ok_prefix)

lemmas buffer_inv_steps =
  buffer_inv_BeginReport buffer_inv_Add buffer_inv_Establish buffer_inv_PrepareRecovery
  buffer_inv_rest

lemma fst_TakeReady [simp]: "fst (TakeReady b) = sb_ready b"
  by (simp add: TakeReady_def)

lemma buffer_step_inv:
  "buffer_inv h b \<Longrightarrow>
     buffer_inv (h @ snd (fst (buffer_step op b))) (snd (buffer_step op b))"
  by (cases op) (simp_all add: Let_def case_prod_beta buffer_inv_steps)

lemma buffer_step_request: "sb_request (snd (buffer_step op b)) = sb_request b"
  by (cases op)
     (simp_all add: Let_def case_prod_beta BeginReport_def Add_def EndReport_def Establish_def
       PrepareRecovery_def Activate_def Cancel_buffer_def TakeReady_def)

text \<open>The buffer with its history is a machine; a delivered batch extends a correct history.\<close>

definition history_step ::
    "buffer_op \<Rightarrow> SubscriptionReport list \<times> SubscriptionBuffer \<Rightarrow>
      SubscriptionReport list \<times> SubscriptionReport list \<times> SubscriptionBuffer" where
  "history_step op s =
     (let (out, b) = buffer_step op (snd s) in (snd out, fst s @ snd out, b))"

lemma run_history_step:
  "run_ops history_step (h, b) ops =
     (map snd (fst (run_ops buffer_step b ops)),
      h @ recorded (fst (run_ops buffer_step b ops)), snd (run_ops buffer_step b ops))"
  by (induction ops arbitrary: h b)
     (simp_all add: history_step_def Let_def case_prod_beta)

interpretation buffer_machine: machine history_step
  "\<lambda>s. buffer_inv (fst s) (snd s) \<and> sb_request (snd s) = q"
  "\<lambda>s op rs. delivery_ok q (fst s @ rs)"
  for q
proof unfold_locales
  fix s :: "SubscriptionReport list \<times> SubscriptionBuffer" and op
  assume *: "buffer_inv (fst s) (snd s) \<and> sb_request (snd s) = q"
  show inv: "buffer_inv (fst (snd (history_step op s))) (snd (snd (history_step op s))) \<and>
      sb_request (snd (snd (history_step op s))) = q"
    using * buffer_step_inv [of "fst s" "snd s" op] buffer_step_request [of op "snd s"]
    by (simp add: history_step_def case_prod_beta)
  then have "delivery_ok q (fst (snd (history_step op s)))"
    by (auto simp: buffer_inv_def dest: delivery_ok_prefix)
  then show "delivery_ok q (fst s @ fst (history_step op s))"
    by (simp add: history_step_def case_prod_beta)
qed

lemma buffer_run_inv:
  assumes "buffer_inv [] b"
  shows "buffer_inv (recorded (fst (run_ops buffer_step b ops))) (snd (run_ops buffer_step b ops)) \<and>
    sb_request (snd (run_ops buffer_step b ops)) = sb_request b"
  using buffer_machine.run_inv [where s = "([], b)" and q = "sb_request b" and ops = ops] assms
  by (simp add: run_history_step)

section \<open>Closed buffers and event identities\<close>

lemma inactive_step:
  assumes "\<not> sb_active b"
  shows "\<not> sb_active (snd (buffer_step op b)) \<and>
    (snd (fst (buffer_step op b)) = [] \<and> sb_ready (snd (buffer_step op b)) \<in> {sb_ready b, []} \<or>
     snd (fst (buffer_step op b)) = sb_ready b \<and> sb_ready (snd (buffer_step op b)) = [])"
  using assms
  by (cases op)
     (simp_all add: BeginReport_def Add_def EndReport_def Establish_def
       PrepareRecovery_def Activate_def Cancel_buffer_def TakeReady_def)

definition is_add :: "buffer_op \<Rightarrow> bool" where
  "is_add op \<longleftrightarrow> (\<exists>result. op = B_Add result)"

text \<open>As long as the cache has not overflowed it holds the identity of every event accepted.\<close>

definition events_inv :: "SubscriptionReport list \<Rightarrow> SubscriptionBuffer \<Rightarrow> bool" where
  "events_inv h b \<longleftrightarrow>
     rp_event_id ` set (h @ pending b) \<subseteq> set (sb_event_id_cache b) \<and>
     distinct (map rp_event_id (h @ pending b))"

lemma events_inv_prefix:
  "events_inv h b \<Longrightarrow> sb_event_id_cache b' = sb_event_id_cache b \<Longrightarrow>
     h' @ pending b' = h @ pending b \<or> h' @ pending b' = h \<Longrightarrow> events_inv h' b'"
  unfolding events_inv_def by (elim disjE) (auto simp del: set_append map_append, auto)

lemma events_inv_Add:
  assumes inv: "buffer_inv h b" "events_inv h b" "sr_kind (sb_request b) = SK_Event"
    and room: "length (sb_event_id_cache b) < 1024"
  shows "events_inv h (snd (Add result b)) \<and>
    length (sb_event_id_cache (snd (Add result b))) \<le> Suc (length (sb_event_id_cache b))"
proof (cases "sb_active b \<and> sb_in_report b \<and> \<not> DuplicateInCurrentReport b result \<and>
    \<not> SuppressedDuplicate b result \<and>
    valid_subscription_report (sb_request b) (build_report b result) \<and>
    length (pending b) < unat (sr_queue_limit (sb_request b))")
  case False
  then show ?thesis
    using inv(2) by (auto simp: Add_def Let_def pending_def events_inv_def add.commute)
next
  case True
  obtain e where e: "pr_event result = Some e"
    using True inv(3) by (auto simp: valid_subscription_report_def split: if_splits)
  have "(pr_path result, ed_event_number e) \<notin> set (sb_event_id_cache b)"
    using True inv(3) e
    by (auto simp: SuppressedDuplicate_def event_seen_def list_ex_iff SamePath_iff_eq)
  then show ?thesis
    using True inv e room
    by (auto simp: Add_def Let_def pending_def add.commute remember_def events_inv_def
        buffer_inv_def)
qed

lemma events_inv_step:
  assumes "buffer_inv h b" "events_inv h b" "sr_kind (sb_request b) = SK_Event"
    and "is_add op \<Longrightarrow> length (sb_event_id_cache b) < 1024"
  shows "events_inv (h @ snd (fst (buffer_step op b))) (snd (buffer_step op b)) \<and>
    length (sb_event_id_cache (snd (buffer_step op b)))
      \<le> length (sb_event_id_cache b) + (if is_add op then 1 else 0)"
proof (cases op)
  case (B_Add result)
  then show ?thesis
    using events_inv_Add [OF assms(1-3)] assms(4) by (simp add: is_add_def case_prod_beta)
next
  case (B_Establish i mn mx)
  then show ?thesis
    using assms(2)
    by (auto simp: is_add_def Establish_def events_inv_def pending_def image_Un image_image comp_def)
qed (use assms(2) in \<open>auto simp: is_add_def BeginReport_def EndReport_def PrepareRecovery_def
  Activate_def Cancel_buffer_def TakeReady_def pending_def case_prod_beta
  elim!: events_inv_prefix\<close>)

lemma events_inv_run:
  assumes "buffer_inv h b" "events_inv h b" "sr_kind (sb_request b) = SK_Event"
    and "length (sb_event_id_cache b) + length (filter is_add ops) \<le> 1024"
  shows "distinct (map rp_event_id (h @ recorded (fst (run_ops buffer_step b ops))))"
  using assms
proof (induction ops arbitrary: h b)
  case Nil
  then show ?case by (simp add: events_inv_def)
next
  case (Cons op ops)
  let ?o = "snd (fst (buffer_step op b))" and ?b = "snd (buffer_step op b)"
  have st: "events_inv (h @ ?o) ?b \<and>
    length (sb_event_id_cache ?b) \<le> length (sb_event_id_cache b) + (if is_add op then 1 else 0)"
    using Cons.prems by (intro events_inv_step) (auto split: if_splits)
  have "distinct (map rp_event_id ((h @ ?o) @ recorded (fst (run_ops buffer_step ?b ops))))"
    using Cons.prems st
    by (intro Cons.IH) (auto simp: buffer_step_inv buffer_step_request split: if_splits)
  then show ?case by (simp add: case_prod_beta Let_def)
qed

section \<open>Recovery windows\<close>

definition recovery_inv :: "SubscriptionRecovery \<Rightarrow> bool" where
  "recovery_inv r \<longleftrightarrow> rc_attempts r \<le> 5 \<and> 0 < rc_generation r"

definition decision_ok :: "SubscriptionRecovery \<Rightarrow> recovery_op \<Rightarrow> Decision option \<Rightarrow> bool" where
  "decision_ok r op out \<longleftrightarrow>
     (case out of
        None \<Rightarrow> True
      | Some d \<Rightarrow>
          rc_generation r \<le> dc_generation d \<and>
          (dc_action d = RA_Disabled \<longleftrightarrow> \<not> rc_enabled r) \<and>
          (dc_action d = RA_Retry \<longrightarrow>
             unat (dc_generation d) = unat (rc_generation r) + (if rc_recovering r then 0 else 1) \<and>
             unat (dc_attempt d) = (if rc_recovering r then unat (rc_attempts r) else 0) + 1 \<and>
             dc_attempt d \<le> 5 \<and>
             (\<exists>now. op = R_Next now \<and>
               unat (dc_remaining_ms d) =
                 60000 - (if rc_recovering r then unat now - unat (rc_started_ms r) else 0) \<and>
               0 < dc_remaining_ms d)))"

lemma attempts_plus_one: "(a :: u8) < 5 \<Longrightarrow> unat (a + 1) = unat a + 1"
  by (simp add: unat_word_ariths word_less_nat_alt)

lemma remaining_ms_exact:
  fixes e :: u64
  assumes "e < 60000"
  shows "unat (ucast ((60000 :: u64) - e) :: u32) = 60000 - unat e"
proof -
  have "unat ((60000 :: u64) - e) = 60000 - unat e"
    using assms by (simp add: unat_sub order_less_imp_le)
  then show ?thesis by (simp add: unat_ucast_u64_u32)
qed

lemma Next_recovery_inv: "recovery_inv r \<Longrightarrow> recovery_inv (snd (Next_recovery now r))"
  using unat_plus_one [of "rc_generation r"] attempts_plus_one [of "rc_attempts r"]
    attempts_plus_one [of 0]
  by (auto simp: recovery_inv_def Next_recovery_def Let_def kMaximumAttempts_def Decision.defs
      word_le_nat_alt word_less_nat_alt)

lemma Next_recovery_decision:
  assumes "recovery_inv r"
  shows "decision_ok r (R_Next now) (Some (fst (Next_recovery now r)))"
proof -
  have g: "rc_generation r \<noteq> max_u64 \<Longrightarrow> unat (rc_generation r + 1) = unat (rc_generation r) + 1"
    by (rule unat_plus_one)
  have a: "\<not> 5 \<le> rc_attempts r \<Longrightarrow> unat (rc_attempts r + 1) = unat (rc_attempts r) + 1"
    by (rule attempts_plus_one) simp
  have e: "rc_started_ms r \<le> now \<Longrightarrow> unat (now - rc_started_ms r) = unat now - unat (rc_started_ms r)"
    by (rule unat_sub)
  have m: "\<not> 60000 \<le> now - rc_started_ms r \<Longrightarrow>
      unat (ucast ((60000 :: u64) - (now - rc_started_ms r)) :: u32) = 60000 - unat (now - rc_started_ms r)"
    by (rule remaining_ms_exact) simp
  show ?thesis
    using assms g a e m unfolding recovery_inv_def decision_ok_def
    by (auto simp: Next_recovery_def Let_def Decision.defs kMaximumAttempts_def
        kMaximumDurationMs_def word_le_nat_alt word_less_nat_alt)
qed

interpretation recovery_machine: machine recovery_step recovery_inv decision_ok
proof unfold_locales
  fix r op
  assume "recovery_inv r"
  then show "recovery_inv (snd (recovery_step op r))"
    by (cases op)
       (simp_all add: case_prod_beta Next_recovery_inv Established_recovery_def Cancel_recovery_def
         recovery_inv_def [of "_ \<lparr>rc_recovering := _, rc_started_ms := _, rc_attempts := _\<rparr>"],
        simp_all add: recovery_inv_def)
  show "decision_ok r op (fst (recovery_step op r))"
    using \<open>recovery_inv r\<close>
    by (cases op) (simp_all add: case_prod_beta Next_recovery_decision, simp_all add: decision_ok_def)
qed

definition retries :: "Decision option list \<Rightarrow> nat" where
  "retries outs =
     length (filter (\<lambda>out. case out of None \<Rightarrow> False | Some d \<Rightarrow> dc_action d = RA_Retry) outs)"

lemma retries_window:
  "recovery_inv r \<Longrightarrow>
     retries (fst (run_ops recovery_step r (map R_Next ts))) +
       (if rc_recovering r then unat (rc_attempts r) else 0) \<le> 5"
proof (induction ts arbitrary: r)
  case Nil
  then show ?case by (simp add: retries_def recovery_inv_def word_le_nat_alt)
next
  case (Cons t ts)
  let ?r = "snd (Next_recovery t r)" and ?d = "fst (Next_recovery t r)"
  have IH: "retries (fst (run_ops recovery_step ?r (map R_Next ts))) +
       (if rc_recovering ?r then unat (rc_attempts ?r) else 0) \<le> 5"
    by (rule Cons.IH) (rule Next_recovery_inv [OF Cons.prems])
  have a: "\<not> 5 \<le> rc_attempts r \<Longrightarrow> unat (rc_attempts r + 1) = unat (rc_attempts r) + 1"
    by (rule attempts_plus_one) simp
  have "(if dc_action ?d = RA_Retry then 1 else 0) + (if rc_recovering r then unat (rc_attempts r) else 0)
      \<le> (if rc_recovering ?r then unat (rc_attempts ?r) else 0)"
    using a by (auto simp: Next_recovery_def Let_def Decision.defs kMaximumAttempts_def)
  with IH show ?case
    by (auto simp: retries_def case_prod_beta Let_def split: if_splits)
qed

section \<open>Properties\<close>

text \<open>
  Property C35. However the SDK's report callbacks, the establishment, recoveries, activation and
  cancellation are interleaved, the reports a buffer hands out over its lifetime keep the delivery
  promise: each is valid for the request, they come in the order of generation and report, one
  attribute occurs once per report and once among the initial reports of a generation.  At every
  moment at most \<open>queue_limit\<close> reports are held and at most 1024 event identities remembered.
\<close>

theorem buffer_delivery:
  "delivery_ok q (recorded (fst (run_ops buffer_step (mk_buffer q) ops))) \<and>
   length (pending (snd (run_ops buffer_step (mk_buffer q) ops))) \<le> unat (sr_queue_limit q) \<and>
   length (sb_event_id_cache (snd (run_ops buffer_step (mk_buffer q) ops))) \<le> 1024"
proof -
  have "sb_request (mk_buffer q) = q" by (simp add: mk_buffer_def)
  then show ?thesis
    using buffer_run_inv [OF buffer_inv_init [of q], of ops]
    by (auto simp: buffer_inv_def dest: delivery_ok_prefix)
qed

text \<open>
  Event subscriptions deliver no event twice, across reports and recoveries, as long
  as no more than 1024 results were added, the size of the identity cache.
\<close>

theorem buffer_events_once:
  assumes "sr_kind q = SK_Event" "length (filter is_add ops) \<le> 1024"
  shows "distinct (map rp_event_id (recorded (fst (run_ops buffer_step (mk_buffer q) ops))))"
  using events_inv_run [OF buffer_inv_init [of q], of ops] assms
  by (simp add: mk_buffer_def events_inv_def pending_def)

definition example_subscription :: SubscriptionRequest where
  "example_subscription =
     \<lparr>sr_subscription_id = replicate 32 (CHR ''a''), sr_kind = SK_Event, sr_fabric_id = 1,
      sr_node_id = 2,
      sr_paths = [\<lparr>ps_fabric_id = 1, ps_node_id = 2, ps_endpoint = Some 1,
                   ps_cluster = Some 0x39, ps_member = Some 3\<rparr>],
      sr_min_interval_s = 1, sr_max_interval_s = 60, sr_resubscribe = True, sr_queue_limit = 10,
      sr_timeout_ms = 1000\<rparr>"

definition example_event :: "u64 \<Rightarrow> PathResult" where
  "example_event n =
     (let p = \<lparr>cp_fabric_id = 1, cp_node_id = 2, cp_endpoint = 1, cp_cluster = 0x39, cp_member = 3\<rparr>
      in \<lparr>pr_path = p, pr_attribute = None,
          pr_event = Some \<lparr>ed_path = p, ed_value = Element anonymous ET_Structure 0 0 False [],
            ed_event_number = n, ed_priority = 1, ed_timestamp_kind = TS_Epoch,
            ed_timestamp_value = 5\<rparr>,
          pr_error = None\<rparr>)"

definition example_calls :: "buffer_op list" where
  "example_calls =
     [B_Begin, B_Add (example_event 7), B_End, B_Establish 9 1 30, B_Activate, B_Begin,
      B_Add (example_event 7), B_Add (example_event 8), B_End, B_Take]"

theorem buffer_events_once_witness:
  "valid_subscription_request example_subscription \<and>
   map rp_event_id (recorded (fst (run_ops buffer_step (mk_buffer example_subscription) example_calls)))
     = [(pr_path (example_event 7), 7), (pr_path (example_event 8), 8)] \<and>
   distinct (map rp_event_id
     (recorded (fst (run_ops buffer_step (mk_buffer example_subscription) example_calls))))"
proof -
  have "valid_subscription_request example_subscription" by code_simp
  moreover have "map rp_event_id
      (recorded (fst (run_ops buffer_step (mk_buffer example_subscription) example_calls)))
     = [(pr_path (example_event 7), 7), (pr_path (example_event 8), 8)]" by code_simp
  moreover have "sr_kind example_subscription = SK_Event"
    by (simp add: example_subscription_def)
  moreover have "length (filter is_add example_calls) \<le> 1024"
    by (simp add: example_calls_def)
  ultimately show ?thesis using buffer_events_once by blast
qed

text \<open>
  A buffer that was cancelled or that failed stays closed: no later call reopens it,
  and all it can still hand out is what was already ready, once.
\<close>

theorem buffer_fail_closed:
  assumes "\<not> sb_active b"
  shows "\<not> sb_active (snd (run_ops buffer_step b ops)) \<and>
    recorded (fst (run_ops buffer_step b ops)) \<in> {[], sb_ready b}"
  using assms
proof (induction ops arbitrary: b)
  case (Cons op ops)
  from inactive_step [OF Cons.prems, of op] Cons.IH [of "snd (buffer_step op b)"]
  show ?case by (auto simp: case_prod_beta Let_def)
qed simp

theorem buffer_fail_closed_witness:
  "\<not> sb_active (snd (run_ops buffer_step (Cancel_buffer (mk_buffer example_subscription)) example_calls))"
proof -
  have "\<not> sb_active (Cancel_buffer (mk_buffer example_subscription))"
    by (simp add: Cancel_buffer_def)
  then show ?thesis using buffer_fail_closed by blast
qed

text \<open>
  Re-subscription is bounded: in any history of a recovery object, however long its
  owner keeps asking without re-establishing, at most five retries are granted; and every decision
  is sound - generations never go back, a new window takes the next generation, attempts count up
  from one to at most five, and the time granted is exactly what is left of sixty seconds and
  positive.
\<close>

theorem recovery_bounded:
  "retries (fst (run_ops recovery_step
     (snd (run_ops recovery_step (mk_recovery enabled) ops)) (map R_Next ts))) \<le> 5 \<and>
   (\<forall>i<length ops. decision_ok (snd (run_ops recovery_step (mk_recovery enabled) (take i ops)))
      (ops ! i) (fst (run_ops recovery_step (mk_recovery enabled) ops) ! i))"
proof -
  have init: "recovery_inv (mk_recovery enabled)"
    by (simp add: recovery_inv_def mk_recovery_def)
  then show ?thesis
    using retries_window [OF recovery_machine.run_inv [OF init, of ops], of ts]
      recovery_machine.run_answers [OF init]
    by (auto split: if_splits)
qed

theorem recovery_bounded_witness:
  "retries (fst (run_ops recovery_step (snd (run_ops recovery_step (mk_recovery True)
      [R_Next 10, R_Established])) (map R_Next [20, 30, 40, 50, 60, 70]))) = 5 \<and>
   decision_ok (snd (run_ops recovery_step (mk_recovery True) (take 0 [R_Next 10, R_Established])))
     (R_Next 10) (fst (run_ops recovery_step (mk_recovery True) [R_Next 10, R_Established]) ! 0)"
proof -
  have "retries (fst (run_ops recovery_step (snd (run_ops recovery_step (mk_recovery True)
      [R_Next 10, R_Established])) (map R_Next [20, 30, 40, 50, 60, 70]))) = 5"
    by code_simp
  then show ?thesis
    using recovery_bounded [of True "[R_Next 10, R_Established]" "[]"] by force
qed

end
