(* ===== verification/ReportCredit.thy ===== *)
theory ReportCredit
  imports Subscription
begin

text \<open>
  The class \<open>ReportCreditManager\<close> of \<^verbatim>\<open>native/src/subscription.cpp\<close>: flow control of subscription
  reports.  A session may have 64 frames and 1 MiB outstanding, a stream 16 frames; what exceeds the
  credit waits in one bounded queue until an acknowledgement releases credit, and a retired stream's
  waiting reports are dropped before a barrier frame is sent.

  The callback \<open>transmit_\<close> is a parameter \<open>tx\<close> of the operations.  It reads and changes a world \<open>'w\<close>
  of its own (the output channel), may fail at any call, and cannot reach the manager.  The counters
  kept in \<^verbatim>\<open>std::size_t\<close> and \<^verbatim>\<open>std::uint64_t\<close> are 64-bit words.
\<close>

section \<open>Data\<close>

definition kSessionReportCredit :: nat where "kSessionReportCredit = 64"
definition kSessionByteCredit :: u64 where "kSessionByteCredit = 1048576"
definition kStreamReportCredit :: u64 where "kStreamReportCredit = 16"
definition kMaximumQueuedReports :: nat where "kMaximumQueuedReports = 64"
definition kMaximumQueuedBytes :: u64 where "kMaximumQueuedBytes = 1048576"

datatype SubmitResult = SR_Transmitted | SR_Queued | SR_StreamOverflow | SR_Invalid

type_synonym 'w transmit = "string \<Rightarrow> 'w \<Rightarrow> bool \<times> 'w"

record Stream =
  st_generation :: u64
  st_queue_limit :: u64
  st_outstanding :: u64
  st_queued :: u64
  st_last_transmitted :: u64
  st_live :: bool

record Frame =
  fr_subscription_id :: string
  fr_generation :: u64
  fr_sequence :: u64
  fr_encoded :: string
  fr_encode :: "u64 \<Rightarrow> string"
  fr_cumulative_bytes :: u64

record CreditSnapshot =
  sn_queued :: nat
  sn_frame_credit :: nat
  sn_byte_credit :: u64
  sn_queued_bytes :: u64

record ReportCreditManager =
  cm_session_generation :: string
  cm_streams :: "Stream strmap"
  cm_queued :: "Frame list"
  cm_outstanding :: "Frame list"
  cm_next_sequence :: u64
  cm_cumulative_transmitted_bytes :: u64
  cm_acknowledged_sequence :: u64
  cm_acknowledged_bytes :: u64
  cm_queued_bytes :: u64
  cm_outstanding_bytes :: u64

definition mk_manager :: "string \<Rightarrow> ReportCreditManager" where
  "mk_manager session =
     \<lparr>cm_session_generation = session, cm_streams = [], cm_queued = [], cm_outstanding = [],
      cm_next_sequence = 1, cm_cumulative_transmitted_bytes = 0, cm_acknowledged_sequence = 0,
      cm_acknowledged_bytes = 0, cm_queued_bytes = 0, cm_outstanding_bytes = 0\<rparr>"

section \<open>Operations\<close>

definition next_report_byte_count :: "u64 \<Rightarrow> nat \<Rightarrow> u64 option" where
  "next_report_byte_count current encoded_bytes =
     (if encoded_bytes > unat (max_u64 - current) then None
      else Some (current + of_nat encoded_bytes))"

definition snapshot :: "ReportCreditManager \<Rightarrow> CreditSnapshot" where
  "snapshot m =
     \<lparr>sn_queued = length (cm_queued m),
      sn_frame_credit = kSessionReportCredit - length (cm_outstanding m),
      sn_byte_credit = kSessionByteCredit - cm_outstanding_bytes m,
      sn_queued_bytes = cm_queued_bytes m\<rparr>"

text \<open>\<open>std::to_string\<close> of an unsigned number.\<close>

definition digit_char :: "nat \<Rightarrow> char" where
  "digit_char d = char_of (48 + d)"

fun to_string :: "nat \<Rightarrow> string" where
  "to_string n = (if n < 10 then [digit_char n] else to_string (n div 10) @ [digit_char (n mod 10)])"

declare to_string.simps [simp del]

definition Key :: "string \<Rightarrow> u64 \<Rightarrow> string" where
  "Key subscription_id gen = subscription_id @ '':'' @ to_string (unat gen)"

definition AddStream ::
    "string \<Rightarrow> u64 \<Rightarrow> u64 \<Rightarrow> ReportCreditManager \<Rightarrow> bool \<times> ReportCreditManager" where
  "AddStream subscription_id gen queue_limit m =
     (let key = Key subscription_id gen;
          live_streams = length (filter (\<lambda>e. st_live (snd e)) (cm_streams m))
      in if subscription_id = [] \<or> gen = 0 \<or> queue_limit = 0 \<or> queue_limit > 10000 \<or>
            live_streams \<ge> 64 \<or> length (cm_streams m) \<ge> 128 \<or> map_of (cm_streams m) key \<noteq> None
         then (False, m)
         else (True, m\<lparr>cm_streams := AList.update key
                 \<lparr>st_generation = gen, st_queue_limit = queue_limit, st_outstanding = 0,
                  st_queued = 0, st_last_transmitted = 0, st_live = True\<rparr> (cm_streams m)\<rparr>))"

definition CanTransmit :: "ReportCreditManager \<Rightarrow> Stream \<Rightarrow> nat \<Rightarrow> bool" where
  "CanTransmit m s bytes \<longleftrightarrow>
     length (cm_outstanding m) < kSessionReportCredit \<and>
     cm_outstanding_bytes m \<le> kSessionByteCredit \<and>
     bytes \<le> unat (kSessionByteCredit - cm_outstanding_bytes m) \<and>
     st_outstanding s < min kStreamReportCredit (st_queue_limit s)"

definition TransmitFrame ::
    "'w transmit \<Rightarrow> Frame \<Rightarrow> ReportCreditManager \<times> 'w \<Rightarrow> bool \<times> ReportCreditManager \<times> 'w" where
  "TransmitFrame tx frame = (\<lambda>(m, w).
     let key = Key (fr_subscription_id frame) (fr_generation frame)
     in case map_of (cm_streams m) key of
       None \<Rightarrow> (False, m, w)
     | Some s \<Rightarrow>
         if \<not> st_live s \<or> cm_next_sequence m = max_u64 then (False, m, w)
         else
           let f1 = frame\<lparr>fr_sequence := cm_next_sequence m,
                          fr_encoded := fr_encode frame (cm_next_sequence m)\<rparr>
           in if fr_encoded f1 = [] \<or> length (fr_encoded f1) \<ge> unat kSessionByteCredit
              then (False, m, w)
              else
                let bytes = length (fr_encoded f1) + 1
                in case next_report_byte_count (cm_cumulative_transmitted_bytes m) bytes of
                  None \<Rightarrow> (False, m, w)
                | Some cumulative \<Rightarrow>
                    let (sent, w') = tx (fr_encoded f1) w
                    in if \<not> sent then (False, m, w')
                       else (True,
                         m\<lparr>cm_next_sequence := cm_next_sequence m + 1,
                           cm_cumulative_transmitted_bytes := cumulative,
                           cm_outstanding_bytes := cm_outstanding_bytes m + of_nat bytes,
                           cm_streams := AList.update key
                             (s\<lparr>st_outstanding := st_outstanding s + 1,
                                st_last_transmitted := fr_sequence f1\<rparr>) (cm_streams m),
                           cm_outstanding :=
                             cm_outstanding m @ [f1\<lparr>fr_cumulative_bytes := cumulative\<rparr>]\<rparr>, w'))"

definition Submit ::
    "'w transmit \<Rightarrow> string \<Rightarrow> u64 \<Rightarrow> (u64 \<Rightarrow> string) \<Rightarrow> ReportCreditManager \<times> 'w
      \<Rightarrow> SubmitResult \<times> ReportCreditManager \<times> 'w" where
  "Submit tx subscription_id gen encode = (\<lambda>(m, w).
     let key = Key subscription_id gen
     in case map_of (cm_streams m) key of
       None \<Rightarrow> (SR_Invalid, m, w)
     | Some s \<Rightarrow>
         if \<not> st_live s \<or> cm_next_sequence m = max_u64 then (SR_Invalid, m, w)
         else
           let encoded = encode (cm_next_sequence m);
               bytes = length encoded + 1
           in if encoded = [] \<or> bytes > unat kSessionByteCredit then (SR_StreamOverflow, m, w)
              else
                let frame = \<lparr>fr_subscription_id = subscription_id, fr_generation = gen,
                             fr_sequence = cm_next_sequence m, fr_encoded = encoded,
                             fr_encode = encode, fr_cumulative_bytes = 0\<rparr>
                in if CanTransmit m s bytes \<and> cm_queued m = []
                   then let (ok, m', w') = TransmitFrame tx frame (m, w)
                        in (if ok then SR_Transmitted else SR_Invalid, m', w')
                   else
                     let waiting = frame\<lparr>fr_sequence := 0, fr_encoded := encode max_u64\<rparr>;
                         queued_bytes = length (fr_encoded waiting) + 1
                     in if length (cm_queued m) \<ge> kMaximumQueuedReports \<or>
                           cm_queued_bytes m > kMaximumQueuedBytes \<or>
                           queued_bytes > unat (kMaximumQueuedBytes - cm_queued_bytes m) \<or>
                           st_queued s \<ge> st_queue_limit s
                        then (SR_StreamOverflow, m, w)
                        else (SR_Queued,
                          m\<lparr>cm_queued_bytes := cm_queued_bytes m + of_nat queued_bytes,
                            cm_streams := AList.update key (s\<lparr>st_queued := st_queued s + 1\<rparr>)
                              (cm_streams m),
                            cm_queued := cm_queued m @ [waiting]\<rparr>, w))"

text \<open>One turn of the loop that releases the credit of an acknowledged frame.\<close>

definition release :: "Frame \<Rightarrow> ReportCreditManager \<Rightarrow> ReportCreditManager" where
  "release frame m =
     (let m1 = m\<lparr>cm_outstanding_bytes :=
                   cm_outstanding_bytes m - of_nat (length (fr_encoded frame) + 1)\<rparr>;
          key = Key (fr_subscription_id frame) (fr_generation frame)
      in case map_of (cm_streams m1) key of
           None \<Rightarrow> m1
         | Some s \<Rightarrow>
             if st_outstanding s > 0
             then let s' = s\<lparr>st_outstanding := st_outstanding s - 1\<rparr>
                  in if \<not> st_live s' \<and> st_outstanding s' = 0 \<and> st_queued s' = 0
                     then m1\<lparr>cm_streams := AList.delete key (cm_streams m1)\<rparr>
                     else m1\<lparr>cm_streams := AList.update key s' (cm_streams m1)\<rparr>
             else m1)"

fun release_loop :: "u64 \<Rightarrow> Frame list \<Rightarrow> ReportCreditManager \<Rightarrow> ReportCreditManager" where
  "release_loop report_sequence [] m = m\<lparr>cm_outstanding := []\<rparr>"
| "release_loop report_sequence (f # fs) m =
     (if fr_sequence f \<le> report_sequence
      then release_loop report_sequence fs (release f (m\<lparr>cm_outstanding := fs\<rparr>))
      else m\<lparr>cm_outstanding := f # fs\<rparr>)"

text \<open>\<open>Drain\<close> pops the head of the queue in every turn, so it ends.\<close>

definition pop_queued :: "Frame \<Rightarrow> ReportCreditManager \<Rightarrow> ReportCreditManager" where
  "pop_queued frame m =
     m\<lparr>cm_queued_bytes := cm_queued_bytes m - of_nat (length (fr_encoded frame) + 1),
       cm_queued := tl (cm_queued m)\<rparr>"

lemma TransmitFrame_queued:
  "TransmitFrame tx f (m, w) = (ok, m', w') \<Longrightarrow> cm_queued m' = cm_queued m"
  by (auto simp: TransmitFrame_def Let_def split: option.splits if_splits prod.splits)

function Drain :: "'w transmit \<Rightarrow> ReportCreditManager \<Rightarrow> 'w \<Rightarrow> bool \<times> ReportCreditManager \<times> 'w" where
  "Drain tx m w =
     (case cm_queued m of
        [] \<Rightarrow> (True, m, w)
      | f # _ \<Rightarrow>
        (let key = Key (fr_subscription_id f) (fr_generation f)
         in case map_of (cm_streams m) key of
              None \<Rightarrow> Drain tx (pop_queued f m) w
            | Some s \<Rightarrow>
                if \<not> st_live s then Drain tx (pop_queued f m) w
                else if \<not> CanTransmit m s (length (fr_encode f (cm_next_sequence m)) + 1)
                then (True, m, w)
                else
                  case TransmitFrame tx f
                    (pop_queued f (m\<lparr>cm_streams := AList.update key (s\<lparr>st_queued := st_queued s - 1\<rparr>)
                       (cm_streams m)\<rparr>), w)
                  of (ok, m', w') \<Rightarrow> if ok then Drain tx m' w' else (False, m', w')))"
  by pat_completeness auto
termination
  by (relation "measure (\<lambda>(tx, m, w). length (cm_queued m))")
     (auto dest!: TransmitFrame_queued sym [of "(_, _, _)"] simp: pop_queued_def)

declare Drain.simps [simp del]

definition Acknowledge ::
    "'w transmit \<Rightarrow> u64 \<Rightarrow> u64 \<Rightarrow> ReportCreditManager \<times> 'w \<Rightarrow> bool \<times> ReportCreditManager \<times> 'w" where
  "Acknowledge tx report_sequence acknowledged_bytes = (\<lambda>(m, w).
     if report_sequence \<le> cm_acknowledged_sequence m \<or> cm_outstanding m = [] then (False, m, w)
     else case List.find (\<lambda>f. fr_sequence f = report_sequence) (cm_outstanding m) of
       None \<Rightarrow> (False, m, w)
     | Some target \<Rightarrow>
         if fr_cumulative_bytes target \<noteq> acknowledged_bytes then (False, m, w)
         else
           let m' = release_loop report_sequence (cm_outstanding m) m
           in Drain tx (m'\<lparr>cm_acknowledged_sequence := report_sequence,
                           cm_acknowledged_bytes := acknowledged_bytes\<rparr>) w)"

text \<open>The loop of \<open>Retire\<close> over the queue; the first list is what it has kept.\<close>

fun retire_loop ::
    "string \<Rightarrow> u64 \<Rightarrow> Frame list \<Rightarrow> Frame list \<Rightarrow> ReportCreditManager \<Rightarrow> ReportCreditManager" where
  "retire_loop subscription_id gen kept [] m = m\<lparr>cm_queued := kept\<rparr>"
| "retire_loop subscription_id gen kept (f # fs) m =
     (if fr_subscription_id f = subscription_id \<and> fr_generation f = gen
      then let key = Key subscription_id gen; s = the (map_of (cm_streams m) key)
           in retire_loop subscription_id gen kept fs
                (m\<lparr>cm_queued_bytes := cm_queued_bytes m - of_nat (length (fr_encoded f) + 1),
                   cm_streams := AList.update key (s\<lparr>st_queued := st_queued s - 1\<rparr>) (cm_streams m)\<rparr>)
      else retire_loop subscription_id gen (kept @ [f]) fs m)"

definition Retire ::
    "'w transmit \<Rightarrow> string \<Rightarrow> u64 \<Rightarrow> string \<Rightarrow> ReportCreditManager \<times> 'w
      \<Rightarrow> bool \<times> ReportCreditManager \<times> 'w" where
  "Retire tx subscription_id gen barrier = (\<lambda>(m, w).
     let key = Key subscription_id gen
     in case map_of (cm_streams m) key of
       None \<Rightarrow> (False, m, w)
     | Some s \<Rightarrow>
         if \<not> st_live s then (False, m, w)
         else
           let m1 = retire_loop subscription_id gen [] (cm_queued m)
                      (m\<lparr>cm_streams := AList.update key (s\<lparr>st_live := False\<rparr>) (cm_streams m)\<rparr>);
               (sent, w1) = tx barrier w
           in if \<not> sent then (False, m1, w1)
              else Drain tx
                (if st_outstanding (the (map_of (cm_streams m1) key)) = 0
                 then m1\<lparr>cm_streams := AList.delete key (cm_streams m1)\<rparr> else m1) w1)"

definition BeginRecovery ::
    "'w transmit \<Rightarrow> string \<Rightarrow> u64 \<Rightarrow> u64 \<Rightarrow> u64 \<Rightarrow> string \<Rightarrow> ReportCreditManager \<times> 'w
      \<Rightarrow> bool \<times> ReportCreditManager \<times> 'w" where
  "BeginRecovery tx subscription_id previous_generation next_generation queue_limit barrier =
     (\<lambda>(m, w).
       if next_generation = 0 \<or> previous_generation = next_generation \<or>
          map_of (cm_streams m) (Key subscription_id next_generation) \<noteq> None
       then (False, m, w)
       else
         let (retired, m1, w1) = Retire tx subscription_id previous_generation barrier (m, w)
         in if \<not> retired then (False, m1, w1)
            else let (ok, m2) = AddStream subscription_id next_generation queue_limit m1
                 in (ok, m2, w1))"

definition IsLive :: "string \<Rightarrow> u64 \<Rightarrow> ReportCreditManager \<Rightarrow> bool" where
  "IsLive subscription_id gen m =
     (case map_of (cm_streams m) (Key subscription_id gen) of None \<Rightarrow> False | Some s \<Rightarrow> st_live s)"

definition IsRetired :: "string \<Rightarrow> u64 \<Rightarrow> ReportCreditManager \<Rightarrow> bool" where
  "IsRetired subscription_id gen m =
     (case map_of (cm_streams m) (Key subscription_id gen) of None \<Rightarrow> False | Some s \<Rightarrow> \<not> st_live s)"

definition last_transmitted :: "string \<Rightarrow> u64 \<Rightarrow> ReportCreditManager \<Rightarrow> u64" where
  "last_transmitted subscription_id gen m =
     (case map_of (cm_streams m) (Key subscription_id gen) of
        None \<Rightarrow> 0 | Some s \<Rightarrow> st_last_transmitted s)"

text \<open>The public methods that change state, as calls of one machine.\<close>

datatype credit_op =
  C_AddStream string u64 u64
| C_BeginRecovery string u64 u64 u64 string
| C_Submit string u64 "u64 \<Rightarrow> string"
| C_Acknowledge u64 u64
| C_Retire string u64 string

datatype credit_answer = CA_Bool bool | CA_Submit SubmitResult

fun credit_step ::
    "'w transmit \<Rightarrow> credit_op \<Rightarrow> ReportCreditManager \<times> 'w \<Rightarrow> credit_answer \<times> ReportCreditManager \<times> 'w"
where
  "credit_step tx (C_AddStream i g l) (m, w) =
     (let (ok, m') = AddStream i g l m in (CA_Bool ok, m', w))"
| "credit_step tx (C_BeginRecovery i p n l b) s =
     (let (ok, s') = BeginRecovery tx i p n l b s in (CA_Bool ok, s'))"
| "credit_step tx (C_Submit i g e) s = (let (r, s') = Submit tx i g e s in (CA_Submit r, s'))"
| "credit_step tx (C_Acknowledge q b) s =
     (let (ok, s') = Acknowledge tx q b s in (CA_Bool ok, s'))"
| "credit_step tx (C_Retire i g b) s = (let (ok, s') = Retire tx i g b s in (CA_Bool ok, s'))"

section \<open>Stream keys\<close>

text \<open>Lookups stay \<open>map_of\<close>; the library's rewriting to list membership is switched off.\<close>

declare map_of_eq_Some_iff [simp del] Some_eq_map_of_iff [simp del]

lemma of_char_digit: "d < 10 \<Longrightarrow> of_char (digit_char d) = 48 + d"
  by (simp add: digit_char_def)

lemma to_string_small: "n < 10 \<Longrightarrow> to_string n = [digit_char n]"
  by (subst to_string.simps) simp

lemma to_string_step: "\<not> n < 10 \<Longrightarrow> to_string n = to_string (n div 10) @ [digit_char (n mod 10)]"
  by (subst to_string.simps) simp

lemma to_string_value: "foldl (\<lambda>a c. 10 * a + (of_char c - 48)) 0 (to_string n) = n"
proof (induction n rule: to_string.induct)
  case (1 n)
  show ?case
  proof (cases "n < 10")
    case True
    then show ?thesis by (simp add: to_string_small of_char_digit)
  next
    case False
    then show ?thesis using 1 by (simp add: to_string_step of_char_digit)
  qed
qed

lemma to_string_inject: "to_string a = to_string b \<longleftrightarrow> a = b"
  by (metis to_string_value)

lemma digit_not_colon: "d < 10 \<Longrightarrow> digit_char d \<noteq> CHR '':''"
  using of_char_digit [of d] by (auto dest!: arg_cong [where f = "of_char :: char \<Rightarrow> nat"])

lemma to_string_no_colon: "CHR '':'' \<notin> set (to_string n)"
proof (induction n rule: to_string.induct)
  case (1 n)
  show ?case
  proof (cases "n < 10")
    case True
    then show ?thesis using digit_not_colon [of n] by (simp add: to_string_small)
  next
    case False
    then show ?thesis using 1 digit_not_colon [of "n mod 10"] by (auto simp: to_string_step)
  qed
qed

lemma Key_inject: "Key i g = Key i' g' \<longleftrightarrow> i = i' \<and> g = g'"
proof
  assume eq: "Key i g = Key i' g'"
  have tw: "takeWhile (\<lambda>c. c \<noteq> CHR '':'') (rev (Key j h)) = rev (to_string (unat h))" for j h
  proof -
    have "\<forall>c\<in>set (rev (to_string (unat h))). c \<noteq> CHR '':''"
      using to_string_no_colon by auto
    then have "takeWhile (\<lambda>c. c \<noteq> CHR '':'') (rev (to_string (unat h)) @ (CHR '':'' # rev j))
        = rev (to_string (unat h)) @ takeWhile (\<lambda>c. c \<noteq> CHR '':'') (CHR '':'' # rev j)"
      by (intro takeWhile_append2) blast
    then show ?thesis by (simp add: Key_def)
  qed
  have "to_string (unat g) = to_string (unat g')" using eq tw by (metis rev_rev_ident)
  then have "g = g'" by (simp add: to_string_inject word_unat_eq_iff)
  then show "i = i' \<and> g = g'" using eq by (simp add: Key_def)
qed simp

section \<open>Invariant\<close>

definition frame_key :: "Frame \<Rightarrow> string" where
  "frame_key f = Key (fr_subscription_id f) (fr_generation f)"

definition frame_bytes :: "Frame \<Rightarrow> nat" where
  "frame_bytes f = length (fr_encoded f) + 1"

definition total_bytes :: "Frame list \<Rightarrow> nat" where
  "total_bytes fs = sum_list (map frame_bytes fs)"

definition on_stream :: "string \<Rightarrow> Frame list \<Rightarrow> nat" where
  "on_stream k fs = length (filter (\<lambda>f. frame_key f = k) fs)"

lemma total_bytes_simps [simp]:
  "total_bytes [] = 0" "total_bytes (f # fs) = frame_bytes f + total_bytes fs"
  "total_bytes (fs @ gs) = total_bytes fs + total_bytes gs"
  by (simp_all add: total_bytes_def)

lemma on_stream_simps [simp]:
  "on_stream k [] = 0"
  "on_stream k (f # fs) = (if frame_key f = k then 1 else 0) + on_stream k fs"
  "on_stream k (fs @ gs) = on_stream k fs + on_stream k gs"
  by (simp_all add: on_stream_def)

lemma on_stream_zero: "on_stream k fs = 0 \<longleftrightarrow> k \<notin> frame_key ` set fs"
  by (auto simp: on_stream_def filter_empty_conv)

lemma on_stream_le: "on_stream k fs \<le> length fs"
  by (simp add: on_stream_def)

text \<open>The counters of a stream agree with the queues and respect its limits.\<close>

definition stream_ok :: "Frame list \<Rightarrow> Frame list \<Rightarrow> string \<Rightarrow> Stream \<Rightarrow> bool" where
  "stream_ok out queue k s \<longleftrightarrow>
     unat (st_outstanding s) = on_stream k out \<and> unat (st_queued s) = on_stream k queue \<and>
     1 \<le> st_queue_limit s \<and> st_queue_limit s \<le> 10000 \<and>
     st_outstanding s \<le> min 16 (st_queue_limit s) \<and> st_queued s \<le> st_queue_limit s"

definition streams_inv :: "ReportCreditManager \<Rightarrow> bool" where
  "streams_inv m \<longleftrightarrow>
     distinct_keys (cm_streams m) \<and> length (cm_streams m) \<le> 128 \<and>
     length (filter (\<lambda>e. st_live (snd e)) (cm_streams m)) \<le> 64 \<and>
     (\<forall>k s. map_of (cm_streams m) k = Some s \<longrightarrow>
        stream_ok (cm_outstanding m) (cm_queued m) k s) \<and>
     (\<forall>k. on_stream k (cm_outstanding m) \<noteq> 0 \<longrightarrow> map_of (cm_streams m) k \<noteq> None) \<and>
     (\<forall>k. on_stream k (cm_queued m) \<noteq> 0 \<longrightarrow> (\<exists>s. map_of (cm_streams m) k = Some s \<and> st_live s))"

definition volume_inv :: "ReportCreditManager \<Rightarrow> bool" where
  "volume_inv m \<longleftrightarrow>
     length (cm_outstanding m) \<le> 64 \<and> length (cm_queued m) \<le> 64 \<and>
     unat (cm_outstanding_bytes m) = total_bytes (cm_outstanding m) \<and>
     total_bytes (cm_outstanding m) \<le> 1048576 \<and>
     unat (cm_queued_bytes m) = total_bytes (cm_queued m) \<and>
     total_bytes (cm_queued m) \<le> 1048576"

text \<open>
  The outstanding frames carry consecutive sequence numbers and running byte totals from the last
  acknowledged pair \<open>(a, c)\<close> up to what has been transmitted.
\<close>

fun chain :: "nat \<Rightarrow> nat \<Rightarrow> Frame list \<Rightarrow> bool" where
  "chain a c [] = True"
| "chain a c (f # fs) =
     (unat (fr_sequence f) = a + 1 \<and> unat (fr_cumulative_bytes f) = c + frame_bytes f \<and>
      fr_encoded f = fr_encode f (fr_sequence f) \<and> chain (a + 1) (c + frame_bytes f) fs)"

definition window_at :: "nat \<Rightarrow> nat \<Rightarrow> ReportCreditManager \<Rightarrow> bool" where
  "window_at a c m \<longleftrightarrow>
     chain a c (cm_outstanding m) \<and>
     unat (cm_next_sequence m) = a + length (cm_outstanding m) + 1 \<and>
     unat (cm_cumulative_transmitted_bytes m) = c + total_bytes (cm_outstanding m)"

definition credit_inv :: "ReportCreditManager \<Rightarrow> bool" where
  "credit_inv m \<longleftrightarrow>
     streams_inv m \<and> volume_inv m \<and>
     window_at (unat (cm_acknowledged_sequence m)) (unat (cm_acknowledged_bytes m)) m"

lemma chain_append:
  "chain a c (fs @ gs) \<longleftrightarrow> chain a c fs \<and> chain (a + length fs) (c + total_bytes fs) gs"
  by (induction fs arbitrary: a c) (auto simp: add.assoc)

lemma chain_nth:
  "chain a c fs \<Longrightarrow> i < length fs \<Longrightarrow>
     unat (fr_sequence (fs ! i)) = a + i + 1 \<and>
     unat (fr_cumulative_bytes (fs ! i)) = c + total_bytes (take (Suc i) fs)"
proof (induction fs arbitrary: a c i)
  case (Cons f fs)
  then show ?case by (cases i) auto
qed simp

text \<open>Replacing the entry of one stream.\<close>

lemma streams_inv_change:
  assumes inv: "streams_inv m" and s: "map_of (cm_streams m) k = Some s"
    and m': "cm_streams m' = AList.update k s' (cm_streams m)"
    and live: "st_live s' \<longrightarrow> st_live s"
    and ok: "stream_ok (cm_outstanding m') (cm_queued m') k s'"
    and other: "\<And>j. j \<noteq> k \<Longrightarrow> on_stream j (cm_outstanding m') = on_stream j (cm_outstanding m)"
      "\<And>j. j \<noteq> k \<Longrightarrow> on_stream j (cm_queued m') = on_stream j (cm_queued m)"
    and dead: "\<not> st_live s' \<Longrightarrow> on_stream k (cm_queued m') = 0"
  shows "streams_inv m'"
proof -
  have "map_of (cm_streams m') j \<noteq> None" if "on_stream j (cm_outstanding m') \<noteq> 0" for j
    using that inv other(1) [of j] unfolding m' streams_inv_def by (cases "j = k") simp_all
  moreover have "\<exists>s. map_of (cm_streams m') j = Some s \<and> st_live s"
    if "on_stream j (cm_queued m') \<noteq> 0" for j
    using that inv other(2) [of j] dead unfolding m' streams_inv_def by (cases "j = k") auto
  moreover have "stream_ok (cm_outstanding m') (cm_queued m') j t"
    if "map_of (cm_streams m') j = Some t" for j t
    using that inv other [of j] ok unfolding m' streams_inv_def stream_ok_def
    by (cases "j = k") simp_all
  moreover have "length (filter (\<lambda>e. st_live (snd e)) (cm_streams m')) \<le> 64"
    using filter_update_present [of "cm_streams m" k s st_live s'] inv s live
    unfolding m' streams_inv_def by (simp split: if_splits)
  moreover have "distinct_keys (cm_streams m')" "length (cm_streams m') \<le> 128"
    using inv s unfolding m' streams_inv_def by (simp_all add: length_update_present)
  ultimately show ?thesis unfolding streams_inv_def by blast
qed

text \<open>Removing a stream that has nothing outstanding and nothing queued.\<close>

lemma streams_inv_remove:
  assumes inv: "streams_inv m" and m': "cm_streams m' = AList.delete k (cm_streams m)"
    and zero: "on_stream k (cm_outstanding m') = 0" "on_stream k (cm_queued m') = 0"
    and other: "\<And>j. j \<noteq> k \<Longrightarrow> on_stream j (cm_outstanding m') = on_stream j (cm_outstanding m)"
      "\<And>j. j \<noteq> k \<Longrightarrow> on_stream j (cm_queued m') = on_stream j (cm_queued m)"
  shows "streams_inv m'"
proof -
  have "map_of (cm_streams m') j \<noteq> None" if "on_stream j (cm_outstanding m') \<noteq> 0" for j
    using that inv other(1) [of j] zero unfolding m' streams_inv_def by (cases "j = k") simp_all
  moreover have "\<exists>s. map_of (cm_streams m') j = Some s \<and> st_live s"
    if "on_stream j (cm_queued m') \<noteq> 0" for j
    using that inv other(2) [of j] zero unfolding m' streams_inv_def by (cases "j = k") auto
  moreover have "stream_ok (cm_outstanding m') (cm_queued m') j t"
    if "map_of (cm_streams m') j = Some t" for j t
    using that inv other [of j] unfolding m' streams_inv_def stream_ok_def
    by (cases "j = k") simp_all
  moreover have "length (filter (\<lambda>e. st_live (snd e)) (cm_streams m')) \<le> 64"
    "length (cm_streams m') \<le> 128" "distinct_keys (cm_streams m')"
    using inv length_delete_le [of k "cm_streams m"]
      filter_delete_le [of "\<lambda>e. st_live (snd e)" k "cm_streams m"]
    unfolding m' streams_inv_def by simp_all
  ultimately show ?thesis unfolding streams_inv_def by blast
qed

section \<open>Transmitting\<close>

text \<open>The state after frame \<open>f\<close> of stream \<open>s\<close> has been written.\<close>

definition accept :: "Frame \<Rightarrow> Stream \<Rightarrow> u64 \<Rightarrow> ReportCreditManager \<Rightarrow> ReportCreditManager" where
  "accept f s cumulative m =
     m\<lparr>cm_next_sequence := cm_next_sequence m + 1, cm_cumulative_transmitted_bytes := cumulative,
       cm_outstanding_bytes := cm_outstanding_bytes m + of_nat (frame_bytes f),
       cm_streams := AList.update (frame_key f)
         (s\<lparr>st_outstanding := st_outstanding s + 1, st_last_transmitted := fr_sequence f\<rparr>)
         (cm_streams m),
       cm_outstanding := cm_outstanding m @ [f\<lparr>fr_cumulative_bytes := cumulative\<rparr>]\<rparr>"

lemma next_report_byte_count_Some:
  "next_report_byte_count current n = Some v \<longleftrightarrow>
     unat current + n < 2 ^ 64 \<and> v = current + of_nat n"
proof -
  have "unat (max_u64 - current) = 2 ^ 64 - 1 - unat current"
    by (subst unat_sub) (simp_all only: unat_max_u64 word_order.extremum)
  then show ?thesis
    using unat_u64_less [of current] by (auto simp: next_report_byte_count_def)
qed

lemma TransmitFrame_cases:
  assumes "TransmitFrame tx f (m, w) = (ok, m', w')"
  obtains (rejected) "\<not> ok" "m' = m"
  | (sent) s f1 cumulative where "ok" "map_of (cm_streams m) (frame_key f) = Some s" "st_live s"
      "cm_next_sequence m \<noteq> max_u64"
      "f1 = f\<lparr>fr_sequence := cm_next_sequence m, fr_encoded := fr_encode f (cm_next_sequence m)\<rparr>"
      "fr_encode f (cm_next_sequence m) \<noteq> []"
      "unat cumulative = unat (cm_cumulative_transmitted_bytes m) + frame_bytes f1"
      "m' = accept f1 s cumulative m"
proof (cases ok)
  case False
  with assms have "m' = m"
    by (auto simp: TransmitFrame_def Let_def split: option.splits if_splits prod.splits)
  with False show thesis by (rule rejected)
next
  case True
  let ?f = "f\<lparr>fr_sequence := cm_next_sequence m, fr_encoded := fr_encode f (cm_next_sequence m)\<rparr>"
  from True assms obtain s cumulative where
    s: "map_of (cm_streams m) (frame_key f) = Some s" "st_live s" "cm_next_sequence m \<noteq> max_u64"
      "fr_encode f (cm_next_sequence m) \<noteq> []"
    and c: "next_report_byte_count (cm_cumulative_transmitted_bytes m) (frame_bytes ?f) = Some cumulative"
    and m': "m' = accept ?f s cumulative m"
    by (auto simp: TransmitFrame_def accept_def frame_key_def frame_bytes_def Let_def
        split: option.splits if_splits prod.splits)
  have "unat cumulative = unat (cm_cumulative_transmitted_bytes m) + frame_bytes ?f"
    using c unat_add_of_nat by (auto simp: next_report_byte_count_Some)
  then show thesis using True s m' by (intro sent) simp_all
qed

lemma CanTransmit_nat:
  assumes "volume_inv m"
  shows "CanTransmit m s n \<longleftrightarrow>
    length (cm_outstanding m) < 64 \<and> total_bytes (cm_outstanding m) + n \<le> 1048576 \<and>
    st_outstanding s < min 16 (st_queue_limit s)"
proof -
  have "cm_outstanding_bytes m \<le> kSessionByteCredit"
    using assms by (simp add: volume_inv_def kSessionByteCredit_def word_le_nat_alt)
  moreover from this have
    "unat (kSessionByteCredit - cm_outstanding_bytes m) = 1048576 - total_bytes (cm_outstanding m)"
    using assms by (simp add: unat_sub volume_inv_def kSessionByteCredit_def)
  ultimately show ?thesis
    using assms by (auto simp: CanTransmit_def kSessionReportCredit_def kStreamReportCredit_def
        volume_inv_def)
qed

lemma frame_key_update [simp]:
  "frame_key (f\<lparr>fr_sequence := a\<rparr>) = frame_key f" "frame_key (f\<lparr>fr_encoded := b\<rparr>) = frame_key f"
  "frame_key (f\<lparr>fr_cumulative_bytes := c\<rparr>) = frame_key f"
  by (simp_all add: frame_key_def)

lemma frame_bytes_update [simp]:
  "frame_bytes (f\<lparr>fr_cumulative_bytes := c\<rparr>) = frame_bytes f"
  "frame_bytes (f\<lparr>fr_sequence := a\<rparr>) = frame_bytes f"
  "frame_bytes (f\<lparr>fr_encoded := b\<rparr>) = length b + 1"
  by (simp_all add: frame_bytes_def)

lemma accept_inv:
  assumes inv: "credit_inv m" and s: "map_of (cm_streams m) (frame_key f) = Some s" "st_live s"
    and can: "CanTransmit m s (frame_bytes f)" and nxt: "cm_next_sequence m \<noteq> max_u64"
    and f: "fr_sequence f = cm_next_sequence m" "fr_encoded f = fr_encode f (cm_next_sequence m)"
    and cum: "unat cumulative = unat (cm_cumulative_transmitted_bytes m) + frame_bytes f"
  shows "credit_inv (accept f s cumulative m)"
proof -
  have vol: "volume_inv m" and str: "streams_inv m"
    and win: "window_at (unat (cm_acknowledged_sequence m)) (unat (cm_acknowledged_bytes m)) m"
    using inv by (simp_all add: credit_inv_def)
  note room = can [unfolded CanTransmit_nat [OF vol]]
  have sok: "stream_ok (cm_outstanding m) (cm_queued m) (frame_key f) s"
    using str s by (simp add: streams_inv_def)
  have one: "unat (st_outstanding s + 1) = unat (st_outstanding s) + 1"
  proof (rule unat_plus_one)
    have "st_outstanding s < 16" using room by simp
    then show "st_outstanding s \<noteq> max_u64" by (auto simp: u64_not_max_iff word_less_nat_alt)
  qed
  have "streams_inv (accept f s cumulative m)"
  proof (rule streams_inv_change [OF str s(1)])
    show "stream_ok (cm_outstanding (accept f s cumulative m)) (cm_queued (accept f s cumulative m))
        (frame_key f) (s\<lparr>st_outstanding := st_outstanding s + 1, st_last_transmitted := fr_sequence f\<rparr>)"
      using sok one room
      by (auto simp: accept_def stream_ok_def word_le_nat_alt word_less_nat_alt min_def)
  qed (use s in \<open>simp_all add: accept_def\<close>)
  moreover have "volume_inv (accept f s cumulative m)"
    using vol room unat_add_of_nat [of "cm_outstanding_bytes m" "frame_bytes f"]
    by (simp add: volume_inv_def accept_def)
  moreover have "window_at (unat (cm_acknowledged_sequence m)) (unat (cm_acknowledged_bytes m))
      (accept f s cumulative m)"
    using win f cum unat_plus_one [OF nxt] by (simp add: window_at_def accept_def chain_append)
  ultimately show ?thesis by (simp add: credit_inv_def accept_def)
qed

lemma TransmitFrame_inv:
  assumes "credit_inv m" "map_of (cm_streams m) (frame_key f) = Some s"
    and "CanTransmit m s (length (fr_encode f (cm_next_sequence m)) + 1)"
    and "TransmitFrame tx f (m, w) = (ok, m', w')"
  shows "credit_inv m'"
  using assms(4)
proof (cases rule: TransmitFrame_cases)
  case (sent t f1 cumulative)
  then show ?thesis using assms(1-3) by (auto intro!: accept_inv)
qed (use assms(1) in simp)

lemma credit_inv_enqueue:
  assumes inv: "credit_inv m" and s: "map_of (cm_streams m) (frame_key f) = Some s" "st_live s"
    and room: "length (cm_queued m) < 64" "total_bytes (cm_queued m) + frame_bytes f \<le> 1048576"
      "st_queued s < st_queue_limit s"
    and m': "m' = m\<lparr>cm_queued_bytes := cm_queued_bytes m + of_nat (frame_bytes f),
      cm_streams := AList.update (frame_key f) (s\<lparr>st_queued := st_queued s + 1\<rparr>) (cm_streams m),
      cm_queued := cm_queued m @ [f]\<rparr>"
  shows "credit_inv m'"
proof -
  have vol: "volume_inv m" and str: "streams_inv m"
    using inv by (simp_all add: credit_inv_def)
  have sok: "stream_ok (cm_outstanding m) (cm_queued m) (frame_key f) s"
    using str s by (simp add: streams_inv_def)
  have one: "unat (st_queued s + 1) = unat (st_queued s) + 1"
    using room(3) sok by (intro unat_plus_one) (auto simp: u64_not_max_iff word_less_nat_alt
        word_le_nat_alt stream_ok_def)
  have "streams_inv m'"
  proof (rule streams_inv_change [OF str s(1)])
    show "stream_ok (cm_outstanding m') (cm_queued m') (frame_key f)
        (s\<lparr>st_queued := st_queued s + 1\<rparr>)"
      using sok one room(3)
      by (auto simp: m' stream_ok_def word_le_nat_alt word_less_nat_alt)
  qed (use s in \<open>simp_all add: m'\<close>)
  moreover have "volume_inv m'"
    using vol room unat_add_of_nat [of "cm_queued_bytes m" "frame_bytes f"]
    by (simp add: volume_inv_def m')
  ultimately show ?thesis using inv by (simp add: credit_inv_def window_at_def m')
qed

lemma queue_room_nat:
  assumes "volume_inv m" "\<not> n > unat (kMaximumQueuedBytes - cm_queued_bytes m)"
  shows "total_bytes (cm_queued m) + n \<le> 1048576"
proof -
  have "unat (kMaximumQueuedBytes - cm_queued_bytes m) = 1048576 - total_bytes (cm_queued m)"
    using assms(1)
    by (subst unat_sub) (simp_all add: volume_inv_def kMaximumQueuedBytes_def word_le_nat_alt)
  with assms show ?thesis unfolding volume_inv_def by linarith
qed

lemma Submit_inv:
  assumes inv: "credit_inv m"
  shows "credit_inv (fst (snd (Submit tx i g e (m, w))))"
proof (cases "\<exists>s. map_of (cm_streams m) (Key i g) = Some s \<and> st_live s \<and>
    cm_next_sequence m \<noteq> max_u64 \<and> e (cm_next_sequence m) \<noteq> [] \<and>
    \<not> Suc (length (e (cm_next_sequence m))) > unat kSessionByteCredit")
  case False
  then show ?thesis using inv by (auto simp: Submit_def Let_def split: option.splits)
next
  case True
  then obtain s where s: "map_of (cm_streams m) (Key i g) = Some s" "st_live s"
      "cm_next_sequence m \<noteq> max_u64" "e (cm_next_sequence m) \<noteq> []"
      "\<not> Suc (length (e (cm_next_sequence m))) > unat kSessionByteCredit" by blast
  let ?f = "\<lparr>fr_subscription_id = i, fr_generation = g, fr_sequence = cm_next_sequence m,
    fr_encoded = e (cm_next_sequence m), fr_encode = e, fr_cumulative_bytes = 0\<rparr>"
  let ?q = "\<lparr>fr_subscription_id = i, fr_generation = g, fr_sequence = 0,
    fr_encoded = e max_u64, fr_encode = e, fr_cumulative_bytes = 0\<rparr>"
  have key: "frame_key ?f = Key i g" "frame_key ?q = Key i g"
    and size: "frame_bytes ?q = Suc (length (e max_u64))"
    by (simp_all add: frame_key_def frame_bytes_def)
  show ?thesis
  proof (cases "CanTransmit m s (Suc (length (e (cm_next_sequence m)))) \<and> cm_queued m = []")
    case True
    obtain ok m' w' where t: "TransmitFrame tx ?f (m, w) = (ok, m', w')" by (metis prod_cases3)
    have "credit_inv m'"
      by (rule TransmitFrame_inv [OF inv _ _ t]) (use s True in \<open>auto simp: key\<close>)
    then show ?thesis using s True t by (simp add: Submit_def Let_def)
  next
    case blocked: False
    show ?thesis
    proof (cases "length (cm_queued m) \<ge> kMaximumQueuedReports \<or>
        cm_queued_bytes m > kMaximumQueuedBytes \<or>
        Suc (length (e max_u64)) > unat (kMaximumQueuedBytes - cm_queued_bytes m) \<or>
        st_queued s \<ge> st_queue_limit s")
      case True
      then show ?thesis using s blocked inv by (auto simp: Submit_def Let_def)
    next
      case False
      then have "credit_inv (m\<lparr>cm_queued_bytes := cm_queued_bytes m + of_nat (frame_bytes ?q),
        cm_streams := AList.update (frame_key ?q) (s\<lparr>st_queued := st_queued s + 1\<rparr>) (cm_streams m),
        cm_queued := cm_queued m @ [?q]\<rparr>)"
        using inv s queue_room_nat [of m "frame_bytes ?q"]
        by (intro credit_inv_enqueue [OF inv _ _ _ _ _ refl])
           (auto simp: key size credit_inv_def kMaximumQueuedReports_def not_le)
      then show ?thesis using s blocked False by (auto simp: Submit_def Let_def key size)
    qed
  qed
qed

section \<open>Releasing, draining and retiring\<close>

definition loop_inv :: "nat \<Rightarrow> nat \<Rightarrow> ReportCreditManager \<Rightarrow> bool" where
  "loop_inv a c m \<longleftrightarrow> streams_inv m \<and> volume_inv m \<and> window_at a c m"

lemma credit_inv_loop:
  "credit_inv m \<longleftrightarrow>
     loop_inv (unat (cm_acknowledged_sequence m)) (unat (cm_acknowledged_bytes m)) m"
  by (simp add: credit_inv_def loop_inv_def)

lemma on_stream_pos: "f \<in> set fs \<Longrightarrow> on_stream (frame_key f) fs \<noteq> 0"
  by (auto simp: on_stream_zero)

lemma streams_inv_outstanding:
  "streams_inv m \<Longrightarrow> f \<in> set (cm_outstanding m) \<Longrightarrow> \<exists>s. map_of (cm_streams m) (frame_key f) = Some s"
  using on_stream_pos [of f "cm_outstanding m"] unfolding streams_inv_def by blast

lemma streams_inv_queued:
  "streams_inv m \<Longrightarrow> f \<in> set (cm_queued m) \<Longrightarrow>
     \<exists>s. map_of (cm_streams m) (frame_key f) = Some s \<and> st_live s"
  using on_stream_pos [of f "cm_queued m"] unfolding streams_inv_def by blast

lemma release_other:
  "cm_outstanding (release f m) = cm_outstanding m" "cm_queued (release f m) = cm_queued m"
  "cm_queued_bytes (release f m) = cm_queued_bytes m"
  "cm_next_sequence (release f m) = cm_next_sequence m"
  "cm_cumulative_transmitted_bytes (release f m) = cm_cumulative_transmitted_bytes m"
  "cm_acknowledged_sequence (release f m) = cm_acknowledged_sequence m"
  "cm_acknowledged_bytes (release f m) = cm_acknowledged_bytes m"
  "cm_outstanding_bytes (release f m) = cm_outstanding_bytes m - of_nat (frame_bytes f)"
  by (simp_all add: release_def Let_def frame_bytes_def split: option.splits)

lemma release_streams:
  assumes "map_of (cm_streams m) (frame_key f) = Some s" "0 < unat (st_outstanding s)"
  shows "cm_streams (release f m) =
    (let s' = s\<lparr>st_outstanding := st_outstanding s - 1\<rparr>
     in if \<not> st_live s \<and> st_outstanding s - 1 = 0 \<and> st_queued s = 0
        then AList.delete (frame_key f) (cm_streams m)
        else AList.update (frame_key f) s' (cm_streams m))"
  using assms by (simp add: release_def Let_def frame_key_def word_less_nat_alt)

lemma release_streams_inv:
  assumes str: "streams_inv m" and out: "cm_outstanding m = f # fs"
  shows "streams_inv (release f (m\<lparr>cm_outstanding := fs\<rparr>))"
proof -
  let ?m = "release f (m\<lparr>cm_outstanding := fs\<rparr>)" and ?k = "frame_key f"
  obtain s where s: "map_of (cm_streams m) ?k = Some s"
    using streams_inv_outstanding [OF str, of f] out by auto
  have sok: "stream_ok (f # fs) (cm_queued m) ?k s"
    using str s by (simp add: streams_inv_def out)
  then have pos: "0 < unat (st_outstanding s)" by (simp add: stream_ok_def)
  have minus: "unat (st_outstanding s - 1) = on_stream ?k fs"
    using sok by (simp add: unat_minus_one_pos [OF pos] stream_ok_def)
  have other: "on_stream j (cm_outstanding ?m) = on_stream j (cm_outstanding m)"
    "on_stream j (cm_queued ?m) = on_stream j (cm_queued m)" if "j \<noteq> ?k" for j
    using that by (auto simp: release_other out)
  note streams = release_streams [of "m\<lparr>cm_outstanding := fs\<rparr>", simplified, OF s pos]
  show ?thesis
  proof (cases "\<not> st_live s \<and> st_outstanding s - 1 = 0 \<and> st_queued s = 0")
    case True
    show ?thesis
    proof (rule streams_inv_remove [OF str])
      show "cm_streams ?m = AList.delete ?k (cm_streams m)" using True by (simp add: streams)
      show "on_stream ?k (cm_outstanding ?m) = 0" using True minus by (simp add: release_other)
      show "on_stream ?k (cm_queued ?m) = 0" using True sok by (simp add: release_other stream_ok_def)
    qed (fact other)+
  next
    case False
    show ?thesis
    proof (rule streams_inv_change [OF str s])
      show "cm_streams ?m = AList.update ?k (s\<lparr>st_outstanding := st_outstanding s - 1\<rparr>) (cm_streams m)"
        using False by (auto simp: streams Let_def)
      have "st_outstanding s - 1 \<le> st_outstanding s"
        using sok minus by (simp add: word_le_nat_alt stream_ok_def)
      then show "stream_ok (cm_outstanding ?m) (cm_queued ?m) ?k
          (s\<lparr>st_outstanding := st_outstanding s - 1\<rparr>)"
        using sok minus by (auto simp: release_other stream_ok_def)
      show "on_stream ?k (cm_queued ?m) = 0"
        if "\<not> st_live (s\<lparr>st_outstanding := st_outstanding s - 1\<rparr>)"
        using that str s by (auto simp: release_other streams_inv_def)
    qed (use other in simp_all)
  qed
qed

lemma release_inv:
  assumes inv: "loop_inv a c m" and out: "cm_outstanding m = f # fs"
  shows "loop_inv (a + 1) (c + frame_bytes f) (release f (m\<lparr>cm_outstanding := fs\<rparr>))"
proof -
  have "streams_inv (release f (m\<lparr>cm_outstanding := fs\<rparr>))"
    using inv out by (intro release_streams_inv) (simp_all add: loop_inv_def)
  moreover have "volume_inv (release f (m\<lparr>cm_outstanding := fs\<rparr>))"
    using inv out unat_sub_of_nat [of "frame_bytes f" "cm_outstanding_bytes m"]
    by (auto simp: loop_inv_def volume_inv_def release_other)
  ultimately show ?thesis
    using inv out by (simp add: loop_inv_def window_at_def release_other)
qed

text \<open>After the loop of \<open>Acknowledge\<close> the frames up to the acknowledged one are gone.\<close>

lemma release_loop_inv:
  assumes "loop_inv a c m" "cm_outstanding m = fs" "a + n = unat seq" "n \<le> length fs"
  shows "loop_inv (unat seq) (c + total_bytes (take n fs)) (release_loop seq fs m) \<and>
    cm_outstanding (release_loop seq fs m) = drop n fs \<and>
    cm_queued (release_loop seq fs m) = cm_queued m"
  using assms
proof (induction fs arbitrary: a c m n)
  case Nil
  then have same: "m\<lparr>cm_outstanding := []\<rparr> = m" by simp
  from Nil show ?case by (simp add: same)
next
  case (Cons f fs)
  have head: "unat (fr_sequence f) = a + 1"
    using Cons.prems(1,2) by (simp add: loop_inv_def window_at_def)
  show ?case
  proof (cases n)
    case 0
    have same: "m\<lparr>cm_outstanding := f # fs\<rparr> = m" using Cons.prems(2) by simp
    from 0 Cons.prems head show ?thesis by (simp add: word_le_nat_alt same)
  next
    case (Suc n')
    let ?m = "release f (m\<lparr>cm_outstanding := fs\<rparr>)"
    have "loop_inv (unat seq) (c + frame_bytes f + total_bytes (take n' fs)) (release_loop seq fs ?m) \<and>
        cm_outstanding (release_loop seq fs ?m) = drop n' fs \<and>
        cm_queued (release_loop seq fs ?m) = cm_queued ?m"
      using Cons.prems Suc by (intro Cons.IH [OF release_inv]) (simp_all add: release_other)
    then show ?thesis using Cons.prems Suc head by (simp add: word_le_nat_alt release_other add.assoc)
  qed
qed

lemma pop_queued_inv:
  assumes inv: "credit_inv m" and q: "cm_queued m = f # fs"
    and s: "map_of (cm_streams m) (frame_key f) = Some s"
    and m': "m' = pop_queued f (m\<lparr>cm_streams :=
      AList.update (frame_key f) (s\<lparr>st_queued := st_queued s - 1\<rparr>) (cm_streams m)\<rparr>)"
  shows "credit_inv m'"
proof -
  have str: "streams_inv m" and vol: "volume_inv m" using inv by (simp_all add: credit_inv_def)
  have live: "st_live s" using streams_inv_queued [OF str, of f] q s by simp
  have sok: "stream_ok (cm_outstanding m) (f # fs) (frame_key f) s"
    using str s by (simp add: streams_inv_def q)
  then have pos: "0 < unat (st_queued s)" by (simp add: stream_ok_def)
  have minus: "unat (st_queued s - 1) = on_stream (frame_key f) fs"
    using sok by (simp add: unat_minus_one_pos [OF pos] stream_ok_def)
  have "streams_inv m'"
  proof (rule streams_inv_change [OF str s])
    have "st_queued s - 1 \<le> st_queued s" using sok minus by (simp add: word_le_nat_alt stream_ok_def)
    then show "stream_ok (cm_outstanding m') (cm_queued m') (frame_key f)
        (s\<lparr>st_queued := st_queued s - 1\<rparr>)"
      using sok minus by (auto simp: m' pop_queued_def q stream_ok_def)
  qed (use live in \<open>auto simp: m' pop_queued_def q\<close>)
  moreover have "volume_inv m'"
    using vol unat_sub_of_nat [of "frame_bytes f" "cm_queued_bytes m"]
    by (auto simp: volume_inv_def m' pop_queued_def q frame_bytes_def)
  ultimately show ?thesis using inv by (simp add: credit_inv_def window_at_def m' pop_queued_def)
qed

lemma Drain_Nil: "cm_queued m = [] \<Longrightarrow> Drain tx m w = (True, m, w)"
  by (subst Drain.simps) simp

text \<open>Under the invariant the head of the queue belongs to a live stream.\<close>

lemma Drain_Cons:
  assumes "credit_inv m" "cm_queued m = f # fs"
  obtains s where "map_of (cm_streams m) (frame_key f) = Some s" "st_live s"
    "Drain tx m w =
       (if \<not> CanTransmit m s (length (fr_encode f (cm_next_sequence m)) + 1) then (True, m, w)
        else case TransmitFrame tx f
            (pop_queued f (m\<lparr>cm_streams :=
               AList.update (frame_key f) (s\<lparr>st_queued := st_queued s - 1\<rparr>) (cm_streams m)\<rparr>), w)
          of (ok, m', w') \<Rightarrow> if ok then Drain tx m' w' else (False, m', w'))"
proof -
  obtain s where s: "map_of (cm_streams m) (frame_key f) = Some s" "st_live s"
    using assms streams_inv_queued [of m f] by (auto simp: credit_inv_def)
  show thesis
    by (rule that [OF s]) (subst Drain.simps, simp add: assms(2) s frame_key_def [symmetric])
qed

lemma Drain_turn_inv:
  assumes "credit_inv m" "cm_queued m = f # fs" "map_of (cm_streams m) (frame_key f) = Some s"
    and "CanTransmit m s (length (fr_encode f (cm_next_sequence m)) + 1)"
    and "TransmitFrame tx f
          (pop_queued f (m\<lparr>cm_streams :=
             AList.update (frame_key f) (s\<lparr>st_queued := st_queued s - 1\<rparr>) (cm_streams m)\<rparr>), w)
        = (ok, m', w')"
  shows "credit_inv m'"
proof (rule TransmitFrame_inv [OF pop_queued_inv [OF assms(1-3) refl] _ _ assms(5)])
  show "map_of (cm_streams (pop_queued f (m\<lparr>cm_streams := AList.update (frame_key f)
      (s\<lparr>st_queued := st_queued s - 1\<rparr>) (cm_streams m)\<rparr>))) (frame_key f)
    = Some (s\<lparr>st_queued := st_queued s - 1\<rparr>)"
    by (simp add: pop_queued_def)
qed (use assms(4) in \<open>simp add: pop_queued_def CanTransmit_def\<close>)

lemma Drain_inv: "credit_inv m \<Longrightarrow> credit_inv (fst (snd (Drain tx m w)))"
proof (induction "length (cm_queued m)" arbitrary: m w)
  case 0
  then show ?case by (simp add: Drain_Nil)
next
  case (Suc n)
  then obtain f fs where q: "cm_queued m = f # fs" by (metis Suc_length_conv)
  from Suc.prems q obtain s where s: "map_of (cm_streams m) (frame_key f) = Some s"
    and d: "Drain tx m w =
       (if \<not> CanTransmit m s (length (fr_encode f (cm_next_sequence m)) + 1) then (True, m, w)
        else case TransmitFrame tx f
            (pop_queued f (m\<lparr>cm_streams :=
               AList.update (frame_key f) (s\<lparr>st_queued := st_queued s - 1\<rparr>) (cm_streams m)\<rparr>), w)
          of (ok, m', w') \<Rightarrow> if ok then Drain tx m' w' else (False, m', w'))"
    by (rule Drain_Cons)
  obtain ok m' w' where t: "TransmitFrame tx f
            (pop_queued f (m\<lparr>cm_streams :=
               AList.update (frame_key f) (s\<lparr>st_queued := st_queued s - 1\<rparr>) (cm_streams m)\<rparr>), w)
      = (ok, m', w')" by (metis prod_cases3)
  show ?case
  proof (cases "CanTransmit m s (length (fr_encode f (cm_next_sequence m)) + 1)")
    case True
    have inv': "credit_inv m'" by (rule Drain_turn_inv [OF Suc.prems q s True t])
    have "n = length (cm_queued m')"
      using TransmitFrame_queued [OF t] Suc.hyps(2) q by (simp add: pop_queued_def)
    then show ?thesis using True d t inv' Suc.hyps(1) [OF _ inv'] by simp
  next
    case False
    then show ?thesis using d Suc.prems by simp
  qed
qed

text \<open>
  An acknowledgement is valid when it names the last of the first \<open>n\<close> outstanding frames and the
  exact byte total up to it.
\<close>

definition ack_frames :: "ReportCreditManager \<Rightarrow> u64 \<Rightarrow> nat" where
  "ack_frames m seq = unat seq - unat (cm_acknowledged_sequence m)"

definition ack_valid :: "ReportCreditManager \<Rightarrow> u64 \<Rightarrow> u64 \<Rightarrow> bool" where
  "ack_valid m seq bytes \<longleftrightarrow>
     unat (cm_acknowledged_sequence m) < unat seq \<and>
     ack_frames m seq \<le> length (cm_outstanding m) \<and>
     unat bytes = unat (cm_acknowledged_bytes m) +
       total_bytes (take (ack_frames m seq) (cm_outstanding m))"

lemma find_chain:
  assumes "chain a c fs" "i < length fs" "unat seq = a + i + 1"
  shows "List.find (\<lambda>f. fr_sequence f = seq) fs = Some (fs ! i)"
proof -
  have "fr_sequence (fs ! j) = seq \<longleftrightarrow> j = i" if "j < length fs" for j
    using chain_nth [OF assms(1) that] assms(3) by (auto simp: u64_eq_iff_unat)
  then have "fr_sequence (fs ! i) = seq" and "\<forall>j<i. fr_sequence (fs ! j) \<noteq> seq"
    using assms(2) by (blast, metis less_trans nat_neq_iff)
  then show ?thesis using assms(2) unfolding find_Some_iff by blast
qed

lemma find_chain_None:
  assumes "chain a c fs" "\<not> (a < unat seq \<and> unat seq \<le> a + length fs)"
  shows "List.find (\<lambda>f. fr_sequence f = seq) fs = None"
proof -
  have "fr_sequence (fs ! j) \<noteq> seq" if "j < length fs" for j
    using chain_nth [OF assms(1) that] assms(2) that by (auto simp: u64_eq_iff_unat)
  then show ?thesis by (auto simp: find_None_iff in_set_conv_nth)
qed

text \<open>What an acceptable acknowledgement releases.\<close>

definition acknowledged :: "u64 \<Rightarrow> u64 \<Rightarrow> ReportCreditManager \<Rightarrow> ReportCreditManager" where
  "acknowledged seq bytes m =
     (release_loop seq (cm_outstanding m) m)
       \<lparr>cm_acknowledged_sequence := seq, cm_acknowledged_bytes := bytes\<rparr>"

lemma Acknowledge_eq:
  assumes "credit_inv m"
  shows "Acknowledge tx seq bytes (m, w) =
    (if ack_valid m seq bytes then Drain tx (acknowledged seq bytes m) w else (False, m, w))"
proof (cases "unat (cm_acknowledged_sequence m) < unat seq \<and>
    unat seq \<le> unat (cm_acknowledged_sequence m) + length (cm_outstanding m)")
  case True
  let ?a = "unat (cm_acknowledged_sequence m)" and ?c = "unat (cm_acknowledged_bytes m)"
  define i where "i = unat seq - ?a - 1"
  have i: "i < length (cm_outstanding m)" "unat seq = ?a + i + 1" "ack_frames m seq = Suc i"
    using True by (auto simp: i_def ack_frames_def)
  have chain: "chain ?a ?c (cm_outstanding m)"
    using assms by (simp add: credit_inv_def window_at_def)
  have "fr_cumulative_bytes (cm_outstanding m ! i) = bytes \<longleftrightarrow> ack_valid m seq bytes"
    using chain_nth [OF chain i(1)] i True by (auto simp: ack_valid_def u64_eq_iff_unat)
  then show ?thesis
    using True find_chain [OF chain i(1,2)] i(1)
    by (auto simp: Acknowledge_def acknowledged_def Let_def word_le_nat_alt)
next
  case False
  have "chain (unat (cm_acknowledged_sequence m)) (unat (cm_acknowledged_bytes m)) (cm_outstanding m)"
    using assms by (simp add: credit_inv_def window_at_def)
  then have "List.find (\<lambda>f. fr_sequence f = seq) (cm_outstanding m) = None"
    using False by (rule find_chain_None)
  then show ?thesis using False by (auto simp: Acknowledge_def ack_valid_def ack_frames_def)
qed

lemma streams_volume_ack [simp]:
  "streams_inv (m\<lparr>cm_acknowledged_sequence := a, cm_acknowledged_bytes := b\<rparr>) = streams_inv m"
  "volume_inv (m\<lparr>cm_acknowledged_sequence := a, cm_acknowledged_bytes := b\<rparr>) = volume_inv m"
  "window_at c d (m\<lparr>cm_acknowledged_sequence := a, cm_acknowledged_bytes := b\<rparr>) = window_at c d m"
  by (simp_all add: streams_inv_def volume_inv_def window_at_def)

lemma acknowledged_inv:
  assumes "credit_inv m" "ack_valid m seq bytes"
  shows "credit_inv (acknowledged seq bytes m)"
    and "cm_outstanding (acknowledged seq bytes m) = drop (ack_frames m seq) (cm_outstanding m)"
    and "cm_queued (acknowledged seq bytes m) = cm_queued m"
proof -
  let ?c = "unat (cm_acknowledged_bytes m)" and ?m = "release_loop seq (cm_outstanding m) m"
  have "loop_inv (unat seq) (?c + total_bytes (take (ack_frames m seq) (cm_outstanding m))) ?m \<and>
      cm_outstanding ?m = drop (ack_frames m seq) (cm_outstanding m) \<and> cm_queued ?m = cm_queued m"
    using assms by (intro release_loop_inv [of "unat (cm_acknowledged_sequence m)"])
      (auto simp: credit_inv_loop ack_valid_def ack_frames_def)
  then show "credit_inv (acknowledged seq bytes m)"
    "cm_outstanding (acknowledged seq bytes m) = drop (ack_frames m seq) (cm_outstanding m)"
    "cm_queued (acknowledged seq bytes m) = cm_queued m"
    using assms(2)
    by (simp_all add: acknowledged_def credit_inv_def loop_inv_def ack_valid_def)
qed

lemma acknowledged_sequence: "cm_acknowledged_sequence (acknowledged seq bytes m) = seq"
  by (simp add: acknowledged_def)

lemma Acknowledge_inv:
  "credit_inv m \<Longrightarrow> credit_inv (fst (snd (Acknowledge tx seq bytes (m, w))))"
  by (simp add: Acknowledge_eq acknowledged_inv(1) Drain_inv)

text \<open>The loop of \<open>Retire\<close> removes the stream's frames and their reservations.\<close>

lemma retire_loop_eq:
  assumes "cm_streams m = AList.update (Key i g) s S"
  shows "retire_loop i g kept fs m =
    m\<lparr>cm_queued := kept @ filter (\<lambda>f. frame_key f \<noteq> Key i g) fs,
      cm_queued_bytes := cm_queued_bytes m -
        of_nat (total_bytes (filter (\<lambda>f. frame_key f = Key i g) fs)),
      cm_streams := AList.update (Key i g)
        (s\<lparr>st_queued := st_queued s - of_nat (on_stream (Key i g) fs)\<rparr>) S\<rparr>"
  using assms
proof (induction fs arbitrary: kept m s)
  case Nil
  have "cm_streams m = AList.update (Key i g) (s\<lparr>st_queued := st_queued s\<rparr>) S"
    using Nil by simp
  then show ?case by simp
next
  case (Cons f fs)
  show ?case
  proof (cases "frame_key f = Key i g")
    case True
    then have match: "fr_subscription_id f = i \<and> fr_generation f = g"
      by (simp add: frame_key_def Key_inject)
    let ?s = "s\<lparr>st_queued := st_queued s - 1\<rparr>"
    let ?m = "m\<lparr>cm_queued_bytes := cm_queued_bytes m - of_nat (length (fr_encoded f) + 1),
                cm_streams := AList.update (Key i g) ?s S\<rparr>"
    have "retire_loop i g kept (f # fs) m = retire_loop i g kept fs ?m"
      using match by (simp add: Cons.prems Let_def)
    also have "\<dots> = ?m\<lparr>cm_queued := kept @ filter (\<lambda>f. frame_key f \<noteq> Key i g) fs,
      cm_queued_bytes := cm_queued_bytes ?m -
        of_nat (total_bytes (filter (\<lambda>f. frame_key f = Key i g) fs)),
      cm_streams := AList.update (Key i g)
        (?s\<lparr>st_queued := st_queued ?s - of_nat (on_stream (Key i g) fs)\<rparr>) S\<rparr>"
      by (rule Cons.IH) simp
    finally show ?thesis using True by (simp add: frame_bytes_def algebra_simps)
  next
    case False
    then have c: "(fr_subscription_id f = i \<and> fr_generation f = g) = False"
      by (auto simp: frame_key_def)
    have "retire_loop i g kept (f # fs) m = retire_loop i g (kept @ [f]) fs m"
      by (simp only: retire_loop.simps c if_False)
    then show ?thesis using False Cons.IH [OF Cons.prems, of "kept @ [f]"] by simp
  qed
qed

text \<open>The state in which \<open>Retire\<close> sends the barrier.\<close>

definition retired :: "string \<Rightarrow> u64 \<Rightarrow> Stream \<Rightarrow> ReportCreditManager \<Rightarrow> ReportCreditManager" where
  "retired i g s m = retire_loop i g [] (cm_queued m)
     (m\<lparr>cm_streams := AList.update (Key i g) (s\<lparr>st_live := False\<rparr>) (cm_streams m)\<rparr>)"

lemma on_stream_filter:
  "on_stream j (filter (\<lambda>f. frame_key f \<noteq> k) fs) = (if j = k then 0 else on_stream j fs)"
  by (auto simp: on_stream_def filter_empty_conv intro!: arg_cong [where f = length] filter_cong)

lemma total_bytes_filter:
  "total_bytes (filter (\<lambda>f. frame_key f \<noteq> k) fs) =
     total_bytes fs - total_bytes (filter (\<lambda>f. frame_key f = k) fs)"
  "total_bytes (filter (\<lambda>f. frame_key f = k) fs) \<le> total_bytes fs"
  by (induction fs) auto

lemma retired_inv:
  assumes inv: "credit_inv m" and s: "map_of (cm_streams m) (Key i g) = Some s"
  shows "credit_inv (retired i g s m)"
    and "map_of (cm_streams (retired i g s m)) (Key i g) =
      Some (s\<lparr>st_live := False, st_queued := 0\<rparr>)"
    and "cm_queued (retired i g s m) = filter (\<lambda>f. frame_key f \<noteq> Key i g) (cm_queued m)"
    and "cm_outstanding (retired i g s m) = cm_outstanding m"
proof -
  let ?k = "Key i g"
  have str: "streams_inv m" and vol: "volume_inv m" using inv by (simp_all add: credit_inv_def)
  have sok: "stream_ok (cm_outstanding m) (cm_queued m) ?k s"
    using str s by (simp add: streams_inv_def)
  then have zero: "st_queued s - of_nat (on_stream ?k (cm_queued m)) = 0"
    using unat_sub_of_nat [of "on_stream ?k (cm_queued m)" "st_queued s"]
    by (simp add: stream_ok_def unat_eq_0 [symmetric])
  have eq: "retired i g s m =
    m\<lparr>cm_queued := filter (\<lambda>f. frame_key f \<noteq> ?k) (cm_queued m),
      cm_queued_bytes := cm_queued_bytes m -
        of_nat (total_bytes (filter (\<lambda>f. frame_key f = ?k) (cm_queued m))),
      cm_streams := AList.update ?k (s\<lparr>st_live := False, st_queued := 0\<rparr>) (cm_streams m)\<rparr>"
    using retire_loop_eq [of "m\<lparr>cm_streams := AList.update ?k (s\<lparr>st_live := False\<rparr>) (cm_streams m)\<rparr>"
        i g "s\<lparr>st_live := False\<rparr>" "cm_streams m" "[]" "cm_queued m"]
    by (simp add: retired_def zero del: right_minus_eq)
  have "streams_inv (retired i g s m)"
  proof (rule streams_inv_change [OF str s])
    show "stream_ok (cm_outstanding (retired i g s m)) (cm_queued (retired i g s m)) ?k
        (s\<lparr>st_live := False, st_queued := 0\<rparr>)"
      using sok by (simp add: eq stream_ok_def on_stream_filter)
  qed (simp_all add: eq on_stream_filter)
  moreover have "length (filter (\<lambda>f. frame_key f \<noteq> ?k) (cm_queued m)) \<le> 64"
    using vol length_filter_le [of "\<lambda>f. frame_key f \<noteq> ?k" "cm_queued m"]
    unfolding volume_inv_def by linarith
  then have "volume_inv (retired i g s m)"
    using vol unat_sub_of_nat [of "total_bytes (filter (\<lambda>f. frame_key f = ?k) (cm_queued m))"
        "cm_queued_bytes m"] total_bytes_filter [of ?k "cm_queued m"]
    by (auto simp: volume_inv_def eq)
  ultimately show "credit_inv (retired i g s m)"
    using inv by (simp add: credit_inv_def window_at_def eq)
  show "map_of (cm_streams (retired i g s m)) ?k = Some (s\<lparr>st_live := False, st_queued := 0\<rparr>)"
    "cm_queued (retired i g s m) = filter (\<lambda>f. frame_key f \<noteq> Key i g) (cm_queued m)"
    "cm_outstanding (retired i g s m) = cm_outstanding m"
    by (simp_all add: eq)
qed

text \<open>The state in which \<open>Retire\<close> drains the queue.\<close>

definition forgotten :: "string \<Rightarrow> u64 \<Rightarrow> Stream \<Rightarrow> ReportCreditManager \<Rightarrow> ReportCreditManager" where
  "forgotten i g s m =
     (if st_outstanding s = 0
      then (retired i g s m)\<lparr>cm_streams := AList.delete (Key i g) (cm_streams (retired i g s m))\<rparr>
      else retired i g s m)"

lemma forgotten_inv:
  assumes inv: "credit_inv m" and s: "map_of (cm_streams m) (Key i g) = Some s"
  shows "credit_inv (forgotten i g s m)"
proof (cases "st_outstanding s = 0")
  case True
  let ?m = "retired i g s m"
  have r: "credit_inv ?m" by (rule retired_inv(1) [OF assms])
  have "stream_ok (cm_outstanding m) (cm_queued m) (Key i g) s"
    using inv s by (simp add: credit_inv_def streams_inv_def)
  then have "on_stream (Key i g) (cm_outstanding m) = 0" using True by (simp add: stream_ok_def)
  then have out: "on_stream (Key i g) (cm_outstanding ?m) = 0"
    by (simp only: retired_inv(4) [OF assms])
  have queue: "on_stream (Key i g) (cm_queued ?m) = 0"
    by (simp only: retired_inv(3) [OF assms] on_stream_filter simp_thms if_True)
  have "streams_inv (?m\<lparr>cm_streams := AList.delete (Key i g) (cm_streams ?m)\<rparr>)"
    by (rule streams_inv_remove [of ?m]) (use r out queue in \<open>simp_all add: credit_inv_def\<close>)
  then show ?thesis using True r
    by (simp add: forgotten_def credit_inv_def volume_inv_def window_at_def)
qed (simp add: forgotten_def retired_inv(1) [OF assms])

lemma Retire_eq:
  assumes "credit_inv m"
  shows "Retire tx i g barrier (m, w) =
    (case map_of (cm_streams m) (Key i g) of
       None \<Rightarrow> (False, m, w)
     | Some s \<Rightarrow>
         if \<not> st_live s then (False, m, w)
         else let (sent, w1) = tx barrier w
              in if sent then Drain tx (forgotten i g s m) w1 else (False, retired i g s m, w1))"
  using retired_inv(2) [OF assms, of i g]
  by (auto simp: Retire_def Let_def forgotten_def retired_def split: option.splits prod.splits)

lemma Retire_inv: "credit_inv m \<Longrightarrow> credit_inv (fst (snd (Retire tx i g barrier (m, w))))"
  by (auto simp: Retire_eq Let_def retired_inv(1) forgotten_inv Drain_inv
      split: option.splits prod.splits)

lemma AddStream_inv:
  assumes "credit_inv m"
  shows "credit_inv (snd (AddStream i g l m))"
proof (cases "fst (AddStream i g l m)")
  case False
  then show ?thesis using assms by (auto simp: AddStream_def Let_def split: if_splits)
next
  case True
  let ?k = "Key i g" and ?m = "snd (AddStream i g l m)"
  let ?s = "\<lparr>st_generation = g, st_queue_limit = l, st_outstanding = 0, st_queued = 0,
    st_last_transmitted = 0, st_live = True\<rparr>"
  have g: "map_of (cm_streams m) ?k = None" "l \<noteq> 0" "l \<le> 10000" "length (cm_streams m) < 128"
      "length (filter (\<lambda>e. st_live (snd e)) (cm_streams m)) < 64"
    and m: "?m = m\<lparr>cm_streams := cm_streams m @ [(?k, ?s)]\<rparr>"
    using True by (auto simp: AddStream_def Let_def update_absent not_le split: if_splits)
  have str: "streams_inv m" using assms by (simp add: credit_inv_def)
  then have zero: "on_stream ?k (cm_outstanding m) = 0" "on_stream ?k (cm_queued m) = 0"
    using g(1) unfolding streams_inv_def by (metis option.distinct(1))+
  have "1 \<le> l" using g(2) by (simp add: word_le_nat_alt Suc_le_eq unat_gt_0)
  then have new: "stream_ok (cm_outstanding m) (cm_queued m) ?k ?s"
    using g(3) zero by (simp add: stream_ok_def)
  have look: "map_of (cm_streams ?m) j = (if j = ?k then Some ?s else map_of (cm_streams m) j)" for j
    using g(1) by (auto simp: m map_add_def split: option.splits)
  have "?k \<notin> set (map fst (cm_streams m))" using g(1) by (simp add: map_of_eq_None_iff)
  then have "streams_inv ?m"
    using str g new zero unfolding streams_inv_def look by (auto simp: m split: if_splits)
  then show ?thesis using assms by (simp add: credit_inv_def volume_inv_def window_at_def m)
qed

lemma BeginRecovery_inv:
  assumes "credit_inv m"
  shows "credit_inv (fst (snd (BeginRecovery tx i p n l b (m, w))))"
  using assms Retire_inv [OF assms, of tx i p b w] AddStream_inv
  by (auto simp: BeginRecovery_def Let_def case_prod_beta)

lemma mk_manager_inv: "credit_inv (mk_manager session)"
  by (simp add: credit_inv_def mk_manager_def streams_inv_def volume_inv_def window_at_def)

section \<open>The manager as a machine\<close>

lemma credit_step_inv: "credit_inv (fst s) \<Longrightarrow> credit_inv (fst (snd (credit_step tx op s)))"
  by (cases s; cases op)
     (simp_all add: case_prod_beta AddStream_inv Submit_inv Acknowledge_inv Retire_inv
       BeginRecovery_inv)

text \<open>
  What an answer tells: an acknowledgement is accepted only if it is exact, and a report is sent at
  once only on a live stream and never past reports that are already waiting.
\<close>

definition credit_answer_ok ::
    "ReportCreditManager \<times> 'w \<Rightarrow> credit_op \<Rightarrow> credit_answer \<Rightarrow> bool" where
  "credit_answer_ok s op ans \<longleftrightarrow>
     (\<forall>q b. op = C_Acknowledge q b \<and> ans = CA_Bool True \<longrightarrow> ack_valid (fst s) q b) \<and>
     (\<forall>i g e. op = C_Submit i g e \<and> ans = CA_Submit SR_Transmitted \<longrightarrow>
        IsLive i g (fst s) \<and> cm_queued (fst s) = []) \<and>
     (\<forall>i g e. op = C_Submit i g e \<and> ans = CA_Submit SR_Queued \<longrightarrow> IsLive i g (fst s))"

lemma Submit_answer:
  "fst (Submit tx i g e (m, w)) = SR_Transmitted \<Longrightarrow> IsLive i g m \<and> cm_queued m = []"
  "fst (Submit tx i g e (m, w)) = SR_Queued \<Longrightarrow> IsLive i g m"
  by (auto simp: Submit_def IsLive_def Let_def case_prod_beta split: option.splits if_splits)

lemma credit_step_answer:
  assumes "credit_inv (fst s)"
  shows "credit_answer_ok s op (fst (credit_step tx op s))"
  using assms
  by (cases s; cases op)
     (auto simp: credit_answer_ok_def Acknowledge_eq case_prod_beta split: if_splits
       dest: Submit_answer)

interpretation credit_machine: machine "credit_step tx" "\<lambda>s. credit_inv (fst s)" credit_answer_ok
  for tx :: "'w transmit"
  by unfold_locales (simp_all add: credit_step_inv credit_step_answer)

text \<open>A state reached from a new manager by any calls, whatever the channel did.\<close>

definition credit_run ::
    "'w transmit \<Rightarrow> string \<Rightarrow> 'w \<Rightarrow> credit_op list \<Rightarrow> credit_answer list \<times> ReportCreditManager \<times> 'w" where
  "credit_run tx session w ops = run_ops (credit_step tx) (mk_manager session, w) ops"

definition credit_state ::
    "'w transmit \<Rightarrow> string \<Rightarrow> 'w \<Rightarrow> credit_op list \<Rightarrow> ReportCreditManager" where
  "credit_state tx session w ops = fst (snd (credit_run tx session w ops))"

lemma credit_state_inv: "credit_inv (credit_state tx session w ops)"
  unfolding credit_state_def credit_run_def by (rule credit_machine.run_inv) (simp add: mk_manager_inv)

section \<open>Progress\<close>

text \<open>
  A report is encoded again when it is finally sent; its queue reservation is the size of its
  encoding under the largest sequence number.  For the JSON frames of this host the size only grows
  with the number of digits of the sequence number.
\<close>

definition reserves :: "(u64 \<Rightarrow> string) \<Rightarrow> bool" where
  "reserves e \<longleftrightarrow> (\<forall>n. length (e n) \<le> length (e max_u64))"

definition reserving_op :: "credit_op \<Rightarrow> bool" where
  "reserving_op op \<longleftrightarrow> (\<forall>i g e. op = C_Submit i g e \<longrightarrow> reserves e)"

definition queue_reserved :: "ReportCreditManager \<Rightarrow> bool" where
  "queue_reserved m \<longleftrightarrow>
     (\<forall>f\<in>set (cm_queued m). reserves (fr_encode f) \<and> fr_encoded f = fr_encode f max_u64)"

definition flowing :: "ReportCreditManager \<Rightarrow> bool" where
  "flowing m \<longleftrightarrow> (cm_queued m \<noteq> [] \<longrightarrow> cm_outstanding m \<noteq> [])"

lemma length_to_string_mono: "a \<le> b \<Longrightarrow> length (to_string a) \<le> length (to_string b)"
proof (induction b arbitrary: a rule: to_string.induct)
  case (1 b)
  show ?case
  proof (cases "b < 10")
    case False
    then have "length (to_string (a div 10)) \<le> length (to_string (b div 10))"
      using 1 by (simp add: div_le_mono)
    then show ?thesis
      using False by (cases "a < 10") (simp_all add: to_string_small to_string_step)
  qed (use 1 in \<open>simp add: to_string_small\<close>)
qed

lemma reserves_decimal: "reserves (\<lambda>n. pre @ to_string (unat n) @ post)"
proof -
  have "unat n \<le> unat max_u64" for n :: u64
    by (simp only: word_le_nat_alt [symmetric] word_order.extremum)
  then have "length (to_string (unat n)) \<le> length (to_string (unat max_u64))" for n :: u64
    by (rule length_to_string_mono)
  then show ?thesis unfolding reserves_def length_append by (intro allI add_mono order.refl)
qed

text \<open>With nothing outstanding, every frame that fits the byte credit can be sent.\<close>

lemma new_head_flowing:
  assumes inv: "credit_inv m" and s: "map_of (cm_streams m) k = Some s"
    and "\<not> CanTransmit m s n" "n \<le> 1048576"
  shows "cm_outstanding m \<noteq> []"
proof
  assume empty: "cm_outstanding m = []"
  have vol: "volume_inv m" using inv by (simp add: credit_inv_def)
  have sok: "stream_ok [] (cm_queued m) k s"
    using inv s by (simp add: credit_inv_def streams_inv_def empty)
  then have "st_outstanding s = 0"
    by (simp add: stream_ok_def unat_eq_0 [symmetric] del: unat_eq_0)
  moreover have "0 < min 16 (st_queue_limit s)"
    using sok by (simp add: stream_ok_def word_le_nat_alt word_less_nat_alt min_def)
  ultimately show False
    using assms(3,4) by (simp add: CanTransmit_nat [OF vol] empty)
qed

lemma blocked_outstanding:
  assumes inv: "credit_inv m" and res: "queue_reserved m" and q: "cm_queued m = f # fs"
    and s: "map_of (cm_streams m) (frame_key f) = Some s"
    and blocked: "\<not> CanTransmit m s (length (fr_encode f n) + 1)"
  shows "cm_outstanding m \<noteq> []"
proof -
  have "length (fr_encode f n) + 1 \<le> frame_bytes f"
    using res q by (simp add: queue_reserved_def reserves_def frame_bytes_def)
  then have "length (fr_encode f n) + 1 \<le> 1048576"
    using inv q by (simp add: credit_inv_def volume_inv_def)
  then show ?thesis by (rule new_head_flowing [OF inv s blocked])
qed

lemma Drain_flowing:
  assumes "credit_inv m" "queue_reserved m"
  shows "queue_reserved (fst (snd (Drain tx m w))) \<and>
    (fst (Drain tx m w) \<longrightarrow> flowing (fst (snd (Drain tx m w))))"
  using assms
proof (induction "length (cm_queued m)" arbitrary: m w)
  case 0
  then show ?case by (simp add: Drain_Nil flowing_def)
next
  case (Suc n)
  then obtain f fs where q: "cm_queued m = f # fs" by (metis Suc_length_conv)
  from Suc.prems(1) q obtain s where s: "map_of (cm_streams m) (frame_key f) = Some s"
    and d: "Drain tx m w =
       (if \<not> CanTransmit m s (length (fr_encode f (cm_next_sequence m)) + 1) then (True, m, w)
        else case TransmitFrame tx f
            (pop_queued f (m\<lparr>cm_streams :=
               AList.update (frame_key f) (s\<lparr>st_queued := st_queued s - 1\<rparr>) (cm_streams m)\<rparr>), w)
          of (ok, m', w') \<Rightarrow> if ok then Drain tx m' w' else (False, m', w'))"
    by (rule Drain_Cons)
  obtain ok m' w' where t: "TransmitFrame tx f
            (pop_queued f (m\<lparr>cm_streams :=
               AList.update (frame_key f) (s\<lparr>st_queued := st_queued s - 1\<rparr>) (cm_streams m)\<rparr>), w)
      = (ok, m', w')" by (metis prod_cases3)
  show ?case
  proof (cases "CanTransmit m s (length (fr_encode f (cm_next_sequence m)) + 1)")
    case True
    have inv': "credit_inv m'" by (rule Drain_turn_inv [OF Suc.prems(1) q s True t])
    have q': "cm_queued m' = fs"
      using TransmitFrame_queued [OF t] q by (simp add: pop_queued_def)
    have "n = length (cm_queued m')" using Suc.hyps(2) q q' by simp
    moreover have "queue_reserved m'" using Suc.prems(2) q q' by (simp add: queue_reserved_def)
    ultimately show ?thesis using True d t Suc.hyps(1) [OF _ inv'] by simp
  next
    case False
    then show ?thesis
      using d Suc.prems blocked_outstanding [OF Suc.prems q s] by (simp add: flowing_def)
  qed
qed

lemma TransmitFrame_flowing:
  "TransmitFrame tx f (m, w) = (True, m', w') \<Longrightarrow> cm_outstanding m' \<noteq> []"
  by (auto elim!: TransmitFrame_cases simp: accept_def)

lemma Submit_cases:
  assumes "Submit tx i g e (m, w) = (r, m', w')"
  obtains (refused) "r = SR_Invalid \<or> r = SR_StreamOverflow" "m' = m"
  | (sent) f where "r = SR_Transmitted" "cm_queued m = []" "TransmitFrame tx f (m, w) = (True, m', w')"
      "frame_key f = Key i g"
  | (queued) s f where "r = SR_Queued" "map_of (cm_streams m) (Key i g) = Some s"
      "\<not> (CanTransmit m s (length (e (cm_next_sequence m)) + 1) \<and> cm_queued m = [])"
      "length (e (cm_next_sequence m)) + 1 \<le> 1048576" "cm_queued m' = cm_queued m @ [f]"
      "cm_outstanding m' = cm_outstanding m" "fr_encode f = e" "fr_encoded f = e max_u64"
      "frame_key f = Key i g"
proof (cases "map_of (cm_streams m) (Key i g)")
  case None
  then show thesis using assms by (intro refused) (auto simp: Submit_def)
next
  case (Some s)
  let ?f = "\<lparr>fr_subscription_id = i, fr_generation = g, fr_sequence = cm_next_sequence m,
    fr_encoded = e (cm_next_sequence m), fr_encode = e, fr_cumulative_bytes = 0\<rparr>"
  obtain ok m1 w1 where t: "TransmitFrame tx ?f (m, w) = (ok, m1, w1)" by (metis prod_cases3)
  have key: "frame_key ?f = Key i g" by (simp add: frame_key_def)
  have fail: "\<not> ok \<Longrightarrow> m1 = m" using t by (cases rule: TransmitFrame_cases) auto
  consider "r = SR_Transmitted" | "r = SR_Queued" | "r = SR_Invalid \<or> r = SR_StreamOverflow"
    by (cases r) auto
  then show thesis
  proof cases
    case 1
    then have "cm_queued m = []" "TransmitFrame tx ?f (m, w) = (True, m', w')"
      using assms Some t by (auto simp: Submit_def Let_def split: if_splits)
    with 1 key show thesis by (intro sent)
  next
    case 2
    show thesis
      by (rule queued [OF 2 Some, of "?f\<lparr>fr_sequence := 0, fr_encoded := e max_u64\<rparr>"])
         (use assms 2 Some t key in \<open>auto simp: Submit_def Let_def kSessionByteCredit_def frame_key_def
            split: if_splits\<close>)
  next
    case 3
    have "m' = m"
      using assms Some t 3 fail by (auto simp: Submit_def Let_def split: if_splits)
    with 3 show thesis by (rule refused)
  qed
qed

lemma Submit_flowing:
  assumes inv: "credit_inv m" and pre: "queue_reserved m" "flowing m" "reserves e"
    and r: "Submit tx i g e (m, w) = (r, m', w')"
  shows "queue_reserved m' \<and> (r \<noteq> SR_Invalid \<longrightarrow> flowing m')"
  using r
proof (cases rule: Submit_cases)
  case (sent f)
  then show ?thesis
    using TransmitFrame_queued [OF sent(3)] by (simp add: queue_reserved_def flowing_def)
next
  case (queued s f)
  have "cm_outstanding m \<noteq> []"
  proof (cases "cm_queued m = []")
    case True
    with queued have "\<not> CanTransmit m s (length (e (cm_next_sequence m)) + 1)" by blast
    then show ?thesis using new_head_flowing [OF inv queued(2)] queued(4) by blast
  qed (use pre(2) in \<open>simp add: flowing_def\<close>)
  with queued pre show ?thesis by (simp add: queue_reserved_def flowing_def)
qed (use pre in simp)

lemma queue_reserved_subset:
  "queue_reserved m \<Longrightarrow> set (cm_queued m') \<subseteq> set (cm_queued m) \<Longrightarrow> queue_reserved m'"
  by (auto simp: queue_reserved_def)

lemma forgotten_queue [simp]: "cm_queued (forgotten i g s m) = cm_queued (retired i g s m)"
  by (simp add: forgotten_def)

lemma Retire_flowing:
  assumes inv: "credit_inv m" and res: "queue_reserved m" and flow: "flowing m"
  shows "queue_reserved (fst (snd (Retire tx i g b (m, w)))) \<and>
    (fst (Retire tx i g b (m, w)) \<longrightarrow> flowing (fst (snd (Retire tx i g b (m, w)))))"
proof (cases "\<exists>s. map_of (cm_streams m) (Key i g) = Some s \<and> st_live s")
  case False
  then show ?thesis using res by (auto simp: Retire_eq [OF inv] split: option.splits)
next
  case True
  then obtain s where s: "map_of (cm_streams m) (Key i g) = Some s" "st_live s" by blast
  have "queue_reserved (retired i g s m)" "queue_reserved (forgotten i g s m)"
    using retired_inv(3) [OF inv s(1)] by (auto intro: queue_reserved_subset [OF res])
  then show ?thesis
    using s Drain_flowing [OF forgotten_inv [OF inv s(1)], of tx]
    by (auto simp: Retire_eq [OF inv] Let_def split: prod.splits)
qed

lemma AddStream_queues:
  "cm_queued (snd (AddStream i g l m)) = cm_queued m"
  "cm_outstanding (snd (AddStream i g l m)) = cm_outstanding m"
  by (simp_all add: AddStream_def Let_def)

lemma Acknowledge_flowing:
  assumes inv: "credit_inv m" and res: "queue_reserved m"
  shows "queue_reserved (fst (snd (Acknowledge tx q b (m, w)))) \<and>
    (fst (Acknowledge tx q b (m, w)) \<longrightarrow> flowing (fst (snd (Acknowledge tx q b (m, w)))))"
proof (cases "ack_valid m q b")
  case True
  note a = acknowledged_inv [OF inv True]
  have "queue_reserved (acknowledged q b m)" by (rule queue_reserved_subset [OF res]) (simp add: a)
  then show ?thesis using Drain_flowing [OF a(1)] True by (simp add: Acknowledge_eq [OF inv])
qed (simp add: Acknowledge_eq [OF inv] res)

text \<open>The answers after which the host gives up the stream or the channel.\<close>

definition failed_answer :: "credit_answer \<Rightarrow> bool" where
  "failed_answer ans \<longleftrightarrow> ans = CA_Bool False \<or> ans = CA_Submit SR_Invalid"

lemma BeginRecovery_flowing:
  assumes inv: "credit_inv m" and res: "queue_reserved m" and flow: "flowing m"
  shows "queue_reserved (fst (snd (BeginRecovery tx i p n l b (m, w)))) \<and>
    (fst (BeginRecovery tx i p n l b (m, w)) \<longrightarrow>
       flowing (fst (snd (BeginRecovery tx i p n l b (m, w)))))"
  using Retire_flowing [OF assms, of tx i p b w] res
  by (auto simp: BeginRecovery_def Let_def case_prod_beta queue_reserved_def flowing_def
      AddStream_queues)

lemma credit_step_flowing:
  assumes "credit_inv (fst s)" "queue_reserved (fst s)" "flowing (fst s)" "reserving_op op"
  shows "queue_reserved (fst (snd (credit_step tx op s))) \<and>
    (\<not> failed_answer (fst (credit_step tx op s)) \<longrightarrow> flowing (fst (snd (credit_step tx op s))))"
proof (cases s)
  case (Pair m w)
  show ?thesis
  proof (cases op)
    case (C_AddStream i g l)
    then show ?thesis
      using assms Pair
      by (simp add: case_prod_beta queue_reserved_def flowing_def AddStream_queues)
  next
    case (C_Submit i g e)
    obtain r m' w' where sub: "Submit tx i g e (m, w) = (r, m', w')" by (metis prod_cases3)
    have "reserves e" using assms(4) C_Submit by (simp add: reserving_op_def)
    then show ?thesis
      using assms(1-3) C_Submit Pair sub Submit_flowing [OF _ _ _ _ sub]
      by (simp add: failed_answer_def)
  next
    case (C_Acknowledge q b)
    then show ?thesis
      using assms Pair Acknowledge_flowing [of m tx q b w]
      by (auto simp: failed_answer_def case_prod_beta)
  next
    case (C_Retire i g b)
    then show ?thesis
      using assms Pair Retire_flowing [of m tx i g b w]
      by (auto simp: failed_answer_def case_prod_beta)
  next
    case (C_BeginRecovery i p n l b)
    then show ?thesis
      using assms Pair BeginRecovery_flowing [of m tx i p n l b w]
      by (auto simp: failed_answer_def case_prod_beta)
  qed
qed

lemma run_flowing:
  assumes "credit_inv (fst s)" "queue_reserved (fst s)" "flowing (fst s)"
    and "list_all reserving_op ops" "list_all (\<lambda>a. \<not> failed_answer a) (fst (run_ops (credit_step tx) s ops))"
  shows "flowing (fst (snd (run_ops (credit_step tx) s ops)))"
  using assms
proof (induction ops arbitrary: s)
  case (Cons op ops)
  note st = credit_step_flowing [OF Cons.prems(1-3), of op tx]
  have "flowing (fst (snd (run_ops (credit_step tx) (snd (credit_step tx op s)) ops)))"
    using Cons.prems st
    by (intro Cons.IH) (simp_all add: credit_step_inv case_prod_beta Let_def)
  then show ?case by (simp add: case_prod_beta Let_def)
qed simp

section \<open>The retirement barrier\<close>

definition stream_frames :: "string \<Rightarrow> Frame list \<Rightarrow> Frame list" where
  "stream_frames k fs = filter (\<lambda>f. frame_key f = k) fs"

definition quiet :: "string \<Rightarrow> ReportCreditManager \<Rightarrow> bool" where
  "quiet k m \<longleftrightarrow> (\<forall>s. map_of (cm_streams m) k = Some s \<longrightarrow> \<not> st_live s)"

lemma quiet_queue: "credit_inv m \<Longrightarrow> quiet k m \<Longrightarrow> stream_frames k (cm_queued m) = []"
  by (fastforce simp: quiet_def stream_frames_def filter_empty_conv credit_inv_def
      dest: streams_inv_queued)

text \<open>Draining sends nothing of a stream that is not live.\<close>

lemma Drain_quiet:
  assumes "credit_inv m" "quiet k m"
  shows "quiet k (fst (snd (Drain tx m w))) \<and>
    stream_frames k (cm_outstanding (fst (snd (Drain tx m w)))) = stream_frames k (cm_outstanding m)"
  using assms
proof (induction "length (cm_queued m)" arbitrary: m w)
  case 0
  then show ?case by (simp add: Drain_Nil)
next
  case (Suc n)
  then obtain f fs where q: "cm_queued m = f # fs" by (metis Suc_length_conv)
  from Suc.prems(1) q obtain s where s: "map_of (cm_streams m) (frame_key f) = Some s" "st_live s"
    and d: "Drain tx m w =
       (if \<not> CanTransmit m s (length (fr_encode f (cm_next_sequence m)) + 1) then (True, m, w)
        else case TransmitFrame tx f
            (pop_queued f (m\<lparr>cm_streams :=
               AList.update (frame_key f) (s\<lparr>st_queued := st_queued s - 1\<rparr>) (cm_streams m)\<rparr>), w)
          of (ok, m', w') \<Rightarrow> if ok then Drain tx m' w' else (False, m', w'))"
    by (rule Drain_Cons)
  have other: "frame_key f \<noteq> k" using Suc.prems(2) s by (auto simp: quiet_def)
  let ?p = "pop_queued f (m\<lparr>cm_streams :=
               AList.update (frame_key f) (s\<lparr>st_queued := st_queued s - 1\<rparr>) (cm_streams m)\<rparr>)"
  obtain ok m' w' where t: "TransmitFrame tx f (?p, w) = (ok, m', w')" by (metis prod_cases3)
  have qp: "quiet k ?p" "cm_outstanding ?p = cm_outstanding m"
    using Suc.prems(2) other by (auto simp: quiet_def pop_queued_def)
  have m': "quiet k m' \<and> stream_frames k (cm_outstanding m') = stream_frames k (cm_outstanding m)"
    using t
  proof (cases rule: TransmitFrame_cases)
    case rejected
    with qp show ?thesis by simp
  next
    case (sent u f1 cumulative)
    with qp other show ?thesis by (auto simp: quiet_def accept_def stream_frames_def)
  qed
  show ?case
  proof (cases "CanTransmit m s (length (fr_encode f (cm_next_sequence m)) + 1)")
    case True
    have inv': "credit_inv m'" by (rule Drain_turn_inv [OF Suc.prems(1) q s(1) True t])
    have "n = length (cm_queued m')"
      using TransmitFrame_queued [OF t] Suc.hyps(2) q by (simp add: pop_queued_def)
    then show ?thesis using True d t m' Suc.hyps(1) [OF _ inv'] by simp
  next
    case False
    then show ?thesis using d Suc.prems by simp
  qed
qed

lemma quiet_IsLive: "quiet (Key i g) m \<longleftrightarrow> \<not> IsLive i g m"
  by (auto simp: quiet_def IsLive_def split: option.splits)

section \<open>Properties\<close>

text \<open>
  Property C31. Whatever calls are made and whenever the channel fails, a session never has more
  than 64 reports or 1 MiB outstanding or queued, no stream more than 16 reports outstanding, and
  the counters are exact: no 64-bit counter ever wraps, and the snapshot's credits are the true
  remainders.
\<close>

theorem credit_bounds:
  shows "length (cm_outstanding (credit_state tx session w ops)) \<le> 64 \<and> total_bytes (cm_outstanding (credit_state tx session w ops)) \<le> 1048576 \<and>
    length (cm_queued (credit_state tx session w ops)) \<le> 64 \<and> total_bytes (cm_queued (credit_state tx session w ops)) \<le> 1048576 \<and>
    sn_frame_credit (snapshot (credit_state tx session w ops)) = 64 - length (cm_outstanding (credit_state tx session w ops)) \<and>
    unat (sn_byte_credit (snapshot (credit_state tx session w ops))) = 1048576 - total_bytes (cm_outstanding (credit_state tx session w ops)) \<and>
    unat (sn_queued_bytes (snapshot (credit_state tx session w ops))) = total_bytes (cm_queued (credit_state tx session w ops)) \<and>
    (\<forall>k. on_stream k (cm_outstanding (credit_state tx session w ops)) \<le> 16)"
proof -
  let ?m = "credit_state tx session w ops"
  have inv: "credit_inv ?m" by (rule credit_state_inv)
  then have vol: "volume_inv ?m" and str: "streams_inv ?m" by (simp_all add: credit_inv_def)
  have "on_stream k (cm_outstanding ?m) \<le> 16" for k
  proof (cases "map_of (cm_streams ?m) k")
    case None
    then have "on_stream k (cm_outstanding ?m) = 0" using str unfolding streams_inv_def by blast
    then show ?thesis by simp
  next
    case (Some s)
    then have "stream_ok (cm_outstanding ?m) (cm_queued ?m) k s" using str by (simp add: streams_inv_def)
    then have "unat (st_outstanding s) = on_stream k (cm_outstanding ?m)" "st_outstanding s \<le> 16"
      by (simp_all add: stream_ok_def)
    then show ?thesis by (simp add: word_le_nat_alt)
  qed
  moreover have "unat (sn_byte_credit (snapshot ?m)) = 1048576 - total_bytes (cm_outstanding ?m)"
    using vol by (simp add: snapshot_def unat_sub volume_inv_def kSessionByteCredit_def word_le_nat_alt)
  ultimately show ?thesis
    using vol by (simp add: volume_inv_def snapshot_def kSessionReportCredit_def)
qed

text \<open>
  Reports are numbered without gaps: at any time the outstanding reports carry
  exactly the sequence numbers between the last acknowledged one and the next to be used, in
  order, and each records the total of bytes written up to and including itself.
\<close>

theorem credit_sequence:
  shows "map (unat \<circ> fr_sequence) (cm_outstanding (credit_state tx session w ops)) =
      [unat (cm_acknowledged_sequence (credit_state tx session w ops)) + 1..<unat (cm_next_sequence (credit_state tx session w ops))] \<and>
    map (unat \<circ> fr_cumulative_bytes) (cm_outstanding (credit_state tx session w ops)) =
      map (\<lambda>n. unat (cm_acknowledged_bytes (credit_state tx session w ops)) +
                 total_bytes (take n (cm_outstanding (credit_state tx session w ops))))
        [1..<Suc (length (cm_outstanding (credit_state tx session w ops)))] \<and>
    unat (cm_cumulative_transmitted_bytes (credit_state tx session w ops)) =
      unat (cm_acknowledged_bytes (credit_state tx session w ops)) + total_bytes (cm_outstanding (credit_state tx session w ops))"
proof -
  let ?m = "credit_state tx session w ops"
  have "credit_inv ?m" by (rule credit_state_inv)
  then have win: "window_at (unat (cm_acknowledged_sequence ?m)) (unat (cm_acknowledged_bytes ?m)) ?m"
    by (simp add: credit_inv_def)
  then have chain: "chain (unat (cm_acknowledged_sequence ?m)) (unat (cm_acknowledged_bytes ?m))
      (cm_outstanding ?m)" by (simp add: window_at_def)
  let ?a = "unat (cm_acknowledged_sequence ?m)" and ?c = "unat (cm_acknowledged_bytes ?m)"
  have "map (unat \<circ> fr_sequence) (cm_outstanding ?m) = [?a + 1..<unat (cm_next_sequence ?m)]"
    using win chain_nth [OF chain] by (intro nth_equalityI) (simp_all add: window_at_def del: upt_Suc)
  moreover have "map (unat \<circ> fr_cumulative_bytes) (cm_outstanding ?m) =
      map (\<lambda>n. ?c + total_bytes (take n (cm_outstanding ?m))) [1..<Suc (length (cm_outstanding ?m))]"
    using chain_nth [OF chain] by (intro nth_equalityI) (simp_all del: upt_Suc)
  ultimately show ?thesis using win by (simp add: window_at_def)
qed

text \<open>
  Property C32. Acknowledgements are accepted exactly when they are cumulative and exact: the
  sequence number must be one of the outstanding ones and the byte count the total written up to
  that report.  Then precisely the reports up to it are released and the queue is drained; anything
  else (a repeated, skipped-ahead or miscounted acknowledgement) is refused and changes nothing.
\<close>

theorem acknowledge_exact:
  shows "Acknowledge tx seq bytes (credit_state tx session w ops, v) =
      (if ack_valid (credit_state tx session w ops) seq bytes
       then Drain tx (acknowledged seq bytes (credit_state tx session w ops)) v else (False, credit_state tx session w ops, v)) \<and>
    (ack_valid (credit_state tx session w ops) seq bytes \<longrightarrow>
      cm_outstanding (acknowledged seq bytes (credit_state tx session w ops)) =
        drop (ack_frames (credit_state tx session w ops) seq) (cm_outstanding (credit_state tx session w ops)) \<and>
      cm_queued (acknowledged seq bytes (credit_state tx session w ops)) = cm_queued (credit_state tx session w ops) \<and>
      cm_acknowledged_sequence (acknowledged seq bytes (credit_state tx session w ops)) = seq \<and>
      credit_inv (acknowledged seq bytes (credit_state tx session w ops)))"
proof -
  have inv: "credit_inv (credit_state tx session w ops)" by (rule credit_state_inv)
  show ?thesis
    by (simp add: Acknowledge_eq [OF inv] acknowledged_inv [OF inv] acknowledged_sequence)
qed

text \<open>
  Property C33. Flow control cannot deadlock: if every report's encoding is no longer than under
  the largest sequence number, and no call has failed, then whenever reports wait in the queue
  there is at least one report outstanding whose acknowledgement will release credit.
\<close>

theorem credit_no_deadlock:
  assumes "list_all reserving_op ops"
    and "list_all (\<lambda>a. \<not> failed_answer a) (fst (credit_run tx session w ops))"
    and "cm_queued (credit_state tx session w ops) \<noteq> []"
  shows "cm_outstanding (credit_state tx session w ops) \<noteq> []"
proof -
  have "queue_reserved (mk_manager session)" "flowing (mk_manager session)"
    by (simp_all add: mk_manager_def queue_reserved_def flowing_def)
  then have "flowing (credit_state tx session w ops)"
    using assms(1,2) unfolding credit_state_def credit_run_def by (intro run_flowing) (simp_all add: mk_manager_inv)
  then show ?thesis using assms(3) by (simp add: flowing_def)
qed

text \<open>
  Property C34. The retirement barrier is final: when a live stream is retired, its waiting
  reports are dropped, the stream is not live afterwards, and none of its reports is transmitted
  after the barrier, also not by the draining that follows.
\<close>

theorem retire_barrier:
  assumes "IsLive i g (credit_state tx session w ops)"
    and "Retire tx i g barrier (credit_state tx session w ops, v) = (ok, m', v')"
  shows "\<not> IsLive i g m' \<and> stream_frames (Key i g) (cm_queued m') = [] \<and>
    stream_frames (Key i g) (cm_outstanding m') = stream_frames (Key i g) (cm_outstanding (credit_state tx session w ops))"
proof -
  let ?m = "credit_state tx session w ops"
  have inv: "credit_inv ?m" by (rule credit_state_inv)
  obtain s where s: "map_of (cm_streams ?m) (Key i g) = Some s" "st_live s"
    using assms(1) by (auto simp: IsLive_def split: option.splits)
  note r = retired_inv [OF inv s(1)]
  have qr: "quiet (Key i g) (retired i g s ?m)" "quiet (Key i g) (forgotten i g s ?m)"
    by (simp_all add: quiet_def forgotten_def r(2))
  have out: "cm_outstanding (forgotten i g s ?m) = cm_outstanding ?m" by (simp add: forgotten_def r(4))
  have inv': "credit_inv m'"
    using Retire_inv [OF inv, of tx i g barrier v] assms(2) by simp
  obtain sent v1 where t: "tx barrier v = (sent, v1)" by fastforce
  have "quiet (Key i g) m' \<and>
      stream_frames (Key i g) (cm_outstanding m') = stream_frames (Key i g) (cm_outstanding ?m)"
    using assms(2) s t qr r(4) Drain_quiet [OF forgotten_inv [OF inv s(1)] qr(2), of tx v1]
    by (auto simp: Retire_eq [OF inv] out split: if_splits)
  then show ?thesis using quiet_queue [OF inv'] by (simp add: quiet_IsLive)
qed

section \<open>Witnesses\<close>

text \<open>A channel that records every line, and a stream that may have one report outstanding.\<close>

definition log_tx :: "string list transmit" where
  "log_tx line w = (True, w @ [line])"

definition example_encode :: "u64 \<Rightarrow> string" where
  "example_encode n = ''r'' @ to_string (unat n) @ ''.''"

definition example_ops :: "credit_op list" where
  "example_ops =
     [C_AddStream ''s'' 1 1, C_Submit ''s'' 1 example_encode, C_Submit ''s'' 1 example_encode]"

lemma example_reserves: "reserves example_encode"
  unfolding example_encode_def by (rule reserves_decimal)

lemma digit_chars: "digit_char (Suc 0) = CHR ''1''" "digit_char 2 = CHR ''2''"
  by code_simp+

lemma example_encodings:
  "example_encode 1 = ''r1.''" "example_encode 2 = ''r2.''" "length (example_encode max_u64) = 22"
  by (simp_all add: example_encode_def to_string.simps digit_chars unat_max_u64)

lemma example_added:
  "AddStream ''s'' 1 1 (mk_manager ''g'') = (True, (mk_manager ''g'')\<lparr>cm_streams :=
     [(''s:1'', \<lparr>st_generation = 1, st_queue_limit = 1, st_outstanding = 0, st_queued = 0,
        st_last_transmitted = 0, st_live = True\<rparr>)]\<rparr>)"
  by (simp add: AddStream_def mk_manager_def Key_def to_string_small digit_chars Let_def)

lemma example_first:
  "Submit log_tx ''s'' 1 example_encode (snd (AddStream ''s'' 1 1 (mk_manager ''g'')), []) =
   (SR_Transmitted,
    (mk_manager ''g'')\<lparr>cm_streams :=
       [(''s:1'', \<lparr>st_generation = 1, st_queue_limit = 1, st_outstanding = 1, st_queued = 0,
          st_last_transmitted = 1, st_live = True\<rparr>)],
     cm_outstanding := [\<lparr>fr_subscription_id = ''s'', fr_generation = 1, fr_sequence = 1,
       fr_encoded = ''r1.'', fr_encode = example_encode, fr_cumulative_bytes = 4\<rparr>],
     cm_next_sequence := 2, cm_cumulative_transmitted_bytes := 4, cm_outstanding_bytes := 4\<rparr>,
    [''r1.''])"
  unfolding example_added snd_conv
  by (simp add: Submit_def TransmitFrame_def CanTransmit_def mk_manager_def Key_def
      to_string_small digit_chars Let_def example_encodings kSessionByteCredit_def log_tx_def
      kSessionReportCredit_def kStreamReportCredit_def next_report_byte_count_def unat_max_u64)

lemma example_run:
  "credit_run log_tx ''g'' [] example_ops =
   ([CA_Bool True, CA_Submit SR_Transmitted, CA_Submit SR_Queued],
    (mk_manager ''g'')\<lparr>cm_streams :=
       [(''s:1'', \<lparr>st_generation = 1, st_queue_limit = 1, st_outstanding = 1, st_queued = 1,
          st_last_transmitted = 1, st_live = True\<rparr>)],
     cm_queued := [\<lparr>fr_subscription_id = ''s'', fr_generation = 1, fr_sequence = 0,
       fr_encoded = example_encode max_u64, fr_encode = example_encode, fr_cumulative_bytes = 0\<rparr>],
     cm_outstanding := [\<lparr>fr_subscription_id = ''s'', fr_generation = 1, fr_sequence = 1,
       fr_encoded = ''r1.'', fr_encode = example_encode, fr_cumulative_bytes = 4\<rparr>],
     cm_next_sequence := 2, cm_cumulative_transmitted_bytes := 4, cm_outstanding_bytes := 4,
     cm_queued_bytes := 23\<rparr>,
    [''r1.''])"
  using example_first
  by (simp add: credit_run_def example_ops_def example_added)
     (simp add: Submit_def CanTransmit_def mk_manager_def Key_def
      to_string_small digit_chars Let_def example_encodings kSessionByteCredit_def
      kSessionReportCredit_def kStreamReportCredit_def kMaximumQueuedReports_def
      kMaximumQueuedBytes_def)

theorem credit_no_deadlock_witness:
  "length (cm_queued (credit_state log_tx ''g'' [] example_ops)) = 1 \<and>
   cm_outstanding (credit_state log_tx ''g'' [] example_ops) \<noteq> []"
proof -
  have "list_all reserving_op example_ops"
    by (simp add: example_ops_def reserving_op_def example_reserves)
  then show ?thesis
    using credit_no_deadlock [of example_ops log_tx "''g''" "[]"] example_run
    by (simp add: failed_answer_def credit_state_def)
qed

theorem retire_barrier_witness:
  "\<not> IsLive ''s'' 1 (fst (snd (Retire log_tx ''s'' 1 ''bye''
      (credit_state log_tx ''g'' [] example_ops, []))))"
proof -
  have "IsLive ''s'' 1 (credit_state log_tx ''g'' [] example_ops)"
    by (simp add: example_run credit_state_def IsLive_def Key_def to_string_small digit_chars)
  then show ?thesis
    using retire_barrier [of "''s''" 1 log_tx "''g''" "[]" example_ops "''bye''" "[]"]
    by (metis prod.collapse)
qed

theorem acknowledge_exact_witness:
  "ack_valid (credit_state log_tx ''g'' [] example_ops) 1 4 \<and>
   cm_outstanding (acknowledged 1 4 (credit_state log_tx ''g'' [] example_ops)) =
     drop (ack_frames (credit_state log_tx ''g'' [] example_ops) 1)
       (cm_outstanding (credit_state log_tx ''g'' [] example_ops))"
proof -
  have "ack_valid (credit_state log_tx ''g'' [] example_ops) 1 4"
    by (simp add: example_run credit_state_def ack_valid_def ack_frames_def mk_manager_def
        frame_bytes_def)
  then show ?thesis
    using acknowledge_exact [of log_tx 1 4 "''g''" "[]" example_ops "[]"] by blast
qed

end
