(* ===== verification/WireDecode.thy ===== *)
theory WireDecode
  imports Commissioning ReportCredit Json
begin

text \<open>
  The request decoders of \<^verbatim>\<open>native/src/protocol.cpp\<close> (\<open>ExactKeys\<close> to
  \<open>CommissioningWindowParameters\<close>): from a bounded JSON document to the request structures.  A decoder
  that returns a flag and fills an output parameter is a function into \<open>option\<close>.
\<close>

section \<open>Envelope\<close>

definition ExactKeys :: "json \<Rightarrow> string list \<Rightarrow> bool" where
  "ExactKeys j keys =
     (if \<not> is_object j \<or> json_size j \<noteq> length keys then False else list_all (contains j) keys)"

definition CanonicalGeneration :: "json \<Rightarrow> string option" where
  "CanonicalGeneration j =
     (if \<not> is_string j then None
      else let generation = get_string j
           in if length generation = 32 \<and> list_all hex_digit generation then Some generation else None)"

definition CanonicalSubscriptionId :: "json \<Rightarrow> string option" where
  "CanonicalSubscriptionId j = CanonicalGeneration j"

text \<open>\<open>std::from_chars\<close> into an unsigned 64-bit number, base ten: the longest digit prefix, an error
  when there is none or the value does not fit.\<close>

definition decimal_digit :: "char \<Rightarrow> bool" where
  "decimal_digit c \<longleftrightarrow> of_char c \<ge> (48 :: nat) \<and> of_char c \<le> (57 :: nat)"

definition digits_value :: "string \<Rightarrow> nat" where
  "digits_value ds = foldl (\<lambda>a c. 10 * a + (of_char c - 48)) 0 ds"

definition from_chars :: "string \<Rightarrow> (u64 \<times> string) option" where
  "from_chars text =
     (let ds = takeWhile decimal_digit text
      in if ds = [] \<or> digits_value ds \<ge> 2 ^ 64 then None
         else Some (of_nat (digits_value ds), dropWhile decimal_digit text))"

definition CanonicalRequestId :: "json \<Rightarrow> u64 option" where
  "CanonicalRequestId j =
     (if \<not> is_string j then None
      else let text = get_string j
           in if text = [] \<or> hd text = CHR ''0'' then None
              else case from_chars text of
                None \<Rightarrow> None
              | Some (request_id, rest) \<Rightarrow>
                  if rest = [] \<and> request_id > 0 then Some request_id else None)"

definition kProtocolVersion :: u64 where "kProtocolVersion = 1"

text \<open>The request id is zero for the reserved id \<open>close\<close>.\<close>

definition ValidRequestEnvelope :: "json \<Rightarrow> u64 option" where
  "ValidRequestEnvelope request =
     (if \<not> (ExactKeys request [''version'', ''id'', ''operation'', ''parameters'', ''timeout_ms''] \<and>
            is_number_unsigned (at_key request ''version'') \<and>
            get_unsigned (at_key request ''version'') = kProtocolVersion \<and>
            is_string (at_key request ''operation'') \<and> is_object (at_key request ''parameters''))
      then None
      else
        let identity =
          (case CanonicalRequestId (at_key request ''id'') of
             Some request_id \<Rightarrow> Some request_id
           | None \<Rightarrow>
               if at_key request ''id'' = JStr ''close'' \<and>
                  at_key request ''operation'' = JStr ''close'' \<and>
                  members (at_key request ''parameters'') = []
               then Some 0 else None)
        in case identity of
             None \<Rightarrow> None
           | Some request_id \<Rightarrow>
               if is_number_unsigned (at_key request ''timeout_ms'') \<and>
                  get_unsigned (at_key request ''timeout_ms'') \<ge> 1 \<and>
                  get_unsigned (at_key request ''timeout_ms'') \<le> 60000
               then Some request_id else None)"

definition AbsolutePath :: "json \<Rightarrow> string option" where
  "AbsolutePath j =
     (if \<not> is_string j then None
      else let path = get_string j
           in if path \<noteq> [] \<and> hd path = CHR ''/'' \<and> CHR 0x00 \<notin> set path then Some path else None)"

record NativeOpenOptions =
  no_lifecycle :: string
  no_storage_path :: string
  no_storage_mode :: string
  no_authority :: string
  no_paa_trust_store :: string
  no_fabric_id :: u64
  no_controller_node_id :: u64
  no_vendor_id :: u16
  no_timeout_ms :: u32

definition OpenOptions :: "json \<Rightarrow> NativeOpenOptions option" where
  "OpenOptions p =
     (if \<not> ExactKeys p [''lifecycle'', ''storage_path'', ''storage_mode'', ''authority'',
            ''vendor_id'', ''fabric_id'', ''controller_node_id'', ''paa_trust_store''] \<or>
         \<not> is_string (at_key p ''lifecycle'') \<or> \<not> is_string (at_key p ''storage_mode'') \<or>
         \<not> is_string (at_key p ''authority'') \<or> \<not> is_number_unsigned (at_key p ''vendor_id'') \<or>
         \<not> is_number_unsigned (at_key p ''fabric_id'') \<or>
         \<not> is_number_unsigned (at_key p ''controller_node_id'')
      then None
      else
        let lifecycle = get_string (at_key p ''lifecycle'');
            storage_mode = get_string (at_key p ''storage_mode'');
            authority = get_string (at_key p ''authority'');
            vendor = get_unsigned (at_key p ''vendor_id'');
            fabric = get_unsigned (at_key p ''fabric_id'');
            node = get_unsigned (at_key p ''controller_node_id'');
            mode = (storage_mode = ''create_new'' \<and> authority = ''generate_root'') \<or>
                   (storage_mode = ''open_existing'' \<and> authority = ''stored'')
        in if lifecycle \<noteq> ''persistent'' \<or> \<not> mode \<or> vendor = 0 \<or> vendor \<ge> 0xFFFF \<or> fabric = 0 \<or>
              node = 0 \<or> node > kMaximumOperationalNode
           then None
           else case (AbsolutePath (at_key p ''storage_path''), AbsolutePath (at_key p ''paa_trust_store'')) of
             (Some storage_path, Some paa) \<Rightarrow>
               Some \<lparr>no_lifecycle = lifecycle, no_storage_path = storage_path,
                     no_storage_mode = storage_mode, no_authority = authority,
                     no_paa_trust_store = paa, no_fabric_id = fabric,
                     no_controller_node_id = node, no_vendor_id = ucast vendor, no_timeout_ms = 0\<rparr>
           | _ \<Rightarrow> None)"

section \<open>Paths and values\<close>

definition Unsigned :: "json \<Rightarrow> u64 \<Rightarrow> u64 option" where
  "Unsigned j maximum =
     (if \<not> is_number_unsigned j then None
      else let result = get_unsigned j in if result \<le> maximum then Some result else None)"

definition PathComponent :: "json \<Rightarrow> u64 \<Rightarrow> u64 option option" where
  "PathComponent j maximum =
     (if is_string j \<and> get_string j = ''any'' then Some None
      else map_option Some (Unsigned j maximum))"

definition Selector :: "json \<Rightarrow> bool \<Rightarrow> PathSelector option" where
  "Selector j wildcards =
     (if \<not> ExactKeys j [''fabric_id'', ''node_id'', ''endpoint'', ''cluster'', ''member''] then None
      else case (Unsigned (at_key j ''fabric_id'') max_u64,
                 Unsigned (at_key j ''node_id'') kMaximumOperationalNode) of
        (Some fabric, Some node) \<Rightarrow>
          if fabric = 0 \<or> node = 0 then None
          else case (PathComponent (at_key j ''endpoint'') 0xFFFE,
                     PathComponent (at_key j ''cluster'') 0xFFF4FFFE,
                     PathComponent (at_key j ''member'') 0xFFFFFFFE) of
            (Some endpoint, Some cluster, Some member) \<Rightarrow>
              if (\<not> wildcards \<and> (endpoint = None \<or> cluster = None \<or> member = None)) \<or>
                 (case cluster of None \<Rightarrow> False | Some c \<Rightarrow> \<not> valid_cluster (ucast c))
              then None
              else Some \<lparr>ps_fabric_id = fabric, ps_node_id = node,
                         ps_endpoint = map_option ucast endpoint,
                         ps_cluster = map_option ucast cluster,
                         ps_member = map_option ucast member\<rparr>
          | _ \<Rightarrow> None
      | _ \<Rightarrow> None)"

definition TagValue :: "json \<Rightarrow> Tag option" where
  "TagValue j =
     (if is_string j \<and> get_string j = ''anonymous'' then Some anonymous
      else case j of
        JArr [kind, i] \<Rightarrow>
          if is_string kind \<and> get_string kind = ''context'' \<and> is_number_unsigned i \<and> get_unsigned i \<le> 255
          then Some (Tag TK_Context (ucast (get_unsigned i))) else None
      | _ \<Rightarrow> None)"

text \<open>\<open>is_number_integer\<close> holds for signed and unsigned numbers; \<open>get<std::int64_t>\<close> of an unsigned
  one keeps its 64 bits.\<close>

fun is_number_integer :: "json \<Rightarrow> bool" where
  "is_number_integer (JInt _) = True"
| "is_number_integer (JUint _) = True"
| "is_number_integer _ = False"

fun get_integer :: "json \<Rightarrow> i64" where
  "get_integer (JInt v) = v"
| "get_integer (JUint v) = v"
| "get_integer _ = 0"

lemma size_at_key:
  assumes "is_array (at_key j k)"
  shows "size_list size (elements (at_key j k)) < size j"
proof (cases j)
  case (JObj ms)
  obtain v where v: "map_of ms k = Some v" "at_key j k = v"
    using assms JObj by (auto simp: at_key_def split: option.splits)
  then have "(k, v) \<in> set ms" by (simp add: map_of_SomeD)
  then have "size v \<le> size_list (size_prod (\<lambda>x. 0) size) ms"
    by (rule size_list_estimation') simp
  moreover obtain xs where "v = JArr xs" using assms v by (cases v) auto
  ultimately show ?thesis using v JObj by simp
qed (use assms in \<open>simp_all add: at_key_def\<close>)

text \<open>
  \<open>ElementValue\<close> with its depth and the running count of nodes; \<open>None\<close> is \<open>return false\<close>.  The second
  function is the loop over the children.
\<close>

function ElementValue :: "json \<Rightarrow> nat \<Rightarrow> nat \<Rightarrow> (Element \<times> nat) option"
  and element_values :: "json list \<Rightarrow> nat \<Rightarrow> nat \<Rightarrow> (Element list \<times> nat) option" where
  "ElementValue j depth nodes =
     (if nodes + 1 > 1024 \<or> depth > 8 \<or> \<not> ExactKeys j [''tag'', ''type'', ''value''] then None
      else case TagValue (at_key j ''tag'') of
        None \<Rightarrow> None
      | Some tag \<Rightarrow>
          if \<not> is_string (at_key j ''type'') then None
          else
            let type = get_string (at_key j ''type'');
                body = at_key j ''value''
            in if type = ''null'' \<and> body = JNull
               then Some (Element tag ET_Null 0 0 False [], nodes + 1)
               else if type = ''i16'' \<and> is_number_integer body
               then (let integer = get_integer body
                     in if sint integer < - 32768 \<or> sint integer > 32767 then None
                        else Some (Element tag ET_I16 integer 0 False [], nodes + 1))
               else if (type = ''u8'' \<or> type = ''u16'' \<or> type = ''u32'' \<or> type = ''u64'') \<and>
                       is_number_unsigned body
               then (let integer = get_unsigned body;
                         maximum = (if type = ''u8'' then 0xFF else if type = ''u16'' then 0xFFFF
                                    else if type = ''u32'' then 0xFFFFFFFF else max_u64)
                     in if integer > maximum then None
                        else Some (Element tag
                          (if type = ''u8'' then ET_U8 else if type = ''u16'' then ET_U16
                           else if type = ''u32'' then ET_U32 else ET_U64) 0 integer False [],
                          nodes + 1))
               else if type = ''boolean'' \<and> is_boolean body
               then Some (Element tag ET_Boolean 0 0 (get_boolean body) [], nodes + 1)
               else if (type = ''structure'' \<or> type = ''array'') \<and> is_array body \<and>
                       length (elements body) \<le> 1023
               then (case element_values (elements body) (depth + 1) (nodes + 1) of
                       None \<Rightarrow> None
                     | Some (cs, n) \<Rightarrow>
                         Some (Element tag (if type = ''structure'' then ET_Structure else ET_Array)
                           0 0 False cs, n))
               else None)"
| "element_values [] depth nodes = Some ([], nodes)"
| "element_values (j # js) depth nodes =
     (case ElementValue j depth nodes of
        None \<Rightarrow> None
      | Some (c, n) \<Rightarrow>
          (case element_values js depth n of
             None \<Rightarrow> None | Some (cs, n') \<Rightarrow> Some (c # cs, n')))"
  by pat_completeness auto
termination
  by (relation "measure (case_sum (\<lambda>(j, d, n). 2 * size j + 1) (\<lambda>(js, d, n). 2 * size_list size js))")
     (auto dest: size_at_key)

declare ElementValue.simps [simp del]

section \<open>Requests\<close>

text \<open>An absent option is \<open>Some None\<close>.\<close>

definition OptionalUint :: "json \<Rightarrow> string \<Rightarrow> u64 \<Rightarrow> u64 option option" where
  "OptionalUint p k maximum =
     (case map_of (members p) k of
        None \<Rightarrow> Some None
      | Some v \<Rightarrow> map_option Some (Unsigned v maximum))"

fun selectors :: "json list \<Rightarrow> bool \<Rightarrow> PathSelector list option" where
  "selectors [] wildcards = Some []"
| "selectors (j # js) wildcards =
     (case Selector j wildcards of
        None \<Rightarrow> None
      | Some s \<Rightarrow> map_option ((#) s) (selectors js wildcards))"

definition path_keys :: "string list" where
  "path_keys = [''fabric_id'', ''node_id'', ''endpoint'', ''cluster'', ''member'']"

definition request_paths :: "string \<Rightarrow> json \<Rightarrow> PathSelector list option" where
  "request_paths operation p =
     (if operation = ''read'' \<or> operation = ''write'' \<or> operation = ''invoke''
      then (if \<not> list_all (contains p) path_keys then None
            else map_option (\<lambda>s. [s]) (Selector (JObj (map (\<lambda>k. (k, at_key p k)) path_keys)) False))
      else if \<not> contains p ''paths'' \<or> \<not> is_array (at_key p ''paths'') \<or>
              elements (at_key p ''paths'') = [] \<or>
              length (elements (at_key p ''paths'')) > kMaximumInteractionPaths
      then None
      else selectors (elements (at_key p ''paths'')) (operation = ''read_paths''))"

definition InteractionParameters :: "string \<Rightarrow> json \<Rightarrow> u32 \<Rightarrow> InteractionRequest option" where
  "InteractionParameters operation p timeout_ms =
     (let single = operation = ''read'' \<or> operation = ''write'' \<or> operation = ''invoke'';
          paths = operation = ''read_paths'' \<or> operation = ''read_events''
      in if \<not> single \<and> \<not> paths then None
         else case request_paths operation p of
           None \<Rightarrow> None
         | Some selected \<Rightarrow>
             case (OptionalUint p ''expected_data_version'' 0xFFFFFFFF,
                   OptionalUint p ''timed_request_timeout_ms'' 65535,
                   OptionalUint p ''min_event_number'' max_u64) of
               (Some expected, Some timed, Some minimum_event) \<Rightarrow>
                 if timed = Some 0 then None
                 else
                   let mutation = operation = ''write'' \<or> operation = ''invoke'';
                       v = (if mutation \<and> contains p ''value''
                            then map_option fst (ElementValue (at_key p ''value'') 0 0) else None)
                   in if mutation \<and> v = None then None
                      else
                        let request =
                          \<lparr>rq_kind = (if operation = ''read'' then IK_ReadAttribute
                                      else if operation = ''read_paths'' then IK_ReadAttributes
                                      else if operation = ''read_events'' then IK_ReadEvents
                                      else if operation = ''write'' then IK_Write else IK_Invoke),
                           rq_fabric_id = ps_fabric_id (hd selected),
                           rq_node_id = ps_node_id (hd selected), rq_paths = selected, rq_value = v,
                           rq_expected_data_version = map_option ucast expected,
                           rq_timed_request_timeout_ms = map_option ucast timed,
                           rq_minimum_event_number = minimum_event, rq_timeout_ms = timeout_ms\<rparr>;
                          option_keys = length (filter (contains p)
                            [''value'', ''expected_data_version'', ''timed_request_timeout_ms'',
                             ''min_event_number''])
                        in if json_size p = (if single then 5 else 1) + option_keys \<and>
                              valid_interaction_request request
                           then Some request else None
             | _ \<Rightarrow> None)"

definition SubscriptionParameters :: "json \<Rightarrow> u32 \<Rightarrow> SubscriptionRequest option" where
  "SubscriptionParameters p timeout_ms =
     (if \<not> ExactKeys p [''subscription_id'', ''kind'', ''paths'', ''min_interval_s'',
            ''max_interval_s'', ''resubscribe'', ''queue_limit'']
      then None
      else case CanonicalSubscriptionId (at_key p ''subscription_id'') of
        None \<Rightarrow> None
      | Some identity \<Rightarrow>
          if \<not> is_string (at_key p ''kind'') \<or> \<not> is_array (at_key p ''paths'') \<or>
             elements (at_key p ''paths'') = [] \<or> length (elements (at_key p ''paths'')) > 64 \<or>
             \<not> is_boolean (at_key p ''resubscribe'')
          then None
          else
            let kind = get_string (at_key p ''kind'')
            in if kind \<noteq> ''attribute'' \<and> kind \<noteq> ''event'' then None
               else case (Unsigned (at_key p ''min_interval_s'') 65535,
                          Unsigned (at_key p ''max_interval_s'') 65535,
                          Unsigned (at_key p ''queue_limit'') 10000) of
                 (Some minimum, Some maximum, Some queue_limit) \<Rightarrow>
                   if maximum = 0 \<or> queue_limit = 0 then None
                   else (case selectors (elements (at_key p ''paths'')) False of
                     None \<Rightarrow> None
                   | Some selected \<Rightarrow>
                       let request =
                         \<lparr>sr_subscription_id = identity,
                          sr_kind = (if kind = ''attribute'' then SK_Attribute else SK_Event),
                          sr_fabric_id = ps_fabric_id (hd selected),
                          sr_node_id = ps_node_id (hd selected), sr_paths = selected,
                          sr_min_interval_s = ucast minimum, sr_max_interval_s = ucast maximum,
                          sr_resubscribe = get_boolean (at_key p ''resubscribe''),
                          sr_queue_limit = ucast queue_limit, sr_timeout_ms = timeout_ms\<rparr>
                       in if valid_subscription_request request then Some request else None)
               | _ \<Rightarrow> None)"

definition UnsubscribeParameters :: "json \<Rightarrow> (string \<times> u64) option" where
  "UnsubscribeParameters p =
     (if \<not> ExactKeys p [''subscription_id'', ''generation''] then None
      else case (CanonicalSubscriptionId (at_key p ''subscription_id''),
                 Unsigned (at_key p ''generation'') max_u64) of
        (Some identity, Some gen) \<Rightarrow> if gen > 0 then Some (identity, gen) else None
      | _ \<Rightarrow> None)"

definition CommissioningParameters :: "json \<Rightarrow> u32 \<Rightarrow> CommissioningRequest option" where
  "CommissioningParameters p timeout_ms =
     (if \<not> ExactKeys p [''node_id'', ''setup_pin'', ''discriminator''] then None
      else case (Unsigned (at_key p ''node_id'') kMaximumOperationalNode,
                 Unsigned (at_key p ''setup_pin'') 99999998,
                 Unsigned (at_key p ''discriminator'') 4095) of
        (Some node, Some pin, Some disc) \<Rightarrow>
          let request = \<lparr>cq_node_id = node, cq_setup_pin = ucast pin, cq_discriminator = ucast disc,
                         cq_timeout_ms = timeout_ms\<rparr>
          in if valid_commissioning_request request then Some request else None
      | _ \<Rightarrow> None)"

definition CommissioningWindowParameters :: "json \<Rightarrow> u32 \<Rightarrow> CommissioningWindowRequest option" where
  "CommissioningWindowParameters p timeout_ms =
     (if \<not> ExactKeys p [''node_id'', ''timeout_s'', ''iteration_count'', ''discriminator''] then None
      else case (Unsigned (at_key p ''node_id'') kMaximumOperationalNode,
                 Unsigned (at_key p ''timeout_s'') 900,
                 Unsigned (at_key p ''iteration_count'') 100000,
                 Unsigned (at_key p ''discriminator'') 4095) of
        (Some node, Some seconds, Some iterations, Some disc) \<Rightarrow>
          let request = \<lparr>wq_node_id = node, wq_timeout_s = ucast seconds,
                         wq_iteration_count = ucast iterations, wq_discriminator = ucast disc,
                         wq_timeout_ms = timeout_ms\<rparr>
          in if valid_commissioning_window_request request then Some request else None
      | _ \<Rightarrow> None)"

section \<open>Request identifiers\<close>

lemma digit_char_decimal: "d < 10 \<Longrightarrow> decimal_digit (digit_char d)"
  by (simp add: decimal_digit_def of_char_digit)

lemma to_string_decimal: "list_all decimal_digit (to_string n)"
proof (induction n rule: to_string.induct)
  case (1 n)
  then show ?case
    by (cases "n < 10") (simp_all add: to_string_small to_string_step digit_char_decimal)
qed

lemma digits_value_to_string: "digits_value (to_string n) = n"
  by (simp add: digits_value_def to_string_value)

lemma decimal_digit_char: "decimal_digit c \<Longrightarrow> digit_char (of_char c - 48) = c \<and> of_char c - 48 < (10 :: nat)"
  by (auto simp: decimal_digit_def digit_char_def)

lemma digits_value_snoc: "digits_value (ds @ [c]) = 10 * digits_value ds + (of_char c - 48)"
  by (simp add: digits_value_def)

lemma digit_char_zero: "digit_char 0 = CHR ''0''"
  by code_simp

text \<open>A digit string without a leading zero is the decimal numeral of its value.\<close>

lemma to_string_digits_value:
  "list_all decimal_digit ds \<Longrightarrow> ds \<noteq> [] \<Longrightarrow> hd ds \<noteq> CHR ''0'' \<Longrightarrow>
     to_string (digits_value ds) = ds \<and> 0 < digits_value ds"
proof (induction ds rule: rev_induct)
  case (snoc c ds)
  define d where "d = (of_char c - 48 :: nat)"
  have c: "digit_char d = c" "d < 10"
    using snoc.prems(1) decimal_digit_char [of c] by (simp_all add: d_def)
  show ?case
  proof (cases "ds = []")
    case True
    then have "c \<noteq> CHR ''0''" using snoc.prems(3) by simp
    then have "d \<noteq> 0" using c(1) digit_char_zero by metis
    then show ?thesis using True c
      by (simp add: digits_value_def d_def [symmetric] to_string_small)
  next
    case False
    then have IH: "to_string (digits_value ds) = ds" "0 < digits_value ds"
      using snoc by (simp_all add: hd_append)
    have "\<not> 10 * digits_value ds + d < 10" using IH(2) by simp
    then show ?thesis
      using c IH by (simp add: digits_value_snoc d_def [symmetric] to_string_step)
  qed
qed simp

lemma digit_char_nonzero: "0 < d \<Longrightarrow> d < 10 \<Longrightarrow> digit_char d \<noteq> CHR ''0''"
  by (metis add.right_neutral add_left_cancel digit_char_zero less_irrefl of_char_digit zero_less_numeral)

lemma to_string_head: "0 < n \<Longrightarrow> to_string n \<noteq> [] \<and> hd (to_string n) \<noteq> CHR ''0''"
proof (induction n rule: to_string.induct)
  case (1 n)
  show ?case
  proof (cases "n < 10")
    case True
    then show ?thesis using 1 by (simp add: to_string_small digit_char_nonzero)
  next
    case False
    then show ?thesis using 1 by (simp add: to_string_step)
  qed
qed

section \<open>Decoded elements are well formed\<close>

text \<open>The nodes of an element, and the bounds on nesting and on the number of children.\<close>

fun element_count :: "Element \<Rightarrow> nat" where
  "element_count (Element t ty s u b cs) = Suc (sum_list (map element_count cs))"

fun element_fits :: "nat \<Rightarrow> Element \<Rightarrow> bool" where
  "element_fits d (Element t ty s u b cs) \<longleftrightarrow>
     d \<le> 8 \<and> length cs \<le> 1023 \<and> list_all (element_fits (Suc d)) cs"

lemma TagValue_wf: "TagValue j = Some t \<Longrightarrow> wf_tag t"
  by (auto simp: TagValue_def wf_tag_def split: if_splits json.splits list.splits)

lemma element_values_length: "element_values js d n = Some (cs, n') \<Longrightarrow> length cs = length js"
  by (induction js arbitrary: n cs n') (auto split: option.splits prod.splits)

text \<open>What an accepted element was read from.\<close>

lemma ElementValue_cases:
  assumes "ElementValue j d n = Some (e, n')"
  obtains (scalar) t ty s u b where "e = Element t ty s u b []" "wf_element e" "n' = n + 1"
    "n + 1 \<le> 1024" "d \<le> 8"
  | (children) t ty cs where "e = Element t ty 0 0 False cs" "ty \<in> {ET_Structure, ET_Array}"
    "wf_tag t" "is_array (at_key j ''value'')" "length (elements (at_key j ''value'')) \<le> 1023"
    "element_values (elements (at_key j ''value'')) (d + 1) (n + 1) = Some (cs, n')"
    "n + 1 \<le> 1024" "d \<le> 8"
proof -
  obtain tag where tag: "TagValue (at_key j ''tag'') = Some tag"
    and g: "n + 1 \<le> 1024" "d \<le> 8" "ExactKeys j [''tag'', ''type'', ''value'']"
      "is_string (at_key j ''type'')"
    using assms by (subst (asm) ElementValue.simps) (auto split: if_splits option.splits)
  define type where "type = get_string (at_key j ''type'')"
  define body where "body = at_key j ''value''"
  define c1 where "c1 \<longleftrightarrow> type = ''null'' \<and> body = JNull"
  define c2 where "c2 \<longleftrightarrow> type = ''i16'' \<and> is_number_integer body"
  define c3 where "c3 \<longleftrightarrow> (type = ''u8'' \<or> type = ''u16'' \<or> type = ''u32'' \<or> type = ''u64'') \<and>
    is_number_unsigned body"
  define c4 where "c4 \<longleftrightarrow> type = ''boolean'' \<and> is_boolean body"
  define c5 where "c5 \<longleftrightarrow> (type = ''structure'' \<or> type = ''array'') \<and> is_array body \<and>
    length (elements body) \<le> 1023"
  define ty where "ty = (if type = ''u8'' then ET_U8 else if type = ''u16'' then ET_U16
    else if type = ''u32'' then ET_U32 else ET_U64)"
  define top where "top = (if type = ''u8'' then 0xFF else if type = ''u16'' then 0xFFFF
    else if type = ''u32'' then 0xFFFFFFFF else max_u64)"
  have top: "top = unsigned_maximum ty" by (simp add: top_def ty_def)
  define cty where "cty = (if type = ''structure'' then ET_Structure else ET_Array)"
  note wf = TagValue_wf [OF tag]
  have guard: "(n + 1 > 1024 \<or> d > 8 \<or> \<not> ExactKeys j [''tag'', ''type'', ''value'']) = False"
    and string: "(\<not> is_string (at_key j ''type'')) = False" using g by auto
  have unfolded: "(if c1 then Some (Element tag ET_Null 0 0 False [], n + 1)
     else if c2 then (if sint (get_integer body) < - 32768 \<or> sint (get_integer body) > 32767 then None
       else Some (Element tag ET_I16 (get_integer body) 0 False [], n + 1))
     else if c3 then (if get_unsigned body > top then None
       else Some (Element tag ty 0 (get_unsigned body) False [], n + 1))
     else if c4 then Some (Element tag ET_Boolean 0 0 (get_boolean body) [], n + 1)
     else if c5 then (case element_values (elements body) (d + 1) (n + 1) of
         None \<Rightarrow> None | Some (cs, n) \<Rightarrow> Some (Element tag cty 0 0 False cs, n))
     else None) = Some (e, n')"
    using assms unfolding ElementValue.simps [of j]
    by (simp only: guard string tag Let_def type_def [symmetric] body_def [symmetric] c1_def [symmetric]
        c2_def [symmetric] c3_def [symmetric] c4_def [symmetric] c5_def [symmetric]
        ty_def [symmetric] top_def [symmetric] cty_def [symmetric] option.case if_False)
  consider c1 | "\<not> c1" c2 | "\<not> c1" "\<not> c2" c3 | "\<not> c1" "\<not> c2" "\<not> c3" c4
    | "\<not> c1" "\<not> c2" "\<not> c3" "\<not> c4" c5 | "\<not> c1" "\<not> c2" "\<not> c3" "\<not> c4" "\<not> c5" by blast
  then show thesis
  proof cases
    case 5
    obtain cs where "element_values (elements body) (d + 1) (n + 1) = Some (cs, n')"
      "e = Element tag cty 0 0 False cs"
      using unfolded 5 by (auto split: option.splits)
    then show thesis
      using 5(5) wf g by (intro children) (auto simp: c5_def cty_def body_def)
  next
    case 3
    have "ty \<in> {ET_U8, ET_U16, ET_U32, ET_U64}" by (simp add: ty_def)
    moreover have e: "e = Element tag ty 0 (get_unsigned body) False []" "n' = n + 1"
      "\<not> get_unsigned body > unsigned_maximum ty"
      using unfolded 3 by (auto simp: top split: if_splits)
    ultimately have "wf_element e" using wf by auto
    then show thesis using e g by (intro scalar)
  next
    case 4
    then have "e = Element tag ET_Boolean 0 0 (get_boolean body) []" "n' = n + 1"
      using unfolded by simp_all
    then show thesis using wf g by (intro scalar) simp_all
  qed (use unfolded wf g in \<open>auto intro!: scalar simp: in_i16_def split: if_splits\<close>)
qed

definition decodes_ok :: "json \<Rightarrow> bool" where
  "decodes_ok j \<longleftrightarrow> (\<forall>d n e n'. ElementValue j d n = Some (e, n') \<longrightarrow>
     wf_element e \<and> element_fits d e \<and> n' = n + element_count e \<and> n' \<le> 1024)"

lemma element_values_ok:
  assumes "\<forall>j\<in>set js. decodes_ok j" "n \<le> 1024" "element_values js d n = Some (cs, n')"
  shows "list_all wf_element cs \<and> list_all (element_fits d) cs \<and> length cs = length js \<and>
     n' = n + sum_list (map element_count cs) \<and> n' \<le> 1024"
  using assms
proof (induction js arbitrary: n cs n')
  case (Cons j js)
  then obtain c n1 cs1 where c: "ElementValue j d n = Some (c, n1)"
    and cs1: "element_values js d n1 = Some (cs1, n')" and cs: "cs = c # cs1"
    by (auto split: option.splits prod.splits)
  have "wf_element c \<and> element_fits d c \<and> n1 = n + element_count c \<and> n1 \<le> 1024"
    using Cons.prems(1) c unfolding decodes_ok_def by simp
  then show ?case using Cons.IH [OF _ _ cs1] Cons.prems(1) by (simp add: cs)
qed simp

lemma ElementValue_ok: "decodes_ok j"
proof (induction "size j" arbitrary: j rule: less_induct)
  case less
  show ?case
    unfolding decodes_ok_def
  proof (intro allI impI)
    fix d n e n'
    assume "ElementValue j d n = Some (e, n')"
    then show "wf_element e \<and> element_fits d e \<and> n' = n + element_count e \<and> n' \<le> 1024"
    proof (cases rule: ElementValue_cases)
      case (children t ty cs)
      have "decodes_ok c" if "c \<in> set (elements (at_key j ''value''))" for c
      proof -
        have "size c \<le> size_list size (elements (at_key j ''value''))"
          by (rule size_list_estimation' [OF that]) simp
        then show ?thesis using size_at_key [OF children(4)] less by simp
      qed
      then have "list_all wf_element cs \<and> list_all (element_fits (d + 1)) cs \<and>
          length cs = length (elements (at_key j ''value'')) \<and>
          n' = n + 1 + sum_list (map element_count cs) \<and> n' \<le> 1024"
        using element_values_ok [OF _ children(7,6)] by blast
      then show ?thesis using children by auto
    qed auto
  qed
qed

section \<open>Properties\<close>

text \<open>
  Request identifiers are canonical: a request id is accepted exactly when the string
  is the decimal numeral of a positive 64-bit number, so leading zeros, signs, trailing characters
  and overflow are all refused and equal numbers have equal spellings.
\<close>

theorem CanonicalRequestId_iff:
  "CanonicalRequestId (JStr s) = Some n \<longleftrightarrow> n > 0 \<and> s = to_string (unat n)"
proof
  assume ok: "CanonicalRequestId (JStr s) = Some n"
  then have s: "s \<noteq> []" "hd s \<noteq> CHR ''0''" "dropWhile decimal_digit s = []"
    and v: "digits_value (takeWhile decimal_digit s) < 2 ^ 64"
      "n = of_nat (digits_value (takeWhile decimal_digit s))" "n > 0"
    by (auto simp: CanonicalRequestId_def from_chars_def Let_def split: if_splits option.splits)
  have all: "list_all decimal_digit s" using s(3) by (simp add: dropWhile_eq_Nil_conv list_all_iff)
  then have tw: "takeWhile decimal_digit s = s" by (simp add: takeWhile_eq_all_conv list_all_iff)
  have "unat n = digits_value s" using v tw by (simp add: unat_of_nat)
  then show "n > 0 \<and> s = to_string (unat n)"
    using to_string_digits_value [OF all s(1,2)] v(3) by simp
next
  assume n: "n > 0 \<and> s = to_string (unat n)"
  have all: "\<forall>c\<in>set s. decimal_digit c" using n to_string_decimal by (simp add: list_all_iff)
  then have tw: "takeWhile decimal_digit s = s" "dropWhile decimal_digit s = []"
    by (simp_all add: takeWhile_eq_all_conv dropWhile_eq_Nil_conv)
  have "0 < unat n" using n by (simp add: word_less_nat_alt)
  then have "s \<noteq> []" "hd s \<noteq> CHR ''0''"
    using n to_string_head [of "unat n"] by simp_all
  moreover have "digits_value s = unat n" "0 < n" using n by (simp_all add: digits_value_to_string)
  ultimately show "CanonicalRequestId (JStr s) = Some n"
    using unat_u64_less [of n] by (simp add: CanonicalRequestId_def from_chars_def Let_def tw)
qed

text \<open>
  Every element that the wire decoder accepts is well formed - one payload, within the
  width of its type - and within the protocol's bounds: nesting of at most eight levels, at most
  1023 children per element and at most 1024 elements in all.
\<close>

theorem ElementValue_wf:
  assumes "ElementValue j 0 0 = Some (e, n)"
  shows "wf_element e \<and> element_fits 0 e \<and> n = element_count e \<and> element_count e \<le> 1024"
  using ElementValue_ok [of j] assms unfolding decodes_ok_def by fastforce

definition example_json :: json where
  "example_json = JObj [(''tag'', JStr ''anonymous''), (''type'', JStr ''u8''), (''value'', JUint 7)]"

lemma example_decodes: "ElementValue example_json 0 0 = Some (Element anonymous ET_U8 0 7 False [], 1)"
  by (subst ElementValue.simps)
     (simp add: example_json_def ExactKeys_def contains_def at_key_def TagValue_def)

theorem ElementValue_wf_witness: "wf_element (Element anonymous ET_U8 0 7 False [])"
  using ElementValue_wf [OF example_decodes] by blast

text \<open>
  The decoder of a 16-bit integer reads an unsigned 64-bit number as a signed one: the
  number 18446744073709551615 is accepted as the value -1 although it is far outside the type.
\<close>

theorem i16_accepts_large_unsigned:
  "ElementValue (JObj [(''tag'', JStr ''anonymous''), (''type'', JStr ''i16''),
      (''value'', JUint 18446744073709551615)]) 0 0
   = Some (Element anonymous ET_I16 (- 1) 0 False [], 1)"
  by (subst ElementValue.simps)
     (simp add: ExactKeys_def contains_def at_key_def TagValue_def)

end
