(* ===== verification/WireEncode.thy ===== *)
theory WireEncode
  imports WireDecode
begin

text \<open>
  The encoders of \<^verbatim>\<open>native/src/protocol.cpp\<close> (\<open>PathJson\<close> to \<open>CommissioningFailure\<close>).  A C++ unsigned
  number becomes a \<open>JUint\<close>, a signed one a \<open>JInt\<close>.  The library's serialiser is the parameter \<open>dump\<close>
  of the functions that produce text.
\<close>

section \<open>Documents\<close>

definition PathJson :: "ConcretePath \<Rightarrow> json" where
  "PathJson p = JObj
     [(''fabric_id'', JUint (cp_fabric_id p)), (''node_id'', JUint (cp_node_id p)),
      (''endpoint'', JUint (ucast (cp_endpoint p))), (''cluster'', JUint (ucast (cp_cluster p))),
      (''member'', JUint (ucast (cp_member p)))]"

definition tag_json :: "Tag \<Rightarrow> json" where
  "tag_json t =
     (if tag_kind t = TK_Anonymous then JStr ''anonymous''
      else JArr [JStr ''context'', JUint (ucast (tag_id t))])"

fun ElementJson :: "Element \<Rightarrow> json" where
  "ElementJson (Element t ty s u b cs) =
     JObj [(''tag'', tag_json t),
       (''type'', JStr (case ty of
          ET_Null \<Rightarrow> ''null'' | ET_I16 \<Rightarrow> ''i16'' | ET_U8 \<Rightarrow> ''u8'' | ET_U16 \<Rightarrow> ''u16''
        | ET_U32 \<Rightarrow> ''u32'' | ET_U64 \<Rightarrow> ''u64'' | ET_Boolean \<Rightarrow> ''boolean''
        | ET_Structure \<Rightarrow> ''structure'' | ET_Array \<Rightarrow> ''array'')),
       (''value'', (case ty of
          ET_Null \<Rightarrow> JNull | ET_I16 \<Rightarrow> JInt s | ET_U8 \<Rightarrow> JUint u | ET_U16 \<Rightarrow> JUint u
        | ET_U32 \<Rightarrow> JUint u | ET_U64 \<Rightarrow> JUint u | ET_Boolean \<Rightarrow> JBool b
        | ET_Structure \<Rightarrow> JArr (map ElementJson cs) | ET_Array \<Rightarrow> JArr (map ElementJson cs)))]"

definition effect_name :: "InteractionEffect \<Rightarrow> string" where
  "effect_name e = (if e = Effect_Unknown then ''unknown'' else ''none'')"

definition optional_member :: "string \<Rightarrow> json option \<Rightarrow> (string \<times> json) list" where
  "optional_member k v = (case v of None \<Rightarrow> [] | Some j \<Rightarrow> [(k, j)])"

definition ErrorJson :: "InteractionError \<Rightarrow> json" where
  "ErrorJson e = JObj
     ([(''code'', JStr (ie_code e)), (''effect'', JStr (effect_name (ie_effect e)))] @
      optional_member ''status'' (map_option (\<lambda>v. JUint (ucast v)) (ie_status e)) @
      optional_member ''cluster_status'' (map_option (\<lambda>v. JUint (ucast v)) (ie_cluster_status e)))"

definition nullable_version :: "u32 option \<Rightarrow> json" where
  "nullable_version v = (case v of None \<Rightarrow> JNull | Some x \<Rightarrow> JUint (ucast x))"

definition AttributeJson :: "AttributeData \<Rightarrow> json" where
  "AttributeJson a = JObj
     [(''path'', PathJson (ad_path a)), (''value'', ElementJson (ad_value a)),
      (''data_version'', nullable_version (ad_data_version a))]"

definition timestamp_json :: "EventData \<Rightarrow> json" where
  "timestamp_json e = JObj
     [(''kind'', JStr (if ed_timestamp_kind e = TS_Epoch then ''epoch'' else ''system'')),
      (''value'', JUint (ed_timestamp_value e))]"

definition EventJson :: "EventData \<Rightarrow> json" where
  "EventJson e = JObj
     [(''path'', PathJson (ed_path e)), (''value'', ElementJson (ed_value e)),
      (''event_number'', JUint (ed_event_number e)), (''priority'', JUint (ucast (ed_priority e))),
      (''timestamp'', timestamp_json e), (''status'', JInt 0)]"

definition SubscriptionFrame :: "SubscriptionReport \<Rightarrow> string \<Rightarrow> u64 \<Rightarrow> json" where
  "SubscriptionFrame r session_generation report_sequence =
     (let common =
        [(''path'', PathJson (rp_path r)), (''initial'', JBool (rp_initial r)),
         (''report_id'', JUint (rp_report_id r)),
         (''min_interval_s'', JUint (ucast (rp_min_interval_s r))),
         (''max_interval_s'', JUint (ucast (rp_max_interval_s r))),
         (''sdk_subscription_id'', JUint (ucast (rp_sdk_subscription_id r)))];
        attribute = the (pr_attribute (rp_result r));
        event = the (pr_event (rp_result r));
        kind = (if rp_kind r = SK_Attribute then ''attribute'' else ''event'');
        v = (if rp_kind r = SK_Attribute then ElementJson (ad_value attribute)
             else ElementJson (ed_value event));
        metadata = common @
          (if rp_kind r = SK_Attribute
           then [(''data_version'', nullable_version (ad_data_version attribute))]
           else [(''event_number'', JUint (ed_event_number event)),
                 (''priority'', JUint (ucast (ed_priority event))),
                 (''timestamp'', timestamp_json event)])
      in JObj [(''version'', JUint kProtocolVersion), (''event'', JStr ''subscription_report''),
               (''session_generation'', JStr session_generation),
               (''subscription_id'', JStr (rp_subscription_id r)),
               (''generation'', JUint (rp_generation r)),
               (''report_sequence'', JUint report_sequence), (''kind'', JStr kind), (''value'', v),
               (''metadata'', JObj metadata)])"

definition path_outcome :: "PathResult \<Rightarrow> json" where
  "path_outcome r =
     (case pr_error r of
        Some e \<Rightarrow> JObj [(''error'', ErrorJson e)]
      | None \<Rightarrow>
          (case pr_attribute r of
             Some a \<Rightarrow> JObj [(''ok'', AttributeJson a)]
           | None \<Rightarrow> JObj [(''ok'', EventJson (the (pr_event r)))]))"

definition InteractionJson :: "InteractionRequest \<Rightarrow> InteractionResponse \<Rightarrow> json option" where
  "InteractionJson request response =
     (if \<not> valid_interaction_response request response then None
      else if \<not> rs_ok response then None
      else if rq_kind request = IK_ReadAttribute
      then (if length (rs_results response) \<noteq> 1 \<or> pr_error (rs_results response ! 0) \<noteq> None then None
            else Some (AttributeJson (the (pr_attribute (rs_results response ! 0)))))
      else if rq_kind request = IK_ReadAttributes \<or> rq_kind request = IK_ReadEvents
      then Some (JArr (map (\<lambda>r. JObj [(''path'', PathJson (pr_path r)), (''result'', path_outcome r)])
                   (rs_results response)))
      else if rq_kind request = IK_Write
      then Some (JObj [(''path'', PathJson (the (rs_response_path response))), (''status'', JInt 0)])
      else Some (JObj
        [(''path'', case rs_response_path response of None \<Rightarrow> JNull | Some p \<Rightarrow> PathJson p),
         (''value'', case rs_response_value response of None \<Rightarrow> JNull | Some v \<Rightarrow> ElementJson v),
         (''status'', JInt 0)]))"

section \<open>Reply frames\<close>

definition Success_frame :: "(json \<Rightarrow> string) \<Rightarrow> json \<Rightarrow> json \<Rightarrow> string" where
  "Success_frame dump request result = dump (JObj
     [(''version'', JUint kProtocolVersion), (''id'', at_key request ''id''), (''ok'', JBool True),
      (''result'', result)])"

definition Failure_frame :: "(json \<Rightarrow> string) \<Rightarrow> json \<Rightarrow> string \<Rightarrow> string" where
  "Failure_frame dump request code = dump (JObj
     [(''version'', JUint kProtocolVersion), (''id'', at_key request ''id''), (''ok'', JBool False),
      (''error'', JObj [(''code'', JStr code)])])"

definition InteractionFailure :: "(json \<Rightarrow> string) \<Rightarrow> json \<Rightarrow> InteractionError \<Rightarrow> string" where
  "InteractionFailure dump request err = dump (JObj
     [(''version'', JUint kProtocolVersion), (''id'', at_key request ''id''), (''ok'', JBool False),
      (''error'', ErrorJson err)])"

definition BackendFailure :: "(json \<Rightarrow> string) \<Rightarrow> json \<Rightarrow> string \<Rightarrow> string" where
  "BackendFailure dump request code =
     (let operation = at_key request ''operation'';
          mutation = operation = JStr ''write'' \<or> operation = JStr ''invoke'' \<or>
            operation = JStr ''commission_on_network'' \<or> operation = JStr ''open_window''
      in if mutation
         then InteractionFailure dump request
           \<lparr>ie_code = code, ie_status = None, ie_cluster_status = None, ie_effect = Effect_Unknown\<rparr>
         else Failure_frame dump request code)"

definition CommissioningFailure :: "(json \<Rightarrow> string) \<Rightarrow> json \<Rightarrow> CommissioningError \<Rightarrow> string" where
  "CommissioningFailure dump request err = dump (JObj
     [(''version'', JUint kProtocolVersion), (''id'', at_key request ''id''), (''ok'', JBool False),
      (''error'', JObj
        ([(''code'', JStr (ce_code err)), (''effect'', JStr (effect_name (ce_effect err)))] @
         optional_member ''sdk_status'' (map_option (\<lambda>v. JUint (ucast v)) (ce_sdk_status err))))])"

section \<open>Round trip of elements\<close>

lemma unat_ucast_u8_u64: "unat (ucast (i :: u8) :: u64) = unat i"
  using unat_u8_less [of i] by (simp add: unsigned_ucast_eq take_bit_nat_eq_self)

lemma unat_ucast_u64_u8: "unat (ucast (i :: u64) :: u8) = unat i mod 2 ^ 8"
  by (simp add: unsigned_ucast_eq take_bit_eq_mod)

lemma tag_json_value: "wf_tag t \<Longrightarrow> TagValue (tag_json t) = Some t"
proof (cases t)
  case (Tag k i)
  assume wf: "wf_tag t"
  have "(ucast i :: u64) \<le> 255"
    using unat_u8_less [of i] by (simp add: word_le_nat_alt unat_ucast_u8_u64)
  moreover have "ucast (ucast i :: u64) = i"
    using unat_u8_less [of i] by (simp add: word_unat_eq_iff unat_ucast_u64_u8 unat_ucast_u8_u64)
  ultimately show ?thesis
    using wf Tag by (cases k) (simp_all add: tag_json_def TagValue_def wf_tag_def)
qed

lemma element_values_json:
  assumes "\<forall>c\<in>set cs. \<forall>n. n + element_count c \<le> 1024 \<longrightarrow>
      ElementValue (ElementJson c) d n = Some (c, n + element_count c)"
    and "n + sum_list (map element_count cs) \<le> 1024"
  shows "element_values (map ElementJson cs) d n = Some (cs, n + sum_list (map element_count cs))"
  using assms by (induction cs arbitrary: n) (simp_all add: add.assoc)

lemma ExactKeys_element: "ExactKeys (JObj [(''tag'', a), (''type'', b), (''value'', c)]) [''tag'', ''type'', ''value'']"
  by (simp add: ExactKeys_def contains_def)

lemma ElementValue_json:
  "wf_element e \<Longrightarrow> element_fits d e \<Longrightarrow> n + element_count e \<le> 1024 \<Longrightarrow>
     ElementValue (ElementJson e) d n = Some (e, n + element_count e)"
proof (induction e arbitrary: d n)
  case (Element t ty s u b cs)
  have tag: "TagValue (tag_json t) = Some t" using Element.prems by (simp add: tag_json_value)
  have kids: "element_values (map ElementJson cs) (d + 1) (n + 1) =
      Some (cs, n + 1 + sum_list (map element_count cs))"
    if "ty \<in> {ET_Structure, ET_Array}"
    using Element that by (intro element_values_json) (auto simp: list_all_iff)
  show ?case
    using Element.prems tag kids
    by (subst ElementValue.simps, cases ty)
       (simp_all add: ExactKeys_element at_key_def in_i16_def Let_def not_less)
qed

section \<open>Validated responses have what the encoder reads\<close>

lemma ValidPathResult_outcome:
  assumes "ValidPathResult q x" "pr_error x = None"
  shows "if rq_kind q = IK_ReadEvents then pr_attribute x = None \<and> pr_event x \<noteq> None
    else pr_attribute x \<noteq> None"
  using assms
  by (cases "pr_attribute x"; cases "pr_event x") (auto simp: ValidPathResult_def split: if_splits)

lemma valid_read_results:
  assumes "valid_interaction_response q r" "rs_ok r" "\<not> is_mutation (rq_kind q)" "x \<in> set (rs_results r)"
  shows "ValidPathResult q x"
proof -
  have "rq_kind q = IK_ReadAttribute \<or> rq_kind q = IK_ReadAttributes \<or> rq_kind q = IK_ReadEvents"
    using assms(3) by (cases "rq_kind q") (auto simp: is_mutation_def)
  then show ?thesis
    using assms by (auto simp: valid_interaction_response_def Let_def list_all_iff split: if_splits)
qed

section \<open>Properties\<close>

text \<open>
  An element survives the wire: encoding a well-formed element within the protocol's
  bounds and decoding the document gives back the same element, and the decoder counts exactly its
  nodes.  In particular the encoding is unambiguous.
\<close>

theorem ElementJson_roundtrip:
  assumes "wf_element e" "element_fits 0 e" "element_count e \<le> 1024"
  shows "ElementValue (ElementJson e) 0 0 = Some (e, element_count e)"
  using ElementValue_json [of e 0 0] assms by simp

definition example_element :: Element where
  "example_element = Element anonymous ET_Structure 0 0 False
     [Element (Tag TK_Context 1) ET_I16 (- 5) 0 False [],
      Element (Tag TK_Context 2) ET_Array 0 0 False [Element anonymous ET_Boolean 0 0 True []]]"

theorem ElementJson_roundtrip_witness:
  "ElementValue (ElementJson example_element) 0 0 = Some (example_element, 4)"
proof -
  have "wf_element example_element" "element_fits 0 example_element" "element_count example_element = 4"
    by (simp_all add: example_element_def wf_tag_def in_i16_def)
  then show ?thesis using ElementJson_roundtrip [of example_element] by simp
qed

text \<open>
  Encoding a validated response never reads an absent member: the single result of an
  attribute read has its attribute, every result of a multi-path read has an error, its attribute
  or its event as the encoder expects, and a write response has its path.
\<close>

theorem InteractionJson_defined:
  assumes "valid_interaction_response q r" "rs_ok r"
  shows "(rq_kind q = IK_ReadAttribute \<and> length (rs_results r) = 1 \<and> pr_error (rs_results r ! 0) = None
      \<longrightarrow> pr_attribute (rs_results r ! 0) \<noteq> None) \<and>
    (rq_kind q = IK_ReadAttributes \<or> rq_kind q = IK_ReadEvents \<longrightarrow>
      (\<forall>x\<in>set (rs_results r). pr_error x \<noteq> None \<or> pr_attribute x \<noteq> None \<or> pr_event x \<noteq> None)) \<and>
    (rq_kind q = IK_Write \<longrightarrow> rs_response_path r \<noteq> None)"
proof (intro conjI impI ballI)
  assume k: "rq_kind q = IK_ReadAttribute \<and> length (rs_results r) = 1 \<and> pr_error (rs_results r ! 0) = None"
  then have "ValidPathResult q (rs_results r ! 0)"
    using assms by (intro valid_read_results) (auto simp: is_mutation_def)
  then show "pr_attribute (rs_results r ! 0) \<noteq> None"
    using k ValidPathResult_outcome by fastforce
next
  fix x
  assume "rq_kind q = IK_ReadAttributes \<or> rq_kind q = IK_ReadEvents" and x: "x \<in> set (rs_results r)"
  then have "ValidPathResult q x" using assms by (intro valid_read_results) (auto simp: is_mutation_def)
  then show "pr_error x \<noteq> None \<or> pr_attribute x \<noteq> None \<or> pr_event x \<noteq> None"
    using ValidPathResult_outcome [of q x] by (auto split: if_splits)
next
  assume "rq_kind q = IK_Write"
  then show "rs_response_path r \<noteq> None"
    using assms by (auto simp: valid_interaction_response_def split: if_splits option.splits)
qed

theorem InteractionJson_defined_witness:
  "pr_attribute (rs_results example_response ! 0) \<noteq> None"
proof -
  have "valid_interaction_response example_read example_response" by code_simp
  then show ?thesis
    using InteractionJson_defined [of example_read example_response]
    by (simp add: example_response_def example_read_def example_result_def Let_def)
qed

end
