(* ===== verification/HostProtocol.thy ===== *)
theory HostProtocol
  imports ReportCredit WireEncode
begin

text \<open>
  The class \<open>HostProtocol\<close> of \<^verbatim>\<open>native/src/protocol.cpp\<close>: the session of the host with its peer, from the
  first frame to the close, over the report credit manager.

  Three things are parameters.  The JSON library is the record \<open>L\<close>.  The output sink is a function \<open>sink\<close>
  on a state \<open>'o\<close> of its own that accepts or refuses a frame.  The controller backend is a virtual
  interface: a call of it is recorded in \<open>hp_calls\<close>, its answer is taken from a record of answers, and
  what other threads and nested calls do to the session while the call is made, or between two critical
  sections, is a function \<open>gap k\<close> on the session, one for each such point of a handler.
\<close>

section \<open>Data\<close>

record json_library =
  jl_sax :: "string \<Rightarrow> sax_event list"
  jl_parse :: "string \<Rightarrow> json option"
  jl_dump :: "json \<Rightarrow> string"

record 'o channel =
  ch_failed :: bool
  ch_failure_calls :: nat
  ch_out :: 'o

datatype State = State_AwaitFlow | State_AwaitOpen | State_Open | State_Closing | State_Closed

record ActiveSubscription =
  as_generation :: u64
  as_queue_limit :: u64
  as_resubscribe :: bool
  as_recovering :: bool
  as_recovery_attempt :: u8

datatype backend_call =
  BC_Open NativeOpenOptions
| BC_Interact InteractionRequest
| BC_Commission CommissioningRequest
| BC_OpenWindow CommissioningWindowRequest
| BC_Subscribe SubscriptionRequest
| BC_ActivateSubscription string u64
| BC_CancelSubscription string u64 u32
| BC_Close
| BC_ClearSinks

record backend_answers =
  ba_open :: "bool \<times> string"
  ba_interact :: InteractionResponse
  ba_commission :: CommissioningResponse
  ba_open_window :: CommissioningWindowResponse
  ba_subscribe :: SubscriptionResponse
  ba_cancel :: "bool \<times> string"
  ba_is_open :: bool

record 'o HostProtocol =
  hp_channel :: "'o channel"
  hp_report_flow :: "ReportCreditManager option"
  hp_state :: State
  hp_session_generation :: string
  hp_greatest_request_id :: u64
  hp_fabric_id :: u64
  hp_processing_depth :: nat
  hp_close_requested :: bool
  hp_cancellation_pending :: bool
  hp_subscriptions :: "ActiveSubscription strmap"
  hp_calls :: "backend_call list"

definition mk_protocol :: "'o \<Rightarrow> 'o HostProtocol" where
  "mk_protocol out =
     \<lparr>hp_channel = \<lparr>ch_failed = False, ch_failure_calls = 0, ch_out = out\<rparr>, hp_report_flow = None,
      hp_state = State_AwaitFlow, hp_session_generation = [], hp_greatest_request_id = 0, hp_fabric_id = 0,
      hp_processing_depth = 0, hp_close_requested = False, hp_cancellation_pending = False,
      hp_subscriptions = [], hp_calls = []\<rparr>"

record ProcessResult =
  pc_keep_running :: bool
  pc_frame :: "string option"
  pc_activate_subscription :: "(string \<times> u64) option"

definition no_result :: ProcessResult where
  "no_result = \<lparr>pc_keep_running = False, pc_frame = None, pc_activate_subscription = None\<rparr>"

definition reply :: "bool \<Rightarrow> string option \<Rightarrow> ProcessResult" where
  "reply keep frame = \<lparr>pc_keep_running = keep, pc_frame = frame, pc_activate_subscription = None\<rparr>"

definition ReadyFrame :: "json_library \<Rightarrow> string" where
  "ReadyFrame L = jl_dump L (JObj
     [(''version'', JUint kProtocolVersion), (''event'', JStr ''ready''), (''backend'', JStr ''matter-native''),
      (''revision'', JStr ''250a9e6c50ee2068107f3c4808b680f5f2925415'')])"

section \<open>The channel\<close>

definition FailChannel :: "'o channel \<Rightarrow> 'o channel" where
  "FailChannel c =
     (if ch_failed c then c else c\<lparr>ch_failed := True, ch_failure_calls := ch_failure_calls c + 1\<rparr>)"

definition WriteFrame :: "'o transmit \<Rightarrow> string \<Rightarrow> 'o channel \<Rightarrow> bool \<times> 'o channel" where
  "WriteFrame sink frame c =
     (if ch_failed c then (False, c)
      else case sink frame (ch_out c) of
        (True, out) \<Rightarrow> (True, c\<lparr>ch_out := out\<rparr>)
      | (False, out) \<Rightarrow> (False, FailChannel (c\<lparr>ch_out := out\<rparr>)))"

definition healthy :: "'o HostProtocol \<Rightarrow> bool" where
  "healthy h \<longleftrightarrow> \<not> ch_failed (hp_channel h)"

definition FailChannel_protocol :: "'o HostProtocol \<Rightarrow> 'o HostProtocol" where
  "FailChannel_protocol h = h\<lparr>hp_channel := FailChannel (hp_channel h)\<rparr>"

definition write_frame :: "'o transmit \<Rightarrow> string \<Rightarrow> 'o HostProtocol \<Rightarrow> bool \<times> 'o HostProtocol" where
  "write_frame sink frame h =
     (case WriteFrame sink frame (hp_channel h) of (ok, c) \<Rightarrow> (ok, h\<lparr>hp_channel := c\<rparr>))"

text \<open>A method of the credit manager, whose \<open>transmit_\<close> is \<open>WriteFrame\<close>.\<close>

definition with_flow ::
    "(ReportCreditManager \<times> 'o channel \<Rightarrow> 'a \<times> ReportCreditManager \<times> 'o channel) \<Rightarrow>
     ReportCreditManager \<Rightarrow> 'o HostProtocol \<Rightarrow> 'a \<times> 'o HostProtocol" where
  "with_flow f m h =
     (case f (m, hp_channel h) of (r, m', c) \<Rightarrow> (r, h\<lparr>hp_report_flow := Some m', hp_channel := c\<rparr>))"

definition call :: "backend_call \<Rightarrow> 'o HostProtocol \<Rightarrow> 'o HostProtocol" where
  "call c h = h\<lparr>hp_calls := hp_calls h @ [c]\<rparr>"

section \<open>Closing\<close>

definition RequestClose :: "'o HostProtocol \<Rightarrow> 'o HostProtocol" where
  "RequestClose h =
     (let h1 = h\<lparr>hp_close_requested := True\<rparr>
      in if hp_state h1 \<noteq> State_Closed then h1\<lparr>hp_state := State_Closing\<rparr> else h1)"

definition Close :: "backend_answers \<Rightarrow> 'o HostProtocol \<Rightarrow> 'o HostProtocol" where
  "Close a h =
     (if hp_processing_depth h > 1 then RequestClose h
      else if hp_state h = State_Closed then h
      else
        let h1 = h\<lparr>hp_state := State_Closed\<rparr>;
            h2 = (if ba_is_open a then call BC_Close h1 else h1);
            h3 = call BC_ClearSinks h2
        in h3\<lparr>hp_report_flow := None, hp_subscriptions := []\<rparr>)"

section \<open>Events of the backend\<close>

definition error_event :: "json_library \<Rightarrow> string \<Rightarrow> string \<Rightarrow> u64 \<Rightarrow> InteractionError \<Rightarrow> string" where
  "error_event L session subscription_id gen err = jl_dump L (JObj
     [(''version'', JUint kProtocolVersion), (''event'', JStr ''subscription_error''),
      (''session_generation'', JStr session), (''subscription_id'', JStr subscription_id),
      (''generation'', JUint gen), (''error'', ErrorJson err)])"

definition retired_event :: "json_library \<Rightarrow> string \<Rightarrow> string \<Rightarrow> u64 \<Rightarrow> u64 \<Rightarrow> string" where
  "retired_event L session subscription_id gen last_sequence = jl_dump L (JObj
     [(''version'', JUint kProtocolVersion), (''event'', JStr ''stream_retired''),
      (''session_generation'', JStr session), (''subscription_id'', JStr subscription_id),
      (''generation'', JUint gen), (''last_report_sequence'', JUint last_sequence)])"

definition erase_subscription :: "string \<Rightarrow> 'o HostProtocol \<Rightarrow> 'o HostProtocol" where
  "erase_subscription i h = h\<lparr>hp_subscriptions := AList.delete i (hp_subscriptions h)\<rparr>"

text \<open>The error frame, the barrier, and the end of the stream: the common part of \<open>EmitReport\<close> on an
  overflow and of \<open>EmitFailure\<close>.\<close>

definition end_stream ::
    "json_library \<Rightarrow> 'o transmit \<Rightarrow> string \<Rightarrow> u64 \<Rightarrow> InteractionError \<Rightarrow> ReportCreditManager \<Rightarrow>
     'o HostProtocol \<Rightarrow> 'o HostProtocol" where
  "end_stream L sink subscription_id gen err m h =
     (case write_frame sink (error_event L (hp_session_generation h) subscription_id gen err) h of
        (False, h1) \<Rightarrow> h1
      | (True, h1) \<Rightarrow>
          (case with_flow (Retire (WriteFrame sink) subscription_id gen
                  (retired_event L (hp_session_generation h1) subscription_id gen
                    (last_transmitted subscription_id gen m))) m h1 of
             (ok, h2) \<Rightarrow> erase_subscription subscription_id (if ok then h2 else FailChannel_protocol h2)))"

definition EmitReport ::
    "json_library \<Rightarrow> 'o transmit \<Rightarrow> SubscriptionReport \<Rightarrow> 'o HostProtocol \<Rightarrow> bool \<times> 'o HostProtocol" where
  "EmitReport L sink report h =
     (case hp_report_flow h of
        None \<Rightarrow> (False, h)
      | Some m \<Rightarrow>
          if \<not> healthy h \<or> hp_state h \<noteq> State_Open \<or>
             \<not> IsLive (rp_subscription_id report) (rp_generation report) m
          then (False, h)
          else
            (case with_flow (Submit (WriteFrame sink) (rp_subscription_id report) (rp_generation report)
                    (\<lambda>sequence. jl_dump L (SubscriptionFrame report (hp_session_generation h) sequence))) m h of
               (SR_Transmitted, h1) \<Rightarrow> (True, h1)
             | (SR_Queued, h1) \<Rightarrow> (True, h1)
             | (SR_StreamOverflow, h1) \<Rightarrow>
                 (False, end_stream L sink (rp_subscription_id report) (rp_generation report)
                    \<lparr>ie_code = ''queue_overflow'', ie_status = None, ie_cluster_status = None,
                     ie_effect = Effect_None\<rparr> (the (hp_report_flow h1)) h1)
             | (SR_Invalid, h1) \<Rightarrow> (False, FailChannel_protocol h1)))"

definition EmitFailure ::
    "json_library \<Rightarrow> 'o transmit \<Rightarrow> string \<Rightarrow> u64 \<Rightarrow> InteractionError \<Rightarrow> 'o HostProtocol \<Rightarrow> 'o HostProtocol" where
  "EmitFailure L sink subscription_id gen err h =
     (case hp_report_flow h of
        None \<Rightarrow> h
      | Some m \<Rightarrow>
          if \<not> healthy h \<or> hp_state h \<noteq> State_Open \<or> \<not> IsLive subscription_id gen m then h
          else end_stream L sink subscription_id gen err m h)"

definition resubscribing_event :: "json_library \<Rightarrow> string \<Rightarrow> SubscriptionStatus \<Rightarrow> string" where
  "resubscribing_event L session status = jl_dump L (JObj
     [(''version'', JUint kProtocolVersion), (''event'', JStr ''subscription_status''),
      (''session_generation'', JStr session), (''subscription_id'', JStr (ss_subscription_id status)),
      (''generation'', JUint (ss_generation status)), (''status'', JStr ''resubscribing''),
      (''continuity'', JStr ''lost''), (''attempt'', JUint (ucast (ss_attempt status)))])"

definition resubscribed_event :: "json_library \<Rightarrow> string \<Rightarrow> SubscriptionStatus \<Rightarrow> string" where
  "resubscribed_event L session status = jl_dump L (JObj
     [(''version'', JUint kProtocolVersion), (''event'', JStr ''subscription_status''),
      (''session_generation'', JStr session), (''subscription_id'', JStr (ss_subscription_id status)),
      (''generation'', JUint (ss_generation status)), (''status'', JStr ''resubscribed''),
      (''continuity'', JStr ''unknown''), (''attempt'', JUint (ucast (ss_attempt status))),
      (''min_interval_s'', JUint (ucast (ss_min_interval_s status))),
      (''max_interval_s'', JUint (ucast (ss_max_interval_s status))),
      (''sdk_subscription_id'', JUint (ucast (ss_sdk_subscription_id status)))])"

definition put_subscription :: "string \<Rightarrow> ActiveSubscription \<Rightarrow> 'o HostProtocol \<Rightarrow> 'o HostProtocol" where
  "put_subscription i a h = h\<lparr>hp_subscriptions := AList.update i a (hp_subscriptions h)\<rparr>"

definition emit_resubscribing ::
    "json_library \<Rightarrow> 'o transmit \<Rightarrow> SubscriptionStatus \<Rightarrow> ActiveSubscription \<Rightarrow> ReportCreditManager \<Rightarrow>
     'o HostProtocol \<Rightarrow> bool \<times> 'o HostProtocol" where
  "emit_resubscribing L sink status active m h =
     (let previous = as_generation active;
          first = (\<not> as_recovering active);
          i = ss_subscription_id status
      in if (first \<and> (previous = max_u64 \<or> ss_generation status \<noteq> previous + 1 \<or> ss_attempt status \<noteq> 1)) \<or>
            (\<not> first \<and> (ss_generation status \<noteq> previous \<or>
               unat (ss_attempt status) \<noteq> unat (as_recovery_attempt active) + 1)) \<or>
            ss_continuity status \<noteq> SC_Lost
         then (False, h)
         else case write_frame sink (resubscribing_event L (hp_session_generation h) status) h of
           (False, h1) \<Rightarrow> (False, h1)
         | (True, h1) \<Rightarrow>
             if first then
               (case with_flow (BeginRecovery (WriteFrame sink) i previous (ss_generation status)
                       (as_queue_limit active)
                       (retired_event L (hp_session_generation h1) i previous (last_transmitted i previous m)))
                     m h1 of
                  (False, h2) \<Rightarrow> (False, FailChannel_protocol h2)
                | (True, h2) \<Rightarrow>
                    (True, put_subscription i
                       (active\<lparr>as_generation := ss_generation status, as_recovering := True,
                               as_recovery_attempt := ss_attempt status\<rparr>) h2))
             else (True, put_subscription i (active\<lparr>as_recovery_attempt := ss_attempt status\<rparr>) h1))"

definition emit_resubscribed ::
    "json_library \<Rightarrow> 'o transmit \<Rightarrow> SubscriptionStatus \<Rightarrow> ActiveSubscription \<Rightarrow>
     'o HostProtocol \<Rightarrow> bool \<times> 'o HostProtocol" where
  "emit_resubscribed L sink status active h =
     (if \<not> as_recovering active \<or> as_generation active \<noteq> ss_generation status \<or>
         as_recovery_attempt active \<noteq> ss_attempt status \<or> ss_continuity status \<noteq> SC_Unknown \<or>
         ss_max_interval_s status = 0 \<or> ss_min_interval_s status > ss_max_interval_s status
      then (False, h)
      else case write_frame sink (resubscribed_event L (hp_session_generation h) status) h of
        (False, h1) \<Rightarrow> (False, h1)
      | (True, h1) \<Rightarrow>
          (True, put_subscription (ss_subscription_id status)
             (active\<lparr>as_recovering := False, as_recovery_attempt := 0\<rparr>) h1))"

definition EmitStatus ::
    "json_library \<Rightarrow> 'o transmit \<Rightarrow> SubscriptionStatus \<Rightarrow> 'o HostProtocol \<Rightarrow> bool \<times> 'o HostProtocol" where
  "EmitStatus L sink status h =
     (case hp_report_flow h of
        None \<Rightarrow> (False, h)
      | Some m \<Rightarrow>
          if \<not> healthy h \<or> hp_state h \<noteq> State_Open \<or> ss_subscription_id status = [] \<or>
             ss_generation status = 0 \<or> ss_attempt status = 0 \<or> ss_attempt status > 5
          then (False, h)
          else case map_of (hp_subscriptions h) (ss_subscription_id status) of
            None \<Rightarrow> (False, h)
          | Some active \<Rightarrow>
              if \<not> as_resubscribe active then (False, h)
              else if ss_status status = ST_Resubscribing
              then emit_resubscribing L sink status active m h
              else emit_resubscribed L sink status active h)"

definition ActivateSubscription :: "bool \<Rightarrow> string \<Rightarrow> u64 \<Rightarrow> 'o HostProtocol \<Rightarrow> bool \<times> 'o HostProtocol" where
  "ActivateSubscription activated subscription_id gen h =
     (if \<not> healthy h then (False, h)
      else (activated, call (BC_ActivateSubscription subscription_id gen) h))"

section \<open>Requests\<close>

text \<open>The session was closed or the channel failed while the backend was working.\<close>

definition interrupted :: "'o HostProtocol \<Rightarrow> bool" where
  "interrupted h \<longleftrightarrow> hp_close_requested h \<or> \<not> healthy h"

definition request_timeout :: "json \<Rightarrow> u32" where
  "request_timeout request = ucast (get_unsigned (at_key request ''timeout_ms''))"

definition flow_open :: "backend_answers \<Rightarrow> json \<Rightarrow> 'o HostProtocol \<Rightarrow> ProcessResult \<times> 'o HostProtocol" where
  "flow_open a request h =
     (if \<not> ExactKeys request [''version'', ''event'', ''session_generation''] \<or>
         \<not> is_number_unsigned (at_key request ''version'') \<or>
         get_unsigned (at_key request ''version'') \<noteq> kProtocolVersion \<or>
         \<not> is_string (at_key request ''event'') \<or>
         get_string (at_key request ''event'') \<noteq> ''flow_open''
      then (no_result, Close a h)
      else case CanonicalGeneration (at_key request ''session_generation'') of
        None \<Rightarrow> (no_result, Close a h)
      | Some gen \<Rightarrow>
          (reply True None,
           h\<lparr>hp_session_generation := gen, hp_report_flow := Some (mk_manager gen),
             hp_state := State_AwaitOpen\<rparr>))"

definition ack_keys :: "string list" where
  "ack_keys = [''version'', ''event'', ''session_generation'', ''report_sequence'', ''acknowledged_bytes'']"

definition report_ack ::
    "'o transmit \<Rightarrow> backend_answers \<Rightarrow> json \<Rightarrow> 'o HostProtocol \<Rightarrow> ProcessResult \<times> 'o HostProtocol" where
  "report_ack sink a request h =
     (let refused = (\<lambda>h'. (no_result, Close a (FailChannel_protocol h')))
      in if \<not> (is_number_unsigned (at_key request ''version'') \<and>
              get_unsigned (at_key request ''version'') = kProtocolVersion \<and>
              is_string (at_key request ''event'') \<and>
              get_string (at_key request ''event'') = ''report_ack'' \<and>
              CanonicalGeneration (at_key request ''session_generation'') = Some (hp_session_generation h))
         then refused h
         else case (Unsigned (at_key request ''report_sequence'') max_u64,
                    Unsigned (at_key request ''acknowledged_bytes'') max_u64, hp_report_flow h) of
           (Some sequence, Some bytes, Some m) \<Rightarrow>
             (case with_flow (Acknowledge (WriteFrame sink) sequence bytes) m h of
                (True, h1) \<Rightarrow> (reply True None, h1)
              | (False, h1) \<Rightarrow> refused h1)
         | _ \<Rightarrow> refused h)"

definition open_request ::
    "json_library \<Rightarrow> backend_answers \<Rightarrow> (nat \<Rightarrow> 'o HostProtocol \<Rightarrow> 'o HostProtocol) \<Rightarrow> json \<Rightarrow>
     'o HostProtocol \<Rightarrow> ProcessResult \<times> 'o HostProtocol" where
  "open_request L a gap request h =
     (let dump = jl_dump L
      in case (if at_key request ''operation'' \<noteq> JStr ''open'' then None
               else OpenOptions (at_key request ''parameters'')) of
        None \<Rightarrow> (reply False (Some (Failure_frame dump request ''invalid_request'')), Close a h)
      | Some options \<Rightarrow>
          let h1 = gap 0 (call (BC_Open (options\<lparr>no_timeout_ms := request_timeout request\<rparr>)) h);
              (ok, error_code) = ba_open a
          in if interrupted h1 then (no_result, h1)
             else if \<not> ok
             then (reply False (Some (Failure_frame dump request
                     (if error_code = [] then ''controller_start_failed'' else error_code))), Close a h1)
             else
               (reply True (Some (Success_frame dump request (JObj
                  [(''lifecycle'', JStr ''persistent''), (''fabric_id'', JUint (no_fabric_id options)),
                   (''controller_node_id'', JUint (no_controller_node_id options)),
                   (''vendor_id'', JUint (ucast (no_vendor_id options)))]))),
                h1\<lparr>hp_fabric_id := no_fabric_id options, hp_state := State_Open\<rparr>))"

definition commission_request ::
    "json_library \<Rightarrow> backend_answers \<Rightarrow> (nat \<Rightarrow> 'o HostProtocol \<Rightarrow> 'o HostProtocol) \<Rightarrow> json \<Rightarrow>
     'o HostProtocol \<Rightarrow> ProcessResult \<times> 'o HostProtocol" where
  "commission_request L a gap request h =
     (let dump = jl_dump L
      in case CommissioningParameters (at_key request ''parameters'') (request_timeout request) of
        None \<Rightarrow> (reply True (Some (Failure_frame dump request ''invalid_request'')), h)
      | Some commissioning \<Rightarrow>
          let h1 = gap 0 (call (BC_Commission commissioning) h); response = ba_commission a
          in if interrupted h1 then (no_result, h1)
             else if \<not> valid_commissioning_response commissioning response
             then (reply True (Some (BackendFailure dump request ''invalid_backend_result'')), h1)
             else if \<not> cr_ok response
             then (reply True (Some (CommissioningFailure dump request (the (cr_error response)))), h1)
             else (reply True (Some (Success_frame dump request (JObj
                     [(''node_id'', JUint (cr_node_id response)), (''fabric_id'', JUint (cr_fabric_id response)),
                      (''case'', JStr ''established'')]))), h1))"

definition window_request ::
    "json_library \<Rightarrow> backend_answers \<Rightarrow> (nat \<Rightarrow> 'o HostProtocol \<Rightarrow> 'o HostProtocol) \<Rightarrow> json \<Rightarrow>
     'o HostProtocol \<Rightarrow> ProcessResult \<times> 'o HostProtocol" where
  "window_request L a gap request h =
     (let dump = jl_dump L
      in case CommissioningWindowParameters (at_key request ''parameters'') (request_timeout request) of
        None \<Rightarrow> (reply True (Some (Failure_frame dump request ''invalid_request'')), h)
      | Some window \<Rightarrow>
          let h1 = gap 0 (call (BC_OpenWindow window) h); response = ba_open_window a
          in if interrupted h1 then (no_result, h1)
             else if \<not> valid_commissioning_window_response window response
             then (reply True (Some (BackendFailure dump request ''invalid_backend_result'')), h1)
             else if \<not> wr_ok response
             then (reply True (Some (CommissioningFailure dump request (the (wr_error response)))), h1)
             else (reply True (Some (Success_frame dump request (JObj
                     [(''node_id'', JUint (wr_node_id response)),
                      (''setup_pin'', JUint (ucast (wr_setup_pin response))),
                      (''discriminator'', JUint (ucast (wr_discriminator response))),
                      (''manual_code'', JStr (wr_manual_code response)),
                      (''qr_code'', JStr (wr_qr_code response)),
                      (''expires_in_s'', JUint (ucast (wr_expires_in_s response)))]))), h1))"

text \<open>\<open>emplace\<close> keeps an entry that is already there.\<close>

definition emplace_subscription :: "string \<Rightarrow> ActiveSubscription \<Rightarrow> 'o HostProtocol \<Rightarrow> 'o HostProtocol" where
  "emplace_subscription i active h =
     (if map_of (hp_subscriptions h) i = None then put_subscription i active h else h)"

definition admit_stream ::
    "SubscriptionResponse \<Rightarrow> SubscriptionRequest \<Rightarrow> 'o HostProtocol \<Rightarrow> bool \<times> 'o HostProtocol" where
  "admit_stream response subscription h =
     (case hp_report_flow h of
        None \<Rightarrow> (False, h)
      | Some m \<Rightarrow>
          (case AddStream (so_subscription_id response) (so_generation response)
                  (ucast (sr_queue_limit subscription)) m of
             (False, m') \<Rightarrow> (False, h\<lparr>hp_report_flow := Some m'\<rparr>)
           | (True, m') \<Rightarrow>
               (True, emplace_subscription (so_subscription_id response)
                  \<lparr>as_generation = so_generation response,
                   as_queue_limit = ucast (sr_queue_limit subscription),
                   as_resubscribe = sr_resubscribe subscription, as_recovering = False,
                   as_recovery_attempt = 0\<rparr> (h\<lparr>hp_report_flow := Some m'\<rparr>))))"

definition subscribe_request ::
    "json_library \<Rightarrow> backend_answers \<Rightarrow> (nat \<Rightarrow> 'o HostProtocol \<Rightarrow> 'o HostProtocol) \<Rightarrow> json \<Rightarrow>
     'o HostProtocol \<Rightarrow> ProcessResult \<times> 'o HostProtocol" where
  "subscribe_request L a gap request h =
     (let dump = jl_dump L
      in case SubscriptionParameters (at_key request ''parameters'') (request_timeout request) of
        None \<Rightarrow> (reply True (Some (Failure_frame dump request ''invalid_request'')), h)
      | Some subscription \<Rightarrow>
          if sr_fabric_id subscription \<noteq> hp_fabric_id h
          then (reply True (Some (Failure_frame dump request ''fabric_mismatch'')), h)
          else
            let h1 = gap 0 (call (BC_Subscribe subscription) h); response = ba_subscribe a
            in if interrupted h1 then (no_result, h1)
               else if \<not> so_ok response
               then (reply True (Some (Failure_frame dump request
                       (if so_error_code response = [] then ''subscription_failed''
                        else so_error_code response))), h1)
               else if so_subscription_id response \<noteq> sr_subscription_id subscription \<or>
                       so_generation response = 0 \<or> so_max_interval_s response = 0 \<or>
                       so_min_interval_s response > so_max_interval_s response
               then (reply True (Some (BackendFailure dump request ''invalid_backend_result'')), h1)
               else
                 (case admit_stream response subscription h1 of
                    (False, h2) \<Rightarrow>
                      (reply True (Some (Failure_frame dump request ''subscription_busy'')),
                       gap 1 (call (BC_CancelSubscription (so_subscription_id response)
                                (so_generation response) (sr_timeout_ms subscription)) h2))
                  | (True, h2) \<Rightarrow>
                      (\<lparr>pc_keep_running = True,
                        pc_frame = Some (Success_frame dump request (JObj
                          [(''subscription_id'', JStr (so_subscription_id response)),
                           (''generation'', JUint (so_generation response)),
                           (''min_interval_s'', JUint (ucast (so_min_interval_s response))),
                           (''max_interval_s'', JUint (ucast (so_max_interval_s response))),
                           (''sdk_subscription_id'', JUint (ucast (so_sdk_subscription_id response)))])),
                        pc_activate_subscription =
                          Some (so_subscription_id response, so_generation response)\<rparr>, h2)))"

text \<open>The last two critical sections of \<open>unsubscribe\<close>.\<close>

definition retire_stream ::
    "json_library \<Rightarrow> 'o transmit \<Rightarrow> string \<Rightarrow> u64 \<Rightarrow> 'o HostProtocol \<Rightarrow> bool \<times> 'o HostProtocol" where
  "retire_stream L sink subscription_id gen h =
     (case hp_report_flow h of
        None \<Rightarrow> (False, h)
      | Some m \<Rightarrow>
          if \<not> IsLive subscription_id gen m then (False, h)
          else with_flow (Retire (WriteFrame sink) subscription_id gen
                 (retired_event L (hp_session_generation h) subscription_id gen
                   (last_transmitted subscription_id gen m))) m h)"

definition flow_live :: "string \<Rightarrow> u64 \<Rightarrow> 'o HostProtocol \<Rightarrow> bool" where
  "flow_live i g h \<longleftrightarrow> (case hp_report_flow h of None \<Rightarrow> False | Some m \<Rightarrow> IsLive i g m)"

definition flow_retired :: "string \<Rightarrow> u64 \<Rightarrow> 'o HostProtocol \<Rightarrow> bool" where
  "flow_retired i g h \<longleftrightarrow> (case hp_report_flow h of None \<Rightarrow> False | Some m \<Rightarrow> IsRetired i g m)"

definition other_generation :: "string \<Rightarrow> u64 \<Rightarrow> 'o HostProtocol \<Rightarrow> bool" where
  "other_generation i g h \<longleftrightarrow>
     (case map_of (hp_subscriptions h) i of None \<Rightarrow> False | Some active \<Rightarrow> as_generation active \<noteq> g)"

definition unsubscribe_request ::
    "json_library \<Rightarrow> 'o transmit \<Rightarrow> backend_answers \<Rightarrow> (nat \<Rightarrow> 'o HostProtocol \<Rightarrow> 'o HostProtocol) \<Rightarrow> json \<Rightarrow>
     'o HostProtocol \<Rightarrow> ProcessResult \<times> 'o HostProtocol" where
  "unsubscribe_request L sink a gap request h =
     (let dump = jl_dump L; done_frame = reply True (Some (Success_frame dump request JNull))
      in if hp_cancellation_pending h
         then (reply True (Some (Failure_frame dump request ''subscription_busy'')), h)
         else case UnsubscribeParameters (at_key request ''parameters'') of
           None \<Rightarrow> (reply True (Some (Failure_frame dump request ''invalid_request'')), h)
         | Some (i, g) \<Rightarrow>
             if other_generation i g h
             then (reply True (Some (Failure_frame dump request ''invalid_subscription'')), h)
             else if flow_retired i g h then (done_frame, h)
             else if \<not> flow_live i g h
             then (reply True (Some (Failure_frame dump request ''invalid_subscription'')), h)
             else
               let h1 = gap 0 (call (BC_CancelSubscription i g (request_timeout request))
                           (h\<lparr>hp_cancellation_pending := True\<rparr>));
                   h2 = h1\<lparr>hp_cancellation_pending := False\<rparr>;
                   (cancelled, error_code) = ba_cancel a
               in if interrupted h2 then (no_result, h2)
                  else if map_of (hp_subscriptions h2) i = None \<or>
                          (\<not> other_generation i g h2 \<and> flow_retired i g h2)
                  then (done_frame, h2)
                  else if \<not> cancelled
                  then (reply True (Some (Failure_frame dump request
                          (if error_code = [] then ''invalid_subscription'' else error_code))), h2)
                  else (case retire_stream L sink i g (gap 1 h2) of
                          (False, h3) \<Rightarrow> (no_result, Close a h3)
                        | (True, h3) \<Rightarrow> (done_frame, erase_subscription i (gap 2 h3))))"

definition interaction_request ::
    "json_library \<Rightarrow> backend_answers \<Rightarrow> (nat \<Rightarrow> 'o HostProtocol \<Rightarrow> 'o HostProtocol) \<Rightarrow> json \<Rightarrow> string \<Rightarrow>
     'o HostProtocol \<Rightarrow> ProcessResult \<times> 'o HostProtocol" where
  "interaction_request L a gap request operation h =
     (let dump = jl_dump L; parameters = at_key request ''parameters''
      in if contains parameters ''fabric_id'' \<and> is_number_unsigned (at_key parameters ''fabric_id'') \<and>
            get_unsigned (at_key parameters ''fabric_id'') \<noteq> hp_fabric_id h
         then (reply True (Some (Failure_frame dump request ''fabric_mismatch'')), h)
         else case InteractionParameters operation parameters (request_timeout request) of
           Some interaction \<Rightarrow>
             if rq_fabric_id interaction \<noteq> hp_fabric_id h
             then (reply True (Some (Failure_frame dump request ''fabric_mismatch'')), h)
             else
               let h1 = gap 0 (call (BC_Interact interaction) h); response = ba_interact a
               in if interrupted h1 then (no_result, h1)
                  else if \<not> rs_ok response
                  then (case rs_error response of
                          Some err \<Rightarrow>
                            if ie_code err = []
                            then (reply True (Some (BackendFailure dump request ''invalid_backend_result'')), h1)
                            else (reply True (Some (InteractionFailure dump request err)), h1)
                        | None \<Rightarrow> (reply True (Some (BackendFailure dump request ''invalid_backend_result'')), h1))
                  else if rq_kind interaction = IK_ReadAttribute \<and> length (rs_results response) = 1 \<and>
                          pr_error (rs_results response ! 0) \<noteq> None
                  then (reply True (Some (InteractionFailure dump request
                          (the (pr_error (rs_results response ! 0))))), h1)
                  else (case InteractionJson interaction response of
                          None \<Rightarrow> (reply True (Some (BackendFailure dump request ''invalid_backend_result'')), h1)
                        | Some result \<Rightarrow>
                            if \<not> valid_encoded_result_size (length (dump result))
                            then (reply True (Some (BackendFailure dump request ''response_limit'')), h1)
                            else (reply True (Some (Success_frame dump request result)), h1))
         | None \<Rightarrow>
             if operation = ''read'' \<or> operation = ''read_paths'' \<or> operation = ''read_events'' \<or>
                operation = ''write'' \<or> operation = ''invoke''
             then (reply True (Some (Failure_frame dump request ''invalid_request'')), h)
             else (reply True (Some (Failure_frame dump request ''not_supported'')), h))"

definition open_dispatch ::
    "json_library \<Rightarrow> 'o transmit \<Rightarrow> backend_answers \<Rightarrow> (nat \<Rightarrow> 'o HostProtocol \<Rightarrow> 'o HostProtocol) \<Rightarrow> json \<Rightarrow>
     'o HostProtocol \<Rightarrow> ProcessResult \<times> 'o HostProtocol" where
  "open_dispatch L sink a gap request h =
     (let dump = jl_dump L; operation = get_string (at_key request ''operation'');
          no_parameters = (members (at_key request ''parameters'') = [])
      in if operation = ''close'' \<and> no_parameters
         then (reply False (Some (Success_frame dump request JNull)), Close a h)
         else if operation = ''health'' \<and> no_parameters
         then (reply True (Some (Success_frame dump request
                 (JObj [(''status'', JStr ''ready''), (''fabric_id'', JUint (hp_fabric_id h))]))), h)
         else if hp_processing_depth h > 1 \<and> operation \<noteq> ''unsubscribe''
         then (reply True (Some (Failure_frame dump request ''interaction_busy'')), h)
         else if operation = ''commission_on_network'' then commission_request L a gap request h
         else if operation = ''open_window'' then window_request L a gap request h
         else if operation = ''subscribe'' then subscribe_request L a gap request h
         else if operation = ''unsubscribe'' then unsubscribe_request L sink a gap request h
         else interaction_request L a gap request operation h)"

definition ProcessLineImpl ::
    "json_library \<Rightarrow> 'o transmit \<Rightarrow> backend_answers \<Rightarrow> (nat \<Rightarrow> 'o HostProtocol \<Rightarrow> 'o HostProtocol) \<Rightarrow> string \<Rightarrow>
     'o HostProtocol \<Rightarrow> ProcessResult \<times> 'o HostProtocol" where
  "ProcessLineImpl L sink a gap line h =
     (if \<not> healthy h then (no_result, Close a h)
      else case ParseBounded (jl_sax L) (jl_parse L) line of
        None \<Rightarrow> (no_result, Close a h)
      | Some request \<Rightarrow>
          if hp_state h = State_AwaitFlow then flow_open a request h
          else if hp_state h = State_Open \<and> ExactKeys request ack_keys then report_ack sink a request h
          else case ValidRequestEnvelope request of
            None \<Rightarrow> (no_result, Close a h)
          | Some request_id \<Rightarrow>
              let reserved_close = (at_key request ''id'' = JStr ''close'')
              in if (reserved_close \<and> hp_state h \<noteq> State_Open) \<or>
                    (\<not> reserved_close \<and> request_id \<le> hp_greatest_request_id h)
                 then (no_result, Close a h)
                 else
                   let h1 = (if reserved_close then h else h\<lparr>hp_greatest_request_id := request_id\<rparr>)
                   in if hp_state h1 = State_AwaitOpen then open_request L a gap request h1
                      else if hp_state h1 \<noteq> State_Open then (no_result, h1)
                      else open_dispatch L sink a gap request h1)"

definition ProcessLine ::
    "json_library \<Rightarrow> 'o transmit \<Rightarrow> backend_answers \<Rightarrow> (nat \<Rightarrow> 'o HostProtocol \<Rightarrow> 'o HostProtocol) \<Rightarrow> string \<Rightarrow>
     'o HostProtocol \<Rightarrow> ProcessResult \<times> 'o HostProtocol" where
  "ProcessLine L sink a gap line h =
     (case ProcessLineImpl L sink a gap line (h\<lparr>hp_processing_depth := hp_processing_depth h + 1\<rparr>) of
        (result, h1) \<Rightarrow>
          let h2 = h1\<lparr>hp_processing_depth := hp_processing_depth h1 - 1\<rparr>
          in if hp_processing_depth h2 = 0 \<and> (hp_close_requested h2 \<or> \<not> healthy h2)
             then (no_result, Close a h2)
             else (result, h2))"

end
