(* ===== verification/HostChannel.thy ===== *)
theory HostChannel
  imports HostProtocol
begin

text \<open>
  What the methods of the credit manager leave of the set of live streams, and of the channel behind
  \<open>transmit_\<close>: the lemmas the session proofs of the theories above rest on.  The locale \<open>channel_step\<close> states them
  once for every relation between two states of a channel; the locale \<open>sink_env\<close>, of a sink and what may happen to its
  state, gives it on \<open>WriteFrame\<close>.
\<close>

section \<open>Live streams\<close>

definition live_keys :: "ReportCreditManager \<Rightarrow> string set" where
  "live_keys m = {k. \<exists>s. map_of (cm_streams m) k = Some s \<and> st_live s}"

lemma IsLive_iff: "IsLive i g m \<longleftrightarrow> Key i g \<in> live_keys m"
  by (auto simp: IsLive_def live_keys_def split: option.splits)

lemma live_keys_cong: "cm_streams m' = cm_streams m \<Longrightarrow> live_keys m' = live_keys m"
  by (simp add: live_keys_def)

lemma live_keys_fields [simp]:
  "live_keys (m\<lparr>cm_outstanding := x\<rparr>) = live_keys m" "live_keys (m\<lparr>cm_queued := x\<rparr>) = live_keys m"
  "live_keys (m\<lparr>cm_acknowledged_sequence := q\<rparr>) = live_keys m"
  "live_keys (m\<lparr>cm_acknowledged_bytes := q\<rparr>) = live_keys m"
  by (simp_all add: live_keys_def)

lemma live_keys_update:
  "cm_streams m' = AList.update k s (cm_streams m) \<Longrightarrow>
   live_keys m' = (if st_live s then insert k (live_keys m) else live_keys m - {k})"
  by (auto simp: live_keys_def)

lemma live_keys_delete: "cm_streams m' = AList.delete k (cm_streams m) \<Longrightarrow> live_keys m' = live_keys m - {k}"
  by (auto simp: live_keys_def)

lemma live_keys_present: "map_of (cm_streams m) k = Some s \<Longrightarrow> k \<in> live_keys m \<longleftrightarrow> st_live s"
  by (simp add: live_keys_def)

lemma TransmitFrame_live:
  "TransmitFrame tx f (m, w) = (ok, m', w') \<Longrightarrow> live_keys m' = live_keys m"
  by (auto simp: TransmitFrame_def Let_def live_keys_def split: option.splits if_splits prod.splits)

lemma Drain_live: "Drain tx m w = (ok, m', w') \<Longrightarrow> live_keys m' = live_keys m"
proof (induction tx m w arbitrary: ok m' w' rule: Drain.induct)
  case (1 tx m w)
  show ?case
  proof (cases "cm_queued m")
    case Nil
    then show ?thesis using "1.prems" by (simp add: Drain.simps [of tx m])
  next
    case (Cons f fs)
    let ?k = "Key (fr_subscription_id f) (fr_generation f)"
    have pop: "live_keys (pop_queued f m) = live_keys m" by (rule live_keys_cong) (simp add: pop_queued_def)
    show ?thesis
    proof (cases "map_of (cm_streams m) ?k")
      case None
      then show ?thesis using "1.prems" "1.IH"(1) [OF Cons refl None] Cons pop
        by (simp add: Drain.simps [of tx m])
    next
      case (Some s)
      show ?thesis
      proof (cases "st_live s \<and> CanTransmit m s (length (fr_encode f (cm_next_sequence m)) + 1)")
        case False
        then show ?thesis using "1.prems" "1.IH"(2) [OF Cons refl Some] Cons Some pop
          by (auto simp: Drain.simps [of tx m] split: if_splits)
      next
        case True
        let ?m = "pop_queued f (m\<lparr>cm_streams := AList.update ?k (s\<lparr>st_queued := st_queued s - 1\<rparr>) (cm_streams m)\<rparr>)"
        have m: "live_keys ?m = live_keys m"
          using True Some by (subst live_keys_update [of _ ?k "s\<lparr>st_queued := st_queued s - 1\<rparr>" m])
            (auto simp: pop_queued_def live_keys_present)
        obtain ok1 m1 w1 where t: "TransmitFrame tx f (?m, w) = (ok1, m1, w1)" by (rule prod_cases3)
        show ?thesis
          using "1.prems" "1.IH"(3) [OF Cons refl Some _ _ t [symmetric] refl] True Cons Some t m TransmitFrame_live [OF t]
          by (auto simp: Drain.simps [of tx m] split: if_splits)
      qed
    qed
  qed
qed

lemma Submit_live: "Submit tx i g e (m, w) = (r, m', w') \<Longrightarrow> live_keys m' = live_keys m"
  by (auto simp: Submit_def Let_def live_keys_update live_keys_present dest: TransmitFrame_live
      split: option.splits if_splits prod.splits)

lemma release_live: "live_keys (release f m) = live_keys m"
proof -
  let ?k = "Key (fr_subscription_id f) (fr_generation f)"
  show ?thesis
  proof (cases "map_of (cm_streams m) ?k")
    case (Some s)
    let ?s = "s\<lparr>st_outstanding := st_outstanding s - 1\<rparr>"
    have "live_keys (m\<lparr>cm_outstanding_bytes := b, cm_streams := AList.update ?k ?s (cm_streams m)\<rparr>) = live_keys m" for b
      using Some by (subst live_keys_update [of _ ?k ?s m]) (auto simp: live_keys_present)
    moreover have "live_keys (m\<lparr>cm_outstanding_bytes := b, cm_streams := AList.delete ?k (cm_streams m)\<rparr>) = live_keys m"
      if "\<not> st_live s" for b
      using Some that by (subst live_keys_delete [of _ ?k m]) (auto simp: live_keys_present)
    moreover have "live_keys (m\<lparr>cm_outstanding_bytes := b\<rparr>) = live_keys m" for b by (rule live_keys_cong) simp
    ultimately show ?thesis using Some by (simp add: release_def Let_def)
  qed (simp add: release_def Let_def live_keys_def)
qed

lemma release_loop_live: "live_keys (release_loop n fs m) = live_keys m"
proof (induction n fs m rule: release_loop.induct)
  case (2 n f fs m)
  then show ?case by (simp add: release_live)
qed simp

lemma Acknowledge_live:
  assumes "Acknowledge tx q b (m, w) = (ok, m', w')"
  shows "live_keys m' = live_keys m"
proof -
  let ?m = "(release_loop q (cm_outstanding m) m)\<lparr>cm_acknowledged_sequence := q, cm_acknowledged_bytes := b\<rparr>"
  have "live_keys ?m = live_keys m"
    by (simp add: release_loop_live)
  then show ?thesis using assms Drain_live [of tx ?m w]
    by (auto simp: Acknowledge_def Let_def split: if_splits option.splits)
qed

lemma retire_loop_live:
  assumes "map_of (cm_streams m) (Key i g) = Some s" "\<not> st_live s"
  shows "live_keys (retire_loop i g kept fs m) = live_keys m"
  using assms
proof (induction i g kept fs m arbitrary: s rule: retire_loop.induct)
  case (2 i g kept f fs m)
  let ?s = "s\<lparr>st_queued := st_queued s - 1\<rparr>"
  let ?m = "m\<lparr>cm_queued_bytes := cm_queued_bytes m - of_nat (length (fr_encoded f) + 1),
      cm_streams := AList.update (Key i g) ?s (cm_streams m)\<rparr>"
  have "live_keys ?m = live_keys m"
    using "2.prems" by (subst live_keys_update [of _ "Key i g" ?s m]) (auto simp: live_keys_present)
  then show ?case
    using "2.IH"(1) [OF _ refl refl, of ?s] "2.IH"(2) "2.prems" by (auto simp: Let_def)
qed (simp add: live_keys_def)

lemma AddStream_live:
  "AddStream i g l m = (ok, m') \<Longrightarrow> live_keys m' = (if ok then insert (Key i g) (live_keys m) else live_keys m)"
  by (auto simp: AddStream_def Let_def live_keys_update split: if_splits)

lemma Retire_live:
  assumes "Retire tx i g b (m, w) = (ok, m', w')"
  shows "live_keys m' = live_keys m - {Key i g}"
proof (cases "\<exists>s. map_of (cm_streams m) (Key i g) = Some s \<and> st_live s")
  case False
  then have "m' = m" using assms by (auto simp: Retire_def Let_def split: option.splits if_splits)
  then show ?thesis using False by (auto simp: live_keys_def)
next
  case True
  then obtain s where s: "map_of (cm_streams m) (Key i g) = Some s" "st_live s" by blast
  let ?m0 = "m\<lparr>cm_streams := AList.update (Key i g) (s\<lparr>st_live := False\<rparr>) (cm_streams m)\<rparr>"
  let ?m1 = "retire_loop i g [] (cm_queued m) ?m0"
  have m1: "live_keys ?m1 = live_keys m - {Key i g}"
    by (subst retire_loop_live [of _ _ _ "s\<lparr>st_live := False\<rparr>"])
      (auto simp: live_keys_update [of _ "Key i g" "s\<lparr>st_live := False\<rparr>" m])
  have m2: "live_keys (?m1\<lparr>cm_streams := AList.delete (Key i g) (cm_streams ?m1)\<rparr>) = live_keys m - {Key i g}"
    using m1 by (subst live_keys_delete [of _ "Key i g" ?m1]) auto
  show ?thesis
    using assms s m1 m2 by (auto simp: Retire_def Let_def dest: Drain_live split: prod.splits if_splits)
qed

lemma BeginRecovery_live:
  assumes "BeginRecovery tx i p n l b (m, w) = (ok, m', w')"
  shows "live_keys m - {Key i p} \<subseteq> live_keys m' \<and> (ok \<longrightarrow> Key i n \<in> live_keys m')"
  using assms by (auto simp: BeginRecovery_def dest!: Retire_live AddStream_live split: if_splits prod.splits)

lemmas flow_live_lemmas = Submit_live Acknowledge_live Retire_live BeginRecovery_live AddStream_live

section \<open>What the credit manager does to the channel\<close>

text \<open>A reflexive and transitive relation that one transmission keeps is kept by every method.\<close>

locale channel_step =
  fixes tx :: "'w transmit" and R :: "'w \<Rightarrow> 'w \<Rightarrow> bool"
  assumes stays: "R w w"
    and joins: "R w1 w2 \<Longrightarrow> R w2 w3 \<Longrightarrow> R w1 w3"
    and sends: "R w (snd (tx f w))"
begin

lemma TransmitFrame_channel: "TransmitFrame tx f (m, w) = (ok, m', w') \<Longrightarrow> R w w'"
  using sends [of w "fr_encode f (cm_next_sequence m)"]
  by (auto simp: TransmitFrame_def Let_def stays split: option.splits if_splits prod.splits)

lemma Drain_channel_eq: "Drain t m w = (ok, m', w') \<Longrightarrow> t = tx \<Longrightarrow> R w w'"
proof (induction t m w arbitrary: ok m' w' rule: Drain.induct)
  case (1 t m w)
  show ?case
  proof (cases "cm_queued m")
    case Nil
    then show ?thesis using "1.prems" by (simp add: Drain.simps [of _ m] stays)
  next
    case (Cons f fs)
    let ?k = "Key (fr_subscription_id f) (fr_generation f)"
    show ?thesis
    proof (cases "map_of (cm_streams m) ?k")
      case None
      then show ?thesis using "1.prems" "1.IH"(1) [OF Cons refl None] Cons by (simp add: Drain.simps [of _ m])
    next
      case (Some s)
      let ?m = "pop_queued f (m\<lparr>cm_streams := AList.update ?k (s\<lparr>st_queued := st_queued s - 1\<rparr>) (cm_streams m)\<rparr>)"
      obtain ok1 m1 w1 where t: "TransmitFrame t f (?m, w) = (ok1, m1, w1)" by (rule prod_cases3)
      show ?thesis
        using "1.prems" "1.IH"(2) [OF Cons refl Some] "1.IH"(3) [OF Cons refl Some _ _ t [symmetric] refl] Cons Some t
          TransmitFrame_channel [OF t [unfolded "1.prems"(2)]]
        by (auto simp: Drain.simps [of _ m] stays intro: joins split: if_splits)
    qed
  qed
qed

lemmas Drain_channel = Drain_channel_eq [OF _ refl]

lemma Submit_channel: "Submit tx i g e (m, w) = (r, m', w') \<Longrightarrow> R w w'"
  by (auto simp: Submit_def Let_def stays dest: TransmitFrame_channel split: option.splits if_splits prod.splits)

lemma Acknowledge_channel: "Acknowledge tx q b (m, w) = (ok, m', w') \<Longrightarrow> R w w'"
  by (auto simp: Acknowledge_def Let_def stays dest: Drain_channel split: option.splits if_splits)

lemma Retire_channel: "Retire tx i g b (m, w) = (ok, m', w') \<Longrightarrow> R w w'"
  using sends [of w b]
  by (auto simp: Retire_def Let_def stays dest: Drain_channel intro: joins split: option.splits if_splits prod.splits)

lemma BeginRecovery_channel: "BeginRecovery tx i p n l b (m, w) = (ok, m', w') \<Longrightarrow> R w w'"
  by (auto simp: BeginRecovery_def stays dest: Retire_channel split: if_splits prod.splits)

end

definition channel_ok :: "'o channel \<Rightarrow> bool" where
  "channel_ok c \<longleftrightarrow> ch_failure_calls c = (if ch_failed c then 1 else 0)"

text \<open>What others may do to the state of the sink is a relation \<open>env\<close>; the sink's own changes are part of it.\<close>

definition channel_evolves :: "('o \<Rightarrow> 'o \<Rightarrow> bool) \<Rightarrow> 'o channel \<Rightarrow> 'o channel \<Rightarrow> bool" where
  "channel_evolves env c c' \<longleftrightarrow>
     (ch_failed c \<longrightarrow> ch_failed c') \<and> (channel_ok c \<longrightarrow> channel_ok c') \<and> env (ch_out c) (ch_out c')"

locale sink_env =
  fixes sink :: "'o transmit" and env :: "'o \<Rightarrow> 'o \<Rightarrow> bool"
  assumes env_refl: "env out out"
    and env_trans: "env out1 out2 \<Longrightarrow> env out2 out3 \<Longrightarrow> env out1 out3"
    and env_sink: "env out (snd (sink f out))"
begin

lemma WriteFrame_channel: "WriteFrame sink f c = (ok, c') \<Longrightarrow> channel_evolves env c c' \<and> (ok \<or> ch_failed c')"
  using env_sink [of "ch_out c" f]
  by (auto simp: WriteFrame_def FailChannel_def channel_evolves_def channel_ok_def env_refl
      split: if_splits prod.splits bool.splits)

end

sublocale sink_env \<subseteq> frames: channel_step "WriteFrame sink" "channel_evolves env"
proof unfold_locales
  show "channel_evolves env w (snd (WriteFrame sink f w))" for f w
    using WriteFrame_channel [of f w] by (cases "WriteFrame sink f w") simp
  show "channel_evolves env w1 w3" if "channel_evolves env w1 w2" "channel_evolves env w2 w3" for w1 w2 w3
    using that env_trans by (auto simp: channel_evolves_def)
qed (simp add: channel_evolves_def env_refl)

text \<open>Every sink, when others may do anything to its state.\<close>

interpretation free: sink_env sink "\<lambda>_ _. True" for sink :: "'o transmit"
  by unfold_locales simp_all

end
