(* ===== verification/HostSession.thy ===== *)
theory HostSession
  imports HostChannel
begin

text \<open>
  The session of theory \<open>HostProtocol\<close> as a transition system: every event of the backend, every line of
  the peer, nested as deeply as the backend pumps its input, and every request to close, in any order.
  The session keeps its invariant on every run.
\<close>

section \<open>The transition system\<close>

text \<open>
  \<open>session L sink env h h'\<close>: some sequence of steps leads from \<open>h\<close> to \<open>h'\<close>.  While a line is handled, the backend
  may take any steps itself: what it does at point \<open>k\<close> of the handler is \<open>gap k\<close>, which must lead from every
  session to one that steps lead to.  The state of the sink changes at any time as \<open>env\<close>
  allows: the host enqueues its answers there and the output thread empties it.  A subscription is activated only after a \<open>subscribe\<close> has been handled and before the close,
  and the host closes the session only when no line is being handled.
\<close>

inductive session ::
    "json_library \<Rightarrow> 'o transmit \<Rightarrow> ('o \<Rightarrow> 'o \<Rightarrow> bool) \<Rightarrow> 'o HostProtocol \<Rightarrow> 'o HostProtocol \<Rightarrow> bool"
  for L :: json_library and sink :: "'o transmit" and env :: "'o \<Rightarrow> 'o \<Rightarrow> bool"
where
  done_: "session L sink env h h"
| report: "session L sink env h0 h \<Longrightarrow> session L sink env h0 (snd (EmitReport L sink r h))"
| status: "session L sink env h0 h \<Longrightarrow> session L sink env h0 (snd (EmitStatus L sink s h))"
| failure: "session L sink env h0 h \<Longrightarrow> session L sink env h0 (EmitFailure L sink i g e h)"
| channel_failure: "session L sink env h0 h \<Longrightarrow> session L sink env h0 (FailChannel_protocol h)"
| sink_changed: "session L sink env h0 h \<Longrightarrow> env (ch_out (hp_channel h)) out \<Longrightarrow>
    session L sink env h0 (h\<lparr>hp_channel := (hp_channel h)\<lparr>ch_out := out\<rparr>\<rparr>)"
| request_close: "session L sink env h0 h \<Longrightarrow> session L sink env h0 (RequestClose h)"
| activate: "session L sink env h0 h \<Longrightarrow>
    hp_subscriptions h \<noteq> [] \<or> (hp_state h \<noteq> State_Closed \<and> BC_Subscribe q \<in> set (hp_calls h)) \<Longrightarrow>
    session L sink env h0 (snd (ActivateSubscription ok i g h))"
| line: "session L sink env h0 h \<Longrightarrow> (\<And>k x. session L sink env x (gap k x)) \<Longrightarrow>
    session L sink env h0 (snd (ProcessLine L sink a gap l h))"
| close: "session L sink env h0 h \<Longrightarrow> hp_processing_depth h = 0 \<Longrightarrow> session L sink env h0 (Close a h)"

section \<open>The invariant\<close>

fun rank :: "State \<Rightarrow> nat" where
  "rank State_AwaitFlow = 0"
| "rank State_AwaitOpen = 1"
| "rank State_Open = 2"
| "rank State_Closing = 3"
| "rank State_Closed = 4"

text \<open>Every registered subscription, but those of \<open>X\<close>, has a live stream in the credit manager.\<close>

definition registered_live :: "string set \<Rightarrow> 'o HostProtocol \<Rightarrow> bool" where
  "registered_live X h \<longleftrightarrow>
     (\<forall>i a. i \<notin> X \<longrightarrow> map_of (hp_subscriptions h) i = Some a \<longrightarrow> flow_live i (as_generation a) h)"

text \<open>The calls of the backend: none before \<open>Open\<close>, at most one \<open>Close\<close>, and none after the close.\<close>

fun ends_backend :: "backend_call \<Rightarrow> bool" where
  "ends_backend BC_Close = True"
| "ends_backend BC_ClearSinks = True"
| "ends_backend _ = False"

fun starts_backend :: "backend_call \<Rightarrow> bool" where
  "starts_backend (BC_Open _) = True"
| "starts_backend _ = False"

definition working :: "backend_call list \<Rightarrow> bool" where
  "working cs \<longleftrightarrow> list_all (\<lambda>c. \<not> ends_backend c) cs \<and> (cs = [] \<or> starts_backend (hd cs))"

definition shut_down :: "backend_call list \<Rightarrow> bool" where
  "shut_down cs \<longleftrightarrow> (\<exists>pre. working pre \<and> (cs = pre @ [BC_ClearSinks] \<or> cs = pre @ [BC_Close, BC_ClearSinks]))"

definition flow_ok :: "'o HostProtocol \<Rightarrow> bool" where
  "flow_ok h \<longleftrightarrow> (case hp_report_flow h of None \<Rightarrow> True | Some m \<Rightarrow> credit_inv m)"

definition state_ok :: "'o HostProtocol \<Rightarrow> bool" where
  "state_ok h \<longleftrightarrow>
     (case hp_state h of
        State_AwaitFlow \<Rightarrow> hp_report_flow h = None \<and> hp_subscriptions h = [] \<and> working (hp_calls h)
      | State_AwaitOpen \<Rightarrow> hp_report_flow h \<noteq> None \<and> hp_subscriptions h = [] \<and> working (hp_calls h)
      | State_Open \<Rightarrow> hp_report_flow h \<noteq> None \<and> working (hp_calls h) \<and> hp_calls h \<noteq> []
      | State_Closing \<Rightarrow> hp_close_requested h \<and> working (hp_calls h) \<and> (hp_subscriptions h = [] \<or> hp_calls h \<noteq> [])
      | State_Closed \<Rightarrow> hp_report_flow h = None \<and> hp_subscriptions h = [] \<and> shut_down (hp_calls h))"

definition hp_inv :: "string set \<Rightarrow> 'o HostProtocol \<Rightarrow> bool" where
  "hp_inv X h \<longleftrightarrow>
     channel_ok (hp_channel h) \<and> flow_ok h \<and> state_ok h \<and>
     (healthy h \<and> hp_state h = State_Open \<longrightarrow> registered_live X h)"

text \<open>How a session changes over time.\<close>

definition evolves :: "('o \<Rightarrow> 'o \<Rightarrow> bool) \<Rightarrow> 'o HostProtocol \<Rightarrow> 'o HostProtocol \<Rightarrow> bool" where
  "evolves env h h' \<longleftrightarrow>
     hp_processing_depth h' = hp_processing_depth h \<and>
     rank (hp_state h) \<le> rank (hp_state h') \<and>
     (1 \<le> rank (hp_state h) \<longrightarrow> hp_session_generation h' = hp_session_generation h) \<and>
     hp_greatest_request_id h \<le> hp_greatest_request_id h' \<and>
     (hp_close_requested h \<longrightarrow> hp_close_requested h') \<and>
     (healthy h' \<longrightarrow> healthy h) \<and>
     (\<exists>cs. hp_calls h' = hp_calls h @ cs) \<and>
     env (ch_out (hp_channel h)) (ch_out (hp_channel h'))"

definition unclosed :: "'o HostProtocol \<Rightarrow> 'o HostProtocol \<Rightarrow> bool" where
  "unclosed h h' \<longleftrightarrow> (hp_state h' = State_Closed \<longrightarrow> hp_state h = State_Closed)"

text \<open>A step that keeps the invariant, and that does not close the session while at least \<open>n\<close> lines are being handled.\<close>

definition steps :: "('o \<Rightarrow> 'o \<Rightarrow> bool) \<Rightarrow> nat \<Rightarrow> string set \<Rightarrow> 'o HostProtocol \<Rightarrow> 'o HostProtocol \<Rightarrow> bool" where
  "steps env n X h h' \<longleftrightarrow>
     (hp_inv X h \<longrightarrow> hp_inv X h' \<and> evolves env h h' \<and> (n \<le> hp_processing_depth h \<longrightarrow> unclosed h h'))"

text \<open>What the backend does while a line is handled keeps the invariant and does not close the session.\<close>

definition gap_ok :: "('o \<Rightarrow> 'o \<Rightarrow> bool) \<Rightarrow> (nat \<Rightarrow> 'o HostProtocol \<Rightarrow> 'o HostProtocol) \<Rightarrow> bool" where
  "gap_ok env gap \<longleftrightarrow> (\<forall>k x X. steps env 1 X x (gap k x))"

context sink_env
begin

declare env_refl [simp]

lemma evolves_refl [simp]: "evolves env h h"
  by (simp add: evolves_def)

lemma evolves_trans: "evolves env h1 h2 \<Longrightarrow> evolves env h2 h3 \<Longrightarrow> evolves env h1 h3"
  by (auto simp: evolves_def intro: env_trans)

lemma steps_refl [simp, intro]: "steps env n X h h"
  by (simp add: steps_def unclosed_def)

lemma evolves_depth: "evolves env h h' \<Longrightarrow> hp_processing_depth h' = hp_processing_depth h"
  by (simp add: evolves_def)

lemma steps_trans:
  assumes "steps env n X h1 h2" "steps env n X h2 h3"
  shows "steps env n X h1 h3"
  unfolding steps_def
proof
  assume "hp_inv X h1"
  then have h2: "hp_inv X h2" "evolves env h1 h2" "n \<le> hp_processing_depth h1 \<Longrightarrow> unclosed h1 h2"
    using assms(1) by (simp_all add: steps_def)
  then have h3: "hp_inv X h3" "evolves env h2 h3" "n \<le> hp_processing_depth h2 \<Longrightarrow> unclosed h2 h3"
    using assms(2) by (simp_all add: steps_def)
  from h2 h3 show "hp_inv X h3 \<and> evolves env h1 h3 \<and> (n \<le> hp_processing_depth h1 \<longrightarrow> unclosed h1 h3)"
    using evolves_trans [OF h2(2) h3(2)] evolves_depth [OF h2(2)] by (auto simp: unclosed_def)
qed

lemma steps_mono: "steps env n X h h' \<Longrightarrow> n \<le> k \<Longrightarrow> steps env k X h h'"
  by (simp add: steps_def)

lemma stepsI:
  "(hp_inv X h \<Longrightarrow> hp_inv X h' \<and> evolves env h h' \<and> (n \<le> hp_processing_depth h \<longrightarrow> unclosed h h')) \<Longrightarrow> steps env n X h h'"
  by (simp add: steps_def)

lemma working_append:
  "working (cs @ [c]) \<longleftrightarrow> working cs \<and> \<not> ends_backend c \<and> (cs = [] \<longrightarrow> starts_backend c)"
  by (cases cs) (auto simp: working_def)

section \<open>The events of the backend\<close>

lemma channel_steps:
  assumes "channel_evolves env (hp_channel h) c"
  shows "steps env n X h (h\<lparr>hp_channel := c\<rparr>)"
  using assms
  by (auto simp: steps_def hp_inv_def evolves_def unclosed_def flow_ok_def state_ok_def healthy_def channel_evolves_def
      registered_live_def flow_live_def cong: State.case_cong)

lemma FailChannel_steps: "steps env n X h (FailChannel_protocol h)"
  unfolding FailChannel_protocol_def
  by (rule channel_steps) (simp add: FailChannel_def channel_evolves_def channel_ok_def)

lemma write_frame_steps: "write_frame sink f h = (ok, h') \<Longrightarrow> steps env n X h h'"
  by (auto simp: write_frame_def dest: WriteFrame_channel intro: channel_steps split: prod.splits)

lemma write_frame_refused: "write_frame sink f h = (False, h') \<Longrightarrow> \<not> healthy h'"
  by (auto simp: write_frame_def healthy_def dest: WriteFrame_channel split: prod.splits)

text \<open>A method of the credit manager that keeps the live streams but those of \<open>X\<close>.\<close>

lemma flow_steps:
  assumes "hp_report_flow h = Some m" and "channel_evolves env (hp_channel h) c" and "credit_inv m \<Longrightarrow> credit_inv m'"
    and "\<And>i g. i \<notin> X \<Longrightarrow> IsLive i g m \<Longrightarrow> IsLive i g m'"
  shows "steps env n X h (h\<lparr>hp_report_flow := Some m', hp_channel := c\<rparr>)"
  using assms
  by (auto simp: steps_def hp_inv_def evolves_def unclosed_def flow_ok_def state_ok_def healthy_def channel_evolves_def
      registered_live_def flow_live_def split: State.splits)

lemma with_flow_steps:
  assumes "with_flow f m h = (r, h')" and "hp_report_flow h = Some m"
    and "\<And>m' c. f (m, hp_channel h) = (r, m', c) \<Longrightarrow>
      channel_evolves env (hp_channel h) c \<and> (credit_inv m \<longrightarrow> credit_inv m') \<and>
      (\<forall>i g. i \<notin> X \<longrightarrow> IsLive i g m \<longrightarrow> IsLive i g m')"
  shows "steps env n X h h'"
  using assms by (auto simp: with_flow_def intro!: flow_steps split: prod.splits)

lemma Submit_steps:
  assumes "with_flow (Submit (WriteFrame sink) i g e) m h = (r, h')" and "hp_report_flow h = Some m"
  shows "steps env n X h h'"
  using assms Submit_inv [of m "WriteFrame sink" i g e "hp_channel h"]
  by (rule_tac with_flow_steps [OF assms])
    (auto dest: frames.Submit_channel Submit_live simp: IsLive_iff)

lemma Acknowledge_steps:
  assumes "with_flow (Acknowledge (WriteFrame sink) q b) m h = (r, h')" and "hp_report_flow h = Some m"
  shows "steps env n X h h'"
  using Acknowledge_inv [of m "WriteFrame sink" q b "hp_channel h"]
  by (rule_tac with_flow_steps [OF assms])
    (auto dest: frames.Acknowledge_channel Acknowledge_live simp: IsLive_iff)

lemma Retire_steps:
  assumes "with_flow (Retire (WriteFrame sink) i g b) m h = (r, h')" and "hp_report_flow h = Some m" and "i \<in> X"
  shows "steps env n X h h'"
  using Retire_inv [of m "WriteFrame sink" i g b "hp_channel h"] assms(3)
  by (rule_tac with_flow_steps [OF assms(1,2)])
    (auto dest: frames.Retire_channel Retire_live simp: IsLive_iff Key_inject)

lemma BeginRecovery_steps:
  assumes "with_flow (BeginRecovery (WriteFrame sink) i p q l b) m h = (r, h')" and "hp_report_flow h = Some m"
    and "i \<in> X"
  shows "steps env n X h h'"
  using BeginRecovery_inv [of m "WriteFrame sink" i p q l b "hp_channel h"] assms(3)
  by (rule_tac with_flow_steps [OF assms(1,2)])
    (frule frames.BeginRecovery_channel, frule BeginRecovery_live, auto simp: IsLive_iff Key_inject)

lemma hp_inv_insert: "hp_inv X h \<Longrightarrow> hp_inv (insert i X) h"
  by (simp add: hp_inv_def registered_live_def)

text \<open>A step that may end stream \<open>i\<close>, followed by one that mends its registration.\<close>

lemma steps_mended:
  assumes "steps env n (insert i X) h h1"
    and "hp_inv (insert i X) h1 \<Longrightarrow> hp_inv X h2" "evolves env h1 h2" "unclosed h1 h2"
  shows "steps env n X h h2"
  unfolding steps_def
proof
  assume "hp_inv X h"
  then have h1: "hp_inv (insert i X) h1" "evolves env h h1" "n \<le> hp_processing_depth h \<Longrightarrow> unclosed h h1"
    using assms(1) hp_inv_insert by (auto simp: steps_def)
  then show "hp_inv X h2 \<and> evolves env h h2 \<and> (n \<le> hp_processing_depth h \<longrightarrow> unclosed h h2)"
    using assms(2-4) evolves_trans [OF h1(2) assms(3)] by (auto simp: unclosed_def)
qed

lemma erase_mends: "hp_inv (insert i X) h \<Longrightarrow> hp_inv X (erase_subscription i h)"
  by (auto simp: hp_inv_def erase_subscription_def flow_ok_def state_ok_def healthy_def registered_live_def
      flow_live_def delete_conv split: State.splits if_splits)

lemma erase_evolves: "evolves env h (erase_subscription i h)" "unclosed h (erase_subscription i h)"
  by (simp_all add: evolves_def unclosed_def erase_subscription_def healthy_def)

lemma failed_mends: "hp_inv (insert i X) h \<Longrightarrow> \<not> healthy h \<Longrightarrow> hp_inv X h"
  by (simp add: hp_inv_def)

lemma end_stream_steps:
  assumes "hp_report_flow h = Some m"
  shows "steps env n X h (end_stream L sink i g e m h)"
proof -
  obtain ok1 h1 where w: "write_frame sink (error_event L (hp_session_generation h) i g e) h = (ok1, h1)" by fastforce
  have flow: "hp_report_flow h1 = Some m" using w assms by (auto simp: write_frame_def split: prod.splits)
  obtain ok2 h2 where r: "with_flow (Retire (WriteFrame sink) i g
      (retired_event L (hp_session_generation h1) i g (last_transmitted i g m))) m h1 = (ok2, h2)" by fastforce
  have "steps env n (insert i X) h (if ok2 then h2 else FailChannel_protocol h2)"
    using steps_trans [OF write_frame_steps [OF w] Retire_steps [OF r flow, of "insert i X"]]
    by (auto intro: steps_trans [OF _ FailChannel_steps])
  then have "steps env n X h (erase_subscription i (if ok2 then h2 else FailChannel_protocol h2))"
    by (rule steps_mended) (auto intro: erase_mends erase_evolves)
  then show ?thesis
    using w r write_frame_steps [OF w] by (auto simp: end_stream_def split: bool.splits)
qed

lemma with_flow_some: "with_flow f m h = (r, h') \<Longrightarrow> \<exists>m'. hp_report_flow h' = Some m'"
  by (auto simp: with_flow_def split: prod.splits)

lemma EmitReport_steps: "steps env n X h (snd (EmitReport L sink r h))"
proof (cases "hp_report_flow h")
  case None
  then show ?thesis by (simp add: EmitReport_def)
next
  case (Some m)
  obtain q h1 where s: "with_flow (Submit (WriteFrame sink) (rp_subscription_id r) (rp_generation r)
      (\<lambda>sequence. jl_dump L (SubscriptionFrame r (hp_session_generation h) sequence))) m h = (q, h1)" by fastforce
  have h1: "steps env n X h h1" by (rule Submit_steps [OF s Some])
  obtain m1 where "hp_report_flow h1 = Some m1" using with_flow_some [OF s] by blast
  then show ?thesis
    using Some s h1 steps_trans [OF h1 end_stream_steps] steps_trans [OF h1 FailChannel_steps]
    by (auto simp: EmitReport_def split: SubmitResult.splits)
qed

lemma EmitFailure_steps: "steps env n X h (EmitFailure L sink i g e h)"
  by (auto simp: EmitFailure_def intro: end_stream_steps split: option.splits)

lemma put_mends:
  assumes "hp_inv (insert i X) h" and "hp_state h = State_Open" and "flow_live i (as_generation a) h"
  shows "hp_inv X (put_subscription i a h)"
  using assms
  by (auto simp: hp_inv_def put_subscription_def flow_ok_def state_ok_def healthy_def registered_live_def
      flow_live_def)

lemma put_evolves: "evolves env h (put_subscription i a h)" "unclosed h (put_subscription i a h)"
  by (simp_all add: evolves_def unclosed_def put_subscription_def healthy_def)

lemma put_steps:
  assumes "hp_state h = State_Open" and "map_of (hp_subscriptions h) i = Some a" and "as_generation a' = as_generation a"
  shows "steps env n X h (put_subscription i a' h)"
  using assms
  by (auto simp: steps_def put_evolves, auto simp: hp_inv_def put_subscription_def flow_ok_def state_ok_def healthy_def
      registered_live_def flow_live_def)

lemma write_frame_fields:
  assumes "write_frame sink f h = (ok, h')"
  shows "hp_report_flow h' = hp_report_flow h" "hp_state h' = hp_state h" "hp_subscriptions h' = hp_subscriptions h"
    "hp_session_generation h' = hp_session_generation h"
  using assms by (auto simp: write_frame_def split: prod.splits)

lemma with_flow_fields:
  assumes "with_flow f m h = (r, h')"
  shows "hp_state h' = hp_state h" "hp_subscriptions h' = hp_subscriptions h"
  using assms by (auto simp: with_flow_def split: prod.splits)

lemma emit_resubscribing_steps:
  assumes "hp_report_flow h = Some m" "hp_state h = State_Open"
    and "map_of (hp_subscriptions h) (ss_subscription_id s) = Some a"
  shows "steps env n X h (snd (emit_resubscribing L sink s a m h))"
proof -
  let ?i = "ss_subscription_id s"
  obtain ok1 h1 where w: "write_frame sink (resubscribing_event L (hp_session_generation h) s) h = (ok1, h1)" by fastforce
  note w' = write_frame_steps [OF w] write_frame_fields [OF w]
  obtain ok2 h2 where r: "with_flow (BeginRecovery (WriteFrame sink) ?i (as_generation a) (ss_generation s)
      (as_queue_limit a) (retired_event L (hp_session_generation h1) ?i (as_generation a)
        (last_transmitted ?i (as_generation a) m))) m h1 = (ok2, h2)" by fastforce
  have h2: "steps env n (insert ?i X) h h2"
    using steps_trans [OF w'(1) BeginRecovery_steps [OF r, of "insert ?i X"]] w' assms by simp
  have live: "flow_live ?i (ss_generation s) h2" if ok2
    using r that by (auto simp: with_flow_def flow_live_def IsLive_iff dest: BeginRecovery_live split: prod.splits)
  have open_: "hp_state h2 = State_Open" using with_flow_fields(1) [OF r] w'(3) assms(2) by simp
  have ok: "steps env n X h (put_subscription ?i a' h2)" if "as_generation a' = ss_generation s" ok2 for a'
    using live that open_ by (intro steps_mended [OF h2] put_mends put_evolves) simp_all
  have "\<not> healthy (FailChannel_protocol h2)"
    by (simp add: FailChannel_protocol_def healthy_def FailChannel_def)
  then have "steps env n X h (FailChannel_protocol h2)"
    by (rule_tac steps_mended [OF steps_trans [OF h2 FailChannel_steps] failed_mends]) (simp_all add: unclosed_def)
  moreover have "steps env n X h (put_subscription ?i (a\<lparr>as_recovery_attempt := ss_attempt s\<rparr>) h1)"
    using w' assms by (intro steps_trans [OF w'(1) put_steps]) simp_all
  ultimately show ?thesis
    using w'(1) ok [of "a\<lparr>as_generation := ss_generation s, as_recovering := True, as_recovery_attempt := ss_attempt s\<rparr>"]
    unfolding emit_resubscribing_def Let_def w r prod.case by (auto split: bool.split)
qed

lemma emit_resubscribed_steps:
  assumes "hp_state h = State_Open" and "map_of (hp_subscriptions h) (ss_subscription_id s) = Some a"
  shows "steps env n X h (snd (emit_resubscribed L sink s a h))"
proof -
  obtain ok1 h1 where w: "write_frame sink (resubscribed_event L (hp_session_generation h) s) h = (ok1, h1)" by fastforce
  note w' = write_frame_steps [OF w] write_frame_fields [OF w]
  have "steps env n X h (put_subscription (ss_subscription_id s) (a\<lparr>as_recovering := False, as_recovery_attempt := 0\<rparr>) h1)"
    using w' assms by (intro steps_trans [OF w'(1) put_steps]) simp_all
  then show ?thesis using w w' by (auto simp: emit_resubscribed_def split: bool.splits)
qed

lemma EmitStatus_steps: "steps env n X h (snd (EmitStatus L sink s h))"
  by (auto simp: EmitStatus_def intro: emit_resubscribing_steps emit_resubscribed_steps split: option.splits)

section \<open>Calls and closing\<close>

lemma call_steps:
  assumes "\<not> ends_backend c" and "hp_state h \<noteq> State_Closed" and "hp_calls h = [] \<longrightarrow> starts_backend c"
  shows "steps env n X h (call c h)"
  using assms
  by (auto simp: steps_def hp_inv_def call_def evolves_def unclosed_def flow_ok_def state_ok_def healthy_def
      registered_live_def flow_live_def working_append split: State.splits)

lemma RequestClose_steps: "steps env n X h (RequestClose h)"
  by (cases "hp_state h")
    (auto simp: steps_def hp_inv_def RequestClose_def Let_def evolves_def unclosed_def flow_ok_def state_ok_def healthy_def)

lemma registered_calls: "state_ok h \<Longrightarrow> hp_subscriptions h \<noteq> [] \<Longrightarrow> hp_state h \<noteq> State_Closed \<and> hp_calls h \<noteq> []"
  by (cases "hp_state h") (auto simp: state_ok_def)

lemma shut_down_closed:
  "working cs \<Longrightarrow> shut_down (cs @ [BC_ClearSinks])" "working cs \<Longrightarrow> shut_down (cs @ [BC_Close, BC_ClearSinks])"
  by (auto simp: shut_down_def)

lemma state_ok_working: "state_ok h \<Longrightarrow> hp_state h \<noteq> State_Closed \<Longrightarrow> working (hp_calls h)"
  by (cases "hp_state h") (simp_all add: state_ok_def)

lemma Close_steps: "steps env 2 X h (Close a h)"
proof (cases "hp_processing_depth h > 1 \<or> hp_state h = State_Closed")
  case True
  then show ?thesis using RequestClose_steps by (auto simp: Close_def)
next
  case False
  have rank: "rank (hp_state h) \<le> 4" by (cases "hp_state h") simp_all
  show ?thesis
  proof (rule stepsI)
    assume inv: "hp_inv X h"
    then have "working (hp_calls h)" using False state_ok_working [of h] by (simp add: hp_inv_def)
    then have "shut_down (hp_calls (Close a h))" using False shut_down_closed by (simp add: Close_def call_def Let_def)
    then have "hp_inv X (Close a h)"
      using inv False by (cases "ba_is_open a") (simp_all add: hp_inv_def Close_def call_def Let_def flow_ok_def state_ok_def)
    moreover have "evolves env h (Close a h)"
      using False rank by (simp add: evolves_def Close_def call_def Let_def healthy_def)
    ultimately show "hp_inv X (Close a h) \<and> evolves env h (Close a h) \<and> (2 \<le> hp_processing_depth h \<longrightarrow> unclosed h (Close a h))"
      using False by simp
  qed
qed

lemma Close_state: "hp_state (Close a h) \<in> {State_Closing, State_Closed}"
  by (auto simp: Close_def RequestClose_def call_def Let_def)

lemma not_open_mends: "hp_inv Y h \<Longrightarrow> hp_state h \<noteq> State_Open \<Longrightarrow> hp_inv X h"
  by (simp add: hp_inv_def)

section \<open>Lines\<close>

lemma gap_steps: "gap_ok env gap \<Longrightarrow> steps env 1 X x (gap k x)"
  by (simp add: gap_ok_def)

lemma steps_bind:
  assumes "steps env n X h h1"
    and "hp_inv X h \<Longrightarrow> hp_inv X h1 \<Longrightarrow> evolves env h h1 \<Longrightarrow> (n \<le> hp_processing_depth h \<Longrightarrow> unclosed h h1) \<Longrightarrow> steps env n X h1 h2"
  shows "steps env n X h h2"
proof (rule stepsI)
  assume inv: "hp_inv X h"
  with assms(1) have "hp_inv X h1" "evolves env h h1" "n \<le> hp_processing_depth h \<Longrightarrow> unclosed h h1"
    by (simp_all add: steps_def)
  with inv assms(2) have "steps env n X h1 h2" by blast
  from steps_trans [OF assms(1) this] inv
  show "hp_inv X h2 \<and> evolves env h h2 \<and> (n \<le> hp_processing_depth h \<longrightarrow> unclosed h h2)" by (simp add: steps_def)
qed

lemma ActivateSubscription_steps:
  assumes "hp_subscriptions h \<noteq> [] \<or> (hp_state h \<noteq> State_Closed \<and> hp_calls h \<noteq> [])"
  shows "steps env n X h (snd (ActivateSubscription ok i g h))"
proof (rule steps_bind [OF steps_refl])
  assume "hp_inv X h"
  then have "hp_state h \<noteq> State_Closed \<and> hp_calls h \<noteq> []"
    using assms registered_calls by (auto simp: hp_inv_def)
  then show "steps env n X h (snd (ActivateSubscription ok i g h))"
    by (auto simp: ActivateSubscription_def intro: call_steps)
qed

lemma open_call_steps:
  assumes "hp_state h = State_Open" "\<not> ends_backend c"
  shows "steps env n X h (call c h)"
proof (rule steps_bind [OF steps_refl])
  assume "hp_inv X h"
  then show "steps env n X h (call c h)"
    using assms by (intro call_steps) (simp_all add: hp_inv_def state_ok_def)
qed

lemma gap_call_steps:
  assumes "gap_ok env gap" "hp_state h = State_Open" "\<not> ends_backend c"
  shows "steps env 1 X h (gap k (call c h))"
  using steps_trans [OF open_call_steps [OF assms(2,3)] gap_steps [OF assms(1)]] .

text \<open>An open session that was not interrupted is still open.\<close>

lemma still_open:
  assumes "hp_inv X h1" "evolves env h h1" "unclosed h h1" "hp_state h = State_Open" "\<not> interrupted h1"
  shows "hp_state h1 = State_Open"
  using assms by (cases "hp_state h1") (auto simp: evolves_def unclosed_def interrupted_def hp_inv_def state_ok_def)

lemma pending_steps: "steps env n X h (h\<lparr>hp_cancellation_pending := b\<rparr>)"
  by (auto simp: steps_def hp_inv_def evolves_def unclosed_def flow_ok_def state_ok_def healthy_def
      registered_live_def flow_live_def split: State.splits)

lemma commission_request_steps:
  assumes "gap_ok env gap" "hp_state h = State_Open"
  shows "steps env 1 X h (snd (commission_request L a gap request h))"
  using gap_call_steps [OF assms]
  by (auto simp: commission_request_def Let_def split: option.splits)

lemma window_request_steps:
  assumes "gap_ok env gap" "hp_state h = State_Open"
  shows "steps env 1 X h (snd (window_request L a gap request h))"
  using gap_call_steps [OF assms]
  by (auto simp: window_request_def Let_def split: option.splits)

lemma interaction_request_state:
  "snd (interaction_request L a gap request operation h) = h \<or>
   (\<exists>i. snd (interaction_request L a gap request operation h) = gap 0 (call (BC_Interact i) h))"
proof (cases "InteractionParameters operation (at_key request ''parameters'') (request_timeout request)")
  case None
  then show ?thesis
    unfolding interaction_request_def Let_def None option.case if_distrib [of snd] snd_conv if_cancel by simp
next
  case (Some i)
  show ?thesis
    unfolding interaction_request_def Let_def Some option.case if_distrib [of snd] snd_conv
      option.case_distrib [of snd] option.case_eq_if if_cancel
    by auto
qed

lemma interaction_request_steps:
  assumes "gap_ok env gap" "hp_state h = State_Open"
  shows "steps env 1 X h (snd (interaction_request L a gap request operation h))"
  using gap_call_steps [OF assms, of "BC_Interact _"] interaction_request_state [of L a gap request operation h] by fastforce

lemma AddStream_flow_steps:
  assumes "AddStream i g l m = (ok, m')" "hp_report_flow h = Some m"
  shows "steps env n X h (h\<lparr>hp_report_flow := Some m'\<rparr>)"
proof -
  have "credit_inv m \<Longrightarrow> credit_inv m'" using AddStream_inv [of m i g l] assms(1) by simp
  moreover have "IsLive j k m \<Longrightarrow> IsLive j k m'" for j k
    using AddStream_live [OF assms(1)] by (auto simp: IsLive_iff)
  ultimately show ?thesis using flow_steps [OF assms(2), of "hp_channel h" m'] by (simp add: channel_evolves_def)
qed

lemma admit_stream_steps:
  assumes "admit_stream r s h = (ok, h')" "hp_state h = State_Open"
  shows "steps env n X h h'"
proof (cases "hp_report_flow h")
  case None
  then show ?thesis using assms by (simp add: admit_stream_def)
next
  case (Some m)
  let ?i = "so_subscription_id r" and ?g = "so_generation r"
  obtain ok1 m' where add: "AddStream ?i ?g (ucast (sr_queue_limit s)) m = (ok1, m')" by fastforce
  let ?h = "h\<lparr>hp_report_flow := Some m'\<rparr>"
  have h1: "steps env n Y h ?h" for Y by (rule AddStream_flow_steps [OF add Some])
  have "flow_live ?i ?g ?h" if ok1
    using AddStream_live [OF add] that by (simp add: flow_live_def IsLive_iff)
  then have "steps env n X h (put_subscription ?i x ?h)" if "as_generation x = ?g" ok1 for x
    using that assms(2) by (intro steps_mended [OF h1] put_mends put_evolves) simp_all
  then show ?thesis
    using assms(1) Some add h1 by (auto simp: admit_stream_def emplace_subscription_def split: bool.splits if_splits)
qed

lemma subscribe_request_steps:
  assumes "gap_ok env gap" "hp_state h = State_Open" "1 \<le> hp_processing_depth h"
  shows "steps env 1 X h (snd (subscribe_request L a gap request h))"
proof (cases "SubscriptionParameters (at_key request ''parameters'') (request_timeout request)")
  case None
  then show ?thesis by (simp add: subscribe_request_def Let_def)
next
  case (Some q)
  let ?h1 = "gap 0 (call (BC_Subscribe q) h)" and ?r = "ba_subscribe a"
  have h1: "steps env 1 X h ?h1" using gap_call_steps [OF assms(1,2)] by simp
  obtain ok h2 where admit: "admit_stream ?r q ?h1 = (ok, h2)" by fastforce
  let ?h3 = "gap 1 (call (BC_CancelSubscription (so_subscription_id ?r) (so_generation ?r) (sr_timeout_ms q)) h2)"
  have state: "hp_state h2 = hp_state ?h1"
    using admit by (auto simp: admit_stream_def emplace_subscription_def put_subscription_def split: option.splits prod.splits bool.splits)
  have h2: "steps env 1 X h h2 \<and> steps env 1 X h ?h3" if "\<not> interrupted ?h1"
  proof
    show h2: "steps env 1 X h h2"
      using still_open [OF _ _ _ assms(2) that] assms(3) by (intro steps_bind [OF h1 admit_stream_steps [OF admit]]) auto
    show "steps env 1 X h ?h3"
      using still_open [OF _ _ _ assms(2) that] assms(3) state gap_call_steps [OF assms(1)]
      by (intro steps_bind [OF h1]) (metis admit admit_stream_steps ends_backend.simps steps_trans)
  qed
  then show ?thesis
    using h1 admit Some by (auto simp: subscribe_request_def Let_def split: bool.splits)
qed

lemma retire_stream_steps:
  assumes "retire_stream L sink i g h = (ok, h')" "i \<in> X"
  shows "steps env n X h h'"
  using assms by (auto simp: retire_stream_def intro: Retire_steps split: option.splits if_splits)

lemma Close_mends:
  assumes "steps env n (insert i X) h h1" "2 \<le> n"
  shows "steps env n X h (Close a h1)"
proof (rule stepsI)
  assume "hp_inv X h"
  moreover have "steps env n (insert i X) h (Close a h1)"
    using steps_trans [OF assms(1) steps_mono [OF Close_steps assms(2)]] .
  ultimately show "hp_inv X (Close a h1) \<and> evolves env h (Close a h1) \<and> (n \<le> hp_processing_depth h \<longrightarrow> unclosed h (Close a h1))"
    using hp_inv_insert [of X h i] Close_state [of a h1] not_open_mends [of "insert i X" "Close a h1" X]
    by (auto simp: steps_def)
qed

lemma unsubscribe_request_steps:
  assumes "gap_ok env gap" "hp_state h = State_Open"
  shows "steps env 2 X h (snd (unsubscribe_request L sink a gap request h))"
proof (cases "UnsubscribeParameters (at_key request ''parameters'')")
  case None
  then show ?thesis by (simp add: unsubscribe_request_def Let_def)
next
  case (Some p)
  obtain i g where p: "p = (i, g)" by fastforce
  let ?h1 = "gap 0 (call (BC_CancelSubscription i g (request_timeout request)) (h\<lparr>hp_cancellation_pending := True\<rparr>))"
  let ?h2 = "?h1\<lparr>hp_cancellation_pending := False\<rparr>"
  obtain ok h3 where r: "retire_stream L sink i g (gap 1 ?h2) = (ok, h3)" by fastforce
  have h2: "steps env 2 Y h ?h2" for Y
    by (rule steps_trans [OF pending_steps steps_trans [OF steps_mono [OF gap_call_steps [OF assms(1)]] pending_steps]])
      (simp_all add: assms)
  have h3: "steps env 2 (insert i X) h h3"
    using steps_trans [OF h2 steps_trans [OF steps_mono [OF gap_steps [OF assms(1)]] retire_stream_steps [OF r]]] by simp
  have "steps env 2 X h (erase_subscription i (gap 2 h3))"
    using steps_trans [OF h3 steps_mono [OF gap_steps [OF assms(1)]]]
    by (rule_tac steps_mended [OF _ erase_mends erase_evolves]) simp_all
  moreover have "steps env 2 X h (Close a h3)" using Close_mends [OF h3] by simp
  ultimately show ?thesis
    using h2 r p Some
    by (simp add: unsubscribe_request_def Let_def if_distrib [of snd] prod.case_eq_if split: bool.split)
qed

lemma open_steps:
  assumes "hp_inv X h" "hp_state h = State_AwaitOpen" "hp_inv X h1" "evolves env h h1" "unclosed h h1" "\<not> interrupted h1"
    and "hp_calls h1 \<noteq> []"
  shows "steps env n X h1 (h1\<lparr>hp_fabric_id := f, hp_state := State_Open\<rparr>)"
proof -
  have "hp_state h1 = State_AwaitOpen \<or> hp_state h1 = State_Open"
    using assms by (cases "hp_state h1") (auto simp: evolves_def unclosed_def interrupted_def hp_inv_def state_ok_def)
  then show ?thesis
    using assms(3,7)
    by (auto simp: steps_def hp_inv_def evolves_def unclosed_def flow_ok_def state_ok_def healthy_def registered_live_def flow_live_def)
qed

lemma open_request_steps:
  assumes "gap_ok env gap" "hp_state h = State_AwaitOpen" "1 \<le> hp_processing_depth h"
  shows "steps env 2 X h (snd (open_request L a gap request h))"
proof (cases "if at_key request ''operation'' \<noteq> JStr ''open'' then None else OpenOptions (at_key request ''parameters'')")
  case None
  then show ?thesis using Close_steps by (simp add: open_request_def Let_def)
next
  case (Some q)
  let ?h0 = "call (BC_Open (q\<lparr>no_timeout_ms := request_timeout request\<rparr>)) h"
  let ?h1 = "gap 0 ?h0"
  have h0: "steps env 1 X h ?h0" by (rule call_steps) (simp_all add: assms)
  have h1: "steps env 1 X ?h0 ?h1" by (rule gap_steps [OF assms(1)])
  have h01: "steps env 2 X h ?h1" by (rule steps_mono [OF steps_trans [OF h0 h1]]) simp
  have opened: "steps env 2 X h (?h1\<lparr>hp_fabric_id := f, hp_state := State_Open\<rparr>)" if "\<not> interrupted ?h1" for f
  proof (rule steps_bind [OF steps_mono [OF h0]])
    show "(1::nat) \<le> 2" by simp
    assume "hp_inv X ?h0" "evolves env h ?h0"
    moreover have "hp_state ?h0 = State_AwaitOpen" "hp_processing_depth ?h0 = hp_processing_depth h" "hp_calls ?h0 \<noteq> []"
      using assms by (simp_all add: call_def)
    moreover have "hp_calls ?h1 \<noteq> []" if "evolves env ?h0 ?h1" using that by (auto simp: evolves_def call_def)
    ultimately show "steps env 2 X ?h0 (?h1\<lparr>hp_fabric_id := f, hp_state := State_Open\<rparr>)"
      using that assms(3) h1 by (intro steps_trans [OF steps_mono [OF h1] open_steps]) (auto simp: steps_def)
  qed
  have "steps env 2 X h (Close a ?h1)" using steps_trans [OF h01 Close_steps] .
  then show ?thesis
    using h01 opened Some by (simp add: open_request_def Let_def prod.case_eq_if)
qed

lemma flow_open_steps:
  assumes "hp_state h = State_AwaitFlow"
  shows "steps env 2 X h (snd (flow_open a request h))"
proof -
  have "steps env 2 X h (h\<lparr>hp_session_generation := g, hp_report_flow := Some (mk_manager g), hp_state := State_AwaitOpen\<rparr>)" for g
    using assms
    by (simp add: steps_def hp_inv_def evolves_def unclosed_def flow_ok_def state_ok_def healthy_def mk_manager_inv)
  then show ?thesis using Close_steps [of X h a] by (simp add: flow_open_def split: option.split)
qed

lemma report_ack_steps: "steps env 2 X h (snd (report_ack sink a request h))"
proof -
  have refused: "steps env 2 X h (Close a (FailChannel_protocol x))" if "steps env 2 X h x" for x
    using steps_trans [OF that steps_trans [OF FailChannel_steps Close_steps]] .
  have "steps env 2 X h (snd (case with_flow (Acknowledge (WriteFrame sink) q b) m h of
      (True, h1) \<Rightarrow> (reply True None, h1) | (False, h1) \<Rightarrow> (no_result, Close a (FailChannel_protocol h1))))"
    if "hp_report_flow h = Some m" for q b m
    using Acknowledge_steps [OF _ that, of q b] refused by (auto split: prod.split bool.split)
  then show ?thesis using refused by (simp add: report_ack_def Let_def split: option.split)
qed

lemma open_dispatch_steps:
  assumes "gap_ok env gap" "hp_state h = State_Open" "1 \<le> hp_processing_depth h"
  shows "steps env 2 X h (snd (open_dispatch L sink a gap request h))"
  unfolding open_dispatch_def Let_def
  by (simp add: if_distrib [of snd] Close_steps unsubscribe_request_steps [OF assms(1,2)]
      steps_mono [OF commission_request_steps [OF assms(1,2)]] steps_mono [OF window_request_steps [OF assms(1,2)]]
      steps_mono [OF subscribe_request_steps [OF assms]] steps_mono [OF interaction_request_steps [OF assms(1,2)]])

lemma id_steps: "hp_greatest_request_id h \<le> q \<Longrightarrow> steps env n X h (h\<lparr>hp_greatest_request_id := q\<rparr>)"
  by (auto simp: steps_def hp_inv_def evolves_def unclosed_def flow_ok_def state_ok_def healthy_def
      registered_live_def flow_live_def split: State.splits)

lemma ProcessLineImpl_steps:
  assumes "gap_ok env gap" "1 \<le> hp_processing_depth h"
  shows "steps env 2 X h (snd (ProcessLineImpl L sink a gap l h))"
proof (cases "healthy h \<and> ParseBounded (jl_sax L) (jl_parse L) l \<noteq> None")
  case False
  then show ?thesis using Close_steps [of X h a] by (auto simp: ProcessLineImpl_def)
next
  case True
  then obtain request where request: "healthy h" "ParseBounded (jl_sax L) (jl_parse L) l = Some request" by blast
  have dispatch: "steps env 2 X h (snd (if hp_state h1 = State_AwaitOpen then open_request L a gap request h1
      else if hp_state h1 \<noteq> State_Open then (no_result, h1) else open_dispatch L sink a gap request h1))"
    if "steps env 2 X h h1" "hp_processing_depth h1 = hp_processing_depth h" for h1
    using steps_trans [OF that(1) open_request_steps [OF assms(1)]] steps_trans [OF that(1) open_dispatch_steps [OF assms(1)]]
      that assms(2) by simp
  consider "hp_state h = State_AwaitFlow" | "hp_state h = State_Open" "ExactKeys request ack_keys"
    | "hp_state h \<noteq> State_AwaitFlow" "\<not> (hp_state h = State_Open \<and> ExactKeys request ack_keys)" by blast
  then show ?thesis
  proof cases
    case 3
    show ?thesis
    proof (cases "ValidRequestEnvelope request")
      case None
      then show ?thesis using 3 request Close_steps [of X h a] by (auto simp: ProcessLineImpl_def)
    next
      case (Some q)
      have "steps env 2 X h (h\<lparr>hp_greatest_request_id := q\<rparr>)" if "hp_greatest_request_id h < q"
        using that by (intro id_steps) simp
      then show ?thesis
        using 3 request Some Close_steps [of X h a] dispatch [of h] dispatch [of "h\<lparr>hp_greatest_request_id := q\<rparr>"]
        by (cases "at_key request ''id'' = JStr ''close''"; cases "q \<le> hp_greatest_request_id h")
          (simp_all add: ProcessLineImpl_def Let_def not_le split del: if_split, simp_all split: if_splits)
    qed
  qed (use request flow_open_steps [of h X a request] report_ack_steps [of X h a request] in \<open>simp_all add: ProcessLineImpl_def\<close>)
qed

lemma depth_inv [simp]: "hp_inv X (h\<lparr>hp_processing_depth := d\<rparr>) \<longleftrightarrow> hp_inv X h"
  by (cases "hp_state h") (simp_all add: hp_inv_def flow_ok_def state_ok_def healthy_def registered_live_def flow_live_def)

lemma ProcessLine_steps:
  assumes "gap_ok env gap"
  shows "steps env 1 X h (snd (ProcessLine L sink a gap l h))"
proof -
  let ?h0 = "h\<lparr>hp_processing_depth := hp_processing_depth h + 1\<rparr>"
  obtain r h1 where impl: "ProcessLineImpl L sink a gap l ?h0 = (r, h1)" by fastforce
  let ?h2 = "h1\<lparr>hp_processing_depth := hp_processing_depth h1 - 1\<rparr>"
  have h1: "steps env 2 X ?h0 h1" using ProcessLineImpl_steps [OF assms, of ?h0 X L a l] impl by simp
  have h2: "steps env 1 X h ?h2"
    using h1 by (auto simp: steps_def evolves_def unclosed_def healthy_def)
  have "steps env 1 X h (Close a ?h2)" if "hp_processing_depth ?h2 = 0"
    using that by (intro steps_bind [OF h2]) (use Close_steps [of X ?h2 a] in \<open>auto simp: steps_def\<close>)
  then show ?thesis using impl h2 by (simp add: ProcessLine_def Let_def)
qed

section \<open>Runs\<close>

lemma session_steps: "session L sink env h h' \<Longrightarrow> steps env 1 X h h'"
proof (induction arbitrary: X rule: session.induct)
  case (line h0 h gap a l)
  then have "gap_ok env gap" by (simp add: gap_ok_def)
  with line.IH(1) show ?case using steps_trans ProcessLine_steps by blast
next
  case (activate h0 h q ok i g)
  then have "hp_subscriptions h \<noteq> [] \<or> (hp_state h \<noteq> State_Closed \<and> hp_calls h \<noteq> [])" by auto
  with activate.IH show ?case using steps_trans ActivateSubscription_steps by blast
next
  case (sink_changed h0 h out)
  have "steps env 1 X h (h\<lparr>hp_channel := (hp_channel h)\<lparr>ch_out := out\<rparr>\<rparr>)"
    using sink_changed.hyps by (intro channel_steps) (simp add: channel_evolves_def channel_ok_def)
  with sink_changed.IH show ?case using steps_trans by blast
next
  case (close h0 h a)
  have "steps env 1 X h (Close a h)" using Close_steps [of X h a] close.hyps by (simp add: steps_def)
  with close.IH show ?case using steps_trans by blast
qed (auto intro: steps_trans EmitReport_steps EmitStatus_steps EmitFailure_steps FailChannel_steps RequestClose_steps)

lemma mk_protocol_inv: "hp_inv {} (mk_protocol out)"
  by (simp add: hp_inv_def mk_protocol_def channel_ok_def flow_ok_def state_ok_def working_def)

lemma session_inv: "session L sink env (mk_protocol out) h \<Longrightarrow> hp_inv {} h"
  using session_steps [of L "mk_protocol out" h "{}"] mk_protocol_inv [of out] by (simp add: steps_def)

lemma session_trans:
  "session L sink env h1 h2 \<Longrightarrow> session L sink env h0 h1 \<Longrightarrow> session L sink env h0 h2"
  by (induction rule: session.induct) (auto intro: session.intros)

end

end
