(* ===== verification/HostContract.thy ===== *)
theory HostContract
  imports HostSession
begin

text \<open>
  The promises of the host's session: what holds on every run of the transition system of theory
  \<open>HostSession\<close>, and how a single line and a single status event behave.
\<close>

abbreviation any_change :: "'o \<Rightarrow> 'o \<Rightarrow> bool" where
  "any_change \<equiv> (\<lambda>_ _. True)"

section \<open>Shutting down\<close>

lemma working_no_end: "working cs \<Longrightarrow> c \<in> set cs \<Longrightarrow> \<not> ends_backend c"
  by (simp add: working_def list_all_iff)

lemma shut_down_count: "shut_down cs \<Longrightarrow> count_list cs BC_ClearSinks = 1 \<and> count_list cs BC_Close \<le> 1"
proof -
  assume "shut_down cs"
  then obtain pre where pre: "working pre" "cs = pre @ [BC_ClearSinks] \<or> cs = pre @ [BC_Close, BC_ClearSinks]"
    by (auto simp: shut_down_def)
  have "count_list pre BC_ClearSinks = 0" "count_list pre BC_Close = 0"
    using working_no_end [OF pre(1)] by (force simp: count_list_0_iff)+
  with pre(2) show ?thesis by auto
qed

lemma shut_down_final:
  assumes "shut_down cs" "shut_down (cs @ ds)"
  shows "ds = []"
proof (rule ccontr)
  assume "ds \<noteq> []"
  then have "last (cs @ ds) = last ds" by simp
  moreover have "last (cs @ ds) = BC_ClearSinks" using assms(2) by (auto simp: shut_down_def)
  ultimately have "BC_ClearSinks \<in> set ds" using \<open>ds \<noteq> []\<close> last_in_set by metis
  then have "count_list ds BC_ClearSinks \<noteq> 0" by (simp add: count_list_0_iff)
  then show False using shut_down_count [OF assms(1)] shut_down_count [OF assms(2)] by simp
qed

lemma closed_ok: "hp_inv X h \<Longrightarrow> hp_state h = State_Closed \<Longrightarrow>
    hp_report_flow h = None \<and> hp_subscriptions h = [] \<and> shut_down (hp_calls h)"
  by (simp add: hp_inv_def state_ok_def)

lemma rank_closed: "4 \<le> rank s \<longleftrightarrow> s = State_Closed"
  by (cases s) simp_all

section \<open>One line\<close>

lemma evolves_id: "evolves any_change h h' \<Longrightarrow> hp_greatest_request_id h \<le> hp_greatest_request_id h'"
  by (simp add: evolves_def)

lemma ProcessLine_result:
  assumes "ProcessLine L sink a gap l h = (r, h')" "gap_ok any_change gap" "hp_inv X h"
  shows "hp_inv X h' \<and> evolves any_change h h'"
  using free.ProcessLine_steps [OF assms(2), of X h L sink a l] assms(1,3) by (simp add: steps_def)

text \<open>Two gaps that do nothing.\<close>

abbreviation no_gap :: "nat \<Rightarrow> 'o HostProtocol \<Rightarrow> 'o HostProtocol" where
  "no_gap \<equiv> (\<lambda>k x. x)"

lemma no_gap_ok [simp]: "gap_ok any_change no_gap"
  by (simp add: gap_ok_def)

lemma session_no_gap: "session L sink any_change h (snd (ProcessLine L sink a no_gap l h))"
  by (rule session.line) (auto intro: session.done_)

text \<open>A line that carries the request number \<open>q\<close>.\<close>

definition numbered_line :: "json_library \<Rightarrow> string \<Rightarrow> u64 \<Rightarrow> bool" where
  "numbered_line L l q \<longleftrightarrow>
     (case ParseBounded (jl_sax L) (jl_parse L) l of
        None \<Rightarrow> False
      | Some request \<Rightarrow>
          \<not> ExactKeys request ack_keys \<and> at_key request ''id'' \<noteq> JStr ''close'' \<and>
          ValidRequestEnvelope request = Some q)"

lemma stale_line:
  assumes "numbered_line L l q" "q \<le> hp_greatest_request_id h" "hp_state h \<in> {State_AwaitOpen, State_Open}"
  shows "ProcessLineImpl L sink a gap l h = (no_result, Close a h)"
  using assms by (auto simp: numbered_line_def ProcessLineImpl_def Let_def split: option.splits)

lemma fresh_line:
  assumes "numbered_line L l q" "hp_state h \<in> {State_AwaitOpen, State_Open}" "healthy h"
    and "gap_ok any_change gap" "1 \<le> hp_processing_depth h" "hp_inv X h"
  shows "q \<le> hp_greatest_request_id (snd (ProcessLineImpl L sink a gap l h))"
proof (cases "q \<le> hp_greatest_request_id h")
  case True
  have "evolves any_change h (snd (ProcessLineImpl L sink a gap l h))"
    using free.ProcessLineImpl_steps [OF assms(4,5)] assms(6) by (simp add: steps_def)
  with True show ?thesis using evolves_id order_trans by blast
next
  case False
  let ?h = "h\<lparr>hp_greatest_request_id := q\<rparr>"
  obtain request where request: "ParseBounded (jl_sax L) (jl_parse L) l = Some request"
      "\<not> ExactKeys request ack_keys" "at_key request ''id'' \<noteq> JStr ''close''" "ValidRequestEnvelope request = Some q"
    using assms(1) by (auto simp: numbered_line_def split: option.splits)
  have inv: "hp_inv X ?h" using free.id_steps [of h q 2 X] False assms(6) by (simp add: steps_def)
  have "evolves any_change ?h (snd (open_request L a gap request ?h))" if "hp_state h = State_AwaitOpen"
    using free.open_request_steps [OF assms(4), of ?h X L a request] inv assms(5) that by (simp add: steps_def)
  moreover have "evolves any_change ?h (snd (open_dispatch L sink a gap request ?h))" if "hp_state h = State_Open"
    using free.open_dispatch_steps [OF assms(4), of ?h X L sink a request] inv assms(5) that by (simp add: steps_def)
  ultimately show ?thesis
    using assms(2,3) False request by (auto simp: ProcessLineImpl_def Let_def evolves_def)
qed

section \<open>Recovery of a subscription\<close>

text \<open>The registration of a subscription mirrors the recovery policy of the backend.\<close>

definition mirrors :: "ActiveSubscription \<Rightarrow> SubscriptionRecovery \<Rightarrow> bool" where
  "mirrors a r \<longleftrightarrow> as_resubscribe a = rc_enabled r \<and> as_generation a = rc_generation r \<and>
     as_recovering a = rc_recovering r \<and> as_recovery_attempt a = rc_attempts r"

definition retry_status :: "string \<Rightarrow> Decision \<Rightarrow> SubscriptionStatus" where
  "retry_status i d = \<lparr>ss_subscription_id = i, ss_generation = dc_generation d, ss_status = ST_Resubscribing,
     ss_continuity = SC_Lost, ss_attempt = dc_attempt d, ss_min_interval_s = 0, ss_max_interval_s = 0,
     ss_sdk_subscription_id = 0\<rparr>"

definition resubscribed_status :: "string \<Rightarrow> SubscriptionRecovery \<Rightarrow> u16 \<Rightarrow> u16 \<Rightarrow> u32 \<Rightarrow> SubscriptionStatus" where
  "resubscribed_status i r minimum maximum sdk = \<lparr>ss_subscription_id = i, ss_generation = rc_generation r,
     ss_status = ST_Resubscribed, ss_continuity = SC_Unknown, ss_attempt = rc_attempts r,
     ss_min_interval_s = minimum, ss_max_interval_s = maximum, ss_sdk_subscription_id = sdk\<rparr>"

lemma Next_recovery_retry:
  assumes "Next_recovery now r = (d, r')" "dc_action d = RA_Retry"
  shows "rc_enabled r' \<and> rc_enabled r \<and> rc_recovering r' \<and> rc_generation r' = dc_generation d \<and> rc_attempts r' = dc_attempt d \<and>
    1 \<le> dc_attempt d \<and> dc_attempt d \<le> 5 \<and>
    (if rc_recovering r then dc_generation d = rc_generation r \<and> unat (dc_attempt d) = unat (rc_attempts r) + 1
     else rc_generation r \<noteq> max_u64 \<and> dc_generation d = rc_generation r + 1 \<and> dc_attempt d = 1)"
proof (cases "rc_recovering r")
  case True
  then have r: "rc_attempts r < 5" "dc_attempt d = rc_attempts r + 1" "dc_generation d = rc_generation r"
      "r' = r\<lparr>rc_attempts := rc_attempts r + 1\<rparr>" "rc_enabled r"
    using assms by (simp_all add: Next_recovery_def Let_def Decision.make_def kMaximumAttempts_def not_le split: if_split_asm)
      (auto simp: not_le)
  have "unat (rc_attempts r + 1) = unat (rc_attempts r) + 1" by (rule attempts_plus_one [OF r(1)])
  with True r show ?thesis by (simp add: word_le_nat_alt word_less_nat_alt)
next
  case False
  then show ?thesis
    using assms by (simp add: Next_recovery_def Let_def Decision.make_def kMaximumAttempts_def split: if_split_asm) auto
qed

lemma retry_written:
  assumes "hp_report_flow h = Some m" "mirrors a r" "Next_recovery now r = (d, r')" "dc_action d = RA_Retry"
    and "emit_resubscribing L sink (retry_status i d) a m h = (ok, h')" "map_of (hp_subscriptions h) i = Some a"
  shows "(ok \<and> (\<exists>a'. map_of (hp_subscriptions h') i = Some a' \<and> mirrors a' r')) \<or> (\<not> ok \<and> \<not> healthy h')"
proof -
  note next_ = Next_recovery_retry [OF assms(3,4)]
  let ?s = "retry_status i d"
  have guard: "\<not> ((\<not> as_recovering a \<and> (as_generation a = max_u64 \<or> ss_generation ?s \<noteq> as_generation a + 1 \<or> ss_attempt ?s \<noteq> 1)) \<or>
      (as_recovering a \<and> (ss_generation ?s \<noteq> as_generation a \<or> unat (ss_attempt ?s) \<noteq> unat (as_recovery_attempt a) + 1)) \<or>
      ss_continuity ?s \<noteq> SC_Lost)"
    using next_ assms(2) by (auto simp: mirrors_def retry_status_def split: if_splits)
  obtain ok1 h1 where w: "write_frame sink (resubscribing_event L (hp_session_generation h) ?s) h = (ok1, h1)" by fastforce
  note sub = free.write_frame_fields(3) [OF w]
  have failed: "\<not> healthy h1" if "\<not> ok1" using free.write_frame_refused w that by fastforce
  obtain ok2 h2 where b: "with_flow (BeginRecovery (WriteFrame sink) i (as_generation a) (ss_generation ?s) (as_queue_limit a)
      (retired_event L (hp_session_generation h1) i (as_generation a) (last_transmitted i (as_generation a) m))) m h1 = (ok2, h2)"
    by fastforce
  have i: "ss_subscription_id ?s = i" by (simp add: retry_status_def)
  have "\<not> healthy (FailChannel_protocol h2)" by (simp add: healthy_def FailChannel_protocol_def FailChannel_def)
  then show ?thesis
    using assms(2,5,6) next_ failed unfolding emit_resubscribing_def Let_def i simp_thms if_not_P [OF guard] w b prod.case
    by (auto simp: mirrors_def retry_status_def put_subscription_def sub split: bool.splits if_splits)
qed

text \<open>When the policy is told that the subscription is established again, so is the session.\<close>

lemma established_written:
  assumes "hp_report_flow h = Some m" "healthy h" "hp_state h = State_Open" "map_of (hp_subscriptions h) i = Some a" "i \<noteq> []"
    and "mirrors a r" "rc_enabled r" "rc_recovering r" "rc_generation r \<noteq> 0" "rc_attempts r \<noteq> 0" "rc_attempts r \<le> 5"
    and "maximum \<noteq> 0" "minimum \<le> maximum"
    and "EmitStatus L sink (resubscribed_status i r minimum maximum sdk) h = (ok, h')"
  shows "(ok \<and> (\<exists>a'. map_of (hp_subscriptions h') i = Some a' \<and> mirrors a' (Established_recovery r))) \<or> (\<not> ok \<and> \<not> healthy h')"
proof -
  let ?s = "resubscribed_status i r minimum maximum sdk"
  obtain ok1 h1 where w: "write_frame sink (resubscribed_event L (hp_session_generation h) ?s) h = (ok1, h1)" by fastforce
  have "EmitStatus L sink ?s h = emit_resubscribed L sink ?s a h"
    using assms(1-11) by (auto simp: EmitStatus_def resubscribed_status_def mirrors_def)
  moreover have "emit_resubscribed L sink ?s a h =
      (if ok1 then (True, put_subscription i (a\<lparr>as_recovering := False, as_recovery_attempt := 0\<rparr>) h1) else (False, h1))"
    using assms(6,8,12,13) w by (auto simp: emit_resubscribed_def resubscribed_status_def mirrors_def not_less)
  ultimately show ?thesis
    using assms(6,14) free.write_frame_refused w
    by (cases ok1) (auto simp: put_subscription_def mirrors_def Established_recovery_def)
qed

section \<open>Nested lines\<close>

fun is_cancel :: "backend_call \<Rightarrow> bool" where
  "is_cancel (BC_CancelSubscription _ _ _) = True"
| "is_cancel _ = False"

text \<open>The only calls from \<open>h\<close> to \<open>h'\<close> are cancellations.\<close>

definition only_cancels :: "'o HostProtocol \<Rightarrow> 'o HostProtocol \<Rightarrow> bool" where
  "only_cancels h h' \<longleftrightarrow> hp_state h' \<noteq> State_Closed \<and>
     hp_processing_depth h' = hp_processing_depth h \<and> (\<exists>cs. hp_calls h' = hp_calls h @ cs \<and> list_all is_cancel cs)"

lemma Close_nested:
  assumes "1 < hp_processing_depth h"
  shows "hp_calls (Close a h) = hp_calls h" "hp_state h \<noteq> State_Closed \<Longrightarrow> hp_state (Close a h) \<noteq> State_Closed"
    "hp_processing_depth (Close a h) = hp_processing_depth h"
  using assms by (simp_all add: Close_def RequestClose_def Let_def)

lemma with_flow_kept:
  assumes "with_flow f m h = (r, h')"
  shows "hp_calls h' = hp_calls h" "hp_state h' = hp_state h" "hp_processing_depth h' = hp_processing_depth h"
  using assms by (auto simp: with_flow_def split: prod.splits)

lemma FailChannel_kept [simp]:
  "hp_calls (FailChannel_protocol h) = hp_calls h" "hp_state (FailChannel_protocol h) = hp_state h"
  "hp_processing_depth (FailChannel_protocol h) = hp_processing_depth h"
  by (simp_all add: FailChannel_protocol_def)

lemma report_ack_nested:
  assumes "1 < hp_processing_depth h" "hp_state h = State_Open"
  shows "only_cancels h (snd (report_ack sink a request h))"
  using assms
  by (auto simp: report_ack_def only_cancels_def Let_def Close_nested with_flow_kept
      split: option.splits prod.splits bool.splits)

lemma unsubscribe_nested:
  assumes "1 < hp_processing_depth h" "hp_state h = State_Open"
  shows "only_cancels h (snd (unsubscribe_request L sink a no_gap request h))"
proof (cases "UnsubscribeParameters (at_key request ''parameters'')")
  case None
  then show ?thesis using assms by (simp add: unsubscribe_request_def only_cancels_def Let_def)
next
  case (Some p)
  obtain i g where p: "p = (i, g)" by fastforce
  let ?h = "(call (BC_CancelSubscription i g (request_timeout request)) (h\<lparr>hp_cancellation_pending := True\<rparr>))
      \<lparr>hp_cancellation_pending := False\<rparr>"
  obtain ok h3 where r: "retire_stream L sink i g ?h = (ok, h3)" by fastforce
  have h3: "hp_calls h3 = hp_calls ?h" "hp_state h3 = hp_state ?h" "hp_processing_depth h3 = hp_processing_depth ?h"
    using r by (auto simp: retire_stream_def dest: with_flow_kept split: option.splits if_splits)
  have "only_cancels h x" if "hp_calls x = hp_calls ?h" "hp_state x \<noteq> State_Closed" "hp_processing_depth x = hp_processing_depth h" for x :: "'a HostProtocol"
    using that by (simp add: only_cancels_def call_def)
  moreover have "only_cancels h h" using assms by (simp add: only_cancels_def)
  ultimately show ?thesis
    using assms h3 r p Some Close_nested [of h3 a]
    by (simp add: unsubscribe_request_def Let_def if_distrib [of snd] prod.case_eq_if call_def erase_subscription_def split: bool.split)
qed

lemma open_dispatch_nested:
  assumes "1 < hp_processing_depth h" "hp_state h = State_Open"
  shows "only_cancels h (snd (open_dispatch L sink a no_gap request h))"
proof -
  have "only_cancels h (Close a h)" "only_cancels h h"
    using assms Close_nested [OF assms(1), of a] by (simp_all add: only_cancels_def)
  then show ?thesis
    using assms unsubscribe_nested [OF assms] by (simp add: open_dispatch_def Let_def)
qed

section \<open>Properties\<close>

text \<open>
  Property C8. The recovery policy of the backend and the session agree on a lost subscription: as long as the
  registration mirrors the policy, the status of every retry the policy decides on is accepted and
  the registration mirrors the policy's new state, unless the channel fails; a status that announces
  any other generation or attempt is refused and changes nothing.
\<close>

theorem status_follows_recovery:
  assumes "hp_report_flow h = Some m" "healthy h" "hp_state h = State_Open"
    and "map_of (hp_subscriptions h) i = Some a" "i \<noteq> []"
    and "mirrors a r" "rc_generation r \<noteq> 0" "Next_recovery now r = (d, r')" "dc_action d = RA_Retry"
  shows "(case EmitStatus L sink (retry_status i d) h of (ok, h') \<Rightarrow>
       (ok \<and> (\<exists>a'. map_of (hp_subscriptions h') i = Some a' \<and> mirrors a' r')) \<or> (\<not> ok \<and> \<not> healthy h')) \<and>
    (\<forall>s. ss_subscription_id s = i \<and> ss_status s = ST_Resubscribing \<and>
         (ss_generation s \<noteq> dc_generation d \<or> ss_attempt s \<noteq> dc_attempt d) \<longrightarrow> EmitStatus L sink s h = (False, h))"
proof -
  note next_ = Next_recovery_retry [OF assms(8,9)]
  have "dc_generation d \<noteq> 0"
    using next_ assms(7) by (auto simp: eq_neg_iff_add_eq_0 split: if_splits)
  then have "EmitStatus L sink (retry_status i d) h = emit_resubscribing L sink (retry_status i d) a m h"
    using assms next_ by (auto simp: EmitStatus_def retry_status_def mirrors_def)
  moreover have "EmitStatus L sink s h = (False, h)"
    if "ss_subscription_id s = i" "ss_status s = ST_Resubscribing" "ss_generation s \<noteq> dc_generation d \<or> ss_attempt s \<noteq> dc_attempt d" for s
  proof -
    have "unat (ss_attempt s) \<noteq> unat (dc_attempt d)" if "ss_attempt s \<noteq> dc_attempt d" using that by (simp add: word_unat_eq_iff)
    then show ?thesis
      using assms(1-4,6) that next_ by (auto simp: EmitStatus_def emit_resubscribing_def Let_def mirrors_def split: if_splits)
  qed
  ultimately show ?thesis
    using retry_written [OF assms(1,6,8,9) _ assms(4), of L sink] by (auto split: prod.split)
qed

text \<open>
  Property C4. On every run, while the channel is healthy and the session open, each registered subscription has
  a live stream in the credit manager under its current generation, and the manager keeps its credit:
  at most 64 reports and 1 MiB outstanding.
\<close>

theorem session_streams:
  assumes "session L sink any_change (mk_protocol out) h" "healthy h" "hp_state h = State_Open"
  shows "\<exists>m. hp_report_flow h = Some m \<and> length (cm_outstanding m) \<le> 64 \<and> total_bytes (cm_outstanding m) \<le> 1048576 \<and>
    (\<forall>i a. map_of (hp_subscriptions h) i = Some a \<longrightarrow> IsLive i (as_generation a) m)"
proof -
  have inv: "hp_inv {} h" by (rule free.session_inv [OF assms(1)])
  then obtain m where m: "hp_report_flow h = Some m" "credit_inv m"
    using assms(3) by (auto simp: hp_inv_def state_ok_def flow_ok_def)
  then have "volume_inv m" by (simp add: credit_inv_def)
  then show ?thesis
    using m inv assms by (auto simp: hp_inv_def registered_live_def flow_live_def volume_inv_def)
qed

text \<open>
  Property C5. On every run the backend is used in order: \<open>Open\<close> is its first call unless the session closes before
  it, it is closed at most once and only as the session closes, and once the session is closed it stays closed: no line, event
  or request changes its state again or calls the backend, and no stream or subscription is left.
\<close>

theorem session_lifecycle:
  assumes "session L sink any_change (mk_protocol out) h"
  shows "(hp_state h \<noteq> State_Closed \<longrightarrow> working (hp_calls h)) \<and>
    (hp_state h = State_Closed \<longrightarrow> shut_down (hp_calls h) \<and> hp_report_flow h = None \<and> hp_subscriptions h = [] \<and>
      (\<forall>h'. session L sink any_change h h' \<longrightarrow> hp_state h' = State_Closed \<and> hp_calls h' = hp_calls h))"
proof -
  have inv: "hp_inv {} h" by (rule free.session_inv [OF assms])
  have "hp_state h' = State_Closed \<and> hp_calls h' = hp_calls h" if "session L sink any_change h h'" "hp_state h = State_Closed" for h'
  proof -
    have h': "hp_inv {} h'" "evolves any_change h h'" using free.session_steps [OF that(1), of "{}"] inv by (simp_all add: steps_def)
    then have "hp_state h' = State_Closed" using that(2) rank_closed by (simp add: evolves_def)
    moreover obtain cs where cs: "hp_calls h' = hp_calls h @ cs" using h'(2) by (auto simp: evolves_def)
    ultimately have "shut_down (hp_calls h @ cs)" using closed_ok [OF h'(1)] by simp
    moreover have "shut_down (hp_calls h)" using closed_ok [OF inv that(2)] by simp
    ultimately have "cs = []" using shut_down_final by blast
    with cs \<open>hp_state h' = State_Closed\<close> show ?thesis by simp
  qed
  then show ?thesis using inv closed_ok free.state_ok_working by (auto simp: hp_inv_def)
qed

text \<open>
  Property C6. A request number is used at most once: after a line with number \<open>q\<close> has been handled, and whatever has
  happened since, a line with the same number is never handled again.  It gets no answer, closes the session, and
  reaches the backend at most to close it.
\<close>

theorem request_number_once:
  assumes "session L sink any_change (mk_protocol out) h" "healthy h" "hp_state h \<in> {State_AwaitOpen, State_Open}"
    and "numbered_line L l q" "\<And>k x. session L sink any_change x (gap k x)"
    and "session L sink any_change (snd (ProcessLine L sink a gap l h)) h'" "hp_processing_depth h' = 0"
    and "hp_state h' \<in> {State_AwaitOpen, State_Open}" "numbered_line L l' q"
  shows "case ProcessLine L sink a' gap' l' h' of (r, h'') \<Rightarrow>
    r = no_result \<and> hp_state h'' = State_Closed \<and>
    hp_calls h'' = hp_calls h' @ (if ba_is_open a' then [BC_Close, BC_ClearSinks] else [BC_ClearSinks])"
proof -
  let ?h0 = "h\<lparr>hp_processing_depth := hp_processing_depth h + 1\<rparr>"
  have inv: "hp_inv {} h" by (rule free.session_inv [OF assms(1)])
  have gap: "gap_ok any_change gap" using free.session_steps [OF assms(5)] by (simp add: gap_ok_def)
  obtain r1 h1 where impl: "ProcessLineImpl L sink a gap l ?h0 = (r1, h1)" by fastforce
  have "q \<le> hp_greatest_request_id h1"
    using fresh_line [OF assms(4) _ _ gap, of ?h0 "{}" sink a] assms(2,3) inv impl by (simp add: healthy_def)
  moreover have "hp_greatest_request_id (Close a x) = hp_greatest_request_id x" for x :: "'a HostProtocol"
    by (simp add: Close_def RequestClose_def call_def Let_def)
  ultimately have "q \<le> hp_greatest_request_id (snd (ProcessLine L sink a gap l h))"
    using impl by (simp add: ProcessLine_def Let_def)
  moreover have "evolves any_change (snd (ProcessLine L sink a gap l h)) h'"
    using free.session_steps [OF assms(6), of "{}"] free.ProcessLine_steps [OF gap, of "{}" h L sink a l] inv by (simp add: steps_def)
  ultimately have "q \<le> hp_greatest_request_id h'" using evolves_id order_trans by blast
  then show ?thesis
    using stale_line [OF assms(9), of "h'\<lparr>hp_processing_depth := 1\<rparr>" sink a' gap'] assms(7,8)
    by (auto simp: ProcessLine_def Close_def call_def Let_def)
qed

text \<open>
  Property C7. The session fails closed: when the channel has failed or a close was requested by the time the handling of a line
  ends at the top level, the line gets no answer and the session is closed with no stream and no subscription left.
\<close>

theorem session_fails_closed:
  assumes "session L sink any_change (mk_protocol out) h" "hp_processing_depth h = 0" "\<And>k x. session L sink any_change x (gap k x)"
    and "ProcessLine L sink a gap l h = (r, h')" "hp_close_requested h' \<or> \<not> healthy h'"
  shows "r = no_result \<and> hp_state h' = State_Closed \<and> hp_report_flow h' = None \<and> hp_subscriptions h' = []"
proof -
  let ?h0 = "h\<lparr>hp_processing_depth := hp_processing_depth h + 1\<rparr>"
  have inv: "hp_inv {} h" by (rule free.session_inv [OF assms(1)])
  have gap: "gap_ok any_change gap" using free.session_steps [OF assms(3)] by (simp add: gap_ok_def)
  have h': "hp_inv {} h'" by (rule ProcessLine_result [OF assms(4) gap inv, THEN conjunct1])
  obtain r1 h1 where impl: "ProcessLineImpl L sink a gap l ?h0 = (r1, h1)" by fastforce
  have "hp_processing_depth h1 = 1"
    using free.ProcessLineImpl_steps [OF gap, of ?h0 "{}" L sink a l] inv assms(2) impl by (simp add: steps_def evolves_def)
  then have "r = no_result \<and> hp_state h' = State_Closed"
    using assms(4,5) impl by (auto simp: ProcessLine_def Let_def Close_def call_def healthy_def split: if_splits)
  then show ?thesis using closed_ok [OF h'] by simp
qed

text \<open>
  While the backend works on a request of an open session, a line handled meanwhile starts no second operation: of
  itself it makes no call but a cancellation, and it does not close the session under the operation.
\<close>

theorem nested_line_calls:
  assumes "1 \<le> hp_processing_depth h" "hp_state h = State_Open"
  shows "only_cancels h (snd (ProcessLine L sink a no_gap l h))"
proof -
  let ?h0 = "h\<lparr>hp_processing_depth := hp_processing_depth h + 1\<rparr>"
  obtain r h1 where impl: "ProcessLineImpl L sink a no_gap l ?h0 = (r, h1)" by fastforce
  have d: "1 < hp_processing_depth ?h0" "hp_state ?h0 = State_Open" using assms by simp_all
  have closed: "only_cancels ?h0 (Close a ?h0)"
    using Close_nested [OF d(1), of a] d(2) by (simp add: only_cancels_def)
  have "only_cancels ?h0 (snd (open_dispatch L sink a no_gap request (?h0\<lparr>hp_greatest_request_id := q\<rparr>)))" for q request
    using open_dispatch_nested [of "?h0\<lparr>hp_greatest_request_id := q\<rparr>" L sink a request] d by (simp add: only_cancels_def)
  then have h1: "only_cancels ?h0 h1"
    using impl closed report_ack_nested [OF d] open_dispatch_nested [OF d] d(2)
    by (auto simp: ProcessLineImpl_def Let_def split: option.splits if_splits) (metis snd_conv)+
  then show ?thesis
    using impl assms(1) by (auto simp: ProcessLine_def Let_def only_cancels_def)
qed

section \<open>Witnesses\<close>

text \<open>A library that reads four lines, a sink that keeps what it gets, and a backend that answers well.\<close>

definition example_generation :: string where
  "example_generation = replicate 32 (CHR ''a'')"

definition example_request :: "string \<Rightarrow> string \<Rightarrow> json \<Rightarrow> json" where
  "example_request q operation parameters = JObj
     [(''version'', JUint 1), (''id'', JStr q), (''operation'', JStr operation), (''parameters'', parameters),
      (''timeout_ms'', JUint 1000)]"

definition example_parse :: "string \<Rightarrow> json option" where
  "example_parse = map_of
     [(''flow'', JObj [(''version'', JUint 1), (''event'', JStr ''flow_open''),
         (''session_generation'', JStr example_generation)]),
      (''open'', example_request ''1'' ''open'' (JObj
        [(''lifecycle'', JStr ''persistent''), (''storage_path'', JStr ''/store''), (''storage_mode'', JStr ''create_new''),
         (''authority'', JStr ''generate_root''), (''vendor_id'', JUint 65521), (''fabric_id'', JUint 1),
         (''controller_node_id'', JUint 5), (''paa_trust_store'', JStr ''/paa'')])),
      (''subscribe'', example_request ''2'' ''subscribe'' (JObj
        [(''subscription_id'', JStr example_generation), (''kind'', JStr ''event''),
         (''paths'', JArr [JObj [(''fabric_id'', JUint 1), (''node_id'', JUint 2), (''endpoint'', JUint 1),
            (''cluster'', JUint 0x39), (''member'', JUint 3)]]),
         (''min_interval_s'', JUint 1), (''max_interval_s'', JUint 60), (''resubscribe'', JBool True),
         (''queue_limit'', JUint 10)])),
      (''health'', example_request ''2'' ''health'' (JObj []))]"

definition example_library :: json_library where
  "example_library = \<lparr>jl_sax = (\<lambda>l. []), jl_parse = example_parse, jl_dump = (\<lambda>j. ''frame'')\<rparr>"

definition example_sink :: "string list transmit" where
  "example_sink frame out = (True, out @ [frame])"

definition example_answers :: backend_answers where
  "example_answers =
     \<lparr>ba_open = (True, []),
      ba_interact = \<lparr>rs_ok = True, rs_error = None, rs_results = [], rs_response_path = None, rs_response_value = None,
        rs_status = 0, rs_cluster_status = None\<rparr>,
      ba_commission = \<lparr>cr_ok = True, cr_error = None, cr_node_id = 2, cr_fabric_id = 1, cr_case_established = True\<rparr>,
      ba_open_window = \<lparr>wr_ok = True, wr_error = None, wr_node_id = 2, wr_setup_pin = 1, wr_discriminator = 1,
        wr_expires_in_s = 180, wr_manual_code = [], wr_qr_code = []\<rparr>,
      ba_subscribe = \<lparr>so_ok = True, so_error_code = [], so_subscription_id = example_generation, so_generation = 1,
        so_min_interval_s = 1, so_max_interval_s = 60, so_sdk_subscription_id = 9\<rparr>,
      ba_cancel = (True, []), ba_is_open = True\<rparr>"

definition example_line :: "string \<Rightarrow> string list HostProtocol \<Rightarrow> string list HostProtocol" where
  "example_line l h = snd (ProcessLine example_library example_sink example_answers no_gap l h)"

definition example_host :: "string list HostProtocol" where
  "example_host = example_line ''subscribe'' (example_line ''open'' (example_line ''flow'' (mk_protocol [])))"

lemma example_session: "session example_library example_sink any_change h (example_line l h)"
  unfolding example_line_def by (rule session_no_gap)

lemma example_flow:
  "example_line ''flow'' (mk_protocol []) = (mk_protocol [])\<lparr>hp_session_generation := example_generation,
     hp_report_flow := Some (mk_manager example_generation), hp_state := State_AwaitOpen\<rparr>"
proof -
  have p: "ParseBounded (jl_sax example_library) (jl_parse example_library) ''flow'' = Some (JObj [(''version'', JUint 1), (''event'', JStr ''flow_open''),
         (''session_generation'', JStr example_generation)])"
    by (simp add: example_library_def ParseBounded_def example_parse_def kMaximumFrameBytes_def)
  have g: "CanonicalGeneration (JStr example_generation) = Some example_generation"
    by (simp add: CanonicalGeneration_def example_generation_def list_all_iff hex_digit_def)
  show ?thesis
    by (simp add: example_line_def ProcessLine_def ProcessLineImpl_def p g flow_open_def mk_protocol_def healthy_def
        ExactKeys_def contains_def at_key_def kProtocolVersion_def Let_def reply_def)
qed

lemma example_numbers:
  "CanonicalRequestId (JStr ''1'') = Some 1" "CanonicalRequestId (JStr ''2'') = Some 2"
  by (simp_all add: CanonicalRequestId_def from_chars_def decimal_digit_def digits_value_def Let_def)

lemmas example_json = ExactKeys_def contains_def at_key_def kProtocolVersion_def Let_def reply_def example_request_def

lemma example_envelope:
  "CanonicalRequestId (JStr q) = Some n \<Longrightarrow> is_object p \<Longrightarrow> ValidRequestEnvelope (example_request q operation p) = Some n"
  by (simp add: ValidRequestEnvelope_def example_json)

lemma example_request_at [simp]:
  "at_key (example_request q op x) ''id'' = JStr q" "at_key (example_request q op x) ''operation'' = JStr op"
  "at_key (example_request q op x) ''parameters'' = x" "at_key (example_request q op x) ''timeout_ms'' = JUint 1000"
  "\<not> ExactKeys (example_request q op x) ack_keys"
  by (simp_all add: example_request_def at_key_def ExactKeys_def contains_def ack_keys_def)

lemma example_opened:
  "example_line ''open'' (example_line ''flow'' (mk_protocol [])) = (mk_protocol [])\<lparr>hp_session_generation := example_generation,
     hp_report_flow := Some (mk_manager example_generation), hp_state := State_Open, hp_fabric_id := 1, hp_greatest_request_id := 1,
     hp_calls := [BC_Open \<lparr>no_lifecycle = ''persistent'', no_storage_path = ''/store'', no_storage_mode = ''create_new'',
        no_authority = ''generate_root'', no_paa_trust_store = ''/paa'', no_fabric_id = 1, no_controller_node_id = 5,
        no_vendor_id = 65521, no_timeout_ms = 1000\<rparr>]\<rparr>"
proof -
  let ?p = "JObj [(''lifecycle'', JStr ''persistent''), (''storage_path'', JStr ''/store''), (''storage_mode'', JStr ''create_new''),
         (''authority'', JStr ''generate_root''), (''vendor_id'', JUint 65521), (''fabric_id'', JUint 1),
         (''controller_node_id'', JUint 5), (''paa_trust_store'', JStr ''/paa'')]"
  have p: "ParseBounded (jl_sax example_library) (jl_parse example_library) ''open'' = Some (example_request ''1'' ''open'' ?p)"
    by (simp add: example_library_def ParseBounded_def example_parse_def kMaximumFrameBytes_def)
  have o: "OpenOptions ?p = Some \<lparr>no_lifecycle = ''persistent'', no_storage_path = ''/store'', no_storage_mode = ''create_new'',
        no_authority = ''generate_root'', no_paa_trust_store = ''/paa'', no_fabric_id = 1, no_controller_node_id = 5,
        no_vendor_id = 65521, no_timeout_ms = 0\<rparr>"
    by (simp add: OpenOptions_def example_json AbsolutePath_def kMaximumOperationalNode_def)
  have e: "ValidRequestEnvelope (example_request ''1'' ''open'' ?p) = Some 1"
    by (rule example_envelope [OF example_numbers(1)]) simp
  show ?thesis
    unfolding example_flow
    by (simp add: example_line_def ProcessLine_def ProcessLineImpl_def p o e open_request_def mk_protocol_def healthy_def
        Let_def reply_def call_def interrupted_def example_answers_def request_timeout_def)
qed

definition example_stream :: Stream where
  "example_stream = \<lparr>st_generation = 1, st_queue_limit = 10, st_outstanding = 0, st_queued = 0, st_last_transmitted = 0,
     st_live = True\<rparr>"

definition example_active :: ActiveSubscription where
  "example_active = \<lparr>as_generation = 1, as_queue_limit = 10, as_resubscribe = True, as_recovering = False,
     as_recovery_attempt = 0\<rparr>"

lemma example_admitted:
  "hp_state example_host = State_Open \<and> healthy example_host \<and> hp_greatest_request_id example_host = 2 \<and>
   hp_processing_depth example_host = 0 \<and>
   hp_report_flow example_host = Some ((mk_manager example_generation)\<lparr>cm_streams := [(Key example_generation 1, example_stream)]\<rparr>) \<and>
   hp_subscriptions example_host = [(example_generation, example_active)]"
proof -
  let ?p = "JObj [(''subscription_id'', JStr example_generation), (''kind'', JStr ''event''),
         (''paths'', JArr [JObj [(''fabric_id'', JUint 1), (''node_id'', JUint 2), (''endpoint'', JUint 1),
            (''cluster'', JUint 0x39), (''member'', JUint 3)]]),
         (''min_interval_s'', JUint 1), (''max_interval_s'', JUint 60), (''resubscribe'', JBool True),
         (''queue_limit'', JUint 10)]"
  have p: "ParseBounded (jl_sax example_library) (jl_parse example_library) ''subscribe'' = Some (example_request ''2'' ''subscribe'' ?p)"
    by (simp add: example_library_def ParseBounded_def example_parse_def kMaximumFrameBytes_def)
  have e: "ValidRequestEnvelope (example_request ''2'' ''subscribe'' ?p) = Some 2"
    by (rule example_envelope [OF example_numbers(2)]) simp
  have g: "CanonicalSubscriptionId (JStr example_generation) = Some example_generation"
    by (simp add: CanonicalSubscriptionId_def CanonicalGeneration_def example_generation_def list_all_iff hex_digit_def)
  have v: "valid_subscription_request example_subscription"
    by (simp add: valid_subscription_request_def example_subscription_def list_all_iff hex_digit_def AdmittedRecipe_def)
  have sub: "SubscriptionParameters ?p 1000 = Some example_subscription"
    using v by (simp add: SubscriptionParameters_def valid_cluster_def kMaximumOperationalNode_def g [unfolded example_generation_def] example_json Unsigned_def Selector_def PathComponent_def
        example_subscription_def example_generation_def)
  have fields: "sr_subscription_id example_subscription = example_generation" "sr_fabric_id example_subscription = 1"
      "sr_queue_limit example_subscription = 10" "sr_resubscribe example_subscription"
    by (simp_all add: example_subscription_def example_generation_def)
  have ne: "example_generation \<noteq> []" by (simp add: example_generation_def)
  show ?thesis
    unfolding example_host_def example_opened
    by (simp add: example_line_def ProcessLine_def ProcessLineImpl_def p e open_dispatch_def subscribe_request_def sub ne
        mk_protocol_def healthy_def Let_def reply_def call_def interrupted_def example_answers_def request_timeout_def
        admit_stream_def AddStream_def mk_manager_def emplace_subscription_def put_subscription_def example_stream_def example_active_def fields
        word_le_nat_alt)
qed

lemma example_reached:
  "session example_library example_sink any_change (mk_protocol []) (example_line ''open'' (example_line ''flow'' (mk_protocol [])))"
  "session example_library example_sink any_change (mk_protocol []) example_host"
  unfolding example_host_def
  using free.session_trans [OF example_session free.session_trans [OF example_session example_session]]
    free.session_trans [OF example_session example_session] by blast+

lemma example_numbered:
  "numbered_line example_library ''subscribe'' 2" "numbered_line example_library ''health'' 2"
proof -
  have e: "ValidRequestEnvelope (example_request ''2'' op (JObj ms)) = Some 2" for op ms
    by (rule example_envelope [OF example_numbers(2)]) simp
  show "numbered_line example_library ''subscribe'' 2" "numbered_line example_library ''health'' 2"
    by (simp_all add: numbered_line_def example_library_def ParseBounded_def example_parse_def kMaximumFrameBytes_def e)
qed

lemma example_decision:
  "Next_recovery 0 (mk_recovery True) =
     (Decision.make RA_Retry 2 1 60000,
      \<lparr>rc_enabled = True, rc_recovering = True, rc_started_ms = 0, rc_generation = 2, rc_attempts = 1\<rparr>)"
  by (simp add: Next_recovery_def mk_recovery_def kMaximumDurationMs_def kMaximumAttempts_def Let_def word_le_nat_alt)

theorem status_follows_recovery_witness:
  "EmitStatus example_library example_sink
     \<lparr>ss_subscription_id = example_generation, ss_generation = 2, ss_status = ST_Resubscribing, ss_continuity = SC_Lost,
      ss_attempt = 2, ss_min_interval_s = 0, ss_max_interval_s = 0, ss_sdk_subscription_id = 0\<rparr> example_host = (False, example_host)"
proof -
  have "mirrors example_active (mk_recovery True)" "example_generation \<noteq> []"
    by (simp_all add: mirrors_def example_active_def mk_recovery_def example_generation_def)
  then show ?thesis
    using status_follows_recovery [OF _ _ _ _ _ _ _ example_decision, of example_host _ example_generation example_active
        example_library example_sink] example_admitted
    by (simp add: mk_recovery_def Decision.make_def)
qed

theorem session_streams_witness:
  "\<exists>m. hp_report_flow example_host = Some m \<and> length (cm_outstanding m) \<le> 64 \<and> IsLive example_generation 1 m"
proof -
  have "map_of (hp_subscriptions example_host) example_generation = Some example_active"
    using example_admitted by simp
  moreover have "as_generation example_active = 1" by (simp add: example_active_def)
  ultimately show ?thesis
    using session_streams [OF example_reached(2)] example_admitted by metis
qed

theorem session_lifecycle_witness:
  "shut_down (hp_calls (Close example_answers example_host)) \<and> hp_calls (Close example_answers example_host) \<noteq> []"
proof -
  have c: "hp_state (Close example_answers example_host) = State_Closed"
    using example_admitted by (simp add: Close_def Let_def call_def)
  have "session example_library example_sink any_change (mk_protocol []) (Close example_answers example_host)"
    using example_admitted by (intro session.close example_reached(2)) simp
  from session_lifecycle [OF this] c show ?thesis by (auto simp: shut_down_def)
qed

theorem request_number_once_witness:
  "fst (ProcessLine example_library example_sink example_answers no_gap ''health'' example_host) = no_result"
proof -
  let ?h = "example_line ''open'' (example_line ''flow'' (mk_protocol []))"
  have "healthy ?h" "hp_state ?h = State_Open" unfolding example_opened by (simp_all add: healthy_def mk_protocol_def)
  moreover have "session example_library example_sink any_change
      (snd (ProcessLine example_library example_sink example_answers no_gap ''subscribe'' ?h)) example_host"
    unfolding example_host_def example_line_def by (rule session.done_)
  ultimately show ?thesis
    using request_number_once [OF example_reached(1) _ _ example_numbered(1) session.done_, of example_answers example_host
        "''health''" example_answers no_gap] example_admitted example_numbered(2)
    by (simp add: split_beta)
qed

theorem session_fails_closed_witness:
  "hp_state (example_line ''health'' (FailChannel_protocol example_host)) = State_Closed"
proof -
  let ?h = "FailChannel_protocol example_host"
  obtain r h' where p: "ProcessLine example_library example_sink example_answers no_gap ''health'' ?h = (r, h')" by fastforce
  have s: "session example_library example_sink any_change (mk_protocol []) ?h"
    by (intro session.channel_failure example_reached(2))
  have "\<not> healthy ?h" by (simp add: healthy_def FailChannel_protocol_def FailChannel_def)
  then have "\<not> healthy h'"
    using ProcessLine_result [OF p no_gap_ok free.session_inv [OF s]] by (simp add: evolves_def)
  then show ?thesis
    using session_fails_closed [OF s _ session.done_ p] example_admitted p by (simp add: example_line_def)
qed

theorem nested_line_calls_witness:
  "only_cancels (example_host\<lparr>hp_processing_depth := 1\<rparr>) (example_line ''subscribe'' (example_host\<lparr>hp_processing_depth := 1\<rparr>))"
  unfolding example_line_def using example_admitted by (intro nested_line_calls) simp_all

end
