(* ===== verification/BoundedIO.thy ===== *)
theory BoundedIO
  imports Json
begin

text \<open>
  The two ends of the host's channel: \<open>BoundedInput\<close> of \<^verbatim>\<open>native/include/wotex_matter/input.hpp\<close> and
  \<open>ReadLineBounded\<close> and \<open>BoundedOutput\<close> of \<^verbatim>\<open>native/src/protocol.cpp\<close>.

  The descriptor is an environment: the list of outcomes of the coming \<open>poll\<close> and \<open>read\<close> calls.  The
  writer's methods and the two critical sections of its worker thread are atomic steps under its
  mutex, so that a concurrent execution is a sequence of these steps.
\<close>

section \<open>BoundedInput\<close>

datatype InputResult = IR_Line string | IR_Waiting | IR_End | IR_Invalid

datatype io_outcome =
  IO_PollTimeout
| IO_PollInterrupted
| IO_PollFailed
| IO_PollErrorEvent
| IO_ReadAgain
| IO_ReadFailed
| IO_ReadEnd
| IO_Read string

record BoundedInput =
  bi_valid :: bool
  bi_buffer :: string
  bi_partial :: string

definition mk_input :: "bool \<Rightarrow> BoundedInput" where
  "mk_input configured = \<lparr>bi_valid = configured, bi_buffer = [], bi_partial = []\<rparr>"

text \<open>The inner loop over the bytes from \<open>offset_\<close> to \<open>size_\<close>; \<open>None\<close> means the buffer is used up.\<close>

fun scan_loop :: "string \<Rightarrow> BoundedInput \<Rightarrow> InputResult option \<times> BoundedInput" where
  "scan_loop [] i = (None, i\<lparr>bi_buffer := []\<rparr>)"
| "scan_loop (byte # bytes) i =
     (if byte = CHR 0x0A
      then (Some (IR_Line (bi_partial i)), i\<lparr>bi_buffer := bytes, bi_partial := []\<rparr>)
      else if length (bi_partial i) \<ge> kMaximumFrameBytes - 1
      then (Some IR_Invalid, i\<lparr>bi_buffer := bytes, bi_valid := False\<rparr>)
      else scan_loop bytes (i\<lparr>bi_partial := bi_partial i @ [byte]\<rparr>))"

definition Next_input ::
    "BoundedInput \<times> io_outcome list \<Rightarrow> InputResult \<times> BoundedInput \<times> io_outcome list" where
  "Next_input = (\<lambda>(i, env).
     if \<not> bi_valid i then (IR_Invalid, i, env)
     else case scan_loop (bi_buffer i) i of
       (Some r, i1) \<Rightarrow> (r, i1, env)
     | (None, i1) \<Rightarrow>
         (case env of
            [] \<Rightarrow> (IR_Waiting, i1, [])
          | IO_PollTimeout # env' \<Rightarrow> (IR_Waiting, i1, env')
          | IO_PollInterrupted # env' \<Rightarrow> (IR_Waiting, i1, env')
          | IO_PollFailed # env' \<Rightarrow> (IR_Invalid, i1, env')
          | IO_PollErrorEvent # env' \<Rightarrow> (IR_Invalid, i1, env')
          | IO_ReadAgain # env' \<Rightarrow> (IR_Waiting, i1, env')
          | IO_ReadFailed # env' \<Rightarrow> (IR_Invalid, i1, env')
          | IO_ReadEnd # env' \<Rightarrow> (if bi_partial i1 = [] then IR_End else IR_Invalid, i1, env')
          | IO_Read bytes # env' \<Rightarrow>
              (case scan_loop bytes i1 of
                 (Some r, i2) \<Rightarrow> (r, i2, env')
               | (None, i2) \<Rightarrow> (IR_Waiting, i2, env'))))"

section \<open>ReadLineBounded\<close>

text \<open>The result flag, the line, what is left of the stream, and whether the stream has ended.\<close>

fun read_line_loop :: "string \<Rightarrow> string \<Rightarrow> bool \<times> string \<times> string \<times> bool" where
  "read_line_loop line [] = (line = [], line, [], True)"
| "read_line_loop line (byte # input) =
     (if byte = CHR 0x0A then (True, line, input, False)
      else if length line \<ge> kMaximumFrameBytes - 1 then (False, line, input, False)
      else read_line_loop (line @ [byte]) input)"

definition ReadLineBounded :: "string \<Rightarrow> bool \<times> string \<times> string \<times> bool" where
  "ReadLineBounded input = read_line_loop [] input"

section \<open>BoundedOutput\<close>

datatype OutputClass = OC_Report | OC_Control | OC_Reply

record BoundedOutput =
  bo_pending :: "(string \<times> OutputClass) list"
  bo_writing :: "(string \<times> OutputClass) option"
  bo_written :: "string list"
  bo_report_frames :: u64
  bo_report_bytes :: u64
  bo_control_frames :: u64
  bo_control_bytes :: u64
  bo_reply_frames :: u64
  bo_reply_bytes :: u64
  bo_healthy :: bool
  bo_stopping :: bool
  bo_exited :: bool
  bo_failure_calls :: nat

definition mk_output :: BoundedOutput where
  "mk_output =
     \<lparr>bo_pending = [], bo_writing = None, bo_written = [], bo_report_frames = 0, bo_report_bytes = 0,
      bo_control_frames = 0, bo_control_bytes = 0, bo_reply_frames = 0, bo_reply_bytes = 0,
      bo_healthy = True, bo_stopping = False, bo_exited = False, bo_failure_calls = 0\<rparr>"

fun frames_of :: "OutputClass \<Rightarrow> BoundedOutput \<Rightarrow> u64" where
  "frames_of OC_Report o' = bo_report_frames o'"
| "frames_of OC_Control o' = bo_control_frames o'"
| "frames_of OC_Reply o' = bo_reply_frames o'"

fun bytes_of :: "OutputClass \<Rightarrow> BoundedOutput \<Rightarrow> u64" where
  "bytes_of OC_Report o' = bo_report_bytes o'"
| "bytes_of OC_Control o' = bo_control_bytes o'"
| "bytes_of OC_Reply o' = bo_reply_bytes o'"

fun set_counters :: "OutputClass \<Rightarrow> u64 \<Rightarrow> u64 \<Rightarrow> BoundedOutput \<Rightarrow> BoundedOutput" where
  "set_counters OC_Report f b o' = o'\<lparr>bo_report_frames := f, bo_report_bytes := b\<rparr>"
| "set_counters OC_Control f b o' = o'\<lparr>bo_control_frames := f, bo_control_bytes := b\<rparr>"
| "set_counters OC_Reply f b o' = o'\<lparr>bo_reply_frames := f, bo_reply_bytes := b\<rparr>"

definition Fail_output :: "BoundedOutput \<Rightarrow> BoundedOutput" where
  "Fail_output o' =
     (if \<not> bo_healthy o' then o'
      else o'\<lparr>bo_healthy := False, bo_stopping := True, bo_pending := [],
              bo_failure_calls := bo_failure_calls o' + 1\<rparr>)"

definition Enqueue ::
    "string \<Rightarrow> OutputClass \<Rightarrow> nat \<Rightarrow> nat \<Rightarrow> nat \<Rightarrow> BoundedOutput \<Rightarrow> bool \<times> BoundedOutput" where
  "Enqueue frame c maximum_frames maximum_bytes maximum_frame_bytes o' =
     (if \<not> bo_healthy o' \<or> bo_stopping o' then (False, o')
      else if frame = [] \<or> length frame \<ge> maximum_frame_bytes then (False, Fail_output o')
      else
        let bytes = length frame + 1
        in if unat (frames_of c o') \<ge> maximum_frames \<or> unat (bytes_of c o') > maximum_bytes \<or>
              bytes > maximum_bytes - unat (bytes_of c o')
           then (False, Fail_output o')
           else (True, (set_counters c (frames_of c o' + 1) (bytes_of c o' + of_nat bytes) o')
                         \<lparr>bo_pending := bo_pending o' @ [(frame, c)]\<rparr>))"

definition EnqueueReport :: "string \<Rightarrow> BoundedOutput \<Rightarrow> bool \<times> BoundedOutput" where
  "EnqueueReport frame = Enqueue frame OC_Report 64 1048576 kMaximumFrameBytes"

definition EnqueueControl :: "string \<Rightarrow> BoundedOutput \<Rightarrow> bool \<times> BoundedOutput" where
  "EnqueueControl frame = Enqueue frame OC_Control 256 (256 * 4096) 4096"

definition EnqueueReply :: "string \<Rightarrow> BoundedOutput \<Rightarrow> bool \<times> BoundedOutput" where
  "EnqueueReply frame = Enqueue frame OC_Reply 64 (64 * kMaximumFrameBytes) kMaximumFrameBytes"

definition Stop_output :: "BoundedOutput \<Rightarrow> BoundedOutput" where
  "Stop_output o' = o'\<lparr>bo_stopping := True\<rparr>"

text \<open>The worker's first critical section: take the next frame, or leave when stopping.\<close>

definition take_pending :: "BoundedOutput \<Rightarrow> BoundedOutput" where
  "take_pending o' =
     (if bo_exited o' \<or> bo_writing o' \<noteq> None then o'
      else case bo_pending o' of
        [] \<Rightarrow> if bo_stopping o' then o'\<lparr>bo_exited := True\<rparr> else o'
      | p # ps \<Rightarrow> o'\<lparr>bo_writing := Some p, bo_pending := ps\<rparr>)"

text \<open>After the write: \<open>written\<close> tells whether the stream accepted the line; release the
  reservation, and on failure close the channel and leave.\<close>

definition finish_write :: "bool \<Rightarrow> BoundedOutput \<Rightarrow> BoundedOutput" where
  "finish_write written o' =
     (case bo_writing o' of
        None \<Rightarrow> o'
      | Some (frame, c) \<Rightarrow>
          let o1 = (set_counters c (frames_of c o' - 1) (bytes_of c o' - of_nat (length frame + 1)) o')
                     \<lparr>bo_writing := None,
                      bo_written := (if written then bo_written o' @ [frame] else bo_written o')\<rparr>
          in if \<not> written then (Fail_output o1)\<lparr>bo_exited := True\<rparr> else o1)"

datatype output_op = O_Report string | O_Control string | O_Reply string | O_Stop | O_Take | O_Finish bool

fun output_step :: "output_op \<Rightarrow> BoundedOutput \<Rightarrow> bool \<times> BoundedOutput" where
  "output_step (O_Report frame) o' = EnqueueReport frame o'"
| "output_step (O_Control frame) o' = EnqueueControl frame o'"
| "output_step (O_Reply frame) o' = EnqueueReply frame o'"
| "output_step O_Stop o' = (True, Stop_output o')"
| "output_step O_Take o' = (True, take_pending o')"
| "output_step (O_Finish written) o' = (True, finish_write written o')"

section \<open>Framing of the input\<close>

text \<open>The bytes a descriptor still has to deliver, and the bytes a result stands for.\<close>

fun chunk :: "io_outcome \<Rightarrow> string" where
  "chunk (IO_Read bytes) = bytes"
| "chunk _ = []"

definition unread :: "io_outcome list \<Rightarrow> string" where
  "unread env = concat (map chunk env)"

fun line_bytes :: "InputResult \<Rightarrow> string" where
  "line_bytes (IR_Line l) = l @ [CHR 0x0A]"
| "line_bytes _ = []"

definition held :: "BoundedInput \<times> io_outcome list \<Rightarrow> string" where
  "held s = bi_partial (fst s) @ bi_buffer (fst s) @ unread (snd s)"

definition frame_line :: "string \<Rightarrow> bool" where
  "frame_line l \<longleftrightarrow> length l \<le> 131071 \<and> CHR 0x0A \<notin> set l"

lemma unread_simps [simp]: "unread [] = []" "unread (x # env) = chunk x @ unread env"
  by (simp_all add: unread_def)

lemma scan_loop_ok:
  assumes "scan_loop bytes i = (r, i')" "frame_line (bi_partial i)"
  shows "frame_line (bi_partial i') \<and>
    (\<forall>l. r = Some (IR_Line l) \<longrightarrow> frame_line l) \<and>
    (bi_valid i' \<longrightarrow> bi_valid i \<and> bi_partial i @ bytes =
       (case r of None \<Rightarrow> [] | Some x \<Rightarrow> line_bytes x) @ bi_partial i' @ bi_buffer i') \<and>
    (r = None \<longrightarrow> bi_buffer i' = []) \<and> (bi_valid i' \<longrightarrow> r \<noteq> Some IR_Invalid) \<and>
    r \<noteq> Some IR_End \<and> r \<noteq> Some IR_Waiting"
  using assms
proof (induction bytes i rule: scan_loop.induct)
  case (2 byte bytes i)
  show ?case
  proof (cases "byte = CHR 0x0A")
    case True
    then show ?thesis using "2.prems" by (auto simp: frame_line_def)
  next
    case False
    show ?thesis
    proof (cases "length (bi_partial i) \<ge> kMaximumFrameBytes - 1")
      case True
      then show ?thesis using False "2.prems" by auto
    next
      case room: False
      then have "frame_line (bi_partial i @ [byte])"
        using False "2.prems"(2) by (simp add: frame_line_def kMaximumFrameBytes_def)
      then show ?thesis using "2.IH" [OF False room] "2.prems"(1) False room by simp
    qed
  qed
qed auto

definition input_inv :: "BoundedInput \<times> io_outcome list \<Rightarrow> bool" where
  "input_inv s \<longleftrightarrow> frame_line (bi_partial (fst s))"

definition input_ok :: "BoundedInput \<times> io_outcome list \<Rightarrow> unit \<Rightarrow> InputResult \<Rightarrow> bool" where
  "input_ok s op r \<longleftrightarrow> (\<forall>l. r = IR_Line l \<longrightarrow> frame_line l)"

lemma Next_input_ok:
  assumes "Next_input (i, env) = (r, i', env')" "frame_line (bi_partial i)"
  shows "frame_line (bi_partial i') \<and> (\<forall>l. r = IR_Line l \<longrightarrow> frame_line l) \<and>
    (bi_valid i' \<longrightarrow> bi_valid i \<and> held (i, env) = line_bytes r @ held (i', env'))"
proof (cases "bi_valid i")
  case False
  then show ?thesis using assms by (auto simp: Next_input_def)
next
  case True
  obtain r1 i1 where s1: "scan_loop (bi_buffer i) i = (r1, i1)" by fastforce
  note ok1 = scan_loop_ok [OF s1 assms(2)]
  show ?thesis
  proof (cases r1)
    case (Some x)
    then show ?thesis using assms(1) True s1 ok1 by (auto simp: Next_input_def held_def)
  next
    case None
    show ?thesis
    proof (cases "\<exists>bytes env1. env = IO_Read bytes # env1")
      case True
      then obtain bytes env1 where env: "env = IO_Read bytes # env1" by blast
      obtain r2 i2 where s2: "scan_loop bytes i1 = (r2, i2)" by fastforce
      have "frame_line (bi_partial i1)" using ok1 by blast
      note ok2 = scan_loop_ok [OF s2 this]
      have "i' = i2" "env' = env1" "r = (case r2 of None \<Rightarrow> IR_Waiting | Some x \<Rightarrow> x)"
        using assms(1) \<open>bi_valid i\<close> s1 None env s2 by (auto simp: Next_input_def split: option.splits)
      moreover have "bi_valid i \<and> bi_partial i @ bi_buffer i @ bytes =
          (case r2 of None \<Rightarrow> [] | Some x \<Rightarrow> line_bytes x) @ bi_partial i2 @ bi_buffer i2"
        if "bi_valid i2"
      proof -
        have "bi_valid i1" and p2: "bi_partial i1 @ bytes =
            (case r2 of None \<Rightarrow> [] | Some x \<Rightarrow> line_bytes x) @ bi_partial i2 @ bi_buffer i2"
          using ok2 that by blast+
        then have "bi_valid i" "bi_partial i @ bi_buffer i = bi_partial i1" using ok1 None by auto
        then show ?thesis using p2 append_assoc by metis
      qed
      ultimately show ?thesis
        using ok2 by (cases r2) (simp_all add: held_def env)
    next
      case False
      then have "i' = i1 \<and> unread env' = unread env \<and> line_bytes r = [] \<and> (\<forall>l. r \<noteq> IR_Line l)"
        using assms(1) \<open>bi_valid i\<close> s1 None
        by (auto simp: Next_input_def split: list.splits io_outcome.splits if_splits)
      then show ?thesis using ok1 None by (auto simp: held_def)
    qed
  qed
qed

interpretation input_machine: machine "\<lambda>_. Next_input" input_inv input_ok
proof unfold_locales
  fix s :: "BoundedInput \<times> io_outcome list" and op :: unit
  assume "input_inv s"
  then show "input_inv (snd (Next_input s))" "input_ok s op (fst (Next_input s))"
    using Next_input_ok [of "fst s" "snd s" "fst (Next_input s)" "fst (snd (Next_input s))"
        "snd (snd (Next_input s))"]
    by (simp_all add: input_inv_def input_ok_def)
qed

text \<open>\<open>n\<close> calls of \<open>Next\<close>.\<close>

definition next_run ::
    "io_outcome list \<Rightarrow> nat \<Rightarrow> InputResult list \<times> BoundedInput \<times> io_outcome list" where
  "next_run env n = run_ops (\<lambda>_. Next_input) (mk_input True, env) (replicate n ())"

lemma next_valid_back: "bi_valid (fst (snd (run_ops (\<lambda>_. Next_input) s ops))) \<Longrightarrow> bi_valid (fst s)"
proof (induction ops arbitrary: s)
  case (Cons op ops)
  then have "bi_valid (fst (snd (Next_input s)))" by (simp add: case_prod_beta Let_def)
  then show ?case
    by (cases s) (auto simp: Next_input_def split: if_splits option.splits prod.splits)
qed simp

lemma run_held:
  assumes "input_inv s" "bi_valid (fst (snd (run_ops (\<lambda>_. Next_input) s ops)))"
  shows "held s = concat (map line_bytes (fst (run_ops (\<lambda>_. Next_input) s ops))) @
    held (snd (run_ops (\<lambda>_. Next_input) s ops))"
  using assms
proof (induction ops arbitrary: s)
  case (Cons op ops)
  let ?t = "snd (Next_input s)"
  have rest: "bi_valid (fst (snd (run_ops (\<lambda>_. Next_input) ?t ops)))"
    using Cons.prems(2) by (simp add: case_prod_beta Let_def)
  have "held s = line_bytes (fst (Next_input s)) @ held ?t"
    using Next_input_ok [of "fst s" "snd s" "fst (Next_input s)" "fst ?t" "snd ?t"]
      Cons.prems(1) next_valid_back [OF rest] by (simp add: input_inv_def)
  then show ?case
    using Cons.IH [OF input_machine.step_inv [OF Cons.prems(1)] rest]
    by (simp add: case_prod_beta Let_def)
qed simp

text \<open>However the descriptor splits the stream into reads and whatever interruptions and
  timeouts come between them, after any number of calls of \<open>Next\<close> on a reader that is still valid the
  lines handed out (each with its newline), the partial line, the buffer and the bytes not yet read are
  together exactly the stream, in order: no byte is lost, repeated or moved between frames.  Every line
  handed out, from a valid reader or not, has at most 131071 bytes and no newline, and so has the
  partial line, so the reader never retains more than one frame.\<close>

theorem input_framing:
  "case next_run env n of (results, i, env') \<Rightarrow>
     (bi_valid i \<longrightarrow>
        unread env = concat (map line_bytes results) @ bi_partial i @ bi_buffer i @ unread env') \<and>
     (\<forall>l. IR_Line l \<in> set results \<longrightarrow> length l \<le> 131071 \<and> CHR 0x0A \<notin> set l) \<and>
     length (bi_partial i) \<le> 131071"
proof -
  let ?s = "(mk_input True, env)"
  have inv: "input_inv ?s" by (simp add: input_inv_def mk_input_def frame_line_def)
  obtain rs i env' where run: "next_run env n = (rs, i, env')" by (cases "next_run env n") auto
  have "held ?s = unread env" by (simp add: held_def mk_input_def)
  then have "bi_valid i \<longrightarrow>
      unread env = concat (map line_bytes rs) @ bi_partial i @ bi_buffer i @ unread env'"
    using run_held [OF inv, of "replicate n ()"] run by (simp add: next_run_def held_def)
  moreover have "input_inv (i, env')"
    using input_machine.run_inv [OF inv, of "replicate n ()"] run by (simp add: next_run_def)
  moreover have len: "length rs = n"
    using length_run_ops [of "\<lambda>_. Next_input" ?s "replicate n ()"] run by (simp add: next_run_def)
  moreover have "frame_line l" if "IR_Line l \<in> set rs" for l
  proof -
    obtain k where "k < length rs" "rs ! k = IR_Line l" using \<open>IR_Line l \<in> set rs\<close> in_set_conv_nth by metis
    then show ?thesis
      using input_machine.run_answers [OF inv, of k "replicate n ()"] run len
      by (simp add: next_run_def input_ok_def)
  qed
  ultimately show ?thesis using run by (auto simp: input_inv_def frame_line_def)
qed

text \<open>Two frames that arrive in three reads with a timeout between them.\<close>

lemma replicate_4: "replicate 4 x = [x, x, x, x]"
  by (simp add: numeral_eq_Suc)

lemma input_framing_witness:
  "case next_run [IO_Read ''ab'', IO_PollTimeout, IO_Read [CHR ''c'', CHR 0x0A, CHR ''d''], IO_Read [CHR 0x0A]] 4 of
     (results, i, env') \<Rightarrow>
       results = [IR_Waiting, IR_Waiting, IR_Line ''abc'', IR_Line ''d''] \<and> bi_valid i \<and>
       ''abc'' @ [CHR 0x0A, CHR ''d'', CHR 0x0A] =
         concat (map line_bytes results) @ bi_partial i @ bi_buffer i @ unread env'"
  using input_framing [of "[IO_Read ''ab'', IO_PollTimeout, IO_Read [CHR ''c'', CHR 0x0A, CHR ''d''],
      IO_Read [CHR 0x0A]]" 4]
  by (simp add: next_run_def mk_input_def Next_input_def kMaximumFrameBytes_def replicate_4)

section \<open>The bounded writer\<close>

text \<open>What is accepted and not yet written, and the charge of a class for it.\<close>

definition in_flight :: "BoundedOutput \<Rightarrow> (string \<times> OutputClass) list" where
  "in_flight o' = (case bo_writing o' of None \<Rightarrow> [] | Some p \<Rightarrow> [p]) @ bo_pending o'"

definition frames_charge :: "OutputClass \<Rightarrow> (string \<times> OutputClass) list \<Rightarrow> nat" where
  "frames_charge c ps = length (filter (\<lambda>p. snd p = c) ps)"

definition bytes_charge :: "OutputClass \<Rightarrow> (string \<times> OutputClass) list \<Rightarrow> nat" where
  "bytes_charge c ps = (\<Sum>p \<leftarrow> filter (\<lambda>p. snd p = c) ps. length (fst p) + 1)"

fun maximum_frames :: "OutputClass \<Rightarrow> nat" where
  "maximum_frames OC_Report = 64"
| "maximum_frames OC_Control = 256"
| "maximum_frames OC_Reply = 64"

fun maximum_bytes :: "OutputClass \<Rightarrow> nat" where
  "maximum_bytes OC_Report = 1048576"
| "maximum_bytes OC_Control = 1048576"
| "maximum_bytes OC_Reply = 8388608"

definition class_ok :: "OutputClass \<Rightarrow> BoundedOutput \<Rightarrow> bool" where
  "class_ok c o' \<longleftrightarrow>
     unat (frames_of c o') \<le> maximum_frames c \<and> unat (bytes_of c o') \<le> maximum_bytes c \<and>
     frames_charge c (in_flight o') \<le> unat (frames_of c o') \<and>
     bytes_charge c (in_flight o') \<le> unat (bytes_of c o') \<and>
     (bo_healthy o' \<longrightarrow> frames_charge c (in_flight o') = unat (frames_of c o') \<and>
        bytes_charge c (in_flight o') = unat (bytes_of c o'))"

definition output_inv :: "BoundedOutput \<Rightarrow> bool" where
  "output_inv o' \<longleftrightarrow>
     (\<forall>c. class_ok c o') \<and>
     bo_failure_calls o' = (if bo_healthy o' then 0 else 1) \<and>
     (\<not> bo_healthy o' \<longrightarrow> bo_stopping o' \<and> bo_pending o' = []) \<and>
     (bo_exited o' \<longrightarrow> bo_writing o' = None \<and> bo_pending o' = [] \<and> bo_stopping o')"

lemma charge_simps [simp]:
  "frames_charge c [] = 0" "bytes_charge c [] = 0"
  "frames_charge c (p # ps) = (if snd p = c then 1 else 0) + frames_charge c ps"
  "bytes_charge c (p # ps) = (if snd p = c then length (fst p) + 1 else 0) + bytes_charge c ps"
  "frames_charge c (ps @ qs) = frames_charge c ps + frames_charge c qs"
  "bytes_charge c (ps @ qs) = bytes_charge c ps + bytes_charge c qs"
  by (simp_all add: frames_charge_def bytes_charge_def)

lemma set_counters_simps [simp]:
  "frames_of d (set_counters c f b o') = (if d = c then f else frames_of d o')"
  "bytes_of d (set_counters c f b o') = (if d = c then b else bytes_of d o')"
  "bo_pending (set_counters c f b o') = bo_pending o'"
  "bo_writing (set_counters c f b o') = bo_writing o'"
  "bo_written (set_counters c f b o') = bo_written o'"
  "bo_healthy (set_counters c f b o') = bo_healthy o'"
  "bo_stopping (set_counters c f b o') = bo_stopping o'"
  "bo_exited (set_counters c f b o') = bo_exited o'"
  "bo_failure_calls (set_counters c f b o') = bo_failure_calls o'"
  by (cases c; cases d; simp)+

lemma counters_update [simp]:
  "frames_of c (o'\<lparr>bo_pending := p\<rparr>) = frames_of c o'" "bytes_of c (o'\<lparr>bo_pending := p\<rparr>) = bytes_of c o'"
  "frames_of c (o'\<lparr>bo_writing := w\<rparr>) = frames_of c o'" "bytes_of c (o'\<lparr>bo_writing := w\<rparr>) = bytes_of c o'"
  "frames_of c (o'\<lparr>bo_written := l\<rparr>) = frames_of c o'" "bytes_of c (o'\<lparr>bo_written := l\<rparr>) = bytes_of c o'"
  "frames_of c (o'\<lparr>bo_exited := e\<rparr>) = frames_of c o'" "bytes_of c (o'\<lparr>bo_exited := e\<rparr>) = bytes_of c o'"
  "frames_of c (o'\<lparr>bo_stopping := e\<rparr>) = frames_of c o'" "bytes_of c (o'\<lparr>bo_stopping := e\<rparr>) = bytes_of c o'"
  "frames_of c (o'\<lparr>bo_healthy := e\<rparr>) = frames_of c o'" "bytes_of c (o'\<lparr>bo_healthy := e\<rparr>) = bytes_of c o'"
  "frames_of c (o'\<lparr>bo_failure_calls := n\<rparr>) = frames_of c o'"
  "bytes_of c (o'\<lparr>bo_failure_calls := n\<rparr>) = bytes_of c o'"
  by (cases c; simp)+

lemma Fail_output_inv: "output_inv o' \<Longrightarrow> output_inv (Fail_output o')"
  by (auto simp: output_inv_def Fail_output_def class_ok_def in_flight_def intro: add_leD1)

text \<open>The three outcomes of \<open>Enqueue\<close>: refused, failed, accepted within the class's reservation.\<close>

lemma Enqueue_cases:
  assumes "Enqueue frame c mf mb k o' = (r, o'')"
  shows "(\<not> r \<and> o'' = o') \<or> (\<not> r \<and> bo_healthy o' \<and> o'' = Fail_output o') \<or>
    (r \<and> bo_healthy o' \<and> \<not> bo_stopping o' \<and> frame \<noteq> [] \<and> length frame < k \<and>
     unat (frames_of c o') < mf \<and> length frame + 1 + unat (bytes_of c o') \<le> mb \<and>
     o'' = (set_counters c (frames_of c o' + 1) (bytes_of c o' + of_nat (length frame + 1)) o')
             \<lparr>bo_pending := bo_pending o' @ [(frame, c)]\<rparr>)"
  using assms by (auto simp: Enqueue_def Let_def split: if_splits)

lemma class_ok_accept:
  assumes "class_ok d o'" "bo_healthy o'" "unat (frames_of c o') < maximum_frames c"
    "length frame + 1 + unat (bytes_of c o') \<le> maximum_bytes c"
  shows "class_ok d ((set_counters c (frames_of c o' + 1) (bytes_of c o' + of_nat (length frame + 1)) o')
           \<lparr>bo_pending := bo_pending o' @ [(frame, c)]\<rparr>)"
proof (cases "d = c")
  case True
  have m: "maximum_frames c \<le> 256" "maximum_bytes c \<le> 8388608" by (cases c; simp)+
  have "unat (frames_of c o' + 1) = unat (frames_of c o') + 1"
    using assms(3) m(1) by (intro unat_plus_one) (simp add: u64_not_max_iff)
  moreover have "unat (bytes_of c o' + of_nat (length frame + 1)) = unat (bytes_of c o') + (length frame + 1)"
    using assms(4) m(2) by (intro unat_add_of_nat) simp
  ultimately show ?thesis
    using assms True by (simp add: class_ok_def in_flight_def del: of_nat_add)
next
  case False
  then show ?thesis using assms(1) by (simp add: class_ok_def in_flight_def)
qed

lemma Enqueue_inv:
  assumes "output_inv o'" "mf = maximum_frames c" "mb = maximum_bytes c"
  shows "output_inv (snd (Enqueue frame c mf mb k o'))"
proof -
  obtain r o'' where e: "Enqueue frame c mf mb k o' = (r, o'')" by fastforce
  then consider "o'' = o'" | "o'' = Fail_output o'"
    | "bo_healthy o'" "\<not> bo_stopping o'" "unat (frames_of c o') < mf"
      "length frame + 1 + unat (bytes_of c o') \<le> mb"
      "o'' = (set_counters c (frames_of c o' + 1) (bytes_of c o' + of_nat (length frame + 1)) o')
             \<lparr>bo_pending := bo_pending o' @ [(frame, c)]\<rparr>"
    using Enqueue_cases by blast
  then show ?thesis
  proof cases
    case 3
    have "\<forall>d. class_ok d o''"
      unfolding 3(5) using assms 3(1,3,4) class_ok_accept [of _ o' c frame] by (simp add: output_inv_def)
    then show ?thesis using assms(1) 3(1,2) e unfolding output_inv_def by (simp add: 3(5))
  qed (use assms(1) e Fail_output_inv in auto)
qed

lemma take_pending_in_flight: "in_flight (take_pending o') = in_flight o'"
  by (auto simp: take_pending_def in_flight_def split: list.splits option.splits)

lemma take_pending_inv: "output_inv o' \<Longrightarrow> output_inv (take_pending o')"
  using take_pending_in_flight [of o']
  by (cases "bo_writing o'") (auto simp: output_inv_def class_ok_def take_pending_def split: list.splits if_splits)

lemma Stop_output_inv: "output_inv o' \<Longrightarrow> output_inv (Stop_output o')"
  by (simp add: output_inv_def class_ok_def Stop_output_def in_flight_def)

lemma class_ok_release:
  assumes "class_ok d o'" "bo_writing o' = Some (frame, c)"
  shows "class_ok d ((set_counters c (frames_of c o' - 1) (bytes_of c o' - of_nat (length frame + 1)) o')
           \<lparr>bo_writing := None, bo_written := w\<rparr>)"
proof (cases "d = c")
  case True
  have le: "1 + frames_charge c (bo_pending o') \<le> unat (frames_of c o')"
    "length frame + 1 + bytes_charge c (bo_pending o') \<le> unat (bytes_of c o')"
    using assms True by (simp_all add: class_ok_def in_flight_def)
  have "unat (frames_of c o' - 1) = unat (frames_of c o') - 1"
    using le(1) by (intro unat_minus_one_pos) simp
  moreover have "unat (bytes_of c o' - of_nat (length frame + 1)) = unat (bytes_of c o') - (length frame + 1)"
    using le(2) by (intro unat_sub_of_nat) simp
  ultimately show ?thesis
    using assms True by (auto simp add: class_ok_def in_flight_def simp del: of_nat_add of_nat_Suc)
next
  case False
  then show ?thesis using assms by (simp add: class_ok_def in_flight_def)
qed

lemma finish_write_inv: 
  assumes "output_inv o'"
  shows "output_inv (finish_write written o')"
proof (cases "bo_writing o'")
  case None
  then show ?thesis using assms by (simp add: finish_write_def)
next
  case (Some p)
  obtain frame c where p: "p = (frame, c)" by fastforce
  let ?o1 = "(set_counters c (frames_of c o' - 1) (bytes_of c o' - of_nat (length frame + 1)) o')
               \<lparr>bo_writing := None, bo_written := (if written then bo_written o' @ [frame] else bo_written o')\<rparr>"
  have "\<forall>d. class_ok d ?o1" using assms class_ok_release Some p unfolding output_inv_def by blast
  then have o1: "output_inv ?o1" using assms Some by (auto simp: output_inv_def)
  have "output_inv ((Fail_output ?o1)\<lparr>bo_exited := True\<rparr>)"
    using Fail_output_inv [OF o1] by (auto simp: output_inv_def class_ok_def in_flight_def Fail_output_def)
  then show ?thesis using o1 Some p by (cases written) (simp_all add: finish_write_def Let_def)
qed

lemma output_step_inv: "output_inv o' \<Longrightarrow> output_inv (snd (output_step op o'))"
  by (cases op) (simp_all add: EnqueueReport_def EnqueueControl_def EnqueueReply_def
      kMaximumFrameBytes_def Enqueue_inv take_pending_inv finish_write_inv Stop_output_inv)

text \<open>The frames of the calls that were answered \<open>true\<close>, in call order.\<close>

fun accepted_frames :: "output_op list \<Rightarrow> bool list \<Rightarrow> string list" where
  "accepted_frames (O_Report f # ops) (r # rs) = (if r then [f] else []) @ accepted_frames ops rs"
| "accepted_frames (O_Control f # ops) (r # rs) = (if r then [f] else []) @ accepted_frames ops rs"
| "accepted_frames (O_Reply f # ops) (r # rs) = (if r then [f] else []) @ accepted_frames ops rs"
| "accepted_frames (_ # ops) (_ # rs) = accepted_frames ops rs"
| "accepted_frames _ _ = []"

text \<open>Everything the writer has accepted and not dropped, in order.\<close>

definition stream_of :: "BoundedOutput \<Rightarrow> string list" where
  "stream_of o' = bo_written o' @ map fst (in_flight o')"

definition output_ok :: "BoundedOutput \<Rightarrow> output_op \<Rightarrow> bool \<Rightarrow> bool" where
  "output_ok o' op r \<longleftrightarrow> (\<exists>dropped. stream_of o' @ accepted_frames [op] [r] =
      stream_of (snd (output_step op o')) @ dropped \<and>
      (bo_healthy (snd (output_step op o')) \<longrightarrow> dropped = []))"

lemma stream_of_Fail: "\<exists>dropped. stream_of o' = stream_of (Fail_output o') @ dropped \<and>
    (bo_healthy (Fail_output o') \<longrightarrow> dropped = [])"
  by (auto simp: stream_of_def in_flight_def Fail_output_def)

lemma Enqueue_stream:
  assumes "Enqueue frame c mf mb k o' = (r, o'')"
  shows "\<exists>dropped. stream_of o' @ (if r then [frame] else []) = stream_of o'' @ dropped \<and>
    (bo_healthy o'' \<longrightarrow> dropped = [])"
  using Enqueue_cases [OF assms] stream_of_Fail [of o']
  by (auto simp: stream_of_def in_flight_def)

lemma finish_write_stream: "output_inv o' \<Longrightarrow> \<exists>dropped. stream_of o' = stream_of (finish_write written o') @ dropped \<and>
    (bo_healthy (finish_write written o') \<longrightarrow> bo_healthy o' \<and> dropped = [])"
  by (auto simp: output_inv_def stream_of_def in_flight_def finish_write_def Fail_output_def Let_def
      split: option.splits)

lemma output_step_stream:
  assumes "output_inv o'"
  shows "output_ok o' op (fst (output_step op o'))"
proof (cases op)
  case (O_Finish w)
  then show ?thesis using finish_write_stream [OF assms, of w] by (auto simp: output_ok_def)
next
  case O_Take
  then show ?thesis
    using take_pending_in_flight [of o']
    by (auto simp: output_ok_def stream_of_def take_pending_def split: list.splits)
next
  case (O_Report f)
  then show ?thesis using Enqueue_stream [of f _ _ _ _ o' "fst (output_step op o')" "snd (output_step op o')"]
    by (simp add: output_ok_def EnqueueReport_def)
next
  case (O_Control f)
  then show ?thesis using Enqueue_stream [of f _ _ _ _ o' "fst (output_step op o')" "snd (output_step op o')"]
    by (simp add: output_ok_def EnqueueControl_def)
next
  case (O_Reply f)
  then show ?thesis using Enqueue_stream [of f _ _ _ _ o' "fst (output_step op o')" "snd (output_step op o')"]
    by (simp add: output_ok_def EnqueueReply_def)
next
  case O_Stop
  then show ?thesis by (simp add: output_ok_def Stop_output_def stream_of_def in_flight_def)
qed

interpretation output_machine: machine output_step output_inv output_ok
  by unfold_locales (simp_all add: output_step_inv output_step_stream)

lemma mk_output_inv: "output_inv mk_output"
proof -
  have "class_ok c mk_output" for c by (cases c) (simp_all add: class_ok_def mk_output_def in_flight_def)
  then show ?thesis by (simp add: output_inv_def) (simp add: mk_output_def)
qed

text \<open>A writer that has failed accepts nothing, and stays failed.\<close>

lemma output_step_failed:
  assumes "output_inv o'" "\<not> bo_healthy o'"
  shows "\<not> bo_healthy (snd (output_step op o'))" "accepted_frames [op] [fst (output_step op o')] = []"
  using assms by (cases op; auto simp: EnqueueReport_def EnqueueControl_def EnqueueReply_def Enqueue_def
      Stop_output_def take_pending_def finish_write_def Fail_output_def Let_def
      split: list.splits option.splits)+

lemma accepted_frames_Cons:
  "accepted_frames (op # ops) (r # rs) = accepted_frames [op] [r] @ accepted_frames ops rs"
  by (cases op) simp_all

lemma output_run_failed:
  assumes "output_inv o'" "\<not> bo_healthy o'"
  shows "\<not> bo_healthy (snd (run_ops output_step o' ops)) \<and>
    accepted_frames ops (fst (run_ops output_step o' ops)) = []"
  using assms
proof (induction ops arbitrary: o')
  case (Cons op ops)
  show ?case
    using Cons.IH [OF output_step_inv [OF Cons.prems(1)] output_step_failed(1) [OF Cons.prems]]
      output_step_failed(2) [OF Cons.prems] accepted_frames_Cons [of op ops]
    by (simp add: case_prod_beta Let_def)
qed simp

lemma output_run_stream:
  assumes "output_inv o'"
  shows "\<exists>dropped. stream_of o' @ accepted_frames ops (fst (run_ops output_step o' ops)) =
      stream_of (snd (run_ops output_step o' ops)) @ dropped \<and>
      (bo_healthy (snd (run_ops output_step o' ops)) \<longrightarrow> dropped = [])"
  using assms
proof (induction ops arbitrary: o')
  case (Cons op ops)
  let ?s = "snd (output_step op o')" let ?t = "snd (run_ops output_step ?s ops)"
  let ?a = "accepted_frames ops (fst (run_ops output_step ?s ops))"
  note inv = output_step_inv [OF Cons.prems, of op]
  obtain d1 where d1: "stream_of o' @ accepted_frames [op] [fst (output_step op o')] = stream_of ?s @ d1"
      "bo_healthy ?s \<longrightarrow> d1 = []"
    using output_step_stream [OF Cons.prems, of op] unfolding output_ok_def by blast
  obtain d2 where d2: "stream_of ?s @ ?a = stream_of ?t @ d2" "bo_healthy ?t \<longrightarrow> d2 = []"
    using Cons.IH [OF inv] by blast
  show ?case
  proof (cases "bo_healthy ?s")
    case True
    then have "stream_of o' @ accepted_frames [op] [fst (output_step op o')] @ ?a = stream_of ?t @ d2"
      using d1 d2(1) by (metis append_assoc append_Nil2)
    then show ?thesis using d2(2) accepted_frames_Cons [of op ops]
      by (auto simp: case_prod_beta Let_def)
  next
    case False
    then show ?thesis using d1 output_run_failed [OF inv False] accepted_frames_Cons [of op ops] d2
      by (simp add: case_prod_beta Let_def)
  qed
qed simp

text \<open>Whatever the interleaving of the callers with the writer thread and whatever writes
  fail, the reserved frames and bytes of every class stay within 64 frames and 1 MiB of reports, 256
  frames and 1 MiB of control and 64 frames and 8 MiB of replies, they never undercount what is still
  unwritten (so that no reservation wraps when it is released), and they equal it exactly while the
  writer is healthy.  The failure callback has been made once when the writer has failed and never
  before.\<close>

theorem output_bounds:
  "case snd (run_ops output_step mk_output ops) of o' \<Rightarrow>
     unat (frames_of c o') \<le> maximum_frames c \<and> unat (bytes_of c o') \<le> maximum_bytes c \<and>
     frames_charge c (in_flight o') \<le> unat (frames_of c o') \<and>
     bytes_charge c (in_flight o') \<le> unat (bytes_of c o') \<and>
     (\<not> bo_healthy o' \<or> frames_charge c (in_flight o') = unat (frames_of c o') \<and>
        bytes_charge c (in_flight o') = unat (bytes_of c o')) \<and>
     bo_failure_calls o' = (if bo_healthy o' then 0 else 1)"
  using output_machine.run_inv [OF mk_output_inv, of ops]
  by (simp add: output_inv_def class_ok_def)

text \<open>A report and a reply, the report being written.\<close>

lemma output_bounds_witness:
  "\<exists>o'. o' = snd (run_ops output_step mk_output [O_Report ''r'', O_Reply ''answer'', O_Take]) \<and>
     in_flight o' = [(''r'', OC_Report), (''answer'', OC_Reply)] \<and> bo_healthy o' \<and>
     unat (bytes_of OC_Reply o') = 7 \<and> bo_failure_calls o' = 0"
proof -
  define o' where "o' = snd (run_ops output_step mk_output [O_Report ''r'', O_Reply ''answer'', O_Take])"
  have "in_flight o' = [(''r'', OC_Report), (''answer'', OC_Reply)]" "bo_healthy o'"
    by (simp_all add: o'_def mk_output_def EnqueueReport_def EnqueueReply_def Enqueue_def Let_def
        kMaximumFrameBytes_def take_pending_def in_flight_def)
  then show ?thesis
    using output_bounds [of OC_Reply "[O_Report ''r'', O_Reply ''answer'', O_Take]"]
    unfolding o'_def [symmetric] by simp
qed

text \<open>Property C36. The writer is a queue: for any interleaving of calls and writes the frames it has
  written are a prefix of the frames whose call was answered true, in the order of the calls; while it
  is healthy, written, being written and pending frames together are exactly those frames, so that an
  accepted frame is lost only by a failure.\<close>

theorem output_fifo:
  "case run_ops output_step mk_output ops of (results, o') \<Rightarrow>
     \<exists>dropped. accepted_frames ops results =
       bo_written o' @ map fst (in_flight o') @ dropped \<and> (bo_healthy o' \<longrightarrow> dropped = [])"
  using output_run_stream [OF mk_output_inv, of ops]
  by (simp add: stream_of_def case_prod_beta) (simp add: mk_output_def in_flight_def)

text \<open>A report that has been written and a reply that is being written.\<close>

lemma output_fifo_witness:
  "case run_ops output_step mk_output [O_Report ''a'', O_Reply ''b'', O_Take, O_Finish True, O_Take] of
     (results, o') \<Rightarrow> bo_healthy o' \<and> [''a'', ''b''] = bo_written o' @ map fst (in_flight o')"
proof -
  let ?ops = "[O_Report ''a'', O_Reply ''b'', O_Take, O_Finish True, O_Take]"
  obtain rs o' where r: "run_ops output_step mk_output ?ops = (rs, o')" by fastforce
  then have "rs = [True, True, True, True, True]" "bo_healthy o'"
    by (auto simp: mk_output_def EnqueueReport_def EnqueueReply_def Enqueue_def Let_def
        kMaximumFrameBytes_def take_pending_def in_flight_def finish_write_def)
  then show ?thesis using output_fifo [of ?ops] r by auto
qed

section \<open>Stopping\<close>

text \<open>The worker alone, with a stream that takes every write: one iteration of its loop.\<close>

fun drain :: "nat \<Rightarrow> output_op list" where
  "drain 0 = [O_Finish True, O_Take]"
| "drain (Suc n) = O_Finish True # O_Take # drain n"

lemma drain_exits:
  assumes "bo_healthy o'" "bo_stopping o'" "\<not> bo_exited o'"
    "length (bo_pending o') = n"
  shows "case snd (run_ops output_step o' (drain n)) of o'' \<Rightarrow>
    bo_exited o'' \<and> bo_healthy o'' \<and> in_flight o'' = [] \<and> bo_written o'' = stream_of o'"
  using assms
proof (induction n arbitrary: o')
  case 0
  then show ?case
    by (auto simp: finish_write_def take_pending_def stream_of_def in_flight_def Let_def split: option.splits)
next
  case (Suc n)
  obtain p ps where ps: "bo_pending o' = p # ps" "length ps = n" using Suc.prems(4) by (cases "bo_pending o'") auto
  let ?o1 = "take_pending (finish_write True o')"
  have "bo_healthy ?o1" "bo_stopping ?o1" "\<not> bo_exited ?o1" "bo_pending ?o1 = ps" "stream_of ?o1 = stream_of o'"
    using Suc.prems ps
    by (auto simp: finish_write_def take_pending_def stream_of_def in_flight_def Let_def split: option.splits)
  then show ?case using Suc.IH [of ?o1] ps(2) by (simp add: case_prod_beta Let_def)
qed

text \<open>Stopping is graceful: \<open>Stop\<close> on a healthy writer whose stream takes the remaining
  writes returns, because the worker leaves its loop, after at most one iteration per queued frame and
  one more, and then every frame ever accepted has been written.\<close>

theorem stop_drains:
  assumes "bo_healthy o'" "\<not> bo_exited o'"
  shows "case snd (run_ops output_step o' (O_Stop # drain (length (bo_pending o')))) of o'' \<Rightarrow>
    bo_exited o'' \<and> bo_healthy o'' \<and> in_flight o'' = [] \<and>
    bo_written o'' = bo_written o' @ map fst (in_flight o')"
  using drain_exits [of "Stop_output o'"] assms
  by (simp add: Stop_output_def case_prod_beta Let_def stream_of_def in_flight_def)

lemma stop_drains_witness:
  "case snd (run_ops output_step (mk_output\<lparr>bo_pending := [(''a'', OC_Reply), (''b'', OC_Control)],
       bo_control_frames := 1, bo_control_bytes := 2, bo_reply_frames := 1, bo_reply_bytes := 2\<rparr>)
       (O_Stop # drain 2)) of o'' \<Rightarrow> bo_exited o'' \<and> bo_written o'' = [''a'', ''b'']"
  using stop_drains [of "mk_output\<lparr>bo_pending := [(''a'', OC_Reply), (''b'', OC_Control)],
       bo_control_frames := 1, bo_control_bytes := 2, bo_reply_frames := 1, bo_reply_bytes := 2\<rparr>"]
  by (simp add: mk_output_def in_flight_def numeral_2_eq_2 case_prod_beta)

text \<open>The worker's iterations after \<open>Stop\<close>, with any results of its writes: it leaves its loop after at most one
  iteration per frame in flight and one more.  At most 384 frames are in flight.\<close>

definition worker_rounds :: "bool list \<Rightarrow> output_op list" where
  "worker_rounds results = concat (map (\<lambda>written. [O_Finish written, O_Take]) results)"

lemma worker_rounds_simps [simp]:
  "worker_rounds [] = []" "worker_rounds (b # bs) = O_Finish b # O_Take # worker_rounds bs"
  by (simp_all add: worker_rounds_def)

lemma exited_stays:
  "output_inv o' \<Longrightarrow> bo_exited o' \<Longrightarrow> bo_exited (snd (run_ops output_step o' (worker_rounds bs)))"
proof (induction bs)
  case (Cons b bs)
  then have "finish_write b o' = o'" "take_pending o' = o'"
    by (simp_all add: output_inv_def finish_write_def take_pending_def)
  then show ?case using Cons by (simp add: case_prod_beta Let_def)
qed simp

lemma worker_exits:
  assumes "output_inv o'" "bo_stopping o'" "length (bo_pending o') < length bs"
  shows "bo_exited (snd (run_ops output_step o' (worker_rounds bs)))"
  using assms
proof (induction bs arbitrary: o')
  case (Cons b bs)
  let ?o1 = "take_pending (finish_write b o')"
  have inv: "output_inv ?o1" using Cons.prems(1) by (intro take_pending_inv finish_write_inv)
  have "bo_exited ?o1 \<or> bo_stopping ?o1 \<and> length (bo_pending ?o1) < length bs"
    using Cons.prems(2,3)
    by (cases "bo_pending o'") (auto simp: finish_write_def take_pending_def Let_def Fail_output_def split: option.split)
  then have "bo_exited (snd (run_ops output_step ?o1 (worker_rounds bs)))"
    using exited_stays [OF inv] Cons.IH [OF inv] by blast
  then show ?case by (simp add: case_prod_beta Let_def)
qed simp

lemma in_flight_bound: "output_inv o' \<Longrightarrow> length (in_flight o') \<le> 384"
proof -
  assume inv: "output_inv o'"
  have split: "length ps = frames_charge OC_Report ps + frames_charge OC_Control ps + frames_charge OC_Reply ps" for ps
  proof (induction ps)
    case (Cons p ps)
    then show ?case by (cases "snd p") simp_all
  qed simp
  have "frames_charge c (in_flight o') \<le> maximum_frames c" for c
    using inv by (auto simp: output_inv_def class_ok_def intro: le_trans)
  from this [of OC_Report] this [of OC_Control] this [of OC_Reply] show ?thesis
    by (simp add: split [of "in_flight o'"])
qed

section \<open>ReadLineBounded\<close>

lemma read_line_loop_spec:
  assumes "length line \<le> 131071"
  shows "read_line_loop line input =
    (let l = takeWhile (\<lambda>b. b \<noteq> CHR 0x0A) input; room = 131071 - length line
     in if length l > room then (False, line @ take room l, drop (room + 1) input, False)
        else if CHR 0x0A \<in> set input then (True, line @ l, drop (length l + 1) input, False)
        else (line @ l = [], line @ l, [], True))"
  using assms
proof (induction line input rule: read_line_loop.induct)
  case (2 line byte input)
  then show ?case
    by (auto simp: kMaximumFrameBytes_def Let_def Suc_diff_le take_Cons' drop_Cons' not_le
        simp flip: Suc_diff_Suc)
qed simp

text \<open>\<open>ReadLineBounded\<close> returns the bytes before the next newline and consumes the newline
  when there are at most 131071 of them; it answers false, after reading one byte more than that, when
  the line is longer, and at the end of the stream it answers true only when no byte is left over.\<close>

theorem ReadLineBounded_spec:
  "ReadLineBounded input =
    (let l = takeWhile (\<lambda>b. b \<noteq> CHR 0x0A) input
     in if length l > 131071 then (False, take 131071 l, drop 131072 input, False)
        else if CHR 0x0A \<in> set input then (True, l, drop (length l + 1) input, False)
        else (l = [], l, [], True))"
  using read_line_loop_spec [of "[]" input]
  by (simp only: ReadLineBounded_def list.size append_Nil diff_zero Let_def) simp

end
