(* ===== verification/HostRun.thy ===== *)
theory HostRun
  imports HostContract BoundedIO
begin

text \<open>
  \<open>RunHost\<close> of \<^verbatim>\<open>native/src/protocol.cpp\<close>: the loop that reads lines, hands them to the session, enqueues
  the answers, and the control pump through which a waiting backend operation handles further lines.

  The schedule of a run is data.  A turn says what the input delivers next, what the backend answers,
  and what happens meanwhile: events of the backend and of the writer's thread, and, at the points of a
  handler where the backend waits, calls of the pump with turns of their own.
\<close>

section \<open>The state of the loop\<close>

record host_io =
  io_writer :: BoundedOutput
  io_running :: bool
  io_invalid_input :: bool
  io_dispatch_failed :: bool

type_synonym host = "host_io HostProtocol"

abbreviation io_of :: "host \<Rightarrow> host_io" where
  "io_of h \<equiv> ch_out (hp_channel h)"

abbreviation writer_of :: "host \<Rightarrow> BoundedOutput" where
  "writer_of h \<equiv> io_writer (io_of h)"

definition set_io :: "host_io \<Rightarrow> host \<Rightarrow> host" where
  "set_io io h = h\<lparr>hp_channel := (hp_channel h)\<lparr>ch_out := io\<rparr>\<rparr>"

text \<open>\<open>std::string::find\<close> is not \<open>npos\<close>.\<close>

definition occurs :: "string \<Rightarrow> string \<Rightarrow> bool" where
  "occurs pattern text \<longleftrightarrow>
     list_ex (\<lambda>i. take (length pattern) (drop i text) = pattern) [0..<Suc (length text)]"

definition report_marker :: string where
  "report_marker = [CHR 0x22] @ ''event'' @ [CHR 0x22, CHR '':'', CHR 0x22] @ ''subscription_report'' @ [CHR 0x22]"

definition host_sink :: "host_io transmit" where
  "host_sink frame io =
     (case (if occurs report_marker frame then EnqueueReport frame (io_writer io)
            else EnqueueControl frame (io_writer io)) of
        (ok, w) \<Rightarrow> (ok, io\<lparr>io_writer := w\<rparr>))"

section \<open>Schedules\<close>

datatype event =
  E_Report SubscriptionReport
| E_Status SubscriptionStatus
| E_Failure string u64 InteractionError
| E_Take
| E_Finish bool

datatype action = A_Event event | A_Pump "turn list"
  and turn = Turn (turn_input: InputResult) (turn_answers: backend_answers) (turn_activated: bool)
    (turn_gaps: "action list list") (turn_waiting: "event list") (turn_answering: "event list")
    (turn_activating: "event list")

definition write_step :: "output_op \<Rightarrow> host \<Rightarrow> bool \<times> host" where
  "write_step op h =
     (case output_step op (writer_of h) of (ok, w) \<Rightarrow> (ok, set_io ((io_of h)\<lparr>io_writer := w\<rparr>) h))"

fun run_event :: "json_library \<Rightarrow> event \<Rightarrow> host \<Rightarrow> host" where
  "run_event L (E_Report r) h = snd (EmitReport L host_sink r h)"
| "run_event L (E_Status s) h = snd (EmitStatus L host_sink s h)"
| "run_event L (E_Failure i g e) h = EmitFailure L host_sink i g e h"
| "run_event L E_Take h = snd (write_step O_Take h)"
| "run_event L (E_Finish written) h = snd (write_step (O_Finish written) h)"

definition run_events :: "json_library \<Rightarrow> event list \<Rightarrow> host \<Rightarrow> host" where
  "run_events L es h = fold (run_event L) es h"

section \<open>Dispatching a line\<close>

definition dispatch_fails :: "host \<Rightarrow> host" where
  "dispatch_fails h = set_io ((io_of h)\<lparr>io_dispatch_failed := True, io_running := False\<rparr>) h"

text \<open>What \<open>dispatch\<close> does with the result of \<open>ProcessLine\<close>.\<close>

definition answer_line :: "json_library \<Rightarrow> turn \<Rightarrow> ProcessResult \<Rightarrow> host \<Rightarrow> host" where
  "answer_line L t result h =
     (if \<not> io_running (io_of h) then h
      else if \<not> healthy h \<or> \<not> bo_healthy (writer_of h) then dispatch_fails h
      else
        case (case pc_frame result of None \<Rightarrow> (True, h) | Some frame \<Rightarrow> write_step (O_Reply frame) h) of
          (False, h1) \<Rightarrow> dispatch_fails h1
        | (True, h1) \<Rightarrow>
            let h2 = run_events L (turn_activating t) h1
            in case (case pc_activate_subscription result of
                       None \<Rightarrow> (True, h2)
                     | Some (i, g) \<Rightarrow> ActivateSubscription (turn_activated t) i g h2) of
                 (False, h3) \<Rightarrow> dispatch_fails h3
               | (True, h3) \<Rightarrow> set_io ((io_of h3)\<lparr>io_running := pc_keep_running result\<rparr>) h3)"

definition input_ends :: "InputResult \<Rightarrow> host \<Rightarrow> host" where
  "input_ends r h = set_io ((io_of h)\<lparr>io_invalid_input := (r = IR_Invalid)\<rparr>) h"

lemma size_gap: "k < length (turn_gaps t) \<Longrightarrow> size_list size (turn_gaps t ! k) < size t"
proof -
  assume "k < length (turn_gaps t)"
  then have "turn_gaps t ! k \<in> set (turn_gaps t)" by simp
  then have "size_list size (turn_gaps t ! k) \<le> size_list (size_list size) (turn_gaps t)"
    by (rule size_list_estimation') simp
  then show ?thesis by (cases t) simp
qed

text \<open>The pump handles at most 16 lines.\<close>

function (sequential)
  dispatch :: "json_library \<Rightarrow> turn \<Rightarrow> string \<Rightarrow> host \<Rightarrow> host" and
  run_actions :: "json_library \<Rightarrow> action list \<Rightarrow> host \<Rightarrow> host" and
  pump_loop :: "json_library \<Rightarrow> nat \<Rightarrow> turn list \<Rightarrow> host \<Rightarrow> host"
where
  "dispatch L t l h =
     (case ProcessLine L host_sink (turn_answers t)
             (\<lambda>k x. if k < length (turn_gaps t) then run_actions L (turn_gaps t ! k) x else x) l h of
        (result, h1) \<Rightarrow> answer_line L t result (run_events L (turn_answering t) h1))"
| "run_actions L [] h = h"
| "run_actions L (A_Event e # as) h = run_actions L as (run_event L e h)"
| "run_actions L (A_Pump ts # as) h =
     run_actions L as
       (let h1 = pump_loop L 16 ts h
        in if \<not> io_running (io_of h1) \<or> \<not> bo_healthy (writer_of h1) \<or> \<not> healthy h1 then RequestClose h1 else h1)"
| "pump_loop L (Suc n) (t # ts) h =
     (if \<not> io_running (io_of h) then h
      else case turn_input t of
        IR_Waiting \<Rightarrow> h
      | IR_Line l \<Rightarrow> pump_loop L n ts (dispatch L t l h)
      | r \<Rightarrow> (let h1 = input_ends r h in set_io ((io_of h1)\<lparr>io_running := False\<rparr>) h1))"
| "pump_loop L _ _ h = h"
  by pat_completeness auto

termination
  by (relation "measure (case_sum (\<lambda>(L, t, l, h). size t)
        (case_sum (\<lambda>(L, as, h). size_list size as) (\<lambda>(L, n, ts, h). size_list size ts)))")
    (auto simp: size_gap)

declare dispatch.simps [simp del] run_actions.simps [simp del] pump_loop.simps [simp del]

section \<open>The main loop\<close>

definition loop_condition :: "host \<Rightarrow> bool" where
  "loop_condition h \<longleftrightarrow> io_running (io_of h) \<and> bo_healthy (writer_of h) \<and> healthy h"

text \<open>\<open>None\<close>: the schedule is used up and the loop still waits for input.  A stream without a descriptor is the case in which
  every turn is a line or the end.\<close>

fun host_loop :: "json_library \<Rightarrow> turn list \<Rightarrow> host \<Rightarrow> host option" where
  "host_loop L [] h = (if \<not> loop_condition h then Some h else None)"
| "host_loop L (t # ts) h =
     (if \<not> loop_condition h then Some h
      else let h1 = run_events L (turn_waiting t) h
           in case turn_input t of
                IR_Waiting \<Rightarrow> host_loop L ts h1
              | IR_Line l \<Rightarrow> host_loop L ts (dispatch L t l h1)
              | r \<Rightarrow> Some (input_ends r h1))"

definition start_host :: "json_library \<Rightarrow> bool \<times> host" where
  "start_host L =
     write_step (O_Control (ReadyFrame L))
       (mk_protocol \<lparr>io_writer = mk_output, io_running = True, io_invalid_input = False, io_dispatch_failed = False\<rparr>)"

definition exit_code :: "host \<Rightarrow> nat" where
  "exit_code h =
     (if \<not> io_invalid_input (io_of h) \<and> \<not> io_dispatch_failed (io_of h) \<and> bo_healthy (writer_of h) \<and> healthy h
      then 0 else 1)"

text \<open>\<open>Stop\<close> returns when the worker, whose remaining steps are \<open>ws\<close>, has left its loop.\<close>

definition stop_writer :: "output_op list \<Rightarrow> host \<Rightarrow> host option" where
  "stop_writer ws h =
     (let w = snd (run_ops output_step (Stop_output (writer_of h)) ws)
      in if bo_exited w then Some (set_io ((io_of h)\<lparr>io_writer := w\<rparr>) h) else None)"

definition RunHost :: "json_library \<Rightarrow> backend_answers \<Rightarrow> turn list \<Rightarrow> output_op list \<Rightarrow> (nat \<times> host) option" where
  "RunHost L a ts ws =
     (case start_host L of
        (False, h) \<Rightarrow> map_option (\<lambda>h'. (1, h')) (stop_writer ws (Close a h))
      | (True, h) \<Rightarrow>
          (case host_loop L ts h of
             None \<Rightarrow> None
           | Some h1 \<Rightarrow> map_option (\<lambda>h2. (exit_code h2, h2)) (stop_writer ws (Close a h1))))"

section \<open>The writer over a run\<close>

text \<open>The state of the sink changes only through steps of the writer.\<close>

definition writer_steps :: "host_io \<Rightarrow> host_io \<Rightarrow> bool" where
  "writer_steps io io' \<longleftrightarrow> (\<exists>ops. io_writer io' = snd (run_ops output_step (io_writer io) ops))"

lemma writer_stepsI: "io_writer io' = snd (output_step op (io_writer io)) \<Longrightarrow> writer_steps io io'"
  unfolding writer_steps_def by (rule exI [of _ "[op]"]) (simp add: case_prod_beta)

lemma writer_steps_same: "io_writer io' = io_writer io \<Longrightarrow> writer_steps io io'"
  unfolding writer_steps_def by (rule exI [of _ "[]"]) simp

interpretation host_env: sink_env host_sink writer_steps
proof unfold_locales
  show "writer_steps io io" for io by (simp add: writer_steps_same)
  show "writer_steps io1 io3" if "writer_steps io1 io2" "writer_steps io2 io3" for io1 io2 io3
  proof -
    obtain ops1 ops2 where "io_writer io2 = snd (run_ops output_step (io_writer io1) ops1)"
        "io_writer io3 = snd (run_ops output_step (io_writer io2) ops2)"
      using \<open>writer_steps io1 io2\<close> \<open>writer_steps io2 io3\<close> by (auto simp: writer_steps_def)
    then show ?thesis
      unfolding writer_steps_def by (intro exI [of _ "ops1 @ ops2"]) (simp add: run_ops_append case_prod_beta Let_def)
  qed
  show "writer_steps io (snd (host_sink f io))" for io f
    by (rule writer_stepsI [of _ "if occurs report_marker f then O_Report f else O_Control f"])
      (simp add: host_sink_def case_prod_beta)
qed

section \<open>Every part of a run keeps the session's invariant\<close>

lemma set_io_steps: "writer_steps (io_of h) io \<Longrightarrow> steps writer_steps n X h (set_io io h)"
  unfolding set_io_def by (rule host_env.channel_steps) (simp add: channel_evolves_def channel_ok_def)

lemma flags_steps: "io_writer io = writer_of h \<Longrightarrow> steps writer_steps n X h (set_io io h)"
  by (simp add: set_io_steps writer_steps_same)

lemma write_step_steps: "steps writer_steps n X h (snd (write_step op h))"
  by (simp add: write_step_def case_prod_beta) (rule set_io_steps, rule writer_stepsI, simp)

lemma run_event_steps: "steps writer_steps n X h (run_event L e h)"
  by (cases e) (simp_all add: host_env.EmitReport_steps host_env.EmitStatus_steps host_env.EmitFailure_steps write_step_steps)

lemma run_events_steps: "steps writer_steps n X h (run_events L es h)"
  unfolding run_events_def
proof (induction es arbitrary: h)
  case (Cons e es)
  from host_env.steps_trans [OF run_event_steps Cons.IH] show ?case by simp
qed simp

lemma dispatch_fails_steps: "steps writer_steps n X h (dispatch_fails h)"
  unfolding dispatch_fails_def by (rule flags_steps) simp

text \<open>A subscription is activated only by a line that left one registered.\<close>

lemma subscribe_activates:
  assumes "subscribe_request L a gap request h = (r, h')" "pc_activate_subscription r \<noteq> None"
  shows "hp_subscriptions h' \<noteq> []"
  using assms
  by (auto simp: subscribe_request_def Let_def reply_def no_result_def admit_stream_def emplace_subscription_def
      put_subscription_def AddStream_def split: option.splits if_splits bool.splits prod.splits)

lemma reply_activates [simp]: "pc_activate_subscription (reply k f) = None" "pc_activate_subscription no_result = None"
  by (simp_all add: reply_def no_result_def)

lemma other_requests_do_not_activate:
  "pc_activate_subscription (fst (flow_open a request h)) = None"
  "pc_activate_subscription (fst (report_ack sink a request h)) = None"
  "pc_activate_subscription (fst (open_request L a gap request h)) = None"
  "pc_activate_subscription (fst (commission_request L a gap request h)) = None"
  "pc_activate_subscription (fst (window_request L a gap request h)) = None"
  "pc_activate_subscription (fst (unsubscribe_request L sink a gap request h)) = None"
  by (simp_all add: flow_open_def report_ack_def open_request_def commission_request_def window_request_def
      unsubscribe_request_def Let_def split: option.split prod.split bool.split)

lemma interaction_does_not_activate:
  "pc_activate_subscription (fst (interaction_request L a gap request operation h)) = None"
  unfolding interaction_request_def Let_def if_distrib [of fst] fst_conv option.case_distrib [of fst]
    if_distrib [of pc_activate_subscription] option.case_distrib [of pc_activate_subscription] reply_activates
    option.case_eq_if if_cancel ..

lemma open_dispatch_activates:
  "pc_activate_subscription (fst (open_dispatch L sink a gap request h)) \<noteq> None \<Longrightarrow>
   open_dispatch L sink a gap request h = subscribe_request L a gap request h"
  unfolding open_dispatch_def Let_def
  by (simp add: other_requests_do_not_activate interaction_does_not_activate split: if_split_asm)

lemma ProcessLineImpl_activates:
  assumes "pc_activate_subscription (fst (ProcessLineImpl L sink a gap l h)) \<noteq> None"
  shows "\<exists>request h0. ProcessLineImpl L sink a gap l h = open_dispatch L sink a gap request h0"
proof -
  obtain request where "ParseBounded (jl_sax L) (jl_parse L) l = Some request" "healthy h"
    using assms by (auto simp: ProcessLineImpl_def split: option.splits if_split_asm)
  moreover from this assms have "hp_state h \<noteq> State_AwaitFlow" "\<not> (hp_state h = State_Open \<and> ExactKeys request ack_keys)"
    by (auto simp: ProcessLineImpl_def other_requests_do_not_activate)
  ultimately show ?thesis
    using assms unfolding ProcessLineImpl_def Let_def
    by (cases "ValidRequestEnvelope request")
      (simp_all add: other_requests_do_not_activate split: if_split_asm, blast+)
qed

lemma ProcessLine_activates:
  assumes "ProcessLine L sink a gap l h = (r, h')" "pc_activate_subscription r \<noteq> None"
  shows "hp_subscriptions h' \<noteq> []"
proof -
  let ?h = "h\<lparr>hp_processing_depth := hp_processing_depth h + 1\<rparr>"
  obtain r1 h1 where impl: "ProcessLineImpl L sink a gap l ?h = (r1, h1)" by fastforce
  have r: "r1 = r" "h' = h1\<lparr>hp_processing_depth := hp_processing_depth h1 - 1\<rparr>"
    using assms impl by (auto simp: ProcessLine_def Let_def split: if_splits)
  obtain request h0 where "open_dispatch L sink a gap request h0 = (r, h1)"
    using ProcessLineImpl_activates [of L sink a gap l ?h] assms(2) impl r(1) by auto
  then have "subscribe_request L a gap request h0 = (r, h1)"
    using open_dispatch_activates [of L sink a gap request h0] assms(2) by simp
  then show ?thesis using subscribe_activates assms(2) r(2) by fastforce
qed

text \<open>Working: the backend has been opened and the session is not closed.\<close>

definition at_work :: "host \<Rightarrow> bool" where
  "at_work h \<longleftrightarrow> hp_state h \<noteq> State_Closed \<and> hp_calls h \<noteq> []"

lemma at_work_kept:
  assumes "steps writer_steps 0 X h h'" "hp_inv X h" "at_work h"
  shows "at_work h'"
  using assms by (auto simp: steps_def unclosed_def evolves_def at_work_def)

lemma answer_line_steps:
  assumes "pc_activate_subscription r \<noteq> None \<Longrightarrow> at_work h"
  shows "steps writer_steps n X h (answer_line L t r h)"
proof (rule host_env.steps_bind [OF host_env.steps_refl])
  assume inv: "hp_inv X h"
  obtain ok1 h1 where w: "(case pc_frame r of None \<Rightarrow> (True, h) | Some frame \<Rightarrow> write_step (O_Reply frame) h) = (ok1, h1)"
    by fastforce
  have h1: "steps writer_steps k X h h1" for k
    using w write_step_steps [of k X h] by (cases "pc_frame r") (simp_all, metis snd_conv)
  let ?h2 = "run_events L (turn_activating t) h1"
  have h2: "steps writer_steps k X h ?h2" for k by (rule host_env.steps_trans [OF h1 run_events_steps])
  obtain ok3 h3 where a: "(case pc_activate_subscription r of None \<Rightarrow> (True, ?h2)
      | Some (i, g) \<Rightarrow> ActivateSubscription (turn_activated t) i g ?h2) = (ok3, h3)" by fastforce
  have "steps writer_steps n X ?h2 h3"
  proof (cases "pc_activate_subscription r")
    case None
    then show ?thesis using a by simp
  next
    case (Some ig)
    then have "at_work ?h2" using at_work_kept [OF h2 inv] assms by simp
    then have "steps writer_steps n X ?h2 (snd (ActivateSubscription (turn_activated t) i g ?h2))" for i g
      by (intro host_env.ActivateSubscription_steps) (simp add: at_work_def)
    then show ?thesis using a Some by (cases ig) (simp, metis snd_conv)
  qed
  then have h3: "steps writer_steps n X h h3" by (rule host_env.steps_trans [OF h2])
  have "steps writer_steps n X h (dispatch_fails h)" "steps writer_steps n X h (dispatch_fails h1)"
    "steps writer_steps n X h (dispatch_fails h3)" "steps writer_steps n X h (set_io ((io_of h3)\<lparr>io_running := b\<rparr>) h3)" for b
    using host_env.steps_trans [OF h1 dispatch_fails_steps] host_env.steps_trans [OF h3 dispatch_fails_steps]
      host_env.steps_trans [OF h3 flags_steps] dispatch_fails_steps by simp_all
  then show "steps writer_steps n X h (answer_line L t r h)"
    using w a by (simp add: answer_line_def Let_def split: bool.split)
qed

lemma run_steps:
  "steps writer_steps 1 X h (dispatch L t l h)"
  "steps writer_steps 1 Y h (run_actions L as h)"
  "steps writer_steps 1 Z h (pump_loop L n ts h)"
proof (induction L t l h and L as h and L n ts h arbitrary: X and Y and Z rule: dispatch_run_actions_pump_loop.induct)
  case (1 L t l h)
  let ?gap = "\<lambda>k x. if k < length (turn_gaps t) then run_actions L (turn_gaps t ! k) x else x"
  have gap: "gap_ok writer_steps ?gap" using "1.IH" by (simp add: gap_ok_def)
  obtain r h1 where line: "ProcessLine L host_sink (turn_answers t) ?gap l h = (r, h1)" by fastforce
  let ?h2 = "run_events L (turn_answering t) h1"
  have h1: "steps writer_steps 1 X h h1"
    using host_env.ProcessLine_steps [OF gap, of X h L "turn_answers t" l] line by simp
  have "steps writer_steps 1 X h (answer_line L t r ?h2)"
  proof (rule host_env.steps_bind [OF h1])
    assume inv: "hp_inv X h1"
    have "at_work ?h2" if "pc_activate_subscription r \<noteq> None"
      using at_work_kept [OF run_events_steps inv] host_env.registered_calls [OF _ ProcessLine_activates [OF line that]] inv
      by (simp add: hp_inv_def at_work_def)
    then show "steps writer_steps 1 X h1 (answer_line L t r ?h2)"
      by (intro host_env.steps_trans [OF run_events_steps answer_line_steps])
  qed
  then show ?case using line by (simp add: dispatch.simps)
next
  case (3 L e as h)
  from host_env.steps_trans [OF run_event_steps "3.IH"] show ?case by (simp add: run_actions.simps)
next
  case (4 L ts as h)
  let ?h1 = "pump_loop L 16 ts h"
  have "steps writer_steps 1 Y h (if b then RequestClose ?h1 else ?h1)" for b
    using "4.IH"(1) host_env.steps_trans [OF "4.IH"(1) host_env.RequestClose_steps] by simp
  from host_env.steps_trans [OF this "4.IH"(2) [unfolded Let_def]] show ?case by (simp add: run_actions.simps Let_def)
next
  case (5 L n t ts h)
  have "steps writer_steps 1 Z h (let h1 = input_ends r h in set_io ((io_of h1)\<lparr>io_running := False\<rparr>) h1)" for r
    unfolding Let_def input_ends_def by (intro host_env.steps_trans [OF flags_steps flags_steps]) (simp_all add: set_io_def)
  then show ?case
    using host_env.steps_trans [OF "5.IH"(1,2)] by (auto simp: pump_loop.simps split: InputResult.split)
qed (simp_all add: run_actions.simps pump_loop.simps)

lemma host_loop_steps: "host_loop L ts h = Some h' \<Longrightarrow> steps writer_steps 1 X h h'"
proof (induction L ts h rule: host_loop.induct)
  case (1 L h)
  then show ?case by (auto split: if_splits)
next
  case (2 L t ts h)
  let ?h1 = "run_events L (turn_waiting t) h"
  have h1: "steps writer_steps 1 X h ?h1" by (rule run_events_steps)
  have "steps writer_steps 1 X ?h1 (input_ends r ?h1)" for r
    unfolding input_ends_def by (rule flags_steps) simp
  then have ends: "steps writer_steps 1 X h (input_ends r ?h1)" for r using host_env.steps_trans [OF h1] by blast
  show ?case
  proof (cases "loop_condition h")
    case False
    then show ?thesis using "2.prems" by auto
  next
    case cond: True
    show ?thesis
    proof (cases "turn_input t")
      case (IR_Line l)
      then have "host_loop L ts (dispatch L t l ?h1) = Some h'" using "2.prems" cond by simp
      then have "steps writer_steps 1 X (dispatch L t l ?h1) h'" using "2.IH" cond IR_Line by simp
      then show ?thesis using host_env.steps_trans [OF host_env.steps_trans [OF h1 run_steps(1)]] by blast
    next
      case IR_Waiting
      then show ?thesis using "2.prems" "2.IH" cond host_env.steps_trans [OF h1] by simp
    qed (use "2.prems" cond ends in auto)
  qed
qed

lemma host_loop_ends:
  "list_ex (\<lambda>t. turn_input t = IR_End \<or> turn_input t = IR_Invalid) ts \<Longrightarrow> host_loop L ts h \<noteq> None"
  by (induction L ts h rule: host_loop.induct) (auto simp: Let_def split: InputResult.split)

text \<open>A host that has come through the loop, and one that could not even announce itself.\<close>

lemma start_host_run:
  assumes "start_host L = (ok, h)"
  shows "hp_inv {} h \<and> hp_processing_depth h = 0 \<and> writer_of h = snd (output_step (O_Control (ReadyFrame L)) mk_output) \<and>
    ok = fst (output_step (O_Control (ReadyFrame L)) mk_output)"
proof -
  let ?p = "mk_protocol \<lparr>io_writer = mk_output, io_running = True, io_invalid_input = False, io_dispatch_failed = False\<rparr>"
  have "hp_inv {} (snd (write_step op ?p))" for op
    using write_step_steps [of 0 "{}" ?p op] host_env.mk_protocol_inv [of "ch_out (hp_channel ?p)"] by (simp add: steps_def mk_protocol_def)
  moreover have h: "h = snd (write_step (O_Control (ReadyFrame L)) ?p)" "ok = fst (write_step (O_Control (ReadyFrame L)) ?p)"
    using assms by (simp_all add: start_host_def)
  ultimately show ?thesis
    by (simp add: h) (simp add: write_step_def set_io_def mk_protocol_def case_prod_beta)
qed

definition ready_ops :: "json_library \<Rightarrow> output_op list \<Rightarrow> output_op list" where
  "ready_ops L ops = O_Control (ReadyFrame L) # ops"

lemma run_before_close:
  assumes "start_host L = (True, h0)" "host_loop L ts h0 = Some h"
  shows "hp_inv {} h \<and> hp_processing_depth h = 0 \<and>
    (\<exists>ops. writer_of h = snd (run_ops output_step mk_output (ready_ops L ops)))"
proof -
  have h: "hp_inv {} h" "evolves writer_steps h0 h"
    using host_loop_steps [OF assms(2), of "{}"] start_host_run [OF assms(1)] by (simp_all add: steps_def)
  obtain ops where "writer_of h = snd (run_ops output_step (writer_of h0) ops)"
    using h(2) by (auto simp: evolves_def writer_steps_def)
  then show ?thesis
    using h start_host_run [OF assms(1)] by (auto simp: ready_ops_def evolves_def case_prod_beta Let_def)
qed

lemma Close_closed:
  assumes "hp_inv X h" "hp_processing_depth h = 0"
  shows "hp_state (Close a h) = State_Closed \<and> hp_report_flow (Close a h) = None \<and> hp_subscriptions (Close a h) = [] \<and>
    shut_down (hp_calls (Close a h)) \<and> hp_channel (Close a h) = hp_channel h"
proof -
  have inv: "hp_inv X (Close a h)" using free.Close_steps [of X h a] assms(1) by (simp add: steps_def)
  have closed: "hp_state (Close a h) = State_Closed" using assms(2) by (simp add: Close_def Let_def call_def)
  have "hp_channel (Close a h) = hp_channel h" using assms(2) by (simp add: Close_def Let_def call_def)
  then show ?thesis using closed_ok [OF inv closed] closed by simp
qed

lemma stop_writer_run:
  assumes "stop_writer ws h = Some h'" "writer_of h = snd (run_ops output_step w ops)"
  shows "writer_of h' = snd (run_ops output_step w (ops @ O_Stop # ws)) \<and> bo_exited (writer_of h') \<and>
    hp_state h' = hp_state h \<and> hp_report_flow h' = hp_report_flow h \<and> hp_subscriptions h' = hp_subscriptions h \<and>
    hp_calls h' = hp_calls h"
  using assms by (auto simp: stop_writer_def Let_def set_io_def run_ops_append case_prod_beta split: if_splits)

lemma RunHost_cases:
  assumes "RunHost L a ts ws = Some (code, h)"
  obtains h1 where "hp_inv {} h1" "hp_processing_depth h1 = 0" "stop_writer ws (Close a h1) = Some h"
    "\<exists>ops. writer_of h1 = snd (run_ops output_step mk_output (ready_ops L ops))"
    "code = 0 \<longrightarrow> start_host L = (True, snd (start_host L)) \<and> exit_code h = 0"
proof (cases "start_host L")
  case (Pair ok h0)
  show ?thesis
  proof (cases ok)
    case True
    then obtain h1 where "host_loop L ts h0 = Some h1" "stop_writer ws (Close a h1) = Some h" "code = exit_code h"
      using assms Pair by (auto simp: RunHost_def split: option.splits)
    then show ?thesis using that run_before_close [of L h0 ts h1] Pair True by auto
  next
    case False
    then have "stop_writer ws (Close a h0) = Some h" "code = 1" using assms Pair by (auto simp: RunHost_def)
    moreover have "writer_of h0 = snd (run_ops output_step mk_output (ready_ops L []))"
      using start_host_run [OF Pair] by (simp add: ready_ops_def case_prod_beta)
    ultimately show ?thesis using that start_host_run [OF Pair] by auto
  qed
qed

lemma host_loop_prefix:
  "list_ex (\<lambda>t. turn_input t = IR_End \<or> turn_input t = IR_Invalid) ts \<Longrightarrow>
   host_loop L (ts @ us) h = host_loop L ts h"
  by (induction L ts h rule: host_loop.induct) (auto simp: Let_def split: InputResult.split)

lemma RunHost_prefix:
  "list_ex (\<lambda>t. turn_input t = IR_End \<or> turn_input t = IR_Invalid) ts \<Longrightarrow>
   RunHost L a (ts @ us) ws = RunHost L a ts ws"
  unfolding RunHost_def by (simp only: host_loop_prefix)

lemma pump_loop_take: "pump_loop L n us h = pump_loop L n (take n us) h"
proof (induction n arbitrary: us h)
  case (Suc n)
  then show ?case
    by (cases us) (auto simp: pump_loop.simps split: InputResult.split)
qed (simp add: pump_loop.simps)

lemma stop_writer_returns:
  assumes "hp_inv {} h" "hp_processing_depth h = 0" "output_inv (writer_of h)" "384 < length results"
  shows "stop_writer (worker_rounds results) (Close a h) \<noteq> None"
proof -
  let ?w = "Stop_output (writer_of h)"
  have "writer_of (Close a h) = writer_of h" using Close_closed [OF assms(1,2)] by simp
  moreover have w: "output_inv ?w" "bo_stopping ?w"
    using assms(3) by (simp_all add: Stop_output_inv) (simp add: Stop_output_def)
  moreover have "length (bo_pending ?w) < length results"
    using in_flight_bound [OF w(1)] assms(4) by (simp add: in_flight_def)
  ultimately show ?thesis using worker_exits [OF w] by (simp add: stop_writer_def Let_def)
qed

section \<open>An example run\<close>

text \<open>The writer sends the ready frame while the host waits, and the input ends.\<close>

definition example_turn :: "InputResult \<Rightarrow> event list \<Rightarrow> turn" where
  "example_turn r es = Turn r example_answers True [] es [] []"

definition example_schedule :: "turn list" where
  "example_schedule = [example_turn IR_Waiting [E_Take, E_Finish True], example_turn IR_End []]"

lemma example_host_run: "\<exists>h. RunHost example_library example_answers example_schedule [O_Take] = Some (0, h)"
  by (simp add: RunHost_def start_host_def write_step_def example_schedule_def example_turn_def example_library_def
      ReadyFrame_def loop_condition_def healthy_def run_events_def input_ends_def set_io_def Close_def call_def Let_def
      stop_writer_def exit_code_def mk_protocol_def mk_output_def EnqueueControl_def Enqueue_def Stop_output_def
      take_pending_def finish_write_def)

section \<open>Properties\<close>

text \<open>
  Property C9. However the lines, the backend's answers and events, nested lines in the pump, and the writer's
  progress are scheduled, when the host returns the session is closed, the backend has been closed
  in order and at most once, no stream or subscription is left, and the writer's thread has ended.
\<close>

theorem host_run_closed:
  assumes "RunHost L a ts ws = Some (code, h)"
  shows "hp_state h = State_Closed \<and> hp_report_flow h = None \<and> hp_subscriptions h = [] \<and> shut_down (hp_calls h) \<and>
    bo_exited (writer_of h)"
  using assms
proof (rule RunHost_cases)
  fix h1
  assume h1: "hp_inv {} h1" "hp_processing_depth h1 = 0" "stop_writer ws (Close a h1) = Some h"
    "\<exists>ops. writer_of h1 = snd (run_ops output_step mk_output (ready_ops L ops))"
  then obtain ops where "writer_of h1 = snd (run_ops output_step mk_output (ready_ops L ops))" by blast
  then show ?thesis
    using stop_writer_run [OF h1(3), of mk_output "ready_ops L ops"] Close_closed [OF h1(1,2), of a] by auto
qed

theorem host_run_closed_witness:
  "\<exists>code h. RunHost example_library example_answers example_schedule [O_Take] = Some (code, h) \<and>
     hp_state h = State_Closed \<and> shut_down (hp_calls h) \<and> bo_exited (writer_of h)"
proof -
  obtain h where "RunHost example_library example_answers example_schedule [O_Take] = Some (0, h)"
    using example_host_run by blast
  from this host_run_closed [OF this] show ?thesis by blast
qed

text \<open>
  Exit code 0 means success of the whole channel: the input was well framed, no answer was lost, neither
  the session's channel nor the writer failed, and the frames written are exactly the frames accepted,
  from the ready frame on; nothing is left in the queue.
\<close>

theorem host_exit_zero:
  assumes "RunHost L a ts ws = Some (0, h)"
  shows "healthy h \<and> bo_healthy (writer_of h) \<and> \<not> io_invalid_input (io_of h) \<and> \<not> io_dispatch_failed (io_of h) \<and>
    in_flight (writer_of h) = [] \<and>
    (\<exists>ops. bo_written (writer_of h) =
       ReadyFrame L # accepted_frames ops (tl (fst (run_ops output_step mk_output (ready_ops L ops)))))"
  using assms
proof (rule RunHost_cases)
  fix h1
  assume h1: "hp_inv {} h1" "hp_processing_depth h1 = 0" "stop_writer ws (Close a h1) = Some h"
    "\<exists>ops. writer_of h1 = snd (run_ops output_step mk_output (ready_ops L ops))"
    "(0::nat) = 0 \<longrightarrow> start_host L = (True, snd (start_host L)) \<and> exit_code h = 0"
  have code: "exit_code h = 0" using h1(5) by simp
  obtain ops where ops: "writer_of h1 = snd (run_ops output_step mk_output (ready_ops L ops))" using h1(4) by blast
  let ?ops = "ops @ O_Stop # ws"
  have w: "writer_of h = snd (run_ops output_step mk_output (ready_ops L ?ops))" "bo_exited (writer_of h)"
    using stop_writer_run [OF h1(3), of mk_output "ready_ops L ops"] Close_closed [OF h1(1,2), of a] ops
    by (auto simp: ready_ops_def)
  have flags: "bo_healthy (writer_of h)" "healthy h" "\<not> io_invalid_input (io_of h)" "\<not> io_dispatch_failed (io_of h)"
    using code by (simp_all add: exit_code_def split: if_splits)
  have inv: "output_inv (writer_of h)" using output_machine.run_inv [OF mk_output_inv] w(1) by simp
  then have idle: "in_flight (writer_of h) = []" using w(2) by (simp add: output_inv_def in_flight_def)
  have "stream_of mk_output @ accepted_frames (ready_ops L ?ops) (fst (run_ops output_step mk_output (ready_ops L ?ops))) =
      stream_of (writer_of h)"
    using output_run_stream [OF mk_output_inv, of "ready_ops L ?ops"] flags(1) w(1) by auto
  moreover have "fst (output_step (O_Control (ReadyFrame L)) mk_output)"
    using start_host_run [of L True "snd (start_host L)"] h1(5) by simp
  ultimately have "bo_written (writer_of h) =
      ReadyFrame L # accepted_frames ?ops (tl (fst (run_ops output_step mk_output (ready_ops L ?ops))))"
    using idle by (simp add: stream_of_def in_flight_def mk_output_def ready_ops_def case_prod_beta Let_def)
  then show ?thesis using flags idle by blast
qed

theorem host_exit_zero_witness:
  "\<exists>h ops. RunHost example_library example_answers example_schedule [O_Take] = Some (0, h) \<and>
     in_flight (writer_of h) = [] \<and>
     bo_written (writer_of h) = ReadyFrame example_library # accepted_frames ops
       (tl (fst (run_ops output_step mk_output (ready_ops example_library ops))))"
proof -
  obtain h where "RunHost example_library example_answers example_schedule [O_Take] = Some (0, h)"
    using example_host_run by blast
  from this host_exit_zero [OF this] show ?thesis by blast
qed

text \<open>
  Property C10. The host ends, on every schedule in which the input ends or is refused at some turn: whatever lines
  come before, whatever the backend answers, whatever is handled inside the pump and whatever the results of
  the writer's last writes, \<open>RunHost\<close> returns as soon as the worker has made one iteration more than the 384
  frames that can be queued, and it never looks at a turn after the one at which the input ended.  A wait
  of the backend is not kept busy by the input: one call of the pump handles at most 16 lines.
\<close>

theorem host_terminates:
  assumes "list_ex (\<lambda>t. turn_input t = IR_End \<or> turn_input t = IR_Invalid) ts" "384 < length results"
  shows "(\<exists>code h. RunHost L a ts (worker_rounds results) = Some (code, h) \<and>
      (\<forall>us. RunHost L a (ts @ us) (worker_rounds results) = Some (code, h))) \<and>
    (\<forall>us as h. run_actions L (A_Pump us # as) h = run_actions L (A_Pump (take 16 us) # as) h)"
proof
  obtain ok h0 where s: "start_host L = (ok, h0)" by fastforce
  note h0 = start_host_run [OF s]
  have w0: "output_inv (writer_of h0)" using h0 output_step_inv [OF mk_output_inv, of "O_Control (ReadyFrame L)"] by simp
  have "RunHost L a ts (worker_rounds results) \<noteq> None"
  proof (cases ok)
    case False
    then show ?thesis using stop_writer_returns [OF _ _ w0 assms(2)] h0 s by (auto simp: RunHost_def)
  next
    case True
    obtain h1 where h1: "host_loop L ts h0 = Some h1" using host_loop_ends [OF assms(1), of L h0] by blast
    have "start_host L = (True, h0)" using s True by simp
    note r = run_before_close [OF this h1]
    have "output_inv (writer_of h1)" using r output_machine.run_inv [OF mk_output_inv] by auto
    then show ?thesis using stop_writer_returns [of h1 results a] assms(2) r s True h1 by (auto simp: RunHost_def)
  qed
  then show "\<exists>code h. RunHost L a ts (worker_rounds results) = Some (code, h) \<and>
      (\<forall>us. RunHost L a (ts @ us) (worker_rounds results) = Some (code, h))"
    using RunHost_prefix [OF assms(1), of L a] by auto
  show "\<forall>us as h. run_actions L (A_Pump us # as) h = run_actions L (A_Pump (take 16 us) # as) h"
    using pump_loop_take [of L 16] by (simp add: run_actions.simps)
qed

text \<open>The input ends after one wait, and the writer's stream refuses every write; a further line changes nothing.\<close>

theorem host_terminates_witness:
  "\<exists>code h. RunHost example_library example_answers example_schedule (worker_rounds (replicate 385 False)) = Some (code, h) \<and>
     RunHost example_library example_answers (example_schedule @ [example_turn (IR_Line ''x'') []])
       (worker_rounds (replicate 385 False)) = Some (code, h)"
proof -
  have ends: "list_ex (\<lambda>t. turn_input t = IR_End \<or> turn_input t = IR_Invalid) example_schedule"
    by (simp add: example_schedule_def example_turn_def)
  have "384 < length (replicate 385 False)" by simp
  from host_terminates [OF ends this, of example_library example_answers] show ?thesis by blast
qed

end
