(* ===== verification/HostProcess.thy ===== *)
theory HostProcess
  imports HostRun
begin

text \<open>
  The process around the host: \<open>InputLifetime\<close> of \<^verbatim>\<open>native/include/wotex_matter/input_lifetime.hpp\<close> and \<open>main\<close> of
  \<^verbatim>\<open>native/src/host.cpp\<close>.

  The watching thread is a state machine over what the other threads and the system do; times are milliseconds.
\<close>

section \<open>The watch on the input\<close>

text \<open>What \<open>poll\<close> answers: interrupted, another error, the timeout, or the events of the descriptor.\<close>

datatype poll_answer = Poll_Interrupted | Poll_Error | Poll_Timeout | Poll_Events bool bool bool bool

fun hangs_up :: "poll_answer \<Rightarrow> bool" where
  "hangs_up (Poll_Events readable hup err nval) = (hup \<or> err \<or> nval)"
| "hangs_up Poll_Error = True"
| "hangs_up _ = False"

text \<open>\<open>Grace\<close> carries the time at which it began.\<close>

datatype watch_state = Checking | Polling | Grace nat | Returned | Exited

record InputLifetime =
  il_stopping :: bool
  il_failed :: bool
  il_watch :: watch_state
  il_now :: nat
  il_hangup :: bool

definition mk_lifetime :: InputLifetime where
  "mk_lifetime = \<lparr>il_stopping = False, il_failed = False, il_watch = Checking, il_now = 0, il_hangup = False\<rparr>"

definition Fail :: "InputLifetime \<Rightarrow> InputLifetime" where
  "Fail s = s\<lparr>il_failed := True\<rparr>"

text \<open>The destructor up to \<open>join\<close>.\<close>

definition stop_watching :: "InputLifetime \<Rightarrow> InputLifetime" where
  "stop_watching s = s\<lparr>il_stopping := True\<rparr>"

text \<open>\<open>Watch\<close>: the check at the head of the loop, the answer of \<open>poll\<close>, and the wait for the end of the grace.\<close>

definition watch_check :: "InputLifetime \<Rightarrow> InputLifetime" where
  "watch_check s =
     (if il_stopping s then s\<lparr>il_watch := Returned\<rparr>
      else if il_failed s then s\<lparr>il_watch := Grace (il_now s)\<rparr>
      else s\<lparr>il_watch := Polling\<rparr>)"

definition watch_poll :: "poll_answer \<Rightarrow> InputLifetime \<Rightarrow> InputLifetime" where
  "watch_poll a s =
     (if hangs_up a then s\<lparr>il_watch := Grace (il_now s), il_hangup := True\<rparr> else s\<lparr>il_watch := Checking\<rparr>)"

definition watch_grace :: "InputLifetime \<Rightarrow> InputLifetime" where
  "watch_grace s = (if il_stopping s then s\<lparr>il_watch := Returned\<rparr> else s\<lparr>il_watch := Exited\<rparr>)"

datatype lifetime_event = LE_Fail | LE_Stop | LE_Time nat | LE_Check | LE_Poll poll_answer | LE_Grace

text \<open>The wait of the grace ends when the host stops or when 750 ms have passed.\<close>

fun enabled_lifetime :: "lifetime_event \<Rightarrow> InputLifetime \<Rightarrow> bool" where
  "enabled_lifetime LE_Check s \<longleftrightarrow> il_watch s = Checking"
| "enabled_lifetime (LE_Poll a) s \<longleftrightarrow> il_watch s = Polling"
| "enabled_lifetime LE_Grace s \<longleftrightarrow> (case il_watch s of Grace began \<Rightarrow> il_stopping s \<or> il_now s \<ge> began + 750 | _ \<Rightarrow> False)"
| "enabled_lifetime _ s \<longleftrightarrow> il_watch s \<noteq> Exited"

fun lifetime_step :: "lifetime_event \<Rightarrow> InputLifetime \<Rightarrow> InputLifetime" where
  "lifetime_step LE_Fail s = Fail s"
| "lifetime_step LE_Stop s = stop_watching s"
| "lifetime_step (LE_Time d) s = s\<lparr>il_now := il_now s + d\<rparr>"
| "lifetime_step LE_Check s = watch_check s"
| "lifetime_step (LE_Poll a) s = watch_poll a s"
| "lifetime_step LE_Grace s = watch_grace s"

inductive lifetime_run :: "lifetime_event list \<Rightarrow> InputLifetime \<Rightarrow> bool" where
  lifetime_begins: "lifetime_run [] mk_lifetime"
| lifetime_goes_on: "lifetime_run es s \<Longrightarrow> enabled_lifetime e s \<Longrightarrow> lifetime_run (es @ [e]) (lifetime_step e s)"

section \<open>The process\<close>

text \<open>\<open>main\<close>: the value it returns, when the host returns; \<open>throws\<close> says that an exception reached it.  The lifetime object is
  destroyed after the controller.\<close>

definition main_host ::
    "bool \<Rightarrow> json_library \<Rightarrow> backend_answers \<Rightarrow> turn list \<Rightarrow> output_op list \<Rightarrow> nat option" where
  "main_host throws L a ts ws = (if throws then Some 1 else map_option fst (RunHost L a ts ws))"

section \<open>Invariant\<close>

definition lifetime_inv :: "lifetime_event list \<Rightarrow> InputLifetime \<Rightarrow> bool" where
  "lifetime_inv es s \<longleftrightarrow>
     il_failed s = (LE_Fail \<in> set es) \<and> il_stopping s = (LE_Stop \<in> set es) \<and> il_hangup s = (\<exists>a. LE_Poll a \<in> set es \<and> hangs_up a) \<and>
     (case il_watch s of
        Grace began \<Rightarrow> began \<le> il_now s \<and> (il_failed s \<or> il_hangup s)
      | Exited \<Rightarrow> \<not> il_stopping s \<and> (il_failed s \<or> il_hangup s) \<and> il_now s \<ge> 750
      | Returned \<Rightarrow> il_stopping s
      | _ \<Rightarrow> \<not> il_hangup s)"

lemma lifetime_inv_step: "lifetime_inv es s \<Longrightarrow> enabled_lifetime e s \<Longrightarrow> lifetime_inv (es @ [e]) (lifetime_step e s)"
  by (cases e) (auto simp: lifetime_inv_def Fail_def stop_watching_def watch_check_def watch_poll_def watch_grace_def split: watch_state.splits)

lemma lifetime_run_inv: "lifetime_run es s \<Longrightarrow> lifetime_inv es s"
proof (induction rule: lifetime_run.induct)
  case lifetime_begins
  then show ?case by (simp add: lifetime_inv_def mk_lifetime_def)
qed (simp add: lifetime_inv_step)

text \<open>While the grace runs, only its end and the clock matter.\<close>

lemma grace_kept:
  assumes "il_watch s = Grace began" "enabled_lifetime e s" "e \<noteq> LE_Grace"
  shows "il_watch (lifetime_step e s) = Grace began"
  using assms by (cases e) (simp_all add: Fail_def stop_watching_def)

section \<open>Properties\<close>

text \<open>
  Property C16. The watch ends the process only after the input hung up or a failure was reported, when the host has not stopped within
  750 ms of the moment the watch saw it; neither readable input nor a further failure shortens or extends that grace; and
  once the host stops, the thread returns, so that it can be joined.
\<close>

theorem lifetime_grace:
  assumes "lifetime_run es s" "enabled_lifetime e s"
  shows "(il_watch (lifetime_step e s) = Exited \<longrightarrow>
      LE_Stop \<notin> set es \<and> (LE_Fail \<in> set es \<or> (\<exists>a. LE_Poll a \<in> set es \<and> hangs_up a)) \<and>
      (\<exists>began. il_watch s = Grace began \<and> il_now s \<ge> began + 750)) \<and>
    (\<forall>began. il_watch s = Grace began \<and> e \<noteq> LE_Grace \<longrightarrow> il_watch (lifetime_step e s) = Grace began) \<and>
    (il_stopping s \<longrightarrow> il_watch (lifetime_step e s) \<noteq> Exited \<and>
      (il_watch s = Checking \<longrightarrow> il_watch (lifetime_step LE_Check s) = Returned) \<and>
      (\<forall>began. il_watch s = Grace began \<longrightarrow> enabled_lifetime LE_Grace s \<and> il_watch (lifetime_step LE_Grace s) = Returned))"
proof -
  have inv: "lifetime_inv es s" using assms(1) by (rule lifetime_run_inv)
  have "il_watch (lifetime_step e s) = Exited \<longrightarrow>
      LE_Stop \<notin> set es \<and> (LE_Fail \<in> set es \<or> (\<exists>a. LE_Poll a \<in> set es \<and> hangs_up a)) \<and>
      (\<exists>began. il_watch s = Grace began \<and> il_now s \<ge> began + 750)"
    using inv assms(2)
    by (cases e) (auto simp: lifetime_inv_def Fail_def stop_watching_def watch_check_def watch_poll_def watch_grace_def
        split: watch_state.splits if_splits)
  moreover have "il_stopping s \<longrightarrow> il_watch (lifetime_step e s) \<noteq> Exited"
    using calculation inv by (auto simp: lifetime_inv_def)
  ultimately show ?thesis using grace_kept assms(2) by (auto simp: watch_check_def watch_grace_def)
qed

definition example_watch :: "lifetime_event list" where
  "example_watch = [LE_Check, LE_Poll (Poll_Events True False False False), LE_Check, LE_Poll (Poll_Events False True False False),
     LE_Time 400, LE_Fail, LE_Time 350]"

fun allowed_lifetime :: "lifetime_event list \<Rightarrow> InputLifetime \<Rightarrow> bool" where
  "allowed_lifetime [] s \<longleftrightarrow> True"
| "allowed_lifetime (e # es) s \<longleftrightarrow> enabled_lifetime e s \<and> allowed_lifetime es (lifetime_step e s)"

lemma allowed_lifetime_run:
  "lifetime_run es s \<Longrightarrow> allowed_lifetime es' s \<Longrightarrow> lifetime_run (es @ es') (fold lifetime_step es' s)"
proof (induction es' arbitrary: es s)
  case (Cons e es')
  then have "lifetime_run (es @ [e]) (lifetime_step e s)" by (simp add: lifetime_goes_on)
  from Cons.IH [OF this] Cons.prems(2) show ?case by simp
qed simp

lemma example_watch_allowed: "allowed_lifetime example_watch mk_lifetime"
  by code_simp

theorem lifetime_grace_witness:
  "lifetime_run example_watch (fold lifetime_step example_watch mk_lifetime) \<and>
   il_watch (lifetime_step LE_Grace (fold lifetime_step example_watch mk_lifetime)) = Exited \<and> LE_Stop \<notin> set example_watch"
proof -
  have run: "lifetime_run example_watch (fold lifetime_step example_watch mk_lifetime)"
    using allowed_lifetime_run [OF lifetime_begins, of example_watch] by (simp add: example_watch_allowed)
  have e: "enabled_lifetime LE_Grace (fold lifetime_step example_watch mk_lifetime)"
    "il_watch (lifetime_step LE_Grace (fold lifetime_step example_watch mk_lifetime)) = Exited" by code_simp+
  from lifetime_grace [OF run e(1)] run e(2) show ?thesis by blast
qed

end
