(* ===== verification/ControllerCodec.thy ===== *)
theory ControllerCodec
  imports WireDecode Interaction
begin

text \<open>
  The value codecs at the top of \<^verbatim>\<open>native/src/controller.cpp\<close>: elements read from and written to the TLV
  streams of the Matter SDK.

  The SDK is a parameter.  A reader that stands at an element is given by what its calls answer there
  (\<open>tlv\<close>); a writer is a function from calls to an error and its next state; the typed
  \<open>DataModel::Decode\<close> functions and the numeric identifiers of clusters and their members are the
  fields of the records \<open>sdk_decode\<close> and \<open>sdk_ids\<close>.
\<close>

section \<open>Errors, tags and readers\<close>

datatype chip_error =
  CHIP_END_OF_TLV | CHIP_ERROR_BUFFER_TOO_SMALL | CHIP_ERROR_INVALID_TLV_TAG
| CHIP_ERROR_UNSUPPORTED_CHIP_FEATURE | CHIP_ERROR_INVALID_ARGUMENT | CHIP_ERROR_TIMEOUT
| CHIP_ERROR_OTHER nat

datatype tlv_tag = AnonymousTag | ContextTag u32 | OtherTag u64

datatype tlv_type =
  kTLVType_Null | kTLVType_SignedInteger | kTLVType_UnsignedInteger | kTLVType_Boolean
| kTLVType_Structure | kTLVType_Array | kTLVType_Other nat

text \<open>\<open>rd_children\<close> are the elements at which successive calls of \<open>Next\<close> in the container stand and \<open>rd_end\<close>
  is what the call after them returns.\<close>

datatype tlv = Tlv (rd_tag: tlv_tag) (rd_type: tlv_type) (rd_signed: "chip_error + i64")
  (rd_unsigned: "chip_error + u64") (rd_boolean: "chip_error + bool") (rd_enter: "chip_error option")
  (rd_children: "tlv list") (rd_end: chip_error) (rd_exit: "chip_error option")

definition DecodeTag :: "tlv_tag \<Rightarrow> chip_error + Tag" where
  "DecodeTag native =
     (case native of
        AnonymousTag \<Rightarrow> Inr (Tag TK_Anonymous 0)
      | ContextTag n \<Rightarrow> Inr (Tag TK_Context (ucast n))
      | OtherTag _ \<Rightarrow> Inl CHIP_ERROR_INVALID_TLV_TAG)"

section \<open>DecodeRawElement\<close>

text \<open>With the element the number of nodes seen so far is returned; the second function is the loop over a container.\<close>

fun DecodeRawElement :: "tlv \<Rightarrow> nat \<Rightarrow> nat \<Rightarrow> chip_error + (Element \<times> nat)"
  and decode_children :: "tlv list \<Rightarrow> nat \<Rightarrow> nat \<Rightarrow> chip_error + (Element list \<times> nat)"
where
  "DecodeRawElement (Tlv tag type sv uv bv enter cs end exit) depth nodes =
     (if \<not> (depth \<le> 8 \<and> nodes + 1 \<le> 1024) then Inl CHIP_ERROR_BUFFER_TOO_SMALL
      else case DecodeTag tag of
        Inl err \<Rightarrow> Inl err
      | Inr t \<Rightarrow>
          (case type of
             kTLVType_Null \<Rightarrow> Inr (Element t ET_Null 0 0 False [], nodes + 1)
           | kTLVType_SignedInteger \<Rightarrow>
               (case sv of Inl err \<Rightarrow> Inl err | Inr v \<Rightarrow> Inr (Element t ET_I16 v 0 False [], nodes + 1))
           | kTLVType_UnsignedInteger \<Rightarrow>
               (case uv of Inl err \<Rightarrow> Inl err | Inr v \<Rightarrow> Inr (Element t ET_U64 0 v False [], nodes + 1))
           | kTLVType_Boolean \<Rightarrow>
               (case bv of Inl err \<Rightarrow> Inl err | Inr v \<Rightarrow> Inr (Element t ET_Boolean 0 0 v [], nodes + 1))
           | kTLVType_Other _ \<Rightarrow> Inl CHIP_ERROR_UNSUPPORTED_CHIP_FEATURE
           | _ \<Rightarrow>
               (case enter of
                  Some err \<Rightarrow> Inl err
                | None \<Rightarrow>
                    (case decode_children cs (depth + 1) (nodes + 1) of
                       Inl err \<Rightarrow> Inl err
                     | Inr (es, n) \<Rightarrow>
                         if end \<noteq> CHIP_END_OF_TLV then Inl end
                         else (case exit of
                             Some err \<Rightarrow> Inl err
                           | None \<Rightarrow> Inr (Element t (if type = kTLVType_Structure then ET_Structure else ET_Array)
                               0 0 False es, n))))))"
| "decode_children [] depth nodes = Inr ([], nodes)"
| "decode_children (c # cs) depth nodes =
     (case DecodeRawElement c depth nodes of
        Inl err \<Rightarrow> Inl err
      | Inr (e, n) \<Rightarrow>
          (case decode_children cs depth n of Inl err \<Rightarrow> Inl err | Inr (es, n') \<Rightarrow> Inr (e # es, n')))"

section \<open>NormalizeAccessControl\<close>

fun set_type :: "ElementType \<Rightarrow> Element \<Rightarrow> Element" where
  "set_type ty (Element t _ s u b cs) = Element t ty s u b cs"

fun set_children :: "Element list \<Rightarrow> Element \<Rightarrow> Element" where
  "set_children cs (Element t ty s u b _) = Element t ty s u b cs"

text \<open>A loop over elements that changes each in place or returns; \<open>None\<close> is \<open>CHIP_ERROR_INVALID_ARGUMENT\<close>.\<close>

fun map_or_fail :: "('a \<Rightarrow> 'b option) \<Rightarrow> 'a list \<Rightarrow> 'b list option" where
  "map_or_fail f [] = Some []"
| "map_or_fail f (x # xs) =
     (case f x of None \<Rightarrow> None
      | Some y \<Rightarrow> (case map_or_fail f xs of None \<Rightarrow> None | Some ys \<Rightarrow> Some (y # ys)))"

definition normalize_target_field :: "Element \<Rightarrow> Element option" where
  "normalize_target_field f =
     (if tag_kind (elem_tag f) \<noteq> TK_Context then None
      else if elem_type f = ET_U64 then Some (set_type (if tag_id (elem_tag f) = 1 then ET_U16 else ET_U32) f)
      else Some f)"

definition normalize_target :: "Element \<Rightarrow> Element option" where
  "normalize_target t =
     (if tag_kind (elem_tag t) \<noteq> TK_Anonymous \<or> elem_type t \<noteq> ET_Structure then None
      else map_option (\<lambda>cs. set_children cs t) (map_or_fail normalize_target_field (children t)))"

definition normalize_field :: "Element \<Rightarrow> Element option" where
  "normalize_field f =
     (if tag_kind (elem_tag f) \<noteq> TK_Context then None
      else if elem_type f = ET_U64 \<and>
        (tag_id (elem_tag f) = 1 \<or> tag_id (elem_tag f) = 2 \<or> tag_id (elem_tag f) = 5 \<or> tag_id (elem_tag f) = 254)
      then Some (set_type ET_U8 f)
      else if tag_id (elem_tag f) = 4 \<and> elem_type f = ET_Array
      then map_option (\<lambda>cs. set_children cs f) (map_or_fail normalize_target (children f))
      else Some f)"

definition normalize_entry :: "Element \<Rightarrow> Element option" where
  "normalize_entry e =
     (if tag_kind (elem_tag e) \<noteq> TK_Anonymous \<or> elem_type e \<noteq> ET_Structure then None
      else map_option (\<lambda>cs. set_children cs e) (map_or_fail normalize_field (children e)))"

definition NormalizeAccessControl :: "Element \<Rightarrow> chip_error + Element" where
  "NormalizeAccessControl e =
     (if \<not> (tag_kind (elem_tag e) = TK_Anonymous \<and> elem_type e = ET_Array \<and>
             length (children e) \<le> 64)
      then Inl CHIP_ERROR_INVALID_ARGUMENT
      else case map_or_fail normalize_entry (children e) of
        None \<Rightarrow> Inl CHIP_ERROR_INVALID_ARGUMENT
      | Some es \<Rightarrow>
          let e' = set_children es e
          in if validate_element MK_Attribute 0x001F 0x0000 Op_Read e' = CE_None then Inr e'
             else Inl CHIP_ERROR_INVALID_ARGUMENT)"

section \<open>Writers\<close>

datatype writer_call =
  PutNull tlv_tag | PutI16 tlv_tag "16 word" | PutU8 tlv_tag u8 | PutU16 tlv_tag u16 | PutU32 tlv_tag u32
| PutU64 tlv_tag u64 | PutBoolean tlv_tag bool | StartContainer tlv_tag tlv_type | EndContainer
| Encode_i16 tlv_tag "16 word" | Encode_enum8 tlv_tag u8

type_synonym 'w writer = "writer_call \<Rightarrow> 'w \<Rightarrow> chip_error option \<times> 'w"

definition NativeTag :: "Tag \<Rightarrow> tlv_tag" where
  "NativeTag t = (if tag_kind t = TK_Anonymous then AnonymousTag else ContextTag (ucast (tag_id t)))"

fun EncodeElement :: "'w writer \<Rightarrow> Element \<Rightarrow> 'w \<Rightarrow> chip_error option \<times> 'w"
  and encode_children :: "'w writer \<Rightarrow> Element list \<Rightarrow> 'w \<Rightarrow> chip_error option \<times> 'w"
where
  "EncodeElement put (Element t ty s u b cs) w =
     (let tag = NativeTag t
      in case ty of
        ET_Null \<Rightarrow> put (PutNull tag) w
      | ET_I16 \<Rightarrow> put (PutI16 tag (ucast s)) w
      | ET_U8 \<Rightarrow> put (PutU8 tag (ucast u)) w
      | ET_U16 \<Rightarrow> put (PutU16 tag (ucast u)) w
      | ET_U32 \<Rightarrow> put (PutU32 tag (ucast u)) w
      | ET_U64 \<Rightarrow> put (PutU64 tag u) w
      | ET_Boolean \<Rightarrow> put (PutBoolean tag b) w
      | _ \<Rightarrow>
          (case put (StartContainer tag (if ty = ET_Structure then kTLVType_Structure else kTLVType_Array)) w of
             (Some err, w1) \<Rightarrow> (Some err, w1)
           | (None, w1) \<Rightarrow>
               (case encode_children put cs w1 of
                  (Some err, w2) \<Rightarrow> (Some err, w2)
                | (None, w2) \<Rightarrow> put EndContainer w2)))"
| "encode_children put [] w = (None, w)"
| "encode_children put (e # es) w =
     (case EncodeElement put e w of
        (Some err, w1) \<Rightarrow> (Some err, w1)
      | (None, w1) \<Rightarrow> encode_children put es w1)"

section \<open>Attributes, events and writes\<close>

record sdk_ids =
  id_Thermostat :: u32
  id_LocalTemperature :: u32
  id_OccupiedCoolingSetpoint :: u32
  id_OccupiedHeatingSetpoint :: u32
  id_SystemMode :: u32
  id_OnOff :: u32
  id_OnOff_OnOff :: u32
  id_Off :: u32
  id_On :: u32
  id_Toggle :: u32
  id_Descriptor :: u32
  id_DeviceTypeList :: u32
  id_ServerList :: u32
  id_ClientList :: u32
  id_PartsList :: u32
  id_BridgedDeviceBasicInformation :: u32
  id_Reachable :: u32
  id_ReachableChanged :: u32
  id_TemperatureMeasurement :: u32
  id_MeasuredValue :: u32
  id_AccessControl :: u32
  id_Acl :: u32
  id_AdministratorCommissioning :: u32
  id_WindowStatus :: u32
  id_AdminFabricIndex :: u32
  id_AdminVendorId :: u32

text \<open>A decoded list is what its iterator yields, with the status after the last element.\<close>

record sdk_decode =
  dm_i16 :: "tlv \<Rightarrow> chip_error + 16 word"
  dm_nullable_i16 :: "tlv \<Rightarrow> chip_error + 16 word option"
  dm_enum8 :: "tlv \<Rightarrow> chip_error + u8"
  dm_boolean :: "tlv \<Rightarrow> chip_error + bool"
  dm_nullable_u8 :: "tlv \<Rightarrow> chip_error + u8 option"
  dm_nullable_u16 :: "tlv \<Rightarrow> chip_error + u16 option"
  dm_clusters :: "tlv \<Rightarrow> chip_error + u32 list \<times> chip_error option"
  dm_endpoints :: "tlv \<Rightarrow> chip_error + u16 list \<times> chip_error option"
  dm_device_types :: "tlv \<Rightarrow> chip_error + DeviceType list \<times> chip_error option"
  dm_reachable_changed :: "tlv \<Rightarrow> chip_error + bool"

definition map_result :: "('a \<Rightarrow> 'b) \<Rightarrow> chip_error + 'a \<Rightarrow> chip_error + 'b" where
  "map_result f r = (case r of Inl err \<Rightarrow> Inl err | Inr x \<Rightarrow> Inr (f x))"

definition signed_value_of :: "16 word \<Rightarrow> NativeValue" where
  "signed_value_of v = signed_integer (scast v)"

text \<open>\<open>DecodeScalar\<close> at a boolean, a signed type and an enumeration.\<close>

definition DecodeScalar_boolean :: "sdk_decode \<Rightarrow> tlv \<Rightarrow> chip_error + NativeValue" where
  "DecodeScalar_boolean D r = map_result native_boolean (dm_boolean D r)"

definition DecodeScalar_i16 :: "sdk_decode \<Rightarrow> tlv \<Rightarrow> chip_error + NativeValue" where
  "DecodeScalar_i16 D r = map_result signed_value_of (dm_i16 D r)"

definition DecodeScalar_enum8 :: "sdk_decode \<Rightarrow> tlv \<Rightarrow> chip_error + NativeValue" where
  "DecodeScalar_enum8 D r = map_result (\<lambda>v. unsigned_integer (ucast v)) (dm_enum8 D r)"

definition DecodeNullableI16 :: "sdk_decode \<Rightarrow> tlv \<Rightarrow> chip_error + NativeValue" where
  "DecodeNullableI16 D r =
     map_result (\<lambda>v. case v of None \<Rightarrow> null_value | Some x \<Rightarrow> signed_value_of x) (dm_nullable_i16 D r)"

definition DecodeNullableUnsigned :: "(tlv \<Rightarrow> chip_error + ('n::len) word option) \<Rightarrow> tlv \<Rightarrow> chip_error + NativeValue" where
  "DecodeNullableUnsigned decode r =
     map_result (\<lambda>v. case v of None \<Rightarrow> null_value | Some x \<Rightarrow> unsigned_integer (ucast x)) (decode r)"

text \<open>The loops over the iterators, with the number of elements kept so far; at 1023 a further element is an error.\<close>

fun bounded_loop :: "nat \<Rightarrow> 'a list \<Rightarrow> chip_error option \<Rightarrow> chip_error option" where
  "bounded_loop n [] status = status"
| "bounded_loop n (x # xs) status =
     (if \<not> n < 1023 then Some CHIP_ERROR_BUFFER_TOO_SMALL else bounded_loop (n + 1) xs status)"

definition DecodeIdentifiers ::
    "(tlv \<Rightarrow> chip_error + ('n::len) word list \<times> chip_error option) \<Rightarrow> tlv \<Rightarrow> chip_error + NativeValue" where
  "DecodeIdentifiers decode r =
     (case decode r of
        Inl err \<Rightarrow> Inl err
      | Inr (ids, status) \<Rightarrow>
          (case bounded_loop 0 ids status of
             Some err \<Rightarrow> Inl err
           | None \<Rightarrow> Inr (identifier_list (map ucast ids))))"

definition DecodeDeviceTypes :: "sdk_decode \<Rightarrow> tlv \<Rightarrow> chip_error + NativeValue" where
  "DecodeDeviceTypes D r =
     (case dm_device_types D r of
        Inl err \<Rightarrow> Inl err
      | Inr (ds, status) \<Rightarrow>
          (case bounded_loop 0 ds status of
             Some err \<Rightarrow> Inl err
           | None \<Rightarrow> Inr (device_type_list ds)))"

definition converted :: "MemberKind \<Rightarrow> ConcretePath \<Rightarrow> NativeValue \<Rightarrow> chip_error + Element" where
  "converted k path v =
     (let conversion = convert_value k (cp_cluster path) (cp_member path) Op_Read v
      in case conv_element conversion of
           None \<Rightarrow> Inl CHIP_ERROR_INVALID_ARGUMENT
         | Some e \<Rightarrow> if conv_error conversion = CE_None then Inr e else Inl CHIP_ERROR_INVALID_ARGUMENT)"

definition DecodeAttribute :: "sdk_ids \<Rightarrow> sdk_decode \<Rightarrow> ConcretePath \<Rightarrow> tlv \<Rightarrow> chip_error + Element" where
  "DecodeAttribute I D path r =
     (let c = cp_cluster path; m = cp_member path;
          finish = (\<lambda>v. case v of Inl err \<Rightarrow> Inl err | Inr x \<Rightarrow> converted MK_Attribute path x)
      in if c = id_Thermostat I \<and> m = id_LocalTemperature I then finish (DecodeNullableI16 D r)
         else if c = id_Thermostat I \<and> m = id_OccupiedCoolingSetpoint I then finish (DecodeScalar_i16 D r)
         else if c = id_Thermostat I \<and> m = id_OccupiedHeatingSetpoint I then finish (DecodeScalar_i16 D r)
         else if c = id_Thermostat I \<and> m = id_SystemMode I then finish (DecodeScalar_enum8 D r)
         else if c = id_OnOff I \<and> m = id_OnOff_OnOff I then finish (DecodeScalar_boolean D r)
         else if c = id_Descriptor I \<and> m = id_DeviceTypeList I then finish (DecodeDeviceTypes D r)
         else if c = id_Descriptor I \<and> m = id_ServerList I then finish (DecodeIdentifiers (dm_clusters D) r)
         else if c = id_Descriptor I \<and> m = id_ClientList I then finish (DecodeIdentifiers (dm_clusters D) r)
         else if c = id_Descriptor I \<and> m = id_PartsList I then finish (DecodeIdentifiers (dm_endpoints D) r)
         else if c = id_BridgedDeviceBasicInformation I \<and> m = id_Reachable I then finish (DecodeScalar_boolean D r)
         else if c = id_TemperatureMeasurement I \<and> m = id_MeasuredValue I then finish (DecodeNullableI16 D r)
         else if c = id_AccessControl I \<and> m = id_Acl I
         then (case DecodeRawElement r 0 0 of Inl err \<Rightarrow> Inl err | Inr (e, _) \<Rightarrow> NormalizeAccessControl e)
         else if c = id_AdministratorCommissioning I \<and> m = id_WindowStatus I then finish (DecodeScalar_enum8 D r)
         else if c = id_AdministratorCommissioning I \<and> m = id_AdminFabricIndex I
         then finish (DecodeNullableUnsigned (dm_nullable_u8 D) r)
         else if c = id_AdministratorCommissioning I \<and> m = id_AdminVendorId I
         then finish (DecodeNullableUnsigned (dm_nullable_u16 D) r)
         else Inl CHIP_ERROR_UNSUPPORTED_CHIP_FEATURE)"

definition DecodeEvent :: "sdk_ids \<Rightarrow> sdk_decode \<Rightarrow> ConcretePath \<Rightarrow> tlv \<Rightarrow> chip_error + Element" where
  "DecodeEvent I D path r =
     (if \<not> (cp_cluster path = id_BridgedDeviceBasicInformation I \<and> cp_member path = id_ReachableChanged I)
      then Inl CHIP_ERROR_UNSUPPORTED_CHIP_FEATURE
      else case dm_reachable_changed D r of
        Inl err \<Rightarrow> Inl err
      | Inr b \<Rightarrow> converted MK_Event path (reachable_value b))"

definition EncodeWriteValue ::
    "sdk_ids \<Rightarrow> 'w writer \<Rightarrow> ConcretePath \<Rightarrow> Element \<Rightarrow> 'w \<Rightarrow> chip_error option \<times> 'w" where
  "EncodeWriteValue I put path e w =
     (let c = cp_cluster path; m = cp_member path
      in if c = id_Thermostat I \<and> (m = id_OccupiedCoolingSetpoint I \<or> m = id_OccupiedHeatingSetpoint I)
         then put (Encode_i16 AnonymousTag (ucast (signed_value e))) w
         else if c = id_Thermostat I \<and> m = id_SystemMode I
         then put (Encode_enum8 AnonymousTag (ucast (unsigned_value e))) w
         else if c = id_AccessControl I \<and> m = id_Acl I
         then (if validate_element MK_Attribute c m Op_Write e \<noteq> CE_None then (Some CHIP_ERROR_INVALID_ARGUMENT, w)
               else EncodeElement put e w)
         else (Some CHIP_ERROR_UNSUPPORTED_CHIP_FEATURE, w))"

fun EstimatedElementBytes :: "Element \<Rightarrow> nat"
  and estimate_loop :: "nat \<Rightarrow> Element list \<Rightarrow> nat"
where
  "EstimatedElementBytes (Element t ty s u b cs) = estimate_loop 96 cs"
| "estimate_loop n [] = n"
| "estimate_loop n (c # cs) =
     (let child_size = EstimatedElementBytes c
      in if n > kMaximumInteractionResultBytes - min child_size kMaximumInteractionResultBytes
         then kMaximumInteractionResultBytes + 1
         else estimate_loop (n + child_size) cs)"

section \<open>EstimatedElementBytes\<close>

lemma estimate_bytes:
  "EstimatedElementBytes e =
     (if 96 * element_count e \<le> kMaximumInteractionResultBytes then 96 * element_count e
      else kMaximumInteractionResultBytes + 1)"
  "n \<le> kMaximumInteractionResultBytes \<Longrightarrow> 0 < n \<Longrightarrow> estimate_loop n es =
     (let sum = n + 96 * sum_list (map element_count es)
      in if sum \<le> kMaximumInteractionResultBytes then sum else kMaximumInteractionResultBytes + 1)"
proof (induction e and n es rule: EstimatedElementBytes_estimate_loop.induct)
  case (1 t ty s u b cs)
  then show ?case by (simp add: kMaximumInteractionResultBytes_def Let_def)
next
  case (3 n c cs)
  show ?case
  proof (cases "n + 96 * element_count c \<le> kMaximumInteractionResultBytes")
    case True
    then have c: "EstimatedElementBytes c = 96 * element_count c" using 3 by simp
    with True have "\<not> n > kMaximumInteractionResultBytes - min (EstimatedElementBytes c) kMaximumInteractionResultBytes"
      by simp
    then show ?thesis using "3.IH"(2) [OF refl] c True "3.prems" by (simp add: Let_def algebra_simps)
  next
    case False
    then have "n > kMaximumInteractionResultBytes - min (EstimatedElementBytes c) kMaximumInteractionResultBytes"
      using 3 by (auto simp: min_def)
    then show ?thesis using False by (simp add: Let_def)
  qed
qed (simp add: Let_def)

section \<open>Attributes by schema\<close>

text \<open>The identifiers that the descriptor table gives the attributes, events and commands of these names.\<close>

definition table_ids :: "sdk_ids \<Rightarrow> bool" where
  "table_ids I \<longleftrightarrow> I =
     \<lparr>id_Thermostat = 0x0201, id_LocalTemperature = 0x0000, id_OccupiedCoolingSetpoint = 0x0011,
      id_OccupiedHeatingSetpoint = 0x0012, id_SystemMode = 0x001C, id_OnOff = 0x0006, id_OnOff_OnOff = 0x0000,
      id_Off = 0x0000, id_On = 0x0001, id_Toggle = 0x0002,
      id_Descriptor = 0x001D, id_DeviceTypeList = 0x0000, id_ServerList = 0x0001, id_ClientList = 0x0002,
      id_PartsList = 0x0003, id_BridgedDeviceBasicInformation = 0x0039, id_Reachable = 0x0011,
      id_ReachableChanged = 0x0003, id_TemperatureMeasurement = 0x0402, id_MeasuredValue = 0x0000,
      id_AccessControl = 0x001F, id_Acl = 0x0000, id_AdministratorCommissioning = 0x003C,
      id_WindowStatus = 0x0000, id_AdminFabricIndex = 0x0001, id_AdminVendorId = 0x0002\<rparr>"

text \<open>The decoder that a schema asks for.\<close>

definition native_of_schema :: "sdk_decode \<Rightarrow> Schema \<Rightarrow> tlv \<Rightarrow> chip_error + NativeValue" where
  "native_of_schema D schema r =
     (case schema of
        Sch_NullableI16 \<Rightarrow> DecodeNullableI16 D r
      | Sch_I16 \<Rightarrow> DecodeScalar_i16 D r
      | Sch_U8 \<Rightarrow> DecodeScalar_enum8 D r
      | Sch_WindowStatus \<Rightarrow> DecodeScalar_enum8 D r
      | Sch_Boolean \<Rightarrow> DecodeScalar_boolean D r
      | Sch_DeviceTypeList \<Rightarrow> DecodeDeviceTypes D r
      | Sch_ClusterList \<Rightarrow> DecodeIdentifiers (dm_clusters D) r
      | Sch_PartsList \<Rightarrow> DecodeIdentifiers (dm_endpoints D) r
      | Sch_NullableFabricIndex \<Rightarrow> DecodeNullableUnsigned (dm_nullable_u8 D) r
      | Sch_NullableVendorId \<Rightarrow> DecodeNullableUnsigned (dm_nullable_u16 D) r
      | _ \<Rightarrow> Inl CHIP_ERROR_UNSUPPORTED_CHIP_FEATURE)"

definition element_of_schema :: "sdk_decode \<Rightarrow> Descriptor \<Rightarrow> tlv \<Rightarrow> chip_error + Element" where
  "element_of_schema D d r =
     (if d_schema d = Sch_AccessControlList
      then (case DecodeRawElement r 0 0 of Inl err \<Rightarrow> Inl err | Inr (e, _) \<Rightarrow> NormalizeAccessControl e)
      else case native_of_schema D (d_schema d) r of
        Inl err \<Rightarrow> Inl err
      | Inr v \<Rightarrow> (case conv_element (convert d v) of None \<Rightarrow> Inl CHIP_ERROR_INVALID_ARGUMENT | Some e \<Rightarrow> Inr e))"

lemma readable_attributes: "d \<in> set kDescriptors \<Longrightarrow> d_kind d = MK_Attribute \<Longrightarrow> d_operations d AND operation_flag Op_Read \<noteq> 0"
  by (auto simp: kDescriptors_def mk_descriptor_def kRead_def kWrite_def kSubscribe_def)

lemma convert_element: "conv_element (convert d v) \<noteq> None \<longleftrightarrow> conv_error (convert d v) = CE_None"
  by (auto simp: convert_def convert_i16_def convert_unsigned_def convert_identifiers_def split: Schema.split option.split)

lemma converted_found:
  assumes "lookup_descriptor MK_Attribute (cp_cluster path) (cp_member path) = Some d"
  shows "converted MK_Attribute path v =
    (case conv_element (convert d v) of None \<Rightarrow> Inl CHIP_ERROR_INVALID_ARGUMENT | Some e \<Rightarrow> Inr e)"
proof -
  have "d \<in> set kDescriptors" "d_kind d = MK_Attribute"
    using assms by (auto simp: lookup_descriptor_def find_Some_iff)
  then have "convert_value MK_Attribute (cp_cluster path) (cp_member path) Op_Read v = convert d v"
    using assms readable_attributes by (simp add: convert_value_def)
  then show ?thesis using convert_element [of d v] by (auto simp: converted_def Let_def split: option.split)
qed

lemma normalized_valid:
  "NormalizeAccessControl e = Inr e' \<Longrightarrow> validate_element MK_Attribute 0x001F 0x0000 Op_Read e' = CE_None"
  by (auto simp: NormalizeAccessControl_def Let_def split: if_splits option.splits)

lemma element_of_schema_valid:
  assumes d: "lookup_descriptor MK_Attribute c m = Some d" and e: "element_of_schema D d r = Inr e"
    and acl: "d_schema d = Sch_AccessControlList \<Longrightarrow> c = 0x001F \<and> m = 0x0000"
  shows "validate_element MK_Attribute c m Op_Read e = CE_None"
proof (cases "d_schema d = Sch_AccessControlList")
  case True
  then obtain e0 where "NormalizeAccessControl e0 = Inr e"
    using e by (auto simp: element_of_schema_def split: sum.splits)
  then show ?thesis using normalized_valid acl True by simp
next
  case False
  then obtain v where v: "conv_element (convert d v) = Some e"
    using e by (auto simp: element_of_schema_def split: sum.splits option.splits)
  then have "conv_error (convert d v) = CE_None" using convert_element [of d v] by simp
  from convert_sound [OF this, of Op_Read] v have "elem_tag e = anonymous" "valid_body (d_schema d) Op_Read e" by auto
  moreover have "d \<in> set kDescriptors" "d_kind d = MK_Attribute"
    using d by (auto simp: lookup_descriptor_def find_Some_iff)
  then have "d_operations d AND operation_flag Op_Read \<noteq> 0" by (rule readable_attributes)
  ultimately show ?thesis using d by (simp add: validate_element_def verdict_def)
qed

lemma DecodeAttribute_found:
  assumes "table_ids I" "lookup_descriptor MK_Attribute (cp_cluster path) (cp_member path) = Some d"
  shows "DecodeAttribute I D path r = element_of_schema D d r"
proof -
  have d: "d \<in> set (filter (\<lambda>d. d_kind d = MK_Attribute) kDescriptors)"
      "cp_cluster path = d_cluster d" "cp_member path = d_member d"
    using assms(2) by (auto simp: lookup_descriptor_def find_Some_iff)
  note finish = converted_found [OF assms(2)]
  note ids = assms(1) [unfolded table_ids_def]
  from d(1) show ?thesis
    by (simp add: kDescriptors_def mk_descriptor_def)
      (elim disjE; simp add: ids d(2,3) DecodeAttribute_def element_of_schema_def native_of_schema_def finish split: sum.split)
qed

lemma DecodeAttribute_absent:
  assumes "table_ids I" "lookup_descriptor MK_Attribute (cp_cluster path) (cp_member path) = None"
  shows "DecodeAttribute I D path r = Inl CHIP_ERROR_UNSUPPORTED_CHIP_FEATURE"
proof -
  have "\<not> (cp_cluster path = d_cluster d \<and> cp_member path = d_member d)"
    if "d \<in> set (filter (\<lambda>d. d_kind d = MK_Attribute) kDescriptors)" for d
    using assms(2) that by (auto simp: lookup_descriptor_def find_None_iff)
  then have "list_all (\<lambda>d. \<not> (cp_cluster path = d_cluster d \<and> cp_member path = d_member d))
      (filter (\<lambda>d. d_kind d = MK_Attribute) kDescriptors)" by (simp add: list_all_iff)
  then show ?thesis
    unfolding assms(1) [unfolded table_ids_def] DecodeAttribute_def Let_def
    by (simp add: kDescriptors_def mk_descriptor_def del: de_Morgan_conj cong: conj_cong)
qed

lemma decoded_valid:
  assumes "table_ids I" "DecodeAttribute I D path r = Inr e"
  shows "validate_element MK_Attribute (cp_cluster path) (cp_member path) Op_Read e = CE_None"
proof (cases "lookup_descriptor MK_Attribute (cp_cluster path) (cp_member path)")
  case None
  then show ?thesis using DecodeAttribute_absent [OF assms(1)] assms(2) by simp
next
  case (Some d)
  then have "d \<in> set kDescriptors" "d_cluster d = cp_cluster path" "d_member d = cp_member path"
    by (auto simp: lookup_descriptor_def find_Some_iff)
  then have "d_schema d = Sch_AccessControlList \<Longrightarrow> cp_cluster path = 0x001F \<and> cp_member path = 0x0000"
    by (auto simp: kDescriptors_def mk_descriptor_def)
  then show ?thesis
    using element_of_schema_valid [OF Some, of D r e] assms DecodeAttribute_found [OF assms(1) Some] by simp
qed

lemma DecodeEvent_valid:
  assumes "DecodeEvent I D path r = Inr e"
  shows "validate_element MK_Event (cp_cluster path) (cp_member path) Op_Read e = CE_None"
proof -
  obtain v where v: "conv_error (convert_value MK_Event (cp_cluster path) (cp_member path) Op_Read v) = CE_None"
      "conv_element (convert_value MK_Event (cp_cluster path) (cp_member path) Op_Read v) = Some e"
    using assms by (auto simp: DecodeEvent_def converted_def Let_def split: if_splits sum.splits option.splits)
  then obtain d where d: "lookup_descriptor MK_Event (cp_cluster path) (cp_member path) = Some d"
      "d_operations d AND operation_flag Op_Read \<noteq> 0" "conv_error (convert d v) = CE_None" "conv_element (convert d v) = Some e"
    by (auto simp: convert_value_def split: option.splits if_splits)
  from convert_sound [OF d(3), of Op_Read] d show ?thesis by (auto simp: validate_element_def verdict_def)
qed

section \<open>What a reader finds after a write\<close>

text \<open>
  A writer that keeps its calls, and the documented relation between the two ends of a TLV stream: the reader
  of what was written finds the same tags and values in the same nesting, an integer with its value
  whatever width it was written with.  Answers that were not asked for are errors.
\<close>

definition record_call :: "writer_call list writer" where
  "record_call c calls = (None, calls @ [c])"

definition tlv_leaf :: "tlv_tag \<Rightarrow> tlv_type \<Rightarrow> i64 option \<Rightarrow> u64 option \<Rightarrow> bool option \<Rightarrow> tlv" where
  "tlv_leaf tag type s u b =
     Tlv tag type (case s of None \<Rightarrow> Inl (CHIP_ERROR_OTHER 0) | Some x \<Rightarrow> Inr x)
       (case u of None \<Rightarrow> Inl (CHIP_ERROR_OTHER 0) | Some x \<Rightarrow> Inr x)
       (case b of None \<Rightarrow> Inl (CHIP_ERROR_OTHER 0) | Some x \<Rightarrow> Inr x)
       (Some (CHIP_ERROR_OTHER 0)) [] CHIP_END_OF_TLV None"

definition tlv_container :: "tlv_tag \<Rightarrow> tlv_type \<Rightarrow> tlv list \<Rightarrow> tlv" where
  "tlv_container tag type cs =
     Tlv tag type (Inl (CHIP_ERROR_OTHER 0)) (Inl (CHIP_ERROR_OTHER 0)) (Inl (CHIP_ERROR_OTHER 0)) None cs CHIP_END_OF_TLV None"

type_synonym open_containers = "((tlv_tag \<times> tlv_type) \<times> tlv list) list"

definition add_tlv :: "tlv \<Rightarrow> open_containers \<Rightarrow> open_containers" where
  "add_tlv x st = (case st of [] \<Rightarrow> [] | (h, xs) # rest \<Rightarrow> (h, xs @ [x]) # rest)"

fun replay :: "writer_call \<Rightarrow> open_containers \<Rightarrow> open_containers" where
  "replay (PutNull tag) st = add_tlv (tlv_leaf tag kTLVType_Null None None None) st"
| "replay (PutI16 tag v) st = add_tlv (tlv_leaf tag kTLVType_SignedInteger (Some (scast v)) None None) st"
| "replay (Encode_i16 tag v) st = add_tlv (tlv_leaf tag kTLVType_SignedInteger (Some (scast v)) None None) st"
| "replay (PutU8 tag v) st = add_tlv (tlv_leaf tag kTLVType_UnsignedInteger None (Some (ucast v)) None) st"
| "replay (Encode_enum8 tag v) st = add_tlv (tlv_leaf tag kTLVType_UnsignedInteger None (Some (ucast v)) None) st"
| "replay (PutU16 tag v) st = add_tlv (tlv_leaf tag kTLVType_UnsignedInteger None (Some (ucast v)) None) st"
| "replay (PutU32 tag v) st = add_tlv (tlv_leaf tag kTLVType_UnsignedInteger None (Some (ucast v)) None) st"
| "replay (PutU64 tag v) st = add_tlv (tlv_leaf tag kTLVType_UnsignedInteger None (Some v) None) st"
| "replay (PutBoolean tag v) st = add_tlv (tlv_leaf tag kTLVType_Boolean None None (Some v)) st"
| "replay (StartContainer tag type) st = ((tag, type), []) # st"
| "replay EndContainer st =
     (case st of ((tag, type), xs) # rest \<Rightarrow> add_tlv (tlv_container tag type xs) rest | [] \<Rightarrow> [])"

text \<open>The elements on the stream after a sequence of calls; the outermost frame stands for the stream.\<close>

definition written :: "writer_call list \<Rightarrow> tlv list" where
  "written calls = snd (hd (fold replay calls [((AnonymousTag, kTLVType_Structure), [])]))"

fun tree :: "Element \<Rightarrow> tlv" where
  "tree (Element t ty s u b cs) =
     (let tag = NativeTag t
      in case ty of
        ET_Null \<Rightarrow> tlv_leaf tag kTLVType_Null None None None
      | ET_I16 \<Rightarrow> tlv_leaf tag kTLVType_SignedInteger (Some (scast (ucast s :: 16 word))) None None
      | ET_U8 \<Rightarrow> tlv_leaf tag kTLVType_UnsignedInteger None (Some (ucast (ucast u :: u8))) None
      | ET_U16 \<Rightarrow> tlv_leaf tag kTLVType_UnsignedInteger None (Some (ucast (ucast u :: u16))) None
      | ET_U32 \<Rightarrow> tlv_leaf tag kTLVType_UnsignedInteger None (Some (ucast (ucast u :: u32))) None
      | ET_U64 \<Rightarrow> tlv_leaf tag kTLVType_UnsignedInteger None (Some u) None
      | ET_Boolean \<Rightarrow> tlv_leaf tag kTLVType_Boolean None None (Some b)
      | ET_Structure \<Rightarrow> tlv_container tag kTLVType_Structure (map tree cs)
      | ET_Array \<Rightarrow> tlv_container tag kTLVType_Array (map tree cs))"

definition replays :: "Element \<Rightarrow> bool" where
  "replays e \<longleftrightarrow> (\<forall>calls. \<exists>new. EncodeElement record_call e calls = (None, calls @ new) \<and>
     (\<forall>h xs st. fold replay new ((h, xs) # st) = (h, xs @ [tree e]) # st))"

lemma replays_children:
  "\<forall>e\<in>set es. replays e \<Longrightarrow> \<exists>new. encode_children record_call es calls = (None, calls @ new) \<and>
     (\<forall>h xs st. fold replay new ((h, xs) # st) = (h, xs @ map tree es) # st)"
proof (induction es arbitrary: calls)
  case (Cons e es)
  obtain new1 where new1: "EncodeElement record_call e calls = (None, calls @ new1)"
      "\<And>h xs st. fold replay new1 ((h, xs) # st) = (h, xs @ [tree e]) # st"
    using Cons.prems by (force simp: replays_def)
  obtain new2 where new2: "encode_children record_call es (calls @ new1) = (None, (calls @ new1) @ new2)"
      "\<And>h xs st. fold replay new2 ((h, xs) # st) = (h, xs @ map tree es) # st"
    using Cons.IH [of "calls @ new1"] Cons.prems by auto
  show ?case using new1 new2 by (intro exI [of _ "new1 @ new2"]) simp
qed simp

lemma encode_replays: "replays e"
proof (induction e)
  case (Element t ty s u b cs)
  show ?case
  proof (cases "ty = ET_Structure \<or> ty = ET_Array")
    case True
    define start where "start = StartContainer (NativeTag t) (if ty = ET_Structure then kTLVType_Structure else kTLVType_Array)"
    have "\<exists>new. EncodeElement record_call (Element t ty s u b cs) calls = (None, calls @ new) \<and>
        (\<forall>h xs st. fold replay new ((h, xs) # st) = (h, xs @ [tree (Element t ty s u b cs)]) # st)" for calls
    proof -
      obtain new where "encode_children record_call cs (calls @ [start]) = (None, (calls @ [start]) @ new)"
          "\<And>h xs st. fold replay new ((h, xs) # st) = (h, xs @ map tree cs) # st"
        using replays_children [of cs "calls @ [start]"] Element by auto
      then show ?thesis
        using True by (intro exI [of _ "start # new @ [EndContainer]"])
          (auto simp: record_call_def start_def add_tlv_def tlv_container_def Let_def)
    qed
    then show ?thesis by (simp add: replays_def)
  next
    case False
    then show ?thesis by (cases ty) (auto simp: replays_def record_call_def add_tlv_def Let_def)
  qed
qed

lemma encode_written:
  assumes "EncodeElement record_call e [] = (err, calls)"
  shows "err = None \<and> written calls = [tree e]"
proof -
  obtain new where "EncodeElement record_call e [] = (None, [] @ new)"
      "\<And>h xs st. fold replay new ((h, xs) # st) = (h, xs @ [tree e]) # st"
    using encode_replays [of e, unfolded replays_def] by blast
  then show ?thesis using assms by (simp add: written_def)
qed

text \<open>The reader cannot tell how wide an integer was.\<close>

fun widened :: "Element \<Rightarrow> Element" where
  "widened (Element t ty s u b cs) =
     Element t (if ty \<in> {ET_U8, ET_U16, ET_U32} then ET_U64 else ty) s u b (map widened cs)"

lemma ucast_u8_down [simp]: "(ucast (ucast (i :: u8) :: u32) :: u8) = i"
  by transfer (simp add: min_def)

lemma decode_native_tag: "wf_tag t \<Longrightarrow> DecodeTag (NativeTag t) = Inr t"
  by (cases t; cases "tag_kind t") (auto simp: wf_tag_def DecodeTag_def NativeTag_def)

lemma ucast_u8_up: "(u :: u64) \<le> 0xFF \<Longrightarrow> ucast (ucast u :: u8) = u"
  by (simp add: word_unat_eq_iff unsigned_ucast_eq take_bit_eq_mod word_le_nat_alt unat_mod)

lemma signed_take_bit_i16:
  "- 32768 \<le> signed_take_bit 63 k \<Longrightarrow> signed_take_bit 63 k \<le> 32767 \<Longrightarrow> signed_take_bit 15 (k :: int) = signed_take_bit 63 k"
  using signed_take_bit_int_eq_self [of 15 "signed_take_bit 63 k"] signed_take_bit_signed_take_bit [of 15 63 k]
  by (simp only: min_def) simp

lemma scast_i16_up: "in_i16 s \<Longrightarrow> scast (ucast s :: 16 word) = s"
  unfolding in_i16_def
  by transfer (simp add: signed_take_bit_take_bit signed_take_bit_i16 take_bit_signed_take_bit)

lemmas narrow_widen = ucast_u8_up scast_i16_up ucast_u16_up ucast_u32_up

definition decodes_tree :: "Element \<Rightarrow> bool" where
  "decodes_tree e \<longleftrightarrow> (\<forall>d n. element_fits d e \<longrightarrow> n + element_count e \<le> 1024 \<longrightarrow>
     DecodeRawElement (tree e) d n = Inr (widened e, n + element_count e))"

lemma decodes_trees:
  "\<forall>e\<in>set es. decodes_tree e \<Longrightarrow> list_all (element_fits d) es \<Longrightarrow> n + sum_list (map element_count es) \<le> 1024 \<Longrightarrow>
   decode_children (map tree es) d n = Inr (map widened es, n + sum_list (map element_count es))"
  by (induction es arbitrary: n) (simp_all add: decodes_tree_def algebra_simps)

lemma decode_tree: "wf_element e \<Longrightarrow> decodes_tree e"
proof (induction e)
  case (Element t ty s u b cs)
  have "\<forall>e\<in>set cs. decodes_tree e" using Element by (simp add: list_all_iff)
  note cs = decodes_trees [OF this]
  have tag: "DecodeTag (NativeTag t) = Inr t" using Element.prems by (simp add: decode_native_tag)
  show ?case
    unfolding decodes_tree_def
    using Element.prems tag
    by (cases ty) (auto simp: tlv_leaf_def tlv_container_def Let_def cs narrow_widen)
qed

section \<open>Normalisation restores the widths of an access control list\<close>

lemma map_or_fail_map: "\<forall>x\<in>set xs. f (g x) = Some x \<Longrightarrow> map_or_fail f (map g xs) = Some xs"
  by (induction xs) simp_all

lemma widened_sel [simp]:
  "elem_tag (widened e) = elem_tag e" "children (widened e) = map widened (children e)"
  "elem_type (widened e) = (if elem_type e \<in> {ET_U8, ET_U16, ET_U32} then ET_U64 else elem_type e)"
  "set_children cs (widened e) = set_children cs (set_type (elem_type (widened e)) e)"
  by (cases e; simp)+

lemma set_sel [simp]: "set_type (elem_type e) e = e" "set_children (children e) e = e"
  by (cases e; simp)+

lemma wf_children: "wf_element e \<Longrightarrow> x \<in> set (children e) \<Longrightarrow> wf_element x"
  by (cases e) (auto simp: list_all_iff)

lemma widened_leaf:
  "wf_element e \<Longrightarrow> elem_type e \<notin> {ET_Structure, ET_Array} \<Longrightarrow> set_type (elem_type e) (widened e) = e"
  by (cases e) auto

lemma widened_same:
  "wf_element e \<Longrightarrow> elem_type e \<notin> {ET_Structure, ET_Array, ET_U8, ET_U16, ET_U32} \<Longrightarrow> widened e = e"
  by (cases e) auto

lemma target_fields:
  assumes "ValidTarget x" "f \<in> set (children x)"
  shows "tag_kind (elem_tag f) = TK_Context \<and>
    (elem_type f = ET_Null \<or> elem_type f = (if tag_id (elem_tag f) = 1 then ET_U16 else ET_U32))"
proof -
  have g: "length (children x) = 3" "NullableTargetField (ContextField x 0) ET_U32 0xFFFFFFFF True"
      "NullableTargetField (ContextField x 1) ET_U16 0xFFFE False" "NullableTargetField (ContextField x 2) ET_U32 0xFFFFFFFF False"
    using assms(1) by (auto simp: ValidTarget_def Let_def split: if_splits)
  obtain c e d where f: "ContextField x 0 = Some c" "ContextField x 1 = Some e" "ContextField x 2 = Some d"
    using g by (auto simp: NullableTargetField_def split: option.splits)
  have ty: "elem_type c \<in> {ET_Null, ET_U32}" "elem_type e \<in> {ET_Null, ET_U16}" "elem_type d \<in> {ET_Null, ET_U32}"
    using g f by (auto simp: NullableTargetField_def)
  note u = f [THEN ContextField_Some]
  have "f = c \<or> f = e \<or> f = d"
    using g(1) assms(2) u by (auto simp: length_Suc_conv numeral_3_eq_3 split: if_splits)
  moreover have "tag_id (elem_tag c) = 0" "tag_id (elem_tag e) = 1" "tag_id (elem_tag d) = 2"
    using u by (auto simp: filter_eq_Cons_iff)
  ultimately show ?thesis using ty u(1) assms(2) by (auto simp: list_all_iff)
qed

lemma normalize_target_widened:
  assumes "wf_element x" "ValidTarget x"
  shows "normalize_target (widened x) = Some x"
proof -
  have x: "tag_kind (elem_tag x) = TK_Anonymous" "elem_type x = ET_Structure"
    using assms(2) by (auto simp: ValidTarget_def split: if_splits)
  have "normalize_target_field (widened f) = Some f" if "f \<in> set (children x)" for f
    using target_fields [OF assms(2) that] wf_children [OF assms(1) that] widened_leaf [of f] widened_same [of f]
    by (auto simp: normalize_target_field_def split: if_splits)
  then have "map_or_fail normalize_target_field (children (widened x)) = Some (children x)"
    by (simp add: map_or_fail_map)
  then show ?thesis using x set_sel [of x] by (simp add: normalize_target_def)
qed

lemma filter_eq_single: "distinct xs \<Longrightarrow> y \<in> set xs \<Longrightarrow> filter (\<lambda>x. x = y) xs = [y]"
  by (induction xs) (auto simp: filter_empty_conv)

lemma ContextField_distinct:
  assumes "list_all (\<lambda>f. tag_kind (elem_tag f) = TK_Context) (children x)" "distinct (map elem_tag (children x))" "f \<in> set (children x)"
  shows "ContextField x (tag_id (elem_tag f)) = Some f"
proof -
  have "filter (\<lambda>g. tag_id (elem_tag g) = tag_id (elem_tag f)) (children x) = filter (\<lambda>g. g = f) (children x)"
  proof (rule filter_cong [OF refl])
    fix g assume g: "g \<in> set (children x)"
    then have "tag_kind (elem_tag g) = tag_kind (elem_tag f)" using assms(1,3) by (simp add: list_all_iff)
    then have "tag_id (elem_tag g) = tag_id (elem_tag f) \<longleftrightarrow> elem_tag g = elem_tag f" by (metis Tag.expand)
    also have "\<dots> \<longleftrightarrow> g = f" using assms(2,3) g by (auto simp: distinct_map inj_on_def)
    finally show "tag_id (elem_tag g) = tag_id (elem_tag f) \<longleftrightarrow> g = f" .
  qed
  also have "\<dots> = [f]"
    using assms(2,3) by (simp add: distinct_map filter_eq_single)
  finally show ?thesis unfolding ContextField_def by (rule context_field_loop_unique [OF assms(1)])
qed

text \<open>The fields of a valid entry by their tags.\<close>

lemma entry_fields:
  assumes "valid_acl_entry operation x" "distinct (map elem_tag (children x))" "f \<in> set (children x)"
  shows "tag_kind (elem_tag f) = TK_Context" "tag_id (elem_tag f) \<in> {1, 2, 5, 254} \<Longrightarrow> elem_type f = ET_U8"
    "tag_id (elem_tag f) = 3 \<Longrightarrow> elem_type f = ET_Null \<or> elem_type f = ET_Array \<and> (\<forall>s\<in>set (children f). elem_type s = ET_U64)"
    "tag_id (elem_tag f) = 4 \<Longrightarrow> elem_type f = ET_Null \<or> elem_type f = ET_Array \<and> (\<forall>s\<in>set (children f). ValidTarget s)"
    "tag_id (elem_tag f) \<in> {1, 2, 3, 4, 5, 254}"
proof -
  have all: "list_all (\<lambda>f. tag_kind (elem_tag f) = TK_Context \<and> tag_id (elem_tag f) \<in> {1, 2, 3, 4, 5, 254}) (children x)"
    using assms(1) by (auto simp: valid_acl_entry_def Let_def split: if_splits)
  then show "tag_kind (elem_tag f) = TK_Context" "tag_id (elem_tag f) \<in> {1, 2, 3, 4, 5, 254}"
    using assms(3) by (auto simp: list_all_iff)
  have f: "ContextField x (tag_id (elem_tag f)) = Some f"
    using all by (intro ContextField_distinct assms(2,3)) (simp add: list_all_iff)
  show "elem_type f = ET_U8" if "tag_id (elem_tag f) \<in> {1, 2, 5, 254}"
    using assms(1) f that by (auto simp: valid_acl_entry_def Let_def split: if_splits)
  show "elem_type f = ET_Null \<or> elem_type f = ET_Array \<and> (\<forall>s\<in>set (children f). elem_type s = ET_U64)" if "tag_id (elem_tag f) = 3"
    using assms(1) f that by (auto simp: valid_acl_entry_def Let_def ValidNullableSubjects_def list_all_iff split: if_splits)
  show "elem_type f = ET_Null \<or> elem_type f = ET_Array \<and> (\<forall>s\<in>set (children f). ValidTarget s)" if "tag_id (elem_tag f) = 4"
    using assms(1) f that by (auto simp: valid_acl_entry_def Let_def ValidNullableTargets_def list_all_iff split: if_splits)
qed

lemma widened_array:
  assumes "elem_type f \<in> {ET_Structure, ET_Array}" "map widened (children f) = cs"
  shows "widened f = set_children cs f"
  using assms by (cases f) auto

lemma normalize_field_widened:
  assumes "wf_element x" "valid_acl_entry operation x" "distinct (map elem_tag (children x))" "f \<in> set (children x)"
  shows "normalize_field (widened f) = Some f"
proof -
  note f = entry_fields [OF assms(2-4)]
  have wf: "wf_element f" by (rule wf_children [OF assms(1,4)])
  consider "tag_id (elem_tag f) \<in> {1, 2, 5, 254}" "elem_type f = ET_U8" | "elem_type f = ET_Null"
    | "tag_id (elem_tag f) = 3" "elem_type f = ET_Array" "\<forall>s\<in>set (children f). elem_type s = ET_U64"
    | "tag_id (elem_tag f) = 4" "elem_type f = ET_Array" "\<forall>s\<in>set (children f). ValidTarget s"
    using f(2-5) by auto
  then show ?thesis
  proof cases
    case 1
    then show ?thesis using f(1) widened_leaf [OF wf] by (auto simp: normalize_field_def)
  next
    case 2
    then show ?thesis using f(1) widened_same [OF wf] by (auto simp: normalize_field_def)
  next
    case 3
    have "map widened (children f) = children f"
      using 3 wf_children [OF wf] widened_same by (intro map_idI) auto
    then have "widened f = f" using 3 by (simp add: widened_array)
    then show ?thesis using 3 f(1) by (simp add: normalize_field_def)
  next
    case 4
    have "map_or_fail normalize_target (children (widened f)) = Some (children f)"
      using 4 wf_children [OF wf] by (simp add: map_or_fail_map normalize_target_widened)
    then show ?thesis using 4 f(1) set_sel [of f] by (simp add: normalize_field_def)
  qed
qed

lemma normalize_entry_widened:
  assumes "wf_element x" "valid_acl_entry operation x" "distinct (map elem_tag (children x))"
  shows "normalize_entry (widened x) = Some x"
proof -
  have x: "tag_kind (elem_tag x) = TK_Anonymous" "elem_type x = ET_Structure"
    using assms(2) by (auto simp: valid_acl_entry_def split: if_splits)
  have "map_or_fail normalize_field (children (widened x)) = Some (children x)"
    using normalize_field_widened [OF assms] by (simp add: map_or_fail_map)
  then show ?thesis using x set_sel [of x] by (simp add: normalize_entry_def)
qed

lemma normalize_widened:
  assumes "wf_element e" "validate_element MK_Attribute 0x001F 0x0000 Op_Read e = CE_None"
    "\<forall>x\<in>set (children e). distinct (map elem_tag (children x))"
  shows "NormalizeAccessControl (widened e) = Inr e"
proof -
  have "valid_access_control_list e Op_Read"
    using assms(2) by (auto simp: validate_element_def verdict_def lookup_descriptor_def kDescriptors_def mk_descriptor_def
        valid_body_def split: if_splits)
  then have e: "elem_type e = ET_Array" "tag_kind (elem_tag e) = TK_Anonymous" "length (children e) \<le> 64"
      "\<forall>x\<in>set (children e). valid_acl_entry Op_Read x"
    by (simp_all add: valid_access_control_list_def list_all_iff)
  have "map_or_fail normalize_entry (children (widened e)) = Some (children e)"
    using e(4) assms(3) wf_children [OF assms(1)] by (simp add: map_or_fail_map normalize_entry_widened [of _ Op_Read])
  then show ?thesis using e assms(2) set_sel [of e] by (simp add: NormalizeAccessControl_def)
qed

section \<open>Properties\<close>

text \<open>
  With the identifiers of the descriptor table, \<open>DecodeAttribute\<close> supports exactly the attributes
  of the table and decodes each by the decoder of its schema; whatever a reader or the SDK answers, an element it
  returns is accepted by \<open>validate_element\<close> for the attribute.
\<close>

theorem DecodeAttribute_table:
  assumes "table_ids I"
  shows "DecodeAttribute I D path r =
      (case lookup_descriptor MK_Attribute (cp_cluster path) (cp_member path) of
         None \<Rightarrow> Inl CHIP_ERROR_UNSUPPORTED_CHIP_FEATURE
       | Some d \<Rightarrow> element_of_schema D d r) \<and>
    (\<forall>e. DecodeAttribute I D path r = Inr e \<longrightarrow>
      validate_element MK_Attribute (cp_cluster path) (cp_member path) Op_Read e = CE_None)"
  using decoded_valid [OF assms] DecodeAttribute_absent [OF assms] DecodeAttribute_found [OF assms] by (auto split: option.split)

definition example_ids :: sdk_ids where
  "example_ids =
     \<lparr>id_Thermostat = 0x0201, id_LocalTemperature = 0x0000, id_OccupiedCoolingSetpoint = 0x0011,
      id_OccupiedHeatingSetpoint = 0x0012, id_SystemMode = 0x001C, id_OnOff = 0x0006, id_OnOff_OnOff = 0x0000,
      id_Off = 0x0000, id_On = 0x0001, id_Toggle = 0x0002,
      id_Descriptor = 0x001D, id_DeviceTypeList = 0x0000, id_ServerList = 0x0001, id_ClientList = 0x0002,
      id_PartsList = 0x0003, id_BridgedDeviceBasicInformation = 0x0039, id_Reachable = 0x0011,
      id_ReachableChanged = 0x0003, id_TemperatureMeasurement = 0x0402, id_MeasuredValue = 0x0000,
      id_AccessControl = 0x001F, id_Acl = 0x0000, id_AdministratorCommissioning = 0x003C,
      id_WindowStatus = 0x0000, id_AdminFabricIndex = 0x0001, id_AdminVendorId = 0x0002\<rparr>"

text \<open>Typed decoders that answer from the reader as the raw decoder does; lists are refused.\<close>

definition example_decode :: sdk_decode where
  "example_decode =
     \<lparr>dm_i16 = (\<lambda>r. map_result ucast (rd_signed r)), dm_nullable_i16 = (\<lambda>r. map_result (\<lambda>v. Some (ucast v)) (rd_signed r)),
      dm_enum8 = (\<lambda>r. map_result ucast (rd_unsigned r)), dm_boolean = rd_boolean,
      dm_nullable_u8 = (\<lambda>r. map_result (\<lambda>v. Some (ucast v)) (rd_unsigned r)),
      dm_nullable_u16 = (\<lambda>r. map_result (\<lambda>v. Some (ucast v)) (rd_unsigned r)),
      dm_clusters = (\<lambda>r. Inl CHIP_ERROR_INVALID_ARGUMENT), dm_endpoints = (\<lambda>r. Inl CHIP_ERROR_INVALID_ARGUMENT),
      dm_device_types = (\<lambda>r. Inl CHIP_ERROR_INVALID_ARGUMENT), dm_reachable_changed = rd_boolean\<rparr>"

definition example_path :: "u32 \<Rightarrow> u32 \<Rightarrow> ConcretePath" where
  "example_path c m = \<lparr>cp_fabric_id = 1, cp_node_id = 2, cp_endpoint = 1, cp_cluster = c, cp_member = m\<rparr>"

lemma example_table: "table_ids example_ids"
  by (simp add: table_ids_def example_ids_def)

theorem DecodeAttribute_table_witness:
  "DecodeAttribute example_ids example_decode (example_path 6 0) (tlv_leaf AnonymousTag kTLVType_Boolean None None (Some True)) =
     Inr (Element anonymous ET_Boolean 0 0 True []) \<and>
   validate_element MK_Attribute 6 0 Op_Read (Element anonymous ET_Boolean 0 0 True []) = CE_None"
proof -
  let ?r = "tlv_leaf AnonymousTag kTLVType_Boolean None None (Some True)"
  have "DecodeAttribute example_ids example_decode (example_path 6 0) ?r = Inr (Element anonymous ET_Boolean 0 0 True [])"
    using DecodeAttribute_table [OF example_table, of example_decode "example_path 6 0" ?r]
    by (simp add: example_path_def lookup_descriptor_def kDescriptors_def mk_descriptor_def element_of_schema_def
        native_of_schema_def DecodeScalar_boolean_def example_decode_def tlv_leaf_def map_result_def convert_def native_boolean_def)
  then show ?thesis
    using DecodeAttribute_table [OF example_table, of example_decode "example_path 6 0" ?r] by (simp add: example_path_def)
qed

text \<open>
  Property C38. An access control list survives the device: a well-formed valid list within the bounds of
  the decoder whose entries repeat no tag is encoded without an error, and decoding the stream that the calls of the writer left
  gives the same list back, the width of every integer included.
\<close>

theorem acl_stream_roundtrip:
  assumes "table_ids I" "cp_cluster path = id_AccessControl I" "cp_member path = id_Acl I"
    and "wf_element e" "element_fits 0 e" "element_count e \<le> 1024"
    and "validate_element MK_Attribute (cp_cluster path) (cp_member path) Op_Read e = CE_None"
    and "\<forall>x\<in>set (children e). distinct (map elem_tag (children x))"
  shows "\<exists>calls r. EncodeElement record_call e [] = (None, calls) \<and> written calls = [r] \<and>
    DecodeAttribute I D path r = Inr e"
proof -
  obtain err calls where calls: "EncodeElement record_call e [] = (err, calls)" by fastforce
  have acl: "cp_cluster path = 0x001F" "cp_member path = 0x0000" using assms(1-3) by (simp_all add: table_ids_def)
  have "DecodeRawElement (tree e) 0 0 = Inr (widened e, element_count e)"
    using decode_tree [OF assms(4)] assms(5,6) by (simp add: decodes_tree_def)
  moreover have "NormalizeAccessControl (widened e) = Inr e"
    using assms(4,7,8) acl by (simp add: normalize_widened)
  ultimately have "DecodeAttribute I D path (tree e) = Inr e"
    using assms(1) acl by (simp add: DecodeAttribute_def table_ids_def)
  then show ?thesis using encode_written [OF calls] calls by blast
qed

definition example_acl :: Element where
  "example_acl = Element anonymous ET_Array 0 0 False
     [Element anonymous ET_Structure 0 0 False
       [Element (Tag TK_Context 1) ET_U8 0 5 False [], Element (Tag TK_Context 2) ET_U8 0 2 False [],
        Element (Tag TK_Context 3) ET_Array 0 0 False [Element anonymous ET_U64 0 112233 False []],
        Element (Tag TK_Context 4) ET_Array 0 0 False
          [Element anonymous ET_Structure 0 0 False
            [Element (Tag TK_Context 0) ET_U32 0 6 False [], Element (Tag TK_Context 1) ET_U16 0 1 False [],
             Element (Tag TK_Context 2) ET_Null 0 0 False []]],
        Element (Tag TK_Context 254) ET_U8 0 1 False []]]"

lemma example_acl_valid: "validate_element MK_Attribute 0x001F 0x0000 Op_Read example_acl = CE_None"
  by (simp add: validate_element_def lookup_descriptor_def kDescriptors_def mk_descriptor_def kRead_def kWrite_def example_acl_def
      verdict_def valid_body_def valid_access_control_list_def valid_acl_entry_def ContextField_def ValidNullableSubjects_def
      ValidNullableTargets_def ValidTarget_def NullableTargetField_def valid_cluster_def word_le_nat_alt)

theorem acl_stream_roundtrip_witness:
  "\<exists>calls r. EncodeElement record_call example_acl [] = (None, calls) \<and> written calls = [r] \<and>
    DecodeAttribute example_ids example_decode (example_path 0x001F 0x0000) r = Inr example_acl"
proof (rule acl_stream_roundtrip [OF example_table])
  show "validate_element MK_Attribute (cp_cluster (example_path 0x001F 0x0000)) (cp_member (example_path 0x001F 0x0000)) Op_Read example_acl = CE_None"
    by (simp add: example_path_def example_acl_valid)
qed (simp_all add: example_path_def example_ids_def example_acl_def wf_tag_def word_le_nat_alt unat_max_u64)

text \<open>
  The size estimate of a decoded element is 96 bytes for each of its nodes, and one more
  than the limit of a result as soon as that sum exceeds the limit.
\<close>

theorem EstimatedElementBytes_eq:
  "EstimatedElementBytes e = min (96 * element_count e) (kMaximumInteractionResultBytes + 1)"
proof -
  have "\<not> 96 * element_count e = kMaximumInteractionResultBytes + 1"
    unfolding kMaximumInteractionResultBytes_def by presburger
  then show ?thesis using estimate_bytes(1) [of e] by (auto simp: min_def)
qed

end
