(* ===== verification/ControllerPending.thy ===== *)
theory ControllerPending
  imports ControllerCodec
begin

text \<open>
  \<open>Pending\<close> of \<^verbatim>\<open>native/src/controller.cpp\<close>: one read, write or invoke on its way through the Matter SDK, from
  the connection to the published response.

  The SDK is an environment that makes callbacks.  \<open>enabled\<close> states what it promises about them: the
  connection callbacks come once and only while they are registered, and the callbacks of a client only as long as
  that client exists; a read may be answered with any path, attribute or event.  The thread that waits in
  \<open>Wait\<close> runs beside the thread of the SDK; \<open>OnConnected\<close>, which holds no lock, is therefore two steps with
  room between them.
\<close>

section \<open>What is handed to the SDK\<close>

record sdk_path =
  sp_endpoint :: u16
  sp_cluster :: u32
  sp_member :: u32

definition NativePath :: "u64 \<Rightarrow> u64 \<Rightarrow> sdk_path \<Rightarrow> ConcretePath" where
  "NativePath fabric_id node_id path =
     \<lparr>cp_fabric_id = fabric_id, cp_node_id = node_id, cp_endpoint = sp_endpoint path, cp_cluster = sp_cluster path,
      cp_member = sp_member path\<rparr>"

record status_ib =
  sib_success :: bool
  sib_status :: u8
  sib_cluster_status :: "u8 option"

definition mk_error :: "string \<Rightarrow> InteractionEffect \<Rightarrow> InteractionError" where
  "mk_error code effect = \<lparr>ie_code = code, ie_status = None, ie_cluster_status = None, ie_effect = effect\<rparr>"

definition StatusError :: "status_ib \<Rightarrow> InteractionEffect \<Rightarrow> InteractionError" where
  "StatusError status effect =
     \<lparr>ie_code = ''interaction_status'', ie_status = Some (sib_status status),
      ie_cluster_status = sib_cluster_status status, ie_effect = effect\<rparr>"

text \<open>A component of an attribute path that is \<open>None\<close> is the wildcard.\<close>

record attribute_path =
  ap_endpoint :: "u16 option"
  ap_cluster :: "u32 option"
  ap_attribute :: "u32 option"

record read_params =
  rp_timeout :: u32
  rp_keep_subscriptions :: bool
  rp_fabric_filtered :: bool
  rp_event_paths :: "sdk_path list"
  rp_event_number :: "u64 option"
  rp_attribute_paths :: "attribute_path list"

datatype sdk_request =
  SendRead read_params
| SendWrite sdk_path "u32 option" "u16 option" "writer_call list" u32
| SendCommand sdk_path "u16 option" u32

datatype client = ReadClient | WriteClient | CommandSender

text \<open>What the SDK answers to the calls of one start.\<close>

record start_answers =
  sa_writer :: "writer_call \<Rightarrow> writer_call list \<Rightarrow> chip_error option"
  sa_finalize :: "chip_error option"
  sa_next :: "chip_error option"
  sa_put_preencoded :: "chip_error option"
  sa_add_request :: "chip_error option"
  sa_send :: "chip_error option"

section \<open>State\<close>

text \<open>\<open>pd_started\<close>, \<open>pd_armed\<close> and \<open>pd_sent\<close> keep what the SDK knows: that \<open>Start\<close> ran, that the connection
  callbacks are registered, and which requests it was given with what answer.  \<open>pd_connected\<close> is the remaining
  time that \<open>OnConnected\<close> has computed while it is between its two parts.\<close>

record Pending =
  pd_request :: InteractionRequest
  pd_response :: InteractionResponse
  pd_published :: bool
  pd_done :: bool
  pd_mutation :: latch
  pd_overall_error :: "InteractionError option"
  pd_results :: "PathResult list"
  pd_mutation_path :: "ConcretePath option"
  pd_mutation_responses :: u32
  pd_retained_result_bytes :: nat
  pd_client :: "client option"
  pd_started :: bool
  pd_armed :: bool
  pd_connected :: "u32 option"
  pd_sent :: "(sdk_request \<times> chip_error option) list"
  pd_reaps :: nat

definition empty_response :: InteractionResponse where
  "empty_response =
     \<lparr>rs_ok = False, rs_error = None, rs_results = [], rs_response_path = None, rs_response_value = None, rs_status = 0,
      rs_cluster_status = None\<rparr>"

definition failed_response :: "InteractionError \<Rightarrow> InteractionResponse" where
  "failed_response e = empty_response\<lparr>rs_error := Some e\<rparr>"

definition mk_pending :: "InteractionRequest \<Rightarrow> Pending" where
  "mk_pending request =
     \<lparr>pd_request = request, pd_response = empty_response, pd_published = False, pd_done = False, pd_mutation = latch_init,
      pd_overall_error = None, pd_results = [], pd_mutation_path = None, pd_mutation_responses = 0,
      pd_retained_result_bytes = 0, pd_client = None, pd_started = False, pd_armed = False, pd_connected = None,
      pd_sent = [], pd_reaps = 0\<rparr>"

section \<open>Publication\<close>

definition Remaining :: "u64 \<Rightarrow> Pending \<Rightarrow> u32" where
  "Remaining elapsed p = remaining_timeout_ms (rq_timeout_ms (pd_request p)) elapsed"

definition IsMutation :: "Pending \<Rightarrow> bool" where
  "IsMutation p \<longleftrightarrow> rq_kind (pd_request p) = IK_Write \<or> rq_kind (pd_request p) = IK_Invoke"

definition current_effect :: "Pending \<Rightarrow> InteractionEffect" where
  "current_effect p = (if submitted (pd_mutation p) \<and> IsMutation p then Effect_Unknown else Effect_None)"

definition Publish :: "InteractionResponse \<Rightarrow> Pending \<Rightarrow> Pending" where
  "Publish response p = (if pd_published p then p else p\<lparr>pd_response := response, pd_published := True\<rparr>)"

definition MarkDone :: "Pending \<Rightarrow> Pending" where
  "MarkDone p = (if pd_done p then p else p\<lparr>pd_done := True, pd_reaps := pd_reaps p + 1\<rparr>)"

definition FailBeforeSubmission :: "string \<Rightarrow> Pending \<Rightarrow> Pending" where
  "FailBeforeSubmission code p = Publish (failed_response (mk_error code Effect_None)) p"

definition DoneWithoutClient :: "Pending \<Rightarrow> Pending" where
  "DoneWithoutClient p = MarkDone p"

text \<open>\<open>Wait\<close> returns the response; when \<open>WaitForControl\<close> says that time is up or the host stops, it writes one
  itself, whatever was published before.\<close>

definition Wait :: "bool \<Rightarrow> Pending \<Rightarrow> InteractionResponse \<times> Pending" where
  "Wait waited p =
     (let p' = (if waited then p
                else p\<lparr>pd_response := failed_response (mk_error ''interaction_timeout'' (current_effect p)),
                       pd_published := True\<rparr>)
      in (pd_response p', p'))"

definition AbortOnSdkThread :: "Pending \<Rightarrow> Pending" where
  "AbortOnSdkThread p =
     (let p1 = p\<lparr>pd_armed := False, pd_client := None\<rparr>
      in (Publish (failed_response (mk_error ''controller_closed'' (current_effect p1))) p1)\<lparr>pd_done := True\<rparr>)"

section \<open>Starting\<close>

definition Start :: "u64 \<Rightarrow> chip_error option \<Rightarrow> Pending \<Rightarrow> Pending" where
  "Start elapsed connecting p =
     (let p = p\<lparr>pd_started := True\<rparr>
      in if Remaining elapsed p = 0 then DoneWithoutClient (FailBeforeSubmission ''interaction_timeout'' p)
         else case connecting of
           Some _ \<Rightarrow> DoneWithoutClient (FailBeforeSubmission ''session_establishment_failed'' p)
         | None \<Rightarrow> p\<lparr>pd_armed := True\<rparr>)"

definition ConnectionFailed :: "Pending \<Rightarrow> Pending" where
  "ConnectionFailed p =
     DoneWithoutClient (FailBeforeSubmission ''session_establishment_failed'' (p\<lparr>pd_armed := False\<rparr>))"

definition concrete_path :: "PathSelector \<Rightarrow> sdk_path" where
  "concrete_path path =
     \<lparr>sp_endpoint = the (ps_endpoint path), sp_cluster = the (ps_cluster path), sp_member = the (ps_member path)\<rparr>"

definition selector_path :: "PathSelector \<Rightarrow> attribute_path" where
  "selector_path path =
     \<lparr>ap_endpoint = ps_endpoint path, ap_cluster = ps_cluster path, ap_attribute = ps_member path\<rparr>"

definition send :: "sdk_request \<Rightarrow> start_answers \<Rightarrow> Pending \<Rightarrow> chip_error option \<times> Pending" where
  "send r a p = (sa_send a, p\<lparr>pd_sent := pd_sent p @ [(r, sa_send a)]\<rparr>)"

definition StartRead :: "start_answers \<Rightarrow> u32 \<Rightarrow> Pending \<Rightarrow> chip_error option \<times> Pending" where
  "StartRead a remaining p =
     (let events = rq_kind (pd_request p) = IK_ReadEvents
      in send (SendRead
           \<lparr>rp_timeout = remaining, rp_keep_subscriptions = False, rp_fabric_filtered = True,
            rp_event_paths = (if events then map concrete_path (rq_paths (pd_request p)) else []),
            rp_event_number = (if events then rq_minimum_event_number (pd_request p) else None),
            rp_attribute_paths = (if events then [] else map selector_path (rq_paths (pd_request p)))\<rparr>)
         a (p\<lparr>pd_client := Some ReadClient\<rparr>))"

definition submit :: "Pending \<Rightarrow> Pending" where
  "submit p = p\<lparr>pd_mutation := snd (Submit_latch (pd_mutation p))\<rparr>"

definition answering_writer :: "start_answers \<Rightarrow> writer_call list writer" where
  "answering_writer a c calls = (case sa_writer a c calls of None \<Rightarrow> (None, calls @ [c]) | Some err \<Rightarrow> (Some err, calls))"

definition StartWrite :: "sdk_ids \<Rightarrow> start_answers \<Rightarrow> u32 \<Rightarrow> Pending \<Rightarrow> chip_error option \<times> Pending" where
  "StartWrite I a remaining p =
     (let request = pd_request p;
          p1 = p\<lparr>pd_client := Some WriteClient\<rparr>;
          native = concrete_path (hd (rq_paths request));
          concrete = NativePath (rq_fabric_id request) (rq_node_id request) native
      in case EncodeWriteValue I (answering_writer a) concrete (the (rq_value request)) [] of
           (Some err, _) \<Rightarrow> (Some err, p1)
         | (None, encoded) \<Rightarrow>
             if sa_finalize a \<noteq> None then (sa_finalize a, p1)
             else if sa_next a \<noteq> None then (sa_next a, p1)
             else if sa_put_preencoded a \<noteq> None then (sa_put_preencoded a, p1)
             else send (SendWrite native (rq_expected_data_version request) (rq_timed_request_timeout_ms request)
                    encoded remaining) a (submit p1))"

definition StartInvoke :: "sdk_ids \<Rightarrow> start_answers \<Rightarrow> u32 \<Rightarrow> Pending \<Rightarrow> chip_error option \<times> Pending" where
  "StartInvoke I a remaining p =
     (let request = pd_request p;
          p1 = p\<lparr>pd_client := Some CommandSender\<rparr>;
          native = concrete_path (hd (rq_paths request));
          err = (if sp_cluster native = id_OnOff I \<and>
                    (sp_member native = id_Off I \<or> sp_member native = id_On I \<or> sp_member native = id_Toggle I)
                 then sa_add_request a else Some CHIP_ERROR_UNSUPPORTED_CHIP_FEATURE)
      in if err \<noteq> None then (err, p1)
         else send (SendCommand native (rq_timed_request_timeout_ms request) remaining) a (submit p1))"

text \<open>\<open>OnConnected\<close> up to the choice of the client, and the rest.\<close>

definition OnConnected :: "u64 \<Rightarrow> Pending \<Rightarrow> Pending" where
  "OnConnected elapsed p =
     (let p = p\<lparr>pd_armed := False\<rparr>; remaining = Remaining elapsed p
      in if remaining = 0 \<or>
            (case rq_timed_request_timeout_ms (pd_request p) of None \<Rightarrow> False | Some t \<Rightarrow> ucast t > remaining)
         then DoneWithoutClient (FailBeforeSubmission ''interaction_timeout'' p)
         else p\<lparr>pd_connected := Some remaining\<rparr>)"

definition start_choice :: "sdk_ids \<Rightarrow> start_answers \<Rightarrow> u32 \<Rightarrow> Pending \<Rightarrow> chip_error option \<times> Pending" where
  "start_choice I a remaining p =
     (let kind = rq_kind (pd_request p)
      in if kind = IK_ReadAttribute \<or> kind = IK_ReadAttributes \<or> kind = IK_ReadEvents then StartRead a remaining p
         else if kind = IK_Write then StartWrite I a remaining p
         else if kind = IK_Invoke then StartInvoke I a remaining p
         else (Some CHIP_ERROR_INVALID_ARGUMENT, p))"

definition start_client :: "sdk_ids \<Rightarrow> start_answers \<Rightarrow> Pending \<Rightarrow> Pending" where
  "start_client I a p =
     (case start_choice I a (the (pd_connected p)) (p\<lparr>pd_connected := None\<rparr>) of
        (None, p1) \<Rightarrow> p1
      | (Some err, p1) \<Rightarrow>
          DoneWithoutClient (FailBeforeSubmission ''interaction_submit_failed'' (p1\<lparr>pd_client := None\<rparr>)))"

section \<open>Reports and responses\<close>

definition result_size :: "PathResult \<Rightarrow> nat" where
  "result_size r =
     256 + (case pr_attribute r of None \<Rightarrow> 0 | Some a \<Rightarrow> EstimatedElementBytes (ad_value a)) +
     (case pr_event r of None \<Rightarrow> 0 | Some e \<Rightarrow> EstimatedElementBytes (ed_value e) + 96)"

definition AppendResult :: "PathResult \<Rightarrow> Pending \<Rightarrow> Pending" where
  "AppendResult r p =
     (if length (pd_results p) \<ge> kMaximumInteractionReports \<or>
         pd_retained_result_bytes p > kMaximumInteractionResultBytes \<or>
         result_size r > kMaximumInteractionResultBytes - pd_retained_result_bytes p
      then p\<lparr>pd_overall_error := Some (mk_error ''response_limit'' Effect_None)\<rparr>
      else p\<lparr>pd_retained_result_bytes := pd_retained_result_bytes p + result_size r, pd_results := pd_results p @ [r]\<rparr>)"

definition own_path :: "sdk_path \<Rightarrow> Pending \<Rightarrow> ConcretePath" where
  "own_path path p = NativePath (rq_fabric_id (pd_request p)) (rq_node_id (pd_request p)) path"

definition error_result :: "ConcretePath \<Rightarrow> InteractionError \<Rightarrow> PathResult" where
  "error_result path e = \<lparr>pr_path = path, pr_attribute = None, pr_event = None, pr_error = Some e\<rparr>"

definition OnAttributeData ::
    "sdk_ids \<Rightarrow> sdk_decode \<Rightarrow> sdk_path \<Rightarrow> u32 option \<Rightarrow> tlv option \<Rightarrow> status_ib \<Rightarrow> Pending \<Rightarrow> Pending" where
  "OnAttributeData I D path data_version data status p =
     (let own = own_path path p
      in AppendResult
        (if \<not> sib_success status then error_result own (StatusError status Effect_None)
         else case data of
           None \<Rightarrow> error_result own (mk_error ''invalid_attribute_data'' Effect_None)
         | Some r \<Rightarrow>
             (case DecodeAttribute I D own r of
                Inr v \<Rightarrow> \<lparr>pr_path = own, pr_attribute = Some \<lparr>ad_path = own, ad_value = v, ad_data_version = data_version\<rparr>,
                          pr_event = None, pr_error = None\<rparr>
              | Inl _ \<Rightarrow> error_result own (mk_error ''unsupported_schema'' Effect_None))) p)"

record event_header =
  eh_path :: sdk_path
  eh_event_number :: u64
  eh_priority :: u8
  eh_is_system :: bool
  eh_is_epoch :: bool
  eh_timestamp :: u64

definition event_result :: "sdk_ids \<Rightarrow> sdk_decode \<Rightarrow> ConcretePath \<Rightarrow> event_header \<Rightarrow> tlv option \<Rightarrow> PathResult" where
  "event_result I D own header data =
     (case data of
        None \<Rightarrow> error_result own (mk_error ''invalid_event_data'' Effect_None)
      | Some r \<Rightarrow>
          (case DecodeEvent I D own r of
             Inl _ \<Rightarrow> error_result own (mk_error ''unsupported_schema'' Effect_None)
           | Inr v \<Rightarrow>
               if \<not> eh_is_system header \<and> \<not> eh_is_epoch header
               then error_result own (mk_error ''unsupported_timestamp'' Effect_None)
               else \<lparr>pr_path = own, pr_attribute = None,
                      pr_event = Some \<lparr>ed_path = own, ed_value = v, ed_event_number = eh_event_number header,
                        ed_priority = eh_priority header,
                        ed_timestamp_kind = (if eh_is_epoch header then TS_Epoch else TS_System),
                        ed_timestamp_value = eh_timestamp header\<rparr>,
                      pr_error = None\<rparr>))"

definition OnEventData ::
    "sdk_ids \<Rightarrow> sdk_decode \<Rightarrow> event_header \<Rightarrow> tlv option \<Rightarrow> status_ib option \<Rightarrow> Pending \<Rightarrow> Pending" where
  "OnEventData I D header data status p =
     (let own = own_path (eh_path header) p
      in AppendResult
        (case status of
           Some s \<Rightarrow> if \<not> sib_success s then error_result own (StatusError s Effect_None) else event_result I D own header data
         | None \<Rightarrow> event_result I D own header data) p)"

definition OnError_read :: "Pending \<Rightarrow> Pending" where
  "OnError_read p = p\<lparr>pd_overall_error := Some (mk_error ''interaction_failed'' (current_effect p))\<rparr>"

definition SameRequestedPath :: "ConcretePath \<Rightarrow> Pending \<Rightarrow> bool" where
  "SameRequestedPath path p \<longleftrightarrow>
     (let expected = hd (rq_paths (pd_request p))
      in cp_fabric_id path = ps_fabric_id expected \<and> cp_node_id path = ps_node_id expected \<and>
         cp_endpoint path = the (ps_endpoint expected) \<and> cp_cluster path = the (ps_cluster expected) \<and>
         cp_member path = the (ps_member expected))"

definition fail_with :: "InteractionError \<Rightarrow> Pending \<Rightarrow> Pending" where
  "fail_with e p = p\<lparr>pd_overall_error := Some e\<rparr>"

definition OnResponse_write :: "sdk_path \<Rightarrow> status_ib \<Rightarrow> Pending \<Rightarrow> Pending" where
  "OnResponse_write path status p =
     (let actual = own_path path p
      in if \<not> SameRequestedPath actual p then fail_with (mk_error ''invalid_response_path'' Effect_Unknown) p
         else if \<not> sib_success status then fail_with (StatusError status Effect_Unknown) p
         else p\<lparr>pd_mutation_path := Some actual, pd_mutation_responses := pd_mutation_responses p + 1\<rparr>)"

definition OnResponse_command :: "sdk_path \<Rightarrow> status_ib \<Rightarrow> tlv option \<Rightarrow> Pending \<Rightarrow> Pending" where
  "OnResponse_command path status data p =
     (let actual = own_path path p
      in if \<not> sib_success status then fail_with (StatusError status Effect_Unknown) p
         else if data \<noteq> None then fail_with (mk_error ''unsupported_schema'' Effect_Unknown) p
         else if \<not> SameRequestedPath actual p then fail_with (mk_error ''invalid_response_path'' Effect_Unknown) p
         else p\<lparr>pd_mutation_path := None, pd_mutation_responses := pd_mutation_responses p + 1\<rparr>)"

definition OnNoResponse :: "Pending \<Rightarrow> Pending" where
  "OnNoResponse p = fail_with (mk_error ''interaction_no_response'' Effect_Unknown) p"

definition OnError_command :: "Pending \<Rightarrow> Pending" where
  "OnError_command p = fail_with (mk_error ''interaction_failed'' Effect_Unknown) p"

section \<open>Completion\<close>

definition is_concrete :: "PathSelector \<Rightarrow> bool" where
  "is_concrete path \<longleftrightarrow> ps_endpoint path \<noteq> None \<and> ps_cluster path \<noteq> None \<and> ps_member path \<noteq> None"

definition requested :: "PathSelector \<Rightarrow> ConcretePath" where
  "requested path =
     \<lparr>cp_fabric_id = ps_fabric_id path, cp_node_id = ps_node_id path, cp_endpoint = the (ps_endpoint path),
      cp_cluster = the (ps_cluster path), cp_member = the (ps_member path)\<rparr>"

fun missing_loop :: "PathSelector list \<Rightarrow> Pending \<Rightarrow> Pending" where
  "missing_loop [] p = p"
| "missing_loop (path # paths) p =
     missing_loop paths
       (if \<not> is_concrete path \<or> list_ex (\<lambda>r. SamePath (pr_path r) (requested path)) (pd_results p) then p
        else AppendResult (error_result (requested path) (mk_error ''missing_path_result'' Effect_None)) p)"

definition AddMissingConcreteResults :: "Pending \<Rightarrow> Pending" where
  "AddMissingConcreteResults p = missing_loop (rq_paths (pd_request p)) p"

definition FinishRead :: "Pending \<Rightarrow> Pending" where
  "FinishRead p =
     (let p1 = (if pd_overall_error p = None \<and> rq_kind (pd_request p) \<noteq> IK_ReadEvents
                then AddMissingConcreteResults p else p)
      in MarkDone
        (case pd_overall_error p1 of
           Some e \<Rightarrow> Publish (failed_response e) p1
         | None \<Rightarrow> Publish (empty_response\<lparr>rs_ok := True, rs_results := pd_results p1\<rparr>) (p1\<lparr>pd_results := []\<rparr>)))"

definition FinishMutation :: "Pending \<Rightarrow> Pending" where
  "FinishMutation p =
     (let p1 = (if pd_overall_error p = None \<and> pd_mutation_responses p \<noteq> 1
                then fail_with (mk_error ''interaction_no_response'' Effect_Unknown) p else p);
          p2 = (case pd_overall_error p1 of
                  Some e \<Rightarrow> Publish (failed_response e) p1
                | None \<Rightarrow> Publish (empty_response\<lparr>rs_ok := True, rs_response_path := pd_mutation_path p1, rs_status := 0\<rparr>) p1)
      in MarkDone (p2\<lparr>pd_mutation := snd (Complete (pd_mutation p2))\<rparr>))"

definition OnDone :: "client \<Rightarrow> Pending \<Rightarrow> Pending" where
  "OnDone c p =
     (let p = p\<lparr>pd_client := None\<rparr>
      in case c of ReadClient \<Rightarrow> FinishRead p | WriteClient \<Rightarrow> FinishMutation p | CommandSender \<Rightarrow> FinishMutation p)"

section \<open>The SDK as an environment\<close>

datatype pending_event =
  PE_Start u64 "chip_error option"
| PE_Connected u64
| PE_StartClient start_answers
| PE_ConnectionFailed
| PE_Attribute sdk_path "u32 option" "tlv option" status_ib
| PE_Event event_header "tlv option" "status_ib option"
| PE_ReadError
| PE_WriteResponse sdk_path status_ib
| PE_CommandResponse sdk_path status_ib "tlv option"
| PE_NoResponse
| PE_CommandError
| PE_Done
| PE_Abort
| PE_GiveUp

text \<open>Between the two parts of \<open>OnConnected\<close> the SDK thread does nothing else.\<close>

fun enabled :: "pending_event \<Rightarrow> Pending \<Rightarrow> bool" where
  "enabled (PE_Start _ _) p \<longleftrightarrow> \<not> pd_started p \<and> \<not> pd_done p"
| "enabled (PE_Connected _) p \<longleftrightarrow> pd_armed p"
| "enabled (PE_StartClient _) p \<longleftrightarrow> pd_connected p \<noteq> None"
| "enabled PE_ConnectionFailed p \<longleftrightarrow> pd_armed p"
| "enabled (PE_Attribute _ _ _ _) p \<longleftrightarrow>
     pd_client p = Some ReadClient"
| "enabled (PE_Event _ _ _) p \<longleftrightarrow>
     pd_client p = Some ReadClient"
| "enabled PE_ReadError p \<longleftrightarrow> pd_client p = Some ReadClient"
| "enabled (PE_WriteResponse _ _) p \<longleftrightarrow> pd_client p = Some WriteClient"
| "enabled (PE_CommandResponse _ _ _) p \<longleftrightarrow> pd_client p = Some CommandSender"
| "enabled PE_NoResponse p \<longleftrightarrow> pd_client p = Some CommandSender"
| "enabled PE_CommandError p \<longleftrightarrow> pd_client p = Some CommandSender"
| "enabled PE_Done p \<longleftrightarrow> pd_client p \<noteq> None"
| "enabled PE_Abort p \<longleftrightarrow> pd_connected p = None"
| "enabled PE_GiveUp p \<longleftrightarrow> True"

fun pending_step :: "sdk_ids \<Rightarrow> sdk_decode \<Rightarrow> pending_event \<Rightarrow> Pending \<Rightarrow> Pending" where
  "pending_step I D (PE_Start elapsed connecting) p = Start elapsed connecting p"
| "pending_step I D (PE_Connected elapsed) p = OnConnected elapsed p"
| "pending_step I D (PE_StartClient a) p = start_client I a p"
| "pending_step I D PE_ConnectionFailed p = ConnectionFailed p"
| "pending_step I D (PE_Attribute path version data status) p = OnAttributeData I D path version data status p"
| "pending_step I D (PE_Event header data status) p = OnEventData I D header data status p"
| "pending_step I D PE_ReadError p = OnError_read p"
| "pending_step I D (PE_WriteResponse path status) p = OnResponse_write path status p"
| "pending_step I D (PE_CommandResponse path status data) p = OnResponse_command path status data p"
| "pending_step I D PE_NoResponse p = OnNoResponse p"
| "pending_step I D PE_CommandError p = OnError_command p"
| "pending_step I D PE_Done p = OnDone (the (pd_client p)) p"
| "pending_step I D PE_Abort p = AbortOnSdkThread p"
| "pending_step I D PE_GiveUp p = snd (Wait False p)"

inductive pending_run :: "sdk_ids \<Rightarrow> sdk_decode \<Rightarrow> InteractionRequest \<Rightarrow> Pending \<Rightarrow> bool" for I D request where
  created: "pending_run I D request (mk_pending request)"
| stepped: "pending_run I D request p \<Longrightarrow> enabled e p \<Longrightarrow> pending_run I D request (pending_step I D e p)"

section \<open>Frame lemmas\<close>

lemma Publish_sel [simp]:
  "pd_request (Publish r p) = pd_request p" "pd_done (Publish r p) = pd_done p" "pd_mutation (Publish r p) = pd_mutation p"
  "pd_overall_error (Publish r p) = pd_overall_error p" "pd_results (Publish r p) = pd_results p"
  "pd_mutation_path (Publish r p) = pd_mutation_path p" "pd_mutation_responses (Publish r p) = pd_mutation_responses p"
  "pd_retained_result_bytes (Publish r p) = pd_retained_result_bytes p" "pd_client (Publish r p) = pd_client p"
  "pd_started (Publish r p) = pd_started p" "pd_armed (Publish r p) = pd_armed p" "pd_connected (Publish r p) = pd_connected p"
  "pd_sent (Publish r p) = pd_sent p" "pd_reaps (Publish r p) = pd_reaps p" "pd_published (Publish r p)"
  "pd_response (Publish r p) = (if pd_published p then pd_response p else r)"
  by (simp_all add: Publish_def)

lemma MarkDone_sel [simp]:
  "pd_request (MarkDone p) = pd_request p" "pd_done (MarkDone p)" "pd_mutation (MarkDone p) = pd_mutation p"
  "pd_overall_error (MarkDone p) = pd_overall_error p" "pd_results (MarkDone p) = pd_results p"
  "pd_mutation_path (MarkDone p) = pd_mutation_path p" "pd_mutation_responses (MarkDone p) = pd_mutation_responses p"
  "pd_retained_result_bytes (MarkDone p) = pd_retained_result_bytes p" "pd_client (MarkDone p) = pd_client p"
  "pd_started (MarkDone p) = pd_started p" "pd_armed (MarkDone p) = pd_armed p" "pd_connected (MarkDone p) = pd_connected p"
  "pd_sent (MarkDone p) = pd_sent p" "pd_published (MarkDone p) = pd_published p" "pd_response (MarkDone p) = pd_response p"
  "pd_reaps (MarkDone p) = (if pd_done p then pd_reaps p else pd_reaps p + 1)"
  by (simp_all add: MarkDone_def)

lemma AppendResult_sel [simp]:
  "pd_request (AppendResult r p) = pd_request p" "pd_done (AppendResult r p) = pd_done p" "pd_mutation (AppendResult r p) = pd_mutation p"
  "pd_mutation_path (AppendResult r p) = pd_mutation_path p" "pd_mutation_responses (AppendResult r p) = pd_mutation_responses p"
  "pd_client (AppendResult r p) = pd_client p" "pd_started (AppendResult r p) = pd_started p"
  "pd_armed (AppendResult r p) = pd_armed p" "pd_connected (AppendResult r p) = pd_connected p"
  "pd_sent (AppendResult r p) = pd_sent p" "pd_reaps (AppendResult r p) = pd_reaps p"
  "pd_published (AppendResult r p) = pd_published p" "pd_response (AppendResult r p) = pd_response p"
  by (simp_all add: AppendResult_def)

lemma missing_loop_sel [simp]:
  "pd_request (missing_loop ps p) = pd_request p" "pd_done (missing_loop ps p) = pd_done p" "pd_mutation (missing_loop ps p) = pd_mutation p"
  "pd_mutation_path (missing_loop ps p) = pd_mutation_path p" "pd_mutation_responses (missing_loop ps p) = pd_mutation_responses p"
  "pd_client (missing_loop ps p) = pd_client p" "pd_started (missing_loop ps p) = pd_started p"
  "pd_armed (missing_loop ps p) = pd_armed p" "pd_connected (missing_loop ps p) = pd_connected p"
  "pd_sent (missing_loop ps p) = pd_sent p" "pd_reaps (missing_loop ps p) = pd_reaps p"
  "pd_published (missing_loop ps p) = pd_published p" "pd_response (missing_loop ps p) = pd_response p"
  by (induction ps arbitrary: p) simp_all

lemma latch_submitted: "submitted (snd (Complete s)) = submitted s"
  by (simp add: Complete_def submitted_def bit.conj_disj_distrib2)

lemma latch_submits: "s \<in> {0, 1, 2, 3} \<Longrightarrow> s AND 2 = 0 \<Longrightarrow> submitted (snd (Submit_latch s))"
  by (auto simp: Submit_latch_def submitted_def)

section \<open>The stages of a request\<close>

text \<open>
  A request is not started, waiting for the connection, between the parts of \<open>OnConnected\<close>, held by a client, or over;
  whoever is over has been answered and is reaped at most once.
\<close>

datatype stage = Created | Connecting | Choosing | Running client | Over

fun fits :: "client \<Rightarrow> InteractionKind \<Rightarrow> bool" where
  "fits ReadClient k \<longleftrightarrow> \<not> is_mutation k"
| "fits WriteClient k \<longleftrightarrow> k = IK_Write"
| "fits CommandSender k \<longleftrightarrow> k = IK_Invoke"

definition unsent :: "Pending \<Rightarrow> bool" where
  "unsent p \<longleftrightarrow> pd_sent p = [] \<and> pd_mutation p = 0 \<and> pd_reaps p = 0"

definition accounted :: "Pending \<Rightarrow> bool" where
  "accounted p \<longleftrightarrow> length (pd_sent p) \<le> 1 \<and> pd_reaps p \<le> 1 \<and>
     (IsMutation p \<and> (\<exists>r. (r, None) \<in> set (pd_sent p)) \<longrightarrow> submitted (pd_mutation p))"

fun at_stage :: "stage \<Rightarrow> Pending \<Rightarrow> bool" where
  "at_stage Created p \<longleftrightarrow> \<not> pd_started p \<and> \<not> pd_armed p \<and> pd_connected p = None \<and> pd_client p = None \<and> unsent p"
| "at_stage Connecting p \<longleftrightarrow> pd_started p \<and> pd_armed p \<and> pd_connected p = None \<and> pd_client p = None \<and> unsent p \<and> \<not> pd_done p"
| "at_stage Choosing p \<longleftrightarrow> pd_started p \<and> \<not> pd_armed p \<and> pd_connected p \<noteq> None \<and> pd_client p = None \<and> unsent p \<and> \<not> pd_done p"
| "at_stage (Running c) p \<longleftrightarrow> pd_started p \<and> \<not> pd_armed p \<and> pd_connected p = None \<and> pd_client p = Some c \<and>
     fits c (rq_kind (pd_request p)) \<and> (IsMutation p \<longrightarrow> submitted (pd_mutation p)) \<and> (\<exists>r. pd_sent p = [(r, None)]) \<and>
     \<not> pd_done p \<and> pd_reaps p = 0"
| "at_stage Over p \<longleftrightarrow> pd_started p \<and> \<not> pd_armed p \<and> pd_connected p = None \<and> pd_client p = None \<and> accounted p \<and>
     pd_published p \<and> pd_done p"

lemma at_stage_cases:
  assumes "at_stage s p"
  shows "pd_armed p \<Longrightarrow> s = Connecting" "pd_connected p \<noteq> None \<Longrightarrow> s = Choosing" "pd_client p = Some c \<Longrightarrow> s = Running c"
    "\<not> pd_started p \<Longrightarrow> s = Created"
  using assms by (cases s; simp)+

lemma IsMutation_cong: "pd_request p = pd_request q \<Longrightarrow> IsMutation p = IsMutation q"
  by (simp add: IsMutation_def)

lemma IsMutation_updates [simp]:
  "IsMutation (Publish r p) = IsMutation p" "IsMutation (MarkDone p) = IsMutation p" "IsMutation (AppendResult x p) = IsMutation p"
  "IsMutation (missing_loop ps p) = IsMutation p"
  by (rule IsMutation_cong, simp)+

lemma Start_stage: "at_stage Created p \<Longrightarrow> \<not> pd_done p \<Longrightarrow> \<exists>s. at_stage s (Start elapsed c p)"
  by (rule exI [of _ "if pd_armed (Start elapsed c p) then Connecting else Over"])
    (simp add: Start_def Let_def unsent_def accounted_def FailBeforeSubmission_def DoneWithoutClient_def split: option.split)

lemma ConnectionFailed_stage: "at_stage Connecting p \<Longrightarrow> at_stage Over (ConnectionFailed p)"
  by (simp add: ConnectionFailed_def unsent_def accounted_def FailBeforeSubmission_def DoneWithoutClient_def)

lemma OnConnected_stage: "at_stage Connecting p \<Longrightarrow> \<exists>s. at_stage s (OnConnected elapsed p)"
  by (rule exI [of _ "if pd_connected (OnConnected elapsed p) = None then Over else Choosing"])
    (simp add: OnConnected_def Let_def unsent_def accounted_def FailBeforeSubmission_def DoneWithoutClient_def)

definition sends :: "Pending \<Rightarrow> chip_error option \<times> Pending \<Rightarrow> bool" where
  "sends p r \<longleftrightarrow> pd_request (snd r) = pd_request p \<and> pd_started (snd r) = pd_started p \<and> pd_armed (snd r) = pd_armed p \<and>
     pd_connected (snd r) = pd_connected p \<and> pd_done (snd r) = pd_done p \<and> pd_reaps (snd r) = pd_reaps p \<and>
     pd_published (snd r) = pd_published p \<and> pd_response (snd r) = pd_response p \<and>
     pd_overall_error (snd r) = pd_overall_error p \<and> pd_results (snd r) = pd_results p \<and>
     pd_retained_result_bytes (snd r) = pd_retained_result_bytes p \<and> pd_mutation_path (snd r) = pd_mutation_path p \<and>
     pd_mutation_responses (snd r) = pd_mutation_responses p \<and>
     (if fst r = None
      then (\<exists>c. pd_client (snd r) = Some c \<and> fits c (rq_kind (pd_request p))) \<and> (\<exists>x. pd_sent (snd r) = [(x, None)]) \<and>
        (IsMutation p \<longrightarrow> submitted (pd_mutation (snd r)))
      else (pd_sent (snd r) = [] \<or> (\<exists>x err. pd_sent (snd r) = [(x, Some err)])))"

lemma submitted_bits: "submitted 1" "\<not> submitted 0"
  by (simp_all add: submitted_def)

lemma StartRead_sends:
  "unsent p \<Longrightarrow> \<not> is_mutation (rq_kind (pd_request p)) \<Longrightarrow> sends p (StartRead a remaining p)"
  by (cases "sa_send a") (simp_all add: sends_def StartRead_def send_def unsent_def IsMutation_def is_mutation_def Let_def)

lemma StartWrite_sends:
  assumes "unsent p" "rq_kind (pd_request p) = IK_Write"
  shows "sends p (StartWrite I a remaining p)"
  using assms
  by (cases "sa_send a") (simp_all add: sends_def StartWrite_def send_def submit_def unsent_def Submit_latch_def submitted_bits Let_def
      split: prod.split option.split)

lemma StartInvoke_sends:
  assumes "unsent p" "rq_kind (pd_request p) = IK_Invoke"
  shows "sends p (StartInvoke I a remaining p)"
  using assms
  by (cases "sa_send a") (simp_all add: sends_def StartInvoke_def send_def submit_def unsent_def Submit_latch_def submitted_bits Let_def)

lemma start_choice_sends: "unsent p \<Longrightarrow> sends p (start_choice I a remaining p)"
  by (cases "rq_kind (pd_request p)")
    (simp_all add: start_choice_def Let_def StartRead_sends StartWrite_sends StartInvoke_sends is_mutation_def)

lemma start_client_stage:
  assumes "at_stage Choosing p"
  shows "\<exists>s. at_stage s (start_client I a p)"
proof -
  let ?p = "p\<lparr>pd_connected := None\<rparr>"
  obtain r p1 where c: "start_choice I a (the (pd_connected p)) ?p = (r, p1)" by fastforce
  have "unsent ?p" using assms by (simp add: unsent_def)
  then have "sends ?p (r, p1)" using start_choice_sends [of ?p I a "the (pd_connected p)"] c by simp
  then show ?thesis
    using assms c
    by (intro exI [of _ "case r of None \<Rightarrow> Running (the (pd_client p1)) | Some _ \<Rightarrow> Over"])
      (auto simp: start_client_def sends_def DoneWithoutClient_def FailBeforeSubmission_def accounted_def unsent_def IsMutation_def split: option.split if_splits)
qed

lemma Abort_stage: "at_stage s p \<Longrightarrow> s \<noteq> Choosing \<Longrightarrow> \<exists>s. at_stage s (AbortOnSdkThread p)"
  by (rule exI [of _ "if pd_started p then Over else Created"], cases s)
    (auto simp: AbortOnSdkThread_def unsent_def accounted_def IsMutation_def Let_def)

lemma GiveUp_stage: "at_stage s p \<Longrightarrow> at_stage s (snd (Wait False p))"
  by (cases s) (simp_all add: Wait_def unsent_def accounted_def IsMutation_def)

lemma OnDone_stage: "at_stage (Running c) p \<Longrightarrow> at_stage Over (OnDone c p)"
  by (cases c)
    (auto simp: OnDone_def FinishRead_def FinishMutation_def AddMissingConcreteResults_def fail_with_def accounted_def
      latch_submitted IsMutation_def is_mutation_def Let_def split: option.split)

text \<open>The callbacks of a client leave the stage as it is.\<close>

definition same_stage :: "Pending \<Rightarrow> Pending \<Rightarrow> bool" where
  "same_stage p q \<longleftrightarrow> pd_request q = pd_request p \<and> pd_started q = pd_started p \<and> pd_armed q = pd_armed p \<and>
     pd_connected q = pd_connected p \<and> pd_client q = pd_client p \<and> pd_done q = pd_done p \<and> pd_published q = pd_published p \<and>
     pd_response q = pd_response p \<and> pd_sent q = pd_sent p \<and> pd_mutation q = pd_mutation p \<and> pd_reaps q = pd_reaps p"

lemma same_stage_at: "at_stage s p \<Longrightarrow> same_stage p q \<Longrightarrow> at_stage s q"
  by (cases s) (simp_all add: same_stage_def unsent_def accounted_def IsMutation_def)

lemma client_callbacks_same_stage:
  "same_stage p (OnAttributeData I D path v d st p)" "same_stage p (OnEventData I D h d so p)" "same_stage p (OnError_read p)"
  "same_stage p (OnResponse_write path st p)" "same_stage p (OnResponse_command path st d p)" "same_stage p (OnNoResponse p)"
  "same_stage p (OnError_command p)"
  by (simp_all add: same_stage_def OnAttributeData_def OnEventData_def OnError_read_def OnResponse_write_def OnResponse_command_def
      OnNoResponse_def OnError_command_def fail_with_def Let_def)

lemma step_stage:
  assumes "at_stage s p" "enabled e p"
  shows "\<exists>s. at_stage s (pending_step I D e p)"
proof (cases e)
  case (PE_Start elapsed c)
  then show ?thesis using assms at_stage_cases(4) [OF assms(1)] Start_stage [of p elapsed c] by auto
next
  case (PE_Connected elapsed)
  then show ?thesis using assms at_stage_cases(1) [OF assms(1)] OnConnected_stage by simp
next
  case (PE_StartClient a)
  then show ?thesis using assms at_stage_cases(2) [OF assms(1)] start_client_stage by simp
next
  case PE_ConnectionFailed
  then show ?thesis using assms at_stage_cases(1) [OF assms(1)] ConnectionFailed_stage [of p] by (auto simp del: at_stage.simps)
next
  case PE_Done
  then obtain c where "pd_client p = Some c" using assms by auto
  then show ?thesis using assms at_stage_cases(3) [OF assms(1)] OnDone_stage [of c p] PE_Done by (auto simp del: at_stage.simps)
next
  case PE_Abort
  moreover have "s \<noteq> Choosing" using assms PE_Abort by auto
  ultimately show ?thesis using assms Abort_stage by simp
next
  case PE_GiveUp
  then show ?thesis using assms GiveUp_stage [of s p] by (auto simp del: at_stage.simps)
qed (auto intro!: exI [of _ s] same_stage_at [OF assms(1)] client_callbacks_same_stage simp del: at_stage.simps)

section \<open>What is collected\<close>

definition selected_by :: "InteractionRequest \<Rightarrow> ConcretePath \<Rightarrow> bool" where
  "selected_by request path \<longleftrightarrow> list_ex (\<lambda>s. Selected s path) (rq_paths request)"

text \<open>A result that the request asks for: its path is selected, and it is an attribute or an event as requested.\<close>

definition asked_for :: "InteractionRequest \<Rightarrow> PathResult \<Rightarrow> bool" where
  "asked_for request r \<longleftrightarrow> selected_by request (pr_path r) \<and>
     (pr_attribute r \<noteq> None \<longrightarrow> rq_kind request \<noteq> IK_ReadEvents) \<and> (pr_event r \<noteq> None \<longrightarrow> rq_kind request = IK_ReadEvents)"

text \<open>A result that passes every other check of the validator: it is valid for the request that asks for its own path.\<close>

definition asking :: "PathResult \<Rightarrow> InteractionRequest \<Rightarrow> InteractionRequest" where
  "asking r request = request\<lparr>rq_kind := (if pr_event r = None then IK_ReadAttribute else IK_ReadEvents),
     rq_paths := [\<lparr>ps_fabric_id = cp_fabric_id (pr_path r), ps_node_id = cp_node_id (pr_path r),
       ps_endpoint = Some (cp_endpoint (pr_path r)), ps_cluster = Some (cp_cluster (pr_path r)),
       ps_member = Some (cp_member (pr_path r))\<rparr>]\<rparr>"

definition well_formed :: "InteractionRequest \<Rightarrow> PathResult \<Rightarrow> bool" where
  "well_formed request r \<longleftrightarrow> ValidPathResult (asking r request) r"

lemma asking_selects: "list_ex (\<lambda>selector. Selected selector path) (rq_paths (asking r request)) \<longleftrightarrow> pr_path r = path"
  by (cases "pr_path r"; cases path) (auto simp: asking_def Selected_def)

lemma asking_kind: "rq_kind (asking r request) = (if pr_event r = None then IK_ReadAttribute else IK_ReadEvents)"
  by (simp add: asking_def)

lemmas result_defs = well_formed_def ValidPathResult_def asking_selects asking_kind

lemma well_formed_valid: "well_formed request r \<Longrightarrow> ValidPathResult request r \<longleftrightarrow> asked_for request r"
  by (auto simp: result_defs asked_for_def selected_by_def split: option.splits if_splits)

definition results_ok :: "InteractionRequest \<Rightarrow> Pending \<Rightarrow> bool" where
  "results_ok request p \<longleftrightarrow>
     list_all (well_formed request) (pd_results p) \<and> length (pd_results p) \<le> kMaximumInteractionReports \<and>
     sum_list (map result_size (pd_results p)) \<le> pd_retained_result_bytes p \<and>
     pd_retained_result_bytes p \<le> kMaximumInteractionResultBytes"

definition collected_ok :: "InteractionRequest \<Rightarrow> Pending \<Rightarrow> bool" where
  "collected_ok request p \<longleftrightarrow> pd_request p = request \<and> results_ok request p \<and>
     (case pd_overall_error p of None \<Rightarrow> True
      | Some e \<Rightarrow> ie_code e \<noteq> [] \<and> (is_mutation (rq_kind request) \<longrightarrow> ie_effect e = Effect_Unknown)) \<and>
     (pd_mutation_responses p \<noteq> 0 \<and> rq_kind request = IK_Write \<longrightarrow>
        (\<exists>path. pd_mutation_path p = Some path \<and> Selected (hd (rq_paths request)) path)) \<and>
     (rq_kind request \<noteq> IK_Write \<longrightarrow> pd_mutation_path p = None)"

lemma AppendResult_collected:
  assumes "collected_ok request p" "well_formed request r" "\<not> is_mutation (rq_kind request)"
  shows "collected_ok request (AppendResult r p)"
  using assms
  by (auto simp: collected_ok_def results_ok_def AppendResult_def mk_error_def split: option.splits)

lemma AppendResult_keeps: "set (pd_results p) \<subseteq> set (pd_results (AppendResult r p))"
  "pd_overall_error (AppendResult r p) = None \<Longrightarrow> r \<in> set (pd_results (AppendResult r p)) \<and> pd_overall_error p = None"
  by (auto simp: AppendResult_def split: if_splits)

lemma error_result_valid:
  "ie_code e \<noteq> [] \<Longrightarrow> ie_effect e = Effect_None \<Longrightarrow> well_formed request (error_result path e)"
  by (simp add: result_defs error_result_def)

lemma error_fields [simp]:
  "ie_code (mk_error c f) = c" "ie_effect (mk_error c f) = f" "ie_code (StatusError s f) = ''interaction_status''"
  "ie_effect (StatusError s f) = f"
  by (simp_all add: mk_error_def StatusError_def)

lemma OnAttributeData_collected:
  assumes "table_ids I" "collected_ok request p" "\<not> is_mutation (rq_kind request)"
  shows "collected_ok request (OnAttributeData I D path v data st p)"
proof -
  let ?own = "own_path path p"
  have "well_formed request
      \<lparr>pr_path = ?own, pr_attribute = Some \<lparr>ad_path = ?own, ad_value = x, ad_data_version = v\<rparr>, pr_event = None, pr_error = None\<rparr>"
    if "DecodeAttribute I D ?own r = Inr x" for r x
    using decoded_valid [OF assms(1) that]
    by (simp add: result_defs SamePath_def)
  then show ?thesis
    unfolding OnAttributeData_def Let_def
    by (intro AppendResult_collected assms(2,3))
      (auto simp: error_result_valid split: option.split sum.split)
qed

lemma event_result_valid: "well_formed request (event_result I D own h data)"
proof (cases data)
  case None
  then show ?thesis by (simp add: event_result_def error_result_valid)
next
  case (Some r)
  show ?thesis
  proof (cases "DecodeEvent I D own r")
    case (Inl err)
    then show ?thesis using Some by (simp add: event_result_def error_result_valid)
  next
    case (Inr v)
    then show ?thesis
      using Some DecodeEvent_valid [OF Inr]
      by (simp add: event_result_def error_result_valid)
        (simp add: result_defs SamePath_def)
  qed
qed

lemma OnEventData_collected:
  assumes "collected_ok request p" "\<not> is_mutation (rq_kind request)"
  shows "collected_ok request (OnEventData I D h data so p)"
  unfolding OnEventData_def Let_def
  by (intro AppendResult_collected assms, cases so) (simp_all add: error_result_valid event_result_valid)

lemma missing_loop_collected:
  assumes "collected_ok request p" "\<not> is_mutation (rq_kind request)"
  shows "collected_ok request (missing_loop ps p)"
  using assms
proof (induction ps arbitrary: p)
  case (Cons path ps)
  have "collected_ok request (if \<not> is_concrete path \<or> list_ex (\<lambda>r. SamePath (pr_path r) (requested path)) (pd_results p) then p
      else AppendResult (error_result (requested path) (mk_error ''missing_path_result'' Effect_None)) p)"
    using Cons.prems by (simp add: AppendResult_collected error_result_valid)
  then show ?case using Cons.IH Cons.prems by simp
qed simp

lemma missing_loop_keeps:
  "set (pd_results p) \<subseteq> set (pd_results (missing_loop ps p)) \<and>
   (pd_overall_error (missing_loop ps p) = None \<longrightarrow> pd_overall_error p = None)"
proof (induction ps arbitrary: p)
  case (Cons path ps)
  show ?case using Cons [of p] Cons [of "AppendResult (error_result (requested path) (mk_error ''missing_path_result'' Effect_None)) p"]
    AppendResult_keeps [where p = p and r = "error_result (requested path) (mk_error ''missing_path_result'' Effect_None)"] by auto
qed simp

text \<open>After the loop every concrete path has a result, unless the loop ran into the limit.\<close>

definition answered :: "PathResult list \<Rightarrow> PathSelector \<Rightarrow> bool" where
  "answered rs path \<longleftrightarrow> is_concrete path \<longrightarrow> (\<exists>r\<in>set rs. pr_path r = requested path)"

lemma answered_mono: "answered rs path \<Longrightarrow> set rs \<subseteq> set rs' \<Longrightarrow> answered rs' path"
  by (auto simp: answered_def)

lemma missing_loop_answers:
  "pd_overall_error (missing_loop ps p) = None \<Longrightarrow> \<forall>path\<in>set ps. answered (pd_results (missing_loop ps p)) path"
proof (induction ps arbitrary: p)
  case (Cons path ps)
  define e where "e = error_result (requested path) (mk_error ''missing_path_result'' Effect_None)"
  have path: "pr_path e = requested path" by (simp add: e_def error_result_def)
  define q where "q = (if \<not> is_concrete path \<or> list_ex (\<lambda>r. SamePath (pr_path r) (requested path)) (pd_results p) then p
      else AppendResult e p)"
  have loop: "missing_loop (path # ps) p = missing_loop ps q" by (simp add: q_def e_def)
  have "pd_overall_error q = None" using Cons.prems missing_loop_keeps [of q ps] loop by simp
  then have "answered (pd_results q) path"
    using AppendResult_keeps(2) [of e p] path by (fastforce simp: q_def answered_def list_ex_iff SamePath_iff_eq split: if_splits)
  then have "answered (pd_results (missing_loop ps q)) path" using missing_loop_keeps [of q ps] answered_mono by blast
  then show ?case using Cons.IH [of q] Cons.prems loop by simp
qed simp

section \<open>Responses\<close>

lemma failed_response_valid: "ie_code e \<noteq> [] \<Longrightarrow> valid_interaction_response request (failed_response e)"
  by (simp add: valid_interaction_response_def failed_response_def empty_response_def)

lemma read_response_valid:
  assumes "valid_interaction_request request" "\<not> is_mutation (rq_kind request)" "list_all (well_formed request) rs"
    "length rs \<le> kMaximumInteractionReports" "rq_kind request \<noteq> IK_ReadEvents \<Longrightarrow> \<forall>path\<in>set (rq_paths request). answered rs path"
  shows "valid_interaction_response request (empty_response\<lparr>rs_ok := True, rs_results := rs\<rparr>) \<longleftrightarrow>
    list_all (asked_for request) rs"
proof -
  have "rs \<noteq> [] \<or> (rq_kind request = IK_ReadAttributes \<and> list_all has_wildcard (rq_paths request)) \<or> rq_kind request = IK_ReadEvents"
  proof (rule ccontr)
    assume c: "\<not> ?thesis"
    then have none: "\<forall>path\<in>set (rq_paths request). \<not> is_concrete path" using assms(5) by (auto simp: answered_def)
    then have wild: "list_all has_wildcard (rq_paths request)" by (auto simp: list_all_iff is_concrete_def has_wildcard_def)
    then have "rq_kind request \<noteq> IK_ReadAttributes" using c by blast
    then have "\<forall>path\<in>set (rq_paths request). is_concrete path"
      using valid_request_paths(3) [OF assms(1)] by (auto simp: is_concrete_def dest: ValidSelector_concrete)
    then show False using none valid_request_paths(1) [OF assms(1)] by (cases "rq_paths request") auto
  qed
  moreover have "rq_kind request = IK_ReadAttribute \<or> rq_kind request = IK_ReadAttributes \<or> rq_kind request = IK_ReadEvents"
    using assms(2) by (cases "rq_kind request") (simp_all add: is_mutation_def)
  ultimately show ?thesis
    using assms(3,4)
    by (auto simp: valid_interaction_response_def empty_response_def Let_def list_all_iff well_formed_valid)
qed

lemma mutation_response_valid:
  assumes "valid_interaction_request request" "is_mutation (rq_kind request)"
    "rq_kind request = IK_Write \<Longrightarrow> \<exists>x. path = Some x \<and> Selected (hd (rq_paths request)) x" "rq_kind request \<noteq> IK_Write \<Longrightarrow> path = None"
  shows "valid_interaction_response request (empty_response\<lparr>rs_ok := True, rs_response_path := path, rs_status := 0\<rparr>)"
proof -
  have "length (rq_paths request) = 1" by (rule valid_request_mutation(1) [OF assms(1,2)])
  then show ?thesis
    using assms(2-4) by (cases "rq_kind request") (auto simp: valid_interaction_response_def empty_response_def is_mutation_def)
qed

text \<open>A response with which the validator finds no fault except results that were not asked for, and that leaves no
  concrete path of an attribute read without an answer.\<close>

definition complete_reply :: "InteractionRequest \<Rightarrow> InteractionResponse \<Rightarrow> bool" where
  "complete_reply request r \<longleftrightarrow>
     (valid_interaction_response request r \<longleftrightarrow> list_all (asked_for request) (rs_results r)) \<and>
     list_all (well_formed request) (rs_results r) \<and>
     (rs_ok r \<and> (rq_kind request = IK_ReadAttribute \<or> rq_kind request = IK_ReadAttributes) \<longrightarrow>
        (\<forall>path\<in>set (rq_paths request). answered (rs_results r) path))"

definition replied_ok :: "InteractionRequest \<Rightarrow> Pending \<Rightarrow> bool" where
  "replied_ok request p \<longleftrightarrow> (pd_published p \<longrightarrow> complete_reply request (pd_response p))"

lemma failed_response_complete: "ie_code e \<noteq> [] \<Longrightarrow> complete_reply request (failed_response e)"
  using failed_response_valid by (simp add: complete_reply_def) (simp add: failed_response_def empty_response_def)

lemma replied_Publish: "replied_ok request p \<Longrightarrow> complete_reply request r \<Longrightarrow> replied_ok request (Publish r p)"
  by (simp add: replied_ok_def)

lemma replied_MarkDone [simp]: "replied_ok request (MarkDone p) = replied_ok request p"
  by (simp add: replied_ok_def)

lemma collected_frame:
  assumes "collected_ok request p" "pd_request q = pd_request p" "pd_overall_error q = pd_overall_error p" "pd_results q = pd_results p"
    "pd_mutation_path q = pd_mutation_path p" "pd_mutation_responses q = pd_mutation_responses p"
    "pd_retained_result_bytes q = pd_retained_result_bytes p"
  shows "collected_ok request q"
  using assms by (simp add: collected_ok_def results_ok_def)

lemma replied_frame: "replied_ok request p \<Longrightarrow> pd_published q = pd_published p \<Longrightarrow> pd_response q = pd_response p \<Longrightarrow> replied_ok request q"
  by (simp add: replied_ok_def)

lemma FinishRead_ok:
  assumes "valid_interaction_request request" "collected_ok request p" "replied_ok request p" "\<not> is_mutation (rq_kind request)"
  shows "collected_ok request (FinishRead p) \<and> replied_ok request (FinishRead p)"
proof -
  have q: "pd_request p = request" using assms(2) by (simp add: collected_ok_def)
  define p1 where "p1 = (if pd_overall_error p = None \<and> rq_kind (pd_request p) \<noteq> IK_ReadEvents then AddMissingConcreteResults p else p)"
  have p1: "collected_ok request p1"
    using assms(2,4) missing_loop_collected [OF assms(2) assms(4)] by (simp add: p1_def AddMissingConcreteResults_def q)
  have r1: "replied_ok request p1"
    using assms(3) by (simp add: p1_def AddMissingConcreteResults_def replied_ok_def)
  show ?thesis
  proof (cases "pd_overall_error p1")
    case (Some e)
    then have "FinishRead p = MarkDone (Publish (failed_response e) p1)" by (simp add: FinishRead_def p1_def Let_def)
    moreover have "ie_code e \<noteq> []" using p1 Some by (simp add: collected_ok_def)
    ultimately show ?thesis using p1 r1 by (simp add: replied_Publish failed_response_complete) (rule collected_frame [OF p1]; simp)
  next
    case None
    have "\<forall>path\<in>set (rq_paths request). answered (pd_results p1) path" if "rq_kind request \<noteq> IK_ReadEvents"
    proof -
      have "p1 = missing_loop (rq_paths request) p \<or> p1 = p \<and> pd_overall_error p \<noteq> None"
        using that by (auto simp: p1_def AddMissingConcreteResults_def q)
      then show ?thesis using None missing_loop_answers by auto
    qed
    then have valid: "complete_reply request (empty_response\<lparr>rs_ok := True, rs_results := pd_results p1\<rparr>)"
      using p1 assms(1,4) read_response_valid [of request "pd_results p1"]
      by (auto simp: complete_reply_def collected_ok_def results_ok_def)
    have "FinishRead p = MarkDone (Publish (empty_response\<lparr>rs_ok := True, rs_results := pd_results p1\<rparr>) (p1\<lparr>pd_results := []\<rparr>))"
      using None by (simp add: FinishRead_def p1_def Let_def)
    then show ?thesis
      using p1 r1 valid by (simp add: replied_ok_def) (simp add: collected_ok_def results_ok_def)
  qed
qed

lemma fail_with_collected:
  "collected_ok request p \<Longrightarrow> ie_code e \<noteq> [] \<Longrightarrow> (is_mutation (rq_kind request) \<longrightarrow> ie_effect e = Effect_Unknown) \<Longrightarrow>
   collected_ok request (fail_with e p)"
  by (simp add: collected_ok_def fail_with_def results_ok_def)

lemma FinishMutation_ok:
  assumes "valid_interaction_request request" "collected_ok request p" "replied_ok request p" "is_mutation (rq_kind request)"
  shows "collected_ok request (FinishMutation p) \<and> replied_ok request (FinishMutation p)"
proof -
  define p1 where "p1 = (if pd_overall_error p = None \<and> pd_mutation_responses p \<noteq> 1
                then fail_with (mk_error ''interaction_no_response'' Effect_Unknown) p else p)"
  have p1: "collected_ok request p1" using assms(2) by (simp add: p1_def fail_with_collected)
  have r1: "replied_ok request p1" using assms(3) by (simp add: p1_def fail_with_def replied_ok_def)
  define r where "r = (case pd_overall_error p1 of Some e \<Rightarrow> failed_response e
    | None \<Rightarrow> empty_response\<lparr>rs_ok := True, rs_response_path := pd_mutation_path p1, rs_status := 0\<rparr>)"
  have r: "complete_reply request r"
  proof (cases "pd_overall_error p1")
    case (Some e)
    then show ?thesis using p1 by (simp add: r_def failed_response_complete collected_ok_def)
  next
    case None
    then have "pd_mutation_responses p1 = 1" by (auto simp: p1_def fail_with_def split: if_splits)
    then show ?thesis
      using None p1 assms(1,4) mutation_response_valid [of request "pd_mutation_path p1"]
      by (auto simp: r_def complete_reply_def collected_ok_def is_mutation_def empty_response_def)
  qed
  have "FinishMutation p = MarkDone ((Publish r p1)\<lparr>pd_mutation := snd (Complete (pd_mutation (Publish r p1)))\<rparr>)"
    by (simp add: FinishMutation_def p1_def r_def Let_def split: option.split)
  then show ?thesis using replied_Publish [OF r1 r] collected_frame [OF p1] by (simp add: replied_ok_def)
qed

lemma Publish_collected [simp]: "collected_ok request (Publish r p) = collected_ok request p"
  by (simp add: collected_ok_def results_ok_def)

lemma MarkDone_collected [simp]: "collected_ok request (MarkDone p) = collected_ok request p"
  by (simp add: collected_ok_def results_ok_def)

lemma failing_ok:
  assumes "collected_ok request p" "replied_ok request p" "ie_code e \<noteq> []"
  shows "collected_ok request (MarkDone (Publish (failed_response e) p)) \<and> replied_ok request (MarkDone (Publish (failed_response e) p))"
  using assms by (simp add: replied_Publish failed_response_complete)

lemma start_client_ok:
  assumes "at_stage Choosing p" "collected_ok request p" "replied_ok request p"
  shows "collected_ok request (start_client I a p) \<and> replied_ok request (start_client I a p)"
proof -
  let ?p = "p\<lparr>pd_connected := None\<rparr>"
  obtain r p1 where c: "start_choice I a (the (pd_connected p)) ?p = (r, p1)" by fastforce
  have "unsent ?p" using assms by (simp add: unsent_def)
  then have s: "sends ?p (r, p1)" using start_choice_sends [of ?p I a "the (pd_connected p)"] c by simp
  have p1: "collected_ok request p1" "replied_ok request p1"
    using s assms(2,3) collected_frame [OF assms(2), of p1] replied_frame [OF assms(3), of p1] by (simp_all add: sends_def)
  have "collected_ok request (p1\<lparr>pd_client := None\<rparr>)" "replied_ok request (p1\<lparr>pd_client := None\<rparr>)"
    using collected_frame [OF p1(1)] replied_frame [OF p1(2)] by simp_all
  from failing_ok [OF this, of "mk_error ''interaction_submit_failed'' Effect_None"] p1 c show ?thesis
    by (simp add: start_client_def DoneWithoutClient_def FailBeforeSubmission_def split: option.split)
qed

lemma frame_ok:
  assumes "collected_ok request p" "replied_ok request p"
  shows "collected_ok request (p\<lparr>pd_armed := b\<rparr>)" "replied_ok request (p\<lparr>pd_armed := b\<rparr>)"
    "collected_ok request (p\<lparr>pd_started := b\<rparr>)" "replied_ok request (p\<lparr>pd_started := b\<rparr>)"
    "collected_ok request (p\<lparr>pd_client := c\<rparr>)" "replied_ok request (p\<lparr>pd_client := c\<rparr>)"
    "collected_ok request (p\<lparr>pd_connected := n\<rparr>)" "replied_ok request (p\<lparr>pd_connected := n\<rparr>)"
    "collected_ok request (p\<lparr>pd_done := b\<rparr>)" "replied_ok request (p\<lparr>pd_done := b\<rparr>)"
  using collected_frame [OF assms(1)] replied_frame [OF assms(2)] by simp_all

lemma connection_ok:
  assumes "collected_ok request p" "replied_ok request p"
  shows "collected_ok request (Start elapsed c p) \<and> replied_ok request (Start elapsed c p)"
    "collected_ok request (OnConnected elapsed p) \<and> replied_ok request (OnConnected elapsed p)"
    "collected_ok request (ConnectionFailed p) \<and> replied_ok request (ConnectionFailed p)"
    "collected_ok request (AbortOnSdkThread p) \<and> replied_ok request (AbortOnSdkThread p)"
    "collected_ok request (snd (Wait waited p)) \<and> replied_ok request (snd (Wait waited p))"
proof -
  note f = frame_ok [OF assms]
  show "collected_ok request (Start elapsed c p) \<and> replied_ok request (Start elapsed c p)"
    using frame_ok(1,2) [OF f(3,4)] failing_ok [OF f(3,4)] f(3,4)
    by (simp add: Start_def Let_def DoneWithoutClient_def FailBeforeSubmission_def split: option.split)
  show "collected_ok request (OnConnected elapsed p) \<and> replied_ok request (OnConnected elapsed p)"
    using frame_ok(7,8) [OF f(1,2)] failing_ok [OF f(1,2)] f(1,2)
    by (simp add: OnConnected_def Let_def DoneWithoutClient_def FailBeforeSubmission_def)
  show "collected_ok request (ConnectionFailed p) \<and> replied_ok request (ConnectionFailed p)"
    using failing_ok [OF f(1,2)] f(1,2) by (simp add: ConnectionFailed_def DoneWithoutClient_def FailBeforeSubmission_def)
  have "collected_ok request (p\<lparr>pd_armed := False, pd_client := None\<rparr>)" "replied_ok request (p\<lparr>pd_armed := False, pd_client := None\<rparr>)"
    using frame_ok(5,6) [OF f(1,2), of None False] by simp_all
  then show "collected_ok request (AbortOnSdkThread p) \<and> replied_ok request (AbortOnSdkThread p)"
    unfolding AbortOnSdkThread_def Let_def
    by (intro conjI frame_ok(9,10)) (simp_all add: replied_Publish failed_response_complete)
  show "collected_ok request (snd (Wait waited p)) \<and> replied_ok request (snd (Wait waited p))"
    using assms collected_frame [OF assms(1)] by (simp add: Wait_def Let_def) (simp add: replied_ok_def failed_response_complete)
qed

lemma response_callbacks_collected:
  assumes "collected_ok request p"
  shows "rq_kind request = IK_Write \<Longrightarrow> collected_ok request (OnResponse_write path st p)"
    "rq_kind request = IK_Invoke \<Longrightarrow> collected_ok request (OnResponse_command path st d p)"
    "collected_ok request (OnNoResponse p)" "collected_ok request (OnError_command p)"
    "\<not> is_mutation (rq_kind request) \<Longrightarrow> collected_ok request (OnError_read p)"
proof -
  show "collected_ok request (OnResponse_write path st p)" if "rq_kind request = IK_Write"
  proof -
    have "Selected (hd (rq_paths request)) x" if "SameRequestedPath x p" for x
      using that assms by (auto simp: SameRequestedPath_def Selected_def Let_def collected_ok_def split: option.split)
    then show ?thesis
      using assms that by (simp add: OnResponse_write_def fail_with_collected Let_def) (simp add: collected_ok_def results_ok_def)
  qed
  show "collected_ok request (OnResponse_command path st d p)" if "rq_kind request = IK_Invoke"
    using assms that by (simp add: OnResponse_command_def fail_with_collected Let_def) (simp add: collected_ok_def results_ok_def)
  show "collected_ok request (OnNoResponse p)" "collected_ok request (OnError_command p)"
    using assms by (simp_all add: OnNoResponse_def OnError_command_def fail_with_collected)
  show "collected_ok request (OnError_read p)" if "\<not> is_mutation (rq_kind request)"
    using assms that by (simp add: OnError_read_def collected_ok_def results_ok_def)
qed

lemma step_ok:
  assumes "table_ids I" "valid_interaction_request request" "at_stage s p" "enabled e p" "collected_ok request p" "replied_ok request p"
  shows "collected_ok request (pending_step I D e p) \<and> replied_ok request (pending_step I D e p)"
proof -
  have q: "pd_request p = request" using assms(5) by (simp add: collected_ok_def)
  have client: "fits c (rq_kind request)" if "pd_client p = Some c" for c
    using at_stage_cases(3) [OF assms(3) that] assms(3) q by simp
  have same: "replied_ok request p'" if "same_stage p p'" for p'
    using that replied_frame [OF assms(6)] by (simp add: same_stage_def)
  note c = connection_ok [OF assms(5,6)] response_callbacks_collected [OF assms(5)]
  show ?thesis
  proof (cases e)
    case (PE_StartClient a)
    then show ?thesis using start_client_ok [OF _ assms(5,6)] assms(3,4) at_stage_cases(2) [OF assms(3)] by simp
  next
    case PE_Done
    then obtain k where k: "pd_client p = Some k" using assms(4) by auto
    have f: "collected_ok request (p\<lparr>pd_client := None\<rparr>)" "replied_ok request (p\<lparr>pd_client := None\<rparr>)"
      using frame_ok [OF assms(5,6)] by simp_all
    show ?thesis
      using FinishRead_ok [OF assms(2) f] FinishMutation_ok [OF assms(2) f] client [OF k] PE_Done k
      by (cases k) (simp_all add: OnDone_def is_mutation_def)
  next
    case (PE_Attribute path v d st)
    then show ?thesis
      using OnAttributeData_collected [OF assms(1,5), of D path v d st] assms(4) q client same client_callbacks_same_stage(1) by auto
  next
    case (PE_Event h d so)
    then show ?thesis
      using OnEventData_collected [OF assms(5), of I D h d so] assms(4) q client same client_callbacks_same_stage(2) by auto
  qed (use c client same client_callbacks_same_stage assms(4) in auto)
qed

lemma run_ok:
  assumes "table_ids I" "valid_interaction_request request" "pending_run I D request p"
  shows "(\<exists>s. at_stage s p) \<and> collected_ok request p \<and> replied_ok request p"
  using assms(3)
proof induction
  case created
  have "at_stage Created (mk_pending request)" by (simp add: mk_pending_def unsent_def latch_init_def)
  moreover have "collected_ok request (mk_pending request)" "replied_ok request (mk_pending request)"
    by (simp_all add: mk_pending_def collected_ok_def results_ok_def replied_ok_def)
  ultimately show ?case by blast
next
  case (stepped p e)
  then show ?case using step_ok [OF assms(1,2)] step_stage by blast
qed

section \<open>Effects\<close>

definition timed_out :: "InteractionResponse \<Rightarrow> bool" where
  "timed_out r \<longleftrightarrow> (\<exists>e. rs_error r = Some e \<and> ie_code e = ''interaction_timeout'')"

definition effect_unknown :: "InteractionResponse \<Rightarrow> bool" where
  "effect_unknown r \<longleftrightarrow> (\<exists>e. rs_error r = Some e \<and> ie_effect e = Effect_Unknown)"

definition accepted :: "Pending \<Rightarrow> bool" where
  "accepted p \<longleftrightarrow> (\<exists>r. (r, None) \<in> set (pd_sent p))"

definition may_start :: "Pending \<Rightarrow> bool" where
  "may_start p \<longleftrightarrow> pd_armed p \<or> pd_connected p \<noteq> None \<or> (\<not> pd_started p \<and> \<not> pd_done p)"

definition honest :: "Pending \<Rightarrow> bool" where
  "honest p \<longleftrightarrow> (pd_published p \<longrightarrow> timed_out (pd_response p) \<or>
     (\<not> may_start p \<and> (IsMutation p \<and> accepted p \<longrightarrow> rs_ok (pd_response p) \<or> effect_unknown (pd_response p))))"

lemma failed_response_sel [simp]: "rs_error (failed_response e) = Some e" "rs_ok (failed_response e) = False"
  by (simp_all add: failed_response_def empty_response_def)

text \<open>A request that ends before anything was accepted.\<close>

lemma failing_honest:
  assumes "honest p" "may_start p" "\<not> accepted q" "\<not> may_start q" "pd_published q = pd_published p" "pd_response q = pd_response p"
  shows "honest (MarkDone (Publish (failed_response e) q))"
  using assms by (auto simp: honest_def may_start_def accepted_def)

lemma honest_frame:
  assumes "honest p" "may_start q \<Longrightarrow> may_start p" "accepted q = accepted p" "pd_request q = pd_request p"
    "pd_published q = pd_published p" "pd_response q = pd_response p"
  shows "honest q"
  using assms by (auto simp: honest_def IsMutation_def)

lemma finishing_honest:
  assumes "honest p" "\<not> may_start q" "accepted q = accepted p" "pd_request q = pd_request p" "pd_published q = pd_published p"
    "pd_response q = pd_response p" "IsMutation p \<and> accepted p \<Longrightarrow> rs_ok r \<or> effect_unknown r"
  shows "honest (MarkDone (Publish r q))"
  using assms by (auto simp: honest_def may_start_def accepted_def IsMutation_def)

lemma step_honest:
  assumes "at_stage s p" "enabled e p" "collected_ok request p" "honest p"
  shows "honest (pending_step I D e p)"
proof -
  have sent: "\<not> accepted p" if "may_start p"
    using assms(1) that by (cases s) (simp_all add: may_start_def accepted_def unsent_def)
  show ?thesis
  proof (cases e)
    case (PE_Start elapsed c)
    then have start: "\<not> pd_started p" "\<not> pd_done p" "s = Created" using assms(1,2) at_stage_cases(4) by auto
    then have p: "may_start p" "\<not> accepted (p\<lparr>pd_started := True\<rparr>)" "\<not> may_start (p\<lparr>pd_started := True\<rparr>)"
      using sent assms(1) by (auto simp: may_start_def accepted_def)
    have "honest (p\<lparr>pd_started := True, pd_armed := True\<rparr>)"
      by (rule honest_frame [OF assms(4)]) (use p in \<open>simp_all add: accepted_def\<close>)
    then show ?thesis
      using PE_Start failing_honest [OF assms(4) p(1-3)]
      by (simp add: Start_def Let_def DoneWithoutClient_def FailBeforeSubmission_def split: option.split)
  next
    case (PE_Connected elapsed)
    then have p: "may_start p" "\<not> accepted (p\<lparr>pd_armed := False\<rparr>)" "\<not> may_start (p\<lparr>pd_armed := False\<rparr>)"
      using assms(1,2) at_stage_cases(1) [OF assms(1)] by (auto simp: may_start_def accepted_def unsent_def)
    have "honest (p\<lparr>pd_armed := False, pd_connected := n\<rparr>)" for n
      by (rule honest_frame [OF assms(4)]) (use p in \<open>simp_all add: accepted_def\<close>)
    then show ?thesis
      using PE_Connected failing_honest [OF assms(4) p(1-3)]
      by (simp add: OnConnected_def Let_def DoneWithoutClient_def FailBeforeSubmission_def)
  next
    case PE_ConnectionFailed
    then have p: "may_start p" "\<not> accepted (p\<lparr>pd_armed := False\<rparr>)" "\<not> may_start (p\<lparr>pd_armed := False\<rparr>)"
      using assms(1,2) at_stage_cases(1) [OF assms(1)] by (auto simp: may_start_def accepted_def unsent_def)
    then show ?thesis
      using PE_ConnectionFailed failing_honest [OF assms(4) p(1-3)]
      by (simp add: ConnectionFailed_def DoneWithoutClient_def FailBeforeSubmission_def)
  next
    case (PE_StartClient a)
    let ?p = "p\<lparr>pd_connected := None\<rparr>"
    have stage: "at_stage Choosing p" using PE_StartClient assms(1,2) at_stage_cases(2) [OF assms(1)] by simp
    obtain r p1 where c: "start_choice I a (the (pd_connected p)) ?p = (r, p1)" by fastforce
    have "unsent ?p" using stage by (simp add: unsent_def)
    then have s: "sends ?p (r, p1)" using start_choice_sends [of ?p I a "the (pd_connected p)"] c by simp
    have open_p: "may_start p" using stage by (simp add: may_start_def)
    have p1: "\<not> may_start p1" "pd_published p1 = pd_published p" "pd_response p1 = pd_response p"
      using s stage by (simp_all add: sends_def may_start_def)
    show ?thesis
    proof (cases r)
      case None
      then show ?thesis
        using PE_StartClient c assms(4) open_p p1 by (auto simp: start_client_def honest_def)
    next
      case (Some err)
      then have "\<not> accepted (p1\<lparr>pd_client := None\<rparr>)" using s by (auto simp: sends_def accepted_def)
      then show ?thesis
        using PE_StartClient c Some failing_honest [OF assms(4) open_p, of "p1\<lparr>pd_client := None\<rparr>"] p1
        by (simp add: start_client_def DoneWithoutClient_def FailBeforeSubmission_def may_start_def)
    qed
  next
    case PE_Abort
    have "rs_ok r \<or> effect_unknown r"
      if "IsMutation p" "accepted p" "r = failed_response (mk_error ''controller_closed'' (current_effect (p\<lparr>pd_armed := False, pd_client := None\<rparr>)))" for r
      using assms(1) that
      by (cases s) (auto simp: effect_unknown_def current_effect_def IsMutation_def accounted_def accepted_def unsent_def)
    then show ?thesis
      using assms(2,4) PE_Abort
      by (auto simp: AbortOnSdkThread_def Let_def honest_def may_start_def accepted_def IsMutation_def)
  next
    case PE_GiveUp
    then show ?thesis by (simp add: Wait_def Let_def honest_def timed_out_def)
  next
    case PE_Done
    then obtain k where k: "pd_client p = Some k" using assms(2) by auto
    then have stage: "at_stage (Running k) p" using at_stage_cases(3) [OF assms(1)] assms(1) by simp
    have q: "pd_request p = request" using assms(3) by (simp add: collected_ok_def)
    show ?thesis
    proof (cases k)
      case ReadClient
      then have "\<not> IsMutation p" using stage by (simp add: IsMutation_def is_mutation_def)
      then show ?thesis
        using PE_Done k ReadClient stage assms(4)
        by (auto simp: OnDone_def FinishRead_def AddMissingConcreteResults_def honest_def may_start_def IsMutation_def Let_def split: option.split)
    qed (use PE_Done k stage assms(3,4) q in \<open>auto simp: OnDone_def FinishMutation_def fail_with_def honest_def may_start_def
        accepted_def IsMutation_def effect_unknown_def Let_def collected_ok_def is_mutation_def split: option.split option.splits\<close>)
  qed (use client_callbacks_same_stage in \<open>auto intro!: honest_frame [OF assms(4)] simp: same_stage_def may_start_def accepted_def\<close>)
qed

lemma run_honest:
  assumes "table_ids I" "valid_interaction_request request" "pending_run I D request p"
  shows "honest p"
  using assms(3)
proof induction
  case created
  then show ?case by (simp add: mk_pending_def honest_def)
next
  case (stepped p e)
  then show ?case using step_honest run_ok [OF assms(1,2) stepped.hyps(1)] by blast
qed

section \<open>Example runs\<close>

fun allowed :: "sdk_ids \<Rightarrow> sdk_decode \<Rightarrow> pending_event list \<Rightarrow> Pending \<Rightarrow> bool" where
  "allowed I D [] p = True"
| "allowed I D (e # es) p = (enabled e p \<and> allowed I D es (pending_step I D e p))"

lemma allowed_run: "pending_run I D request p \<Longrightarrow> allowed I D es p \<Longrightarrow> pending_run I D request (fold (pending_step I D) es p)"
  by (induction es arbitrary: p) (simp_all add: stepped)

definition willing :: start_answers where
  "willing = \<lparr>sa_writer = (\<lambda>c calls. None), sa_finalize = None, sa_next = None, sa_put_preencoded = None, sa_add_request = None,
     sa_send = None\<rparr>"

definition example_member :: sdk_path where
  "example_member = \<lparr>sp_endpoint = 1, sp_cluster = 0x0201, sp_member = 0x0012\<rparr>"

definition example_success :: status_ib where
  "example_success = \<lparr>sib_success = True, sib_status = 0, sib_cluster_status = None\<rparr>"

definition example_reading :: "pending_event list" where
  "example_reading =
     [PE_Start 5 None, PE_Connected 40, PE_StartClient willing,
      PE_Attribute example_member (Some 3) (Some (tlv_leaf AnonymousTag kTLVType_SignedInteger (Some 2150) None None)) example_success]"

definition example_writing :: "pending_event list" where
  "example_writing =
     [PE_Start 5 None, PE_Connected 40, PE_StartClient willing, PE_WriteResponse example_member example_success]"

definition example_pending :: "InteractionRequest \<Rightarrow> pending_event list \<Rightarrow> Pending" where
  "example_pending request es = fold (pending_step example_ids example_decode) es (mk_pending request)"

lemma example_pending_run:
  "allowed example_ids example_decode es (mk_pending request) \<Longrightarrow> pending_run example_ids example_decode request (example_pending request es)"
  unfolding example_pending_def by (rule allowed_run [OF created])

lemma example_valid: "valid_interaction_request example_read" "valid_interaction_request example_write"
  by code_simp+

lemma example_read_starts:
  "Start 5 None (mk_pending example_read) = (mk_pending example_read)\<lparr>pd_started := True, pd_armed := True\<rparr>"
  "OnConnected 40 ((mk_pending example_read)\<lparr>pd_started := True, pd_armed := True\<rparr>) =
     (mk_pending example_read)\<lparr>pd_started := True, pd_connected := Some 4960\<rparr>"
  "\<exists>s. start_client example_ids willing ((mk_pending example_read)\<lparr>pd_started := True, pd_connected := Some 4960\<rparr>) =
     (mk_pending example_read)\<lparr>pd_started := True, pd_client := Some ReadClient, pd_sent := s\<rparr>"
  by (simp_all add: Start_def OnConnected_def start_client_def start_choice_def StartRead_def Remaining_def remaining_timeout_ms_def
      mk_pending_def example_read_def example_write_def willing_def send_def word_le_nat_alt word_less_nat_alt Let_def)

lemma example_decoded: "DecodeAttribute example_ids example_decode (NativePath 1 2 example_member)
    (tlv_leaf AnonymousTag kTLVType_SignedInteger (Some 2150) None None) = Inr (Element anonymous ET_I16 2150 0 False [])"
  by code_simp

lemma example_read_reports:
  "OnAttributeData example_ids example_decode example_member (Some 3) (Some (tlv_leaf AnonymousTag kTLVType_SignedInteger (Some 2150) None None))
     example_success ((mk_pending example_read)\<lparr>pd_started := True, pd_client := Some ReadClient, pd_sent := s\<rparr>) =
   (mk_pending example_read)\<lparr>pd_started := True, pd_client := Some ReadClient, pd_sent := s, pd_results := [example_result],
     pd_retained_result_bytes := 352\<rparr>"
  using example_decoded
  by (simp add: OnAttributeData_def example_success_def own_path_def mk_pending_def example_read_def example_write_def AppendResult_def
      result_size_def kMaximumInteractionReports_def kMaximumInteractionResultBytes_def example_result_def NativePath_def example_member_def Let_def)

lemma example_read_ends:
  "OnDone ReadClient ((mk_pending example_read)\<lparr>pd_started := True, pd_client := Some ReadClient, pd_sent := s,
     pd_results := [example_result], pd_retained_result_bytes := 352\<rparr>) =
   (mk_pending example_read)\<lparr>pd_started := True, pd_sent := s, pd_retained_result_bytes := 352, pd_published := True, pd_done := True,
     pd_reaps := 1, pd_response := empty_response\<lparr>rs_ok := True, rs_results := [example_result]\<rparr>\<rparr>"
  by (simp add: OnDone_def FinishRead_def AddMissingConcreteResults_def mk_pending_def example_read_def example_write_def example_result_def
      is_concrete_def requested_def SamePath_def Publish_def MarkDone_def Let_def)

text \<open>A report on an endpoint that the read does not ask for.\<close>

definition example_stray :: pending_event where
  "example_stray = PE_Attribute (example_member\<lparr>sp_endpoint := 9\<rparr>) None None example_success"

definition example_unasked :: PathResult where
  "example_unasked = error_result \<lparr>cp_fabric_id = 1, cp_node_id = 2, cp_endpoint = 9, cp_cluster = 0x0201, cp_member = 0x0012\<rparr>
     (mk_error ''invalid_attribute_data'' Effect_None)"

lemma example_stray_reports:
  "OnAttributeData example_ids example_decode (example_member\<lparr>sp_endpoint := 9\<rparr>) None None example_success
     ((mk_pending example_read)\<lparr>pd_started := True, pd_client := Some ReadClient, pd_sent := s, pd_results := [example_result],
       pd_retained_result_bytes := 352\<rparr>) =
   (mk_pending example_read)\<lparr>pd_started := True, pd_client := Some ReadClient, pd_sent := s,
     pd_results := [example_result, example_unasked], pd_retained_result_bytes := 608\<rparr>"
  by (simp add: OnAttributeData_def example_success_def own_path_def mk_pending_def example_read_def example_write_def AppendResult_def
      result_size_def kMaximumInteractionReports_def kMaximumInteractionResultBytes_def example_unasked_def error_result_def
      NativePath_def example_member_def Let_def)

lemma example_stray_ends:
  "OnDone ReadClient ((mk_pending example_read)\<lparr>pd_started := True, pd_client := Some ReadClient, pd_sent := s,
     pd_results := [example_result, example_unasked], pd_retained_result_bytes := 608\<rparr>) =
   (mk_pending example_read)\<lparr>pd_started := True, pd_sent := s, pd_retained_result_bytes := 608, pd_published := True, pd_done := True,
     pd_reaps := 1, pd_response := empty_response\<lparr>rs_ok := True, rs_results := [example_result, example_unasked]\<rparr>\<rparr>"
  by (simp add: OnDone_def FinishRead_def AddMissingConcreteResults_def mk_pending_def example_read_def example_write_def example_result_def
      is_concrete_def requested_def SamePath_def Publish_def MarkDone_def Let_def)

lemma example_write_steps:
  "Start 5 None (mk_pending example_write) = (mk_pending example_write)\<lparr>pd_started := True, pd_armed := True\<rparr>"
  "OnConnected 40 ((mk_pending example_write)\<lparr>pd_started := True, pd_armed := True\<rparr>) =
     (mk_pending example_write)\<lparr>pd_started := True, pd_connected := Some 4960\<rparr>"
  "start_client example_ids willing ((mk_pending example_write)\<lparr>pd_started := True, pd_connected := Some 4960\<rparr>) =
     (mk_pending example_write)\<lparr>pd_started := True, pd_client := Some WriteClient, pd_mutation := 1,
       pd_sent := [(SendWrite example_member (Some 7) (Some 500) [Encode_i16 AnonymousTag 2150] 4960, None)]\<rparr>"
  "OnResponse_write example_member example_success ((mk_pending example_write)\<lparr>pd_started := True, pd_client := Some WriteClient,
       pd_mutation := 1, pd_sent := s\<rparr>) =
     (mk_pending example_write)\<lparr>pd_started := True, pd_client := Some WriteClient, pd_mutation := 1,
       pd_sent := s, pd_mutation_path := Some (NativePath 1 2 example_member), pd_mutation_responses := 1\<rparr>"
  by (simp_all add: Start_def OnConnected_def start_client_def start_choice_def StartWrite_def Remaining_def remaining_timeout_ms_def
      mk_pending_def example_write_def EncodeWriteValue_def answering_writer_def willing_def concrete_path_def NativePath_def send_def submit_def
      example_ids_def example_member_def example_success_def OnResponse_write_def SameRequestedPath_def own_path_def
      Submit_latch_def latch_init_def word_le_nat_alt word_less_nat_alt Let_def)

lemma example_write_ends:
  "OnDone WriteClient ((mk_pending example_write)\<lparr>pd_started := True, pd_client := Some WriteClient, pd_mutation := 1,
     pd_sent := s, pd_mutation_path := x, pd_mutation_responses := 1\<rparr>) =
   (mk_pending example_write)\<lparr>pd_started := True, pd_mutation := 3, pd_sent := s, pd_mutation_path := x, pd_mutation_responses := 1,
     pd_published := True, pd_done := True, pd_reaps := 1,
     pd_response := empty_response\<lparr>rs_ok := True, rs_response_path := x, rs_status := 0\<rparr>\<rparr>"
  by (simp add: OnDone_def FinishMutation_def mk_pending_def Publish_def MarkDone_def Complete_def Let_def)

lemma example_read_collects:
  obtains s where "example_pending example_read example_reading =
    (mk_pending example_read)\<lparr>pd_started := True, pd_client := Some ReadClient, pd_sent := s, pd_results := [example_result],
      pd_retained_result_bytes := 352\<rparr>"
    "pending_run example_ids example_decode example_read (example_pending example_read example_reading)"
proof -
  obtain s where s: "start_client example_ids willing ((mk_pending example_read)\<lparr>pd_started := True, pd_connected := Some 4960\<rparr>) =
      (mk_pending example_read)\<lparr>pd_started := True, pd_client := Some ReadClient, pd_sent := s\<rparr>"
    using example_read_starts(3) by blast
  have "example_pending example_read example_reading =
    (mk_pending example_read)\<lparr>pd_started := True, pd_client := Some ReadClient, pd_sent := s, pd_results := [example_result],
      pd_retained_result_bytes := 352\<rparr>"
    by (simp add: example_pending_def example_reading_def example_read_starts(1,2) s example_read_reports)
  moreover have "pending_run example_ids example_decode example_read (example_pending example_read example_reading)"
    by (rule example_pending_run, simp add: example_reading_def example_read_starts(1,2) s) (simp add: mk_pending_def)
  ultimately show thesis by (rule that)
qed

lemma example_write_answered:
  obtains s x where "example_pending example_write example_writing =
    (mk_pending example_write)\<lparr>pd_started := True, pd_client := Some WriteClient, pd_mutation := 1,
       pd_sent := [(s, None)], pd_mutation_path := x, pd_mutation_responses := 1\<rparr>"
    "pending_run example_ids example_decode example_write (example_pending example_write example_writing)"
proof -
  have "pending_run example_ids example_decode example_write (example_pending example_write example_writing)"
    by (rule example_pending_run) code_simp
  then show thesis
    using that by (simp add: example_pending_def example_writing_def example_write_steps)
qed

section \<open>Properties\<close>

text \<open>
  Property C17. Whatever the device and the SDK report, on paths that were asked for or not, and whenever the wait ends, the
  response that \<open>Wait\<close> returns to the session fails the session's own validator only on account of results that the request did not
  ask for: it passes exactly when every result is on a selected path and of the requested kind, and every single result
  passes the other checks (one alternative, the path it was reported for, a value of the schema of that path, an error
  with a code and no effect).  A successful attribute read answers every concrete path of the request.
\<close>

theorem pending_response_valid:
  assumes "table_ids I" "valid_interaction_request request" "pending_run I D request p" "waited \<longrightarrow> pd_published p"
  shows "let r = fst (Wait waited p) in
    (valid_interaction_response request r \<longleftrightarrow> list_all (asked_for request) (rs_results r)) \<and>
    list_all (well_formed request) (rs_results r) \<and>
    (rs_ok r \<and> (rq_kind request = IK_ReadAttribute \<or> rq_kind request = IK_ReadAttributes) \<longrightarrow>
      (\<forall>path\<in>set (rq_paths request). answered (rs_results r) path))"
proof -
  have "collected_ok request p \<and> replied_ok request p" using run_ok [OF assms(1-3)] by simp
  then have "replied_ok request (snd (Wait waited p))" by (intro connection_ok(5) [THEN conjunct2]) simp_all
  then show ?thesis using assms(4) by (auto simp: Wait_def Let_def replied_ok_def complete_reply_def split: if_splits)
qed

text \<open>A temperature that was asked for, and a report on another endpoint, which the read did not ask for: the
  requested path is still answered, and the response does not pass the validator.\<close>

theorem pending_response_valid_witness:
  "(\<exists>p. pending_run example_ids example_decode example_read p \<and> valid_interaction_response example_read (fst (Wait True p)) \<and>
     rs_results (fst (Wait True p)) = [example_result]) \<and>
   (\<exists>p. pending_run example_ids example_decode example_read p \<and> \<not> valid_interaction_response example_read (fst (Wait True p)) \<and>
     length (rs_results (fst (Wait True p))) = 2 \<and>
     (\<forall>path\<in>set (rq_paths example_read). answered (rs_results (fst (Wait True p))) path))"
proof
  obtain s where p: "example_pending example_read example_reading =
      (mk_pending example_read)\<lparr>pd_started := True, pd_client := Some ReadClient, pd_sent := s, pd_results := [example_result],
        pd_retained_result_bytes := 352\<rparr>"
    "pending_run example_ids example_decode example_read (example_pending example_read example_reading)"
    by (rule example_read_collects)
  let ?q = "pending_step example_ids example_decode PE_Done (example_pending example_read example_reading)"
  have run: "pending_run example_ids example_decode example_read ?q" by (rule stepped [OF p(2)]) (simp add: p(1))
  have q: "pd_published ?q" "rs_results (fst (Wait True ?q)) = [example_result]"
    by (simp_all add: p(1) example_read_ends Wait_def)
  have "asked_for example_read example_result" by code_simp
  then show "\<exists>p. pending_run example_ids example_decode example_read p \<and>
      valid_interaction_response example_read (fst (Wait True p)) \<and> rs_results (fst (Wait True p)) = [example_result]"
    using pending_response_valid [OF example_table example_valid(1) run, of True] run q by (auto simp: Let_def)
  let ?v = "pending_step example_ids example_decode example_stray (example_pending example_read example_reading)"
  let ?u = "pending_step example_ids example_decode PE_Done ?v"
  have "pending_run example_ids example_decode example_read ?v"
    by (rule stepped [OF p(2)]) (simp add: p(1) example_stray_def)
  then have stray: "pending_run example_ids example_decode example_read ?u"
    by (rule stepped) (simp add: p(1) example_stray_def example_stray_reports)
  have "\<not> asked_for example_read example_unasked" by code_simp
  then have u: "pd_published ?u" "length (rs_results (fst (Wait True ?u))) = 2" "rs_ok (fst (Wait True ?u))"
    "\<not> list_all (asked_for example_read) (rs_results (fst (Wait True ?u)))"
    by (simp_all add: p(1) example_stray_def example_stray_reports example_stray_ends Wait_def)
  have "rq_kind example_read = IK_ReadAttribute \<or> rq_kind example_read = IK_ReadAttributes" by (simp add: example_read_def example_write_def)
  then show "\<exists>p. pending_run example_ids example_decode example_read p \<and> \<not> valid_interaction_response example_read (fst (Wait True p)) \<and>
     length (rs_results (fst (Wait True p))) = 2 \<and>
     (\<forall>path\<in>set (rq_paths example_read). answered (rs_results (fst (Wait True p))) path)"
    using pending_response_valid [OF example_table example_valid(1) stray, of True] stray u by (auto simp: Let_def)
qed

text \<open>
  However many reports arrive, at most 1024 results are kept and the bytes accounted for them stay within
  96 KiB, which bounds the estimated size of everything that is kept.
\<close>

theorem pending_bounded:
  assumes "table_ids I" "valid_interaction_request request" "pending_run I D request p"
  shows "length (pd_results p) \<le> 1024 \<and> sum_list (map result_size (pd_results p)) \<le> pd_retained_result_bytes p \<and>
    pd_retained_result_bytes p \<le> 98304"
  using run_ok [OF assms]
  by (simp add: collected_ok_def results_ok_def kMaximumInteractionReports_def kMaximumInteractionResultBytes_def)

theorem pending_bounded_witness:
  "\<exists>p. pending_run example_ids example_decode example_read p \<and> pd_results p = [example_result] \<and> pd_retained_result_bytes p \<le> 98304"
proof -
  obtain s where p: "example_pending example_read example_reading =
      (mk_pending example_read)\<lparr>pd_started := True, pd_client := Some ReadClient, pd_sent := s, pd_results := [example_result],
        pd_retained_result_bytes := 352\<rparr>"
    "pending_run example_ids example_decode example_read (example_pending example_read example_reading)"
    by (rule example_read_collects)
  then have "pd_results (example_pending example_read example_reading) = [example_result]" by simp
  then show ?thesis using pending_bounded [OF example_table example_valid(1) p(2)] p(2) by blast
qed

text \<open>
  Property C18. A write or invoke is given to the SDK at most once, and when the SDK has accepted it the published
  response reports success or an unknown effect, the timeout of the wait apart.
\<close>

theorem pending_mutation_effect:
  assumes "table_ids I" "valid_interaction_request request" "is_mutation (rq_kind request)" "pending_run I D request p"
  shows "length (pd_sent p) \<le> 1 \<and>
    (pd_published p \<and> (\<exists>r. (r, None) \<in> set (pd_sent p)) \<longrightarrow>
      rs_ok (pd_response p) \<or> effect_unknown (pd_response p) \<or> timed_out (pd_response p))"
proof -
  obtain s where s: "at_stage s p" using run_ok [OF assms(1,2,4)] by blast
  then have "length (pd_sent p) \<le> 1" by (cases s) (auto simp: unsent_def accounted_def)
  moreover have "IsMutation p" using run_ok [OF assms(1,2,4)] assms(3) by (simp add: collected_ok_def IsMutation_def is_mutation_def)
  ultimately show ?thesis using run_honest [OF assms(1,2,4)] by (auto simp: honest_def accepted_def)
qed

theorem pending_mutation_effect_witness:
  "\<exists>p r. pending_run example_ids example_decode example_write p \<and> pd_sent p = [(r, None)] \<and> pd_published p \<and>
     (rs_ok (pd_response p) \<or> effect_unknown (pd_response p) \<or> timed_out (pd_response p))"
proof -
  obtain s x where p: "example_pending example_write example_writing =
      (mk_pending example_write)\<lparr>pd_started := True, pd_client := Some WriteClient, pd_mutation := 1,
         pd_sent := [(s, None)], pd_mutation_path := x, pd_mutation_responses := 1\<rparr>"
    "pending_run example_ids example_decode example_write (example_pending example_write example_writing)"
    by (rule example_write_answered)
  let ?q = "pending_step example_ids example_decode PE_Done (example_pending example_write example_writing)"
  have run: "pending_run example_ids example_decode example_write ?q" by (rule stepped [OF p(2)]) (simp add: p(1))
  have "pd_sent ?q = [(s, None)]" "pd_published ?q" by (simp_all add: p(1) example_write_ends)
  moreover have "is_mutation (rq_kind example_write)" by (simp add: is_mutation_def example_write_def)
  ultimately show ?thesis using pending_mutation_effect [OF example_table example_valid(2) _ run] run by auto
qed

text \<open>
  No request is lost: once \<open>Start\<close> has run, a request for which the SDK holds neither a connection
  callback nor a client has its response published and is marked done, and the reaper is scheduled at most once.
\<close>

theorem pending_not_lost:
  assumes "table_ids I" "valid_interaction_request request" "pending_run I D request p"
    "pd_started p" "\<not> pd_armed p" "pd_connected p = None" "pd_client p = None"
  shows "pd_published p \<and> pd_done p \<and> pd_reaps p \<le> 1"
proof -
  obtain s where "at_stage s p" using run_ok [OF assms(1-3)] by blast
  then show ?thesis using assms(4-7) by (cases s) (auto simp: accounted_def)
qed

theorem pending_not_lost_witness:
  "\<exists>p. pending_run example_ids example_decode example_write p \<and> pd_started p \<and> pd_published p \<and> pd_done p"
proof -
  obtain s x where p: "example_pending example_write example_writing =
      (mk_pending example_write)\<lparr>pd_started := True, pd_client := Some WriteClient, pd_mutation := 1,
         pd_sent := [(s, None)], pd_mutation_path := x, pd_mutation_responses := 1\<rparr>"
    "pending_run example_ids example_decode example_write (example_pending example_write example_writing)"
    by (rule example_write_answered)
  let ?q = "pending_step example_ids example_decode PE_Done (example_pending example_write example_writing)"
  have run: "pending_run example_ids example_decode example_write ?q" by (rule stepped [OF p(2)]) (simp add: p(1))
  have "pd_started ?q" "\<not> pd_armed ?q" "pd_connected ?q = None" "pd_client ?q = None"
    by (simp_all add: p(1) example_write_ends) (simp_all add: mk_pending_def)
  from pending_not_lost [OF example_table example_valid(2) run this] run this show ?thesis by blast
qed

text \<open>
  Property C19. The timeout of the wait is decided without the latch of the mutation: when the time is up between the two parts of
  \<open>OnConnected\<close>, the caller gets a timeout that claims no effect, and the write is sent and accepted after that.
\<close>

theorem timeout_before_submission:
  "\<exists>p. pending_run example_ids example_decode example_write p \<and> fst (Wait False p) = failed_response (mk_error ''interaction_timeout'' Effect_None) \<and>
     enabled (PE_StartClient willing) (snd (Wait False p)) \<and>
     (\<exists>r. pd_sent (pending_step example_ids example_decode (PE_StartClient willing) (snd (Wait False p))) = [(r, None)])"
proof -
  let ?p = "example_pending example_write [PE_Start 5 None, PE_Connected 40]"
  let ?q = "pending_step example_ids example_decode (PE_StartClient willing) (snd (Wait False ?p))"
  have "pending_run example_ids example_decode example_write ?p" by (rule example_pending_run) code_simp
  moreover have "fst (Wait False ?p) = failed_response (mk_error ''interaction_timeout'' Effect_None)" by code_simp
  moreover have "enabled (PE_StartClient willing) (snd (Wait False ?p))" by code_simp
  moreover have "map snd (pd_sent ?q) = [None]" by code_simp
  then have "\<exists>r. pd_sent ?q = [(r, None)]" by (auto simp: map_eq_Cons_conv)
  ultimately show ?thesis by blast
qed

end
