(* ===== verification/ControllerSubscription.thy ===== *)
theory ControllerSubscription
  imports ControllerPending HostContract "HOL-Library.Sublist"
begin

text \<open>
  \<open>NativeSubscription\<close> of \<^verbatim>\<open>native/src/controller.cpp\<close>: a subscription between the \<open>ReadClient\<close> of the SDK, the
  report buffer, the recovery policy and the sinks of the session.

  Two threads work on it.  The SDK thread makes the callbacks; the host's thread waits for the response, activates and
  cancels.  Every critical section under \<open>mutex_\<close> is one step.  What a thread still has to do outside the lock is
  part of the state: \<open>ns_sdk\<close> for the SDK thread, \<open>ns_activating\<close> for reports that \<open>Activate\<close> has taken from the
  buffer and not yet handed to the sink.  The owner's sinks answer with a flag that is chosen by the environment,
  and so does \<open>ScheduleWork\<close>.
\<close>

section \<open>State\<close>

datatype emission =
  Em_Report SubscriptionReport bool
| Em_Status SubscriptionStatus bool
| Em_Failure string u64 InteractionError

text \<open>A failure to be emitted, and whether \<open>MarkDone\<close> follows it.\<close>

datatype sdk_task =
  K_Idle
| K_Emit "SubscriptionReport list"
| K_Retry SubscriptionStatus u32
| K_Resubscribed SubscriptionStatus "SubscriptionReport list"
| K_Failure u64 InteractionError bool

record subscribe_params =
  bp_timeout :: u32
  bp_keep_subscriptions :: bool
  bp_fabric_filtered :: bool
  bp_min_interval :: u16
  bp_max_interval :: u16
  bp_attribute_paths :: "sdk_path list"
  bp_event_paths :: "sdk_path list"
  bp_auto_resubscribe :: bool

record NativeSubscription =
  ns_request :: SubscriptionRequest
  ns_buffer :: SubscriptionBuffer
  ns_recovery :: SubscriptionRecovery
  ns_response :: SubscriptionResponse
  ns_published :: bool
  ns_cancelled :: bool
  ns_failure_emitted :: bool
  ns_cancel_scheduled :: bool
  ns_done :: bool
  ns_recovery_timer_active :: bool
  ns_recovery_attempt :: u8
  ns_client :: bool
  ns_started :: bool
  ns_armed :: bool
  ns_timer :: bool
  ns_cancel_work :: bool
  ns_sent :: "subscribe_params list"
  ns_delay :: "(u32 \<times> u32) option"
  ns_sdk :: sdk_task
  ns_activating :: "SubscriptionReport list"
  ns_taken :: "SubscriptionReport list"
  ns_outbox :: "emission list"
  ns_reaps :: nat

definition empty_subscription :: SubscriptionResponse where
  "empty_subscription =
     \<lparr>so_ok = False, so_error_code = [], so_subscription_id = [], so_generation = 0, so_min_interval_s = 0,
      so_max_interval_s = 0, so_sdk_subscription_id = 0\<rparr>"

definition mk_subscription :: "SubscriptionRequest \<Rightarrow> NativeSubscription" where
  "mk_subscription request =
     \<lparr>ns_request = request, ns_buffer = mk_buffer request, ns_recovery = mk_recovery (sr_resubscribe request),
      ns_response = empty_subscription, ns_published = False, ns_cancelled = False, ns_failure_emitted = False,
      ns_cancel_scheduled = False, ns_done = False, ns_recovery_timer_active = False, ns_recovery_attempt = 0,
      ns_client = False, ns_started = False, ns_armed = False, ns_timer = False, ns_cancel_work = False, ns_sent = [],
      ns_delay = None, ns_sdk = K_Idle, ns_activating = [], ns_taken = [], ns_outbox = [], ns_reaps = 0\<rparr>"

section \<open>Cancellation, publication, failure\<close>

definition ScheduleCancelLocked :: "bool \<Rightarrow> NativeSubscription \<Rightarrow> NativeSubscription" where
  "ScheduleCancelLocked scheduled s =
     (if ns_cancel_scheduled s \<or> ns_done s then s
      else let s1 = s\<lparr>ns_cancel_scheduled := True\<rparr>
           in if scheduled then s1\<lparr>ns_cancel_work := True\<rparr> else s1\<lparr>ns_done := True\<rparr>)"

definition ScheduleCancel :: "bool \<Rightarrow> NativeSubscription \<Rightarrow> NativeSubscription" where
  "ScheduleCancel scheduled s = ScheduleCancelLocked scheduled s"

definition MarkDone_subscription :: "NativeSubscription \<Rightarrow> NativeSubscription" where
  "MarkDone_subscription s = (if ns_done s then s else s\<lparr>ns_done := True, ns_reaps := ns_reaps s + 1\<rparr>)"

definition set_error :: "string \<Rightarrow> NativeSubscription \<Rightarrow> NativeSubscription" where
  "set_error code s = s\<lparr>ns_response := (ns_response s)\<lparr>so_error_code := code\<rparr>, ns_published := True\<rparr>"

definition PublishFailure :: "string \<Rightarrow> NativeSubscription \<Rightarrow> NativeSubscription" where
  "PublishFailure code s = (if ns_published s then s else set_error code s)"

text \<open>Up to the emission, which is the next step of the SDK thread.\<close>

definition FailActive :: "bool \<Rightarrow> InteractionError \<Rightarrow> bool \<Rightarrow> NativeSubscription \<Rightarrow> NativeSubscription" where
  "FailActive scheduled e and_done s =
     (if ns_failure_emitted s then s
      else
        let s1 = s\<lparr>ns_failure_emitted := True, ns_buffer := Cancel_buffer (ns_buffer s)\<rparr>
        in if so_ok (ns_response s) then s1\<lparr>ns_sdk := K_Failure (rc_generation (ns_recovery s)) e and_done\<rparr>
           else ScheduleCancel scheduled (if ns_published s then s1 else set_error (ie_code e) s1))"

definition CancelRecoveryTimer :: "NativeSubscription \<Rightarrow> NativeSubscription" where
  "CancelRecoveryTimer s =
     (if ns_recovery_timer_active s then s\<lparr>ns_timer := False, ns_recovery_timer_active := False\<rparr> else s)"

definition CancelOnSdkThread :: "NativeSubscription \<Rightarrow> NativeSubscription" where
  "CancelOnSdkThread s =
     (let s1 = s\<lparr>ns_armed := False, ns_cancelled := True, ns_recovery := Cancel_recovery (ns_recovery s),
                 ns_buffer := Cancel_buffer (ns_buffer s)\<rparr>
      in MarkDone_subscription ((CancelRecoveryTimer s1)\<lparr>ns_client := False\<rparr>))"

section \<open>The waiting thread\<close>

text \<open>\<open>Wait\<close> when its time is up: the first critical section, and what follows it.\<close>

definition Wait_gives_up :: "NativeSubscription \<Rightarrow> NativeSubscription" where
  "Wait_gives_up s = set_error ''subscription_timeout'' s"

definition Wait_returns :: "bool \<Rightarrow> bool \<Rightarrow> NativeSubscription \<Rightarrow> SubscriptionResponse \<times> NativeSubscription" where
  "Wait_returns gave_up scheduled s =
     (let s1 = (if gave_up then ScheduleCancel scheduled s else s) in (ns_response s1, s1))"

definition take_ready :: "NativeSubscription \<Rightarrow> SubscriptionReport list \<times> NativeSubscription" where
  "take_ready s =
     (case TakeReady (ns_buffer s) of (reports, b) \<Rightarrow> (reports, s\<lparr>ns_buffer := b, ns_taken := ns_taken s @ reports\<rparr>))"

definition Activate_subscription :: "NativeSubscription \<Rightarrow> bool \<times> NativeSubscription" where
  "Activate_subscription s =
     (if \<not> so_ok (ns_response s) \<or> ns_done s \<or> ns_cancelled s then (False, s)
      else case take_ready (s\<lparr>ns_buffer := Activate (ns_buffer s)\<rparr>) of
        (reports, s1) \<Rightarrow> (True, s1\<lparr>ns_activating := reports\<rparr>))"

text \<open>One round of \<open>Emit\<close>: the report goes to the sink, which may refuse it.\<close>

definition emit_report :: "SubscriptionReport \<Rightarrow> bool \<Rightarrow> NativeSubscription \<Rightarrow> NativeSubscription" where
  "emit_report r ok s = s\<lparr>ns_outbox := ns_outbox s @ [Em_Report r ok]\<rparr>"

definition Emit_activating :: "bool \<Rightarrow> bool \<Rightarrow> NativeSubscription \<Rightarrow> NativeSubscription" where
  "Emit_activating ok scheduled s =
     (case ns_activating s of
        [] \<Rightarrow> s
      | r # rs \<Rightarrow>
          if ok then (emit_report r ok s)\<lparr>ns_activating := rs\<rparr>
          else ScheduleCancel scheduled ((emit_report r ok s)\<lparr>ns_activating := []\<rparr>))"

section \<open>The SDK thread\<close>

definition Remaining_subscription :: "u64 \<Rightarrow> NativeSubscription \<Rightarrow> u32" where
  "Remaining_subscription elapsed s = remaining_timeout_ms (sr_timeout_ms (ns_request s)) elapsed"

definition Start_subscription :: "u64 \<Rightarrow> chip_error option \<Rightarrow> NativeSubscription \<Rightarrow> NativeSubscription" where
  "Start_subscription elapsed connecting s =
     (let s = s\<lparr>ns_started := True\<rparr>
      in if Remaining_subscription elapsed s = 0 then MarkDone_subscription (PublishFailure ''subscription_timeout'' s)
         else case connecting of
           Some _ \<Rightarrow> MarkDone_subscription (PublishFailure ''session_establishment_failed'' s)
         | None \<Rightarrow> s\<lparr>ns_armed := True\<rparr>)"

definition ConnectionFailed_subscription :: "NativeSubscription \<Rightarrow> NativeSubscription" where
  "ConnectionFailed_subscription s =
     MarkDone_subscription (PublishFailure ''session_establishment_failed'' (s\<lparr>ns_armed := False\<rparr>))"

definition subscribe_request_params :: "u32 \<Rightarrow> SubscriptionRequest \<Rightarrow> subscribe_params" where
  "subscribe_request_params remaining request =
     (let paths = map concrete_path (sr_paths request)
      in \<lparr>bp_timeout = remaining, bp_keep_subscriptions = True, bp_fabric_filtered = True,
          bp_min_interval = sr_min_interval_s request, bp_max_interval = sr_max_interval_s request,
          bp_attribute_paths = (if sr_kind request = SK_Attribute then paths else []),
          bp_event_paths = (if sr_kind request = SK_Attribute then [] else paths),
          bp_auto_resubscribe = sr_resubscribe request\<rparr>)"

definition OnConnected_subscription :: "u64 \<Rightarrow> chip_error option \<Rightarrow> NativeSubscription \<Rightarrow> NativeSubscription" where
  "OnConnected_subscription elapsed sending s =
     (let s = s\<lparr>ns_armed := False\<rparr>; remaining = Remaining_subscription elapsed s
      in if remaining = 0 then MarkDone_subscription (PublishFailure ''subscription_timeout'' s)
         else
           let s1 = s\<lparr>ns_client := True, ns_sent := ns_sent s @ [subscribe_request_params remaining (ns_request s)]\<rparr>
           in if sending \<noteq> None
              then MarkDone_subscription (PublishFailure ''subscription_submit_failed'' (s1\<lparr>ns_client := False\<rparr>))
              else s1)"

definition OnReportBegin :: "NativeSubscription \<Rightarrow> NativeSubscription" where
  "OnReportBegin s = s\<lparr>ns_buffer := BeginReport (ns_buffer s)\<rparr>"

definition OnReportEnd :: "NativeSubscription \<Rightarrow> NativeSubscription" where
  "OnReportEnd s =
     (case take_ready (s\<lparr>ns_buffer := EndReport (ns_buffer s)\<rparr>) of (reports, s1) \<Rightarrow> s1\<lparr>ns_sdk := K_Emit reports\<rparr>)"

definition Add_subscription :: "bool \<Rightarrow> PathResult \<Rightarrow> NativeSubscription \<Rightarrow> NativeSubscription" where
  "Add_subscription scheduled result s =
     (case Add result (ns_buffer s) of
        (added, b) \<Rightarrow>
          let s1 = s\<lparr>ns_buffer := b\<rparr>
          in if added then s1 else FailActive scheduled (mk_error ''invalid_subscription_report'' Effect_None) False s1)"

definition subscribed_path :: "sdk_path \<Rightarrow> NativeSubscription \<Rightarrow> ConcretePath" where
  "subscribed_path path s = NativePath (sr_fabric_id (ns_request s)) (sr_node_id (ns_request s)) path"

definition OnAttributeData_subscription ::
    "sdk_ids \<Rightarrow> sdk_decode \<Rightarrow> bool \<Rightarrow> sdk_path \<Rightarrow> u32 option \<Rightarrow> tlv option \<Rightarrow> status_ib \<Rightarrow> NativeSubscription \<Rightarrow> NativeSubscription" where
  "OnAttributeData_subscription I D scheduled path data_version data status s =
     (let own = subscribed_path path s
      in if \<not> sib_success status then FailActive scheduled (StatusError status Effect_None) False s
         else case data of
           None \<Rightarrow> FailActive scheduled (mk_error ''invalid_attribute_data'' Effect_None) False s
         | Some r \<Rightarrow>
             (case DecodeAttribute I D own r of
                Inl _ \<Rightarrow> FailActive scheduled (mk_error ''unsupported_schema'' Effect_None) False s
              | Inr v \<Rightarrow> Add_subscription scheduled
                  \<lparr>pr_path = own, pr_attribute = Some \<lparr>ad_path = own, ad_value = v, ad_data_version = data_version\<rparr>,
                   pr_event = None, pr_error = None\<rparr> s))"

definition OnEventData_subscription ::
    "sdk_ids \<Rightarrow> sdk_decode \<Rightarrow> bool \<Rightarrow> event_header \<Rightarrow> tlv option \<Rightarrow> status_ib option \<Rightarrow> NativeSubscription \<Rightarrow> NativeSubscription" where
  "OnEventData_subscription I D scheduled header data status s =
     (let own = subscribed_path (eh_path header) s
      in if (case status of None \<Rightarrow> False | Some x \<Rightarrow> \<not> sib_success x)
         then FailActive scheduled (StatusError (the status) Effect_None) False s
         else case data of
           None \<Rightarrow> FailActive scheduled (mk_error ''invalid_event_data'' Effect_None) False s
         | Some r \<Rightarrow>
             (case DecodeEvent I D own r of
                Inl _ \<Rightarrow> FailActive scheduled (mk_error ''unsupported_schema'' Effect_None) False s
              | Inr v \<Rightarrow>
                  if \<not> eh_is_system header \<and> \<not> eh_is_epoch header
                  then FailActive scheduled (mk_error ''unsupported_timestamp'' Effect_None) False s
                  else Add_subscription scheduled
                    \<lparr>pr_path = own, pr_attribute = None,
                     pr_event = Some \<lparr>ed_path = own, ed_value = v, ed_event_number = eh_event_number header,
                       ed_priority = eh_priority header,
                       ed_timestamp_kind = (if eh_is_epoch header then TS_Epoch else TS_System),
                       ed_timestamp_value = eh_timestamp header\<rparr>,
                     pr_error = None\<rparr> s))"

text \<open>\<open>intervals\<close> is what \<open>GetReportingIntervals\<close> gives.\<close>

definition established_status :: "u64 \<Rightarrow> u8 \<Rightarrow> u32 \<Rightarrow> u16 \<Rightarrow> u16 \<Rightarrow> NativeSubscription \<Rightarrow> SubscriptionStatus" where
  "established_status gen attempt sdk_id minimum maximum s =
     \<lparr>ss_subscription_id = sr_subscription_id (ns_request s), ss_generation = gen, ss_status = ST_Resubscribed,
      ss_continuity = SC_Unknown, ss_attempt = attempt, ss_min_interval_s = minimum, ss_max_interval_s = maximum,
      ss_sdk_subscription_id = sdk_id\<rparr>"

definition OnSubscriptionEstablished :: "bool \<Rightarrow> u32 \<Rightarrow> (u16 \<times> u16) option \<Rightarrow> NativeSubscription \<Rightarrow> NativeSubscription" where
  "OnSubscriptionEstablished scheduled sdk_id intervals s =
     (if \<not> ns_client s \<or> intervals = None
      then (if so_ok (ns_response s) then FailActive scheduled (mk_error ''invalid_subscription_result'' Effect_None) False s
            else ScheduleCancel scheduled (PublishFailure ''invalid_subscription_result'' s))
      else
        let (minimum, maximum) = the intervals;
            recovering = rc_recovering (ns_recovery s);
            (established, b) = Establish sdk_id minimum maximum (ns_buffer s);
            s1 = s\<lparr>ns_buffer := b\<rparr>
        in if \<not> established \<and> \<not> recovering
           then ScheduleCancelLocked scheduled (set_error ''invalid_subscription_result'' s1)
           else if \<not> established then FailActive scheduled (mk_error ''invalid_subscription_result'' Effect_None) False s1
           else if recovering
           then (case take_ready (s1\<lparr>ns_buffer := Activate (ns_buffer s1)\<rparr>) of
                   (reports, s2) \<Rightarrow>
                     (CancelRecoveryTimer s2)\<lparr>ns_sdk := K_Resubscribed
                       (established_status (rc_generation (ns_recovery s)) (ns_recovery_attempt s) sdk_id minimum maximum s) reports\<rparr>)
           else s1\<lparr>ns_response := \<lparr>so_ok = True, so_error_code = [], so_subscription_id = sr_subscription_id (ns_request s),
                     so_generation = sb_generation (ns_buffer s1), so_min_interval_s = minimum, so_max_interval_s = maximum,
                     so_sdk_subscription_id = sdk_id\<rparr>, ns_published := True\<rparr>)"

text \<open>Up to the emission of the status.  The recovery timer is started by the first attempt.\<close>

definition OnResubscriptionNeeded :: "bool \<Rightarrow> u64 \<Rightarrow> bool \<Rightarrow> NativeSubscription \<Rightarrow> NativeSubscription" where
  "OnResubscriptionNeeded scheduled now timer_started s =
     (if \<not> so_ok (ns_response s) \<or> ns_cancelled s \<or> ns_done s then s
      else
        let (decision, r) = Next_recovery now (ns_recovery s);
            first = (dc_action decision = RA_Retry \<and> dc_attempt decision = 1);
            (prepared, b) = (if first then PrepareRecovery (dc_generation decision) (ns_buffer s) else (True, ns_buffer s));
            s1 = s\<lparr>ns_recovery := r, ns_buffer := b, ns_recovery_attempt := dc_attempt decision\<rparr>
        in if \<not> prepared \<or> dc_action decision \<noteq> RA_Retry
           then FailActive scheduled (mk_error ''session_lost'' Effect_None) False s1
           else if dc_attempt decision = 1 \<and> \<not> timer_started
           then FailActive scheduled (mk_error ''subscription_unavailable'' Effect_None) False s1
           else s1\<lparr>ns_timer := (ns_timer s \<or> dc_attempt decision = 1), ns_recovery_timer_active := True,
                   ns_sdk := K_Retry (retry_status (sr_subscription_id (ns_request s)) decision) (dc_remaining_ms decision)\<rparr>)"

definition OnError_subscription :: "bool \<Rightarrow> NativeSubscription \<Rightarrow> NativeSubscription" where
  "OnError_subscription scheduled s = FailActive scheduled (mk_error ''session_lost'' Effect_None) False s"

definition RecoveryDeadline :: "bool \<Rightarrow> NativeSubscription \<Rightarrow> NativeSubscription" where
  "RecoveryDeadline scheduled s =
     FailActive scheduled (mk_error ''session_lost'' Effect_None) False
       (s\<lparr>ns_timer := False, ns_recovery_timer_active := False\<rparr>)"

definition OnDone_subscription :: "bool \<Rightarrow> NativeSubscription \<Rightarrow> NativeSubscription" where
  "OnDone_subscription scheduled s =
     (let s1 = (CancelRecoveryTimer s)\<lparr>ns_client := False\<rparr>
      in if so_ok (ns_response s1) \<and> \<not> ns_cancelled s1 \<and> \<not> ns_failure_emitted s1
         then FailActive scheduled (mk_error ''session_lost'' Effect_None) True s1
         else MarkDone_subscription s1)"

text \<open>What the SDK thread still has to do outside the lock; \<open>till_next\<close> is the answer of
  \<open>ComputeTimeTillNextSubscription\<close>.\<close>

definition continue_sdk :: "bool \<Rightarrow> bool \<Rightarrow> u32 \<Rightarrow> NativeSubscription \<Rightarrow> NativeSubscription" where
  "continue_sdk ok scheduled till_next s =
     (case ns_sdk s of
        K_Idle \<Rightarrow> s
      | K_Emit [] \<Rightarrow> s\<lparr>ns_sdk := K_Idle\<rparr>
      | K_Emit (r # rs) \<Rightarrow>
          if ok then (emit_report r ok s)\<lparr>ns_sdk := K_Emit rs\<rparr>
          else ScheduleCancel scheduled ((emit_report r ok s)\<lparr>ns_sdk := K_Idle\<rparr>)
      | K_Retry status remaining \<Rightarrow>
          let s1 = s\<lparr>ns_outbox := ns_outbox s @ [Em_Status status ok], ns_sdk := K_Idle\<rparr>
          in if \<not> ok then FailActive scheduled (mk_error ''subscription_unavailable'' Effect_None) False s1
             else s1\<lparr>ns_delay := Some (min till_next (remaining - 1), remaining)\<rparr>
      | K_Resubscribed status reports \<Rightarrow>
          let s1 = s\<lparr>ns_outbox := ns_outbox s @ [Em_Status status ok], ns_sdk := K_Idle\<rparr>
          in if \<not> ok then FailActive scheduled (mk_error ''subscription_unavailable'' Effect_None) False s1
             else s1\<lparr>ns_recovery := Established_recovery (ns_recovery s), ns_sdk := K_Emit reports\<rparr>
      | K_Failure gen e and_done \<Rightarrow>
          let s1 = ScheduleCancel scheduled
                (s\<lparr>ns_outbox := ns_outbox s @ [Em_Failure (sr_subscription_id (ns_request s)) gen e], ns_sdk := K_Idle\<rparr>)
          in if and_done then MarkDone_subscription s1 else s1)"

text \<open>What \<open>Subscribe\<close> does when the SDK does not take the start; such a subscription starts no more.\<close>

definition unavailable_subscription :: "NativeSubscription \<Rightarrow> NativeSubscription" where
  "unavailable_subscription s = MarkDone_subscription (PublishFailure ''subscription_unavailable'' (s\<lparr>ns_started := True\<rparr>))"

section \<open>Runs\<close>

datatype subscription_event =
  NE_GiveUp | NE_WaitReturns bool bool | NE_Activate | NE_EmitActivating bool bool | NE_Cancel bool
| NE_Start u64 "chip_error option" | NE_ConnectionFailed | NE_Connected u64 "chip_error option"
| NE_ReportBegin | NE_ReportEnd | NE_Attribute bool sdk_path "u32 option" "tlv option" status_ib
| NE_Event bool event_header "tlv option" "status_ib option" | NE_Established bool u32 "(u16 \<times> u16) option"
| NE_ResubscriptionNeeded bool u64 bool | NE_Error bool | NE_Deadline bool | NE_Done bool
| NE_CancelWork | NE_Shutdown | NE_Continue bool bool u32 | NE_Unavailable

fun enabled_subscription :: "subscription_event \<Rightarrow> NativeSubscription \<Rightarrow> bool" where
  "enabled_subscription NE_GiveUp s \<longleftrightarrow> True"
| "enabled_subscription (NE_WaitReturns gave_up scheduled) s \<longleftrightarrow> ns_published s"
| "enabled_subscription NE_Activate s \<longleftrightarrow> ns_activating s = []"
| "enabled_subscription (NE_EmitActivating ok scheduled) s \<longleftrightarrow> ns_activating s \<noteq> []"
| "enabled_subscription (NE_Cancel scheduled) s \<longleftrightarrow> True"
| "enabled_subscription (NE_Start elapsed connecting) s \<longleftrightarrow> ns_sdk s = K_Idle \<and> \<not> ns_started s"
| "enabled_subscription NE_Unavailable s \<longleftrightarrow> ns_sdk s = K_Idle \<and> \<not> ns_started s"
| "enabled_subscription NE_ConnectionFailed s \<longleftrightarrow> ns_sdk s = K_Idle \<and> ns_armed s"
| "enabled_subscription (NE_Connected elapsed sending) s \<longleftrightarrow> ns_sdk s = K_Idle \<and> ns_armed s"
| "enabled_subscription (NE_Deadline scheduled) s \<longleftrightarrow> ns_sdk s = K_Idle \<and> ns_timer s"
| "enabled_subscription NE_CancelWork s \<longleftrightarrow> ns_sdk s = K_Idle"
| "enabled_subscription NE_Shutdown s \<longleftrightarrow> ns_sdk s = K_Idle"
| "enabled_subscription (NE_Continue ok scheduled till) s \<longleftrightarrow> ns_sdk s \<noteq> K_Idle"
| "enabled_subscription _ s \<longleftrightarrow> ns_sdk s = K_Idle \<and> ns_client s"

fun subscription_step :: "sdk_ids \<Rightarrow> sdk_decode \<Rightarrow> subscription_event \<Rightarrow> NativeSubscription \<Rightarrow> NativeSubscription" where
  "subscription_step I D NE_GiveUp s = Wait_gives_up s"
| "subscription_step I D (NE_WaitReturns gave_up scheduled) s = snd (Wait_returns gave_up scheduled s)"
| "subscription_step I D NE_Activate s = snd (Activate_subscription s)"
| "subscription_step I D (NE_EmitActivating ok scheduled) s = Emit_activating ok scheduled s"
| "subscription_step I D (NE_Cancel scheduled) s = ScheduleCancel scheduled s"
| "subscription_step I D (NE_Start elapsed connecting) s = Start_subscription elapsed connecting s"
| "subscription_step I D NE_ConnectionFailed s = ConnectionFailed_subscription s"
| "subscription_step I D (NE_Connected elapsed sending) s = OnConnected_subscription elapsed sending s"
| "subscription_step I D NE_ReportBegin s = OnReportBegin s"
| "subscription_step I D NE_ReportEnd s = OnReportEnd s"
| "subscription_step I D (NE_Attribute scheduled path v data st) s = OnAttributeData_subscription I D scheduled path v data st s"
| "subscription_step I D (NE_Event scheduled h data so) s = OnEventData_subscription I D scheduled h data so s"
| "subscription_step I D (NE_Established scheduled sdk_id intervals) s = OnSubscriptionEstablished scheduled sdk_id intervals s"
| "subscription_step I D (NE_ResubscriptionNeeded scheduled now timer) s = OnResubscriptionNeeded scheduled now timer s"
| "subscription_step I D (NE_Error scheduled) s = OnError_subscription scheduled s"
| "subscription_step I D (NE_Deadline scheduled) s = RecoveryDeadline scheduled s"
| "subscription_step I D (NE_Done scheduled) s = OnDone_subscription scheduled s"
| "subscription_step I D NE_CancelWork s = CancelOnSdkThread (s\<lparr>ns_cancel_work := False\<rparr>)"
| "subscription_step I D NE_Shutdown s = CancelOnSdkThread s"
| "subscription_step I D (NE_Continue ok scheduled till) s = continue_sdk ok scheduled till s"
| "subscription_step I D NE_Unavailable s = unavailable_subscription s"

inductive subscription_run :: "sdk_ids \<Rightarrow> sdk_decode \<Rightarrow> SubscriptionRequest \<Rightarrow> NativeSubscription \<Rightarrow> bool" for I D request where
  subscribing: "subscription_run I D request (mk_subscription request)"
| working: "subscription_run I D request s \<Longrightarrow> enabled_subscription e s \<Longrightarrow> subscription_run I D request (subscription_step I D e s)"

section \<open>Buffer, policy and response\<close>

definition good_response :: "SubscriptionRequest \<Rightarrow> SubscriptionResponse \<Rightarrow> bool" where
  "good_response request r \<longleftrightarrow> (so_ok r \<longrightarrow> so_subscription_id r = sr_subscription_id request \<and> so_generation r \<noteq> 0 \<and>
     so_max_interval_s r \<noteq> 0 \<and> \<not> so_min_interval_s r > so_max_interval_s r)"

definition held_inv :: "SubscriptionRequest \<Rightarrow> NativeSubscription \<Rightarrow> bool" where
  "held_inv request s \<longleftrightarrow>
     ns_request s = request \<and> buffer_inv (ns_taken s) (ns_buffer s) \<and> sb_request (ns_buffer s) = request \<and>
     sb_generation (ns_buffer s) \<noteq> 0 \<and> recovery_inv (ns_recovery s) \<and>
     (ns_failure_emitted s \<or> ns_cancelled s \<longrightarrow> \<not> sb_active (ns_buffer s) \<and> sb_ready (ns_buffer s) = []) \<and>
     good_response request (ns_response s)"

definition buffer_evolves :: "SubscriptionBuffer \<Rightarrow> SubscriptionBuffer \<Rightarrow> bool" where
  "buffer_evolves b b' \<longleftrightarrow> sb_request b' = sb_request b \<and> (sb_generation b \<noteq> 0 \<longrightarrow> sb_generation b' \<noteq> 0) \<and>
     (\<not> sb_active b \<and> sb_ready b = [] \<longrightarrow> \<not> sb_active b' \<and> sb_ready b' = [])"

lemma buffer_evolves_ops:
  "buffer_evolves b (BeginReport b)" "buffer_evolves b (EndReport b)" "buffer_evolves b (snd (Add x b))"
  "buffer_evolves b (snd (Establish i mn mx b))" "buffer_evolves b (snd (PrepareRecovery g b))" "buffer_evolves b (Activate b)"
  "buffer_evolves b (Cancel_buffer b)" "buffer_evolves b (snd (TakeReady b))"
  by (auto simp: buffer_evolves_def BeginReport_def EndReport_def Add_def Establish_def PrepareRecovery_def Activate_def
      Cancel_buffer_def TakeReady_def remember_def Let_def)

lemma held_buffer:
  "held_inv request s \<Longrightarrow> buffer_inv (ns_taken s) b \<Longrightarrow> buffer_evolves (ns_buffer s) b \<Longrightarrow> held_inv request (s\<lparr>ns_buffer := b\<rparr>)"
  by (auto simp: held_inv_def buffer_evolves_def)

lemma held_buffer_ops:
  assumes "held_inv request s"
  shows "held_inv request (s\<lparr>ns_buffer := BeginReport (ns_buffer s)\<rparr>)" "held_inv request (s\<lparr>ns_buffer := EndReport (ns_buffer s)\<rparr>)"
    "held_inv request (s\<lparr>ns_buffer := snd (Add x (ns_buffer s))\<rparr>)"
    "held_inv request (s\<lparr>ns_buffer := snd (Establish i mn mx (ns_buffer s))\<rparr>)"
    "held_inv request (s\<lparr>ns_buffer := snd (PrepareRecovery g (ns_buffer s))\<rparr>)"
    "held_inv request (s\<lparr>ns_buffer := Activate (ns_buffer s)\<rparr>)" "held_inv request (s\<lparr>ns_buffer := Cancel_buffer (ns_buffer s)\<rparr>)"
proof -
  have inv: "buffer_inv (ns_taken s) (ns_buffer s)" using assms by (simp add: held_inv_def)
  note held = held_buffer [OF assms]
  show "held_inv request (s\<lparr>ns_buffer := BeginReport (ns_buffer s)\<rparr>)" "held_inv request (s\<lparr>ns_buffer := EndReport (ns_buffer s)\<rparr>)"
    "held_inv request (s\<lparr>ns_buffer := snd (Add x (ns_buffer s))\<rparr>)"
    "held_inv request (s\<lparr>ns_buffer := snd (Establish i mn mx (ns_buffer s))\<rparr>)"
    "held_inv request (s\<lparr>ns_buffer := snd (PrepareRecovery g (ns_buffer s))\<rparr>)"
    "held_inv request (s\<lparr>ns_buffer := Activate (ns_buffer s)\<rparr>)" "held_inv request (s\<lparr>ns_buffer := Cancel_buffer (ns_buffer s)\<rparr>)"
    by (rule held; simp add: buffer_inv_steps inv buffer_evolves_ops)+
qed

lemma held_take_ready:
  assumes "held_inv request s" "take_ready s = (rs, s')"
  shows "held_inv request s' \<and> ns_taken s' = ns_taken s @ rs"
proof -
  have "buffer_inv (ns_taken s @ sb_ready (ns_buffer s)) (snd (TakeReady (ns_buffer s)))"
    using assms(1) by (intro buffer_inv_rest(4)) (simp add: held_inv_def)
  then show ?thesis
    using assms buffer_evolves_ops(8) [of "ns_buffer s"]
    by (auto simp: held_inv_def take_ready_def TakeReady_def buffer_evolves_def)
qed

text \<open>Changes of the other fields.\<close>

lemma held_frame:
  assumes "held_inv request s" "ns_request s' = ns_request s" "ns_buffer s' = ns_buffer s" "ns_taken s' = ns_taken s"
    "ns_recovery s' = ns_recovery s" "ns_failure_emitted s' = ns_failure_emitted s" "ns_cancelled s' = ns_cancelled s"
    "good_response request (ns_response s')"
  shows "held_inv request s'"
  using assms by (simp add: held_inv_def)

lemma good_error: "good_response request r \<Longrightarrow> good_response request (r\<lparr>so_error_code := c\<rparr>)"
  by (simp add: good_response_def)

lemma held_simple [simp]:
  "held_inv request (ScheduleCancel b s) = held_inv request s" "held_inv request (MarkDone_subscription s) = held_inv request s"
  "held_inv request (CancelRecoveryTimer s) = held_inv request s" "held_inv request (s\<lparr>ns_sdk := k\<rparr>) = held_inv request s"
  "held_inv request (s\<lparr>ns_outbox := o'\<rparr>) = held_inv request s" "held_inv request (s\<lparr>ns_activating := rs\<rparr>) = held_inv request s"
  "held_inv request (s\<lparr>ns_client := b\<rparr>) = held_inv request s" "held_inv request (s\<lparr>ns_armed := b\<rparr>) = held_inv request s"
  "held_inv request (s\<lparr>ns_started := b\<rparr>) = held_inv request s" "held_inv request (s\<lparr>ns_timer := b\<rparr>) = held_inv request s"
  "held_inv request (s\<lparr>ns_recovery_timer_active := b\<rparr>) = held_inv request s" "held_inv request (s\<lparr>ns_cancel_work := b\<rparr>) = held_inv request s"
  "held_inv request (s\<lparr>ns_sent := p\<rparr>) = held_inv request s" "held_inv request (s\<lparr>ns_delay := d\<rparr>) = held_inv request s"
  "held_inv request (s\<lparr>ns_recovery_attempt := a\<rparr>) = held_inv request s" "held_inv request (s\<lparr>ns_published := b\<rparr>) = held_inv request s"
  "held_inv request (emit_report r b s) = held_inv request s"
  by (simp_all add: held_inv_def ScheduleCancel_def ScheduleCancelLocked_def MarkDone_subscription_def CancelRecoveryTimer_def
      emit_report_def Let_def)

lemma held_set_error: "held_inv request s \<Longrightarrow> held_inv request (set_error c s)"
  by (simp add: set_error_def held_inv_def good_error)

lemma held_PublishFailure: "held_inv request s \<Longrightarrow> held_inv request (PublishFailure c s)"
  by (simp add: PublishFailure_def held_set_error)

lemma held_fail_buffer: "held_inv request s \<Longrightarrow> held_inv request (s\<lparr>ns_failure_emitted := True, ns_buffer := Cancel_buffer (ns_buffer s)\<rparr>)"
  using held_buffer_ops(7) [of request s] by (simp add: held_inv_def Cancel_buffer_def)

lemma held_FailActive: "held_inv request s \<Longrightarrow> held_inv request (FailActive b e d s)"
  using held_fail_buffer held_set_error [OF held_fail_buffer] by (simp add: FailActive_def Let_def)

lemma held_recovery: "held_inv request s \<Longrightarrow> recovery_inv r \<Longrightarrow> held_inv request (s\<lparr>ns_recovery := r\<rparr>)"
  by (simp add: held_inv_def)

lemma recovery_inv_ends: "recovery_inv r \<Longrightarrow> recovery_inv (Established_recovery r)" "recovery_inv r \<Longrightarrow> recovery_inv (Cancel_recovery r)"
  by (simp_all add: recovery_inv_def Established_recovery_def Cancel_recovery_def)

lemma held_CancelOnSdkThread:
  assumes "held_inv request s"
  shows "held_inv request (CancelOnSdkThread s)"
proof -
  have "held_inv request (s\<lparr>ns_armed := False, ns_cancelled := True, ns_recovery := Cancel_recovery (ns_recovery s),
      ns_buffer := Cancel_buffer (ns_buffer s)\<rparr>)"
    using held_buffer_ops(7) [OF assms] recovery_inv_ends(2) by (simp add: held_inv_def Cancel_buffer_def)
  then show ?thesis by (simp add: CancelOnSdkThread_def Let_def)
qed

lemma held_Activate: "held_inv request s \<Longrightarrow> held_inv request (snd (Activate_subscription s))"
proof -
  assume s: "held_inv request s"
  obtain rs s1 where r: "take_ready (s\<lparr>ns_buffer := Activate (ns_buffer s)\<rparr>) = (rs, s1)" by fastforce
  from held_take_ready [OF held_buffer_ops(6) [OF s] r] s r show ?thesis by (simp add: Activate_subscription_def)
qed

lemma held_OnReportEnd: "held_inv request s \<Longrightarrow> held_inv request (OnReportEnd s)"
proof -
  assume s: "held_inv request s"
  obtain rs s1 where r: "take_ready (s\<lparr>ns_buffer := EndReport (ns_buffer s)\<rparr>) = (rs, s1)" by fastforce
  from held_take_ready [OF held_buffer_ops(2) [OF s] r] r show ?thesis by (simp add: OnReportEnd_def)
qed

lemma held_Add: "held_inv request s \<Longrightarrow> held_inv request (Add_subscription b x s)"
  by (simp add: Add_subscription_def Let_def case_prod_beta held_buffer_ops(3) held_FailActive)

lemma held_data:
  assumes "held_inv request s"
  shows "held_inv request (OnAttributeData_subscription I D b path v data st s)" "held_inv request (OnEventData_subscription I D b h data so s)"
  using assms
  by (simp_all add: OnAttributeData_subscription_def OnEventData_subscription_def held_FailActive held_Add Let_def
      split: option.split sum.split)

lemma held_response:
  assumes "held_inv request s" "mx \<noteq> 0" "\<not> mn > mx"
  shows "held_inv request (s\<lparr>ns_response := \<lparr>so_ok = True, so_error_code = [], so_subscription_id = sr_subscription_id (ns_request s),
     so_generation = sb_generation (ns_buffer s), so_min_interval_s = mn, so_max_interval_s = mx, so_sdk_subscription_id = i\<rparr>\<rparr>)"
  using assms by (simp add: held_inv_def good_response_def)

lemma held_OnSubscriptionEstablished:
  assumes "held_inv request s"
  shows "held_inv request (OnSubscriptionEstablished b i intervals s)"
proof (cases "\<not> ns_client s \<or> intervals = None")
  case True
  then show ?thesis
    using held_FailActive [OF assms] held_PublishFailure [OF assms] by (simp add: OnSubscriptionEstablished_def)
next
  case False
  then obtain mn mx where iv: "intervals = Some (mn, mx)" by fastforce
  obtain est b' where e: "Establish i mn mx (ns_buffer s) = (est, b')" by fastforce
  have ok: "mx \<noteq> 0 \<and> \<not> mn > mx" if est using e that by (auto simp: Establish_def split: if_splits)
  have s1: "held_inv request (s\<lparr>ns_buffer := b'\<rparr>)" using held_buffer_ops(4) [OF assms, of i mn mx] e by simp
  obtain rs s2 where r: "take_ready (s\<lparr>ns_buffer := Activate b'\<rparr>) = (rs, s2)" by fastforce
  have s2: "held_inv request s2" using held_take_ready [OF held_buffer_ops(6) [OF s1]] r by simp
  have resp: "held_inv request (s\<lparr>ns_buffer := b', ns_response := \<lparr>so_ok = True, so_error_code = [], so_subscription_id = sr_subscription_id (ns_request s),
     so_generation = sb_generation b', so_min_interval_s = mn, so_max_interval_s = mx, so_sdk_subscription_id = i\<rparr>, ns_published := True\<rparr>)" if est
    using held_response [OF s1] ok [OF that] by simp
  show ?thesis
    using False iv e r s2 resp held_set_error [OF s1] held_FailActive [OF s1]
    by (simp add: OnSubscriptionEstablished_def Let_def) (simp flip: ScheduleCancel_def)
qed

lemma held_OnResubscriptionNeeded:
  assumes "held_inv request s"
  shows "held_inv request (OnResubscriptionNeeded b now timer s)"
proof -
  obtain d r where d: "Next_recovery now (ns_recovery s) = (d, r)" by fastforce
  have "recovery_inv r" using Next_recovery_inv [of "ns_recovery s" now] assms d by (simp add: held_inv_def)
  then have s0: "held_inv request (s\<lparr>ns_recovery := r\<rparr>)" by (rule held_recovery [OF assms])
  obtain ok b' where p: "(if dc_action d = RA_Retry \<and> dc_attempt d = 1 then PrepareRecovery (dc_generation d) (ns_buffer s)
      else (True, ns_buffer s)) = (ok, b')" by fastforce
  have "held_inv request (s\<lparr>ns_recovery := r, ns_buffer := b'\<rparr>)"
    using held_buffer_ops(5) [OF s0, of "dc_generation d"] s0 p by (auto split: if_splits)
  then have s1: "held_inv request (s\<lparr>ns_recovery := r, ns_buffer := b', ns_recovery_attempt := dc_attempt d\<rparr>)" by simp
  show ?thesis
    using s1 assms d p by (simp add: OnResubscriptionNeeded_def Let_def held_FailActive)
qed

lemma held_continue:
  assumes "held_inv request s"
  shows "held_inv request (continue_sdk ok b till s)"
proof -
  have r: "recovery_inv (ns_recovery s)" using assms by (simp add: held_inv_def)
  have f: "held_inv request (FailActive b e d (s\<lparr>ns_outbox := o', ns_sdk := k\<rparr>))" for e d o' k
    by (rule held_FailActive) (simp add: assms)
  have est: "held_inv request (s\<lparr>ns_outbox := o', ns_recovery := Established_recovery (ns_recovery s)\<rparr>)" for o'
    by (rule held_recovery) (simp_all add: assms recovery_inv_ends(1) [OF r])
  show ?thesis
    using assms f est
    by (simp add: continue_sdk_def Let_def split: sdk_task.split list.split)
qed

lemma held_step:
  assumes "held_inv request s"
  shows "held_inv request (subscription_step I D e s)"
proof (cases e)
  case (NE_Start elapsed c)
  then show ?thesis using assms
    by (simp add: Start_subscription_def Let_def held_PublishFailure split: option.split)
next
  case (NE_Connected elapsed c)
  then show ?thesis using assms by (simp add: OnConnected_subscription_def Let_def held_PublishFailure)
next
  case (NE_Deadline b)
  then show ?thesis using assms by (simp add: RecoveryDeadline_def held_FailActive)
next
  case (NE_Done b)
  then show ?thesis using assms by (simp add: OnDone_subscription_def Let_def held_FailActive)
next
  case (NE_EmitActivating ok b)
  then show ?thesis using assms by (simp add: Emit_activating_def split: list.split)
qed (use assms in \<open>simp_all add: unavailable_subscription_def Wait_gives_up_def held_set_error Wait_returns_def Let_def held_Activate ConnectionFailed_subscription_def
    held_PublishFailure OnReportBegin_def held_buffer_ops held_OnReportEnd held_data held_OnSubscriptionEstablished
    held_OnResubscriptionNeeded OnError_subscription_def held_FailActive held_CancelOnSdkThread held_continue\<close>)

section \<open>Emissions\<close>

fun task_reports :: "sdk_task \<Rightarrow> SubscriptionReport list" where
  "task_reports (K_Emit rs) = rs"
| "task_reports (K_Resubscribed status rs) = rs"
| "task_reports _ = []"

fun failing :: "sdk_task \<Rightarrow> bool" where
  "failing (K_Failure g e d) = True"
| "failing _ = False"

fun emitted_report :: "emission \<Rightarrow> SubscriptionReport list" where
  "emitted_report (Em_Report r ok) = [r]"
| "emitted_report _ = []"

definition emitted :: "NativeSubscription \<Rightarrow> SubscriptionReport list" where
  "emitted s = concat (map emitted_report (ns_outbox s))"

fun is_failure :: "emission \<Rightarrow> bool" where
  "is_failure (Em_Failure i g e) = True"
| "is_failure _ = False"

definition failures :: "NativeSubscription \<Rightarrow> nat" where
  "failures s = length (filter is_failure (ns_outbox s))"

definition out_inv :: "NativeSubscription \<Rightarrow> bool" where
  "out_inv s \<longleftrightarrow>
     set (emitted s) \<union> set (ns_activating s) \<union> set (task_reports (ns_sdk s)) \<subseteq> set (ns_taken s) \<and>
     failures s + of_bool (failing (ns_sdk s)) \<le> of_bool (ns_failure_emitted s) \<and>
     (failures s + of_bool (failing (ns_sdk s)) > 0 \<longrightarrow> so_ok (ns_response s))"

text \<open>Steps that emit nothing, take nothing and leave the threads' tasks alone.\<close>

definition same_output :: "NativeSubscription \<Rightarrow> NativeSubscription \<Rightarrow> bool" where
  "same_output s s' \<longleftrightarrow> ns_outbox s' = ns_outbox s \<and> ns_activating s' = ns_activating s \<and> ns_sdk s' = ns_sdk s \<and>
     ns_taken s' = ns_taken s \<and> ns_failure_emitted s' = ns_failure_emitted s \<and> (so_ok (ns_response s) \<longrightarrow> so_ok (ns_response s'))"

lemma same_output_inv: "out_inv s \<Longrightarrow> same_output s s' \<Longrightarrow> out_inv s'"
  by (auto simp: out_inv_def same_output_def emitted_def failures_def)

lemma same_output_trans: "same_output s s' \<Longrightarrow> same_output s' s'' \<Longrightarrow> same_output s s''"
  by (simp add: same_output_def)

lemma same_outputs [simp]:
  "same_output s (ScheduleCancel b s)" "same_output s (ScheduleCancelLocked b s)" "same_output s (MarkDone_subscription s)"
  "same_output s (CancelRecoveryTimer s)" "same_output s (set_error c s)" "same_output s (PublishFailure c s)"
  "same_output s (CancelOnSdkThread s)"
  by (simp_all add: same_output_def ScheduleCancel_def ScheduleCancelLocked_def MarkDone_subscription_def CancelRecoveryTimer_def
      set_error_def PublishFailure_def CancelOnSdkThread_def Let_def)

lemma out_FailActive:
  assumes "out_inv s" "ns_sdk s = K_Idle"
  shows "out_inv (FailActive b e d s)"
proof (cases "ns_failure_emitted s \<or> \<not> so_ok (ns_response s)")
  case True
  have "out_inv (s\<lparr>ns_failure_emitted := True, ns_buffer := x\<rparr>)" if "\<not> ns_failure_emitted s" for x
    using assms that by (simp add: out_inv_def emitted_def failures_def)
  then show ?thesis
    using True assms same_output_inv [OF _ same_outputs(1)] same_output_inv [OF _ same_outputs(5)] by (auto simp: FailActive_def Let_def)
next
  case False
  then show ?thesis using assms by (simp add: FailActive_def Let_def out_inv_def emitted_def failures_def)
qed

lemma out_take_ready:
  assumes "out_inv s" "take_ready s = (rs, s')"
  shows "out_inv s'" "set rs \<subseteq> set (ns_taken s')" "ns_sdk s' = ns_sdk s" "ns_activating s' = ns_activating s"
proof -
  obtain b where s': "s' = s\<lparr>ns_buffer := b, ns_taken := ns_taken s @ rs\<rparr>"
    using assms(2) by (auto simp: take_ready_def split: prod.splits)
  then have "emitted s' = emitted s" "failures s' = failures s" by (simp_all add: emitted_def failures_def)
  then show "out_inv s'" "set rs \<subseteq> set (ns_taken s')" "ns_sdk s' = ns_sdk s" "ns_activating s' = ns_activating s"
    using assms(1) s' by (auto simp: out_inv_def)
qed

lemma out_buffer [simp]: "out_inv (s\<lparr>ns_buffer := b\<rparr>) = out_inv s"
  by (simp add: out_inv_def emitted_def failures_def)

lemma out_simple [simp]:
  "out_inv (s\<lparr>ns_client := b\<rparr>) = out_inv s" "out_inv (s\<lparr>ns_armed := b\<rparr>) = out_inv s" "out_inv (s\<lparr>ns_started := b\<rparr>) = out_inv s"
  "out_inv (s\<lparr>ns_timer := b\<rparr>) = out_inv s" "out_inv (s\<lparr>ns_recovery_timer_active := b\<rparr>) = out_inv s" "out_inv (s\<lparr>ns_cancel_work := b\<rparr>) = out_inv s"
  "out_inv (s\<lparr>ns_sent := p\<rparr>) = out_inv s" "out_inv (s\<lparr>ns_delay := dl\<rparr>) = out_inv s" "out_inv (s\<lparr>ns_recovery_attempt := a\<rparr>) = out_inv s"
  "out_inv (s\<lparr>ns_published := b\<rparr>) = out_inv s" "out_inv (s\<lparr>ns_recovery := r\<rparr>) = out_inv s"
  by (simp_all add: out_inv_def emitted_def failures_def)

lemma out_primitives:
  assumes "out_inv s"
  shows "out_inv (ScheduleCancel b s)" "out_inv (ScheduleCancelLocked b s)" "out_inv (MarkDone_subscription s)" "out_inv (CancelRecoveryTimer s)"
    "out_inv (set_error c s)" "out_inv (PublishFailure c s)" "out_inv (CancelOnSdkThread s)"
  using same_output_inv [OF assms] by simp_all

lemma task_same [simp]:
  "ns_sdk (CancelRecoveryTimer s) = ns_sdk s" "ns_taken (CancelRecoveryTimer s) = ns_taken s"
  by (simp_all add: CancelRecoveryTimer_def)

lemma out_task: "out_inv s \<Longrightarrow> ns_sdk s = K_Idle \<Longrightarrow> set (task_reports k) \<subseteq> set (ns_taken s) \<Longrightarrow> \<not> failing k \<Longrightarrow> out_inv (s\<lparr>ns_sdk := k\<rparr>)"
  by (auto simp: out_inv_def emitted_def failures_def)

lemma out_Activate:
  assumes "out_inv s" "ns_activating s = []"
  shows "out_inv (snd (Activate_subscription s))"
proof -
  obtain rs s1 where r: "take_ready (s\<lparr>ns_buffer := Activate (ns_buffer s)\<rparr>) = (rs, s1)" by fastforce
  have "out_inv (s\<lparr>ns_buffer := Activate (ns_buffer s)\<rparr>)" using assms by simp
  note t = out_take_ready [OF this r]
  then have "out_inv (s1\<lparr>ns_activating := rs\<rparr>)" by (auto simp: out_inv_def emitted_def failures_def)
  then show ?thesis using assms r by (simp add: Activate_subscription_def)
qed

lemma out_OnReportEnd:
  assumes "out_inv s" "ns_sdk s = K_Idle"
  shows "out_inv (OnReportEnd s)"
proof -
  obtain rs s1 where r: "take_ready (s\<lparr>ns_buffer := EndReport (ns_buffer s)\<rparr>) = (rs, s1)" by fastforce
  have "out_inv (s\<lparr>ns_buffer := EndReport (ns_buffer s)\<rparr>)" using assms by simp
  note t = out_take_ready [OF this r]
  then have "out_inv (s1\<lparr>ns_sdk := K_Emit rs\<rparr>)" using assms(2) by (intro out_task) simp_all
  then show ?thesis using r by (simp add: OnReportEnd_def)
qed

lemma out_data:
  assumes "out_inv s" "ns_sdk s = K_Idle"
  shows "out_inv (OnAttributeData_subscription I D b path v data st s)" "out_inv (OnEventData_subscription I D b h data so s)"
proof -
  have "out_inv (Add_subscription b x s)" for x
    using assms by (simp add: Add_subscription_def Let_def case_prod_beta out_FailActive)
  then show "out_inv (OnAttributeData_subscription I D b path v data st s)" "out_inv (OnEventData_subscription I D b h data so s)"
    using assms by (simp_all add: OnAttributeData_subscription_def OnEventData_subscription_def out_FailActive Let_def split: option.split sum.split)
qed

lemma out_OnSubscriptionEstablished:
  assumes "out_inv s" "ns_sdk s = K_Idle"
  shows "out_inv (OnSubscriptionEstablished b i intervals s)"
proof (cases "\<not> ns_client s \<or> intervals = None")
  case True
  then show ?thesis
    using out_FailActive [OF assms] out_primitives(1) [OF out_primitives(6) [OF assms(1)]] by (simp add: OnSubscriptionEstablished_def)
next
  case False
  then obtain mn mx where iv: "intervals = Some (mn, mx)" by fastforce
  obtain est b' where e: "Establish i mn mx (ns_buffer s) = (est, b')" by fastforce
  have s1: "out_inv (s\<lparr>ns_buffer := b'\<rparr>)" "ns_sdk (s\<lparr>ns_buffer := b'\<rparr>) = K_Idle" using assms by simp_all
  obtain rs s2 where r: "take_ready (s\<lparr>ns_buffer := Activate b'\<rparr>) = (rs, s2)" by fastforce
  have "out_inv (s\<lparr>ns_buffer := Activate b'\<rparr>)" using assms by simp
  note t = out_take_ready [OF this r]
  have s2: "out_inv ((CancelRecoveryTimer s2)\<lparr>ns_sdk := K_Resubscribed st rs\<rparr>)" for st
    by (rule out_task) (use t assms(2) in \<open>simp_all add: out_primitives(4)\<close>)
  have "out_inv (s\<lparr>ns_buffer := b', ns_response := x, ns_published := True\<rparr>)" if "so_ok x" for x
    using assms(1) that by (auto simp: out_inv_def emitted_def failures_def)
  then show ?thesis
    using False iv e r s2 out_FailActive [OF s1] out_primitives(2) [OF out_primitives(5) [OF s1(1)]]
    by (simp add: OnSubscriptionEstablished_def Let_def)
qed

lemma out_OnResubscriptionNeeded:
  assumes "out_inv s" "ns_sdk s = K_Idle"
  shows "out_inv (OnResubscriptionNeeded b now timer s)"
proof -
  obtain d r where d: "Next_recovery now (ns_recovery s) = (d, r)" by fastforce
  obtain ok b' where p: "(if dc_action d = RA_Retry \<and> dc_attempt d = 1 then PrepareRecovery (dc_generation d) (ns_buffer s)
      else (True, ns_buffer s)) = (ok, b')" by fastforce
  have "out_inv (s\<lparr>ns_recovery := r, ns_buffer := b', ns_recovery_attempt := n, ns_timer := x, ns_recovery_timer_active := y, ns_sdk := K_Retry st m\<rparr>)" for n x y st m
    by (rule out_task) (use assms in simp_all)
  then show ?thesis
    using assms d p by (simp add: OnResubscriptionNeeded_def Let_def out_FailActive)
qed

lemma out_emitting:
  assumes "out_inv s"
  shows "r \<in> set (ns_taken s) \<Longrightarrow> out_inv (emit_report r ok s)"
    "ns_sdk s = K_Failure g e d \<Longrightarrow> out_inv (s\<lparr>ns_outbox := ns_outbox s @ [Em_Failure i g e], ns_sdk := K_Idle\<rparr>)"
    "\<not> failing (ns_sdk s) \<Longrightarrow> out_inv (s\<lparr>ns_outbox := ns_outbox s @ [Em_Status st ok], ns_sdk := K_Idle\<rparr>)"
  using assms by (auto simp: out_inv_def emitted_def failures_def emit_report_def)

lemma out_continue:
  assumes "out_inv s"
  shows "out_inv (continue_sdk ok b till s)"
proof (cases "ns_sdk s")
  case (K_Emit rs)
  show ?thesis
  proof (cases rs)
    case (Cons r rs')
    then have "r \<in> set (ns_taken s)" "set rs' \<subseteq> set (ns_taken s)" using assms K_Emit by (auto simp: out_inv_def)
    then have "out_inv ((emit_report r ok s)\<lparr>ns_sdk := k\<rparr>)" if "set (task_reports k) \<subseteq> set (ns_taken s)" "\<not> failing k" for k
      using out_emitting(1) [OF assms, of r ok] K_Emit that by (auto simp: out_inv_def emitted_def failures_def emit_report_def)
    then show ?thesis
      using K_Emit Cons \<open>set rs' \<subseteq> set (ns_taken s)\<close>
      by (cases ok) (auto simp: continue_sdk_def intro!: out_primitives(1))
  qed (use assms K_Emit in \<open>simp add: continue_sdk_def out_inv_def emitted_def failures_def\<close>)
next
  case (K_Resubscribed st rs)
  have s1: "out_inv (s\<lparr>ns_outbox := ns_outbox s @ [Em_Status st ok], ns_sdk := K_Idle\<rparr>)" by (rule out_emitting(3) [OF assms]) (simp add: K_Resubscribed)
  have "set rs \<subseteq> set (ns_taken s)" using assms K_Resubscribed by (simp add: out_inv_def)
  then have "out_inv (s\<lparr>ns_outbox := ns_outbox s @ [Em_Status st ok], ns_recovery := r, ns_sdk := K_Emit rs\<rparr>)" for r
    using s1 by (simp add: out_inv_def emitted_def failures_def)
  then show ?thesis using K_Resubscribed out_FailActive [OF s1] by (auto simp: continue_sdk_def Let_def)
next
  case (K_Retry st m)
  have s1: "out_inv (s\<lparr>ns_outbox := ns_outbox s @ [Em_Status st ok], ns_sdk := K_Idle\<rparr>)" by (rule out_emitting(3) [OF assms]) (simp add: K_Retry)
  then show ?thesis using K_Retry out_FailActive [OF s1] by (auto simp: continue_sdk_def Let_def)
next
  case (K_Failure g e d)
  then show ?thesis
    using out_primitives(1) [OF out_emitting(2) [OF assms K_Failure]] out_primitives(3) [OF out_primitives(1) [OF out_emitting(2) [OF assms K_Failure]]]
    by (simp add: continue_sdk_def Let_def)
qed (use assms in \<open>simp add: continue_sdk_def\<close>)

lemma out_step:
  assumes "out_inv s" "enabled_subscription e s"
  shows "out_inv (subscription_step I D e s)"
proof (cases e)
  case (NE_EmitActivating ok b)
  then obtain r rs where rs: "ns_activating s = r # rs" using assms(2) by (cases "ns_activating s") auto
  then have "r \<in> set (ns_taken s)" "set rs \<subseteq> set (ns_taken s)" using assms(1) by (auto simp: out_inv_def)
  then have "out_inv ((emit_report r ok s)\<lparr>ns_activating := xs\<rparr>)" if "set xs \<subseteq> set rs" for xs
    using out_emitting(1) [OF assms(1), of r ok] that by (auto simp: out_inv_def emitted_def failures_def emit_report_def)
  then show ?thesis using NE_EmitActivating rs by (cases ok) (auto simp: Emit_activating_def intro!: out_primitives(1))
next
  case (NE_Start elapsed c)
  then show ?thesis using assms
    by (simp add: Start_subscription_def Let_def out_primitives split: option.split)
next
  case (NE_Connected elapsed c)
  then show ?thesis using assms by (simp add: OnConnected_subscription_def Let_def out_primitives)
next
  case (NE_Deadline b)
  then show ?thesis using assms by (simp add: RecoveryDeadline_def out_FailActive)
next
  case (NE_Done b)
  then show ?thesis using assms by (simp add: OnDone_subscription_def Let_def out_FailActive out_primitives)
qed (use assms in \<open>simp_all add: unavailable_subscription_def Wait_gives_up_def Wait_returns_def Let_def out_Activate ConnectionFailed_subscription_def
    OnReportBegin_def out_OnReportEnd out_data out_OnSubscriptionEstablished
    out_OnResubscriptionNeeded OnError_subscription_def out_FailActive out_continue out_primitives\<close>)

section \<open>Lifetime\<close>

definition life_inv :: "NativeSubscription \<Rightarrow> bool" where
  "life_inv s \<longleftrightarrow>
     (ns_timer s \<longrightarrow> ns_recovery_timer_active s) \<and> (ns_timer s \<longrightarrow> ns_client s) \<and>
     (\<not> ns_started s \<longrightarrow> \<not> ns_armed s \<and> \<not> ns_client s) \<and>
     (ns_armed s \<longrightarrow> \<not> ns_client s) \<and> (ns_armed s \<longrightarrow> ns_sdk s = K_Idle) \<and>
     (ns_sdk s \<noteq> K_Idle \<and> \<not> ns_client s \<longrightarrow> (\<exists>g e. ns_sdk s = K_Failure g e True)) \<and>
     (ns_started s \<and> \<not> ns_armed s \<and> \<not> ns_client s \<and> ns_sdk s = K_Idle \<longrightarrow> ns_done s)"

text \<open>What the invariant reads, with the flag \<open>ns_done\<close> that only rises.\<close>

definition same_life :: "NativeSubscription \<Rightarrow> NativeSubscription \<Rightarrow> bool" where
  "same_life s s' \<longleftrightarrow> ns_timer s' = ns_timer s \<and> ns_recovery_timer_active s' = ns_recovery_timer_active s \<and> ns_client s' = ns_client s \<and>
     ns_started s' = ns_started s \<and> ns_armed s' = ns_armed s \<and> ns_sdk s' = ns_sdk s \<and> (ns_done s \<longrightarrow> ns_done s')"

lemma same_life_inv: "life_inv s \<Longrightarrow> same_life s s' \<Longrightarrow> life_inv s'"
  by (auto simp: life_inv_def same_life_def)

lemma same_lifes [simp]:
  "same_life s (ScheduleCancel b s)" "same_life s (ScheduleCancelLocked b s)" "same_life s (MarkDone_subscription s)"
  "same_life s (set_error c s)" "same_life s (PublishFailure c s)" "same_life s (s\<lparr>ns_buffer := x\<rparr>)" "same_life s (s\<lparr>ns_outbox := o'\<rparr>)"
  "same_life s (s\<lparr>ns_activating := rs\<rparr>)" "same_life s (s\<lparr>ns_recovery := r\<rparr>)" "same_life s (s\<lparr>ns_cancel_work := b\<rparr>)"
  "same_life s (snd (Activate_subscription s))" "same_life s (Emit_activating ok b s)"
  by (auto simp: same_life_def ScheduleCancel_def ScheduleCancelLocked_def MarkDone_subscription_def set_error_def PublishFailure_def
      Activate_subscription_def take_ready_def Emit_activating_def emit_report_def Let_def split: prod.split list.split)

lemma done_MarkDone [simp]: "ns_done (MarkDone_subscription s)"
  by (simp add: MarkDone_subscription_def)

lemma life_sel [simp]:
  "ns_client (MarkDone_subscription s) = ns_client s" "ns_client (ScheduleCancel b s) = ns_client s" "ns_client (set_error c s) = ns_client s"
  "ns_client (PublishFailure c s) = ns_client s" "ns_armed (MarkDone_subscription s) = ns_armed s" "ns_armed (ScheduleCancel b s) = ns_armed s"
  "ns_armed (set_error c s) = ns_armed s" "ns_armed (PublishFailure c s) = ns_armed s" "ns_started (MarkDone_subscription s) = ns_started s"
  "ns_started (ScheduleCancel b s) = ns_started s" "ns_started (set_error c s) = ns_started s" "ns_started (PublishFailure c s) = ns_started s"
  "ns_sdk (MarkDone_subscription s) = ns_sdk s" "ns_sdk (ScheduleCancel b s) = ns_sdk s" "ns_sdk (set_error c s) = ns_sdk s"
  "ns_sdk (PublishFailure c s) = ns_sdk s" "ns_timer (MarkDone_subscription s) = ns_timer s" "ns_timer (ScheduleCancel b s) = ns_timer s"
  "ns_timer (set_error c s) = ns_timer s" "ns_timer (PublishFailure c s) = ns_timer s"
  "ns_recovery_timer_active (MarkDone_subscription s) = ns_recovery_timer_active s" "ns_recovery_timer_active (ScheduleCancel b s) = ns_recovery_timer_active s"
  "ns_recovery_timer_active (set_error c s) = ns_recovery_timer_active s" "ns_recovery_timer_active (PublishFailure c s) = ns_recovery_timer_active s"
  "ns_client (CancelRecoveryTimer s) = ns_client s" "ns_armed (CancelRecoveryTimer s) = ns_armed s" "ns_started (CancelRecoveryTimer s) = ns_started s"
  "\<not> ns_recovery_timer_active (CancelRecoveryTimer s)" "ns_done (CancelRecoveryTimer s) = ns_done s"
  by (simp_all add: MarkDone_subscription_def ScheduleCancel_def ScheduleCancelLocked_def set_error_def PublishFailure_def CancelRecoveryTimer_def Let_def)

lemma CancelRecoveryTimer_timer: "life_inv s \<Longrightarrow> \<not> ns_timer (CancelRecoveryTimer s)"
  by (auto simp: CancelRecoveryTimer_def life_inv_def)

lemma life_FailActive:
  assumes "life_inv s" "ns_sdk s = K_Idle" "ns_client s \<or> d \<and> \<not> ns_armed s \<and> so_ok (ns_response s) \<and> \<not> ns_failure_emitted s"
  shows "life_inv (FailActive b e d s)"
  using assms by (auto simp: FailActive_def Let_def life_inv_def)

lemma life_take_ready: "take_ready s = (rs, s') \<Longrightarrow> same_life s s'"
  by (auto simp: take_ready_def same_life_def split: prod.splits)

lemma life_task: "life_inv s \<Longrightarrow> ns_sdk s = K_Idle \<Longrightarrow> ns_client s \<Longrightarrow> life_inv (s\<lparr>ns_sdk := k\<rparr>)"
  by (auto simp: life_inv_def)

lemma CancelOnSdkThread_life:
  assumes "life_inv s" "ns_sdk s = K_Idle"
  shows "life_inv (CancelOnSdkThread s)"
proof -
  let ?s = "s\<lparr>ns_armed := False, ns_cancelled := True, ns_recovery := Cancel_recovery (ns_recovery s), ns_buffer := Cancel_buffer (ns_buffer s)\<rparr>"
  have "\<not> ns_timer (CancelRecoveryTimer ?s)" using assms(1) by (auto simp: CancelRecoveryTimer_def life_inv_def)
  then show ?thesis using assms(2) by (simp add: CancelOnSdkThread_def Let_def life_inv_def)
qed

lemma life_callbacks:
  assumes "life_inv s" "ns_sdk s = K_Idle" "ns_client s"
  shows "life_inv (OnReportEnd s)" "life_inv (OnAttributeData_subscription I D b path v data st s)"
    "life_inv (OnEventData_subscription I D b h data so s)" "life_inv (OnSubscriptionEstablished b i intervals s)"
    "life_inv (OnResubscriptionNeeded b now timer s)" "life_inv (OnError_subscription b s)"
proof -
  note f = life_FailActive [OF assms(1,2), of _ b] assms(3)
  have buf: "life_inv (s\<lparr>ns_buffer := x\<rparr>)" for x by (rule same_life_inv [OF assms(1)]) simp
  have fbuf: "life_inv (FailActive b e False (s\<lparr>ns_buffer := x\<rparr>))" for e x by (rule life_FailActive [OF buf]) (use assms in simp_all)
  have add: "life_inv (Add_subscription b x s)" for x
    using buf fbuf by (simp add: Add_subscription_def Let_def case_prod_beta)
  show "life_inv (OnAttributeData_subscription I D b path v data st s)" "life_inv (OnEventData_subscription I D b h data so s)"
    using add f by (simp_all add: OnAttributeData_subscription_def OnEventData_subscription_def Let_def split: option.split sum.split)
  show "life_inv (OnError_subscription b s)" using f by (simp add: OnError_subscription_def)
  show "life_inv (OnReportEnd s)"
  proof -
    obtain rs s1 where r: "take_ready (s\<lparr>ns_buffer := EndReport (ns_buffer s)\<rparr>) = (rs, s1)" by fastforce
    have "life_inv s1" "ns_sdk s1 = K_Idle" "ns_client s1"
      using same_life_inv [OF buf life_take_ready [OF r]] life_take_ready [OF r] assms by (simp_all add: same_life_def)
    then show ?thesis using r by (simp add: OnReportEnd_def life_task)
  qed
  show "life_inv (OnSubscriptionEstablished b i intervals s)"
  proof (cases intervals)
    case None
    then show ?thesis
      using f same_life_inv [OF same_life_inv [OF assms(1) same_lifes(5)] same_lifes(1)] by (simp add: OnSubscriptionEstablished_def)
  next
    case (Some iv)
    obtain mn mx where iv: "iv = (mn, mx)" by fastforce
    obtain est b' where e: "Establish i mn mx (ns_buffer s) = (est, b')" by fastforce
    obtain rs s2 where r: "take_ready (s\<lparr>ns_buffer := Activate b'\<rparr>) = (rs, s2)" by fastforce
    have s2: "life_inv s2" "ns_sdk s2 = K_Idle" "ns_client s2"
      using same_life_inv [OF buf life_take_ready [OF r]] life_take_ready [OF r] assms by (simp_all add: same_life_def)
    have "life_inv ((CancelRecoveryTimer s2)\<lparr>ns_sdk := k\<rparr>)" for k
      by (rule life_task) (use s2 CancelRecoveryTimer_timer [OF s2(1)] in \<open>auto simp: life_inv_def\<close>)
    moreover have "life_inv (s\<lparr>ns_buffer := b', ns_response := x, ns_published := True\<rparr>)" for x
      by (rule same_life_inv [OF assms(1)]) (simp add: same_life_def)
    moreover have "life_inv (ScheduleCancelLocked b (set_error c (s\<lparr>ns_buffer := b'\<rparr>)))" for c
      by (rule same_life_inv [OF same_life_inv [OF buf [of b'] same_lifes(4)] same_lifes(2)])
    ultimately show ?thesis
      using fbuf Some iv e r assms(3) by (simp add: OnSubscriptionEstablished_def Let_def)
  qed
  show "life_inv (OnResubscriptionNeeded b now timer s)"
  proof -
    obtain d r where d: "Next_recovery now (ns_recovery s) = (d, r)" by fastforce
    obtain ok b' where p: "(if dc_action d = RA_Retry \<and> dc_attempt d = 1 then PrepareRecovery (dc_generation d) (ns_buffer s)
        else (True, ns_buffer s)) = (ok, b')" by fastforce
    have "life_inv (s\<lparr>ns_recovery := r, ns_buffer := b', ns_recovery_attempt := n, ns_timer := x, ns_recovery_timer_active := True, ns_sdk := K_Retry st m\<rparr>)" for n x st m
      using assms by (simp add: life_inv_def)
    moreover have "life_inv (FailActive b e False (s\<lparr>ns_recovery := r, ns_buffer := b', ns_recovery_attempt := n\<rparr>))" for e n
      by (rule life_FailActive) (use assms in \<open>simp_all add: life_inv_def\<close>)
    ultimately show ?thesis using assms(1) d p by (simp add: OnResubscriptionNeeded_def Let_def)
  qed
qed

lemma life_continue:
  assumes "life_inv s" "ns_sdk s \<noteq> K_Idle"
  shows "life_inv (continue_sdk ok b till s)"
proof -
  have client: "ns_client s" if "\<And>g e. ns_sdk s \<noteq> K_Failure g e True" using assms that by (auto simp: life_inv_def)
  have f: "life_inv (FailActive b e False (s\<lparr>ns_outbox := o', ns_sdk := K_Idle\<rparr>))" if "ns_client s" for e o'
    by (rule life_FailActive) (use assms that in \<open>simp_all add: life_inv_def\<close>)
  show ?thesis
  proof (cases "ns_sdk s")
    case (K_Failure g e d)
    show ?thesis
    proof (cases d)
      case True
      then have "\<not> ns_armed s" using assms K_Failure by (auto simp: life_inv_def)
      then show ?thesis using True K_Failure assms by (auto simp: continue_sdk_def Let_def life_inv_def)
    next
      case False
      then show ?thesis using client K_Failure assms by (auto simp: continue_sdk_def Let_def life_inv_def)
    qed
  next
    case (K_Emit rs)
    then show ?thesis
      using client assms by (auto simp: continue_sdk_def emit_report_def life_inv_def split: list.split)
  next
    case (K_Retry st m)
    then show ?thesis using client f assms by (auto simp: continue_sdk_def Let_def life_inv_def)
  next
    case (K_Resubscribed st rs)
    then show ?thesis using client f assms by (auto simp: continue_sdk_def Let_def life_inv_def)
  qed (use assms in simp)
qed

lemma life_step:
  assumes "life_inv s" "enabled_subscription e s"
  shows "life_inv (subscription_step I D e s)"
proof (cases e)
  case (NE_Start elapsed c)
  then show ?thesis using assms by (auto simp: Start_subscription_def Let_def life_inv_def split: option.split)
next
  case NE_Unavailable
  then show ?thesis using assms by (auto simp: unavailable_subscription_def life_inv_def)
next
  case (NE_Connected elapsed c)
  then show ?thesis using assms by (auto simp: OnConnected_subscription_def Let_def life_inv_def)
next
  case (NE_Deadline b)
  have "life_inv (s\<lparr>ns_timer := False, ns_recovery_timer_active := False\<rparr>)" using assms by (simp add: life_inv_def)
  moreover have "ns_client s" "ns_sdk s = K_Idle" using assms NE_Deadline by (auto simp: life_inv_def)
  ultimately show ?thesis using NE_Deadline by (simp add: RecoveryDeadline_def life_FailActive)
next
  case (NE_Done b)
  let ?s = "(CancelRecoveryTimer s)\<lparr>ns_client := False\<rparr>"
  have s: "\<not> ns_timer ?s" "\<not> ns_armed ?s" "ns_sdk ?s = K_Idle" "ns_started ?s"
    using CancelRecoveryTimer_timer [OF assms(1)] assms NE_Done by (auto simp: life_inv_def)
  show ?thesis
  proof (cases "so_ok (ns_response ?s) \<and> \<not> ns_cancelled ?s \<and> \<not> ns_failure_emitted ?s")
    case True
    then have "OnDone_subscription b s = FailActive b (mk_error ''session_lost'' Effect_None) True ?s" by (simp add: OnDone_subscription_def Let_def)
    then show ?thesis using True s NE_Done by (simp add: FailActive_def Let_def life_inv_def)
  next
    case False
    then have "OnDone_subscription b s = MarkDone_subscription ?s" by (auto simp: OnDone_subscription_def Let_def)
    then show ?thesis using s NE_Done by (simp add: life_inv_def)
  qed
next
  case NE_CancelWork
  have "life_inv (s\<lparr>ns_cancel_work := False\<rparr>)" using assms(1) by (simp add: life_inv_def)
  then show ?thesis using NE_CancelWork CancelOnSdkThread_life assms(2) by simp
next
  case NE_Shutdown
  then show ?thesis using CancelOnSdkThread_life assms by simp
next
  case NE_ConnectionFailed
  then show ?thesis using assms by (auto simp: ConnectionFailed_subscription_def life_inv_def)
qed (use assms life_callbacks [OF assms(1)] life_continue [OF assms(1)] same_life_inv [OF assms(1)] in \<open>simp_all add: Wait_gives_up_def Wait_returns_def Let_def
    OnReportBegin_def\<close>)

section \<open>Retry delays\<close>

definition delay_inv :: "NativeSubscription \<Rightarrow> bool" where
  "delay_inv s \<longleftrightarrow>
     (case ns_sdk s of K_Retry st m \<Rightarrow> 0 < unat m \<and> unat m \<le> 60000 | _ \<Rightarrow> True) \<and>
     (case ns_delay s of None \<Rightarrow> True | Some (delay, m) \<Rightarrow> unat delay < unat m \<and> unat m \<le> 60000)"

lemma Next_recovery_remaining:
  assumes "recovery_inv r" "Next_recovery now r = (d, r')" "dc_action d = RA_Retry"
  shows "0 < unat (dc_remaining_ms d) \<and> unat (dc_remaining_ms d) \<le> 60000"
  using Next_recovery_decision [OF assms(1), of now] assms(2,3) by (auto simp: decision_ok_def word_less_nat_alt)

lemma delay_frame: "delay_inv s \<Longrightarrow> ns_delay s' = ns_delay s \<Longrightarrow> (\<And>st m. ns_sdk s' = K_Retry st m \<Longrightarrow> ns_sdk s = K_Retry st m) \<Longrightarrow> delay_inv s'"
  by (auto simp: delay_inv_def split: sdk_task.splits)

lemma delay_sel [simp]:
  "ns_delay (MarkDone_subscription s) = ns_delay s" "ns_delay (ScheduleCancel b s) = ns_delay s" "ns_delay (set_error c s) = ns_delay s"
  "ns_delay (PublishFailure c s) = ns_delay s" "ns_delay (CancelRecoveryTimer s) = ns_delay s"
  "ns_delay (FailActive b e d s) = ns_delay s" "ns_delay (ScheduleCancelLocked b s) = ns_delay s" "ns_sdk (ScheduleCancelLocked b s) = ns_sdk s"
  "ns_delay (CancelOnSdkThread s) = ns_delay s" "ns_sdk (CancelOnSdkThread s) = ns_sdk s"
  by (simp_all add: MarkDone_subscription_def ScheduleCancel_def ScheduleCancelLocked_def set_error_def PublishFailure_def CancelRecoveryTimer_def
      FailActive_def CancelOnSdkThread_def Let_def)

lemma FailActive_task: "ns_sdk (FailActive b e d s) = K_Retry st m \<Longrightarrow> ns_sdk s = K_Retry st m"
  by (auto simp: FailActive_def Let_def split: if_splits)

lemma take_ready_task [simp]: "ns_sdk (snd (take_ready s)) = ns_sdk s" "ns_delay (snd (take_ready s)) = ns_delay s"
  by (simp_all add: take_ready_def split: prod.split)

lemma min_delay: "0 < unat (m :: u32) \<Longrightarrow> unat (min t (m - 1)) < unat m"
proof -
  assume "0 < unat m"
  then have "unat (m - 1) = unat m - 1" by (subst unat_minus_one) auto
  then show ?thesis using \<open>0 < unat m\<close> by (auto simp: min_def word_le_nat_alt)
qed

lemma delay_OnResubscriptionNeeded:
  assumes "delay_inv s" "recovery_inv (ns_recovery s)" "ns_sdk s = K_Idle"
  shows "delay_inv (OnResubscriptionNeeded b now timer s)"
proof -
  obtain d r where d: "Next_recovery now (ns_recovery s) = (d, r)" by fastforce
  obtain ok b' where p: "(if dc_action d = RA_Retry \<and> dc_attempt d = 1 then PrepareRecovery (dc_generation d) (ns_buffer s)
      else (True, ns_buffer s)) = (ok, b')" by fastforce
  have f: "delay_inv (FailActive b e False (s\<lparr>ns_recovery := r, ns_buffer := b', ns_recovery_attempt := n\<rparr>))" for e n
    by (rule delay_frame [OF assms(1)]) (use assms(3) in \<open>auto dest: FailActive_task\<close>)
  have k: "delay_inv (s\<lparr>ns_recovery := r, ns_buffer := b', ns_recovery_attempt := n, ns_timer := x, ns_recovery_timer_active := y,
      ns_sdk := K_Retry st (dc_remaining_ms d)\<rparr>)" if "dc_action d = RA_Retry" for n x y st
    using Next_recovery_remaining [OF assms(2) d that] assms(1) by (simp add: delay_inv_def)
  show ?thesis using assms(1) d p f k by (simp add: OnResubscriptionNeeded_def Let_def)
qed

lemma delay_continue:
  assumes "delay_inv s"
  shows "delay_inv (continue_sdk ok b till s)"
proof (cases "ns_sdk s")
  case (K_Retry st m)
  then have m: "0 < unat m" "unat m \<le> 60000" using assms by (simp_all add: delay_inv_def)
  let ?s = "s\<lparr>ns_outbox := ns_outbox s @ [Em_Status st ok], ns_sdk := K_Idle\<rparr>"
  have "delay_inv (FailActive b e False ?s)" for e
    by (rule delay_frame [OF assms]) (auto dest: FailActive_task)
  moreover have "delay_inv (?s\<lparr>ns_delay := Some (min till (m - 1), m)\<rparr>)" using m min_delay [of m till] by (simp add: delay_inv_def)
  ultimately show ?thesis using K_Retry by (cases ok) (simp_all add: continue_sdk_def Let_def)
next
  case (K_Emit rs)
  then show ?thesis
    by (intro delay_frame [OF assms]) (auto simp: continue_sdk_def emit_report_def split: list.splits if_splits)
next
  case (K_Resubscribed st rs)
  then show ?thesis
    by (intro delay_frame [OF assms]) (auto simp: continue_sdk_def Let_def dest: FailActive_task split: if_splits)
next
  case (K_Failure g e d)
  then show ?thesis
    by (intro delay_frame [OF assms]) (auto simp: continue_sdk_def Let_def split: if_splits)
qed (simp add: continue_sdk_def assms)

lemma delay_OnSubscriptionEstablished:
  assumes "delay_inv s"
  shows "delay_inv (OnSubscriptionEstablished b i intervals s)"
proof (cases "\<not> ns_client s \<or> intervals = None")
  case True
  then show ?thesis
    by (intro delay_frame [OF assms]) (auto simp: OnSubscriptionEstablished_def dest: FailActive_task split: if_splits)
next
  case False
  then obtain mn mx where iv: "intervals = Some (mn, mx)" by fastforce
  obtain est b' where e: "Establish i mn mx (ns_buffer s) = (est, b')" by fastforce
  obtain rs s2 where r: "take_ready (s\<lparr>ns_buffer := Activate b'\<rparr>) = (rs, s2)" by fastforce
  have s2: "ns_delay s2 = ns_delay s" using take_ready_task(2) [of "s\<lparr>ns_buffer := Activate b'\<rparr>"] r by simp
  show ?thesis
    using False by (intro delay_frame [OF assms])
      (auto simp: OnSubscriptionEstablished_def iv e r s2 Let_def dest: FailActive_task split: if_splits)
qed

lemma delay_step:
  assumes "delay_inv s" "recovery_inv (ns_recovery s)" "enabled_subscription e s"
  shows "delay_inv (subscription_step I D e s)"
proof (cases e)
  case (NE_ResubscriptionNeeded b now timer)
  then show ?thesis using delay_OnResubscriptionNeeded assms by simp
next
  case (NE_Continue ok b till)
  then show ?thesis using delay_continue assms by simp
next
  case (NE_Established b i iv)
  then show ?thesis using delay_OnSubscriptionEstablished assms by simp
qed (intro delay_frame [OF assms(1)]; use assms in \<open>auto simp: Wait_gives_up_def Wait_returns_def Activate_subscription_def case_prod_beta Emit_activating_def
    emit_report_def unavailable_subscription_def Start_subscription_def ConnectionFailed_subscription_def OnConnected_subscription_def OnReportBegin_def OnReportEnd_def
    OnAttributeData_subscription_def OnEventData_subscription_def Add_subscription_def OnError_subscription_def RecoveryDeadline_def OnDone_subscription_def
    Let_def dest: FailActive_task split: list.splits option.splits sum.splits if_splits\<close>)+

section \<open>The order of reports\<close>

definition in_hand :: "NativeSubscription \<Rightarrow> SubscriptionReport list" where
  "in_hand s = task_reports (ns_sdk s) @ ns_activating s"

text \<open>A step emits and drops what the threads have in hand, or takes a batch when they have nothing in hand.\<close>

definition moves :: "NativeSubscription \<Rightarrow> NativeSubscription \<Rightarrow> bool" where
  "moves s s' \<longleftrightarrow>
     (ns_taken s' = ns_taken s \<and> subseq (emitted s' @ in_hand s') (emitted s @ in_hand s)) \<or>
     (in_hand s = [] \<and> emitted s' = emitted s \<and> ns_taken s' = ns_taken s @ in_hand s')"

lemma moves_subseq: "moves s s' \<Longrightarrow> subseq (emitted s @ in_hand s) (ns_taken s) \<Longrightarrow> subseq (emitted s' @ in_hand s') (ns_taken s')"
  by (auto simp: moves_def intro: subseq_order.trans)

lemma moves_same: "emitted s' = emitted s \<Longrightarrow> in_hand s' = in_hand s \<Longrightarrow> ns_taken s' = ns_taken s \<Longrightarrow> moves s s'"
  by (simp add: moves_def)

lemma moves_after:
  "moves s s' \<Longrightarrow> same_output s' s'' \<Longrightarrow> moves s s''"
  by (auto simp: moves_def same_output_def emitted_def in_hand_def)

lemma moves_output: "same_output s s' \<Longrightarrow> moves s s'"
  by (rule moves_same) (simp_all add: same_output_def emitted_def in_hand_def)

lemma moves_FailActive:
  assumes "ns_sdk s = K_Idle"
  shows "moves s (FailActive b e d s)"
proof -
  have "ns_outbox (FailActive b e d s) = ns_outbox s" "ns_activating (FailActive b e d s) = ns_activating s" "ns_taken (FailActive b e d s) = ns_taken s"
    "task_reports (ns_sdk (FailActive b e d s)) = []"
    using assms by (simp_all add: FailActive_def ScheduleCancel_def ScheduleCancelLocked_def set_error_def Let_def)
  then show ?thesis using assms by (intro moves_same) (simp_all add: emitted_def in_hand_def)
qed

lemma FailActive_output:
  "ns_sdk s = K_Idle \<Longrightarrow> emitted (FailActive b e d s) = emitted s" "ns_sdk s = K_Idle \<Longrightarrow> in_hand (FailActive b e d s) = in_hand s"
  "ns_taken (FailActive b e d s) = ns_taken s"
  by (simp_all add: FailActive_def ScheduleCancel_def ScheduleCancelLocked_def set_error_def emitted_def in_hand_def Let_def)

lemma output_sel [simp]:
  "emitted (s\<lparr>ns_buffer := b\<rparr>) = emitted s" "in_hand (s\<lparr>ns_buffer := b\<rparr>) = in_hand s"
  "emitted (ScheduleCancel x s) = emitted s" "in_hand (ScheduleCancel x s) = in_hand s" "ns_taken (ScheduleCancel x s) = ns_taken s"
  "emitted (MarkDone_subscription s) = emitted s" "in_hand (MarkDone_subscription s) = in_hand s" "ns_taken (MarkDone_subscription s) = ns_taken s"
  "emitted (CancelRecoveryTimer s) = emitted s" "in_hand (CancelRecoveryTimer s) = in_hand s"
  "emitted (PublishFailure c s) = emitted s" "in_hand (PublishFailure c s) = in_hand s" "ns_taken (PublishFailure c s) = ns_taken s"
  "emitted (s\<lparr>ns_client := y\<rparr>) = emitted s" "in_hand (s\<lparr>ns_client := y\<rparr>) = in_hand s"
  by (simp_all add: emitted_def in_hand_def ScheduleCancel_def ScheduleCancelLocked_def MarkDone_subscription_def CancelRecoveryTimer_def
      PublishFailure_def set_error_def Let_def)

lemma take_ready_output:
  assumes "take_ready s = (rs, s')"
  shows "emitted s' = emitted s" "in_hand s' = in_hand s" "ns_taken s' = ns_taken s @ rs" "ns_sdk s' = ns_sdk s" "ns_activating s' = ns_activating s"
  using assms by (auto simp: take_ready_def emitted_def in_hand_def split: prod.splits)

lemma moves_taking:
  assumes "take_ready (s\<lparr>ns_buffer := b\<rparr>) = (rs, s1)" "in_hand s = []" "emitted s2 = emitted s1" "in_hand s2 = rs" "ns_taken s2 = ns_taken s1"
  shows "moves s s2"
  using take_ready_output [OF assms(1)] assms(2-5) by (simp add: moves_def)

definition calm :: "subscription_event \<Rightarrow> NativeSubscription \<Rightarrow> bool" where
  "calm e s \<longleftrightarrow> (ns_activating s = [] \<or> (\<exists>ok b. e = NE_EmitActivating ok b)) \<and> (e = NE_Activate \<longrightarrow> task_reports (ns_sdk s) = [])"

lemma calm_code [code]:
  "calm e s \<longleftrightarrow> (ns_activating s = [] \<or> (case e of NE_EmitActivating ok b \<Rightarrow> True | _ \<Rightarrow> False)) \<and>
     (case e of NE_Activate \<Rightarrow> task_reports (ns_sdk s) = [] | _ \<Rightarrow> True)"
  by (cases e) (auto simp: calm_def)

lemma moves_Established:
  assumes "ns_sdk s = K_Idle" "ns_activating s = []"
  shows "moves s (OnSubscriptionEstablished b i intervals s)"
proof (cases "\<not> ns_client s \<or> intervals = None")
  case True
  then show ?thesis
    using moves_FailActive [OF assms(1)] by (auto simp: OnSubscriptionEstablished_def intro!: moves_same)
next
  case False
  then obtain mn mx where iv: "intervals = Some (mn, mx)" by fastforce
  obtain est b' where e: "Establish i mn mx (ns_buffer s) = (est, b')" by fastforce
  obtain rs s2 where r: "take_ready (s\<lparr>ns_buffer := Activate b'\<rparr>) = (rs, s2)" by fastforce
  note t = take_ready_output [OF r]
  have taking: "moves s ((CancelRecoveryTimer s2)\<lparr>ns_sdk := K_Resubscribed st rs\<rparr>)" for st
    by (rule moves_taking [OF r]) (use t assms in \<open>simp_all add: in_hand_def emitted_def CancelRecoveryTimer_def\<close>)
  have failing: "moves s (FailActive b e d (s\<lparr>ns_buffer := b'\<rparr>))" for e d
    by (rule moves_same) (simp_all add: FailActive_output assms(1))
  have "moves s (ScheduleCancelLocked b (set_error c (s\<lparr>ns_buffer := b'\<rparr>)))" "moves s (s\<lparr>ns_buffer := b', ns_response := x, ns_published := True\<rparr>)" for c x
    by (rule moves_same; simp add: emitted_def in_hand_def ScheduleCancelLocked_def set_error_def Let_def)+
  then show ?thesis
    using taking failing False by (simp add: OnSubscriptionEstablished_def iv e r Let_def)
qed

lemma moves_ResubscriptionNeeded:
  assumes "ns_sdk s = K_Idle"
  shows "moves s (OnResubscriptionNeeded b now timer s)"
proof -
  obtain d r where d: "Next_recovery now (ns_recovery s) = (d, r)" by fastforce
  obtain ok b' where p: "(if dc_action d = RA_Retry \<and> dc_attempt d = 1 then PrepareRecovery (dc_generation d) (ns_buffer s)
      else (True, ns_buffer s)) = (ok, b')" by fastforce
  have "moves s (FailActive b e x (s\<lparr>ns_recovery := r, ns_buffer := b', ns_recovery_attempt := n\<rparr>))" for e x n
    by (rule moves_same) (simp_all add: FailActive_output assms, simp_all add: emitted_def in_hand_def)
  moreover have "moves s (s\<lparr>ns_recovery := r, ns_buffer := b', ns_recovery_attempt := n, ns_timer := x, ns_recovery_timer_active := y,
      ns_sdk := K_Retry st m\<rparr>)" for n x y st m
    by (rule moves_same) (use assms in \<open>simp_all add: emitted_def in_hand_def\<close>)
  moreover have "moves s s" by (rule moves_same) simp_all
  ultimately show ?thesis using d p by (simp add: OnResubscriptionNeeded_def Let_def)
qed

lemma subseq_cut [simp]: "subseq (xs @ [a]) (xs @ a # ys)" "subseq xs (xs @ ys)"
  by (induction xs) simp_all

lemma moves_continue:
  assumes "ns_activating s = []"
  shows "moves s (continue_sdk ok b till s)"
proof (cases "ns_sdk s")
  case (K_Emit rs)
  then show ?thesis
    using assms by (cases rs; cases ok) (simp_all add: moves_def continue_sdk_def emitted_def in_hand_def emit_report_def ScheduleCancel_def ScheduleCancelLocked_def Let_def)
next
  case (K_Resubscribed st rs)
  have "emitted (FailActive b e d (s\<lparr>ns_outbox := ns_outbox s @ [Em_Status st x], ns_sdk := K_Idle\<rparr>)) = emitted s"
    "in_hand (FailActive b e d (s\<lparr>ns_outbox := ns_outbox s @ [Em_Status st x], ns_sdk := K_Idle\<rparr>)) = []" for e d x
    using assms by (simp_all add: FailActive_output) (simp_all add: emitted_def in_hand_def)
  then have "moves s (FailActive b e d (s\<lparr>ns_outbox := ns_outbox s @ [Em_Status st x], ns_sdk := K_Idle\<rparr>))" for e d x
    by (simp add: moves_def FailActive_output)
  then show ?thesis
    using K_Resubscribed assms by (cases ok) (simp_all add: continue_sdk_def Let_def, simp add: moves_def emitted_def in_hand_def)
next
  case (K_Retry st m)
  have "moves s (FailActive b e d (s\<lparr>ns_outbox := ns_outbox s @ [Em_Status st x], ns_sdk := K_Idle\<rparr>))" for e d x
    using K_Retry by (intro moves_same) (simp_all add: FailActive_output, simp_all add: emitted_def in_hand_def)
  then show ?thesis
    using K_Retry assms by (cases ok) (simp_all add: continue_sdk_def Let_def, simp add: moves_def emitted_def in_hand_def)
next
  case (K_Failure g e d)
  then show ?thesis
    by (cases d) (simp_all add: moves_def continue_sdk_def Let_def, simp_all add: emitted_def in_hand_def)
qed (simp add: continue_sdk_def moves_same)

lemma moves_Add:
  assumes "ns_sdk s = K_Idle"
  shows "moves s (Add_subscription b x s)"
  using assms by (intro moves_same) (simp_all add: Add_subscription_def Let_def case_prod_beta FailActive_output)

lemma calm_moves:
  assumes "enabled_subscription e s" "calm e s" "ns_activating s \<noteq> [] \<longrightarrow> task_reports (ns_sdk s) = []"
  shows "moves s (subscription_step I D e s)"
proof (cases e)
  case NE_Activate
  obtain rs s1 where r: "take_ready (s\<lparr>ns_buffer := Activate (ns_buffer s)\<rparr>) = (rs, s1)" by fastforce
  have hand: "in_hand s = []" using assms(1,2) NE_Activate by (simp add: calm_def in_hand_def)
  have "moves s (s1\<lparr>ns_activating := rs\<rparr>)"
    by (rule moves_taking [OF r hand]) (use take_ready_output [OF r] hand in \<open>simp_all add: emitted_def in_hand_def\<close>)
  moreover have "moves s s" by (rule moves_same) simp_all
  ultimately show ?thesis using NE_Activate r by (simp add: Activate_subscription_def)
next
  case (NE_EmitActivating ok b)
  then show ?thesis
    using assms(1,3)
    by (cases "ns_activating s"; cases ok)
      (simp_all add: moves_def Emit_activating_def, simp_all add: emitted_def in_hand_def emit_report_def)
next
  case NE_ReportEnd
  obtain rs s1 where r: "take_ready (s\<lparr>ns_buffer := EndReport (ns_buffer s)\<rparr>) = (rs, s1)" by fastforce
  have hand: "in_hand s = []" using assms(1,2) NE_ReportEnd by (simp add: calm_def in_hand_def)
  have "moves s (s1\<lparr>ns_sdk := K_Emit rs\<rparr>)"
    by (rule moves_taking [OF r hand]) (use take_ready_output [OF r] hand in \<open>simp_all add: emitted_def in_hand_def\<close>)
  then show ?thesis using NE_ReportEnd r by (simp add: OnReportEnd_def)
next
  case (NE_Attribute b path v data st)
  then show ?thesis
    using assms(1) moves_FailActive [of s] moves_Add [of s]
    by (simp add: OnAttributeData_subscription_def Let_def split: option.split sum.split)
next
  case (NE_Event b h data so)
  then show ?thesis
    using assms(1) moves_FailActive [of s] moves_Add [of s]
    by (simp add: OnEventData_subscription_def Let_def split: option.split sum.split)
next
  case (NE_Established b i iv)
  then show ?thesis using assms(1,2) moves_Established by (simp add: calm_def)
next
  case (NE_Continue ok b till)
  then show ?thesis using assms(2) moves_continue by (simp add: calm_def)
next
  case (NE_Deadline b)
  then show ?thesis
    using assms(1) by (intro moves_same) (simp_all add: RecoveryDeadline_def FailActive_output, simp_all add: emitted_def in_hand_def)
next
  case (NE_Done b)
  have "ns_sdk s = K_Idle" using assms(1) NE_Done by simp
  then show ?thesis
    using NE_Done by (intro moves_same) (simp_all add: OnDone_subscription_def Let_def FailActive_output)
qed (use assms(1) in \<open>auto intro!: moves_same moves_FailActive moves_ResubscriptionNeeded simp: OnError_subscription_def,
    auto simp: emitted_def in_hand_def Wait_gives_up_def set_error_def Wait_returns_def unavailable_subscription_def Start_subscription_def ConnectionFailed_subscription_def
      OnConnected_subscription_def OnReportBegin_def CancelOnSdkThread_def PublishFailure_def MarkDone_subscription_def CancelRecoveryTimer_def
      ScheduleCancel_def ScheduleCancelLocked_def Let_def split: option.split\<close>)

lemma idle_activating:
  assumes "ns_activating s = []" "e \<noteq> NE_Activate"
  shows "ns_activating (subscription_step I D e s) = []"
proof -
  have f: "ns_activating (FailActive b x d s') = ns_activating s'" for b x d s'
    by (simp add: FailActive_def ScheduleCancel_def ScheduleCancelLocked_def set_error_def Let_def)
  have c: "ns_activating (ScheduleCancel b s') = ns_activating s'" "ns_activating (MarkDone_subscription s') = ns_activating s'"
    "ns_activating (PublishFailure x s') = ns_activating s'" "ns_activating (CancelRecoveryTimer s') = ns_activating s'"
    "ns_activating (snd (take_ready s')) = ns_activating s'" "ns_activating (set_error x s') = ns_activating s'"
    "ns_activating (ScheduleCancelLocked b s') = ns_activating s'" for b x s'
    by (simp_all add: ScheduleCancel_def ScheduleCancelLocked_def MarkDone_subscription_def PublishFailure_def set_error_def CancelRecoveryTimer_def
        take_ready_def Let_def split: prod.split)
  show ?thesis
    using assms
    by (cases e)
      (simp_all add: f c Wait_gives_up_def Wait_returns_def Emit_activating_def unavailable_subscription_def Start_subscription_def ConnectionFailed_subscription_def
        OnConnected_subscription_def OnReportBegin_def OnReportEnd_def OnAttributeData_subscription_def OnEventData_subscription_def
        Add_subscription_def OnSubscriptionEstablished_def OnResubscriptionNeeded_def OnError_subscription_def RecoveryDeadline_def
        OnDone_subscription_def CancelOnSdkThread_def continue_sdk_def emit_report_def Let_def case_prod_beta
        split: option.split sum.split sdk_task.split list.split)
qed

inductive calm_run :: "sdk_ids \<Rightarrow> sdk_decode \<Rightarrow> SubscriptionRequest \<Rightarrow> NativeSubscription \<Rightarrow> bool" for I D request where
  calm_start: "calm_run I D request (mk_subscription request)"
| calm_step: "calm_run I D request s \<Longrightarrow> enabled_subscription e s \<Longrightarrow> calm e s \<Longrightarrow> calm_run I D request (subscription_step I D e s)"

lemma calm_is_run: "calm_run I D request s \<Longrightarrow> subscription_run I D request s"
  by (induction rule: calm_run.induct) (simp_all add: subscribing working)

lemma subscription_run_inv:
  "subscription_run I D request s \<Longrightarrow> held_inv request s \<and> out_inv s \<and> life_inv s \<and> delay_inv s"
proof (induction rule: subscription_run.induct)
  case subscribing
  have "held_inv request (mk_subscription request)"
    using buffer_inv_init [of request]
    by (simp add: held_inv_def mk_subscription_def mk_recovery_def recovery_inv_def good_response_def empty_subscription_def mk_buffer_def)
  then show ?case
    by (simp add: out_inv_def life_inv_def delay_inv_def emitted_def failures_def mk_subscription_def)
next
  case (working s e)
  then have "recovery_inv (ns_recovery s)" by (simp add: held_inv_def)
  then show ?case using working held_step out_step life_step delay_step by simp
qed

lemma calm_hands:
  assumes "ns_activating s \<noteq> [] \<longrightarrow> task_reports (ns_sdk s) = []" "enabled_subscription e s" "calm e s"
  shows "ns_activating (subscription_step I D e s) \<noteq> [] \<longrightarrow> task_reports (ns_sdk (subscription_step I D e s)) = []"
proof (cases "ns_activating s = [] \<and> e \<noteq> NE_Activate")
  case True
  then have "ns_activating (subscription_step I D e s) = []"
    using assms(2) idle_activating by simp
  then show ?thesis by simp
next
  case False
  then consider "e = NE_Activate" | ok b where "e = NE_EmitActivating ok b" using assms(3) by (auto simp: calm_def)
  then show ?thesis
  proof cases
    case 1
    then have "same_life s (subscription_step I D e s)" by simp
    moreover have "task_reports (ns_sdk s) = []" using assms(3) 1 by (simp add: calm_def)
    ultimately show ?thesis by (simp add: same_life_def)
  next
    case (2 ok b)
    then have "same_life s (subscription_step I D e s)" by simp
    moreover have "task_reports (ns_sdk s) = []" using assms(1,2) 2 by simp
    ultimately show ?thesis by (simp add: same_life_def)
  qed
qed

lemma calm_order: "calm_run I D request s \<Longrightarrow> subseq (emitted s @ in_hand s) (ns_taken s) \<and> (ns_activating s \<noteq> [] \<longrightarrow> task_reports (ns_sdk s) = [])"
proof (induction rule: calm_run.induct)
  case (calm_step s e)
  then show ?case using calm_hands [of s e] moves_subseq [OF calm_moves [of e s]] by blast
qed (simp add: emitted_def in_hand_def mk_subscription_def)

lemma sorted_subseq: "subseq xs ys \<Longrightarrow> sorted_wrt P ys \<Longrightarrow> sorted_wrt P xs"
proof (induction rule: list_emb.induct)
  case (list_emb_Cons2 x y xs ys)
  then have "set xs \<subseteq> set ys" by (auto dest: list_emb_set)
  then show ?case using list_emb_Cons2 by auto
qed simp_all

section \<open>Example runs\<close>

fun allowed_subscription :: "sdk_ids \<Rightarrow> sdk_decode \<Rightarrow> subscription_event list \<Rightarrow> NativeSubscription \<Rightarrow> bool" where
  "allowed_subscription I D [] s = True"
| "allowed_subscription I D (e # es) s = (enabled_subscription e s \<and> allowed_subscription I D es (subscription_step I D e s))"

lemma allowed_subscription_run:
  "subscription_run I D request s \<Longrightarrow> allowed_subscription I D es s \<Longrightarrow> subscription_run I D request (fold (subscription_step I D) es s)"
  by (induction es arbitrary: s) (simp_all add: working)

fun calm_subscription :: "sdk_ids \<Rightarrow> sdk_decode \<Rightarrow> subscription_event list \<Rightarrow> NativeSubscription \<Rightarrow> bool" where
  "calm_subscription I D [] s = True"
| "calm_subscription I D (e # es) s =
     (enabled_subscription e s \<and> calm e s \<and> calm_subscription I D es (subscription_step I D e s))"

lemma calm_subscription_run:
  "calm_run I D request s \<Longrightarrow> calm_subscription I D es s \<Longrightarrow> calm_run I D request (fold (subscription_step I D) es s)"
  by (induction es arbitrary: s) (simp_all add: calm_step)

definition example_switch :: SubscriptionRequest where
  "example_switch =
     \<lparr>sr_subscription_id = example_generation, sr_kind = SK_Attribute, sr_fabric_id = 1, sr_node_id = 2,
      sr_paths = [\<lparr>ps_fabric_id = 1, ps_node_id = 2, ps_endpoint = Some 1, ps_cluster = Some 6, ps_member = Some 0\<rparr>],
      sr_min_interval_s = 1, sr_max_interval_s = 60, sr_resubscribe = True, sr_queue_limit = 16, sr_timeout_ms = 5000\<rparr>"

definition example_report :: "bool \<Rightarrow> subscription_event list" where
  "example_report v =
     [NE_ReportBegin,
      NE_Attribute True \<lparr>sp_endpoint = 1, sp_cluster = 6, sp_member = 0\<rparr> None
        (Some (tlv_leaf AnonymousTag kTLVType_Boolean None None (Some v))) example_success,
      NE_ReportEnd]"

definition example_subscribing :: "subscription_event list" where
  "example_subscribing =
     [NE_Start 5 None, NE_Connected 40 None] @ example_report False @
     [NE_Continue True True 0, NE_Established True 77 (Some (1, 60))]"

definition example_state :: "subscription_event list \<Rightarrow> NativeSubscription" where
  "example_state es = fold (subscription_step example_ids example_decode) es (mk_subscription example_switch)"

definition example_calm :: "subscription_event list" where
  "example_calm =
     example_subscribing @ [NE_Activate, NE_EmitActivating True True] @ example_report True @
     [NE_Continue True True 0, NE_Continue True True 0]"

definition example_failing :: "subscription_event list" where
  "example_failing = example_calm @ [NE_Error True, NE_Continue True True 0, NE_Done True]"

definition example_retrying :: "subscription_event list" where
  "example_retrying = example_calm @ [NE_ResubscriptionNeeded True 1000 True, NE_Continue True True 500]"

definition example_race :: "subscription_event list" where
  "example_race =
     example_subscribing @ [NE_Activate] @ example_report True @ [NE_Continue True True 0, NE_EmitActivating True True]"

lemma example_runs:
  "allowed_subscription example_ids example_decode es (mk_subscription example_switch) \<Longrightarrow>
   subscription_run example_ids example_decode example_switch (example_state es)"
  "calm_subscription example_ids example_decode es (mk_subscription example_switch) \<Longrightarrow>
   calm_run example_ids example_decode example_switch (example_state es)"
  using allowed_subscription_run [OF subscribing] calm_subscription_run [OF calm_start] by (simp_all add: example_state_def)

section \<open>Properties\<close>

text \<open>
  Property C20. Whatever the threads, the SDK and the sinks do, a subscription emits at most one failure, and only after it was
  established; once it has failed or been cancelled the buffer hands out nothing more; and every report handed to the
  sink was valid for the request and taken from the buffer.
\<close>

theorem subscription_emissions:
  assumes "subscription_run I D request s"
  shows "failures s \<le> 1 \<and> (failures s > 0 \<longrightarrow> so_ok (ns_response s)) \<and>
    (ns_failure_emitted s \<or> ns_cancelled s \<longrightarrow> \<not> sb_active (ns_buffer s) \<and> sb_ready (ns_buffer s) = []) \<and>
    set (emitted s) \<subseteq> set (ns_taken s) \<and> (\<forall>r\<in>set (emitted s). valid_subscription_report request r)"
proof -
  have inv: "held_inv request s" "out_inv s" using subscription_run_inv [OF assms] by simp_all
  have "delivery_ok request (ns_taken s)"
    using inv(1) delivery_ok_prefix by (auto simp: held_inv_def buffer_inv_def)
  then have "\<forall>r\<in>set (ns_taken s). valid_subscription_report request r" by (simp add: delivery_ok_def list_all_iff)
  moreover have "failures s \<le> 1" using inv(2) by (cases "ns_failure_emitted s") (simp_all add: out_inv_def)
  ultimately show ?thesis using inv by (auto simp: held_inv_def out_inv_def)
qed

theorem subscription_emissions_witness:
  "subscription_run example_ids example_decode example_switch (example_state example_failing) \<and>
   failures (example_state example_failing) = 1 \<and> length (emitted (example_state example_failing)) = 2 \<and>
   \<not> sb_active (ns_buffer (example_state example_failing))"
proof -
  have run: "subscription_run example_ids example_decode example_switch (example_state example_failing)"
    by (rule example_runs(1)) code_simp
  have "failures (example_state example_failing) = 1" "length (emitted (example_state example_failing)) = 2"
    "ns_failure_emitted (example_state example_failing)" by code_simp+
  then show ?thesis using run subscription_emissions [OF run] by blast
qed

text \<open>
  Property C21. As long as nothing else runs while an activation hands its batch to the sink, the reports reach the sink in the
  order of generation and report, as the buffer took them in.
\<close>

theorem calm_delivery_ordered:
  assumes "calm_run I D request s"
  shows "sorted_wrt report_before (emitted s) \<and> subseq (emitted s) (ns_taken s)"
proof -
  have sub: "subseq (emitted s) (ns_taken s)"
    using calm_order [OF assms] subseq_order.trans [OF subseq_cut(2)] by blast
  have "delivery_ok request (ns_taken s)"
    using subscription_run_inv [OF calm_is_run [OF assms]] delivery_ok_prefix by (auto simp: held_inv_def buffer_inv_def)
  then show ?thesis using sub sorted_subseq [OF sub] by (simp add: delivery_ok_def)
qed

theorem calm_delivery_ordered_witness:
  "calm_run example_ids example_decode example_switch (example_state example_calm) \<and>
   length (emitted (example_state example_calm)) = 2 \<and> sorted_wrt report_before (emitted (example_state example_calm))"
proof -
  have run: "calm_run example_ids example_decode example_switch (example_state example_calm)"
    by (rule example_runs(2)) code_simp
  have "length (emitted (example_state example_calm)) = 2" by code_simp
  then show ?thesis using run calm_delivery_ordered [OF run] by blast
qed

text \<open>
  The response that the waiting thread returns for an established subscription is one that the session accepts:
  it names the request, a generation, and intervals in order.
\<close>

theorem subscription_response_valid:
  assumes "subscription_run I D request s" "so_ok (fst (Wait_returns gave_up scheduled s))"
  shows "so_subscription_id (fst (Wait_returns gave_up scheduled s)) = sr_subscription_id request \<and>
    so_generation (fst (Wait_returns gave_up scheduled s)) \<noteq> 0 \<and> so_max_interval_s (fst (Wait_returns gave_up scheduled s)) \<noteq> 0 \<and>
    \<not> so_min_interval_s (fst (Wait_returns gave_up scheduled s)) > so_max_interval_s (fst (Wait_returns gave_up scheduled s))"
proof -
  have "fst (Wait_returns gave_up scheduled s) = ns_response s"
    by (simp add: Wait_returns_def ScheduleCancel_def ScheduleCancelLocked_def Let_def)
  then show ?thesis using subscription_run_inv [OF assms(1)] assms(2) by (simp add: held_inv_def good_response_def)
qed

theorem subscription_response_valid_witness:
  "subscription_run example_ids example_decode example_switch (example_state example_calm) \<and>
   so_ok (fst (Wait_returns False True (example_state example_calm))) \<and>
   so_subscription_id (fst (Wait_returns False True (example_state example_calm))) = example_generation"
proof -
  have run: "subscription_run example_ids example_decode example_switch (example_state example_calm)"
    by (rule example_runs(1)) code_simp
  have ok: "so_ok (fst (Wait_returns False True (example_state example_calm)))" by code_simp
  from run ok subscription_response_valid [OF run ok] show ?thesis by (simp add: example_switch_def)
qed

text \<open>
  Property C23. No subscription is left behind: when \<open>Start\<close> has run and neither a connection callback, a client nor a task of the
  SDK thread is left, the subscription is done; its recovery timer runs only while it has a client; and a retry is scheduled
  before the recovery window of 60 seconds ends.
\<close>

theorem subscription_not_lost:
  assumes "subscription_run I D request s"
  shows "(ns_started s \<and> \<not> ns_armed s \<and> \<not> ns_client s \<and> ns_sdk s = K_Idle \<longrightarrow> ns_done s) \<and>
    (ns_timer s \<longrightarrow> ns_client s \<and> ns_recovery_timer_active s) \<and>
    (\<forall>delay remaining. ns_delay s = Some (delay, remaining) \<longrightarrow> unat delay < unat remaining \<and> unat remaining \<le> 60000)"
  using subscription_run_inv [OF assms] by (auto simp: life_inv_def delay_inv_def)

theorem subscription_not_lost_witness:
  "subscription_run example_ids example_decode example_switch (example_state example_retrying) \<and>
   ns_timer (example_state example_retrying) \<and> ns_client (example_state example_retrying) \<and>
   ns_delay (example_state example_retrying) = Some (500, 60000)"
proof -
  have run: "subscription_run example_ids example_decode example_switch (example_state example_retrying)"
    by (rule example_runs(1)) code_simp
  have "ns_timer (example_state example_retrying)" "ns_delay (example_state example_retrying) = Some (500, 60000)" by code_simp+
  then show ?thesis using run subscription_not_lost [OF run] by blast
qed

text \<open>
  Property C22. The order is not kept when the SDK thread completes a report while \<open>Activate\<close> is between the critical section
  that takes the buffered batch and the sink: both call \<open>Emit\<close> outside \<open>mutex_\<close>, and the newer report reaches the sink
  first.
\<close>

theorem activation_reorders_reports:
  "\<exists>s. subscription_run example_ids example_decode example_switch s \<and> sorted_wrt report_before (ns_taken s) \<and>
     set (emitted s) = set (ns_taken s) \<and> \<not> sorted_wrt report_before (emitted s)"
proof -
  have run: "subscription_run example_ids example_decode example_switch (example_state example_race)"
    by (rule example_runs(1)) code_simp
  have "sorted_wrt report_before (ns_taken (example_state example_race))"
    "set (emitted (example_state example_race)) = set (ns_taken (example_state example_race))"
    "\<not> sorted_wrt report_before (emitted (example_state example_race))" by code_simp+
  then show ?thesis using run by blast
qed

end
