(* ===== verification/ControllerCommissioning.thy ===== *)
theory ControllerCommissioning
  imports ControllerSubscription Commissioning
begin

text \<open>
  \<open>PendingCommissioning\<close> and \<open>PendingWindow\<close> of \<^verbatim>\<open>native/src/controller.cpp\<close>: one commissioning and one
  commissioning-window operation between the thread that waits for the response, the SDK thread and the callbacks
  of the SDK.

  Every critical section of a thread is one step.  The SDK is a parameter: its answers are arguments of the
  operations, its callbacks are events that come in any order.  Commissioning stages start only between a
  \<open>PairDevice\<close> that answered without an error and the end of that pairing; the completion callbacks of the
  commissioner may come at any time.
\<close>

section \<open>Data of the SDK\<close>

datatype setup_discriminator = LongDiscriminator u16 | IsShortDiscriminator: ShortDiscriminator u8

datatype commissioning_flow = kStandard | kUserActionRequired | kCustom

datatype rendezvous = kOnNetwork | kOtherRendezvous nat

record SetupPayload =
  pl_version :: u8
  pl_vendorID :: u16
  pl_productID :: u16
  pl_commissioningFlow :: commissioning_flow
  pl_rendezvousInformation :: "rendezvous option"
  pl_discriminator :: setup_discriminator
  pl_setUpPINCode :: u32

datatype CommissioningStage = kSendTrustedRootCert | kSendNOC | kOtherStage nat

text \<open>What the SDK offers besides: the integer of an error, the two renderings of a payload and the error constant
  that the Codec does not need.\<close>

record sdk_setup =
  se_AsInteger :: "chip_error \<Rightarrow> u32"
  se_cancelled :: chip_error
  se_qr_code :: "SetupPayload \<Rightarrow> chip_error + string"
  se_manual_code :: "SetupPayload \<Rightarrow> chip_error + string"

section \<open>Commissioning\<close>

text \<open>\<open>pc_fabric_id\<close> is \<open>owner_.identity_.fabric_id\<close>.  The last fields record what the SDK was asked: the payload
  texts given to \<open>PairDevice\<close>, whether the pairing goes on, whether a session callback is registered, whether a
  cancellation is queued and how many reapers were.\<close>

record PendingCommissioning =
  pc_request :: CommissioningRequest
  pc_fabric_id :: u64
  pc_response :: CommissioningResponse
  pc_final_status :: "chip_error option option"
  pc_submitted :: bool
  pc_mutation :: bool
  pc_published :: bool
  pc_done :: bool
  pc_started :: bool
  pc_paired :: "(u64 \<times> string) list"
  pc_pairing :: bool
  pc_armed :: bool
  pc_cancel_work :: bool
  pc_reaps :: nat

definition no_commissioning :: CommissioningResponse where
  "no_commissioning = \<lparr>cr_ok = False, cr_error = None, cr_node_id = 0, cr_fabric_id = 0, cr_case_established = False\<rparr>"

definition mk_commissioning :: "u64 \<Rightarrow> CommissioningRequest \<Rightarrow> PendingCommissioning" where
  "mk_commissioning fabric_id request =
     \<lparr>pc_request = request, pc_fabric_id = fabric_id, pc_response = no_commissioning, pc_final_status = None,
      pc_submitted = False, pc_mutation = False, pc_published = False, pc_done = False, pc_started = False,
      pc_paired = [], pc_pairing = False, pc_armed = False, pc_cancel_work = False, pc_reaps = 0\<rparr>"

definition Remaining_commissioning :: "u64 \<Rightarrow> PendingCommissioning \<Rightarrow> u32" where
  "Remaining_commissioning elapsed s = remaining_timeout_ms (cq_timeout_ms (pc_request s)) elapsed"

definition commissioning_error :: "string \<Rightarrow> u32 option \<Rightarrow> bool \<Rightarrow> CommissioningError" where
  "commissioning_error code status mutation =
     \<lparr>ce_code = code, ce_sdk_status = status, ce_effect = (if mutation then Effect_Unknown else Effect_None)\<rparr>"

definition Failure_commissioning :: "sdk_setup \<Rightarrow> string \<Rightarrow> chip_error \<Rightarrow> bool \<Rightarrow> CommissioningResponse" where
  "Failure_commissioning E code error mutation =
     no_commissioning\<lparr>cr_error := Some (commissioning_error code (Some (se_AsInteger E error)) mutation)\<rparr>"

definition Publish_commissioning :: "CommissioningResponse \<Rightarrow> PendingCommissioning \<Rightarrow> PendingCommissioning" where
  "Publish_commissioning response s = (if pc_published s then s else s\<lparr>pc_response := response, pc_published := True\<rparr>)"

definition MarkDone_commissioning :: "PendingCommissioning \<Rightarrow> PendingCommissioning" where
  "MarkDone_commissioning s = (if pc_done s then s else s\<lparr>pc_done := True, pc_reaps := pc_reaps s + 1\<rparr>)"

definition ScheduleAbort_commissioning :: "bool \<Rightarrow> PendingCommissioning \<Rightarrow> PendingCommissioning" where
  "ScheduleAbort_commissioning scheduled s = (if scheduled then s\<lparr>pc_cancel_work := True\<rparr> else s)"

text \<open>\<open>Wait\<close> when \<open>WaitForControl\<close> says no: what it publishes itself and returns.\<close>

definition Wait_commissioning :: "sdk_setup \<Rightarrow> bool \<Rightarrow> bool \<Rightarrow> PendingCommissioning \<Rightarrow> CommissioningResponse \<times> PendingCommissioning" where
  "Wait_commissioning E waited scheduled s =
     (if waited then (pc_response s, s)
      else let s1 = s\<lparr>pc_response := Failure_commissioning E ''commissioning_timeout'' CHIP_ERROR_TIMEOUT (pc_mutation s),
                      pc_published := True\<rparr>
           in (pc_response s1, ScheduleAbort_commissioning scheduled s1))"

definition setup_payload :: "CommissioningRequest \<Rightarrow> SetupPayload" where
  "setup_payload q =
     \<lparr>pl_version = 0, pl_vendorID = 0, pl_productID = 0, pl_commissioningFlow = kStandard,
      pl_rendezvousInformation = Some kOnNetwork, pl_discriminator = LongDiscriminator (cq_discriminator q),
      pl_setUpPINCode = cq_setup_pin q\<rparr>"

definition fail_commissioning :: "CommissioningResponse \<Rightarrow> PendingCommissioning \<Rightarrow> PendingCommissioning" where
  "fail_commissioning response s = MarkDone_commissioning (Publish_commissioning response s)"

text \<open>\<open>discovering\<close> and \<open>pairing\<close> are the answers of \<open>DiscoverCommissionableNodes\<close> and \<open>PairDevice\<close>.\<close>

definition Start_commissioning ::
    "sdk_setup \<Rightarrow> u64 \<Rightarrow> chip_error option \<Rightarrow> chip_error option \<Rightarrow> PendingCommissioning \<Rightarrow> PendingCommissioning" where
  "Start_commissioning E elapsed discovering pairing s =
     (let s = s\<lparr>pc_started := True\<rparr>
      in if Remaining_commissioning elapsed s = 0
         then fail_commissioning (Failure_commissioning E ''commissioning_timeout'' CHIP_ERROR_TIMEOUT False) s
         else case se_qr_code E (setup_payload (pc_request s)) of
           Inl error \<Rightarrow> fail_commissioning (Failure_commissioning E ''commissioning_submit_failed'' error False) s
         | Inr setup_code \<Rightarrow>
             (case discovering of
                Some error \<Rightarrow> fail_commissioning (Failure_commissioning E ''commissioning_submit_failed'' error False) s
              | None \<Rightarrow>
                  let s1 = s\<lparr>pc_submitted := True, pc_paired := pc_paired s @ [(cq_node_id (pc_request s), setup_code)]\<rparr>
                  in case pairing of
                       Some error \<Rightarrow> fail_commissioning (Failure_commissioning E ''commissioning_submit_failed'' error False) s1
                     | None \<Rightarrow> s1\<lparr>pc_pairing := True\<rparr>))"

definition StageStarted :: "CommissioningStage \<Rightarrow> PendingCommissioning \<Rightarrow> PendingCommissioning" where
  "StageStarted stage s = (if stage = kSendTrustedRootCert \<or> stage = kSendNOC then s\<lparr>pc_mutation := True\<rparr> else s)"

text \<open>\<open>None\<close> of an error is \<open>CHIP_NO_ERROR\<close>, also inside the recorded status.\<close>

definition RecordFailure :: "chip_error option \<Rightarrow> PendingCommissioning \<Rightarrow> PendingCommissioning" where
  "RecordFailure status s = s\<lparr>pc_final_status := Some status\<rparr>"

definition completion_status :: "chip_error option \<Rightarrow> PendingCommissioning \<Rightarrow> chip_error" where
  "completion_status error s =
     (case error of
        Some status \<Rightarrow> status
      | None \<Rightarrow> (case pc_final_status s of Some (Some status) \<Rightarrow> status | _ \<Rightarrow> CHIP_ERROR_INVALID_ARGUMENT))"

text \<open>\<open>connecting\<close> is the answer of \<open>GetConnectedDevice\<close>.\<close>

definition CommissioningComplete ::
    "sdk_setup \<Rightarrow> u64 \<Rightarrow> chip_error option \<Rightarrow> chip_error option \<Rightarrow> PendingCommissioning \<Rightarrow> PendingCommissioning" where
  "CommissioningComplete E device_id error connecting s =
     (let s = s\<lparr>pc_pairing := (pc_pairing s \<and> device_id \<noteq> cq_node_id (pc_request s))\<rparr>
      in if device_id \<noteq> cq_node_id (pc_request s) \<or> error \<noteq> None
         then fail_commissioning (Failure_commissioning E ''commissioning_failed'' (completion_status error s) (pc_mutation s)) s
         else case connecting of
           Some case_error \<Rightarrow> fail_commissioning (Failure_commissioning E ''commissioning_failed'' case_error True) s
         | None \<Rightarrow> s\<lparr>pc_armed := True\<rparr>)"

text \<open>\<open>stopped\<close>: whether \<open>StopPairing\<close> ended the pairing.\<close>

definition AbortOnSdkThread_commissioning :: "sdk_setup \<Rightarrow> bool \<Rightarrow> PendingCommissioning \<Rightarrow> PendingCommissioning" where
  "AbortOnSdkThread_commissioning E stopped s =
     (let s = s\<lparr>pc_armed := False, pc_pairing := (pc_pairing s \<and> \<not> (pc_submitted s \<and> stopped))\<rparr>
      in fail_commissioning (Failure_commissioning E ''controller_closed'' (se_cancelled E) (pc_mutation s)) s)"

definition CaseConnected :: "PendingCommissioning \<Rightarrow> PendingCommissioning" where
  "CaseConnected s =
     fail_commissioning
       \<lparr>cr_ok = True, cr_error = None, cr_node_id = cq_node_id (pc_request s), cr_fabric_id = pc_fabric_id s,
        cr_case_established = True\<rparr>
       (s\<lparr>pc_armed := False\<rparr>)"

definition CaseConnectionFailed :: "sdk_setup \<Rightarrow> chip_error \<Rightarrow> PendingCommissioning \<Rightarrow> PendingCommissioning" where
  "CaseConnectionFailed E error s =
     fail_commissioning (Failure_commissioning E ''commissioning_failed'' error True) (s\<lparr>pc_armed := False\<rparr>)"

text \<open>\<open>Impl::Commission\<close> when \<open>ScheduleWork\<close> refuses \<open>StartCommissioning\<close>.\<close>

definition commissioning_unavailable :: "sdk_setup \<Rightarrow> chip_error \<Rightarrow> PendingCommissioning \<Rightarrow> PendingCommissioning" where
  "commissioning_unavailable E error s =
     fail_commissioning (Failure_commissioning E ''commissioning_unavailable'' error False) (s\<lparr>pc_started := True\<rparr>)"

datatype commissioning_event =
  CE_Wait bool bool | CE_Start u64 "chip_error option" "chip_error option" | CE_Unavailable chip_error
| CE_Stage CommissioningStage | CE_Failure "chip_error option" | CE_Complete u64 "chip_error option" "chip_error option"
| CE_Connected | CE_ConnectionFailed chip_error | CE_CancelWork bool | CE_Shutdown bool

text \<open>The waiting thread stops waiting when the response is published, or when its time is up before that; a host
  that stops makes it return whatever was published.\<close>

fun enabled_commissioning :: "commissioning_event \<Rightarrow> PendingCommissioning \<Rightarrow> bool" where
  "enabled_commissioning (CE_Wait waited scheduled) s \<longleftrightarrow> (waited \<longrightarrow> pc_published s)"
| "enabled_commissioning (CE_Start elapsed discovering pairing) s \<longleftrightarrow> \<not> pc_started s"
| "enabled_commissioning (CE_Unavailable error) s \<longleftrightarrow> \<not> pc_started s"
| "enabled_commissioning (CE_Stage stage) s \<longleftrightarrow> pc_pairing s"
| "enabled_commissioning CE_Connected s \<longleftrightarrow> pc_armed s"
| "enabled_commissioning (CE_ConnectionFailed error) s \<longleftrightarrow> pc_armed s"
| "enabled_commissioning _ s \<longleftrightarrow> True"

fun commissioning_step :: "sdk_setup \<Rightarrow> commissioning_event \<Rightarrow> PendingCommissioning \<Rightarrow> PendingCommissioning" where
  "commissioning_step E (CE_Wait waited scheduled) s = snd (Wait_commissioning E waited scheduled s)"
| "commissioning_step E (CE_Start elapsed discovering pairing) s = Start_commissioning E elapsed discovering pairing s"
| "commissioning_step E (CE_Unavailable error) s = commissioning_unavailable E error s"
| "commissioning_step E (CE_Stage stage) s = StageStarted stage s"
| "commissioning_step E (CE_Failure status) s = RecordFailure status s"
| "commissioning_step E (CE_Complete device_id error connecting) s = CommissioningComplete E device_id error connecting s"
| "commissioning_step E CE_Connected s = CaseConnected s"
| "commissioning_step E (CE_ConnectionFailed error) s = CaseConnectionFailed E error s"
| "commissioning_step E (CE_CancelWork stopped) s = AbortOnSdkThread_commissioning E stopped (s\<lparr>pc_cancel_work := False\<rparr>)"
| "commissioning_step E (CE_Shutdown stopped) s = AbortOnSdkThread_commissioning E stopped s"

inductive commissioning_run ::
    "sdk_setup \<Rightarrow> u64 \<Rightarrow> CommissioningRequest \<Rightarrow> commissioning_event list \<Rightarrow> PendingCommissioning \<Rightarrow> bool" for E fabric_id request where
  commissioning_begins: "commissioning_run E fabric_id request [] (mk_commissioning fabric_id request)"
| commissioning_goes_on: "commissioning_run E fabric_id request es s \<Longrightarrow> enabled_commissioning e s \<Longrightarrow>
     commissioning_run E fabric_id request (es @ [e]) (commissioning_step E e s)"

section \<open>Commissioning windows\<close>

record CommissioningWindowPasscodeParams =
  wp_node_id :: u64
  wp_timeout :: u16
  wp_iteration :: u32
  wp_discriminator :: u16
  wp_setup_pin :: "u32 option"
  wp_salt :: "u8 list option"
  wp_read_vid_pid :: bool

text \<open>\<open>pw_opener\<close>: the opener exists.  \<open>pw_starting\<close>: \<open>Start\<close> has found time left and not yet set \<open>submitted_\<close>;
  \<open>pw_opening\<close>: it has, and calls the opener.\<close>

record PendingWindow =
  pw_request :: CommissioningWindowRequest
  pw_response :: CommissioningWindowResponse
  pw_submitted :: bool
  pw_published :: bool
  pw_done :: bool
  pw_started :: bool
  pw_starting :: bool
  pw_opening :: bool
  pw_opener :: bool
  pw_armed :: bool
  pw_sent :: "(CommissioningWindowPasscodeParams \<times> chip_error option) list"
  pw_cancel_work :: bool
  pw_reaps :: nat

definition no_window :: CommissioningWindowResponse where
  "no_window =
     \<lparr>wr_ok = False, wr_error = None, wr_node_id = 0, wr_setup_pin = 0, wr_discriminator = 0, wr_expires_in_s = 0,
      wr_manual_code = [], wr_qr_code = []\<rparr>"

definition mk_window :: "CommissioningWindowRequest \<Rightarrow> PendingWindow" where
  "mk_window request =
     \<lparr>pw_request = request, pw_response = no_window, pw_submitted = False, pw_published = False, pw_done = False,
      pw_started = False, pw_starting = False, pw_opening = False, pw_opener = False, pw_armed = False, pw_sent = [], pw_cancel_work = False,
      pw_reaps = 0\<rparr>"

definition Remaining_window :: "u64 \<Rightarrow> PendingWindow \<Rightarrow> u32" where
  "Remaining_window elapsed s = remaining_timeout_ms (wq_timeout_ms (pw_request s)) elapsed"

definition Failure_window :: "sdk_setup \<Rightarrow> string \<Rightarrow> chip_error \<Rightarrow> bool \<Rightarrow> CommissioningWindowResponse" where
  "Failure_window E code error mutation =
     no_window\<lparr>wr_error := Some (commissioning_error code (Some (se_AsInteger E error)) mutation)\<rparr>"

definition Publish_window :: "CommissioningWindowResponse \<Rightarrow> PendingWindow \<Rightarrow> PendingWindow" where
  "Publish_window response s = (if pw_published s then s else s\<lparr>pw_response := response, pw_published := True\<rparr>)"

definition MarkDone_window :: "PendingWindow \<Rightarrow> PendingWindow" where
  "MarkDone_window s = (if pw_done s then s else s\<lparr>pw_done := True, pw_reaps := pw_reaps s + 1\<rparr>)"

definition finish_window :: "CommissioningWindowResponse \<Rightarrow> PendingWindow \<Rightarrow> PendingWindow" where
  "finish_window response s = MarkDone_window (Publish_window response s)"

definition ScheduleAbort_window :: "bool \<Rightarrow> PendingWindow \<Rightarrow> PendingWindow" where
  "ScheduleAbort_window scheduled s = (if scheduled then s\<lparr>pw_cancel_work := True\<rparr> else s)"

definition Wait_window :: "sdk_setup \<Rightarrow> bool \<Rightarrow> bool \<Rightarrow> PendingWindow \<Rightarrow> CommissioningWindowResponse \<times> PendingWindow" where
  "Wait_window E waited scheduled s =
     (if waited then (pw_response s, s)
      else let s1 = s\<lparr>pw_response := Failure_window E ''window_timeout'' CHIP_ERROR_TIMEOUT (pw_submitted s), pw_published := True\<rparr>
           in (pw_response s1, ScheduleAbort_window scheduled s1))"

definition window_params :: "CommissioningWindowRequest \<Rightarrow> CommissioningWindowPasscodeParams" where
  "window_params q =
     \<lparr>wp_node_id = wq_node_id q, wp_timeout = wq_timeout_s q, wp_iteration = wq_iteration_count q,
      wp_discriminator = wq_discriminator q, wp_setup_pin = None, wp_salt = None, wp_read_vid_pid = False\<rparr>"

text \<open>\<open>Start\<close> in three parts: up to the critical section that sets \<open>submitted_\<close>, that section, and the rest;
  \<open>opening\<close> is the answer of \<open>OpenCommissioningWindow\<close>.\<close>

definition Start_window :: "sdk_setup \<Rightarrow> u64 \<Rightarrow> PendingWindow \<Rightarrow> PendingWindow" where
  "Start_window E elapsed s =
     (let s = s\<lparr>pw_started := True\<rparr>
      in if Remaining_window elapsed s = 0
         then finish_window (Failure_window E ''window_timeout'' CHIP_ERROR_TIMEOUT False) s
         else s\<lparr>pw_opener := True, pw_starting := True\<rparr>)"

definition submit_window :: "PendingWindow \<Rightarrow> PendingWindow" where
  "submit_window s = s\<lparr>pw_starting := False, pw_opening := True, pw_submitted := True\<rparr>"

definition open_window :: "sdk_setup \<Rightarrow> chip_error option \<Rightarrow> PendingWindow \<Rightarrow> PendingWindow" where
  "open_window E opening s =
     (let s1 = s\<lparr>pw_opening := False, pw_sent := pw_sent s @ [(window_params (pw_request s), opening)]\<rparr>
      in case opening of
           Some error \<Rightarrow> finish_window (Failure_window E ''window_submit_failed'' error False) (s1\<lparr>pw_submitted := False\<rparr>)
         | None \<Rightarrow> s1\<lparr>pw_armed := True\<rparr>)"

definition AbortOnSdkThread_window :: "sdk_setup \<Rightarrow> PendingWindow \<Rightarrow> PendingWindow" where
  "AbortOnSdkThread_window E s =
     finish_window (Failure_window E ''controller_closed'' (se_cancelled E) (pw_submitted s)) (s\<lparr>pw_armed := False, pw_opener := False\<rparr>)"

definition opened_response ::
    "sdk_setup \<Rightarrow> CommissioningWindowRequest \<Rightarrow> u64 \<Rightarrow> chip_error option \<Rightarrow> SetupPayload \<Rightarrow> CommissioningWindowResponse" where
  "opened_response E q device_id status payload =
     (if status \<noteq> None \<or> device_id \<noteq> wq_node_id q \<or> IsShortDiscriminator (pl_discriminator payload)
      then Failure_window E ''window_failed'' (case status of Some e \<Rightarrow> e | None \<Rightarrow> CHIP_ERROR_INVALID_ARGUMENT) True
      else case (se_manual_code E payload, se_qr_code E payload) of
        (Inl e, _) \<Rightarrow> Failure_window E ''window_failed'' e True
      | (Inr _, Inl e) \<Rightarrow> Failure_window E ''window_failed'' e True
      | (Inr manual_code, Inr qr_code) \<Rightarrow>
          if \<not> valid_setup_pin (pl_setUpPINCode payload) \<or> pl_discriminator payload \<noteq> LongDiscriminator (wq_discriminator q)
          then Failure_window E ''window_failed'' CHIP_ERROR_INVALID_ARGUMENT True
          else \<lparr>wr_ok = True, wr_error = None, wr_node_id = device_id, wr_setup_pin = pl_setUpPINCode payload,
                wr_discriminator = wq_discriminator q, wr_expires_in_s = wq_timeout_s q, wr_manual_code = manual_code,
                wr_qr_code = qr_code\<rparr>)"

definition Opened :: "sdk_setup \<Rightarrow> u64 \<Rightarrow> chip_error option \<Rightarrow> SetupPayload \<Rightarrow> PendingWindow \<Rightarrow> PendingWindow" where
  "Opened E device_id status payload s =
     finish_window (opened_response E (pw_request s) device_id status payload) (s\<lparr>pw_armed := False\<rparr>)"

text \<open>\<open>Impl::OpenWindow\<close> when \<open>ScheduleWork\<close> refuses \<open>StartWindow\<close>.\<close>

definition window_unavailable :: "sdk_setup \<Rightarrow> chip_error \<Rightarrow> PendingWindow \<Rightarrow> PendingWindow" where
  "window_unavailable E error s = finish_window (Failure_window E ''window_unavailable'' error False) (s\<lparr>pw_started := True\<rparr>)"

datatype window_event =
  WE_Wait bool bool | WE_Start u64 | WE_Submit | WE_Open "chip_error option" | WE_Unavailable chip_error
| WE_Opened u64 "chip_error option" SetupPayload | WE_CancelWork | WE_Shutdown

text \<open>\<open>Start\<close> runs on the SDK thread: nothing else of that thread comes between its parts.\<close>

fun enabled_window :: "window_event \<Rightarrow> PendingWindow \<Rightarrow> bool" where
  "enabled_window (WE_Wait waited scheduled) s \<longleftrightarrow> (waited \<longrightarrow> pw_published s)"
| "enabled_window (WE_Start elapsed) s \<longleftrightarrow> \<not> pw_started s"
| "enabled_window WE_Submit s \<longleftrightarrow> pw_starting s"
| "enabled_window (WE_Open opening) s \<longleftrightarrow> pw_opening s"
| "enabled_window (WE_Unavailable error) s \<longleftrightarrow> \<not> pw_started s"
| "enabled_window (WE_Opened device_id status payload) s \<longleftrightarrow> pw_armed s \<and> \<not> pw_starting s \<and> \<not> pw_opening s"
| "enabled_window WE_CancelWork s \<longleftrightarrow> \<not> pw_starting s \<and> \<not> pw_opening s"
| "enabled_window WE_Shutdown s \<longleftrightarrow> \<not> pw_starting s \<and> \<not> pw_opening s"

fun window_step :: "sdk_setup \<Rightarrow> window_event \<Rightarrow> PendingWindow \<Rightarrow> PendingWindow" where
  "window_step E (WE_Wait waited scheduled) s = snd (Wait_window E waited scheduled s)"
| "window_step E (WE_Start elapsed) s = Start_window E elapsed s"
| "window_step E WE_Submit s = submit_window s"
| "window_step E (WE_Open opening) s = open_window E opening s"
| "window_step E (WE_Unavailable error) s = window_unavailable E error s"
| "window_step E (WE_Opened device_id status payload) s = Opened E device_id status payload s"
| "window_step E WE_CancelWork s = AbortOnSdkThread_window E (s\<lparr>pw_cancel_work := False\<rparr>)"
| "window_step E WE_Shutdown s = AbortOnSdkThread_window E s"

inductive window_run :: "sdk_setup \<Rightarrow> CommissioningWindowRequest \<Rightarrow> window_event list \<Rightarrow> PendingWindow \<Rightarrow> bool" for E request where
  window_begins: "window_run E request [] (mk_window request)"
| window_goes_on: "window_run E request es s \<Longrightarrow> enabled_window e s \<Longrightarrow> window_run E request (es @ [e]) (window_step E e s)"


section \<open>Publication happens once\<close>

text \<open>What the two operations share: a response that was published stays, whatever happens, unless the waiting
  thread gives up; an operation that is done stays done and has queued its reaper once.\<close>

locale publication =
  fixes step :: "'e \<Rightarrow> 's \<Rightarrow> 's" and allows :: "'e \<Rightarrow> 's \<Rightarrow> bool" and gives_up :: "'e \<Rightarrow> bool"
    and published :: "'s \<Rightarrow> bool" and response :: "'s \<Rightarrow> 'r" and finished :: "'s \<Rightarrow> bool" and reaps :: "'s \<Rightarrow> nat"
  assumes published_keeps: "allows e s \<Longrightarrow> published s \<Longrightarrow> published (step e s) \<and> (\<not> gives_up e \<longrightarrow> response (step e s) = response s)"
    and finished_keeps: "allows e s \<Longrightarrow> finished s \<Longrightarrow> finished (step e s) \<and> reaps (step e s) = reaps s"
    and finishing_reaps: "allows e s \<Longrightarrow> \<not> finished s \<Longrightarrow> reaps (step e s) = (if finished (step e s) then Suc (reaps s) else reaps s)"
begin

fun goes :: "'e list \<Rightarrow> 's \<Rightarrow> bool" where
  "goes [] s = True"
| "goes (e # es) s = (allows e s \<and> goes es (step e s))"

lemma response_stays:
  "goes es s \<Longrightarrow> published s \<Longrightarrow> list_all (\<lambda>e. \<not> gives_up e) es \<Longrightarrow>
   published (fold step es s) \<and> response (fold step es s) = response s"
  by (induction es arbitrary: s) (use published_keeps in force)+

lemma reaped_once:
  "goes es s \<Longrightarrow> reaps s = (if finished s then 1 else 0) \<Longrightarrow> reaps (fold step es s) = (if finished (fold step es s) then 1 else 0)"
proof (induction es arbitrary: s)
  case (Cons e es)
  then have "reaps (step e s) = (if finished (step e s) then 1 else 0)"
    using finished_keeps [of e s] finishing_reaps [of e s] by (cases "finished s") simp_all
  then show ?case using Cons by simp
qed simp

end

lemmas commissioning_defs = Wait_commissioning_def ScheduleAbort_commissioning_def Start_commissioning_def commissioning_unavailable_def
  StageStarted_def RecordFailure_def CommissioningComplete_def CaseConnected_def CaseConnectionFailed_def
  AbortOnSdkThread_commissioning_def Let_def

lemma finish_commissioning [simp]:
  "pc_published (fail_commissioning r s)" "pc_response (fail_commissioning r s) = (if pc_published s then pc_response s else r)"
  "pc_done (fail_commissioning r s)" "pc_reaps (fail_commissioning r s) = (if pc_done s then pc_reaps s else Suc (pc_reaps s))"
  "pc_mutation (fail_commissioning r s) = pc_mutation s" "pc_pairing (fail_commissioning r s) = pc_pairing s"
  "pc_armed (fail_commissioning r s) = pc_armed s" "pc_started (fail_commissioning r s) = pc_started s"
  "pc_request (fail_commissioning r s) = pc_request s" "pc_fabric_id (fail_commissioning r s) = pc_fabric_id s"
  "pc_paired (fail_commissioning r s) = pc_paired s" "pc_submitted (fail_commissioning r s) = pc_submitted s"
  by (simp_all add: fail_commissioning_def MarkDone_commissioning_def Publish_commissioning_def)

fun gives_up_commissioning :: "commissioning_event \<Rightarrow> bool" where
  "gives_up_commissioning (CE_Wait waited scheduled) = (\<not> waited)"
| "gives_up_commissioning _ = False"

interpretation pc: publication "commissioning_step E" enabled_commissioning gives_up_commissioning pc_published pc_response pc_done pc_reaps
proof
  fix e s
  assume "enabled_commissioning e s"
  show "pc_published s \<Longrightarrow> pc_published (commissioning_step E e s) \<and>
      (\<not> gives_up_commissioning e \<longrightarrow> pc_response (commissioning_step E e s) = pc_response s)"
    by (cases e) (simp_all add: commissioning_defs split: sum.split option.split)
  show "pc_done s \<Longrightarrow> pc_done (commissioning_step E e s) \<and> pc_reaps (commissioning_step E e s) = pc_reaps s"
    by (cases e) (simp_all add: commissioning_defs split: sum.split option.split)
  show "\<not> pc_done s \<Longrightarrow>
      pc_reaps (commissioning_step E e s) = (if pc_done (commissioning_step E e s) then Suc (pc_reaps s) else pc_reaps s)"
    by (cases e) (simp_all add: commissioning_defs split: sum.split option.split)
qed

lemmas window_defs = Wait_window_def ScheduleAbort_window_def Start_window_def submit_window_def open_window_def
  window_unavailable_def Opened_def AbortOnSdkThread_window_def Let_def

lemma finish_window_sel [simp]:
  "pw_published (finish_window r s)" "pw_response (finish_window r s) = (if pw_published s then pw_response s else r)"
  "pw_done (finish_window r s)" "pw_reaps (finish_window r s) = (if pw_done s then pw_reaps s else Suc (pw_reaps s))"
  "pw_submitted (finish_window r s) = pw_submitted s" "pw_starting (finish_window r s) = pw_starting s"
  "pw_opening (finish_window r s) = pw_opening s" "pw_opener (finish_window r s) = pw_opener s"
  "pw_armed (finish_window r s) = pw_armed s" "pw_started (finish_window r s) = pw_started s"
  "pw_request (finish_window r s) = pw_request s" "pw_sent (finish_window r s) = pw_sent s"
  by (simp_all add: finish_window_def MarkDone_window_def Publish_window_def)

fun gives_up_window :: "window_event \<Rightarrow> bool" where
  "gives_up_window (WE_Wait waited scheduled) = (\<not> waited)"
| "gives_up_window _ = False"

interpretation pw: publication "window_step E" enabled_window gives_up_window pw_published pw_response pw_done pw_reaps
proof
  fix e s
  assume "enabled_window e s"
  show "pw_published s \<Longrightarrow> pw_published (window_step E e s) \<and>
      (\<not> gives_up_window e \<longrightarrow> pw_response (window_step E e s) = pw_response s)"
    by (cases e) (simp_all add: window_defs split: option.split)
  show "pw_done s \<Longrightarrow> pw_done (window_step E e s) \<and> pw_reaps (window_step E e s) = pw_reaps s"
    by (cases e) (simp_all add: window_defs split: option.split)
  show "\<not> pw_done s \<Longrightarrow> pw_reaps (window_step E e s) = (if pw_done (window_step E e s) then Suc (pw_reaps s) else pw_reaps s)"
    by (cases e) (simp_all add: window_defs split: option.split)
qed


section \<open>Invariants of a commissioning\<close>

fun mutates :: "commissioning_event \<Rightarrow> bool" where
  "mutates (CE_Stage stage) = (stage = kSendTrustedRootCert \<or> stage = kSendNOC)"
| "mutates _ = False"

definition completion :: "CommissioningRequest \<Rightarrow> commissioning_event" where
  "completion request = CE_Complete (cq_node_id request) None None"

definition commissioning_inv :: "sdk_setup \<Rightarrow> u64 \<Rightarrow> CommissioningRequest \<Rightarrow> commissioning_event list \<Rightarrow> PendingCommissioning \<Rightarrow> bool" where
  "commissioning_inv E fabric_id request es s \<longleftrightarrow>
     pc_request s = request \<and> pc_fabric_id s = fabric_id \<and>
     (\<not> pc_started s \<longrightarrow> \<not> pc_pairing s \<and> \<not> pc_mutation s \<and> pc_paired s = []) \<and>
     (pc_started s \<longrightarrow> pc_pairing s \<or> pc_armed s \<or> pc_done s) \<and>
     pc_mutation s = list_ex mutates es \<and>
     (pc_armed s \<longrightarrow> completion request \<in> set es) \<and>
     (cr_ok (pc_response s) \<longrightarrow> subseq [completion request, CE_Connected] es) \<and>
     (pc_published s \<longrightarrow> fabric_id \<noteq> 0 \<longrightarrow> valid_commissioning_response request (pc_response s)) \<and>
     length (pc_paired s) \<le> 1 \<and>
     (\<forall>(node, code)\<in>set (pc_paired s). node = cq_node_id request \<and> se_qr_code E (setup_payload request) = Inr code)"

lemma subseq_completion: "completion request \<in> set es \<Longrightarrow> subseq [completion request, e] (es @ [e])"
  using list_emb_append_mono [of "(=)" "[completion request]" es "[e]" "[e]"] by (simp add: subseq_singleton_left)

lemma subseq_snoc: "subseq xs es \<Longrightarrow> subseq xs (es @ [e])"
  by (rule list_emb_prefix)

lemma failure_valid [simp]:
  "code \<noteq> [] \<Longrightarrow> length code \<le> 64 \<Longrightarrow> valid_commissioning_response request (Failure_commissioning E code error mutation)"
  "\<not> cr_ok (Failure_commissioning E code error mutation)"
  "cr_error (Failure_commissioning E code error mutation) = Some (commissioning_error code (Some (se_AsInteger E error)) mutation)"
  by (simp_all add: Failure_commissioning_def valid_commissioning_response_def no_commissioning_def ValidFailure_def commissioning_error_def)

lemma commissioning_inv_step:
  assumes "commissioning_inv E fabric_id request es s" "enabled_commissioning e s"
  shows "commissioning_inv E fabric_id request (es @ [e]) (commissioning_step E e s)"
proof (cases e)
  case CE_Connected
  then have "completion request \<in> set es" using assms by (simp add: commissioning_inv_def)
  from subseq_completion [OF this, of CE_Connected] assms CE_Connected show ?thesis
    by (auto simp: commissioning_inv_def commissioning_defs subseq_snoc valid_commissioning_response_def word_greater_zero_iff)
qed (use assms in \<open>auto simp: commissioning_inv_def commissioning_defs subseq_snoc completion_def split: sum.split option.split\<close>)

lemma commissioning_run_inv: "commissioning_run E fabric_id request es s \<Longrightarrow> commissioning_inv E fabric_id request es s"
proof (induction rule: commissioning_run.induct)
  case commissioning_begins
  then show ?case by (simp add: commissioning_inv_def mk_commissioning_def no_commissioning_def)
qed (simp add: commissioning_inv_step)


section \<open>Invariants of a commissioning window\<close>

text \<open>What the SDK documents of its two renderings: a manual code has 10 to 21 digits, a QR code starts with
  \<^verbatim>\<open>MT:\<close> and is short.\<close>

definition codes_ok :: "sdk_setup \<Rightarrow> bool" where
  "codes_ok E \<longleftrightarrow>
     (\<forall>payload code. se_manual_code E payload = Inr code \<longrightarrow> 10 \<le> length code \<and> length code \<le> 21) \<and>
     (\<forall>payload code. se_qr_code E payload = Inr code \<longrightarrow> 4 \<le> length code \<and> length code \<le> 512 \<and> take 3 code = ''MT:'')"

definition window_opened :: "CommissioningWindowRequest \<Rightarrow> window_event list \<Rightarrow> bool" where
  "window_opened request es \<longleftrightarrow> (\<exists>payload. WE_Opened (wq_node_id request) None payload \<in> set es)"

definition window_inv :: "sdk_setup \<Rightarrow> CommissioningWindowRequest \<Rightarrow> window_event list \<Rightarrow> PendingWindow \<Rightarrow> bool" where
  "window_inv E request es s \<longleftrightarrow>
     pw_request s = request \<and>
     (\<not> pw_started s \<longrightarrow> \<not> pw_starting s \<and> \<not> pw_opening s \<and> \<not> pw_submitted s) \<and>
     (\<not> pw_started s \<or> pw_starting s \<or> pw_opening s \<longrightarrow> pw_sent s = []) \<and>
     (pw_starting s \<longrightarrow> \<not> pw_opening s) \<and> (pw_opening s \<longrightarrow> pw_submitted s) \<and>
     (pw_started s \<longrightarrow> pw_starting s \<or> pw_opening s \<or> pw_armed s \<or> pw_done s) \<and>
     (pw_sent s = [] \<or> (\<exists>opening. pw_sent s = [(window_params request, opening)] \<and> (opening = None \<longrightarrow> pw_submitted s))) \<and>
     (pw_armed s \<longrightarrow> pw_sent s = [(window_params request, None)]) \<and>
     (wr_ok (pw_response s) \<longrightarrow> window_opened request es \<and> pw_sent s = [(window_params request, None)]) \<and>
     (pw_published s \<longrightarrow> codes_ok E \<longrightarrow> valid_commissioning_window_response request (pw_response s))"

lemma window_failure [simp]:
  "code \<noteq> [] \<Longrightarrow> length code \<le> 64 \<Longrightarrow> valid_commissioning_window_response request (Failure_window E code error mutation)"
  "\<not> wr_ok (Failure_window E code error mutation)"
  "wr_error (Failure_window E code error mutation) = Some (commissioning_error code (Some (se_AsInteger E error)) mutation)"
  by (simp_all add: Failure_window_def valid_commissioning_window_response_def no_window_def ValidFailure_def commissioning_error_def)

lemma success_valid:
  assumes "codes_ok E" "se_manual_code E payload = Inr manual" "se_qr_code E payload = Inr qr" "valid_setup_pin pin"
  shows "valid_commissioning_window_response request
     \<lparr>wr_ok = True, wr_error = None, wr_node_id = wq_node_id request, wr_setup_pin = pin, wr_discriminator = wq_discriminator request,
      wr_expires_in_s = wq_timeout_s request, wr_manual_code = manual, wr_qr_code = qr\<rparr>"
  using assms by (auto simp: valid_commissioning_window_response_def codes_ok_def)

lemma opened_valid: "codes_ok E \<Longrightarrow> valid_commissioning_window_response request (opened_response E request device_id status payload)"
  by (auto simp: opened_response_def success_valid split: sum.split option.split)

lemma opened_ok: "wr_ok (opened_response E request device_id status payload) \<Longrightarrow> status = None \<and> device_id = wq_node_id request"
  by (auto simp: opened_response_def split: if_splits)

lemma window_opened_snoc [simp]: "window_opened request es \<Longrightarrow> window_opened request (es @ [e])"
  by (auto simp: window_opened_def)

lemma window_inv_step:
  assumes "window_inv E request es s" "enabled_window e s"
  shows "window_inv E request (es @ [e]) (window_step E e s)"
proof (cases e)
  case (WE_Opened device_id status payload)
  have "wr_ok (opened_response E request device_id status payload) \<Longrightarrow> window_opened request (es @ [e])"
    using opened_ok WE_Opened by (force simp: window_opened_def)
  with assms WE_Opened opened_valid show ?thesis by (auto simp: window_inv_def window_defs)
qed (use assms in \<open>auto simp: window_inv_def window_defs split: option.split\<close>)

lemma window_run_inv: "window_run E request es s \<Longrightarrow> window_inv E request es s"
proof (induction rule: window_run.induct)
  case window_begins
  then show ?case by (simp add: window_inv_def mk_window_def no_window_def)
qed (simp add: window_inv_step)

section \<open>Effects\<close>

lemma commissioning_effect:
  assumes "commissioning_inv E fabric_id request es s" "enabled_commissioning e s" "\<not> pc_published s"
    "cr_error (pc_response (commissioning_step E e s)) = Some failed" "pc_published (commissioning_step E e s)" "ce_effect failed = Effect_None"
  shows "\<not> list_ex mutates (es @ [e])"
  using assms
  by (cases e) (auto simp: commissioning_inv_def commissioning_defs commissioning_error_def split: if_splits sum.splits option.splits)

lemma window_effect:
  assumes "window_inv E request es s" "enabled_window e s" "\<not> pw_published s"
    "wr_error (pw_response (window_step E e s)) = Some failed" "pw_published (window_step E e s)" "ce_effect failed = Effect_None"
  shows "(window_params request, None) \<notin> set (pw_sent (window_step E e s))"
proof -
  have sent: "(window_params request, None) \<in> set (pw_sent s) \<Longrightarrow> pw_submitted s" "pw_opening s \<Longrightarrow> pw_sent s = []"
    "\<not> pw_started s \<Longrightarrow> pw_sent s = []"
    using assms(1) by (auto simp: window_inv_def)
  show ?thesis
  proof (cases e)
    case (WE_Opened device_id status payload)
    have "wr_error (opened_response E (pw_request s) device_id status payload) = Some failed \<Longrightarrow> ce_effect failed = Effect_Unknown"
      by (auto simp: opened_response_def commissioning_error_def split: if_splits sum.splits)
    then have "ce_effect failed = Effect_Unknown" using assms(3,4) WE_Opened by (simp add: Opened_def)
    then show ?thesis using assms(6) by simp
  qed (use assms(2-) sent in \<open>auto simp: window_defs commissioning_error_def split: if_splits option.splits\<close>)
qed

section \<open>Example runs\<close>

definition example_setup :: sdk_setup where
  "example_setup =
     \<lparr>se_AsInteger = (\<lambda>e. case e of CHIP_ERROR_TIMEOUT \<Rightarrow> 50 | CHIP_ERROR_INVALID_ARGUMENT \<Rightarrow> 47 | _ \<Rightarrow> 1),
      se_cancelled = CHIP_ERROR_OTHER 116, se_qr_code = (\<lambda>_. Inr ''MT:Y.K90''), se_manual_code = (\<lambda>_. Inr ''34970112332'')\<rparr>"

definition example_device :: CommissioningRequest where
  "example_device = \<lparr>cq_node_id = 7, cq_setup_pin = 20202021, cq_discriminator = 3840, cq_timeout_ms = 30000\<rparr>"

definition example_window :: CommissioningWindowRequest where
  "example_window =
     \<lparr>wq_node_id = 7, wq_timeout_s = 180, wq_iteration_count = 1000, wq_discriminator = 3840, wq_timeout_ms = 30000\<rparr>"

definition example_payload :: SetupPayload where
  "example_payload =
     \<lparr>pl_version = 0, pl_vendorID = 0, pl_productID = 0, pl_commissioningFlow = kStandard, pl_rendezvousInformation = Some kOnNetwork,
      pl_discriminator = LongDiscriminator 3840, pl_setUpPINCode = 20202021\<rparr>"

fun allowed_commissioning :: "sdk_setup \<Rightarrow> commissioning_event list \<Rightarrow> PendingCommissioning \<Rightarrow> bool" where
  "allowed_commissioning E [] s = True"
| "allowed_commissioning E (e # es) s = (enabled_commissioning e s \<and> allowed_commissioning E es (commissioning_step E e s))"

fun allowed_window :: "sdk_setup \<Rightarrow> window_event list \<Rightarrow> PendingWindow \<Rightarrow> bool" where
  "allowed_window E [] s = True"
| "allowed_window E (e # es) s = (enabled_window e s \<and> allowed_window E es (window_step E e s))"

lemma allowed_commissioning_run:
  "commissioning_run E fabric_id request es s \<Longrightarrow> allowed_commissioning E rest s \<Longrightarrow>
   commissioning_run E fabric_id request (es @ rest) (fold (commissioning_step E) rest s)"
proof (induction rest arbitrary: es s)
  case (Cons e rest)
  then show ?case using Cons.IH [of "es @ [e]"] commissioning_goes_on by force
qed simp

lemma allowed_window_run:
  "window_run E q es s \<Longrightarrow> allowed_window E rest s \<Longrightarrow> window_run E q (es @ rest) (fold (window_step E) rest s)"
proof (induction rest arbitrary: es s)
  case (Cons e rest)
  then show ?case using Cons.IH [of "es @ [e]"] window_goes_on by force
qed simp

definition example_commissioned :: "commissioning_event list \<Rightarrow> PendingCommissioning" where
  "example_commissioned es = fold (commissioning_step example_setup) es (mk_commissioning 1 example_device)"

definition example_windowed :: "window_event list \<Rightarrow> PendingWindow" where
  "example_windowed es = fold (window_step example_setup) es (mk_window example_window)"

lemma example_operations:
  "allowed_commissioning example_setup es (mk_commissioning 1 example_device) \<Longrightarrow>
   commissioning_run example_setup 1 example_device es (example_commissioned es)"
  "allowed_window example_setup ws (mk_window example_window) \<Longrightarrow> window_run example_setup example_window ws (example_windowed ws)"
  using allowed_commissioning_run [OF commissioning_begins, of example_setup es 1 example_device]
    allowed_window_run [OF window_begins, of example_setup ws example_window]
  by (simp_all add: example_commissioned_def example_windowed_def)

definition commissioning_events :: "commissioning_event list" where
  "commissioning_events =
     [CE_Start 5 None None, CE_Stage (kOtherStage 3), CE_Stage kSendNOC, CE_Complete 7 None None, CE_Connected, CE_Wait True True]"

definition window_events :: "window_event list" where
  "window_events = [WE_Start 5, WE_Submit, WE_Open None, WE_Opened 7 None example_payload, WE_Wait True True]"

lemma example_codes: "codes_ok example_setup"
  by (simp add: codes_ok_def example_setup_def)

section \<open>Properties\<close>

text \<open>A published response stays and its reaper is queued exactly once, whatever comes after the publication, unless
  the waiting thread gives up.\<close>

lemma operations_publish_once:
  "pc.goes E es s \<Longrightarrow> pc_published s \<Longrightarrow> list_all (\<lambda>e. \<not> gives_up_commissioning e) es \<Longrightarrow>
   pc_response (fold (commissioning_step E) es s) = pc_response s"
  "pw.goes E ws w \<Longrightarrow> pw_published w \<Longrightarrow> list_all (\<lambda>e. \<not> gives_up_window e) ws \<Longrightarrow>
   pw_response (fold (window_step E) ws w) = pw_response w"
  "pc.goes E es (mk_commissioning fabric_id request) \<Longrightarrow>
   pc_reaps (fold (commissioning_step E) es (mk_commissioning fabric_id request)) =
     (if pc_done (fold (commissioning_step E) es (mk_commissioning fabric_id request)) then 1 else 0)"
  "pw.goes E ws (mk_window q) \<Longrightarrow>
   pw_reaps (fold (window_step E) ws (mk_window q)) = (if pw_done (fold (window_step E) ws (mk_window q)) then 1 else 0)"
  using pc.response_stays pw.response_stays
    pc.reaped_once [of E es "mk_commissioning fabric_id request"] pw.reaped_once [of E ws "mk_window q"]
  by (simp_all add: mk_commissioning_def mk_window_def)

text \<open>
  Property C24. On every run the published response of a commissioning is one that the session accepts; it reports success only
  after the commissioner completed for the requested node without an error and, later, a CASE session was established;
  the device is paired at most once, with the code of the requested discriminator and passcode; and an operation that
  has begun is pairing, waits for the session or is done.
\<close>

theorem commissioning_outcome:
  assumes "commissioning_run E fabric_id request es s" "fabric_id \<noteq> 0"
  shows "(pc_published s \<longrightarrow> valid_commissioning_response request (pc_response s)) \<and>
    (cr_ok (pc_response s) \<longrightarrow> subseq [CE_Complete (cq_node_id request) None None, CE_Connected] es) \<and>
    length (pc_paired s) \<le> 1 \<and>
    (\<forall>(node, code)\<in>set (pc_paired s). node = cq_node_id request \<and> se_qr_code E (setup_payload request) = Inr code) \<and>
    (pc_started s \<longrightarrow> pc_pairing s \<or> pc_armed s \<or> pc_done s)"
  using commissioning_run_inv [OF assms(1)] assms(2) by (auto simp: commissioning_inv_def completion_def)

theorem commissioning_outcome_witness:
  "commissioning_run example_setup 1 example_device commissioning_events (example_commissioned commissioning_events) \<and>
   cr_ok (pc_response (example_commissioned commissioning_events)) \<and>
   valid_commissioning_response example_device (pc_response (example_commissioned commissioning_events))"
proof -
  have run: "commissioning_run example_setup 1 example_device commissioning_events (example_commissioned commissioning_events)"
    by (rule example_operations(1)) code_simp
  have "cr_ok (pc_response (example_commissioned commissioning_events))" "pc_published (example_commissioned commissioning_events)"
    by code_simp+
  then show ?thesis using run commissioning_outcome [OF run] by simp
qed

text \<open>
  Property C25. When a commissioning publishes a failure that says it had no effect, then up to that moment no stage that changes
  the fabric of the device has begun; when a window publishes one, no call that opens the window has been accepted.
\<close>

theorem published_effect:
  "(commissioning_run E fabric_id request es s \<and> enabled_commissioning e s \<and> \<not> pc_published s \<and>
      pc_published (commissioning_step E e s) \<and> cr_error (pc_response (commissioning_step E e s)) = Some failed \<and>
      ce_effect failed = Effect_None \<longrightarrow>
      CE_Stage kSendTrustedRootCert \<notin> set (es @ [e]) \<and> CE_Stage kSendNOC \<notin> set (es @ [e])) \<and>
    (window_run E q ws w \<and> enabled_window e' w \<and> \<not> pw_published w \<and>
      pw_published (window_step E e' w) \<and> wr_error (pw_response (window_step E e' w)) = Some failed \<and>
      ce_effect failed = Effect_None \<longrightarrow>
      (window_params q, None) \<notin> set (pw_sent (window_step E e' w)))"
proof (intro conjI impI)
  assume "commissioning_run E fabric_id request es s \<and> enabled_commissioning e s \<and> \<not> pc_published s \<and>
      pc_published (commissioning_step E e s) \<and> cr_error (pc_response (commissioning_step E e s)) = Some failed \<and>
      ce_effect failed = Effect_None"
  then have "\<not> list_ex mutates (es @ [e])" using commissioning_effect commissioning_run_inv by blast
  then have "\<forall>x\<in>set (es @ [e]). \<not> mutates x" by (simp only: list_ex_iff) blast
  then show "CE_Stage kSendTrustedRootCert \<notin> set (es @ [e])" "CE_Stage kSendNOC \<notin> set (es @ [e])" by force+
next
  assume "window_run E q ws w \<and> enabled_window e' w \<and> \<not> pw_published w \<and>
      pw_published (window_step E e' w) \<and> wr_error (pw_response (window_step E e' w)) = Some failed \<and>
      ce_effect failed = Effect_None"
  then show "(window_params q, None) \<notin> set (pw_sent (window_step E e' w))" using window_effect window_run_inv by blast
qed

theorem published_effect_witness:
  "commissioning_run example_setup 1 example_device [CE_Start 5 None None] (example_commissioned [CE_Start 5 None None]) \<and>
   cr_error (pc_response (commissioning_step example_setup (CE_Wait False True) (example_commissioned [CE_Start 5 None None]))) =
     Some (commissioning_error ''commissioning_timeout'' (Some 50) False) \<and>
   CE_Stage kSendNOC \<notin> set ([CE_Start 5 None None] @ [CE_Wait False True])"
proof -
  have run: "commissioning_run example_setup 1 example_device [CE_Start 5 None None] (example_commissioned [CE_Start 5 None None])"
    by (rule example_operations(1)) code_simp
  have "cr_error (pc_response (commissioning_step example_setup (CE_Wait False True) (example_commissioned [CE_Start 5 None None]))) =
     Some (commissioning_error ''commissioning_timeout'' (Some 50) False)"
    "enabled_commissioning (CE_Wait False True) (example_commissioned [CE_Start 5 None None])"
    "\<not> pc_published (example_commissioned [CE_Start 5 None None])"
    "pc_published (commissioning_step example_setup (CE_Wait False True) (example_commissioned [CE_Start 5 None None]))"
    "ce_effect (commissioning_error ''commissioning_timeout'' (Some 50) False) = Effect_None" by code_simp+
  then show ?thesis using run published_effect by blast
qed

text \<open>
  Property C26. On every run the published response of a commissioning window is one that the session accepts; it reports success
  only after the opener was asked, with the parameters of the request and no passcode or salt of the caller's, and its callback
  came for the requested node without an error; the opener is asked at most once; and an operation that has begun is
  starting, waits for the callback or is done.
\<close>

theorem window_outcome:
  assumes "window_run E request es s" "codes_ok E"
  shows "(pw_published s \<longrightarrow> valid_commissioning_window_response request (pw_response s)) \<and>
    (wr_ok (pw_response s) \<longrightarrow> (\<exists>payload. WE_Opened (wq_node_id request) None payload \<in> set es) \<and>
       pw_sent s = [(window_params request, None)]) \<and>
    length (pw_sent s) \<le> 1 \<and> (pw_started s \<longrightarrow> pw_starting s \<or> pw_opening s \<or> pw_armed s \<or> pw_done s)"
  using window_run_inv [OF assms(1)] assms(2) by (auto simp: window_inv_def window_opened_def)

theorem window_outcome_witness:
  "window_run example_setup example_window window_events (example_windowed window_events) \<and>
   wr_ok (pw_response (example_windowed window_events)) \<and>
   valid_commissioning_window_response example_window (pw_response (example_windowed window_events))"
proof -
  have run: "window_run example_setup example_window window_events (example_windowed window_events)"
    by (rule example_operations(2)) code_simp
  have "wr_ok (pw_response (example_windowed window_events))" "pw_published (example_windowed window_events)" by code_simp+
  then show ?thesis using run window_outcome [OF run example_codes] by simp
qed

text \<open>
  Property C27. The effect in a response can be outdated as soon as it is returned: \<open>Wait\<close> gives up, answers that there was no
  effect and queues the cancellation, and before the SDK thread runs it the commissioning sends the operational
  certificate; and \<open>PendingWindow::Start\<close>, past its test of the remaining time, opens the window.
\<close>

theorem timeout_effect_outdated:
  "(\<exists>es s. commissioning_run example_setup 1 example_device es s \<and> pc_published s \<and> CE_Stage kSendNOC \<in> set es \<and>
      map_option ce_effect (cr_error (pc_response s)) = Some Effect_None) \<and>
   (\<exists>es s. window_run example_setup example_window es s \<and> pw_published s \<and> pw_sent s = [(window_params example_window, None)] \<and>
      map_option ce_effect (wr_error (pw_response s)) = Some Effect_None)"
proof
  define es where "es = [CE_Start 5 None None, CE_Wait False True, CE_Stage kSendNOC, CE_CancelWork True]"
  have run: "commissioning_run example_setup 1 example_device es (example_commissioned es)"
    by (rule example_operations(1), unfold es_def) code_simp
  have "pc_published (example_commissioned es)" "map_option ce_effect (cr_error (pc_response (example_commissioned es))) = Some Effect_None"
    unfolding es_def by code_simp+
  moreover have "CE_Stage kSendNOC \<in> set es" by (simp add: es_def)
  ultimately show "\<exists>es s. commissioning_run example_setup 1 example_device es s \<and> pc_published s \<and> CE_Stage kSendNOC \<in> set es \<and>
      map_option ce_effect (cr_error (pc_response s)) = Some Effect_None"
    using run by blast
next
  define es where "es = [WE_Start 5, WE_Wait False True, WE_Submit, WE_Open None, WE_CancelWork]"
  have run: "window_run example_setup example_window es (example_windowed es)"
    by (rule example_operations(2), unfold es_def) code_simp
  have "pw_published (example_windowed es)" "map_option ce_effect (wr_error (pw_response (example_windowed es))) = Some Effect_None"
    "pw_sent (example_windowed es) = [(window_params example_window, None)]"
    unfolding es_def by code_simp+
  then show "\<exists>es s. window_run example_setup example_window es s \<and> pw_published s \<and> pw_sent s = [(window_params example_window, None)] \<and>
      map_option ce_effect (wr_error (pw_response s)) = Some Effect_None"
    using run by blast
qed

end
