(* ===== verification/ControllerTable.thy ===== *)
theory ControllerTable
  imports ControllerCommissioning
begin

text \<open>
  Tables of operations and the work queue of the SDK thread, as \<open>SdkControllerBackend::Impl\<close> of
  \<^verbatim>\<open>native/src/controller.cpp\<close> uses them: an operation is put into its table when it is admitted, work that is queued for it
  carries a plain pointer to it, and only its reaper takes it out again.

  The locale states what a class of operations owes to such a table, and proves once that no queued pointer dangles; the four
  classes of the controller are interpretations.
\<close>

section \<open>Work\<close>

datatype kind = K_Interaction | K_Commissioning | K_Window | K_Subscription

datatype phase = Ph_Start | Ph_Cancel | Ph_Reap

datatype work = Work kind phase nat | Shutdown_work

text \<open>The cancellation of a commissioning and of a window holds a share of its operation, not a plain pointer.\<close>

fun points :: "kind \<Rightarrow> work \<Rightarrow> (phase \<times> nat) option" where
  "points k (Work k' ph n) =
     (if k' = k \<and> \<not> (ph = Ph_Cancel \<and> (k = K_Commissioning \<or> k = K_Window)) then Some (ph, n) else None)"
| "points k Shutdown_work = None"

definition pointers :: "kind \<Rightarrow> work list \<Rightarrow> (phase \<times> nat) list" where
  "pointers k q = concat (map (\<lambda>w. case points k w of None \<Rightarrow> [] | Some p \<Rightarrow> [p]) q)"

lemma pointers_simps [simp]:
  "pointers k [] = []" "pointers k (w # q) = (case points k w of None \<Rightarrow> pointers k q | Some p \<Rightarrow> p # pointers k q)"
  "pointers k (q @ q') = pointers k q @ pointers k q'"
  by (simp_all add: pointers_def split: option.split)

section \<open>Tables\<close>

definition put_entry :: "nat \<Rightarrow> 's \<Rightarrow> (nat \<times> 's) list \<Rightarrow> (nat \<times> 's) list" where
  "put_entry n s t = map (\<lambda>(i, s'). if i = n then (i, s) else (i, s')) t"

definition reap_entry :: "('s \<Rightarrow> bool) \<Rightarrow> nat \<Rightarrow> (nat \<times> 's) list \<Rightarrow> (nat \<times> 's) list" where
  "reap_entry finished n t = filter (\<lambda>(i, s). \<not> (i = n \<and> finished s)) t"

definition slot :: "'a option \<Rightarrow> 'a list" where
  "slot entry = (case entry of None \<Rightarrow> [] | Some x \<Rightarrow> [x])"

lemma slot_simps [simp]: "slot None = []" "slot (Some x) = [x]"
  by (simp_all add: slot_def)

lemma put_entry_ids [simp]: "map fst (put_entry n s t) = map fst t" "length (put_entry n s t) = length t"
  by (induction t) (auto simp: put_entry_def)

lemma put_entry_iff: "(i, s') \<in> set (put_entry n s t) \<longleftrightarrow> (if i = n then s' = s \<and> n \<in> fst ` set t else (i, s') \<in> set t)"
  by (induction t) (auto simp: put_entry_def split: if_splits)

lemma reap_entry_iff: "(i, s) \<in> set (reap_entry finished n t) \<longleftrightarrow> (i, s) \<in> set t \<and> \<not> (i = n \<and> finished s)"
  by (auto simp: reap_entry_def)

section \<open>Operations under a table\<close>

definition reap_last :: "nat \<Rightarrow> (phase \<times> nat) list \<Rightarrow> bool" where
  "reap_last n q \<longleftrightarrow> (\<forall>xs ys. q = xs @ (Ph_Reap, n) # ys \<longrightarrow> n \<notin> snd ` set ys)"

lemma reap_last_fresh: "(Ph_Reap, n) \<notin> set q \<Longrightarrow> reap_last n q"
  by (auto simp: reap_last_def)

lemma reap_last_snoc:
  assumes "reap_last n q" "(Ph_Reap, n) \<in> set q \<longrightarrow> snd p \<noteq> n"
  shows "reap_last n (q @ [p])"
  unfolding reap_last_def
proof (intro allI impI)
  fix xs ys
  assume split: "q @ [p] = xs @ (Ph_Reap, n) # ys"
  show "n \<notin> snd ` set ys"
  proof (cases ys rule: rev_cases)
    case (snoc zs z)
    then have q: "q = xs @ (Ph_Reap, n) # zs" "z = p" using split by simp_all
    then have "n \<notin> snd ` set zs" "snd p \<noteq> n" using assms by (auto simp: reap_last_def)
    then show ?thesis using snoc q by simp
  qed simp
qed

lemma reap_last_tl: "reap_last n (p # q) \<Longrightarrow> reap_last n q"
  unfolding reap_last_def by (metis append_Cons)

lemma reap_last_head: "reap_last n ((Ph_Reap, n) # q) \<Longrightarrow> n \<notin> snd ` set q"
  unfolding reap_last_def by blast

lemma reap_last_other: "i \<noteq> n \<Longrightarrow> reap_last i q \<Longrightarrow> \<forall>p\<in>set xs. snd p = n \<Longrightarrow> reap_last i (q @ xs)"
proof (induction xs rule: rev_induct)
  case (snoc x xs)
  then show ?case using reap_last_snoc [of i "q @ xs" x] by simp
qed simp

locale operation =
  fixes step :: "'e \<Rightarrow> 's \<Rightarrow> 's" and allows :: "'e \<Rightarrow> 's \<Rightarrow> bool" and finished :: "'s \<Rightarrow> bool" and reaps :: "'s \<Rightarrow> nat" and cancels :: "'s \<Rightarrow> bool"
  assumes finished_stays: "allows e s \<Longrightarrow> finished s \<Longrightarrow> finished (step e s)"
    and reap_step: "allows e s \<Longrightarrow> reaps (step e s) = reaps s \<or> (reaps (step e s) = Suc (reaps s) \<and> \<not> finished s \<and> finished (step e s))"
    and cancel_step: "allows e s \<Longrightarrow> \<not> cancels s \<Longrightarrow> cancels (step e s) \<Longrightarrow> \<not> finished s"
begin

text \<open>The work that a step queues: a cancellation, then the reaper, when the SDK takes it.\<close>

definition queued :: "nat \<Rightarrow> bool \<Rightarrow> 's \<Rightarrow> 's \<Rightarrow> (phase \<times> nat) list" where
  "queued n scheduled s s' =
     (if \<not> cancels s \<and> cancels s' then [(Ph_Cancel, n)] else []) @ (if reaps s < reaps s' \<and> scheduled then [(Ph_Reap, n)] else [])"

definition table_ok :: "(nat \<times> 's) list \<Rightarrow> (phase \<times> nat) list \<Rightarrow> bool" where
  "table_ok t q \<longleftrightarrow> distinct (map fst t) \<and> snd ` set q \<subseteq> fst ` set t \<and>
     (\<forall>(n, s)\<in>set t. reap_last n q \<and> ((Ph_Reap, n) \<in> set q \<longrightarrow> finished s \<and> 0 < reaps s) \<and> (0 < reaps s \<longrightarrow> finished s) \<and> reaps s \<le> 1)"

lemma table_ok_empty: "table_ok [] []"
  by (simp add: table_ok_def)

lemma table_ok_admit:
  assumes "table_ok t q" "n \<notin> fst ` set t" "reaps s = 0"
  shows "table_ok (t @ [(n, s)]) q" "table_ok (t @ [(n, s)]) (q @ [(Ph_Start, n)])"
proof -
  have fresh: "n \<notin> snd ` set q" using assms(1,2) by (auto simp: table_ok_def)
  then have "(Ph_Reap, n) \<notin> set q" by force
  then have new: "reap_last n q" "reap_last n (q @ [(Ph_Start, n)])" "(Ph_Reap, n) \<notin> set (q @ [(Ph_Start, n)])"
    using reap_last_fresh by auto
  have old: "reap_last i (q @ [(Ph_Start, n)])" if "(i, s') \<in> set t" for i s'
    using that assms(1,2) by (intro reap_last_snoc) (force simp: table_ok_def)+
  show "table_ok (t @ [(n, s)]) q" using assms new fresh \<open>(Ph_Reap, n) \<notin> set q\<close> by (auto simp: table_ok_def)
  show "table_ok (t @ [(n, s)]) (q @ [(Ph_Start, n)])"
    using assms new old fresh by (auto simp: table_ok_def)
qed

lemma table_ok_step:
  assumes ok: "table_ok t q" and s: "map_of t n = Some s" and e: "allows e s"
  shows "table_ok (put_entry n (step e s) t) (q @ queued n scheduled s (step e s))"
proof -
  let ?s = "step e s" and ?q = "q @ queued n scheduled s (step e s)"
  have mem: "(n, s) \<in> set t" using s by (rule map_of_SomeD)
  have d: "distinct (map fst t)" and inv: "reap_last n q" "(Ph_Reap, n) \<in> set q \<longrightarrow> finished s \<and> 0 < reaps s"
    "0 < reaps s \<longrightarrow> finished s" "reaps s \<le> 1"
    using ok mem by (auto simp: table_ok_def)
  note laws = finished_stays [OF e] reap_step [OF e] cancel_step [OF e]
  have reap: "(Ph_Reap, n) \<in> set ?q \<Longrightarrow> (Ph_Reap, n) \<in> set q \<or> reaps s < reaps ?s"
    by (auto simp: queued_def split: if_splits)
  have grows: "reaps s \<le> reaps ?s" "reaps s < reaps ?s \<Longrightarrow> reaps s = 0 \<and> reaps ?s = 1 \<and> finished ?s"
    using laws(2) inv(3,4) by auto
  have new: "(Ph_Reap, n) \<in> set ?q \<longrightarrow> finished ?s \<and> 0 < reaps ?s" "0 < reaps ?s \<longrightarrow> finished ?s" "reaps ?s \<le> 1"
    using reap grows inv laws(1,2) by linarith+
  have cancel: "reap_last n (q @ (if \<not> cancels s \<and> cancels ?s then [(Ph_Cancel, n)] else []))"
    using inv(1,2) laws(3) reap_last_snoc [of n q "(Ph_Cancel, n)"] by auto
  have "reap_last n ?q"
  proof (cases "reaps s < reaps ?s \<and> scheduled")
    case True
    then have "(Ph_Reap, n) \<notin> set q" using grows(2) inv(2) by auto
    then show ?thesis using reap_last_snoc [OF cancel, of "(Ph_Reap, n)"] True by (simp add: queued_def)
  next
    case False
    then show ?thesis using cancel by (simp only: queued_def if_False append_Nil2)
  qed
  note new = this new
  have other: "reap_last i ?q \<and> ((Ph_Reap, i) \<in> set ?q \<longrightarrow> (Ph_Reap, i) \<in> set q)" if "i \<noteq> n" "reap_last i q" for i
  proof -
    have all: "\<forall>p\<in>set (queued n scheduled s ?s). snd p = n" by (auto simp: queued_def)
    then have "(Ph_Reap, i) \<notin> set (queued n scheduled s ?s)" using that(1) by force
    then show ?thesis using reap_last_other [OF that all] by simp
  qed
  show ?thesis
    unfolding table_ok_def
  proof (intro conjI)
    show "distinct (map fst (put_entry n ?s t))" using d by simp
    have "fst ` set (put_entry n ?s t) = fst ` set t" by (metis list.set_map put_entry_ids(1))
    moreover have "snd ` set (queued n scheduled s ?s) \<subseteq> {n}" by (auto simp: queued_def)
    moreover have "n \<in> fst ` set t" "snd ` set q \<subseteq> fst ` set t" using mem ok by (force, simp add: table_ok_def)
    ultimately show "snd ` set ?q \<subseteq> fst ` set (put_entry n ?s t)" unfolding set_append image_Un by blast
    show "\<forall>(i, s')\<in>set (put_entry n ?s t). reap_last i ?q \<and> ((Ph_Reap, i) \<in> set ?q \<longrightarrow> finished s' \<and> 0 < reaps s') \<and>
        (0 < reaps s' \<longrightarrow> finished s') \<and> reaps s' \<le> 1"
    proof (clarify, goal_cases)
      case (1 i s')
      then consider "i = n" "s' = ?s" | "i \<noteq> n" "(i, s') \<in> set t" by (auto simp: put_entry_iff split: if_splits)
      then show ?case
      proof cases
        case 1
        then show ?thesis using new by simp
      next
        case 2
        then have "reap_last i q" "(Ph_Reap, i) \<in> set q \<longrightarrow> finished s' \<and> 0 < reaps s'" "0 < reaps s' \<longrightarrow> finished s'" "reaps s' \<le> 1"
          using ok by (auto simp: table_ok_def)
        then show ?thesis using other [OF 2(1)] by blast
      qed
    qed
  qed
qed

lemma table_ok_drop: "table_ok t (p # q) \<Longrightarrow> table_ok t q"
  by (auto simp: table_ok_def dest: reap_last_tl)

lemma table_ok_target: "table_ok t ((ph, n) # q) \<Longrightarrow> \<exists>s. map_of t n = Some s"
  by (auto simp: table_ok_def intro: weak_map_of_SomeI)

lemma table_ok_reap:
  assumes "table_ok t ((Ph_Reap, n) # q)"
  shows "table_ok (reap_entry finished n t) q"
proof -
  note ok = table_ok_drop [OF assms]
  obtain s where s: "map_of t n = Some s" using table_ok_target [OF assms] by blast
  have "reap_last n ((Ph_Reap, n) # q)" using assms map_of_SomeD [OF s] by (force simp: table_ok_def)
  then have gone: "n \<notin> snd ` set q" by (rule reap_last_head)
  show ?thesis
    unfolding table_ok_def
  proof (intro conjI)
    show "distinct (map fst (reap_entry finished n t))" using ok by (simp add: table_ok_def reap_entry_def distinct_map_filter)
    have "fst ` set t - {n} \<subseteq> fst ` set (reap_entry finished n t)" by (clarsimp simp: image_iff) (metis reap_entry_iff fst_conv)
    then show "snd ` set q \<subseteq> fst ` set (reap_entry finished n t)"
      using ok gone unfolding table_ok_def by blast
    show "\<forall>(i, s')\<in>set (reap_entry finished n t). reap_last i q \<and> ((Ph_Reap, i) \<in> set q \<longrightarrow> finished s' \<and> 0 < reaps s') \<and>
        (0 < reaps s' \<longrightarrow> finished s') \<and> reaps s' \<le> 1"
      using ok by (auto simp: table_ok_def reap_entry_iff)
  qed
qed

end

text \<open>An operation starts once, when the work that was queued at its admission runs.\<close>

definition start_works :: "(phase \<times> nat) list \<Rightarrow> (phase \<times> nat) list" where
  "start_works q = filter (\<lambda>p. fst p = Ph_Start) q"

lemma start_works_simps [simp]:
  "start_works [] = []" "start_works ((ph, n) # q) = (if ph = Ph_Start then [(ph, n)] else []) @ start_works q"
  "start_works (q @ q') = start_works q @ start_works q'" "p \<in> set (start_works q) \<longleftrightarrow> p \<in> set q \<and> fst p = Ph_Start"
  by (auto simp: start_works_def)

locale startable = operation step allows finished reaps cancels
  for step :: "'e \<Rightarrow> 's \<Rightarrow> 's" and allows :: "'e \<Rightarrow> 's \<Rightarrow> bool" and finished :: "'s \<Rightarrow> bool" and reaps :: "'s \<Rightarrow> nat" and cancels :: "'s \<Rightarrow> bool" +
  fixes starts :: "'e \<Rightarrow> bool" and started :: "'s \<Rightarrow> bool"
  assumes started_step: "allows e s \<Longrightarrow> \<not> starts e \<Longrightarrow> started (step e s) = started s"
begin

definition starts_ok :: "(nat \<times> 's) list \<Rightarrow> (phase \<times> nat) list \<Rightarrow> bool" where
  "starts_ok t q \<longleftrightarrow> distinct (start_works q) \<and> (\<forall>(n, s)\<in>set t. (Ph_Start, n) \<in> set q \<longrightarrow> \<not> started s)"

lemma starts_ok_empty: "starts_ok [] []"
  by (simp add: starts_ok_def)

lemma starts_ok_admit:
  assumes "starts_ok t q" "table_ok t q" "n \<notin> fst ` set t" "\<not> started s"
  shows "starts_ok (t @ [(n, s)]) q" "starts_ok (t @ [(n, s)]) (q @ [(Ph_Start, n)])"
proof -
  have "(Ph_Start, n) \<notin> set q" using assms(2,3) by (force simp: table_ok_def)
  then show "starts_ok (t @ [(n, s)]) q" "starts_ok (t @ [(n, s)]) (q @ [(Ph_Start, n)])"
    using assms by (force simp: starts_ok_def)+
qed

lemma queued_starts [simp]: "start_works (queued n scheduled s s') = []" "(Ph_Start, i) \<notin> set (queued n scheduled s s')"
  by (simp_all add: queued_def)

lemma starts_ok_step:
  assumes "starts_ok t q" "map_of t n = Some s" "allows e s" "\<not> starts e \<or> (Ph_Start, n) \<notin> set q"
  shows "starts_ok (put_entry n (step e s) t) (q @ queued n scheduled s (step e s))"
proof -
  have "(n, s) \<in> set t" using assms(2) by (rule map_of_SomeD)
  then have "(Ph_Start, n) \<in> set q \<longrightarrow> \<not> started (step e s)" using assms(1,3,4) started_step by (auto simp: starts_ok_def)
  then show ?thesis using assms(1) by (auto simp: starts_ok_def put_entry_iff split: if_splits)
qed

lemma starts_ok_drop: "starts_ok t ((ph, n) # q) \<Longrightarrow> starts_ok t q"
  by (auto simp: starts_ok_def split: if_splits)

lemma starts_ok_reap: "starts_ok t q \<Longrightarrow> starts_ok (reap_entry finished n t) q"
  by (auto simp: starts_ok_def reap_entry_iff)

lemma starts_ok_target:
  "starts_ok t ((Ph_Start, n) # q) \<Longrightarrow> map_of t n = Some s \<Longrightarrow> \<not> started s \<and> (Ph_Start, n) \<notin> set q"
  by (auto simp: starts_ok_def dest: map_of_SomeD)

end

section \<open>The four classes of operations\<close>

lemma send_sel [simp]: "pd_done (snd (send r a p)) = pd_done p" "pd_reaps (snd (send r a p)) = pd_reaps p"
  by (simp_all add: send_def)

lemma start_choice_sel [simp]:
  "pd_done (snd (start_choice I a r p)) = pd_done p" "pd_reaps (snd (start_choice I a r p)) = pd_reaps p"
  by (auto simp: start_choice_def StartRead_def StartWrite_def StartInvoke_def submit_def Let_def split: prod.split option.split)

lemma pending_finishes:
  "pd_done p \<Longrightarrow> pd_done (pending_step I D e p)"
  "pd_reaps (pending_step I D e p) = pd_reaps p \<or>
   (pd_reaps (pending_step I D e p) = Suc (pd_reaps p) \<and> \<not> pd_done p \<and> pd_done (pending_step I D e p))"
proof -
  have start: "pd_done p \<Longrightarrow> pd_done (start_client I a p)"
    "pd_reaps (start_client I a p) = pd_reaps p \<or> (pd_reaps (start_client I a p) = Suc (pd_reaps p) \<and> \<not> pd_done p \<and> pd_done (start_client I a p))" for a
  proof -
    obtain r p1 where c: "start_choice I a (the (pd_connected p)) (p\<lparr>pd_connected := None\<rparr>) = (r, p1)" by fastforce
    have "pd_done p1 = pd_done p" "pd_reaps p1 = pd_reaps p"
      using start_choice_sel [of I a "the (pd_connected p)" "p\<lparr>pd_connected := None\<rparr>"] c by simp_all
    then show "pd_done p \<Longrightarrow> pd_done (start_client I a p)"
      "pd_reaps (start_client I a p) = pd_reaps p \<or> (pd_reaps (start_client I a p) = Suc (pd_reaps p) \<and> \<not> pd_done p \<and> pd_done (start_client I a p))"
      using c by (auto simp: start_client_def DoneWithoutClient_def FailBeforeSubmission_def split: option.split)
  qed
  note defs = Start_def OnConnected_def ConnectionFailed_def OnAttributeData_def OnEventData_def OnError_read_def OnResponse_write_def
    OnResponse_command_def OnNoResponse_def OnError_command_def OnDone_def FinishRead_def FinishMutation_def AbortOnSdkThread_def Wait_def
    AddMissingConcreteResults_def DoneWithoutClient_def FailBeforeSubmission_def fail_with_def Let_def
  show "pd_done p \<Longrightarrow> pd_done (pending_step I D e p)"
    using start(1) by (cases e) (simp_all add: defs split: option.split sum.split client.split)
  show "pd_reaps (pending_step I D e p) = pd_reaps p \<or>
   (pd_reaps (pending_step I D e p) = Suc (pd_reaps p) \<and> \<not> pd_done p \<and> pd_done (pending_step I D e p))"
    using start(2) by (cases e) (simp_all add: defs split: option.split sum.split client.split)
qed

text \<open>For subscriptions: how the three fields that the table reads may change.\<close>

definition advances :: "NativeSubscription \<Rightarrow> NativeSubscription \<Rightarrow> bool" where
  "advances s s' \<longleftrightarrow>
     (if ns_done s then ns_done s' \<and> ns_reaps s' = ns_reaps s \<and> (ns_cancel_work s' \<longrightarrow> ns_cancel_work s)
      else ns_reaps s' = ns_reaps s \<or> (ns_reaps s' = Suc (ns_reaps s) \<and> ns_done s'))"

lemma advances_refl [simp]: "advances s s"
  by (simp add: advances_def)

lemma advances_updates [simp]:
  "advances s (t\<lparr>ns_buffer := x1\<rparr>) = advances s t" "advances s (t\<lparr>ns_recovery := x2\<rparr>) = advances s t"
  "advances s (t\<lparr>ns_response := x3\<rparr>) = advances s t" "advances s (t\<lparr>ns_published := x4\<rparr>) = advances s t"
  "advances s (t\<lparr>ns_cancelled := x4\<rparr>) = advances s t" "advances s (t\<lparr>ns_failure_emitted := x4\<rparr>) = advances s t"
  "advances s (t\<lparr>ns_cancel_scheduled := x4\<rparr>) = advances s t" "advances s (t\<lparr>ns_recovery_timer_active := x4\<rparr>) = advances s t"
  "advances s (t\<lparr>ns_recovery_attempt := x5\<rparr>) = advances s t" "advances s (t\<lparr>ns_client := x4\<rparr>) = advances s t"
  "advances s (t\<lparr>ns_started := x4\<rparr>) = advances s t" "advances s (t\<lparr>ns_armed := x4\<rparr>) = advances s t"
  "advances s (t\<lparr>ns_timer := x4\<rparr>) = advances s t" "advances s (t\<lparr>ns_sent := x6\<rparr>) = advances s t"
  "advances s (t\<lparr>ns_delay := x7\<rparr>) = advances s t" "advances s (t\<lparr>ns_taken := x8\<rparr>) = advances s t"
  "advances s (t\<lparr>ns_activating := x8\<rparr>) = advances s t" "advances s (t\<lparr>ns_outbox := x9\<rparr>) = advances s t"
  "advances s (t\<lparr>ns_sdk := x10\<rparr>) = advances s t"
  by (simp_all add: advances_def)

lemma advances_cleared [simp]: "advances s t \<Longrightarrow> advances s (t\<lparr>ns_cancel_work := False\<rparr>)"
  by (auto simp: advances_def)

lemma advances_cancel [simp]:
  assumes "advances s t"
  shows "advances s (ScheduleCancelLocked b t)" "advances s (ScheduleCancel b t)" "advances s (MarkDone_subscription t)"
  using assms by (auto simp: advances_def ScheduleCancel_def ScheduleCancelLocked_def MarkDone_subscription_def Let_def split: if_splits)

lemma advances_primitives [simp]:
  assumes "advances s t"
  shows "advances s (set_error c t)" "advances s (PublishFailure c t)" "advances s (FailActive b e d t)" "advances s (CancelRecoveryTimer t)"
    "advances s (emit_report r b t)" "advances s (snd (take_ready t))"
  using assms
  by (simp_all add: set_error_def PublishFailure_def FailActive_def CancelRecoveryTimer_def emit_report_def take_ready_def Let_def
      split: prod.split)

lemma advances_Add [simp]: "advances s t \<Longrightarrow> advances s (Add_subscription b x t)"
  by (simp add: Add_subscription_def Let_def split: prod.split)

lemma advances_step: "advances s (subscription_step I D e s)"
proof -
  have take: "advances s s1" if "take_ready (s\<lparr>ns_buffer := b\<rparr>) = (rs, s1)" for b rs s1
    using advances_primitives(6) [of s "s\<lparr>ns_buffer := b\<rparr>"] that by simp
  show ?thesis
  proof (cases e)
    case (NE_Established scheduled sdk_id intervals)
    then show ?thesis
      by (auto simp: OnSubscriptionEstablished_def Let_def take split: prod.split)
  next
    case (NE_ResubscriptionNeeded scheduled now timer)
    then show ?thesis by (auto simp: OnResubscriptionNeeded_def Let_def split: prod.split)
  next
    case (NE_Continue ok scheduled till)
    then show ?thesis by (simp add: continue_sdk_def Let_def split: sdk_task.split list.split)
  qed (simp_all add: Wait_gives_up_def Wait_returns_def Activate_subscription_def Emit_activating_def unavailable_subscription_def Start_subscription_def
      ConnectionFailed_subscription_def OnConnected_subscription_def OnReportBegin_def OnReportEnd_def OnAttributeData_subscription_def
      OnEventData_subscription_def OnError_subscription_def RecoveryDeadline_def OnDone_subscription_def CancelOnSdkThread_def Let_def take
      split: option.split sum.split prod.split list.split)
qed

lemma subscription_finishes:
  "ns_done s \<Longrightarrow> ns_done (subscription_step I D e s)"
  "ns_reaps (subscription_step I D e s) = ns_reaps s \<or>
   (ns_reaps (subscription_step I D e s) = Suc (ns_reaps s) \<and> \<not> ns_done s \<and> ns_done (subscription_step I D e s))"
  "\<not> ns_cancel_work s \<Longrightarrow> ns_cancel_work (subscription_step I D e s) \<Longrightarrow> \<not> ns_done s"
  using advances_step [of s I D e] by (auto simp: advances_def split: if_splits)

fun starts_pending :: "pending_event \<Rightarrow> bool" where
  "starts_pending (PE_Start elapsed connecting) = True"
| "starts_pending _ = False"

fun starts_subscription :: "subscription_event \<Rightarrow> bool" where
  "starts_subscription (NE_Start elapsed connecting) = True"
| "starts_subscription NE_Unavailable = True"
| "starts_subscription _ = False"

fun starts_commissioning :: "commissioning_event \<Rightarrow> bool" where
  "starts_commissioning (CE_Start elapsed discovering pairing) = True"
| "starts_commissioning (CE_Unavailable error) = True"
| "starts_commissioning _ = False"

fun starts_window :: "window_event \<Rightarrow> bool" where
  "starts_window (WE_Start elapsed) = True"
| "starts_window (WE_Unavailable error) = True"
| "starts_window _ = False"

lemma start_choice_started [simp]: "pd_started (snd (start_choice I a r p)) = pd_started p"
  by (auto simp: start_choice_def StartRead_def StartWrite_def StartInvoke_def submit_def send_def Let_def split: prod.split option.split)

lemma pending_starts: "\<not> starts_pending e \<Longrightarrow> pd_started (pending_step I D e p) = pd_started p"
proof (cases e)
  case (PE_StartClient a)
  obtain r p1 where c: "start_choice I a (the (pd_connected p)) (p\<lparr>pd_connected := None\<rparr>) = (r, p1)" by fastforce
  have "pd_started p1 = pd_started p" using start_choice_started [of I a "the (pd_connected p)" "p\<lparr>pd_connected := None\<rparr>"] c by simp
  then show ?thesis using PE_StartClient c by (simp add: start_client_def DoneWithoutClient_def FailBeforeSubmission_def split: option.split)
qed (simp_all add: OnConnected_def ConnectionFailed_def OnAttributeData_def OnEventData_def OnError_read_def OnResponse_write_def
    OnResponse_command_def OnNoResponse_def OnError_command_def OnDone_def FinishRead_def FinishMutation_def AbortOnSdkThread_def Wait_def
    AddMissingConcreteResults_def DoneWithoutClient_def FailBeforeSubmission_def fail_with_def Let_def
    split: option.split sum.split client.split)

lemma started_primitives [simp]:
  "ns_started (ScheduleCancelLocked b t) = ns_started t" "ns_started (ScheduleCancel b t) = ns_started t"
  "ns_started (MarkDone_subscription t) = ns_started t" "ns_started (set_error c t) = ns_started t"
  "ns_started (PublishFailure c t) = ns_started t" "ns_started (CancelRecoveryTimer t) = ns_started t"
  "ns_started (emit_report r b t) = ns_started t"
  "ns_started (snd (take_ready t)) = ns_started t"
  by (simp_all add: ScheduleCancel_def ScheduleCancelLocked_def MarkDone_subscription_def set_error_def PublishFailure_def
      CancelRecoveryTimer_def emit_report_def take_ready_def Let_def split: prod.split)

lemma started_FailActive [simp]: "ns_started (FailActive b e d t) = ns_started t"
  by (simp add: FailActive_def Let_def)

lemma started_Add [simp]: "ns_started (Add_subscription b x t) = ns_started t"
  by (simp add: Add_subscription_def Let_def split: prod.split)

lemma subscription_starts: "\<not> starts_subscription e \<Longrightarrow> ns_started (subscription_step I D e s) = ns_started s"
proof -
  have take: "ns_started s1 = ns_started s" if "take_ready (s\<lparr>ns_buffer := b\<rparr>) = (rs, s1)" for b rs s1
    using started_primitives(8) [of "s\<lparr>ns_buffer := b\<rparr>"] that by simp
  assume "\<not> starts_subscription e"
  then show ?thesis
  proof (cases e)
    case (NE_Established scheduled sdk_id intervals)
    then show ?thesis by (auto simp: OnSubscriptionEstablished_def Let_def take split: prod.split)
  next
    case (NE_ResubscriptionNeeded scheduled now timer)
    then show ?thesis by (auto simp: OnResubscriptionNeeded_def Let_def split: prod.split)
  next
    case (NE_Continue ok scheduled till)
    then show ?thesis by (simp add: continue_sdk_def Let_def split: sdk_task.split list.split)
  qed (simp_all add: Wait_gives_up_def Wait_returns_def Activate_subscription_def Emit_activating_def
      ConnectionFailed_subscription_def OnConnected_subscription_def OnReportBegin_def OnReportEnd_def OnAttributeData_subscription_def
      OnEventData_subscription_def OnError_subscription_def RecoveryDeadline_def OnDone_subscription_def CancelOnSdkThread_def Let_def take
      split: option.split sum.split prod.split list.split)
qed

text \<open>The operations that publish once meet the contract without a queued cancellation.\<close>

sublocale publication \<subseteq> table: operation step allows finished reaps "\<lambda>_. False"
proof unfold_locales
  fix e s
  assume e: "allows e s"
  then show "finished s \<Longrightarrow> finished (step e s)" using finished_keeps by blast
  show "reaps (step e s) = reaps s \<or> reaps (step e s) = Suc (reaps s) \<and> \<not> finished s \<and> finished (step e s)"
    using finished_keeps [OF e] finishing_reaps [OF e] by (cases "finished s") simp_all
qed simp

interpretation pending_table: startable "pending_step I D" enabled pd_done pd_reaps "\<lambda>_. False" starts_pending pd_started
  by unfold_locales (simp_all add: pending_finishes pending_starts)

interpretation subscription_table: startable "subscription_step I D" enabled_subscription ns_done ns_reaps ns_cancel_work
    starts_subscription ns_started
  by unfold_locales (simp_all add: subscription_finishes subscription_starts)

interpretation commissioning_table: startable "commissioning_step E" enabled_commissioning pc_done pc_reaps "\<lambda>_. False"
    starts_commissioning pc_started
proof unfold_locales
  fix e s
  show "\<not> starts_commissioning e \<Longrightarrow> pc_started (commissioning_step E e s) = pc_started s"
    by (cases e) (simp_all add: commissioning_defs split: option.split)
qed

interpretation window_table: startable "window_step E" enabled_window pw_done pw_reaps "\<lambda>_. False" starts_window pw_started
proof unfold_locales
  fix e s
  show "\<not> starts_window e \<Longrightarrow> pw_started (window_step E e s) = pw_started s"
    by (cases e) (simp_all add: window_defs split: option.split)
qed

end
