(* ===== verification/Controller.thy ===== *)
theory Controller
  imports ControllerTable
begin

text \<open>
  \<open>SdkControllerBackend::Impl\<close> of \<^verbatim>\<open>native/src/controller.cpp\<close> as far as it owns operations: their admission, the queue
  of the SDK thread, the reapers, the shutdown and the release of unused session setups.

  An operation has a number, which stands for its address.  The operations themselves are those of the theories
  for interactions, commissionings, windows and subscriptions; here their events are events of the
  controller, the work they schedule goes into one queue and the SDK thread takes it out in order.  A work whose
  target is in no table would be the use of a dangling pointer and sets \<open>ct_dangling\<close>.
\<close>

section \<open>State\<close>

text \<open>\<open>Ctl_Closing\<close> carries whether the shutdown work is still in the queue.  A commissioning or a window that has left its
  slot is detached: the thread in its \<open>Wait\<close> or a queued cancellation, whose holder is a \<open>shared_ptr\<close>, may
  still share it.\<close>

datatype controller_phase = Ctl_Running | Ctl_Closing bool | Ctl_Closed

record Controller =
  ct_open :: bool
  ct_accepting_interactions :: bool
  ct_fabric_id :: u64
  ct_pending :: "(nat \<times> Pending) list"
  ct_commissioning :: "(nat \<times> PendingCommissioning) option"
  ct_window :: "(nat \<times> PendingWindow) option"
  ct_detached_commissionings :: "(nat \<times> PendingCommissioning) list"
  ct_detached_windows :: "(nat \<times> PendingWindow) list"
  ct_subscriptions :: "(nat \<times> NativeSubscription) list"
  ct_next :: nat
  ct_queue :: "work list"
  ct_phase :: controller_phase
  ct_released :: "u64 list"
  ct_dangling :: bool

definition mk_controller :: "u64 \<Rightarrow> Controller" where
  "mk_controller fabric_id =
     \<lparr>ct_open = True, ct_accepting_interactions = True, ct_fabric_id = fabric_id, ct_pending = [], ct_commissioning = None,
      ct_window = None, ct_detached_commissionings = [], ct_detached_windows = [], ct_subscriptions = [], ct_next = 0, ct_queue = [], ct_phase = Ctl_Running, ct_released = [],
      ct_dangling = False\<rparr>"

text \<open>The parameters of the SDK in one record.\<close>

record sdk =
  sdk_identifiers :: sdk_ids
  sdk_decoders :: sdk_decode
  sdk_setups :: sdk_setup

section \<open>Steps of the operations\<close>

text \<open>What a step of operation \<open>n\<close> puts into the queue: a cancellation, then the reaper when the SDK takes it.\<close>

definition queue_works :: "kind \<Rightarrow> nat \<Rightarrow> bool \<Rightarrow> bool \<Rightarrow> bool \<Rightarrow> nat \<Rightarrow> nat \<Rightarrow> work list" where
  "queue_works k n scheduled cancels cancels' reaps reaps' =
     (if \<not> cancels \<and> cancels' then [Work k Ph_Cancel n] else []) @ (if reaps < reaps' \<and> scheduled then [Work k Ph_Reap n] else [])"

definition dangle :: "Controller \<Rightarrow> Controller" where
  "dangle c = c\<lparr>ct_dangling := True\<rparr>"

definition step_pending :: "sdk \<Rightarrow> nat \<Rightarrow> pending_event \<Rightarrow> bool \<Rightarrow> Controller \<Rightarrow> Controller" where
  "step_pending K n e scheduled c =
     (case map_of (ct_pending c) n of
        None \<Rightarrow> dangle c
      | Some p \<Rightarrow>
          let p' = pending_step (sdk_identifiers K) (sdk_decoders K) e p
          in c\<lparr>ct_pending := put_entry n p' (ct_pending c),
               ct_queue := ct_queue c @ queue_works K_Interaction n scheduled False False (pd_reaps p) (pd_reaps p')\<rparr>)"

definition step_subscription :: "sdk \<Rightarrow> nat \<Rightarrow> subscription_event \<Rightarrow> bool \<Rightarrow> Controller \<Rightarrow> Controller" where
  "step_subscription K n e scheduled c =
     (case map_of (ct_subscriptions c) n of
        None \<Rightarrow> dangle c
      | Some s \<Rightarrow>
          let s' = subscription_step (sdk_identifiers K) (sdk_decoders K) e s
          in c\<lparr>ct_subscriptions := put_entry n s' (ct_subscriptions c),
               ct_queue := ct_queue c @
                 queue_works K_Subscription n scheduled (ns_cancel_work s) (ns_cancel_work s') (ns_reaps s) (ns_reaps s')\<rparr>)"

text \<open>The slots hold one operation.\<close>

definition step_commissioning :: "sdk \<Rightarrow> nat \<Rightarrow> commissioning_event \<Rightarrow> bool \<Rightarrow> Controller \<Rightarrow> Controller" where
  "step_commissioning K n e scheduled c =
     (case ct_commissioning c of
        None \<Rightarrow> dangle c
      | Some (i, s) \<Rightarrow>
          if i \<noteq> n then dangle c
          else let s' = commissioning_step (sdk_setups K) e s
               in c\<lparr>ct_commissioning := Some (n, s'),
                    ct_queue := ct_queue c @
                      queue_works K_Commissioning n scheduled (pc_cancel_work s) (pc_cancel_work s') (pc_reaps s) (pc_reaps s')\<rparr>)"

definition step_window :: "sdk \<Rightarrow> nat \<Rightarrow> window_event \<Rightarrow> bool \<Rightarrow> Controller \<Rightarrow> Controller" where
  "step_window K n e scheduled c =
     (case ct_window c of
        None \<Rightarrow> dangle c
      | Some (i, s) \<Rightarrow>
          if i \<noteq> n then dangle c
          else let s' = window_step (sdk_setups K) e s
               in c\<lparr>ct_window := Some (n, s'),
                    ct_queue := ct_queue c @
                      queue_works K_Window n scheduled (pw_cancel_work s) (pw_cancel_work s') (pw_reaps s) (pw_reaps s')\<rparr>)"

text \<open>A detached operation goes on with what its holders do: its waiting thread may give up and queue the cancellation, and the
  cancellation runs \<open>AbortOnSdkThread\<close> on it.\<close>

definition step_detached_commissioning :: "sdk \<Rightarrow> nat \<Rightarrow> commissioning_event \<Rightarrow> bool \<Rightarrow> Controller \<Rightarrow> Controller" where
  "step_detached_commissioning K n e scheduled c =
     (case map_of (ct_detached_commissionings c) n of
        None \<Rightarrow> dangle c
      | Some s \<Rightarrow>
          let s' = commissioning_step (sdk_setups K) e s
          in c\<lparr>ct_detached_commissionings := put_entry n s' (ct_detached_commissionings c),
               ct_queue := ct_queue c @
                 queue_works K_Commissioning n scheduled (pc_cancel_work s) (pc_cancel_work s') (pc_reaps s) (pc_reaps s')\<rparr>)"

definition step_detached_window :: "sdk \<Rightarrow> nat \<Rightarrow> window_event \<Rightarrow> bool \<Rightarrow> Controller \<Rightarrow> Controller" where
  "step_detached_window K n e scheduled c =
     (case map_of (ct_detached_windows c) n of
        None \<Rightarrow> dangle c
      | Some s \<Rightarrow>
          let s' = window_step (sdk_setups K) e s
          in c\<lparr>ct_detached_windows := put_entry n s' (ct_detached_windows c),
               ct_queue := ct_queue c @
                 queue_works K_Window n scheduled (pw_cancel_work s) (pw_cancel_work s') (pw_reaps s) (pw_reaps s')\<rparr>)"

definition step_held_commissioning :: "sdk \<Rightarrow> nat \<Rightarrow> commissioning_event \<Rightarrow> bool \<Rightarrow> Controller \<Rightarrow> Controller" where
  "step_held_commissioning K n e scheduled c =
     (if map_option fst (ct_commissioning c) = Some n then step_commissioning K n e scheduled c
      else step_detached_commissioning K n e scheduled c)"

definition step_held_window :: "sdk \<Rightarrow> nat \<Rightarrow> window_event \<Rightarrow> bool \<Rightarrow> Controller \<Rightarrow> Controller" where
  "step_held_window K n e scheduled c =
     (if map_option fst (ct_window c) = Some n then step_window K n e scheduled c
      else step_detached_window K n e scheduled c)"

section \<open>Admission\<close>

text \<open>The answer, when there is nothing to wait for, or the number of the operation whose \<open>Wait\<close> gives it.\<close>

definition enqueue :: "work \<Rightarrow> Controller \<Rightarrow> Controller" where
  "enqueue w c = c\<lparr>ct_queue := ct_queue c @ [w]\<rparr>"

definition Interact :: "InteractionRequest \<Rightarrow> bool \<Rightarrow> Controller \<Rightarrow> (InteractionResponse + nat) \<times> Controller" where
  "Interact request scheduled c =
     (if \<not> ct_open c \<or> \<not> valid_interaction_request request
      then (Inl (failed_response (mk_error ''invalid_request'' Effect_None)), c)
      else if \<not> ct_accepting_interactions c \<or> length (ct_pending c) \<ge> 64
      then (Inl (failed_response (mk_error ''interaction_busy'' Effect_None)), c)
      else
        let n = ct_next c; c1 = c\<lparr>ct_next := n + 1\<rparr>
        in if scheduled
           then (Inr n, enqueue (Work K_Interaction Ph_Start n) (c1\<lparr>ct_pending := ct_pending c @ [(n, mk_pending request)]\<rparr>))
           else
             let p = (FailBeforeSubmission ''interaction_unavailable'' (mk_pending request))\<lparr>pd_done := True\<rparr>
             in (Inl (pd_response p), c1\<lparr>ct_pending := reap_entry pd_done n (ct_pending c @ [(n, p)])\<rparr>))"

definition commissioning_refused :: "string \<Rightarrow> CommissioningResponse" where
  "commissioning_refused code = no_commissioning\<lparr>cr_error := Some (commissioning_error code None False)\<rparr>"

text \<open>\<open>refused\<close> is the error of \<open>ScheduleWork\<close>, \<open>scheduled\<close> its answer for the reaper.\<close>

definition Commission :: "sdk \<Rightarrow> CommissioningRequest \<Rightarrow> chip_error option \<Rightarrow> bool \<Rightarrow> Controller \<Rightarrow> (CommissioningResponse + nat) \<times> Controller" where
  "Commission K request refused scheduled c =
     (if \<not> ct_open c \<or> \<not> valid_commissioning_request request then (Inl (commissioning_refused ''invalid_request''), c)
      else if \<not> ct_accepting_interactions c \<or> ct_commissioning c \<noteq> None \<or> ct_window c \<noteq> None
      then (Inl (commissioning_refused ''commissioning_busy''), c)
      else if length (ct_pending c) \<ge> 64 then (Inl (commissioning_refused ''commissioning_busy''), c)
      else
        let n = ct_next c;
            c1 = c\<lparr>ct_next := n + 1, ct_commissioning := Some (n, mk_commissioning (ct_fabric_id c) request)\<rparr>
        in (Inr n, case refused of
              None \<Rightarrow> enqueue (Work K_Commissioning Ph_Start n) c1
            | Some error \<Rightarrow> step_commissioning K n (CE_Unavailable error) scheduled c1))"

definition window_refused :: "string \<Rightarrow> CommissioningWindowResponse" where
  "window_refused code = no_window\<lparr>wr_error := Some (commissioning_error code None False)\<rparr>"

definition OpenWindow :: "sdk \<Rightarrow> CommissioningWindowRequest \<Rightarrow> chip_error option \<Rightarrow> bool \<Rightarrow> Controller \<Rightarrow> (CommissioningWindowResponse + nat) \<times> Controller" where
  "OpenWindow K request refused scheduled c =
     (if \<not> ct_open c \<or> \<not> valid_commissioning_window_request request then (Inl (window_refused ''invalid_request''), c)
      else if \<not> ct_accepting_interactions c \<or> ct_commissioning c \<noteq> None \<or> ct_window c \<noteq> None
      then (Inl (window_refused ''window_busy''), c)
      else if length (ct_pending c) \<ge> 64 then (Inl (window_refused ''window_busy''), c)
      else
        let n = ct_next c; c1 = c\<lparr>ct_next := n + 1, ct_window := Some (n, mk_window request)\<rparr>
        in (Inr n, case refused of
              None \<Rightarrow> enqueue (Work K_Window Ph_Start n) c1
            | Some error \<Rightarrow> step_window K n (WE_Unavailable error) scheduled c1))"

definition subscription_refused :: "string \<Rightarrow> SubscriptionResponse" where
  "subscription_refused code = empty_subscription\<lparr>so_error_code := code\<rparr>"

definition Subscribe :: "sdk \<Rightarrow> SubscriptionRequest \<Rightarrow> bool \<Rightarrow> bool \<Rightarrow> Controller \<Rightarrow> (SubscriptionResponse + nat) \<times> Controller" where
  "Subscribe K request started scheduled c =
     (if \<not> ct_open c \<or> \<not> valid_subscription_request request then (Inl (subscription_refused ''invalid_request''), c)
      else if \<not> ct_accepting_interactions c \<or> length (ct_subscriptions c) \<ge> 64
      then (Inl (subscription_refused ''subscription_busy''), c)
      else
        let n = ct_next c;
            c1 = c\<lparr>ct_next := n + 1, ct_subscriptions := ct_subscriptions c @ [(n, mk_subscription request)]\<rparr>
        in (Inr n, if started then enqueue (Work K_Subscription Ph_Start n) c1 else step_subscription K n NE_Unavailable scheduled c1))"

definition find_subscription :: "string \<Rightarrow> u64 \<Rightarrow> Controller \<Rightarrow> nat option" where
  "find_subscription subscription_id gen c =
     map_option fst (List.find (\<lambda>(n, s). sr_subscription_id (ns_request s) = subscription_id \<and> rc_generation (ns_recovery s) = gen \<and> \<not> ns_done s)
       (ct_subscriptions c))"

text \<open>\<open>Activate\<close> up to the end of its critical section and \<open>CancelAndWait\<close> up to the wait; \<open>waited\<close> says whether the wait ended in time.\<close>

definition ActivateSubscription_impl :: "sdk \<Rightarrow> string \<Rightarrow> u64 \<Rightarrow> Controller \<Rightarrow> bool \<times> Controller" where
  "ActivateSubscription_impl K subscription_id gen c =
     (case find_subscription subscription_id gen c of
        None \<Rightarrow> (False, c)
      | Some n \<Rightarrow> (fst (Activate_subscription (the (map_of (ct_subscriptions c) n))), step_subscription K n NE_Activate True c))"

definition CancelSubscription_impl :: "sdk \<Rightarrow> string \<Rightarrow> u64 \<Rightarrow> bool \<Rightarrow> bool \<Rightarrow> Controller \<Rightarrow> string option \<times> Controller" where
  "CancelSubscription_impl K subscription_id gen scheduled waited c =
     (case find_subscription subscription_id gen c of
        None \<Rightarrow> (Some ''invalid_subscription'', c)
      | Some n \<Rightarrow> (if waited then None else Some ''subscription_cancel_timeout'', step_subscription K n (NE_Cancel scheduled) True c))"

section \<open>The SDK thread\<close>

definition ReleaseUnusedSessionSetup :: "u64 \<Rightarrow> Controller \<Rightarrow> Controller" where
  "ReleaseUnusedSessionSetup node c =
     (if list_ex (\<lambda>(n, p). rq_node_id (pd_request p) = node \<and> \<not> pd_done p) (ct_pending c) \<or>
         list_ex (\<lambda>(n, s). cq_node_id (pc_request s) = node \<and> \<not> pc_done s) (slot (ct_commissioning c)) \<or>
         list_ex (\<lambda>(n, s). wq_node_id (pw_request s) = node \<and> \<not> pw_done s) (slot (ct_window c)) \<or>
         list_ex (\<lambda>(n, s). sr_node_id (ns_request s) = node \<and> \<not> ns_done s) (ct_subscriptions c)
      then c else c\<lparr>ct_released := ct_released c @ [node]\<rparr>)"

definition ReapPending :: "nat \<Rightarrow> Controller \<Rightarrow> Controller" where
  "ReapPending n c =
     (case map_of (ct_pending c) n of
        None \<Rightarrow> dangle c
      | Some p \<Rightarrow> ReleaseUnusedSessionSetup (rq_node_id (pd_request p)) (c\<lparr>ct_pending := reap_entry pd_done n (ct_pending c)\<rparr>))"

definition ReapSubscription :: "nat \<Rightarrow> Controller \<Rightarrow> Controller" where
  "ReapSubscription n c =
     (case map_of (ct_subscriptions c) n of
        None \<Rightarrow> dangle c
      | Some s \<Rightarrow> ReleaseUnusedSessionSetup (sr_node_id (ns_request s)) (c\<lparr>ct_subscriptions := reap_entry ns_done n (ct_subscriptions c)\<rparr>))"

definition ReapCommissioning :: "nat \<Rightarrow> Controller \<Rightarrow> Controller" where
  "ReapCommissioning n c =
     (case ct_commissioning c of
        None \<Rightarrow> dangle c
      | Some (i, s) \<Rightarrow>
          if i \<noteq> n then dangle c
          else ReleaseUnusedSessionSetup (cq_node_id (pc_request s)) 
            (if pc_done s then c\<lparr>ct_commissioning := None, ct_detached_commissionings := ct_detached_commissionings c @ [(n, s)]\<rparr> else c))"

definition ReapWindow :: "nat \<Rightarrow> Controller \<Rightarrow> Controller" where
  "ReapWindow n c =
     (case ct_window c of
        None \<Rightarrow> dangle c
      | Some (i, s) \<Rightarrow>
          if i \<noteq> n then dangle c
          else ReleaseUnusedSessionSetup (wq_node_id (pw_request s)) 
            (if pw_done s then c\<lparr>ct_window := None, ct_detached_windows := ct_detached_windows c @ [(n, s)]\<rparr> else c))"

text \<open>What the SDK answers to the work it runs; \<open>an_scheduled\<close> says for which operations it takes the reaper.\<close>

record work_answers =
  an_elapsed :: u64
  an_connecting :: "chip_error option"
  an_discovering :: "chip_error option"
  an_pairing :: "chip_error option"
  an_stopped :: bool
  an_scheduled :: "nat \<Rightarrow> bool"

text \<open>The pairing delegate: the callbacks of the commissioner go to the operation in the slot, if there is one.\<close>

definition OnCommissioningComplete :: "sdk \<Rightarrow> u64 \<Rightarrow> chip_error option \<Rightarrow> chip_error option \<Rightarrow> bool \<Rightarrow> Controller \<Rightarrow> Controller" where
  "OnCommissioningComplete K device_id error connecting scheduled c =
     (case ct_commissioning c of
        None \<Rightarrow> c
      | Some (n, _) \<Rightarrow> step_commissioning K n (CE_Complete device_id error connecting) scheduled c)"

definition OnCommissioningFailure :: "sdk \<Rightarrow> chip_error option \<Rightarrow> bool \<Rightarrow> Controller \<Rightarrow> Controller" where
  "OnCommissioningFailure K status scheduled c =
     (case ct_commissioning c of None \<Rightarrow> c | Some (n, _) \<Rightarrow> step_commissioning K n (CE_Failure status) scheduled c)"

definition OnCommissioningStageStart :: "sdk \<Rightarrow> CommissioningStage \<Rightarrow> bool \<Rightarrow> Controller \<Rightarrow> Controller" where
  "OnCommissioningStageStart K stage scheduled c =
     (case ct_commissioning c of None \<Rightarrow> c | Some (n, _) \<Rightarrow> step_commissioning K n (CE_Stage stage) scheduled c)"

text \<open>\<open>Work\<close> for the shutdown action: subscriptions, interactions, the commissioning, the window.\<close>

definition shutdown_operations :: "sdk \<Rightarrow> work_answers \<Rightarrow> Controller \<Rightarrow> Controller" where
  "shutdown_operations K a c =
     (let c1 = fold (\<lambda>n. step_subscription K n NE_Shutdown (an_scheduled a n)) (map fst (ct_subscriptions c)) c;
          c2 = fold (\<lambda>n. step_pending K n PE_Abort (an_scheduled a n)) (map fst (ct_pending c)) c1;
          c3 = fold (\<lambda>n. step_commissioning K n (CE_Shutdown (an_stopped a)) (an_scheduled a n)) (map fst (slot (ct_commissioning c))) c2;
          c4 = fold (\<lambda>n. step_window K n WE_Shutdown (an_scheduled a n)) (map fst (slot (ct_window c))) c3
      in c4\<lparr>ct_phase := Ctl_Closing False\<rparr>)"

definition run_work :: "sdk \<Rightarrow> work_answers \<Rightarrow> work \<Rightarrow> Controller \<Rightarrow> Controller" where
  "run_work K a w c =
     (case w of
        Work K_Interaction Ph_Start n \<Rightarrow> step_pending K n (PE_Start (an_elapsed a) (an_connecting a)) (an_scheduled a n) c
      | Work K_Interaction Ph_Cancel n \<Rightarrow> c
      | Work K_Interaction Ph_Reap n \<Rightarrow> ReapPending n c
      | Work K_Commissioning Ph_Start n \<Rightarrow>
          step_commissioning K n (CE_Start (an_elapsed a) (an_discovering a) (an_pairing a)) (an_scheduled a n) c
      | Work K_Commissioning Ph_Cancel n \<Rightarrow>
          step_held_commissioning K n (CE_CancelWork (an_stopped a)) (an_scheduled a n) c
      | Work K_Commissioning Ph_Reap n \<Rightarrow> ReapCommissioning n c
      | Work K_Window Ph_Start n \<Rightarrow> step_window K n (WE_Start (an_elapsed a)) (an_scheduled a n) c
      | Work K_Window Ph_Cancel n \<Rightarrow> step_held_window K n WE_CancelWork (an_scheduled a n) c
      | Work K_Window Ph_Reap n \<Rightarrow> ReapWindow n c
      | Work K_Subscription Ph_Start n \<Rightarrow> step_subscription K n (NE_Start (an_elapsed a) (an_connecting a)) (an_scheduled a n) c
      | Work K_Subscription Ph_Cancel n \<Rightarrow> step_subscription K n NE_CancelWork (an_scheduled a n) c
      | Work K_Subscription Ph_Reap n \<Rightarrow> ReapSubscription n c
      | Shutdown_work \<Rightarrow> shutdown_operations K a c)"

definition dispatch_work :: "sdk \<Rightarrow> work_answers \<Rightarrow> Controller \<Rightarrow> Controller" where
  "dispatch_work K a c = (case ct_queue c of [] \<Rightarrow> c | w # q \<Rightarrow> run_work K a w (c\<lparr>ct_queue := q\<rparr>))"

section \<open>Closing\<close>

text \<open>\<open>Cleanup\<close> up to the wait in \<open>Execute\<close>, and from there on; the loop has stopped when the tables are cleared.\<close>

definition begin_cleanup :: "bool \<Rightarrow> Controller \<Rightarrow> Controller" where
  "begin_cleanup scheduled c =
     (let c1 = c\<lparr>ct_open := False, ct_accepting_interactions := False, ct_phase := Ctl_Closing scheduled\<rparr>
      in if scheduled then enqueue Shutdown_work c1 else c1)"

definition end_cleanup :: "Controller \<Rightarrow> Controller" where
  "end_cleanup c =
     c\<lparr>ct_queue := [], ct_pending := [], ct_subscriptions := [], ct_commissioning := None, ct_window := None, ct_phase := Ctl_Closed\<rparr>"

section \<open>Runs\<close>

datatype controller_event =
  OE_Interact InteractionRequest bool
| OE_Commission CommissioningRequest "chip_error option" bool
| OE_OpenWindow CommissioningWindowRequest "chip_error option" bool
| OE_Subscribe SubscriptionRequest bool bool
| OE_Activate string u64
| OE_Cancel string u64 bool bool
| OE_Pending nat pending_event bool
| OE_Commissioning nat commissioning_event bool
| OE_Window nat window_event bool
| OE_Subscription nat subscription_event bool
| OE_Complete u64 "chip_error option" "chip_error option" bool
| OE_Failure "chip_error option" bool
| OE_Stage CommissioningStage bool
| OE_Dispatch work_answers
| OE_BeginCleanup bool
| OE_EndCleanup

text \<open>Events of an operation that come from the queue or from the controller itself.\<close>

fun internal_pending :: "pending_event \<Rightarrow> bool" where
  "internal_pending (PE_Start elapsed connecting) = True" | "internal_pending PE_Abort = True" | "internal_pending _ = False"

fun internal_subscription :: "subscription_event \<Rightarrow> bool" where
  "internal_subscription (NE_Start elapsed connecting) = True" | "internal_subscription NE_CancelWork = True"
| "internal_subscription NE_Shutdown = True" | "internal_subscription NE_Unavailable = True" | "internal_subscription NE_Activate = True" | "internal_subscription _ = False"

fun internal_commissioning :: "commissioning_event \<Rightarrow> bool" where
  "internal_commissioning (CE_Start elapsed discovering pairing) = True" | "internal_commissioning (CE_Unavailable error) = True"
| "internal_commissioning (CE_Complete device_id error connecting) = True" | "internal_commissioning (CE_Failure status) = True"
| "internal_commissioning (CE_Stage stage) = True" | "internal_commissioning (CE_CancelWork stopped) = True" | "internal_commissioning (CE_Shutdown stopped) = True"
| "internal_commissioning _ = False"

fun internal_window :: "window_event \<Rightarrow> bool" where
  "internal_window (WE_Start elapsed) = True" | "internal_window (WE_Unavailable error) = True"
| "internal_window WE_CancelWork = True" | "internal_window WE_Shutdown = True" | "internal_window _ = False"

text \<open>The SDK thread takes the next work when it is in the middle of no callback.\<close>

definition sdk_idle :: "Controller \<Rightarrow> bool" where
  "sdk_idle c \<longleftrightarrow>
     list_all (\<lambda>(n, p). pd_connected p = None) (ct_pending c) \<and> list_all (\<lambda>(n, s). ns_sdk s = K_Idle) (ct_subscriptions c) \<and>
     list_all (\<lambda>(n, s). \<not> pw_starting s \<and> \<not> pw_opening s) (slot (ct_window c))"

definition entry_allows :: "(nat \<times> 's) list \<Rightarrow> nat \<Rightarrow> ('s \<Rightarrow> bool) \<Rightarrow> bool" where
  "entry_allows t n P = (case map_of t n of None \<Rightarrow> False | Some s \<Rightarrow> P s)"

fun enabled_controller :: "controller_event \<Rightarrow> Controller \<Rightarrow> bool" where
  "enabled_controller (OE_Pending n e scheduled) c \<longleftrightarrow> \<not> internal_pending e \<and> entry_allows (ct_pending c) n (enabled e)"
| "enabled_controller (OE_Subscription n e scheduled) c \<longleftrightarrow>
     \<not> internal_subscription e \<and> entry_allows (ct_subscriptions c) n (enabled_subscription e)"
| "enabled_controller (OE_Commissioning n e scheduled) c \<longleftrightarrow>
     \<not> internal_commissioning e \<and> 
     entry_allows (slot (ct_commissioning c) @ ct_detached_commissionings c) n (enabled_commissioning e)"
| "enabled_controller (OE_Window n e scheduled) c \<longleftrightarrow> 
     \<not> internal_window e \<and> entry_allows (slot (ct_window c) @ ct_detached_windows c) n (enabled_window e)"
| "enabled_controller (OE_Activate subscription_id gen) c \<longleftrightarrow>
     list_all (\<lambda>(n, s). ns_activating s = []) (ct_subscriptions c)"
| "enabled_controller (OE_Stage stage scheduled) c \<longleftrightarrow>
     list_all (\<lambda>(n, s). enabled_commissioning (CE_Stage stage) s) (slot (ct_commissioning c))"
| "enabled_controller (OE_Dispatch a) c \<longleftrightarrow> ct_queue c \<noteq> [] \<and> sdk_idle c \<and> ct_phase c \<noteq> Ctl_Closed"
| "enabled_controller (OE_BeginCleanup scheduled) c \<longleftrightarrow> ct_phase c = Ctl_Running"
| "enabled_controller OE_EndCleanup c \<longleftrightarrow> ct_phase c = Ctl_Closing False"
| "enabled_controller _ c \<longleftrightarrow> True"

fun controller_step :: "sdk \<Rightarrow> controller_event \<Rightarrow> Controller \<Rightarrow> Controller" where
  "controller_step K (OE_Interact request scheduled) c = snd (Interact request scheduled c)"
| "controller_step K (OE_Commission request refused scheduled) c = snd (Commission K request refused scheduled c)"
| "controller_step K (OE_OpenWindow request refused scheduled) c = snd (OpenWindow K request refused scheduled c)"
| "controller_step K (OE_Subscribe request started scheduled) c = snd (Subscribe K request started scheduled c)"
| "controller_step K (OE_Activate subscription_id gen) c = snd (ActivateSubscription_impl K subscription_id gen c)"
| "controller_step K (OE_Cancel subscription_id gen scheduled waited) c = snd (CancelSubscription_impl K subscription_id gen scheduled waited c)"
| "controller_step K (OE_Pending n e scheduled) c = step_pending K n e scheduled c"
| "controller_step K (OE_Commissioning n e scheduled) c = step_held_commissioning K n e scheduled c"
| "controller_step K (OE_Window n e scheduled) c = step_held_window K n e scheduled c"
| "controller_step K (OE_Subscription n e scheduled) c = step_subscription K n e scheduled c"
| "controller_step K (OE_Complete device_id error connecting scheduled) c = OnCommissioningComplete K device_id error connecting scheduled c"
| "controller_step K (OE_Failure status scheduled) c = OnCommissioningFailure K status scheduled c"
| "controller_step K (OE_Stage stage scheduled) c = OnCommissioningStageStart K stage scheduled c"
| "controller_step K (OE_Dispatch a) c = dispatch_work K a c"
| "controller_step K (OE_BeginCleanup scheduled) c = begin_cleanup scheduled c"
| "controller_step K OE_EndCleanup c = end_cleanup c"

inductive controller_run :: "sdk \<Rightarrow> u64 \<Rightarrow> Controller \<Rightarrow> bool" for K fabric_id where
  opened: "controller_run K fabric_id (mk_controller fabric_id)"
| runs_on: "controller_run K fabric_id c \<Longrightarrow> enabled_controller e c \<Longrightarrow> controller_run K fabric_id (controller_step K e c)"

end
