(* ===== verification/ControllerContract.thy ===== *)
theory ControllerContract
  imports Controller
begin

text \<open>
  What holds on every run of the controller of \<^verbatim>\<open>native/src/controller.cpp\<close>: each of its tables meets the contract
  of a book, in which every entry is a run of its own class and every queued pointer has its entry.
\<close>

section \<open>Books\<close>

lemma pointers_mem: "w \<in> set q \<Longrightarrow> points k w = Some x \<Longrightarrow> x \<in> set (pointers k q)"
  by (induction q) (auto split: option.splits)

locale booked = startable step allows finished reaps cancels starts started
  for step :: "'e \<Rightarrow> 's \<Rightarrow> 's" and allows :: "'e \<Rightarrow> 's \<Rightarrow> bool" and finished :: "'s \<Rightarrow> bool" and reaps :: "'s \<Rightarrow> nat" and cancels :: "'s \<Rightarrow> bool"
    and starts :: "'e \<Rightarrow> bool" and started :: "'s \<Rightarrow> bool" +
  fixes k :: kind and genuine :: "'s \<Rightarrow> bool"
  assumes genuine_step: "genuine s \<Longrightarrow> allows e s \<Longrightarrow> genuine (step e s)"
begin

definition book :: "nat \<Rightarrow> (nat \<times> 's) list \<Rightarrow> work list \<Rightarrow> bool" where
  "book m t q \<longleftrightarrow> table_ok t (pointers k q) \<and> starts_ok t (pointers k q) \<and> (\<forall>(n, s)\<in>set t. n < m \<and> genuine s)"

lemma book_empty: "book m [] []"
  by (simp add: book_def table_ok_empty starts_ok_empty)

lemma book_later: "book m t q \<Longrightarrow> book (Suc m) t q"
  by (auto simp: book_def intro: less_SucI)

lemma book_other: "pointers k ws = [] \<Longrightarrow> book m t (q @ ws) = book m t q"
  by (simp add: book_def)

lemma book_pop: "book m t (w # q) \<Longrightarrow> book m t q"
  by (auto simp: book_def dest: table_ok_drop starts_ok_drop split: option.splits)

lemma book_admit:
  assumes "book m t q" "genuine s" "reaps s = 0" "\<not> started s"
  shows "book (Suc m) (t @ [(m, s)]) q" "book (Suc m) (t @ [(m, s)]) (q @ [Work k Ph_Start m])"
proof -
  have new: "m \<notin> fst ` set t" using assms(1) by (auto simp: book_def)
  have all: "\<forall>(n, s')\<in>set (t @ [(m, s)]). n < Suc m \<and> genuine s'" using assms(1,2) by (auto simp: book_def)
  have q: "pointers k (q @ [Work k Ph_Start m]) = pointers k q @ [(Ph_Start, m)]" by simp
  have ok: "table_ok t (pointers k q)" "starts_ok t (pointers k q)" using assms(1) by (simp_all add: book_def)
  from table_ok_admit [OF ok(1) new, of s] starts_ok_admit [OF ok(2,1) new, of s] all assms(3,4)
  show "book (Suc m) (t @ [(m, s)]) q" "book (Suc m) (t @ [(m, s)]) (q @ [Work k Ph_Start m])"
    unfolding book_def q by blast+
qed

lemma book_step:
  assumes ok: "book m t q" and s: "map_of t n = Some s" and e: "allows e s" "\<not> starts e \<or> (Ph_Start, n) \<notin> set (pointers k q)"
    and ws: "pointers k ws = queued n scheduled s (step e s)"
  shows "book m (put_entry n (step e s) t) (q @ ws)"
proof -
  have "(n, s) \<in> set t" using s by (rule map_of_SomeD)
  then have "n < m" "genuine (step e s)" using ok e(1) genuine_step by (auto simp: book_def)
  then have "\<forall>(i, s')\<in>set (put_entry n (step e s) t). i < m \<and> genuine s'"
    using ok by (auto simp: book_def put_entry_iff split: if_splits)
  then show ?thesis
    using ok table_ok_step [OF _ s e(1), of "pointers k q" scheduled] starts_ok_step [OF _ s e, of scheduled] ws
    by (simp add: book_def)
qed

lemma book_head:
  assumes "book m t (w # q)" "points k w = Some (ph, n)"
  obtains s where "map_of t n = Some s" "genuine s" "ph = Ph_Start \<Longrightarrow> \<not> started s \<and> (Ph_Start, n) \<notin> set (pointers k q)"
proof -
  have ok: "table_ok t ((ph, n) # pointers k q)" "starts_ok t ((ph, n) # pointers k q)" using assms by (simp_all add: book_def)
  obtain s where s: "map_of t n = Some s" using table_ok_target [OF ok(1)] by blast
  moreover have "genuine s" using assms(1) map_of_SomeD [OF s] by (auto simp: book_def)
  moreover have "ph = Ph_Start \<Longrightarrow> \<not> started s \<and> (Ph_Start, n) \<notin> set (pointers k q)" using starts_ok_target ok(2) s by blast
  ultimately show thesis by (rule that)
qed

lemma book_work:
  assumes "book m t q" "w \<in> set q" "points k w = Some (ph, n)"
  shows "\<exists>s. (n, s) \<in> set t \<and> (ph = Ph_Start \<longrightarrow> \<not> started s) \<and> (ph = Ph_Reap \<longrightarrow> finished s)"
proof -
  have p: "(ph, n) \<in> set (pointers k q)" using assms(2,3) by (rule pointers_mem)
  have ok: "table_ok t (pointers k q)" "starts_ok t (pointers k q)" using assms(1) by (simp_all add: book_def)
  then obtain s where s: "(n, s) \<in> set t" using p by (force simp: table_ok_def)
  then have "ph = Ph_Start \<longrightarrow> \<not> started s" "ph = Ph_Reap \<longrightarrow> finished s"
    using ok p by (auto simp: table_ok_def starts_ok_def)
  with s show ?thesis by blast
qed

lemma book_reap: "book m t (Work k Ph_Reap n # q) \<Longrightarrow> book m (reap_entry finished n t) q"
  using table_ok_reap [of t n "pointers k q"] starts_ok_reap [of t "pointers k q" n]
  by (auto simp: book_def reap_entry_iff dest: starts_ok_drop)

end

text \<open>The classes of the controller: an entry is a run of its class on a request that passed the validator.\<close>

definition genuine_pending :: "sdk \<Rightarrow> Pending \<Rightarrow> bool" where
  "genuine_pending K p \<longleftrightarrow>
     (\<exists>request. valid_interaction_request request \<and> pending_run (sdk_identifiers K) (sdk_decoders K) request p)"

definition genuine_subscription :: "sdk \<Rightarrow> NativeSubscription \<Rightarrow> bool" where
  "genuine_subscription K s \<longleftrightarrow>
     (\<exists>request. valid_subscription_request request \<and> subscription_run (sdk_identifiers K) (sdk_decoders K) request s)"

definition genuine_commissioning :: "sdk \<Rightarrow> u64 \<Rightarrow> PendingCommissioning \<Rightarrow> bool" where
  "genuine_commissioning K fabric_id s \<longleftrightarrow>
     (\<exists>request es. valid_commissioning_request request \<and> commissioning_run (sdk_setups K) fabric_id request es s)"

definition genuine_window :: "sdk \<Rightarrow> PendingWindow \<Rightarrow> bool" where
  "genuine_window K s \<longleftrightarrow> (\<exists>request es. valid_commissioning_window_request request \<and> window_run (sdk_setups K) request es s)"

interpretation pending_book: booked "pending_step (sdk_identifiers K) (sdk_decoders K)" enabled pd_done pd_reaps "\<lambda>_. False"
    starts_pending pd_started K_Interaction "genuine_pending K"
  by unfold_locales (auto simp: genuine_pending_def intro: stepped)

interpretation subscription_book: booked "subscription_step (sdk_identifiers K) (sdk_decoders K)" enabled_subscription ns_done ns_reaps
    ns_cancel_work starts_subscription ns_started K_Subscription "genuine_subscription K"
  by unfold_locales (auto simp: genuine_subscription_def intro: working)

interpretation commissioning_book: booked "commissioning_step (sdk_setups K)" enabled_commissioning pc_done pc_reaps "\<lambda>_. False"
    starts_commissioning pc_started K_Commissioning "genuine_commissioning K fabric_id"
  by unfold_locales (auto simp: genuine_commissioning_def intro: commissioning_goes_on)

interpretation window_book: booked "window_step (sdk_setups K)" enabled_window pw_done pw_reaps "\<lambda>_. False"
    starts_window pw_started K_Window "genuine_window K"
  by unfold_locales (auto simp: genuine_window_def intro: window_goes_on)

section \<open>The order of the queue\<close>

fun is_start :: "work \<Rightarrow> bool" where
  "is_start (Work k ph n) \<longleftrightarrow> ph = Ph_Start"
| "is_start Shutdown_work \<longleftrightarrow> False"

fun starts_first :: "work list \<Rightarrow> bool" where
  "starts_first [] \<longleftrightarrow> True"
| "starts_first (w # q) \<longleftrightarrow> (if w = Shutdown_work then list_all (\<lambda>w. \<not> is_start w) q else starts_first q)"

lemma starts_first_append: "starts_first q \<Longrightarrow> list_all (\<lambda>w. \<not> is_start w) ws \<Longrightarrow> starts_first (q @ ws)"
proof (induction q)
  case Nil
  then show ?case by (induction ws) auto
qed auto

lemma starts_first_accepting: "Shutdown_work \<notin> set q \<Longrightarrow> starts_first (q @ [w])"
  by (induction q) auto

lemma starts_first_tl: "starts_first (w # q) \<Longrightarrow> starts_first q"
  using starts_first_append [of "[]" q] by (auto split: if_splits)

lemma queue_works_facts [simp]:
  "list_all (\<lambda>w. \<not> is_start w) (queue_works k n scheduled b b' r r')" "Shutdown_work \<notin> set (queue_works k n scheduled b b' r r')"
  "(Ph_Start, i) \<notin> set (pointers k' (queue_works k n scheduled b b' r r'))"
  "k' \<noteq> k \<Longrightarrow> pointers k' (queue_works k n scheduled b b' r r') = []"
  by (simp_all add: queue_works_def)

lemma no_starts: "list_all (\<lambda>w. \<not> is_start w) q \<Longrightarrow> (Ph_Start, n) \<notin> set (pointers k q)"
proof (induction q)
  case (Cons w q)
  then show ?case by (cases w) auto
qed simp

section \<open>The invariant\<close>

definition fresh_pending :: "Controller \<Rightarrow> bool" where
  "fresh_pending c \<longleftrightarrow> (\<forall>(n, p)\<in>set (ct_pending c). (Ph_Start, n) \<in> set (pointers K_Interaction (ct_queue c)) \<longrightarrow> \<not> pd_done p)"

definition admission_inv :: "Controller \<Rightarrow> bool" where
  "admission_inv c \<longleftrightarrow>
     \<not> ct_dangling c \<and> ct_open c = ct_accepting_interactions c \<and> (Shutdown_work \<in> set (ct_queue c) \<longrightarrow> \<not> ct_accepting_interactions c) \<and>
     (ct_accepting_interactions c \<longleftrightarrow> ct_phase c = Ctl_Running) \<and> starts_first (ct_queue c) \<and> length (ct_pending c) \<le> 64 \<and>
     length (ct_subscriptions c) \<le> 64 \<and> (ct_commissioning c = None \<or> ct_window c = None) \<and> fresh_pending c"

definition books :: "sdk \<Rightarrow> Controller \<Rightarrow> bool" where
  "books K c \<longleftrightarrow>
     pending_book.book K (ct_next c) (ct_pending c) (ct_queue c) \<and>
     subscription_book.book K (ct_next c) (ct_subscriptions c) (ct_queue c) \<and>
     commissioning_book.book K (ct_fabric_id c) (ct_next c) (slot (ct_commissioning c)) (ct_queue c) \<and>
     window_book.book K (ct_next c) (slot (ct_window c)) (ct_queue c)"

definition controller_inv :: "sdk \<Rightarrow> Controller \<Rightarrow> bool" where
  "controller_inv K c \<longleftrightarrow> admission_inv c \<and> books K c"

subsection \<open>Steps of one operation\<close>

lemma queued_works:
  "pointers K_Interaction (queue_works K_Interaction n scheduled False False (pd_reaps p) (pd_reaps p')) = pending_table.queued n scheduled p p'"
  "pointers K_Subscription (queue_works K_Subscription n scheduled (ns_cancel_work s) (ns_cancel_work s') (ns_reaps s) (ns_reaps s')) =
     subscription_table.queued n scheduled s s'"
  "pointers K_Commissioning (queue_works K_Commissioning n scheduled b b' (pc_reaps m) (pc_reaps m')) = pc.table.queued n scheduled m m'"
  "pointers K_Window (queue_works K_Window n scheduled b b' (pw_reaps w) (pw_reaps w')) = pw.table.queued n scheduled w w'"
  by (simp_all add: queue_works_def pending_table.queued_def subscription_table.queued_def pc.table.queued_def
      pw.table.queued_def)

lemma run_stage: "pending_run I D request p \<Longrightarrow> \<exists>s. at_stage s p"
proof (induction rule: pending_run.induct)
  case created
  have "at_stage Created (mk_pending request)" by (simp add: mk_pending_def unsent_def latch_init_def)
  then show ?case by blast
qed (use step_stage in blast)

lemma unstarted_pending:
  assumes "genuine_pending K p" "\<not> pd_started p" "enabled e p" "\<not> starts_pending e" "e \<noteq> PE_Abort" "\<not> pd_done p"
  shows "\<not> pd_done (pending_step I D e p)"
proof -
  obtain s where "at_stage s p" using assms(1) run_stage unfolding genuine_pending_def by blast
  then have "at_stage Created p" using assms(2) at_stage_cases(4) by blast
  then show ?thesis using assms(3-) by (cases e) (simp_all add: Wait_def Let_def)
qed

lemma interaction_steps:
  assumes inv: "controller_inv K c" and p: "map_of (ct_pending c) n = Some p" and e: "enabled e p"
    and start: "\<not> starts_pending e \<or> (Ph_Start, n) \<notin> set (pointers K_Interaction (ct_queue c))"
    and abort: "e = PE_Abort \<Longrightarrow> (Ph_Start, n) \<notin> set (pointers K_Interaction (ct_queue c))"
  shows "controller_inv K (step_pending K n e scheduled c)"
proof -
  let ?p = "pending_step (sdk_identifiers K) (sdk_decoders K) e p"
  let ?c = "step_pending K n e scheduled c"
  have c: "?c = c\<lparr>ct_pending := put_entry n ?p (ct_pending c),
      ct_queue := ct_queue c @ queue_works K_Interaction n scheduled False False (pd_reaps p) (pd_reaps ?p)\<rparr>"
    by (simp add: step_pending_def p Let_def)
  have ok: "pending_book.book K (ct_next c) (ct_pending c) (ct_queue c)" using inv by (simp add: controller_inv_def books_def)
  have "(Ph_Start, n) \<in> set (pointers K_Interaction (ct_queue c)) \<Longrightarrow> \<not> pd_done ?p"
  proof -
    assume q: "(Ph_Start, n) \<in> set (pointers K_Interaction (ct_queue c))"
    have mem: "(n, p) \<in> set (ct_pending c)" using p by (rule map_of_SomeD)
    then have "genuine_pending K p" "\<not> pd_started p"
      using ok q by (auto simp: pending_book.book_def pending_table.starts_ok_def)
    moreover have "\<not> pd_done p" using inv mem q by (auto simp: controller_inv_def admission_inv_def fresh_pending_def)
    ultimately show ?thesis using unstarted_pending e start abort q by blast
  qed
  then have "fresh_pending ?c"
    using inv by (auto simp: c controller_inv_def admission_inv_def fresh_pending_def put_entry_iff split: if_splits)
  then have "admission_inv ?c"
    using inv by (auto simp: c controller_inv_def admission_inv_def intro: starts_first_append)
  moreover have "books K ?c"
    using inv pending_book.book_step [OF ok p e start queued_works(1)]
    by (simp add: c controller_inv_def books_def subscription_book.book_other commissioning_book.book_other window_book.book_other)
  ultimately show ?thesis by (simp add: controller_inv_def)
qed

lemma subscription_steps:
  assumes inv: "controller_inv K c" and s: "map_of (ct_subscriptions c) n = Some s" and e: "enabled_subscription e s"
    and start: "\<not> starts_subscription e \<or> (Ph_Start, n) \<notin> set (pointers K_Subscription (ct_queue c))"
  shows "controller_inv K (step_subscription K n e scheduled c)"
proof -
  have ok: "subscription_book.book K (ct_next c) (ct_subscriptions c) (ct_queue c)" using inv by (simp add: controller_inv_def books_def)
  show ?thesis
    using inv subscription_book.book_step [OF ok s e start queued_works(2), of scheduled]
    by (auto simp: step_subscription_def s Let_def controller_inv_def books_def admission_inv_def fresh_pending_def
        pending_book.book_other commissioning_book.book_other window_book.book_other starts_first_append)
qed

lemma put_slot [simp]: "put_entry n s' [(n, s)] = [(n, s')]"
  by (simp add: put_entry_def)

lemma commissioning_steps:
  assumes inv: "controller_inv K c" and s: "ct_commissioning c = Some (n, s)" and e: "enabled_commissioning e s"
    and start: "\<not> starts_commissioning e \<or> (Ph_Start, n) \<notin> set (pointers K_Commissioning (ct_queue c))"
  shows "controller_inv K (step_commissioning K n e scheduled c)"
proof -
  have ok: "commissioning_book.book K (ct_fabric_id c) (ct_next c) [(n, s)] (ct_queue c)"
    using inv s by (simp add: controller_inv_def books_def)
  show ?thesis
    using inv commissioning_book.book_step [OF ok _ e start queued_works(3), of scheduled]
    by (auto simp: step_commissioning_def s Let_def controller_inv_def books_def admission_inv_def fresh_pending_def
        pending_book.book_other subscription_book.book_other window_book.book_other starts_first_append)
qed

lemma window_steps:
  assumes inv: "controller_inv K c" and s: "ct_window c = Some (n, s)" and e: "enabled_window e s"
    and start: "\<not> starts_window e \<or> (Ph_Start, n) \<notin> set (pointers K_Window (ct_queue c))"
  shows "controller_inv K (step_window K n e scheduled c)"
proof -
  have ok: "window_book.book K (ct_next c) [(n, s)] (ct_queue c)"
    using inv s by (simp add: controller_inv_def books_def)
  show ?thesis
    using inv window_book.book_step [OF ok _ e start queued_works(4), of scheduled]
    by (auto simp: step_window_def s Let_def controller_inv_def books_def admission_inv_def fresh_pending_def
        pending_book.book_other subscription_book.book_other commissioning_book.book_other starts_first_append)
qed

subsection \<open>Operations that have left their slot\<close>

text \<open>A detached operation is finished, so that it queues no further reaper; a queued cancellation has its operation in the slot or
  among the detached ones.\<close>

definition cancels_of :: "kind \<Rightarrow> work list \<Rightarrow> nat set" where
  "cancels_of k q = {n. Work k Ph_Cancel n \<in> set q}"

definition detached_ok :: "sdk \<Rightarrow> Controller \<Rightarrow> bool" where
  "detached_ok K c \<longleftrightarrow>
     (\<forall>(n, s)\<in>set (ct_detached_commissionings c). genuine_commissioning K (ct_fabric_id c) s \<and> pc_done s) \<and>
     (\<forall>(n, s)\<in>set (ct_detached_windows c). genuine_window K s \<and> pw_done s \<and> \<not> pw_starting s \<and> \<not> pw_opening s)"

definition held_ok :: "Controller \<Rightarrow> bool" where
  "held_ok c \<longleftrightarrow>
     cancels_of K_Commissioning (ct_queue c) \<subseteq> fst ` set (slot (ct_commissioning c) @ ct_detached_commissionings c) \<and>
     cancels_of K_Window (ct_queue c) \<subseteq> fst ` set (slot (ct_window c) @ ct_detached_windows c)"

definition shares_ok :: "sdk \<Rightarrow> Controller \<Rightarrow> bool" where
  "shares_ok K c \<longleftrightarrow> detached_ok K c \<and> held_ok c"

lemma cancels_simps [simp]:
  "cancels_of k [] = {}" "cancels_of k (q @ q') = cancels_of k q \<union> cancels_of k q'"
  "cancels_of k (Work k' ph n # q) = (if k' = k \<and> ph = Ph_Cancel then {n} else {}) \<union> cancels_of k q"
  "cancels_of k (Shutdown_work # q) = cancels_of k q"
  by (auto simp: cancels_of_def)

lemma slot_ids: "x = None \<or> map_option fst y = map_option fst x \<Longrightarrow> fst ` set (slot x) \<subseteq> fst ` set (slot y)"
  by (cases x; cases y) auto

lemma subset_grows: "A \<subseteq> X \<union> D \<Longrightarrow> X \<subseteq> Y \<Longrightarrow> B \<subseteq> A \<union> Y \<Longrightarrow> B \<subseteq> Y \<union> D"
  by blast

lemma shares_frame:
  assumes "shares_ok K c" "ct_fabric_id c' = ct_fabric_id c"
    "ct_detached_commissionings c' = ct_detached_commissionings c" "ct_detached_windows c' = ct_detached_windows c"
    "ct_commissioning c = None \<or> map_option fst (ct_commissioning c') = map_option fst (ct_commissioning c)"
    "ct_window c = None \<or> map_option fst (ct_window c') = map_option fst (ct_window c)"
    "cancels_of K_Commissioning (ct_queue c') \<subseteq> cancels_of K_Commissioning (ct_queue c) \<union> fst ` set (slot (ct_commissioning c'))"
    "cancels_of K_Window (ct_queue c') \<subseteq> cancels_of K_Window (ct_queue c) \<union> fst ` set (slot (ct_window c'))"
  shows "shares_ok K c'"
proof -
  have held: "cancels_of K_Commissioning (ct_queue c) \<subseteq> fst ` set (slot (ct_commissioning c)) \<union> fst ` set (ct_detached_commissionings c)"
    "cancels_of K_Window (ct_queue c) \<subseteq> fst ` set (slot (ct_window c)) \<union> fst ` set (ct_detached_windows c)"
    using assms(1) unfolding shares_ok_def held_ok_def set_append image_Un by blast+
  have "held_ok c'"
    unfolding held_ok_def set_append image_Un assms(3,4)
    using subset_grows [OF held(1) slot_ids [OF assms(5)] assms(7)] subset_grows [OF held(2) slot_ids [OF assms(6)] assms(8)] by blast
  moreover have "detached_ok K c'" using assms(1-4) by (simp add: shares_ok_def detached_ok_def)
  ultimately show ?thesis by (simp add: shares_ok_def)
qed

lemma other_steps_share [simp]:
  assumes sh: "shares_ok K c"
  shows "shares_ok K (step_pending K n e1 b c)" "shares_ok K (step_subscription K n e2 b c)"
  by (rule shares_frame [OF sh]; cases "map_of (ct_pending c) n"; simp add: step_pending_def dangle_def queue_works_def Let_def)
    (rule shares_frame [OF sh]; cases "map_of (ct_subscriptions c) n"; simp add: step_subscription_def dangle_def queue_works_def Let_def)

lemma slot_steps_share [simp]:
  assumes sh: "shares_ok K c"
  shows "shares_ok K (step_commissioning K n e3 b c)" "shares_ok K (step_window K n e4 b c)"
proof -
  have dangling: "shares_ok K (dangle c)" by (rule shares_frame [OF sh]) (simp_all add: dangle_def)
  show "shares_ok K (step_commissioning K n e3 b c)"
  proof (cases "\<exists>s. ct_commissioning c = Some (n, s)")
    case True
    then obtain s where "ct_commissioning c = Some (n, s)" by blast
    then show ?thesis
      by (intro shares_frame [OF sh]) (auto simp: step_commissioning_def Let_def queue_works_def)
  next
    case False
    then show ?thesis using dangling by (auto simp: step_commissioning_def split: option.split)
  qed
  show "shares_ok K (step_window K n e4 b c)"
  proof (cases "\<exists>s. ct_window c = Some (n, s)")
    case True
    then obtain s where "ct_window c = Some (n, s)" by blast
    then show ?thesis
      by (intro shares_frame [OF sh]) (auto simp: step_window_def Let_def queue_works_def)
  next
    case False
    then show ?thesis using dangling by (auto simp: step_window_def split: option.split)
  qed
qed

lemma window_idle_step:
  assumes "\<not> pw_starting s \<and> \<not> pw_opening s" "enabled_window e s" "\<not> starts_window e"
  shows "\<not> pw_starting (window_step E e s) \<and> \<not> pw_opening (window_step E e s)"
  using assms
  by (cases e) (simp_all add: Wait_window_def ScheduleAbort_window_def AbortOnSdkThread_window_def Opened_def finish_window_def
      Publish_window_def MarkDone_window_def Let_def)

lemma detached_commissioning_steps:
  assumes inv: "controller_inv K c" and sh: "shares_ok K c" and s: "map_of (ct_detached_commissionings c) n = Some s"
    and e: "enabled_commissioning e s"
  shows "controller_inv K (step_detached_commissioning K n e scheduled c) \<and> shares_ok K (step_detached_commissioning K n e scheduled c)"
proof -
  let ?s = "commissioning_step (sdk_setups K) e s"
  have ok: "genuine_commissioning K (ct_fabric_id c) s" "pc_done s"
    using sh map_of_SomeD [OF s] by (auto simp: shares_ok_def detached_ok_def)
  have s': "pc_reaps ?s = pc_reaps s" "pc_done ?s" "genuine_commissioning K (ct_fabric_id c) ?s"
    using pc.table.reap_step [OF e, of "sdk_setups K"] pc.table.finished_stays [OF e ok(2), of "sdk_setups K"] ok
      commissioning_book.genuine_step [OF ok(1) e] by auto
  define ws where "ws = queue_works K_Commissioning n scheduled (pc_cancel_work s) (pc_cancel_work ?s) (pc_reaps s) (pc_reaps ?s)"
  have ws: "pointers k ws = []" "list_all (\<lambda>w. \<not> is_start w) ws" "Shutdown_work \<notin> set ws" for k
    by (simp_all add: ws_def queue_works_def s'(1))
  have c: "step_detached_commissioning K n e scheduled c = c\<lparr>ct_detached_commissionings := put_entry n ?s (ct_detached_commissionings c),
      ct_queue := ct_queue c @ ws\<rparr>"
    by (simp add: step_detached_commissioning_def s ws_def Let_def)
  have "controller_inv K (step_detached_commissioning K n e scheduled c)"
    using inv ws by (auto simp: c controller_inv_def admission_inv_def fresh_pending_def books_def pending_book.book_other
        subscription_book.book_other commissioning_book.book_other window_book.book_other starts_first_append)
  moreover have "detached_ok K (step_detached_commissioning K n e scheduled c)"
    using sh s' by (auto simp: c shares_ok_def detached_ok_def put_entry_iff split: if_splits)
  moreover have "held_ok (step_detached_commissioning K n e scheduled c)"
  proof -
    have "fst ` set (put_entry n ?s (ct_detached_commissionings c)) = fst ` set (ct_detached_commissionings c)"
      by (metis list.set_map put_entry_ids(1))
    moreover have "n \<in> fst ` set (ct_detached_commissionings c)" using map_of_SomeD [OF s] by force
    moreover have "cancels_of K_Commissioning ws \<subseteq> {n}" "cancels_of K_Window ws = {}" by (simp_all add: ws_def queue_works_def)
    ultimately show ?thesis using sh by (auto simp: c shares_ok_def held_ok_def image_Un)
  qed
  ultimately show ?thesis by (simp add: shares_ok_def)
qed

lemma detached_window_steps:
  assumes inv: "controller_inv K c" and sh: "shares_ok K c" and s: "map_of (ct_detached_windows c) n = Some s"
    and e: "enabled_window e s" "\<not> starts_window e"
  shows "controller_inv K (step_detached_window K n e scheduled c) \<and> shares_ok K (step_detached_window K n e scheduled c)"
proof -
  let ?s = "window_step (sdk_setups K) e s"
  have ok: "genuine_window K s" "pw_done s" "\<not> pw_starting s \<and> \<not> pw_opening s"
    using sh map_of_SomeD [OF s] by (auto simp: shares_ok_def detached_ok_def)
  have s': "pw_reaps ?s = pw_reaps s" "pw_done ?s" "genuine_window K ?s" "\<not> pw_starting ?s \<and> \<not> pw_opening ?s"
    using pw.table.reap_step [OF e(1), of "sdk_setups K"] pw.table.finished_stays [OF e(1) ok(2), of "sdk_setups K"] ok
      window_book.genuine_step [OF ok(1) e(1)] window_idle_step [OF ok(3) e] by auto
  define ws where "ws = queue_works K_Window n scheduled (pw_cancel_work s) (pw_cancel_work ?s) (pw_reaps s) (pw_reaps ?s)"
  have ws: "pointers k ws = []" "list_all (\<lambda>w. \<not> is_start w) ws" "Shutdown_work \<notin> set ws" for k
    by (simp_all add: ws_def queue_works_def s'(1))
  have c: "step_detached_window K n e scheduled c = c\<lparr>ct_detached_windows := put_entry n ?s (ct_detached_windows c),
      ct_queue := ct_queue c @ ws\<rparr>"
    by (simp add: step_detached_window_def s ws_def Let_def)
  have "controller_inv K (step_detached_window K n e scheduled c)"
    using inv ws by (auto simp: c controller_inv_def admission_inv_def fresh_pending_def books_def pending_book.book_other
        subscription_book.book_other commissioning_book.book_other window_book.book_other starts_first_append)
  moreover have "detached_ok K (step_detached_window K n e scheduled c)"
    using sh s' by (auto simp: c shares_ok_def detached_ok_def put_entry_iff split: if_splits)
  moreover have "held_ok (step_detached_window K n e scheduled c)"
  proof -
    have "fst ` set (put_entry n ?s (ct_detached_windows c)) = fst ` set (ct_detached_windows c)"
      by (metis list.set_map put_entry_ids(1))
    moreover have "n \<in> fst ` set (ct_detached_windows c)" using map_of_SomeD [OF s] by force
    moreover have "cancels_of K_Window ws \<subseteq> {n}" "cancels_of K_Commissioning ws = {}" by (simp_all add: ws_def queue_works_def)
    ultimately show ?thesis using sh by (auto simp: c shares_ok_def held_ok_def image_Un)
  qed
  ultimately show ?thesis by (simp add: shares_ok_def)
qed

text \<open>An operation in the slot or among the detached ones.\<close>

lemma held_lookup:
  assumes "map_of (slot x @ d) n = Some s"
  obtains "x = Some (n, s)" | "map_option fst x \<noteq> Some n" "map_of d n = Some s"
  using assms that by (cases x) (auto split: if_splits)

lemma held_commissioning_steps:
  assumes inv: "controller_inv K c" and sh: "shares_ok K c" and e: "enabled_commissioning e s" "\<not> starts_commissioning e"
    and s: "map_of (slot (ct_commissioning c) @ ct_detached_commissionings c) n = Some s"
  shows "controller_inv K (step_held_commissioning K n e scheduled c) \<and> shares_ok K (step_held_commissioning K n e scheduled c)"
  using s
proof (rule held_lookup)
  assume "ct_commissioning c = Some (n, s)"
  then show ?thesis using commissioning_steps [OF inv _ e(1)] e(2) sh by (simp add: step_held_commissioning_def)
next
  assume "map_option fst (ct_commissioning c) \<noteq> Some n" "map_of (ct_detached_commissionings c) n = Some s"
  then show ?thesis using detached_commissioning_steps [OF inv sh _ e(1)] by (simp add: step_held_commissioning_def)
qed

lemma held_window_steps:
  assumes inv: "controller_inv K c" and sh: "shares_ok K c" and e: "enabled_window e s" "\<not> starts_window e"
    and s: "map_of (slot (ct_window c) @ ct_detached_windows c) n = Some s"
  shows "controller_inv K (step_held_window K n e scheduled c) \<and> shares_ok K (step_held_window K n e scheduled c)"
  using s
proof (rule held_lookup)
  assume "ct_window c = Some (n, s)"
  then show ?thesis using window_steps [OF inv _ e(1)] e(2) sh by (simp add: step_held_window_def)
next
  assume "map_option fst (ct_window c) \<noteq> Some n" "map_of (ct_detached_windows c) n = Some s"
  then show ?thesis using detached_window_steps [OF inv sh _ e] by (simp add: step_held_window_def)
qed

subsection \<open>Admission\<close>

lemma genuine_new:
  "valid_interaction_request q1 \<Longrightarrow> genuine_pending K (mk_pending q1)" "valid_subscription_request q2 \<Longrightarrow> genuine_subscription K (mk_subscription q2)"
  "valid_commissioning_request q3 \<Longrightarrow> genuine_commissioning K fabric_id (mk_commissioning fabric_id q3)"
  "valid_commissioning_window_request q4 \<Longrightarrow> genuine_window K (mk_window q4)"
  by (auto simp: genuine_pending_def genuine_subscription_def genuine_commissioning_def genuine_window_def
      intro: created subscribing commissioning_begins window_begins)

lemma new_operations [simp]:
  "pd_reaps (mk_pending q1) = 0" "\<not> pd_started (mk_pending q1)" "\<not> pd_done (mk_pending q1)"
  "ns_reaps (mk_subscription q2) = 0" "\<not> ns_started (mk_subscription q2)" "ns_sdk (mk_subscription q2) = K_Idle"
  "pc_reaps (mk_commissioning fabric_id q3) = 0" "\<not> pc_started (mk_commissioning fabric_id q3)"
  "pw_reaps (mk_window q4) = 0" "\<not> pw_started (mk_window q4)"
  by (simp_all add: mk_pending_def mk_subscription_def mk_commissioning_def mk_window_def)

lemmas all_books = pending_book.book_other subscription_book.book_other commissioning_book.book_other window_book.book_other
  pending_book.book_later subscription_book.book_later commissioning_book.book_later window_book.book_later

lemma fresh_number:
  assumes "books K c"
  shows "ct_next c \<notin> fst ` set (ct_pending c)" "ct_next c \<notin> fst ` set (ct_subscriptions c)"
    "(Ph_Start, ct_next c) \<notin> set (pointers k (ct_queue c))"
proof -
  have b: "\<forall>n\<in>fst ` set (ct_pending c). n < ct_next c" "\<forall>n\<in>fst ` set (ct_subscriptions c). n < ct_next c"
    using assms by (auto simp: books_def pending_book.book_def subscription_book.book_def)
  then show "ct_next c \<notin> fst ` set (ct_pending c)" "ct_next c \<notin> fst ` set (ct_subscriptions c)" by blast+
  have "snd ` set (pointers k (ct_queue c)) \<subseteq> {..<ct_next c}"
  proof (cases k)
    case K_Interaction
    then show ?thesis using assms by (force simp: books_def pending_book.book_def pending_table.table_ok_def)
  next
    case K_Subscription
    then show ?thesis using assms by (force simp: books_def subscription_book.book_def subscription_table.table_ok_def)
  next
    case K_Commissioning
    then show ?thesis using assms by (force simp: books_def commissioning_book.book_def pc.table.table_ok_def)
  next
    case K_Window
    then show ?thesis using assms by (force simp: books_def window_book.book_def pw.table.table_ok_def)
  qed
  then show "(Ph_Start, ct_next c) \<notin> set (pointers k (ct_queue c))" by force
qed

lemma Interact_inv:
  assumes inv: "controller_inv K c"
  shows "controller_inv K (snd (Interact request scheduled c))"
proof (cases "ct_open c \<and> valid_interaction_request request \<and> length (ct_pending c) < 64")
  case True
  have acc: "ct_accepting_interactions c" using True inv by (simp add: controller_inv_def admission_inv_def)
  have "books K c" using inv by (simp add: controller_inv_def)
  note new = fresh_number [OF this]
  have ok: "pending_book.book K (ct_next c) (ct_pending c) (ct_queue c)" using inv by (simp add: controller_inv_def books_def)
  let ?p = "mk_pending request"
  show ?thesis
  proof (cases scheduled)
    case s: True
    let ?c = "snd (Interact request scheduled c)"
    have c: "?c = c\<lparr>ct_next := Suc (ct_next c), ct_pending := ct_pending c @ [(ct_next c, ?p)],
        ct_queue := ct_queue c @ [Work K_Interaction Ph_Start (ct_next c)]\<rparr>"
      using True acc s by (simp add: Interact_def Let_def enqueue_def)
    have "fresh_pending ?c" using inv new(1) by (force simp: c controller_inv_def admission_inv_def fresh_pending_def)
    then have "admission_inv ?c"
      using inv acc True by (auto simp: c controller_inv_def admission_inv_def intro: starts_first_accepting)
    moreover have "books K ?c"
      using inv pending_book.book_admit(2) [OF ok genuine_new(1)] True
      by (simp add: c controller_inv_def books_def all_books)
    ultimately show ?thesis by (simp add: controller_inv_def)
  next
    case s: False
    have "reap_entry pd_done (ct_next c) (ct_pending c @ [(ct_next c, x\<lparr>pd_done := True\<rparr>)]) = ct_pending c" for x
      using new(1) by (force simp: reap_entry_def intro!: filter_True)
    then have "snd (Interact request scheduled c) = c\<lparr>ct_next := Suc (ct_next c)\<rparr>"
      using True acc s by (simp add: Interact_def Let_def)
    moreover have "admission_inv (c\<lparr>ct_next := Suc (ct_next c)\<rparr>)" "books K (c\<lparr>ct_next := Suc (ct_next c)\<rparr>)"
      using inv by (auto simp: controller_inv_def admission_inv_def fresh_pending_def books_def intro: all_books(5-8))
    ultimately show ?thesis by (simp add: controller_inv_def)
  qed
qed (use inv in \<open>auto simp: Interact_def\<close>)

text \<open>The other admissions put the operation into its table and then queue its start or step it.\<close>

lemma admitted_subscription:
  assumes inv: "controller_inv K c" and acc: "ct_accepting_interactions c" and "valid_subscription_request request" "length (ct_subscriptions c) < 64"
  shows "controller_inv K (c\<lparr>ct_next := Suc (ct_next c), ct_subscriptions := ct_subscriptions c @ [(ct_next c, mk_subscription request)]\<rparr>)"
    "controller_inv K (enqueue (Work K_Subscription Ph_Start (ct_next c))
       (c\<lparr>ct_next := Suc (ct_next c), ct_subscriptions := ct_subscriptions c @ [(ct_next c, mk_subscription request)]\<rparr>))"
proof -
  have ok: "subscription_book.book K (ct_next c) (ct_subscriptions c) (ct_queue c)" using inv by (simp add: controller_inv_def books_def)
  note admit = subscription_book.book_admit [OF ok genuine_new(2) [OF assms(3)]]
  show "controller_inv K (c\<lparr>ct_next := Suc (ct_next c), ct_subscriptions := ct_subscriptions c @ [(ct_next c, mk_subscription request)]\<rparr>)"
    using assms admit(1) by (simp add: controller_inv_def admission_inv_def fresh_pending_def books_def all_books)
  show "controller_inv K (enqueue (Work K_Subscription Ph_Start (ct_next c))
       (c\<lparr>ct_next := Suc (ct_next c), ct_subscriptions := ct_subscriptions c @ [(ct_next c, mk_subscription request)]\<rparr>))"
    using assms admit(2) by (simp add: enqueue_def controller_inv_def admission_inv_def fresh_pending_def books_def all_books starts_first_accepting)
qed

lemma Subscribe_inv:
  assumes inv: "controller_inv K c"
  shows "controller_inv K (snd (Subscribe K request taken scheduled c))"
proof (cases "ct_open c \<and> valid_subscription_request request \<and> length (ct_subscriptions c) < 64")
  case True
  have acc: "ct_accepting_interactions c" using True inv by (simp add: controller_inv_def admission_inv_def)
  have "books K c" using inv by (simp add: controller_inv_def)
  note new = fresh_number [OF this]
  note admitted = admitted_subscription [OF inv acc, of request]
  let ?c = "c\<lparr>ct_next := Suc (ct_next c), ct_subscriptions := ct_subscriptions c @ [(ct_next c, mk_subscription request)]\<rparr>"
  have "map_of (ct_subscriptions ?c) (ct_next c) = Some (mk_subscription request)"
    using new(2) map_of_eq_None_iff [of "ct_subscriptions c" "ct_next c"] by (simp add: map_add_def)
  from subscription_steps [OF _ this, of K NE_Unavailable scheduled] admitted new(3) True acc
  show ?thesis by (simp add: Subscribe_def Let_def)
qed (use inv in \<open>auto simp: Subscribe_def\<close>)

lemma admitted_commissioning:
  assumes inv: "controller_inv K c" and acc: "ct_accepting_interactions c" and "valid_commissioning_request request"
    "ct_commissioning c = None" "ct_window c = None"
  shows "controller_inv K (c\<lparr>ct_next := Suc (ct_next c), ct_commissioning := Some (ct_next c, mk_commissioning (ct_fabric_id c) request)\<rparr>)"
    "controller_inv K (enqueue (Work K_Commissioning Ph_Start (ct_next c))
       (c\<lparr>ct_next := Suc (ct_next c), ct_commissioning := Some (ct_next c, mk_commissioning (ct_fabric_id c) request)\<rparr>))"
proof -
  have ok: "commissioning_book.book K (ct_fabric_id c) (ct_next c) [] (ct_queue c)" using inv assms(4) by (simp add: controller_inv_def books_def)
  note admit = commissioning_book.book_admit [OF ok genuine_new(3) [OF assms(3)]]
  show "controller_inv K (c\<lparr>ct_next := Suc (ct_next c), ct_commissioning := Some (ct_next c, mk_commissioning (ct_fabric_id c) request)\<rparr>)"
    using assms admit(1) by (simp add: controller_inv_def admission_inv_def fresh_pending_def books_def all_books)
  show "controller_inv K (enqueue (Work K_Commissioning Ph_Start (ct_next c))
       (c\<lparr>ct_next := Suc (ct_next c), ct_commissioning := Some (ct_next c, mk_commissioning (ct_fabric_id c) request)\<rparr>))"
    using assms admit(2) by (simp add: enqueue_def controller_inv_def admission_inv_def fresh_pending_def books_def all_books starts_first_accepting)
qed

lemma Commission_inv:
  assumes inv: "controller_inv K c"
  shows "controller_inv K (snd (Commission K request refused scheduled c))"
proof (cases "ct_open c \<and> valid_commissioning_request request \<and> ct_commissioning c = None \<and> ct_window c = None \<and> length (ct_pending c) < 64")
  case True
  have acc: "ct_accepting_interactions c" using True inv by (simp add: controller_inv_def admission_inv_def)
  have "books K c" using inv by (simp add: controller_inv_def)
  note new = fresh_number(3) [OF this]
  note admitted = admitted_commissioning [OF inv acc, of request]
  let ?c = "c\<lparr>ct_next := Suc (ct_next c), ct_commissioning := Some (ct_next c, mk_commissioning (ct_fabric_id c) request)\<rparr>"
  have "ct_commissioning ?c = Some (ct_next c, mk_commissioning (ct_fabric_id c) request)" by simp
  from commissioning_steps [OF _ this, of K "CE_Unavailable e" scheduled for e] admitted new True acc
  show ?thesis by (simp add: Commission_def Let_def split: option.split)
qed (use inv in \<open>auto simp: Commission_def\<close>)

lemma admitted_window:
  assumes inv: "controller_inv K c" and acc: "ct_accepting_interactions c" and "valid_commissioning_window_request request"
    "ct_commissioning c = None" "ct_window c = None"
  shows "controller_inv K (c\<lparr>ct_next := Suc (ct_next c), ct_window := Some (ct_next c, mk_window request)\<rparr>)"
    "controller_inv K (enqueue (Work K_Window Ph_Start (ct_next c))
       (c\<lparr>ct_next := Suc (ct_next c), ct_window := Some (ct_next c, mk_window request)\<rparr>))"
proof -
  have ok: "window_book.book K (ct_next c) [] (ct_queue c)" using inv assms(5) by (simp add: controller_inv_def books_def)
  note admit = window_book.book_admit [OF ok genuine_new(4) [OF assms(3)]]
  show "controller_inv K (c\<lparr>ct_next := Suc (ct_next c), ct_window := Some (ct_next c, mk_window request)\<rparr>)"
    using assms admit(1) by (simp add: controller_inv_def admission_inv_def fresh_pending_def books_def all_books)
  show "controller_inv K (enqueue (Work K_Window Ph_Start (ct_next c))
       (c\<lparr>ct_next := Suc (ct_next c), ct_window := Some (ct_next c, mk_window request)\<rparr>))"
    using assms admit(2) by (simp add: enqueue_def controller_inv_def admission_inv_def fresh_pending_def books_def all_books starts_first_accepting)
qed

lemma OpenWindow_inv:
  assumes inv: "controller_inv K c"
  shows "controller_inv K (snd (OpenWindow K request refused scheduled c))"
proof (cases "ct_open c \<and> valid_commissioning_window_request request \<and> ct_commissioning c = None \<and> ct_window c = None \<and> length (ct_pending c) < 64")
  case True
  have acc: "ct_accepting_interactions c" using True inv by (simp add: controller_inv_def admission_inv_def)
  have "books K c" using inv by (simp add: controller_inv_def)
  note new = fresh_number(3) [OF this]
  note admitted = admitted_window [OF inv acc, of request]
  let ?c = "c\<lparr>ct_next := Suc (ct_next c), ct_window := Some (ct_next c, mk_window request)\<rparr>"
  have "ct_window ?c = Some (ct_next c, mk_window request)" by simp
  from window_steps [OF _ this, of K "WE_Unavailable e" scheduled for e] admitted new True acc
  show ?thesis by (simp add: OpenWindow_def Let_def split: option.split)
qed (use inv in \<open>auto simp: OpenWindow_def\<close>)

subsection \<open>The SDK thread\<close>

lemma pop_inv: "controller_inv K c \<Longrightarrow> ct_queue c = w # q \<Longrightarrow> controller_inv K (c\<lparr>ct_queue := q\<rparr>)"
proof -
  assume inv: "controller_inv K c" and q: "ct_queue c = w # q"
  have "set (pointers K_Interaction q) \<subseteq> set (pointers K_Interaction (w # q))" by (auto split: option.split)
  then have "fresh_pending (c\<lparr>ct_queue := q\<rparr>)"
    using inv q by (fastforce simp: controller_inv_def admission_inv_def fresh_pending_def)
  then show ?thesis
    using inv q starts_first_tl [of w q]
    by (auto simp: controller_inv_def admission_inv_def books_def
        dest: pending_book.book_pop subscription_book.book_pop commissioning_book.book_pop window_book.book_pop)
qed

lemma Release_inv [simp]: "controller_inv K (ReleaseUnusedSessionSetup node c) = controller_inv K c"
  by (simp add: ReleaseUnusedSessionSetup_def controller_inv_def admission_inv_def fresh_pending_def books_def)

lemma reap_facts: "length (reap_entry P n t) \<le> length t" "set (reap_entry P n t) \<subseteq> set t"
  by (auto simp: reap_entry_def)

lemma ReapPending_inv:
  assumes inv: "controller_inv K c" and q: "ct_queue c = Work K_Interaction Ph_Reap n # q"
  shows "controller_inv K (ReapPending n (c\<lparr>ct_queue := q\<rparr>))"
proof -
  have ok: "pending_book.book K (ct_next c) (ct_pending c) (Work K_Interaction Ph_Reap n # q)" using inv q by (simp add: controller_inv_def books_def)
  obtain p where p: "map_of (ct_pending c) n = Some p" using pending_book.book_head [OF ok, of Ph_Reap n] by auto
  let ?c = "c\<lparr>ct_queue := q, ct_pending := reap_entry pd_done n (ct_pending c)\<rparr>"
  have "admission_inv ?c"
    using pop_inv [OF inv q] reap_facts(1) [of pd_done n "ct_pending c"]
    by (auto simp: controller_inv_def admission_inv_def fresh_pending_def reap_entry_iff)
  moreover have "books K ?c" using pop_inv [OF inv q] pending_book.book_reap [OF ok] by (simp add: controller_inv_def books_def)
  ultimately have "controller_inv K ?c" by (simp add: controller_inv_def)
  then show ?thesis by (simp add: ReapPending_def p)
qed

lemma ReapSubscription_inv:
  assumes inv: "controller_inv K c" and q: "ct_queue c = Work K_Subscription Ph_Reap n # q"
  shows "controller_inv K (ReapSubscription n (c\<lparr>ct_queue := q\<rparr>))"
proof -
  have ok: "subscription_book.book K (ct_next c) (ct_subscriptions c) (Work K_Subscription Ph_Reap n # q)"
    using inv q by (simp add: controller_inv_def books_def)
  obtain s where s: "map_of (ct_subscriptions c) n = Some s" using subscription_book.book_head [OF ok, of Ph_Reap n] by auto
  let ?c = "c\<lparr>ct_queue := q, ct_subscriptions := reap_entry ns_done n (ct_subscriptions c)\<rparr>"
  have "admission_inv ?c"
    using pop_inv [OF inv q] reap_facts(1) [of ns_done n "ct_subscriptions c"]
    by (auto simp: controller_inv_def admission_inv_def fresh_pending_def)
  moreover have "books K ?c" using pop_inv [OF inv q] subscription_book.book_reap [OF ok] by (simp add: controller_inv_def books_def)
  ultimately have "controller_inv K ?c" by (simp add: controller_inv_def)
  then show ?thesis by (simp add: ReapSubscription_def s)
qed

lemma slot_lookup: "map_of (slot x) n = Some s \<Longrightarrow> x = Some (n, s)"
  by (cases x) (auto split: if_splits)

lemma ReapCommissioning_inv:
  assumes inv: "controller_inv K c" and q: "ct_queue c = Work K_Commissioning Ph_Reap n # q"
  shows "controller_inv K (ReapCommissioning n (c\<lparr>ct_queue := q\<rparr>))"
proof -
  have ok: "commissioning_book.book K (ct_fabric_id c) (ct_next c) (slot (ct_commissioning c)) (Work K_Commissioning Ph_Reap n # q)"
    using inv q by (simp add: controller_inv_def books_def)
  obtain s where s: "map_of (slot (ct_commissioning c)) n = Some s" using commissioning_book.book_head [OF ok, of Ph_Reap n] by auto
  then have c: "ct_commissioning c = Some (n, s)" by (rule slot_lookup)
  let ?c = "c\<lparr>ct_queue := q, ct_commissioning := None, ct_detached_commissionings := ct_detached_commissionings c @ [(n, s)]\<rparr>"
  have "pc_done s \<Longrightarrow> books K ?c"
    using pop_inv [OF inv q] commissioning_book.book_reap [OF ok] by (simp add: controller_inv_def books_def c reap_entry_def)
  moreover have "admission_inv ?c" using pop_inv [OF inv q] by (auto simp: controller_inv_def admission_inv_def fresh_pending_def)
  ultimately have "pc_done s \<Longrightarrow> controller_inv K ?c" by (simp add: controller_inv_def)
  then show ?thesis using pop_inv [OF inv q] by (simp add: ReapCommissioning_def c)
qed

lemma ReapWindow_inv:
  assumes inv: "controller_inv K c" and q: "ct_queue c = Work K_Window Ph_Reap n # q"
  shows "controller_inv K (ReapWindow n (c\<lparr>ct_queue := q\<rparr>))"
proof -
  have ok: "window_book.book K (ct_next c) (slot (ct_window c)) (Work K_Window Ph_Reap n # q)"
    using inv q by (simp add: controller_inv_def books_def)
  obtain s where s: "map_of (slot (ct_window c)) n = Some s" using window_book.book_head [OF ok, of Ph_Reap n] by auto
  then have c: "ct_window c = Some (n, s)" by (rule slot_lookup)
  let ?c = "c\<lparr>ct_queue := q, ct_window := None, ct_detached_windows := ct_detached_windows c @ [(n, s)]\<rparr>"
  have "pw_done s \<Longrightarrow> books K ?c"
    using pop_inv [OF inv q] window_book.book_reap [OF ok] by (simp add: controller_inv_def books_def c reap_entry_def)
  moreover have "admission_inv ?c" using pop_inv [OF inv q] by (auto simp: controller_inv_def admission_inv_def fresh_pending_def)
  ultimately have "pw_done s \<Longrightarrow> controller_inv K ?c" by (simp add: controller_inv_def)
  then show ?thesis using pop_inv [OF inv q] by (simp add: ReapWindow_def c)
qed

lemma idle_entries:
  assumes "sdk_idle c"
  shows "map_of (ct_pending c) n = Some p \<Longrightarrow> pd_connected p = None" "map_of (ct_subscriptions c) n = Some s \<Longrightarrow> ns_sdk s = K_Idle"
    "ct_window c = Some (n, w) \<Longrightarrow> \<not> pw_starting w \<and> \<not> pw_opening w"
  using assms by (auto simp: sdk_idle_def list_all_iff dest!: map_of_SomeD)

text \<open>The shutdown aborts each operation of each table, in the order of the table.\<close>

lemma step_pending_frame [simp]:
  "ct_subscriptions (step_pending K n e b c) = ct_subscriptions c" "ct_commissioning (step_pending K n e b c) = ct_commissioning c"
  "ct_window (step_pending K n e b c) = ct_window c" "ct_phase (step_pending K n e b c) = ct_phase c"
  by (simp_all add: step_pending_def dangle_def Let_def split: option.split)

lemma step_subscription_frame [simp]:
  "ct_pending (step_subscription K n e b c) = ct_pending c" "ct_commissioning (step_subscription K n e b c) = ct_commissioning c"
  "ct_window (step_subscription K n e b c) = ct_window c" "ct_phase (step_subscription K n e b c) = ct_phase c"
  by (simp_all add: step_subscription_def dangle_def Let_def split: option.split)

lemma step_commissioning_frame [simp]:
  "ct_pending (step_commissioning K n e b c) = ct_pending c" "ct_subscriptions (step_commissioning K n e b c) = ct_subscriptions c"
  "ct_window (step_commissioning K n e b c) = ct_window c" "ct_phase (step_commissioning K n e b c) = ct_phase c"
  by (auto simp: step_commissioning_def dangle_def Let_def split: option.split)

lemma step_window_frame [simp]:
  "ct_pending (step_window K n e b c) = ct_pending c" "ct_subscriptions (step_window K n e b c) = ct_subscriptions c"
  "ct_commissioning (step_window K n e b c) = ct_commissioning c" "ct_phase (step_window K n e b c) = ct_phase c"
  by (auto simp: step_window_def dangle_def Let_def split: option.split)

definition quiet :: "work list \<Rightarrow> bool" where
  "quiet q \<longleftrightarrow> list_all (\<lambda>w. \<not> is_start w) q"

lemma quiet_steps [simp]:
  "quiet (ct_queue c) \<Longrightarrow> quiet (ct_queue (step_pending K n e1 b c))" "quiet (ct_queue c) \<Longrightarrow> quiet (ct_queue (step_subscription K n e2 b c))"
  "quiet (ct_queue c) \<Longrightarrow> quiet (ct_queue (step_commissioning K n e3 b c))" "quiet (ct_queue c) \<Longrightarrow> quiet (ct_queue (step_window K n e4 b c))"
  by (auto simp: quiet_def step_pending_def step_subscription_def step_commissioning_def step_window_def dangle_def Let_def
      split: option.split)

lemma map_of_put_other: "i \<noteq> n \<Longrightarrow> map_of (put_entry n s t) i = map_of t i"
  by (induction t) (auto simp: put_entry_def)

lemma map_of_put_same: "map_of t n = Some s \<Longrightarrow> map_of (put_entry n s' t) n = Some s'"
  by (induction t) (auto simp: put_entry_def split: if_splits)

lemma table_entries: "distinct (map fst t) \<Longrightarrow> \<forall>n\<in>set (map fst t). \<exists>s. map_of t n = Some s"
  by auto

lemma abort_pending_inv:
  assumes "controller_inv K c" "quiet (ct_queue c)" "distinct ns" "\<forall>n\<in>set ns. \<exists>p. map_of (ct_pending c) n = Some p \<and> pd_connected p = None"
  shows "controller_inv K (fold (\<lambda>n. step_pending K n PE_Abort (f n)) ns c) \<and> quiet (ct_queue (fold (\<lambda>n. step_pending K n PE_Abort (f n)) ns c))"
  using assms
proof (induction ns arbitrary: c)
  case (Cons n ns)
  then obtain p where p: "map_of (ct_pending c) n = Some p" "pd_connected p = None" by auto
  let ?c = "step_pending K n PE_Abort (f n) c"
  have "controller_inv K ?c"
    using Cons.prems(1,2) p no_starts by (intro interaction_steps [of K c n p]) (auto simp: quiet_def)
  moreover have "map_of (ct_pending ?c) i = map_of (ct_pending c) i" if "i \<in> set ns" for i
  proof -
    have "i \<noteq> n" using that Cons.prems(3) by auto
    then show ?thesis by (simp add: step_pending_def p(1) Let_def map_of_put_other)
  qed
  ultimately show ?case using Cons.IH [of ?c] Cons.prems by simp
qed simp

lemma abort_subscriptions_inv:
  assumes "controller_inv K c" "quiet (ct_queue c)" "distinct ns" "\<forall>n\<in>set ns. \<exists>s. map_of (ct_subscriptions c) n = Some s \<and> ns_sdk s = K_Idle"
  shows "controller_inv K (fold (\<lambda>n. step_subscription K n NE_Shutdown (f n)) ns c) \<and>
    quiet (ct_queue (fold (\<lambda>n. step_subscription K n NE_Shutdown (f n)) ns c))"
  using assms
proof (induction ns arbitrary: c)
  case (Cons n ns)
  then obtain s where s: "map_of (ct_subscriptions c) n = Some s" "ns_sdk s = K_Idle" by auto
  let ?c = "step_subscription K n NE_Shutdown (f n) c"
  have "controller_inv K ?c" using Cons.prems(1) s by (intro subscription_steps [of K c n s]) auto
  moreover have "map_of (ct_subscriptions ?c) i = map_of (ct_subscriptions c) i" if "i \<in> set ns" for i
  proof -
    have "i \<noteq> n" using that Cons.prems(3) by auto
    then show ?thesis by (simp add: step_subscription_def s(1) Let_def map_of_put_other)
  qed
  ultimately show ?case using Cons.IH [of ?c] Cons.prems by simp
qed simp

lemma fold_frame: "(\<And>n c. f (g n c) = f c) \<Longrightarrow> f (fold g ns c) = f c"
  by (induction ns arbitrary: c) simp_all

lemma shutdown_inv:
  assumes inv: "controller_inv K c" and quiet: "quiet (ct_queue c)" and idle: "sdk_idle c" and closing: "ct_phase c \<noteq> Ctl_Running"
  shows "controller_inv K (shutdown_operations K a c)"
proof -
  have d: "distinct (map fst (ct_subscriptions c))" "distinct (map fst (ct_pending c))"
    using inv by (auto simp: controller_inv_def books_def pending_book.book_def pending_table.table_ok_def subscription_book.book_def
        subscription_table.table_ok_def)
  define c1 where "c1 = fold (\<lambda>n. step_subscription K n NE_Shutdown (an_scheduled a n)) (map fst (ct_subscriptions c)) c"
  have c1: "ct_pending c1 = ct_pending c" "ct_commissioning c1 = ct_commissioning c" "ct_window c1 = ct_window c" "ct_phase c1 = ct_phase c"
    by (simp_all add: c1_def fold_frame)
  have i1: "controller_inv K c1" "quiet (ct_queue c1)"
    using abort_subscriptions_inv [OF inv quiet d(1), of "an_scheduled a"] idle_entries(2) [OF idle] table_entries [OF d(1)]
    unfolding c1_def by blast+
  define c2 where "c2 = fold (\<lambda>n. step_pending K n PE_Abort (an_scheduled a n)) (map fst (ct_pending c)) c1"
  have c2: "ct_commissioning c2 = ct_commissioning c" "ct_window c2 = ct_window c" "ct_phase c2 = ct_phase c"
    by (simp_all add: c2_def fold_frame c1)
  have i2: "controller_inv K c2" "quiet (ct_queue c2)"
    using abort_pending_inv [OF i1 d(2), of "an_scheduled a"] idle_entries(1) [OF idle] table_entries [OF d(2)]
    unfolding c2_def c1 by blast+
  define c3 where "c3 = fold (\<lambda>n. step_commissioning K n (CE_Shutdown (an_stopped a)) (an_scheduled a n)) (map fst (slot (ct_commissioning c))) c2"
  have c3: "ct_window c3 = ct_window c" "ct_phase c3 = ct_phase c" by (simp_all add: c3_def fold_frame c2)
  have i3: "controller_inv K c3"
    using i2(1) c2(1) by (cases "ct_commissioning c") (auto simp: c3_def intro!: commissioning_steps)
  define c4 where "c4 = fold (\<lambda>n. step_window K n WE_Shutdown (an_scheduled a n)) (map fst (slot (ct_window c))) c3"
  have c4: "ct_phase c4 = ct_phase c" by (simp add: c4_def fold_frame c3)
  have i4: "controller_inv K c4"
    using i3 c3(1) idle_entries(3) [OF idle] by (cases "ct_window c") (auto simp: c4_def intro!: window_steps)
  have "shutdown_operations K a c = c4\<lparr>ct_phase := Ctl_Closing False\<rparr>"
    by (simp add: shutdown_operations_def c1_def c2_def c3_def c4_def Let_def)
  then show ?thesis
    using i4 c4 closing by (auto simp: controller_inv_def admission_inv_def fresh_pending_def books_def)
qed

lemma start_inv:
  assumes inv: "controller_inv K c" and q: "ct_queue c = Work k Ph_Start n # q" and idle: "sdk_idle c"
  shows "controller_inv K (run_work K a (Work k Ph_Start n) (c\<lparr>ct_queue := q\<rparr>))"
proof -
  note pop = pop_inv [OF inv q]
  have ok: "books K c" using inv by (simp add: controller_inv_def)
  show ?thesis
  proof (cases k)
    case K_Interaction
    have "pending_book.book K (ct_next c) (ct_pending c) (Work K_Interaction Ph_Start n # q)" using ok q K_Interaction by (simp add: books_def)
    then obtain p where p: "map_of (ct_pending c) n = Some p" "\<not> pd_started p" "(Ph_Start, n) \<notin> set (pointers K_Interaction q)"
      by (auto elim!: pending_book.book_head [of K _ _ _ _ Ph_Start n])
    moreover have "\<not> pd_done p"
      using inv q K_Interaction map_of_SomeD [OF p(1)] by (auto simp: controller_inv_def admission_inv_def fresh_pending_def)
    ultimately show ?thesis using K_Interaction interaction_steps [OF pop, of n p] by (simp add: run_work_def)
  next
    case K_Subscription
    have "subscription_book.book K (ct_next c) (ct_subscriptions c) (Work K_Subscription Ph_Start n # q)" using ok q K_Subscription by (simp add: books_def)
    then obtain s where s: "map_of (ct_subscriptions c) n = Some s" "\<not> ns_started s" "(Ph_Start, n) \<notin> set (pointers K_Subscription q)"
      by (auto elim!: subscription_book.book_head [of K _ _ _ _ Ph_Start n])
    then show ?thesis using K_Subscription subscription_steps [OF pop, of n s] idle_entries(2) [OF idle] by (simp add: run_work_def)
  next
    case K_Commissioning
    have "commissioning_book.book K (ct_fabric_id c) (ct_next c) (slot (ct_commissioning c)) (Work K_Commissioning Ph_Start n # q)"
      using ok q K_Commissioning by (simp add: books_def)
    then obtain s where s: "ct_commissioning c = Some (n, s)" "\<not> pc_started s" "(Ph_Start, n) \<notin> set (pointers K_Commissioning q)"
      by (auto elim!: commissioning_book.book_head [of K _ _ _ _ _ Ph_Start n] dest!: slot_lookup)
    then show ?thesis using K_Commissioning commissioning_steps [OF pop, of n s] by (simp add: run_work_def)
  next
    case K_Window
    have "window_book.book K (ct_next c) (slot (ct_window c)) (Work K_Window Ph_Start n # q)" using ok q K_Window by (simp add: books_def)
    then obtain s where s: "ct_window c = Some (n, s)" "\<not> pw_started s" "(Ph_Start, n) \<notin> set (pointers K_Window q)"
      by (auto elim!: window_book.book_head [of K _ _ _ _ Ph_Start n] dest!: slot_lookup)
    then show ?thesis using K_Window window_steps [OF pop, of n s] by (simp add: run_work_def)
  qed
qed

lemma pop_shares: "shares_ok K c \<Longrightarrow> ct_queue c = w # q \<Longrightarrow> shares_ok K (c\<lparr>ct_queue := q\<rparr>)"
  by (erule shares_frame) (auto simp: cancels_of_def)

lemma held_entries:
  assumes "shares_ok K c" "Work k Ph_Cancel n \<in> set (ct_queue c)"
  shows "k = K_Commissioning \<Longrightarrow> \<exists>s. map_of (slot (ct_commissioning c) @ ct_detached_commissionings c) n = Some s"
    "k = K_Window \<Longrightarrow> \<exists>s. map_of (slot (ct_window c) @ ct_detached_windows c) n = Some s"
proof -
  have "n \<in> cancels_of k (ct_queue c)" using assms(2) by (simp add: cancels_of_def)
  then show "k = K_Commissioning \<Longrightarrow> \<exists>s. map_of (slot (ct_commissioning c) @ ct_detached_commissionings c) n = Some s"
    "k = K_Window \<Longrightarrow> \<exists>s. map_of (slot (ct_window c) @ ct_detached_windows c) n = Some s"
    using assms(1) map_of_eq_None_iff unfolding shares_ok_def held_ok_def by (metis not_None_eq subsetD)+
qed

lemma held_window_idle:
  assumes "shares_ok K c" "sdk_idle c" "map_of (slot (ct_window c) @ ct_detached_windows c) n = Some s"
  shows "\<not> pw_starting s \<and> \<not> pw_opening s"
  using assms(3)
proof (rule held_lookup)
  assume "ct_window c = Some (n, s)"
  then show ?thesis by (rule idle_entries(3) [OF assms(2)])
next
  assume "map_of (ct_detached_windows c) n = Some s"
  then show ?thesis using assms(1) by (auto simp: shares_ok_def detached_ok_def dest!: map_of_SomeD)
qed

lemma held_cancel:
  assumes inv: "controller_inv K c" and sh: "shares_ok K c" and q: "ct_queue c = Work k Ph_Cancel n # q" and idle: "sdk_idle c"
  shows "k = K_Commissioning \<Longrightarrow> controller_inv K (step_held_commissioning K n (CE_CancelWork stopped) b (c\<lparr>ct_queue := q\<rparr>)) \<and>
      shares_ok K (step_held_commissioning K n (CE_CancelWork stopped) b (c\<lparr>ct_queue := q\<rparr>))"
    "k = K_Window \<Longrightarrow> controller_inv K (step_held_window K n WE_CancelWork b (c\<lparr>ct_queue := q\<rparr>)) \<and>
      shares_ok K (step_held_window K n WE_CancelWork b (c\<lparr>ct_queue := q\<rparr>))"
proof -
  note pop = pop_inv [OF inv q] pop_shares [OF sh q]
  have w: "Work k Ph_Cancel n \<in> set (ct_queue c)" using q by simp
  show "controller_inv K (step_held_commissioning K n (CE_CancelWork stopped) b (c\<lparr>ct_queue := q\<rparr>)) \<and>
      shares_ok K (step_held_commissioning K n (CE_CancelWork stopped) b (c\<lparr>ct_queue := q\<rparr>))" if k: "k = K_Commissioning"
  proof -
    obtain s where "map_of (slot (ct_commissioning c) @ ct_detached_commissionings c) n = Some s" using held_entries(1) [OF sh w k] by blast
    then show ?thesis using held_commissioning_steps [OF pop, of "CE_CancelWork stopped" s n] by simp
  qed
  show "controller_inv K (step_held_window K n WE_CancelWork b (c\<lparr>ct_queue := q\<rparr>)) \<and>
      shares_ok K (step_held_window K n WE_CancelWork b (c\<lparr>ct_queue := q\<rparr>))" if k: "k = K_Window"
  proof -
    obtain s where s: "map_of (slot (ct_window c) @ ct_detached_windows c) n = Some s" using held_entries(2) [OF sh w k] by blast
    then show ?thesis using held_window_steps [OF pop, of WE_CancelWork s n] held_window_idle [OF sh idle s] by simp
  qed
qed

lemma cancel_inv:
  assumes inv: "controller_inv K c" and sh: "shares_ok K c" and q: "ct_queue c = Work k Ph_Cancel n # q" and idle: "sdk_idle c"
  shows "controller_inv K (run_work K a (Work k Ph_Cancel n) (c\<lparr>ct_queue := q\<rparr>))"
proof -
  note pop = pop_inv [OF inv q]
  show ?thesis
  proof (cases k)
    case K_Interaction
    then show ?thesis using pop by (simp add: run_work_def)
  next
    case K_Subscription
    have "subscription_book.book K (ct_next c) (ct_subscriptions c) (Work K_Subscription Ph_Cancel n # q)"
      using inv q K_Subscription by (simp add: controller_inv_def books_def)
    then obtain s where s: "map_of (ct_subscriptions c) n = Some s"
      by (auto elim!: subscription_book.book_head [of K _ _ _ _ Ph_Cancel n])
    then show ?thesis using K_Subscription subscription_steps [OF pop, of n s] idle_entries(2) [OF idle] by (simp add: run_work_def)
  next
    case K_Commissioning
    then show ?thesis using held_cancel(1) [OF inv sh q idle] by (simp add: run_work_def)
  next
    case K_Window
    then show ?thesis using held_cancel(2) [OF inv sh q idle] by (simp add: run_work_def)
  qed
qed

lemma dispatch_inv:
  assumes inv: "controller_inv K c" and sh: "shares_ok K c" and idle: "sdk_idle c"
  shows "controller_inv K (dispatch_work K a c)"
proof (cases "ct_queue c")
  case Nil
  then show ?thesis using inv by (simp add: dispatch_work_def)
next
  case (Cons w q)
  have idle': "sdk_idle (c\<lparr>ct_queue := q\<rparr>)" using idle by (simp add: sdk_idle_def)
  show ?thesis
  proof (cases w)
    case (Work k ph n)
    have "controller_inv K (run_work K a (Work k Ph_Reap n) (c\<lparr>ct_queue := q\<rparr>))" if "ph = Ph_Reap"
      using that inv Cons Work ReapPending_inv ReapSubscription_inv ReapCommissioning_inv ReapWindow_inv
      by (cases k) (simp_all add: run_work_def)
    then show ?thesis using inv sh idle Cons Work start_inv cancel_inv by (cases ph) (simp_all add: dispatch_work_def)
  next
    case Shutdown_work
    have "quiet q" "ct_phase c \<noteq> Ctl_Running"
      using inv Cons Shutdown_work by (auto simp: controller_inv_def admission_inv_def quiet_def)
    then show ?thesis
      using shutdown_inv [OF pop_inv [OF inv Cons] _ idle', of a] Cons Shutdown_work by (simp add: dispatch_work_def run_work_def)
  qed
qed

subsection \<open>Runs\<close>

lemma cleanup_inv:
  assumes "controller_inv K c"
  shows "controller_inv K (begin_cleanup scheduled c)" "ct_phase c \<noteq> Ctl_Running \<Longrightarrow> controller_inv K (end_cleanup c)"
  using assms
  by (auto simp: controller_inv_def admission_inv_def fresh_pending_def books_def begin_cleanup_def end_cleanup_def enqueue_def Let_def
      all_books(1-4) starts_first_append pending_book.book_empty subscription_book.book_empty commissioning_book.book_empty window_book.book_empty)

lemma find_subscription_entry:
  assumes "find_subscription subscription_id gen c = Some n" "books K c"
  obtains s where "map_of (ct_subscriptions c) n = Some s" "sr_subscription_id (ns_request s) = subscription_id"
    "rc_generation (ns_recovery s) = gen" "\<not> ns_done s"
proof -
  obtain s where s: "(n, s) \<in> set (ct_subscriptions c)" "sr_subscription_id (ns_request s) = subscription_id"
      "rc_generation (ns_recovery s) = gen" "\<not> ns_done s"
    using assms(1) by (auto simp: find_subscription_def find_Some_iff) (metis nth_mem)
  have "distinct (map fst (ct_subscriptions c))"
    using assms(2) by (simp add: books_def subscription_book.book_def subscription_table.table_ok_def)
  then show thesis using s that by simp
qed

lemma entry_allows_Some: "entry_allows t n P \<longleftrightarrow> (\<exists>s. map_of t n = Some s \<and> P s)"
  by (simp add: entry_allows_def split: option.split)

lemma not_internal:
  "\<not> internal_pending e1 \<Longrightarrow> \<not> starts_pending e1 \<and> e1 \<noteq> PE_Abort" "\<not> internal_subscription e2 \<Longrightarrow> \<not> starts_subscription e2"
  "\<not> internal_commissioning e3 \<Longrightarrow> \<not> starts_commissioning e3" "\<not> internal_window e4 \<Longrightarrow> \<not> starts_window e4"
proof -
  show "\<not> internal_pending e1 \<Longrightarrow> \<not> starts_pending e1 \<and> e1 \<noteq> PE_Abort" by (cases e1) simp_all
  show "\<not> internal_subscription e2 \<Longrightarrow> \<not> starts_subscription e2" by (cases e2) simp_all
  show "\<not> internal_commissioning e3 \<Longrightarrow> \<not> starts_commissioning e3" by (cases e3) simp_all
  show "\<not> internal_window e4 \<Longrightarrow> \<not> starts_window e4" by (cases e4) simp_all
qed

lemma controller_step_inv:
  assumes inv: "controller_inv K c" and sh: "shares_ok K c" and e: "enabled_controller e c"
  shows "controller_inv K (controller_step K e c)"
proof (cases e)
  case (OE_Pending n x scheduled)
  then show ?thesis using e inv not_internal(1) [of x] by (auto simp: entry_allows_Some intro!: interaction_steps)
next
  case (OE_Subscription n x scheduled)
  then show ?thesis using e inv not_internal(2) [of x] by (auto simp: entry_allows_Some intro!: subscription_steps)
next
  case (OE_Commissioning n x scheduled)
  then obtain s where "map_of (slot (ct_commissioning c) @ ct_detached_commissionings c) n = Some s" "enabled_commissioning x s"
    using e by (auto simp: entry_allows_Some simp del: map_of_append)
  then show ?thesis using OE_Commissioning e not_internal(3) [of x] held_commissioning_steps [OF inv sh] by simp
next
  case (OE_Window n x scheduled)
  then obtain s where "map_of (slot (ct_window c) @ ct_detached_windows c) n = Some s" "enabled_window x s"
    using e by (auto simp: entry_allows_Some simp del: map_of_append)
  then show ?thesis using OE_Window e not_internal(4) [of x] held_window_steps [OF inv sh] by simp
next
  case (OE_Activate i g)
  have "controller_inv K (step_subscription K n NE_Activate True c)" if n: "find_subscription i g c = Some n" for n
  proof -
    obtain s where s: "map_of (ct_subscriptions c) n = Some s" using find_subscription_entry n inv unfolding controller_inv_def by metis
    then have "ns_activating s = []" using e OE_Activate by (auto simp: list_all_iff dest!: map_of_SomeD)
    then show ?thesis using subscription_steps [OF inv s, of NE_Activate] by simp
  qed
  then show ?thesis using OE_Activate inv by (simp add: ActivateSubscription_impl_def split: option.split)
next
  case (OE_Cancel i g scheduled waited)
  have "controller_inv K (step_subscription K n (NE_Cancel scheduled) True c)" if n: "find_subscription i g c = Some n" for n
  proof -
    obtain s where s: "map_of (ct_subscriptions c) n = Some s" using find_subscription_entry n inv unfolding controller_inv_def by metis
    then show ?thesis using subscription_steps [OF inv s, of "NE_Cancel scheduled"] by simp
  qed
  then show ?thesis using OE_Cancel inv by (simp add: CancelSubscription_impl_def split: option.split)
next
  case (OE_Complete device_id error connecting scheduled)
  then show ?thesis using inv by (auto simp: OnCommissioningComplete_def intro!: commissioning_steps split: option.split)
next
  case (OE_Failure status scheduled)
  then show ?thesis using inv by (auto simp: OnCommissioningFailure_def intro!: commissioning_steps split: option.split)
next
  case (OE_Stage stage scheduled)
  then show ?thesis using inv e by (auto simp: OnCommissioningStageStart_def intro!: commissioning_steps split: option.split)
next
  case OE_EndCleanup
  then show ?thesis using cleanup_inv(2) [OF inv] e by simp
qed (use inv sh e in \<open>simp_all add: Interact_inv Commission_inv OpenWindow_inv Subscribe_inv dispatch_inv cleanup_inv(1)\<close>)

lemma step_fabric [simp]:
  "ct_fabric_id (step_pending K n e1 b c) = ct_fabric_id c" "ct_fabric_id (step_subscription K n e2 b c) = ct_fabric_id c"
  "ct_fabric_id (step_commissioning K n e3 b c) = ct_fabric_id c" "ct_fabric_id (step_window K n e4 b c) = ct_fabric_id c"
  "ct_fabric_id (ReleaseUnusedSessionSetup node c) = ct_fabric_id c"
  by (auto simp: step_pending_def step_subscription_def step_commissioning_def step_window_def ReleaseUnusedSessionSetup_def dangle_def
      Let_def split: option.split)

lemma held_fabric [simp]:
  "ct_fabric_id (step_held_commissioning K n e3 b c) = ct_fabric_id c" "ct_fabric_id (step_held_window K n e4 b c) = ct_fabric_id c"
  by (simp_all add: step_held_commissioning_def step_held_window_def step_detached_commissioning_def step_detached_window_def dangle_def
      Let_def split: option.split)

lemma shutdown_fabric [simp]: "ct_fabric_id (shutdown_operations K a c) = ct_fabric_id c"
  by (simp add: shutdown_operations_def Let_def fold_frame)

lemma run_work_fabric [simp]: "ct_fabric_id (run_work K a w c) = ct_fabric_id c"
  by (auto simp: run_work_def ReapPending_def ReapSubscription_def ReapCommissioning_def ReapWindow_def dangle_def
      split: work.split kind.split phase.split option.split)

lemma controller_step_fabric: "ct_fabric_id (controller_step K e c) = ct_fabric_id c"
  by (cases e) (auto simp: Interact_def Commission_def OpenWindow_def Subscribe_def ActivateSubscription_impl_def CancelSubscription_impl_def
      OnCommissioningComplete_def OnCommissioningFailure_def OnCommissioningStageStart_def dispatch_work_def begin_cleanup_def end_cleanup_def enqueue_def Let_def split: option.split list.split)

subsection \<open>Shares over a run\<close>

lemma release_shares [simp]: "shares_ok K (ReleaseUnusedSessionSetup node c) = shares_ok K c"
  by (simp add: ReleaseUnusedSessionSetup_def shares_ok_def detached_ok_def held_ok_def)

lemma dangle_shares [simp]: "shares_ok K (dangle c) = shares_ok K c"
  by (simp add: dangle_def shares_ok_def detached_ok_def held_ok_def)

lemma fold_shares: "(\<And>n c. shares_ok K c \<Longrightarrow> shares_ok K (g n c)) \<Longrightarrow> shares_ok K c \<Longrightarrow> shares_ok K (fold g ns c)"
  by (induction ns arbitrary: c) simp_all

lemma phase_shares [simp]: "shares_ok K (c\<lparr>ct_phase := p\<rparr>) = shares_ok K c"
  by (simp add: shares_ok_def detached_ok_def held_ok_def)

lemma shutdown_shares: "shares_ok K c \<Longrightarrow> shares_ok K (shutdown_operations K a c)"
  by (simp add: shutdown_operations_def Let_def fold_shares)

lemma admission_shares:
  assumes sh: "shares_ok K c"
  shows "shares_ok K (snd (Interact request scheduled c))" "shares_ok K (snd (Subscribe K request2 taken scheduled c))"
    "shares_ok K (snd (Commission K request3 refused scheduled c))" "shares_ok K (snd (OpenWindow K request4 refused scheduled c))"
proof -
  show "shares_ok K (snd (Interact request scheduled c))"
    by (rule shares_frame [OF sh]) (simp_all add: Interact_def enqueue_def Let_def)
  have "shares_ok K (c\<lparr>ct_next := n, ct_subscriptions := x\<rparr>)" "shares_ok K (enqueue (Work K_Subscription Ph_Start i) (c\<lparr>ct_next := n, ct_subscriptions := x\<rparr>))"
    for n i x by (rule shares_frame [OF sh]; simp add: enqueue_def)+
  then show "shares_ok K (snd (Subscribe K request2 taken scheduled c))" using sh by (simp add: Subscribe_def Let_def)
  have "shares_ok K (c\<lparr>ct_next := n, ct_commissioning := x\<rparr>)" "shares_ok K (enqueue (Work K_Commissioning Ph_Start i) (c\<lparr>ct_next := n, ct_commissioning := x\<rparr>))"
    if "ct_commissioning c = None" for n i x by (rule shares_frame [OF sh]; simp add: enqueue_def that)+
  then show "shares_ok K (snd (Commission K request3 refused scheduled c))"
    using sh by (cases "ct_commissioning c") (simp_all add: Commission_def Let_def split: option.split)
  have "shares_ok K (c\<lparr>ct_next := n, ct_window := x\<rparr>)" "shares_ok K (enqueue (Work K_Window Ph_Start i) (c\<lparr>ct_next := n, ct_window := x\<rparr>))"
    if "ct_window c = None" for n i x by (rule shares_frame [OF sh]; simp add: enqueue_def that)+
  then show "shares_ok K (snd (OpenWindow K request4 refused scheduled c))"
    using sh by (cases "ct_window c") (simp_all add: OpenWindow_def Let_def split: option.split)
qed

text \<open>The reaper moves the operation from its slot to the detached ones.\<close>

lemma reap_shares:
  assumes inv: "controller_inv K c" and sh: "shares_ok K c" and idle: "sdk_idle c"
  shows "shares_ok K (ReapCommissioning n c)" "shares_ok K (ReapWindow n c)"
proof -
  have genuine: "genuine_commissioning K (ct_fabric_id c) s" if "ct_commissioning c = Some (i, s)" for i s
    using inv that by (auto simp: controller_inv_def books_def commissioning_book.book_def)
  have genuine': "genuine_window K s" if "ct_window c = Some (i, s)" for i s
    using inv that by (auto simp: controller_inv_def books_def window_book.book_def)
  show "shares_ok K (ReapCommissioning n c)"
    using sh genuine by (auto simp: ReapCommissioning_def shares_ok_def detached_ok_def held_ok_def dangle_def
        ReleaseUnusedSessionSetup_def split: option.split)
  show "shares_ok K (ReapWindow n c)"
    using sh genuine' idle_entries(3) [OF idle] by (auto simp: ReapWindow_def shares_ok_def detached_ok_def held_ok_def dangle_def
        ReleaseUnusedSessionSetup_def split: option.split)
qed

lemma dispatch_shares:
  assumes inv: "controller_inv K c" and sh: "shares_ok K c" and idle: "sdk_idle c"
  shows "shares_ok K (dispatch_work K a c)"
proof (cases "ct_queue c")
  case (Cons w q)
  note pop = pop_inv [OF inv Cons] pop_shares [OF sh Cons]
  have idle': "sdk_idle (c\<lparr>ct_queue := q\<rparr>)" using idle by (simp add: sdk_idle_def)
  have reaps: "shares_ok K (ReapPending n (c\<lparr>ct_queue := q\<rparr>))" "shares_ok K (ReapSubscription n (c\<lparr>ct_queue := q\<rparr>))" for n
    using pop(2) by (simp_all add: ReapPending_def ReapSubscription_def split: option.split) (auto intro: shares_frame [OF pop(2)])
  show ?thesis
  proof (cases w)
    case (Work k ph n)
    show ?thesis
    proof (cases ph)
      case Ph_Cancel
      then show ?thesis
        using pop(2) held_cancel [OF inv sh _ idle, of k n q] Cons Work by (cases k) (simp_all add: dispatch_work_def run_work_def)
    qed (use pop Work Cons reaps reap_shares [OF pop idle'] in \<open>cases k; simp add: dispatch_work_def run_work_def\<close>)+
  next
    case Shutdown_work
    then show ?thesis using Cons pop(2) shutdown_shares by (simp add: dispatch_work_def run_work_def)
  qed
qed (use sh in \<open>simp add: dispatch_work_def\<close>)

lemma controller_step_shares:
  assumes inv: "controller_inv K c" and sh: "shares_ok K c" and e: "enabled_controller e c"
  shows "shares_ok K (controller_step K e c)"
proof (cases e)
  case (OE_Commissioning n x scheduled)
  then obtain s where "map_of (slot (ct_commissioning c) @ ct_detached_commissionings c) n = Some s" "enabled_commissioning x s"
    using e by (auto simp: entry_allows_Some simp del: map_of_append)
  then show ?thesis using OE_Commissioning e not_internal(3) [of x] held_commissioning_steps [OF inv sh] by simp
next
  case (OE_Window n x scheduled)
  then obtain s where "map_of (slot (ct_window c) @ ct_detached_windows c) n = Some s" "enabled_window x s"
    using e by (auto simp: entry_allows_Some simp del: map_of_append)
  then show ?thesis using OE_Window e not_internal(4) [of x] held_window_steps [OF inv sh] by simp
next
  case (OE_Dispatch a)
  then show ?thesis using dispatch_shares [OF inv sh] e by simp
next
  case (OE_BeginCleanup scheduled)
  have "shares_ok K (begin_cleanup scheduled c)"
    by (rule shares_frame [OF sh]) (simp_all add: begin_cleanup_def enqueue_def Let_def)
  then show ?thesis using OE_BeginCleanup by simp
next
  case OE_EndCleanup
  then show ?thesis using sh by (simp add: end_cleanup_def shares_ok_def detached_ok_def held_ok_def)
qed (use sh admission_shares in \<open>simp_all add: ActivateSubscription_impl_def CancelSubscription_impl_def OnCommissioningComplete_def
    OnCommissioningFailure_def OnCommissioningStageStart_def split: option.split\<close>)

lemma controller_run_inv: "controller_run K fabric_id c \<Longrightarrow> controller_inv K c \<and> shares_ok K c \<and> ct_fabric_id c = fabric_id"
proof (induction rule: controller_run.induct)
  case opened
  have "controller_inv K (mk_controller fabric_id)"
    by (simp add: controller_inv_def admission_inv_def fresh_pending_def books_def mk_controller_def
        pending_book.book_empty subscription_book.book_empty commissioning_book.book_empty window_book.book_empty)
  moreover have "shares_ok K (mk_controller fabric_id)"
    by (simp add: shares_ok_def detached_ok_def held_ok_def mk_controller_def)
  ultimately show ?case by (simp add: mk_controller_def)
next
  case (runs_on c e)
  then show ?case using controller_step_inv controller_step_shares controller_step_fabric by simp
qed

section \<open>What the shutdown leaves\<close>

lemma fold_pending_entries:
  assumes "(i, p) \<in> set (ct_pending (fold (\<lambda>n. step_pending K n e (f n)) ns c))"
  shows "(i \<notin> set ns \<and> (i, p) \<in> set (ct_pending c)) \<or> (\<exists>x. p = pending_step (sdk_identifiers K) (sdk_decoders K) e x)"
  using assms
proof (induction ns arbitrary: c)
  case (Cons n ns)
  then have "(i \<notin> set ns \<and> (i, p) \<in> set (ct_pending (step_pending K n e (f n) c))) \<or> (\<exists>x. p = pending_step (sdk_identifiers K) (sdk_decoders K) e x)"
    by simp
  then show ?case
    by (auto simp: step_pending_def dangle_def Let_def put_entry_iff map_of_eq_None_iff image_iff split: option.splits if_splits)
qed simp

lemma fold_subscription_entries:
  assumes "(i, s) \<in> set (ct_subscriptions (fold (\<lambda>n. step_subscription K n e (f n)) ns c))"
  shows "(i \<notin> set ns \<and> (i, s) \<in> set (ct_subscriptions c)) \<or> (\<exists>x. s = subscription_step (sdk_identifiers K) (sdk_decoders K) e x)"
  using assms
proof (induction ns arbitrary: c)
  case (Cons n ns)
  then have "(i \<notin> set ns \<and> (i, s) \<in> set (ct_subscriptions (step_subscription K n e (f n) c))) \<or> (\<exists>x. s = subscription_step (sdk_identifiers K) (sdk_decoders K) e x)"
    by simp
  then show ?case
    by (auto simp: step_subscription_def dangle_def Let_def put_entry_iff map_of_eq_None_iff image_iff split: option.splits if_splits)
qed simp

text \<open>An operation that the shutdown has aborted: answered, finished, and without a client or callback of the SDK.\<close>

definition closed_pending :: "Pending \<Rightarrow> bool" where
  "closed_pending p \<longleftrightarrow> pd_done p \<and> pd_published p \<and> \<not> pd_armed p \<and> pd_client p = None"

definition closed_subscription :: "NativeSubscription \<Rightarrow> bool" where
  "closed_subscription s \<longleftrightarrow> ns_done s \<and> ns_cancelled s \<and> \<not> ns_armed s \<and> \<not> ns_client s"

definition closed_commissioning :: "PendingCommissioning \<Rightarrow> bool" where
  "closed_commissioning s \<longleftrightarrow> pc_done s \<and> pc_published s \<and> \<not> pc_armed s"

definition closed_window :: "PendingWindow \<Rightarrow> bool" where
  "closed_window s \<longleftrightarrow> pw_done s \<and> pw_published s \<and> \<not> pw_armed s \<and> \<not> pw_opener s"

definition operations_closed :: "Controller \<Rightarrow> bool" where
  "operations_closed c \<longleftrightarrow>
     list_all (\<lambda>(n, p). closed_pending p) (ct_pending c) \<and> list_all (\<lambda>(n, s). closed_subscription s) (ct_subscriptions c) \<and>
     list_all (\<lambda>(n, s). closed_commissioning s) (slot (ct_commissioning c)) \<and> list_all (\<lambda>(n, s). closed_window s) (slot (ct_window c))"

lemma aborted:
  "closed_pending (AbortOnSdkThread p)" "closed_subscription (CancelOnSdkThread s)"
  "closed_commissioning (AbortOnSdkThread_commissioning E stopped m)" "closed_window (AbortOnSdkThread_window E w)"
  by (simp_all add: closed_pending_def closed_subscription_def closed_commissioning_def closed_window_def AbortOnSdkThread_def
      CancelOnSdkThread_def AbortOnSdkThread_commissioning_def AbortOnSdkThread_window_def MarkDone_subscription_def CancelRecoveryTimer_def
      Publish_def Let_def)

lemma shutdown_closes: "operations_closed (shutdown_operations K a c)"
proof -
  define c1 where "c1 = fold (\<lambda>n. step_subscription K n NE_Shutdown (an_scheduled a n)) (map fst (ct_subscriptions c)) c"
  define c2 where "c2 = fold (\<lambda>n. step_pending K n PE_Abort (an_scheduled a n)) (map fst (ct_pending c)) c1"
  define c3 where "c3 = fold (\<lambda>n. step_commissioning K n (CE_Shutdown (an_stopped a)) (an_scheduled a n)) (map fst (slot (ct_commissioning c))) c2"
  define c4 where "c4 = fold (\<lambda>n. step_window K n WE_Shutdown (an_scheduled a n)) (map fst (slot (ct_window c))) c3"
  have c: "shutdown_operations K a c = c4\<lparr>ct_phase := Ctl_Closing False\<rparr>"
    by (simp add: shutdown_operations_def c1_def c2_def c3_def c4_def Let_def)
  have frame: "ct_subscriptions c4 = ct_subscriptions c1" "ct_pending c4 = ct_pending c2" "ct_commissioning c4 = ct_commissioning c3"
    "ct_pending c1 = ct_pending c" "ct_commissioning c2 = ct_commissioning c" "ct_window c3 = ct_window c"
    by (simp_all add: c1_def c2_def c3_def c4_def fold_frame)
  have "closed_subscription s" if "(i, s) \<in> set (ct_subscriptions c1)" for i s
    using fold_subscription_entries [OF that [unfolded c1_def]] aborted(2) by force
  moreover have "closed_pending p" if "(i, p) \<in> set (ct_pending c2)" for i p
    using fold_pending_entries [OF that [unfolded c2_def]] aborted(1) by (force simp: frame)
  moreover have "list_all (\<lambda>(n, s). closed_commissioning s) (slot (ct_commissioning c3))"
    using aborted(3) frame(5) by (cases "ct_commissioning c") (auto simp: c3_def step_commissioning_def Let_def)
  moreover have "list_all (\<lambda>(n, s). closed_window s) (slot (ct_window c4))"
    using aborted(4) frame(6) by (cases "ct_window c") (auto simp: c4_def step_window_def Let_def)
  ultimately show ?thesis by (auto simp: c operations_closed_def frame list_all_iff)
qed

section \<open>Example runs\<close>

fun allowed_controller :: "sdk \<Rightarrow> controller_event list \<Rightarrow> Controller \<Rightarrow> bool" where
  "allowed_controller K [] c \<longleftrightarrow> True"
| "allowed_controller K (e # es) c \<longleftrightarrow> enabled_controller e c \<and> allowed_controller K es (controller_step K e c)"

lemma allowed_controller_run:
  "controller_run K fabric_id c \<Longrightarrow> allowed_controller K es c \<Longrightarrow> controller_run K fabric_id (fold (controller_step K) es c)"
  by (induction es arbitrary: c) (simp_all add: runs_on)

definition example_sdk :: sdk where
  "example_sdk = \<lparr>sdk_identifiers = example_ids, sdk_decoders = example_decode, sdk_setups = example_setup\<rparr>"

definition example_work :: work_answers where
  "example_work = \<lparr>an_elapsed = 5, an_connecting = None, an_discovering = None, an_pairing = None, an_stopped = True, an_scheduled = (\<lambda>_. True)\<rparr>"

definition example_control :: "controller_event list \<Rightarrow> Controller" where
  "example_control es = fold (controller_step example_sdk) es (mk_controller 1)"

definition example_busy :: "controller_event list" where
  "example_busy = [OE_Interact example_read True, OE_Subscribe example_switch True True, OE_Commission example_device None True,
     OE_Dispatch example_work, OE_Dispatch example_work, OE_Dispatch example_work]"

lemma example_busy_run:
  "controller_run example_sdk 1 (example_control example_busy)"
  "controller_run example_sdk 1 (example_control (example_busy @ [OE_BeginCleanup True]))"
proof -
  show "controller_run example_sdk 1 (example_control example_busy)"
    unfolding example_control_def by (rule allowed_controller_run [OF opened]) code_simp
  show "controller_run example_sdk 1 (example_control (example_busy @ [OE_BeginCleanup True]))"
    unfolding example_control_def by (rule allowed_controller_run [OF opened]) code_simp
qed

lemma genuine_answers:
  "table_ids (sdk_identifiers K) \<Longrightarrow> genuine_pending K p \<Longrightarrow> valid_interaction_request (pd_request p) \<and>
     (pd_published p \<longrightarrow> complete_reply (pd_request p) (pd_response p))"
  "genuine_subscription K s \<Longrightarrow> valid_subscription_request (ns_request s) \<and> good_response (ns_request s) (ns_response s)"
  "fabric_id \<noteq> 0 \<Longrightarrow> genuine_commissioning K fabric_id m \<Longrightarrow> valid_commissioning_request (pc_request m) \<and>
     (pc_published m \<longrightarrow> valid_commissioning_response (pc_request m) (pc_response m))"
  "codes_ok (sdk_setups K) \<Longrightarrow> genuine_window K w \<Longrightarrow> valid_commissioning_window_request (pw_request w) \<and>
     (pw_published w \<longrightarrow> valid_commissioning_window_response (pw_request w) (pw_response w))"
proof -
  show "valid_interaction_request (pd_request p) \<and> (pd_published p \<longrightarrow> complete_reply (pd_request p) (pd_response p))"
    if "table_ids (sdk_identifiers K)" "genuine_pending K p"
    using that run_ok unfolding genuine_pending_def collected_ok_def replied_ok_def by metis
  show "valid_subscription_request (ns_request s) \<and> good_response (ns_request s) (ns_response s)" if "genuine_subscription K s"
    using that subscription_run_inv unfolding genuine_subscription_def held_inv_def by metis
  show "valid_commissioning_request (pc_request m) \<and> (pc_published m \<longrightarrow> valid_commissioning_response (pc_request m) (pc_response m))"
    if "fabric_id \<noteq> 0" "genuine_commissioning K fabric_id m"
    using that commissioning_run_inv unfolding genuine_commissioning_def commissioning_inv_def by metis
  show "valid_commissioning_window_request (pw_request w) \<and> (pw_published w \<longrightarrow> valid_commissioning_window_response (pw_request w) (pw_response w))"
    if "codes_ok (sdk_setups K)" "genuine_window K w"
    using that window_run_inv unfolding genuine_window_def window_inv_def by metis
qed

text \<open>The steps of an operation keep the numbers in its table.\<close>

lemma step_ids [simp]:
  "map fst (ct_pending (step_pending K n e1 b c)) = map fst (ct_pending c)"
  "map fst (ct_subscriptions (step_subscription K n e2 b c)) = map fst (ct_subscriptions c)"
  "map fst (slot (ct_commissioning (step_commissioning K n e3 b c))) = map fst (slot (ct_commissioning c))"
  "map fst (slot (ct_window (step_window K n e4 b c))) = map fst (slot (ct_window c))"
  by (auto simp: step_pending_def step_subscription_def step_commissioning_def step_window_def dangle_def Let_def split: option.split)

lemma fold_quiet: "(\<And>n c. quiet (ct_queue c) \<Longrightarrow> quiet (ct_queue (g n c))) \<Longrightarrow> quiet (ct_queue c) \<Longrightarrow> quiet (ct_queue (fold g ns c))"
  by (induction ns arbitrary: c) simp_all

lemma shutdown_quiet: "quiet (ct_queue c) \<Longrightarrow> quiet (ct_queue (shutdown_operations K a c))"
  by (simp add: shutdown_operations_def Let_def fold_quiet)

lemma shutdown_ids:
  "map fst (ct_pending (shutdown_operations K a c)) = map fst (ct_pending c)"
  "map fst (ct_subscriptions (shutdown_operations K a c)) = map fst (ct_subscriptions c)"
  "map fst (slot (ct_commissioning (shutdown_operations K a c))) = map fst (slot (ct_commissioning c))"
  "map fst (slot (ct_window (shutdown_operations K a c))) = map fst (slot (ct_window c))"
  by (simp_all add: shutdown_operations_def Let_def fold_frame [of ct_pending] fold_frame [of ct_subscriptions]
      fold_frame [of ct_commissioning] fold_frame [of ct_window] fold_frame [of "\<lambda>c. map fst (ct_pending c)"]
      fold_frame [of "\<lambda>c. map fst (ct_subscriptions c)"] fold_frame [of "\<lambda>c. map fst (slot (ct_commissioning c))"]
      fold_frame [of "\<lambda>c. map fst (slot (ct_window c))"])

text \<open>What a controller that is not open does with every kind of request: an answer at once, and nothing is admitted.\<close>

definition refuses :: "sdk \<Rightarrow> Controller \<Rightarrow> bool" where
  "refuses K c \<longleftrightarrow>
     (\<forall>request scheduled. (\<exists>r. Interact request scheduled c = (Inl r, c))) \<and>
     (\<forall>request started scheduled. (\<exists>r. Subscribe K request started scheduled c = (Inl r, c))) \<and>
     (\<forall>request refused scheduled. (\<exists>r. Commission K request refused scheduled c = (Inl r, c))) \<and>
     (\<forall>request refused scheduled. (\<exists>r. OpenWindow K request refused scheduled c = (Inl r, c)))"

lemma closed_refuses: "\<not> ct_open c \<Longrightarrow> refuses K c"
  by (simp add: refuses_def Interact_def Subscribe_def Commission_def OpenWindow_def)

text \<open>A commissioning that fails while its waiting thread gives up: the reaper runs first, then the cancellation.\<close>

definition example_giving_up :: "controller_event list" where
  "example_giving_up = [OE_Commission example_device None True, OE_Dispatch example_work, OE_Complete 0 None None True,
     OE_Commissioning 0 (CE_Wait False True) True, OE_Dispatch example_work]"

lemma example_giving_up_run: "controller_run example_sdk 1 (example_control example_giving_up)"
  unfolding example_control_def by (rule allowed_controller_run [OF opened]) code_simp

text \<open>What each kind of work in the queue names.\<close>

lemma interaction_works:
  assumes a: "admission_inv c" and b: "books K c"
  shows "\<forall>ph n. Work K_Interaction ph n \<in> set (ct_queue c) \<longrightarrow>
    (\<exists>p. (n, p) \<in> set (ct_pending c) \<and> (ph = Ph_Start \<longrightarrow> \<not> pd_started p \<and> \<not> pd_done p) \<and> (ph = Ph_Reap \<longrightarrow> pd_done p))"
proof (intro allI impI)
  fix ph n
  assume w: "Work K_Interaction ph n \<in> set (ct_queue c)"
  obtain p where p: "(n, p) \<in> set (ct_pending c)" "ph = Ph_Start \<longrightarrow> \<not> pd_started p" "ph = Ph_Reap \<longrightarrow> pd_done p"
    using pending_book.book_work [OF _ w, of K "ct_next c" "ct_pending c" ph n] b by (auto simp: books_def)
  moreover have "ph = Ph_Start \<longrightarrow> \<not> pd_done p"
    using a p(1) pointers_mem [OF w, of K_Interaction "(ph, n)"] by (auto simp: admission_inv_def fresh_pending_def)
  ultimately show "\<exists>p. (n, p) \<in> set (ct_pending c) \<and> (ph = Ph_Start \<longrightarrow> \<not> pd_started p \<and> \<not> pd_done p) \<and> (ph = Ph_Reap \<longrightarrow> pd_done p)"
    by blast
qed

lemma subscription_works:
  assumes "books K c"
  shows "\<forall>ph n. Work K_Subscription ph n \<in> set (ct_queue c) \<longrightarrow>
    (\<exists>s. (n, s) \<in> set (ct_subscriptions c) \<and> (ph = Ph_Start \<longrightarrow> \<not> ns_started s) \<and> (ph = Ph_Reap \<longrightarrow> ns_done s))"
  using subscription_book.book_work [of K "ct_next c" "ct_subscriptions c" "ct_queue c" "Work K_Subscription ph n" ph n for ph n] assms
  by (auto simp: books_def)

lemma commissioning_works:
  assumes b: "books K c" and sh: "shares_ok K c"
  shows "\<forall>ph n. Work K_Commissioning ph n \<in> set (ct_queue c) \<longrightarrow>
    (\<exists>s. ct_commissioning c = Some (n, s) \<and> (ph = Ph_Start \<longrightarrow> \<not> pc_started s) \<and> (ph = Ph_Reap \<longrightarrow> pc_done s)) \<or>
    ph = Ph_Cancel \<and> (\<exists>s. (n, s) \<in> set (ct_detached_commissionings c) \<and> pc_done s)"
proof (intro allI impI)
  fix ph n
  assume w: "Work K_Commissioning ph n \<in> set (ct_queue c)"
  show "(\<exists>s. ct_commissioning c = Some (n, s) \<and> (ph = Ph_Start \<longrightarrow> \<not> pc_started s) \<and> (ph = Ph_Reap \<longrightarrow> pc_done s)) \<or>
    ph = Ph_Cancel \<and> (\<exists>s. (n, s) \<in> set (ct_detached_commissionings c) \<and> pc_done s)"
  proof (cases "ph = Ph_Cancel")
    case True
    obtain s where "map_of (slot (ct_commissioning c) @ ct_detached_commissionings c) n = Some s"
      using held_entries(1) [OF sh] w True by blast
    then show ?thesis
      using sh True by (elim held_lookup) (auto simp: shares_ok_def detached_ok_def dest!: map_of_SomeD)
  next
    case False
    then show ?thesis
      using commissioning_book.book_work [OF _ w, of K "ct_fabric_id c" "ct_next c" "slot (ct_commissioning c)" ph n] b
      by (cases "ct_commissioning c") (auto simp: books_def)
  qed
qed

lemma window_works:
  assumes b: "books K c" and sh: "shares_ok K c"
  shows "\<forall>ph n. Work K_Window ph n \<in> set (ct_queue c) \<longrightarrow>
    (\<exists>s. ct_window c = Some (n, s) \<and> (ph = Ph_Start \<longrightarrow> \<not> pw_started s) \<and> (ph = Ph_Reap \<longrightarrow> pw_done s)) \<or>
    ph = Ph_Cancel \<and> (\<exists>s. (n, s) \<in> set (ct_detached_windows c) \<and> pw_done s)"
proof (intro allI impI)
  fix ph n
  assume w: "Work K_Window ph n \<in> set (ct_queue c)"
  show "(\<exists>s. ct_window c = Some (n, s) \<and> (ph = Ph_Start \<longrightarrow> \<not> pw_started s) \<and> (ph = Ph_Reap \<longrightarrow> pw_done s)) \<or>
    ph = Ph_Cancel \<and> (\<exists>s. (n, s) \<in> set (ct_detached_windows c) \<and> pw_done s)"
  proof (cases "ph = Ph_Cancel")
    case True
    obtain s where "map_of (slot (ct_window c) @ ct_detached_windows c) n = Some s" using held_entries(2) [OF sh] w True by blast
    then show ?thesis
      using sh True by (elim held_lookup) (auto simp: shares_ok_def detached_ok_def dest!: map_of_SomeD)
  next
    case False
    then show ?thesis
      using window_book.book_work [OF _ w, of K "ct_next c" "slot (ct_window c)" ph n] b
      by (cases "ct_window c") (auto simp: books_def)
  qed
qed

lemma ball_entry_mono: "\<forall>(n, s)\<in>S. P s \<Longrightarrow> (\<And>s. P s \<Longrightarrow> Q s) \<Longrightarrow> \<forall>(n, s)\<in>S. Q s"
  by auto

section \<open>Properties\<close>

text \<open>
  Property C11. On every run of the controller all work in the queue of the SDK thread names an operation that is still there: a start, a
  reap and the cancellation of a subscription one in its table or slot, the cancellation of a commissioning or of a window one in the slot or
  one that has left it finished and is shared by the cancellation.  No operation of any kind has begun while its start is queued, and every
  operation whose reaper is queued is finished.  At most 64 interactions and 64 subscriptions are held, a commissioning and a window
  exclude each other, and no two operations of a table share a number.
\<close>

theorem controller_pointers:
  assumes "controller_run K fabric_id c"
  shows "\<not> ct_dangling c \<and> length (ct_pending c) \<le> 64 \<and> length (ct_subscriptions c) \<le> 64 \<and>
    (ct_commissioning c = None \<or> ct_window c = None) \<and>
    distinct (map fst (ct_pending c)) \<and> distinct (map fst (ct_subscriptions c)) \<and>
    (\<forall>ph n. Work K_Interaction ph n \<in> set (ct_queue c) \<longrightarrow>
       (\<exists>p. (n, p) \<in> set (ct_pending c) \<and> (ph = Ph_Start \<longrightarrow> \<not> pd_started p \<and> \<not> pd_done p) \<and> (ph = Ph_Reap \<longrightarrow> pd_done p))) \<and>
    (\<forall>ph n. Work K_Subscription ph n \<in> set (ct_queue c) \<longrightarrow>
       (\<exists>s. (n, s) \<in> set (ct_subscriptions c) \<and> (ph = Ph_Start \<longrightarrow> \<not> ns_started s) \<and> (ph = Ph_Reap \<longrightarrow> ns_done s))) \<and>
    (\<forall>ph n. Work K_Commissioning ph n \<in> set (ct_queue c) \<longrightarrow>
       (\<exists>s. ct_commissioning c = Some (n, s) \<and> (ph = Ph_Start \<longrightarrow> \<not> pc_started s) \<and> (ph = Ph_Reap \<longrightarrow> pc_done s)) \<or>
       ph = Ph_Cancel \<and> (\<exists>s. (n, s) \<in> set (ct_detached_commissionings c) \<and> pc_done s)) \<and>
    (\<forall>ph n. Work K_Window ph n \<in> set (ct_queue c) \<longrightarrow>
       (\<exists>s. ct_window c = Some (n, s) \<and> (ph = Ph_Start \<longrightarrow> \<not> pw_started s) \<and> (ph = Ph_Reap \<longrightarrow> pw_done s)) \<or>
       ph = Ph_Cancel \<and> (\<exists>s. (n, s) \<in> set (ct_detached_windows c) \<and> pw_done s))"
proof -
  have a: "admission_inv c" and b: "books K c" and sh: "shares_ok K c"
    using controller_run_inv [OF assms] by (simp_all add: controller_inv_def)
  have tables: "distinct (map fst (ct_pending c))" "distinct (map fst (ct_subscriptions c))"
    using b by (simp_all add: books_def pending_book.book_def pending_table.table_ok_def subscription_book.book_def subscription_table.table_ok_def)
  have "\<not> ct_dangling c" "length (ct_pending c) \<le> 64" "length (ct_subscriptions c) \<le> 64" "ct_commissioning c = None \<or> ct_window c = None"
    using a by (simp_all add: admission_inv_def)
  then show ?thesis
    using tables interaction_works [OF a b] subscription_works [OF b] commissioning_works [OF b sh] window_works [OF b sh] by blast
qed

text \<open>A controller with an interaction, a subscription and a commissioning; and one whose commissioning has left its slot while its
  cancellation is queued.\<close>

theorem controller_pointers_witness:
  "controller_run example_sdk 1 (example_control example_busy) \<and> map fst (ct_pending (example_control example_busy)) = [0] \<and>
   map fst (ct_subscriptions (example_control example_busy)) = [1] \<and> \<not> ct_dangling (example_control example_busy) \<and>
   controller_run example_sdk 1 (example_control example_giving_up) \<and>
   ct_queue (example_control example_giving_up) = [Work K_Commissioning Ph_Cancel 0] \<and>
   (\<exists>s. (0, s) \<in> set (ct_detached_commissionings (example_control example_giving_up)) \<and> pc_done s)"
proof -
  have "map fst (ct_pending (example_control example_busy)) = [0]" "map fst (ct_subscriptions (example_control example_busy)) = [1]"
    "ct_queue (example_control example_giving_up) = [Work K_Commissioning Ph_Cancel 0]"
    "ct_commissioning (example_control example_giving_up) = None"
    by code_simp+
  then show ?thesis
    using example_busy_run(1) controller_pointers [OF example_busy_run(1)] example_giving_up_run
      controller_pointers [OF example_giving_up_run] by simp
qed

text \<open>
  Property C13. Whatever the SDK and the devices do, an answer that the controller holds for a caller is one of the caller's own request:
  the response to an interaction passes the validator exactly when all its results were asked for, its results are
  well formed and a successful attribute read leaves no concrete path unanswered; the responses to commissionings and windows, in their slot or
  detached from it, pass the validator; and a subscription that is confirmed names its request, a generation and intervals in order.
\<close>

theorem controller_answers:
  assumes "controller_run K fabric_id c" "table_ids (sdk_identifiers K)" "codes_ok (sdk_setups K)" "fabric_id \<noteq> 0"
  shows "(\<forall>(n, p)\<in>set (ct_pending c). valid_interaction_request (pd_request p) \<and>
      (pd_published p \<longrightarrow>
        (valid_interaction_response (pd_request p) (pd_response p) \<longleftrightarrow>
          list_all (asked_for (pd_request p)) (rs_results (pd_response p))) \<and>
        list_all (well_formed (pd_request p)) (rs_results (pd_response p)) \<and>
        (rs_ok (pd_response p) \<and> (rq_kind (pd_request p) = IK_ReadAttribute \<or> rq_kind (pd_request p) = IK_ReadAttributes) \<longrightarrow>
          (\<forall>path\<in>set (rq_paths (pd_request p)). answered (rs_results (pd_response p)) path)))) \<and>
    (\<forall>(n, s)\<in>set (ct_subscriptions c). valid_subscription_request (ns_request s) \<and> good_response (ns_request s) (ns_response s)) \<and>
    (\<forall>(n, s)\<in>set (slot (ct_commissioning c) @ ct_detached_commissionings c). valid_commissioning_request (pc_request s) \<and>
      (pc_published s \<longrightarrow> valid_commissioning_response (pc_request s) (pc_response s))) \<and>
    (\<forall>(n, s)\<in>set (slot (ct_window c) @ ct_detached_windows c). valid_commissioning_window_request (pw_request s) \<and>
      (pw_published s \<longrightarrow> valid_commissioning_window_response (pw_request s) (pw_response s)))"
proof -
  have "books K c" "ct_fabric_id c = fabric_id" "shares_ok K c" using controller_run_inv [OF assms(1)] by (simp_all add: controller_inv_def)
  then have entries: "\<forall>(n, p)\<in>set (ct_pending c). genuine_pending K p" "\<forall>(n, s)\<in>set (ct_subscriptions c). genuine_subscription K s"
    "\<forall>(n, s)\<in>set (slot (ct_commissioning c) @ ct_detached_commissionings c). genuine_commissioning K fabric_id s"
    "\<forall>(n, s)\<in>set (slot (ct_window c) @ ct_detached_windows c). genuine_window K s"
    by (auto simp: books_def pending_book.book_def subscription_book.book_def commissioning_book.book_def window_book.book_def
        shares_ok_def detached_ok_def)
  have "\<forall>(n, p)\<in>set (ct_pending c). valid_interaction_request (pd_request p) \<and>
      (pd_published p \<longrightarrow> complete_reply (pd_request p) (pd_response p))"
    by (rule ball_entry_mono [OF entries(1)]) (rule genuine_answers(1) [OF assms(2)])
  moreover have "\<forall>(n, s)\<in>set (ct_subscriptions c). valid_subscription_request (ns_request s) \<and> good_response (ns_request s) (ns_response s)"
    by (rule ball_entry_mono [OF entries(2)]) (rule genuine_answers(2))
  moreover have "\<forall>(n, s)\<in>set (slot (ct_commissioning c) @ ct_detached_commissionings c). valid_commissioning_request (pc_request s) \<and>
      (pc_published s \<longrightarrow> valid_commissioning_response (pc_request s) (pc_response s))"
    by (rule ball_entry_mono [OF entries(3)]) (rule genuine_answers(3) [OF assms(4)])
  moreover have "\<forall>(n, s)\<in>set (slot (ct_window c) @ ct_detached_windows c). valid_commissioning_window_request (pw_request s) \<and>
      (pw_published s \<longrightarrow> valid_commissioning_window_response (pw_request s) (pw_response s))"
    by (rule ball_entry_mono [OF entries(4)]) (rule genuine_answers(4) [OF assms(3)])
  ultimately show ?thesis unfolding complete_reply_def by (intro conjI)
qed

theorem controller_answers_witness:
  "\<exists>n p. (n, p) \<in> set (ct_pending (example_control (example_busy @ [OE_BeginCleanup True, OE_Dispatch example_work]))) \<and> pd_published p \<and>
     valid_interaction_response (pd_request p) (pd_response p)"
proof -
  let ?c = "example_control (example_busy @ [OE_BeginCleanup True, OE_Dispatch example_work])"
  have run: "controller_run example_sdk 1 ?c"
    unfolding example_control_def by (rule allowed_controller_run [OF opened]) code_simp
  have "length (ct_pending ?c) = 1" "list_all (\<lambda>(n, p). pd_published p \<and> rs_results (pd_response p) = []) (ct_pending ?c)" by code_simp+
  then obtain n p where p: "(n, p) \<in> set (ct_pending ?c)" "pd_published p" "rs_results (pd_response p) = []" by (cases "ct_pending ?c") auto
  have "table_ids (sdk_identifiers example_sdk)" "codes_ok (sdk_setups example_sdk)"
    using example_table example_codes by (simp_all add: example_sdk_def)
  from controller_answers [OF run this] p show ?thesis by force
qed

text \<open>
  Property C12. When the SDK thread runs the shutdown that \<open>Cleanup\<close> has queued, every operation that was admitted is still in its table or
  slot, under its number, none is lost; every interaction, commissioning and window gets an answer, every subscription is cancelled, and
  every operation is finished and holds no client, opener or armed callback of the SDK.  No start of any operation is queued any more, and
  from the moment the controller began to close no interaction, subscription, commissioning or window is admitted.
\<close>

theorem controller_shutdown:
  assumes "controller_run K fabric_id c" "ct_queue c = Shutdown_work # q" "sdk_idle c"
  shows "operations_closed (dispatch_work K a c) \<and> \<not> ct_dangling (dispatch_work K a c) \<and>
    map fst (ct_pending (dispatch_work K a c)) = map fst (ct_pending c) \<and>
    map fst (ct_subscriptions (dispatch_work K a c)) = map fst (ct_subscriptions c) \<and>
    map fst (slot (ct_commissioning (dispatch_work K a c))) = map fst (slot (ct_commissioning c)) \<and>
    map fst (slot (ct_window (dispatch_work K a c))) = map fst (slot (ct_window c)) \<and>
    (\<forall>k i. Work k Ph_Start i \<notin> set (ct_queue (dispatch_work K a c))) \<and>
    refuses K c \<and> refuses K (dispatch_work K a c)"
proof -
  have inv: "controller_inv K c" "shares_ok K c" using controller_run_inv [OF assms(1)] by simp_all
  have d: "dispatch_work K a c = shutdown_operations K a (c\<lparr>ct_queue := q\<rparr>)" using assms(2) by (simp add: dispatch_work_def run_work_def)
  have after: "controller_inv K (dispatch_work K a c)" by (rule dispatch_inv [OF inv assms(3)])
  have "quiet q" using inv assms(2) by (simp add: controller_inv_def admission_inv_def quiet_def)
  then have "quiet (ct_queue (dispatch_work K a c))" unfolding d by (intro shutdown_quiet) simp
  then have no_start: "\<forall>k i. Work k Ph_Start i \<notin> set (ct_queue (dispatch_work K a c))" by (force simp: quiet_def list_all_iff)
  have "ct_phase (dispatch_work K a c) \<noteq> Ctl_Running" unfolding d by (simp add: shutdown_operations_def Let_def)
  then have "\<not> ct_open (dispatch_work K a c)" "\<not> ct_dangling (dispatch_work K a c)" "\<not> ct_open c"
    using after inv(1) assms(2) by (auto simp: controller_inv_def admission_inv_def)
  then show ?thesis
    using shutdown_closes [of K a "c\<lparr>ct_queue := q\<rparr>"] shutdown_ids [of K a "c\<lparr>ct_queue := q\<rparr>"] no_start closed_refuses
    unfolding d by simp
qed

theorem controller_shutdown_witness:
  "controller_run example_sdk 1 (example_control (example_busy @ [OE_BeginCleanup True])) \<and>
   map fst (ct_pending (dispatch_work example_sdk example_work (example_control (example_busy @ [OE_BeginCleanup True])))) = [0] \<and>
   map fst (ct_subscriptions (dispatch_work example_sdk example_work (example_control (example_busy @ [OE_BeginCleanup True])))) = [1] \<and>
   operations_closed (dispatch_work example_sdk example_work (example_control (example_busy @ [OE_BeginCleanup True]))) \<and>
   refuses example_sdk (example_control (example_busy @ [OE_BeginCleanup True]))"
proof -
  have "ct_queue (example_control (example_busy @ [OE_BeginCleanup True])) = [Shutdown_work]"
    "sdk_idle (example_control (example_busy @ [OE_BeginCleanup True]))"
    "map fst (ct_pending (example_control (example_busy @ [OE_BeginCleanup True]))) = [0]"
    "map fst (ct_subscriptions (example_control (example_busy @ [OE_BeginCleanup True]))) = [1]" by code_simp+
  then show ?thesis using example_busy_run(2) controller_shutdown [OF example_busy_run(2)] by metis
qed

end
