(* ===== verification/Authority.thy ===== *)
theory Authority
  imports StoreContract
begin

text \<open>
  \<open>RootAuthority\<close> of \<^verbatim>\<open>native/src/authority.cpp\<close>: the root key, root certificate and identity protection key of
  the controller, kept in the durable store, and the operational certificates it issues.

  The cryptography is that of the Matter SDK and a parameter: the record \<open>sdk_crypto\<close> holds the functions the code
  calls, \<open>root_entropy\<close> and the further arguments what the random generator answers.  The store is the model of
  \<open>DurableStorage\<close>, with its failing system calls.
\<close>

section \<open>Parameters\<close>

datatype authority_error = AE_Store chip_error | AE_Sdk nat | AE_IncorrectState | AE_InvalidArgument | AE_Internal

datatype dn_attribute = MatterRCACId u64 | MatterFabricId u64 | MatterNodeId u64

record cert_request =
  xq_serial :: u64
  xq_start :: u32
  xq_end :: u32
  xq_subject :: "dn_attribute list"
  xq_issuer :: "dn_attribute list"

text \<open>The reader of the CSR elements: the answers of the calls in the order in which they are made.\<close>

record csr_reader =
  cs_unspecified :: bool
  cs_next :: "authority_error option"
  cs_expect :: "authority_error option"
  cs_enter :: "authority_error option"
  cs_csr :: "authority_error + u8 list"
  cs_exit :: "authority_error option"

record 'k sdk_crypto =
  cx_serialize :: "'k \<Rightarrow> authority_error + u8 list"
  cx_capacity :: u16
  cx_set_length :: "u16 \<Rightarrow> authority_error option"
  cx_deserialize :: "u8 list \<Rightarrow> authority_error + 'k"
  cx_pubkey :: "'k \<Rightarrow> u8 list"
  cx_add_attribute :: "dn_attribute \<Rightarrow> dn_attribute list \<Rightarrow> authority_error option"
  cx_new_root :: "cert_request \<Rightarrow> 'k \<Rightarrow> authority_error + u8 list"
  cx_new_operational :: "cert_request \<Rightarrow> u8 list \<Rightarrow> 'k \<Rightarrow> authority_error + u8 list"
  cx_extract_pubkey :: "u8 list \<Rightarrow> authority_error + u8 list"
  cx_extract_subject :: "u8 list \<Rightarrow> authority_error + dn_attribute list"
  cx_csr_reader :: "u8 list \<Rightarrow> csr_reader"
  cx_verify_csr :: "u8 list \<Rightarrow> authority_error + u8 list"
  cx_operational_node :: "u64 \<Rightarrow> bool"
  cx_max_der_length :: u16
  cx_nonce_length :: nat
  cx_null_time :: u32

record 'k root_entropy =
  en_key :: "authority_error + 'k"
  en_root_id :: "authority_error + u64"
  en_serial :: "authority_error + u64"
  en_ipk :: "authority_error + u8 list"

section \<open>State\<close>

record 'k RootAuthority =
  ra_storage :: bool
  ra_identity :: ControllerIdentity
  ra_root_key :: "'k option"
  ra_root_certificate :: "u8 list"
  ra_ipk :: "u8 list"
  ra_next_node_id :: u64
  ra_next_fabric_id :: u64
  ra_node_requested :: bool
  ra_fabric_requested :: bool
  ra_initialized :: bool
  ra_callback_noc :: "u8 list"

definition mk_authority :: "'k RootAuthority" where
  "mk_authority =
     \<lparr>ra_storage = False, ra_identity = \<lparr>ci_fabric_id = 0, ci_controller_node_id = 0, ci_vendor_id = 0\<rparr>, ra_root_key = None,
      ra_root_certificate = [], ra_ipk = replicate 16 0, ra_next_node_id = 0, ra_next_fabric_id = 0, ra_node_requested = False,
      ra_fabric_requested = False, ra_initialized = False, ra_callback_noc = []\<rparr>"

section \<open>Reading and writing\<close>

definition kRootKey :: string where "kRootKey = ''wotex/authority/root-key''"
definition kRootCertificate :: string where "kRootCertificate = ''wotex/authority/root-cert''"
definition kIpk :: string where "kIpk = ''wotex/authority/ipk''"
definition kValidityStart :: u32 where "kValidityStart = 662688000"

definition ReadValue :: "DurableStorage \<Rightarrow> string \<Rightarrow> u16 \<Rightarrow> authority_error + u8 list" where
  "ReadValue storage key expected_size =
     (case SyncGetKeyValue (Some key) False expected_size storage of
        (Some e, bytes, sz) \<Rightarrow> Inl (AE_Store e)
      | (None, bytes, sz) \<Rightarrow> if sz = expected_size then Inr bytes else Inl AE_InvalidArgument)"

definition ReadVector :: "DurableStorage \<Rightarrow> string \<Rightarrow> u16 \<Rightarrow> authority_error + u8 list" where
  "ReadVector storage key maximum_size =
     (case SyncGetKeyValue (Some key) False maximum_size storage of
        (Some e, bytes, sz) \<Rightarrow> Inl (AE_Store e)
      | (None, bytes, sz) \<Rightarrow> if sz > 0 \<and> sz \<le> maximum_size then Inr bytes else Inl AE_InvalidArgument)"

definition WriteValue ::
    "(json \<Rightarrow> string option) \<Rightarrow> string \<Rightarrow> u8 list \<Rightarrow> DurableStorage \<times> world \<Rightarrow> authority_error option \<times> DurableStorage \<times> world" where
  "WriteValue dump key value st =
     (if value = [] \<or> length value > 0xFFFF then (Some AE_InvalidArgument, st)
      else case SyncSetKeyValue dump (Some key) (Some value) (of_nat (length value)) st of
        (e, st') \<Rightarrow> (map_option AE_Store e, st'))"

definition RandomPositive :: "authority_error + u64 \<Rightarrow> authority_error + u64" where
  "RandomPositive bytes =
     (case bytes of
        Inl e \<Rightarrow> Inl e
      | Inr value \<Rightarrow> let value = value AND 0x7FFFFFFFFFFFFFFF in if value > 0 then Inr value else Inl AE_Internal)"

fun add_attributes :: "'k sdk_crypto \<Rightarrow> dn_attribute list \<Rightarrow> dn_attribute list \<Rightarrow> authority_error + dn_attribute list" where
  "add_attributes C [] dn = Inr dn"
| "add_attributes C (a # as) dn = (case cx_add_attribute C a dn of Some e \<Rightarrow> Inl e | None \<Rightarrow> add_attributes C as (dn @ [a]))"

section \<open>Creating and loading\<close>

definition absent :: "DurableStorage \<Rightarrow> string \<Rightarrow> bool" where
  "absent storage key \<longleftrightarrow> fst (SyncGetKeyValue (Some key) False 1 storage) = Some CHIP_ERROR_PERSISTED_STORAGE_VALUE_NOT_FOUND"

text \<open>The three writes at the end of \<open>Create\<close>.\<close>

fun write_values ::
    "(json \<Rightarrow> string option) \<Rightarrow> (string \<times> u8 list) list \<Rightarrow> DurableStorage \<times> world \<Rightarrow> authority_error option \<times> DurableStorage \<times> world" where
  "write_values dump [] st = (None, st)"
| "write_values dump ((key, value) # rest) st =
     (case WriteValue dump key value st of (Some e, st1) \<Rightarrow> (Some e, st1) | (None, st1) \<Rightarrow> write_values dump rest st1)"

definition root_request :: "'k sdk_crypto \<Rightarrow> u64 \<Rightarrow> dn_attribute list \<Rightarrow> cert_request" where
  "root_request C serial dn =
     \<lparr>xq_serial = serial, xq_start = kValidityStart, xq_end = cx_null_time C, xq_subject = dn, xq_issuer = dn\<rparr>"

definition Create ::
    "'k sdk_crypto \<Rightarrow> (json \<Rightarrow> string option) \<Rightarrow> 'k root_entropy \<Rightarrow> 'k RootAuthority \<Rightarrow> DurableStorage \<times> world \<Rightarrow>
     authority_error option \<times> 'k RootAuthority \<times> DurableStorage \<times> world" where
  "Create C dump R a st =
     (if \<not> list_all (absent (fst st)) [kRootKey, kRootCertificate, kIpk] then (Some AE_IncorrectState, a, st)
      else case en_key R of
        Inl e \<Rightarrow> (Some e, a, st)
      | Inr key \<Rightarrow>
          let a = a\<lparr>ra_root_key := Some key\<rparr>
          in case cx_serialize C key of
               Inl e \<Rightarrow> (Some e, a, st)
             | Inr serialized \<Rightarrow>
                 (case RandomPositive (en_root_id R) of
                    Inl e \<Rightarrow> (Some e, a, st)
                  | Inr root_id \<Rightarrow>
                      (case RandomPositive (en_serial R) of
                         Inl e \<Rightarrow> (Some e, a, st)
                       | Inr serial \<Rightarrow>
                           (case add_attributes C [MatterRCACId root_id, MatterFabricId (ci_fabric_id (ra_identity a))] [] of
                              Inl e \<Rightarrow> (Some e, a, st)
                            | Inr root_dn \<Rightarrow>
                                (case cx_new_root C (root_request C serial root_dn) key of
                                   Inl e \<Rightarrow> (Some e, a\<lparr>ra_root_certificate := replicate (unat (cx_max_der_length C)) 0\<rparr>, st)
                                 | Inr certificate \<Rightarrow>
                                     let a = a\<lparr>ra_root_certificate := certificate\<rparr>
                                     in case en_ipk R of
                                          Inl e \<Rightarrow> (Some e, a, st)
                                        | Inr key_bytes \<Rightarrow>
                                            (case write_values dump [(kRootKey, serialized), (kRootCertificate, certificate), (kIpk, key_bytes)] st of
                                               (r, st') \<Rightarrow> (r, a\<lparr>ra_ipk := key_bytes\<rparr>, st')))))))"

definition Load :: "'k sdk_crypto \<Rightarrow> 'k RootAuthority \<Rightarrow> DurableStorage \<Rightarrow> authority_error option \<times> 'k RootAuthority" where
  "Load C a storage =
     (case SyncGetKeyValue (Some kRootKey) False (cx_capacity C) storage of
        (Some e, bytes, sz) \<Rightarrow> (Some (AE_Store e), a)
      | (None, bytes, sz) \<Rightarrow>
          (case cx_set_length C sz of
             Some e \<Rightarrow> (Some e, a)
           | None \<Rightarrow>
               (case cx_deserialize C bytes of
                  Inl e \<Rightarrow> (Some e, a)
                | Inr key \<Rightarrow>
                    let a = a\<lparr>ra_root_key := Some key\<rparr>
                    in case ReadVector storage kRootCertificate (cx_max_der_length C) of
                         Inl e \<Rightarrow> (Some e, a\<lparr>ra_root_certificate := replicate (unat (cx_max_der_length C)) 0\<rparr>)
                       | Inr certificate \<Rightarrow>
                           let a = a\<lparr>ra_root_certificate := certificate\<rparr>
                           in case ReadValue storage kIpk 16 of
                                Inl e \<Rightarrow> (Some e, a)
                              | Inr key_bytes \<Rightarrow>
                                  let a = a\<lparr>ra_ipk := key_bytes\<rparr>
                                  in case cx_extract_pubkey C certificate of
                                       Inl e \<Rightarrow> (Some e, a)
                                     | Inr certificate_key \<Rightarrow>
                                         (if take (length certificate_key) (cx_pubkey C key) = certificate_key then None
                                          else Some AE_InvalidArgument, a))))"

definition Init ::
    "'k sdk_crypto \<Rightarrow> (json \<Rightarrow> string option) \<Rightarrow> 'k root_entropy \<Rightarrow> AuthorityMode \<Rightarrow> ControllerIdentity \<Rightarrow> 'k RootAuthority \<Rightarrow>
     DurableStorage \<times> world \<Rightarrow> authority_error option \<times> 'k RootAuthority \<times> DurableStorage \<times> world" where
  "Init C dump R mode identity a st =
     (if ra_initialized a then (Some AE_IncorrectState, a, st)
      else
        let a = a\<lparr>ra_storage := True, ra_identity := identity\<rparr>;
            (error, a, st) = (if mode = AM_GenerateRoot then Create C dump R a st
                              else case Load C a (fst st) of (e, a') \<Rightarrow> (e, a', st))
        in case error of
             Some e \<Rightarrow> (Some e, a\<lparr>ra_storage := False\<rparr>, st)
           | None \<Rightarrow> (None, a\<lparr>ra_initialized := True\<rparr>, st))"

section \<open>Issuing\<close>

text \<open>The issued certificate, or the error; \<open>serial\<close> is what the random generator answers.  The output buffer of a call
  that fails is not read by anyone and left out.\<close>

definition IssueNoc ::
    "'k sdk_crypto \<Rightarrow> authority_error + u64 \<Rightarrow> 'k RootAuthority \<Rightarrow> u8 list \<Rightarrow> u64 \<Rightarrow> u64 \<Rightarrow> authority_error + u8 list" where
  "IssueNoc C serial a public_key node_id fabric_id =
     (if \<not> (ra_initialized a \<and> fabric_id = ci_fabric_id (ra_identity a) \<and> cx_operational_node C node_id) then Inl AE_InvalidArgument
      else case cx_extract_subject C (ra_root_certificate a) of
        Inl e \<Rightarrow> Inl e
      | Inr issuer_dn \<Rightarrow>
          (case add_attributes C [MatterFabricId fabric_id, MatterNodeId node_id] [] of
             Inl e \<Rightarrow> Inl e
           | Inr noc_dn \<Rightarrow>
               (case RandomPositive serial of
                  Inl e \<Rightarrow> Inl e
                | Inr serial \<Rightarrow>
                    cx_new_operational C
                      \<lparr>xq_serial = serial, xq_start = kValidityStart, xq_end = cx_null_time C, xq_subject = noc_dn, xq_issuer = issuer_dn\<rparr>
                      public_key (the (ra_root_key a)))))"

definition GenerateControllerChain ::
    "'k sdk_crypto \<Rightarrow> authority_error + u64 \<Rightarrow> 'k RootAuthority \<Rightarrow> u8 list \<Rightarrow> authority_error + u8 list \<times> u8 list" where
  "GenerateControllerChain C serial a controller_public_key =
     (case IssueNoc C serial a controller_public_key (ci_controller_node_id (ra_identity a)) (ci_fabric_id (ra_identity a)) of
        Inl e \<Rightarrow> Inl e
      | Inr noc \<Rightarrow> Inr (noc, ra_root_certificate a))"

definition SetNodeIdForNextNOCRequest :: "u64 \<Rightarrow> 'k RootAuthority \<Rightarrow> 'k RootAuthority" where
  "SetNodeIdForNextNOCRequest node_id a = a\<lparr>ra_next_node_id := node_id, ra_node_requested := True\<rparr>"

definition SetFabricIdForNextNOCRequest :: "u64 \<Rightarrow> 'k RootAuthority \<Rightarrow> 'k RootAuthority" where
  "SetFabricIdForNextNOCRequest fabric_id a = a\<lparr>ra_next_fabric_id := fabric_id, ra_fabric_requested := True\<rparr>"

record noc_call =
  nc_csr_elements :: "u8 list"
  nc_csr_nonce :: "u8 list"
  nc_attestation_signature :: "u8 list"
  nc_attestation_challenge :: "u8 list"
  nc_dac :: "u8 list"
  nc_completion :: bool

text \<open>What the completion callback is given.\<close>

record noc_chain =
  ch_noc :: "u8 list"
  ch_rcac :: "u8 list"
  ch_ipk :: "u8 list"

definition read_csr :: "csr_reader \<Rightarrow> authority_error + u8 list" where
  "read_csr r =
     (case (if cs_unspecified r then cs_next r else None) of
        Some e \<Rightarrow> Inl e
      | None \<Rightarrow>
          (case cs_expect r of
             Some e \<Rightarrow> Inl e
           | None \<Rightarrow>
               (case cs_enter r of
                  Some e \<Rightarrow> Inl e
                | None \<Rightarrow>
                    (case cs_csr r of
                       Inl e \<Rightarrow> Inl e
                     | Inr csr \<Rightarrow> (case cs_exit r of Some e \<Rightarrow> Inl e | None \<Rightarrow> Inr csr)))))"

definition GenerateNOCChain ::
    "'k sdk_crypto \<Rightarrow> authority_error + u64 \<Rightarrow> noc_call \<Rightarrow> 'k RootAuthority \<Rightarrow>
     authority_error option \<times> noc_chain option \<times> 'k RootAuthority" where
  "GenerateNOCChain C serial q a =
     (if \<not> (ra_initialized a \<and> ra_node_requested a \<and> ra_fabric_requested a \<and> ra_next_fabric_id a = ci_fabric_id (ra_identity a) \<and>
            cx_operational_node C (ra_next_node_id a) \<and> length (nc_csr_nonce q) = cx_nonce_length C \<and>
            nc_attestation_signature q \<noteq> [] \<and> nc_attestation_challenge q \<noteq> [] \<and> nc_dac q \<noteq> [] \<and> nc_completion q)
      then (Some AE_InvalidArgument, None, a)
      else case read_csr (cx_csr_reader C (nc_csr_elements q)) of
        Inl e \<Rightarrow> (Some e, None, a)
      | Inr csr \<Rightarrow>
          (case cx_verify_csr C csr of
             Inl e \<Rightarrow> (Some e, None, a)
           | Inr public_key \<Rightarrow>
               (case IssueNoc C serial a public_key (ra_next_node_id a) (ra_next_fabric_id a) of
                  Inl e \<Rightarrow> (Some e, None, a)
                | Inr noc \<Rightarrow>
                    (None, Some \<lparr>ch_noc = noc, ch_rcac = ra_root_certificate a, ch_ipk = ra_ipk a\<rparr>,
                     a\<lparr>ra_callback_noc := noc, ra_node_requested := False, ra_fabric_requested := False\<rparr>))))"

section \<open>The store under an authority\<close>

lemma authority_keys [simp]:
  "ValidKey (Some kRootKey) = Some kRootKey" "ValidKey (Some kRootCertificate) = Some kRootCertificate" "ValidKey (Some kIpk) = Some kIpk"
  by (simp_all add: ValidKey_def ValidUtf8_def kMaximumKeyBytes_def kRootKey_def kRootCertificate_def kIpk_def Let_def)

lemma Commit_answer:
  "Commit dump vals (s, w) = (None, s1, w1) \<Longrightarrow> s1 = s \<and> \<not> ds_poisoned s"
  "Commit dump vals (s, w) = (r, s1, w1) \<Longrightarrow> ds_values s1 = ds_values s"
  by (auto simp: Commit_def Poison_def Let_def split: if_splits option.splits prod.splits bool.splits)

lemma Set_done:
  assumes "ValidKey key = Some k" "SyncSetKeyValue dump key (Some val) (of_nat (length val)) (s, w) = (r, s', w')" "length val \<le> 0xFFFF"
  shows "map_of (ds_values s') = (if r = None then (map_of (ds_values s))(k \<mapsto> val) else map_of (ds_values s))"
    "r = None \<Longrightarrow> \<not> ds_poisoned s'"
proof -
  have size: "unat (of_nat (length val) :: u16) = length val" using assms(3) by (simp add: unat_of_nat take_bit_nat_eq_self)
  then have bytes: "(if (of_nat (length val) :: u16) = 0 then [] else take (unat (of_nat (length val) :: u16)) val) = val"
    by (metis length_0_conv order_refl take_all unat_0)
  show "map_of (ds_values s') = (if r = None then (map_of (ds_values s))(k \<mapsto> val) else map_of (ds_values s))"
    using assms(1,2) bytes
    by (auto simp: SyncSetKeyValue_def Let_def dest: Commit_answer split: if_splits option.splits prod.splits)
  show "r = None \<Longrightarrow> \<not> ds_poisoned s'"
    using assms(1,2) by (auto simp: SyncSetKeyValue_def Let_def dest: Commit_answer split: if_splits option.splits prod.splits)
qed

lemma Write_done:
  assumes "ValidKey (Some key) = Some key" "WriteValue dump key val st = (r, st')"
  shows "store_lookup st' = (if r = None then (store_lookup st)(key \<mapsto> val) else store_lookup st)"
    "r = None \<Longrightarrow> \<not> ds_poisoned (fst st') \<and> val \<noteq> [] \<and> length val \<le> 0xFFFF"
proof -
  consider "val = [] \<or> length val > 0xFFFF" | "val \<noteq> []" "length val \<le> 0xFFFF" by force
  then have "store_lookup st' = (if r = None then (store_lookup st)(key \<mapsto> val) else store_lookup st) \<and>
     (r = None \<longrightarrow> \<not> ds_poisoned (fst st') \<and> val \<noteq> [] \<and> length val \<le> 0xFFFF)"
  proof cases
    case 1
    then show ?thesis using assms(2) by (auto simp: WriteValue_def)
  next
    case 2
    obtain s w s' w' where st: "st = (s, w)" "st' = (s', w')" by (metis surj_pair)
    obtain e where "SyncSetKeyValue dump (Some key) (Some val) (of_nat (length val)) (s, w) = (e, s', w')" "r = map_option AE_Store e"
      using assms(2) 2 st by (auto simp: WriteValue_def split: prod.splits)
    then show ?thesis using Set_done [OF assms(1), of dump val s w e s' w'] 2 st by (auto simp: store_lookup_def)
  qed
  then show "store_lookup st' = (if r = None then (store_lookup st)(key \<mapsto> val) else store_lookup st)"
    "r = None \<Longrightarrow> \<not> ds_poisoned (fst st') \<and> val \<noteq> [] \<and> length val \<le> 0xFFFF" by blast+
qed

lemma write_values_done:
  assumes "list_all (\<lambda>(key, val). ValidKey (Some key) = Some key) kvs" "write_values dump kvs st = (r, st')"
  shows "k \<notin> fst ` set kvs \<Longrightarrow> store_lookup st' k = store_lookup st k"
    "r = None \<Longrightarrow> distinct (map fst kvs) \<Longrightarrow> (k, v) \<in> set kvs \<Longrightarrow> store_lookup st' k = Some v \<and> v \<noteq> [] \<and> length v \<le> 0xFFFF"
    "r = None \<Longrightarrow> kvs \<noteq> [] \<Longrightarrow> \<not> ds_poisoned (fst st')"
proof -
  have "(k \<notin> fst ` set kvs \<longrightarrow> store_lookup st' k = store_lookup st k) \<and>
    (r = None \<longrightarrow> distinct (map fst kvs) \<longrightarrow> (k, v) \<in> set kvs \<longrightarrow> store_lookup st' k = Some v \<and> v \<noteq> [] \<and> length v \<le> 0xFFFF) \<and>
    (r = None \<longrightarrow> kvs \<noteq> [] \<longrightarrow> \<not> ds_poisoned (fst st'))" for v
    using assms
  proof (induction kvs arbitrary: st v)
    case (Cons kv kvs)
    obtain key val where kv: "kv = (key, val)" by fastforce
    obtain e st1 where w: "WriteValue dump key val st = (e, st1)" by (cases "WriteValue dump key val st")
    have valid: "ValidKey (Some key) = Some key" "list_all (\<lambda>(key, val). ValidKey (Some key) = Some key) kvs"
      using Cons.prems(1) kv by simp_all
    note fin = Write_done [OF valid(1) w]
    show ?case
    proof (cases e)
      case None
      then have rest: "write_values dump kvs st1 = (r, st')" using Cons.prems(2) kv w by simp
      have keep: "store_lookup st' k = store_lookup st1 k" if "k \<notin> fst ` set kvs" using Cons.IH [OF valid(2) rest] that by blast
      show ?thesis
      proof (cases "kvs = []")
        case True
        then show ?thesis using rest fin None kv by auto
      next
        case False
        then show ?thesis using Cons.IH [OF valid(2) rest, of v] keep fin None kv by (force simp: image_iff)
      qed
    qed (use Cons.prems(2) kv w fin in auto)
  qed simp
  then show "k \<notin> fst ` set kvs \<Longrightarrow> store_lookup st' k = store_lookup st k"
    "r = None \<Longrightarrow> distinct (map fst kvs) \<Longrightarrow> (k, v) \<in> set kvs \<Longrightarrow> store_lookup st' k = Some v \<and> v \<noteq> [] \<and> length v \<le> 0xFFFF"
    "r = None \<Longrightarrow> kvs \<noteq> [] \<Longrightarrow> \<not> ds_poisoned (fst st')" by blast+
qed

lemma absent_iff: "ValidKey (Some k) = Some k \<Longrightarrow> absent s k \<longleftrightarrow> \<not> ds_poisoned s \<and> map_of (ds_values s) k = None"
  by (auto simp: absent_def SyncGetKeyValue_def Let_def split: option.splits)

lemma key_strings [simp]:
  "kRootKey \<noteq> kRootCertificate" "kRootKey \<noteq> kIpk" "kRootCertificate \<noteq> kIpk"
  "kRootCertificate \<noteq> kRootKey" "kIpk \<noteq> kRootKey" "kIpk \<noteq> kRootCertificate"
  by (simp_all add: kRootKey_def kRootCertificate_def kIpk_def)

text \<open>The only effect of \<open>Create\<close> on the store are its three writes, made when none of the keys is present.\<close>

lemma Create_cases:
  assumes "Create C dump R a st = (r, a', st')"
  obtains (refused) "st' = st" "r \<noteq> None"
  | (written) key serialized certificate key_bytes serial dn where
      "list_all (absent (fst st)) [kRootKey, kRootCertificate, kIpk]" "en_key R = Inr key" "cx_serialize C key = Inr serialized"
      "cx_new_root C (root_request C serial dn) key = Inr certificate" "en_ipk R = Inr key_bytes"
      "write_values dump [(kRootKey, serialized), (kRootCertificate, certificate), (kIpk, key_bytes)] st = (r, st')"
      "a' = a\<lparr>ra_root_key := Some key, ra_root_certificate := certificate, ra_ipk := key_bytes\<rparr>"
  using assms unfolding Create_def Let_def
  by (force split: if_splits sum.splits prod.splits)

lemma Create_keeps:
  assumes "Create C dump R a st = (r, a', st')" "store_lookup st k \<noteq> None"
  shows "store_lookup st' k = store_lookup st k"
  using assms(1)
proof (cases rule: Create_cases)
  case (written key serialized certificate key_bytes serial dn)
  then have "k \<notin> {kRootKey, kRootCertificate, kIpk}" using assms(2) by (auto simp: absent_iff store_lookup_def)
  then show ?thesis using write_values_done(1) [OF _ written(6), of k] by simp
qed simp

section \<open>Laws of the cryptography\<close>

text \<open>What the SDK documents: serialisation of a key pair is undone by deserialisation and fits the buffer, a new root
  certificate carries the public key of the pair and fits its buffer, a symmetric key has 16 bytes.\<close>

definition crypto_ok :: "'k sdk_crypto \<Rightarrow> bool" where
  "crypto_ok C \<longleftrightarrow>
     (\<forall>key bytes. cx_serialize C key = Inr bytes \<longrightarrow>
        cx_deserialize C bytes = Inr key \<and> length bytes \<le> unat (cx_capacity C) \<and> cx_set_length C (of_nat (length bytes)) = None) \<and>
     (\<forall>request key certificate. cx_new_root C request key = Inr certificate \<longrightarrow>
        cx_extract_pubkey C certificate = Inr (cx_pubkey C key) \<and> length certificate \<le> unat (cx_max_der_length C))"

lemma Get_present:
  assumes "\<not> ds_poisoned s" "ValidKey (Some key) = Some key" "map_of (ds_values s) key = Some bytes" "length bytes \<le> unat sz"
  shows "SyncGetKeyValue (Some key) False sz s = (None, bytes, of_nat (length bytes))"
  using Get_answer [OF assms(1,2), of sz] assms(3,4) by simp

lemma u16_size:
  assumes "length bytes \<le> unat (sz :: u16)"
  shows "unat (of_nat (length bytes) :: u16) = length bytes"
proof -
  have "unat sz < 2 ^ 16" using unsigned_less [of sz] by simp
  then show ?thesis using assms by (simp add: unat_of_nat take_bit_nat_eq_self)
qed

text \<open>A store that holds the three values is loaded.\<close>

lemma Load_stored:
  assumes C: "crypto_ok C" and s: "\<not> ds_poisoned s" "map_of (ds_values s) kRootKey = Some serialized"
    "map_of (ds_values s) kRootCertificate = Some certificate" "map_of (ds_values s) kIpk = Some key_bytes"
    and made: "cx_serialize C key = Inr serialized" "cx_new_root C request key = Inr certificate" "length key_bytes = 16" "certificate \<noteq> []"
  shows "Load C a s = (None, a\<lparr>ra_root_key := Some key, ra_root_certificate := certificate, ra_ipk := key_bytes\<rparr>)"
proof -
  have laws: "cx_deserialize C serialized = Inr key" "length serialized \<le> unat (cx_capacity C)"
    "cx_set_length C (of_nat (length serialized)) = None" "cx_extract_pubkey C certificate = Inr (cx_pubkey C key)"
    "length certificate \<le> unat (cx_max_der_length C)"
    using C made(1,2) by (auto simp: crypto_ok_def)
  have key: "SyncGetKeyValue (Some kRootKey) False (cx_capacity C) s = (None, serialized, of_nat (length serialized))"
    by (rule Get_present [OF s(1) _ s(2) laws(2)]) simp
  have cert: "ReadVector s kRootCertificate (cx_max_der_length C) = Inr certificate"
    using Get_present [OF s(1) _ s(3) laws(5)] u16_size [OF laws(5)] made(4) laws(5)
    by (simp add: ReadVector_def word_greater_zero_iff word_le_nat_alt unat_eq_0 [symmetric])
  have ipk: "ReadValue s kIpk 16 = Inr key_bytes"
    using Get_present [OF s(1) _ s(4), of 16] made(3) by (simp add: ReadValue_def)
  show ?thesis by (simp add: Load_def key cert ipk laws Let_def)
qed

section \<open>Issued certificates\<close>

lemma RandomPositive_range: "RandomPositive r = Inr v \<Longrightarrow> 0 < v \<and> v \<le> 0x7FFFFFFFFFFFFFFF"
  by (auto simp: RandomPositive_def Let_def word_and_le1 split: sum.splits if_splits)

lemma add_attributes_all: "add_attributes C as dn = Inr dn' \<Longrightarrow> dn' = dn @ as"
  by (induction C as dn rule: add_attributes.induct) (simp_all split: option.splits)

text \<open>A certificate for the node on the controller's fabric, issued and signed by the root of the authority.\<close>

definition issued_for :: "'k sdk_crypto \<Rightarrow> 'k RootAuthority \<Rightarrow> u8 list \<Rightarrow> u64 \<Rightarrow> u8 list \<Rightarrow> bool" where
  "issued_for C a public_key node noc \<longleftrightarrow>
     cx_operational_node C node \<and>
     (\<exists>serial issuer. 0 < serial \<and> serial \<le> 0x7FFFFFFFFFFFFFFF \<and> cx_extract_subject C (ra_root_certificate a) = Inr issuer \<and>
        cx_new_operational C
          \<lparr>xq_serial = serial, xq_start = kValidityStart, xq_end = cx_null_time C,
           xq_subject = [MatterFabricId (ci_fabric_id (ra_identity a)), MatterNodeId node], xq_issuer = issuer\<rparr>
          public_key (the (ra_root_key a)) = Inr noc)"

lemma IssueNoc_done:
  assumes "IssueNoc C serial a public_key node fabric = Inr noc"
  shows "issued_for C a public_key node noc \<and> fabric = ci_fabric_id (ra_identity a) \<and> ra_initialized a"
proof -
  obtain issuer dn v where *: "cx_extract_subject C (ra_root_certificate a) = Inr issuer"
    "add_attributes C [MatterFabricId fabric, MatterNodeId node] [] = Inr dn" "RandomPositive serial = Inr v"
    "cx_new_operational C
      \<lparr>xq_serial = v, xq_start = kValidityStart, xq_end = cx_null_time C, xq_subject = dn, xq_issuer = issuer\<rparr>
      public_key (the (ra_root_key a)) = Inr noc"
    "ra_initialized a" "fabric = ci_fabric_id (ra_identity a)" "cx_operational_node C node"
    using assms by (auto simp: IssueNoc_def split: if_splits sum.splits)
  have "dn = [MatterFabricId fabric, MatterNodeId node]" using add_attributes_all [OF *(2)] by simp
  then show ?thesis using * RandomPositive_range [OF *(3)] by (auto simp: issued_for_def)
qed

datatype authority_op = AO_Node u64 | AO_Fabric u64 | AO_Generate "authority_error + u64" noc_call

fun authority_step :: "'k sdk_crypto \<Rightarrow> authority_op \<Rightarrow> 'k RootAuthority \<Rightarrow> noc_chain list \<times> 'k RootAuthority" where
  "authority_step C (AO_Node node) a = ([], SetNodeIdForNextNOCRequest node a)"
| "authority_step C (AO_Fabric fabric) a = ([], SetFabricIdForNextNOCRequest fabric a)"
| "authority_step C (AO_Generate serial q) a =
     (case GenerateNOCChain C serial q a of (e, chain, a') \<Rightarrow> (case chain of None \<Rightarrow> [] | Some c \<Rightarrow> [c], a'))"

fun authority_run :: "'k sdk_crypto \<Rightarrow> authority_op list \<Rightarrow> 'k RootAuthority \<Rightarrow> noc_chain list \<times> 'k RootAuthority" where
  "authority_run C [] a = ([], a)"
| "authority_run C (op # ops) a =
     (case authority_step C op a of (issued, a1) \<Rightarrow> case authority_run C ops a1 of (more_issued, a2) \<Rightarrow> (issued @ more_issued, a2))"

fun named_node :: "authority_op \<Rightarrow> u64 option" where
  "named_node (AO_Node node) = Some node"
| "named_node _ = None"

fun names_fabric :: "authority_op \<Rightarrow> bool" where
  "names_fabric (AO_Fabric fabric) = True"
| "names_fabric _ = False"

definition same_root :: "'k RootAuthority \<Rightarrow> 'k RootAuthority \<Rightarrow> bool" where
  "same_root a a' \<longleftrightarrow> ra_identity a' = ra_identity a \<and> ra_root_key a' = ra_root_key a \<and> ra_root_certificate a' = ra_root_certificate a \<and>
     ra_ipk a' = ra_ipk a \<and> ra_initialized a' = ra_initialized a"

definition chain_ok :: "'k sdk_crypto \<Rightarrow> 'k RootAuthority \<Rightarrow> u64 set \<Rightarrow> noc_chain \<Rightarrow> bool" where
  "chain_ok C a nodes c \<longleftrightarrow>
     ch_rcac c = ra_root_certificate a \<and> ch_ipk c = ra_ipk a \<and> (\<exists>public_key. \<exists>node\<in>nodes. issued_for C a public_key node (ch_noc c))"

lemma same_root_issued: "same_root a a' \<Longrightarrow> issued_for C a' p n c = issued_for C a p n c"
  by (simp add: same_root_def issued_for_def)

lemma same_root_chain:
  assumes "same_root a a'"
  shows "chain_ok C a' nodes = chain_ok C a nodes"
proof
  fix c
  have "ra_root_certificate a' = ra_root_certificate a" "ra_ipk a' = ra_ipk a" using assms by (simp_all add: same_root_def)
  then show "chain_ok C a' nodes c = chain_ok C a nodes c" using same_root_issued [OF assms] by (simp add: chain_ok_def)
qed

lemma GenerateNOCChain_cases:
  assumes "GenerateNOCChain C serial q a = (e, chain, a')"
  obtains (refused) "chain = None" "a' = a" "e \<noteq> None"
  | (issued) c where "chain = Some c" "e = None" "chain_ok C a {ra_next_node_id a} c" "ra_node_requested a" "ra_fabric_requested a"
      "\<not> ra_node_requested a'" "\<not> ra_fabric_requested a'" "same_root a a'"
proof (cases chain)
  case None
  then show ?thesis
    using assms refused by (auto simp: GenerateNOCChain_def split: if_splits sum.splits)
next
  case (Some c)
  then obtain public_key noc where *: "IssueNoc C serial a public_key (ra_next_node_id a) (ra_next_fabric_id a) = Inr noc"
    "c = \<lparr>ch_noc = noc, ch_rcac = ra_root_certificate a, ch_ipk = ra_ipk a\<rparr>" "e = None" "ra_node_requested a" "ra_fabric_requested a"
    "a' = a\<lparr>ra_callback_noc := noc, ra_node_requested := False, ra_fabric_requested := False\<rparr>"
    using assms by (auto simp: GenerateNOCChain_def split: if_splits sum.splits)
  show ?thesis
    by (rule issued [of c]) (use Some * IssueNoc_done [OF *(1)] in \<open>auto simp: chain_ok_def same_root_def\<close>)
qed

text \<open>Every certificate uses up the node and the fabric that were set for it.\<close>

lemma authority_run_ok:
  assumes "authority_run C ops a = (issued, a')" "ra_node_requested a \<longrightarrow> ra_next_node_id a \<in> nodes"
    "\<forall>n\<in>set (List.map_filter named_node ops). n \<in> nodes"
  shows "same_root a a' \<and> list_all (chain_ok C a nodes) issued \<and>
    length issued + of_bool (ra_node_requested a') \<le> length (List.map_filter named_node ops) + of_bool (ra_node_requested a) \<and>
    length issued + of_bool (ra_fabric_requested a') \<le> length (filter names_fabric ops) + of_bool (ra_fabric_requested a)"
  using assms
proof (induction ops arbitrary: a issued)
  case Nil
  then show ?case by (simp add: same_root_def)
next
  case (Cons op ops)
  obtain is1 a1 is2 where 1: "authority_step C op a = (is1, a1)" and 2: "authority_run C ops a1 = (is2, a')" and split: "issued = is1 @ is2"
    using Cons.prems(1) by (auto split: prod.splits)
  have step: "same_root a a1 \<and> list_all (chain_ok C a nodes) is1 \<and> (ra_node_requested a1 \<longrightarrow> ra_next_node_id a1 \<in> nodes) \<and>
    length is1 + of_bool (ra_node_requested a1) \<le> length (List.map_filter named_node [op]) + of_bool (ra_node_requested a) \<and>
    length is1 + of_bool (ra_fabric_requested a1) \<le> length (filter names_fabric [op]) + of_bool (ra_fabric_requested a)"
  proof (cases op)
    case (AO_Generate serial q)
    obtain e chain where g: "GenerateNOCChain C serial q a = (e, chain, a1)" "is1 = (case chain of None \<Rightarrow> [] | Some c \<Rightarrow> [c])"
      using 1 AO_Generate by (auto split: prod.splits)
    from g(1) show ?thesis
    proof (cases rule: GenerateNOCChain_cases)
      case refused
      then show ?thesis using g Cons.prems(2) AO_Generate by (simp add: same_root_def map_filter_simps)
    next
      case (issued c)
      then show ?thesis using g Cons.prems(2) AO_Generate by (auto simp: map_filter_simps chain_ok_def)
    qed
  qed (use 1 Cons.prems in \<open>auto simp: SetNodeIdForNextNOCRequest_def SetFabricIdForNextNOCRequest_def same_root_def map_filter_simps\<close>)
  have rest: "\<forall>n\<in>set (List.map_filter named_node ops). n \<in> nodes" using Cons.prems(3) by (auto simp: map_filter_simps split: option.splits)
  have keep: "chain_ok C a1 nodes = chain_ok C a nodes"
    using step same_root_chain by blast
  have len: "length (List.map_filter named_node (op # ops)) = length (List.map_filter named_node [op]) + length (List.map_filter named_node ops)"
    "length (filter names_fabric (op # ops)) = length (filter names_fabric [op]) + length (filter names_fabric ops)"
    by (simp_all add: map_filter_simps split: option.split)
  show ?case using Cons.IH [OF 2 _ rest] step keep split len by (auto simp: same_root_def)
qed

section \<open>An example\<close>

definition example_crypto :: "u8 list sdk_crypto" where
  "example_crypto =
     \<lparr>cx_serialize = (\<lambda>key. if length key \<le> 97 then Inr key else Inl (AE_Sdk 1)), cx_capacity = 97, cx_set_length = (\<lambda>_. None),
      cx_deserialize = Inr, cx_pubkey = (\<lambda>key. key), cx_add_attribute = (\<lambda>_ _. None),
      cx_new_root = (\<lambda>_ key. if length key \<le> 600 then Inr key else Inl (AE_Sdk 2)),
      cx_new_operational = (\<lambda>request public_key _. Inr (public_key @ [of_nat (length (xq_subject request))])),
      cx_extract_pubkey = Inr, cx_extract_subject = (\<lambda>_. Inr [MatterRCACId 5, MatterFabricId 1]),
      cx_csr_reader = (\<lambda>bytes. \<lparr>cs_unspecified = True, cs_next = None, cs_expect = None, cs_enter = None, cs_csr = Inr bytes, cs_exit = None\<rparr>),
      cx_verify_csr = Inr, cx_operational_node = (\<lambda>node. node \<noteq> 0), cx_max_der_length = 600, cx_nonce_length = 2, cx_null_time = 0\<rparr>"

definition example_entropy :: "u8 list root_entropy" where
  "example_entropy = \<lparr>en_key = Inr [4, 2], en_root_id = Inr 5, en_serial = Inr 9, en_ipk = Inr (replicate 16 7)\<rparr>"

lemma example_crypto_ok: "crypto_ok example_crypto"
  by (auto simp: crypto_ok_def example_crypto_def split: if_splits)

text \<open>A commit that no system call disturbs.\<close>

lemma example_commit:
  assumes "clean (wd_disk w)" "wd_outcomes w = cut_outcomes @ [Sys_Ok] @ xs" "\<not> ds_poisoned s"
  shows "\<exists>w'. Commit (\<lambda>_. Some ''E'') vals (s, w) = (None, s, w') \<and> wd_outcomes w' = xs \<and> clean (wd_disk w')"
  using assms
  by (simp add: Commit_def Let_def SerializeState_def kMaximumFileBytes_def CleanCommitState_def commit_files_def call_defs cut_outcomes_def
      clean_def kTemporaryFile_def kIntentFile_def kStateFile_def)

lemma example_write:
  assumes "clean (wd_disk w)" "wd_outcomes w = cut_outcomes @ [Sys_Ok] @ xs" "\<not> ds_poisoned s" "ValidKey (Some key) = Some key"
    "length (ds_values s) < kMaximumKeys" "bytes \<noteq> []" "length bytes \<le> 0xFFFF"
  shows "\<exists>w'. WriteValue (\<lambda>_. Some ''E'') key bytes (s, w) = (None, s\<lparr>ds_values := map_put key bytes (ds_values s)\<rparr>, w') \<and>
     wd_outcomes w' = xs \<and> clean (wd_disk w')"
proof -
  have size: "unat (of_nat (length bytes) :: u16) = length bytes" using assms(7) by (simp add: unat_of_nat take_bit_nat_eq_self)
  then have "(of_nat (length bytes) :: u16) \<noteq> 0" using assms(6) by (metis length_0_conv unat_0)
  then show ?thesis
    using example_commit [OF assms(1-3), of "map_put key bytes (ds_values s)"] assms(3-7) size
    by (auto simp: WriteValue_def SyncSetKeyValue_def Let_def)
qed

definition example_root :: "u8 list RootAuthority" where
  "example_root =
     mk_authority\<lparr>ra_storage := True, ra_identity := example_identity, ra_root_key := Some [4, 2], ra_root_certificate := [4, 2],
       ra_ipk := replicate 16 7, ra_initialized := True\<rparr>"

definition example_held :: Values where
  "example_held = map_put kIpk (replicate 16 7) (map_put kRootCertificate [4, 2] [(kRootKey, [4, 2])])"

lemma example_init_from:
  assumes "clean (wd_disk w)" "wd_outcomes w = concat (replicate 3 (cut_outcomes @ [Sys_Ok]))"
  shows "\<exists>w'. Init example_crypto (\<lambda>_. Some ''E'') example_entropy AM_GenerateRoot example_identity mk_authority (example_store [] False, w) =
   (None, example_root, example_store example_held False, w')"
proof -
  let ?xs = "cut_outcomes @ [Sys_Ok]"
  have o: "wd_outcomes w = cut_outcomes @ [Sys_Ok] @ (?xs @ ?xs)" using assms(2) by (simp add: numeral_3_eq_3)
  obtain w1 where w1: "WriteValue (\<lambda>_. Some ''E'') kRootKey [4, 2] (example_store [] False, w) =
      (None, example_store [(kRootKey, [4, 2])] False, w1)" "wd_outcomes w1 = ?xs @ ?xs" "clean (wd_disk w1)"
    using example_write [OF assms(1) o, of "example_store [] False" kRootKey "[4, 2]"] by (auto simp: example_store_def kMaximumKeys_def)
  obtain w2 where w2: "WriteValue (\<lambda>_. Some ''E'') kRootCertificate [4, 2] (example_store [(kRootKey, [4, 2])] False, w1) =
      (None, example_store (map_put kRootCertificate [4, 2] [(kRootKey, [4, 2])]) False, w2)" "wd_outcomes w2 = ?xs @ []" "clean (wd_disk w2)"
    using example_write [OF w1(3), of ?xs "example_store [(kRootKey, [4, 2])] False" kRootCertificate "[4, 2]"] w1(2)
    by (auto simp: example_store_def kMaximumKeys_def)
  have "length (map_put kRootCertificate [4, 2 :: u8] [(kRootKey, [4, 2])]) < kMaximumKeys" by (simp add: kMaximumKeys_def)
  then obtain w3 where w3: "WriteValue (\<lambda>_. Some ''E'') kIpk (replicate 16 7)
      (example_store (map_put kRootCertificate [4, 2] [(kRootKey, [4, 2])]) False, w2) = (None, example_store example_held False, w3)"
    using example_write [OF w2(3), of "[]" "example_store (map_put kRootCertificate [4, 2] [(kRootKey, [4, 2])]) False" kIpk "replicate 16 7"] w2(2)
    by (auto simp: example_store_def example_held_def)
  have "list_all (absent (example_store [] False)) [kRootKey, kRootCertificate, kIpk]"
    by (simp add: absent_iff) (simp add: example_store_def)
  then show ?thesis
    using w1 w2 w3
    by (simp add: Init_def Create_def Let_def example_entropy_def example_crypto_def RandomPositive_def example_root_def mk_authority_def)
qed

lemma example_init:
  "\<exists>w'. Init example_crypto (\<lambda>_. Some ''E'') example_entropy AM_GenerateRoot example_identity mk_authority
     (example_store [] False, example_world example_disk (concat (replicate 3 (cut_outcomes @ [Sys_Ok])))) =
   (None, example_root, example_store example_held False, w')"
  by (rule example_init_from)
    (simp_all add: example_world_def clean_def example_disk_def kTemporaryFile_def kIntentFile_def kStateFile_def kLockFile_def)

section \<open>Properties\<close>

text \<open>
  Property C28. An authority that was created is the one that is loaded later: when \<open>Init\<close> has generated a root and answered
  without an error, then every \<open>Init\<close> for the stored root, over any store that holds the same values, gives the same
  root key, certificate and identity protection key and changes nothing.
\<close>

theorem created_authority_loads:
  assumes "crypto_ok C" "\<forall>bytes. en_ipk R = Inr bytes \<longrightarrow> length bytes = 16"
    "Init C dump R AM_GenerateRoot identity mk_authority st = (None, a, st')"
    "store_lookup (s, w) = store_lookup st'" "\<not> ds_poisoned s"
  shows "Init C dump R' AM_Stored identity mk_authority (s, w) = (None, a, s, w)"
proof -
  let ?a = "mk_authority\<lparr>ra_storage := True, ra_identity := identity\<rparr>"
  obtain a' where create: "Create C dump R ?a st = (None, a', st')" and a: "a = a'\<lparr>ra_initialized := True\<rparr>"
    using assms(3) by (auto simp: Init_def Let_def mk_authority_def split: prod.splits option.splits)
  from create show ?thesis
  proof (cases rule: Create_cases)
    case (written key serialized certificate key_bytes serial dn)
    note held = write_values_done(2) [OF _ written(6), simplified]
    have "certificate \<noteq> []" "length key_bytes = 16" using held [of kRootCertificate certificate] assms(2) written(5) by auto
    moreover have "map_of (ds_values s) kRootKey = Some serialized" "map_of (ds_values s) kRootCertificate = Some certificate"
      "map_of (ds_values s) kIpk = Some key_bytes"
      using held [of kRootKey serialized] held [of kRootCertificate certificate] held [of kIpk key_bytes] assms(4)
      by (simp_all add: store_lookup_def)
    ultimately have "Load C ?a s = (None, ?a\<lparr>ra_root_key := Some key, ra_root_certificate := certificate, ra_ipk := key_bytes\<rparr>)"
      using Load_stored [OF assms(1,5)] written(3,4) by blast
    then show ?thesis using a written(7) by (simp add: Init_def mk_authority_def)
  qed simp
qed

theorem created_authority_loads_witness:
  "\<exists>w'. Init example_crypto (\<lambda>_. Some ''E'') example_entropy AM_GenerateRoot example_identity mk_authority
     (example_store [] False, example_world example_disk (concat (replicate 3 (cut_outcomes @ [Sys_Ok])))) =
      (None, example_root, example_store example_held False, w') \<and>
   Init example_crypto (\<lambda>_. Some ''E'') example_entropy AM_Stored example_identity mk_authority (example_store example_held False, w') =
      (None, example_root, example_store example_held False, w')"
proof -
  obtain w' where i: "Init example_crypto (\<lambda>_. Some ''E'') example_entropy AM_GenerateRoot example_identity mk_authority
     (example_store [] False, example_world example_disk (concat (replicate 3 (cut_outcomes @ [Sys_Ok])))) =
      (None, example_root, example_store example_held False, w')" using example_init by blast
  have "\<forall>bytes. en_ipk example_entropy = Inr bytes \<longrightarrow> length bytes = 16" by (simp add: example_entropy_def)
  from created_authority_loads [OF example_crypto_ok this i] i show ?thesis by (fastforce simp: example_store_def)
qed

text \<open>
  Property C29. \<open>Init\<close> never overwrites: a value that the store holds is there unchanged afterwards, whatever the mode and whatever
  fails; and when one of the three keys of an authority is present, no root is generated and the store is not touched.
\<close>

theorem authority_not_overwritten:
  assumes "Init C dump R mode identity a st = (r, a', st')" "store_lookup st k = Some bytes"
  shows "store_lookup st' k = Some bytes \<and>
    (mode = AM_GenerateRoot \<and> k \<in> {kRootKey, kRootCertificate, kIpk} \<longrightarrow> r \<noteq> None \<and> st' = st)"
proof (cases "ra_initialized a \<or> mode \<noteq> AM_GenerateRoot")
  case True
  then show ?thesis using assms by (auto simp: Init_def Let_def split: prod.splits option.splits if_splits)
next
  case False
  obtain e a1 where create: "Create C dump R (a\<lparr>ra_storage := True, ra_identity := identity\<rparr>) st = (e, a1, st')" "r = e"
    using assms(1) False by (auto simp: Init_def Let_def split: prod.splits option.splits)
  have "\<not> list_all (absent (fst st)) [kRootKey, kRootCertificate, kIpk]" if "k \<in> {kRootKey, kRootCertificate, kIpk}"
    using assms(2) that by (auto simp: absent_iff store_lookup_def)
  then have "r \<noteq> None \<and> st' = st" if "k \<in> {kRootKey, kRootCertificate, kIpk}"
    using create that by (auto simp: Create_def)
  then show ?thesis using Create_keeps [OF create(1), of k] assms(2) by simp
qed

theorem authority_not_overwritten_witness:
  "fst (Init example_crypto (\<lambda>_. Some ''E'') example_entropy AM_GenerateRoot example_identity mk_authority
     (example_store [(kIpk, [1])] False, example_world example_disk [])) \<noteq> None"
proof -
  obtain r a' st' where i: "Init example_crypto (\<lambda>_. Some ''E'') example_entropy AM_GenerateRoot example_identity mk_authority
     (example_store [(kIpk, [1])] False, example_world example_disk []) = (r, a', st')" by (metis surj_pair)
  have "store_lookup (example_store [(kIpk, [1])] False, example_world example_disk []) kIpk = Some [1]"
    by (simp add: store_lookup_def example_store_def)
  from authority_not_overwritten [OF i this] i show ?thesis by simp
qed

text \<open>
  Property C30. An initialized authority issues certificates only on request: over any sequence of calls there are at most as many
  as nodes that were set, and as fabrics; each is for an operational node that was set, on the fabric of the controller, with a
  positive serial number, issued by the subject of the root certificate and signed with the root key, and is
  given out with that root certificate.
\<close>

theorem certificates_on_request:
  assumes "authority_run C ops a = (issued, a')" "\<not> ra_node_requested a" "\<not> ra_fabric_requested a"
  shows "length issued \<le> length (List.map_filter named_node ops) \<and> length issued \<le> length (filter names_fabric ops) \<and>
    (\<forall>c\<in>set issued. ch_rcac c = ra_root_certificate a \<and> ch_ipk c = ra_ipk a \<and>
       (\<exists>public_key node. AO_Node node \<in> set ops \<and> issued_for C a public_key node (ch_noc c)))"
proof -
  have "\<forall>n\<in>set (List.map_filter named_node ops). AO_Node n \<in> set ops"
    by (induction ops) (auto simp: map_filter_simps split: option.splits elim: named_node.elims)
  then show ?thesis
    using authority_run_ok [OF assms(1), of "{n. AO_Node n \<in> set ops}"] assms(2,3) by (auto simp: list_all_iff chain_ok_def)
qed

definition example_call :: noc_call where
  "example_call = \<lparr>nc_csr_elements = [8], nc_csr_nonce = [1, 2], nc_attestation_signature = [1], nc_attestation_challenge = [1], nc_dac = [1],
     nc_completion = True\<rparr>"

theorem certificates_on_request_witness:
  "length (fst (authority_run example_crypto
     [AO_Node 7, AO_Fabric 1, AO_Generate (Inr 3) example_call, AO_Generate (Inr 4) example_call] example_root)) = 1 \<and>
   1 \<le> length (List.map_filter named_node [AO_Node 7, AO_Fabric 1, AO_Generate (Inr 3) example_call, AO_Generate (Inr 4) example_call])"
proof -
  let ?ops = "[AO_Node 7, AO_Fabric 1, AO_Generate (Inr 3) example_call, AO_Generate (Inr 4) example_call]"
  obtain issued a' where r: "authority_run example_crypto ?ops example_root = (issued, a')" by (metis surj_pair)
  have "length (fst (authority_run example_crypto ?ops example_root)) = 1" by code_simp
  then show ?thesis
    using certificates_on_request [OF r] r by (simp add: example_root_def mk_authority_def)
qed

end
