(* ===== verification/ControllerStartup.thy ===== *)
theory ControllerStartup
  imports Controller Authority
begin

text \<open>
  Opening and closing the controller: \<open>Impl::Open\<close>, \<open>Execute\<close>, \<open>SetupOnSdkThread\<close> and \<open>Cleanup\<close> of
  \<^verbatim>\<open>native/src/controller.cpp\<close>, and \<open>SdkStorageBinding\<close> of \<^verbatim>\<open>native/src/sdk_storage.cpp\<close>.

  The durable store and the authority are the models of the theories \<open>Storage\<close> and \<open>Authority\<close>; what the SDK answers is a
  parameter.  The log records what was acquired and released, in order.  Values that the SDK itself keeps in the store while
  it starts are not part of the model, and the tables of operations, which \<open>Cleanup\<close> clears as well, are those of the
  theory \<open>Controller\<close>.
\<close>

section \<open>Parameters and state\<close>

datatype startup_error =
  SE_Timeout | SE_IncorrectState | SE_InvalidArgument | SE_DuplicateKeyId | SE_KeyNotFound | SE_Authority authority_error | SE_Sdk nat

datatype resource =
  R_Memory | R_Storage | R_Keystore | R_CertificateStore | R_PaaStore | R_Verifier | R_Groups | R_GroupPointer | R_Factory | R_SystemState
| R_EventLoop | R_Commissioner

datatype usage = Acquired resource | Released resource | Unregistered

text \<open>A fabric of the SDK's table; \<open>fe_root\<close> is what \<open>FetchRootPubkey\<close> gives.\<close>

record fabric_entry =
  fe_index :: u8
  fe_fabric_id :: u64
  fe_node_id :: u64
  fe_vendor_id :: u16
  fe_root :: "u8 list option"

record setup_answers =
  sa_key :: "startup_error + u8 list"
  sa_serial :: "authority_error + u64"
  sa_fabrics :: "fabric_entry list option"
  sa_commissioner :: "startup_error option"
  sa_fabric_id :: u64
  sa_node_id :: u64
  sa_compressed :: "startup_error option"
  sa_epoch_key :: "startup_error option"

record 'k startup_env =
  ev_dump :: "json \<Rightarrow> string option"
  ev_events :: "string \<Rightarrow> (nat \<times> parse_event) list"
  ev_document :: "string \<Rightarrow> json option"
  ev_crypto :: "'k sdk_crypto"
  ev_entropy :: "'k root_entropy"
  ev_vendor_ok :: "u16 \<Rightarrow> bool"
  ev_memory :: "startup_error option"
  ev_keystore :: "startup_error option"
  ev_certificates :: "startup_error option"
  ev_paa_initialized :: bool
  ev_paa_count :: nat
  ev_groups :: "startup_error option"
  ev_factory :: "startup_error option"
  ev_service :: "startup_error option"
  ev_schedule :: "startup_error option"
  ev_late :: bool
  ev_setup :: setup_answers
  ev_shutdown :: "startup_error option"
  ev_system :: bool

record SdkStorageBinding =
  sb_operational_keystore :: bool
  sb_certificate_store :: bool
  sb_initialized :: bool

record 'k Lifecycle =
  lc_identity :: ControllerIdentity
  lc_storage_mode :: string
  lc_storage :: "DurableStorage option"
  lc_sdk_storage :: SdkStorageBinding
  lc_authority :: "'k RootAuthority"
  lc_paa_store :: bool
  lc_attestation_verifier :: bool
  lc_memory_initialized :: bool
  lc_sdk_storage_initialized :: bool
  lc_group_initialized :: bool
  lc_factory_initialized :: bool
  lc_system_state_retained :: bool
  lc_event_loop_started :: bool
  lc_commissioner_initialized :: bool
  lc_open :: bool
  lc_accepting_interactions :: bool
  lc_world :: world
  lc_log :: "usage list"

definition mk_lifecycle :: "world \<Rightarrow> 'k Lifecycle" where
  "mk_lifecycle w =
     \<lparr>lc_identity = \<lparr>ci_fabric_id = 0, ci_controller_node_id = 0, ci_vendor_id = 0\<rparr>, lc_storage_mode = [], lc_storage = None,
      lc_sdk_storage = \<lparr>sb_operational_keystore = False, sb_certificate_store = False, sb_initialized = False\<rparr>,
      lc_authority = mk_authority, lc_paa_store = False, lc_attestation_verifier = False, lc_memory_initialized = False,
      lc_sdk_storage_initialized = False, lc_group_initialized = False, lc_factory_initialized = False,
      lc_system_state_retained = False, lc_event_loop_started = False, lc_commissioner_initialized = False, lc_open = False,
      lc_accepting_interactions = False, lc_world = w, lc_log = []\<rparr>"

definition used :: "usage list \<Rightarrow> 'k Lifecycle \<Rightarrow> 'k Lifecycle" where
  "used us l = l\<lparr>lc_log := lc_log l @ us\<rparr>"

section \<open>The SDK's stores\<close>

text \<open>The error, the binding and what was acquired or released.\<close>

definition Init_binding ::
    "startup_error option \<Rightarrow> startup_error option \<Rightarrow> SdkStorageBinding \<Rightarrow> startup_error option \<times> SdkStorageBinding \<times> usage list" where
  "Init_binding keystore certificates b =
     (if sb_initialized b then (Some SE_IncorrectState, b, [])
      else case keystore of
        Some e \<Rightarrow> (Some e, b, [])
      | None \<Rightarrow>
          (case certificates of
             Some e \<Rightarrow> (Some e, b\<lparr>sb_operational_keystore := False\<rparr>, [Acquired R_Keystore, Released R_Keystore])
           | None \<Rightarrow>
               (None, b\<lparr>sb_operational_keystore := True, sb_certificate_store := True, sb_initialized := True\<rparr>,
                [Acquired R_Keystore, Acquired R_CertificateStore])))"

definition Finish_binding :: "SdkStorageBinding \<Rightarrow> SdkStorageBinding \<times> usage list" where
  "Finish_binding b =
     (if \<not> sb_initialized b then (b, [])
      else (b\<lparr>sb_certificate_store := False, sb_operational_keystore := False, sb_initialized := False\<rparr>,
            [Released R_CertificateStore, Released R_Keystore]))"

section \<open>Work on the SDK thread\<close>

text \<open>\<open>late\<close>: the work returned after the timeout; \<open>Execute\<close> waits for it all the same.\<close>

definition Execute ::
    "startup_error option \<Rightarrow> bool \<Rightarrow> ('s \<Rightarrow> startup_error option \<times> 's) \<Rightarrow> 's \<Rightarrow> startup_error option \<times> 's" where
  "Execute scheduling late action l =
     (case scheduling of
        Some e \<Rightarrow> (Some e, l)
      | None \<Rightarrow> (case action l of (error, l') \<Rightarrow> (if late then Some SE_Timeout else error, l')))"

definition kUndefinedFabricIndex :: u8 where "kUndefinedFabricIndex = 0"

definition SamePublicKey :: "u8 list \<Rightarrow> u8 list \<Rightarrow> bool" where
  "SamePublicKey left right \<longleftrightarrow> length left = length right \<and> take (length left) left = take (length left) right"

definition same_fabric :: "ControllerIdentity \<Rightarrow> u8 list \<Rightarrow> fabric_entry \<Rightarrow> bool" where
  "same_fabric identity root f \<longleftrightarrow>
     fe_fabric_id f = ci_fabric_id identity \<and> fe_node_id f = ci_controller_node_id identity \<and> fe_vendor_id f = ci_vendor_id identity \<and>
     (case fe_root f of None \<Rightarrow> False | Some key \<Rightarrow> SamePublicKey key root)"

fun match_loop :: "ControllerIdentity \<Rightarrow> u8 list \<Rightarrow> fabric_entry list \<Rightarrow> u8 \<Rightarrow> startup_error + u8" where
  "match_loop identity root [] m = (if m = kUndefinedFabricIndex then Inl SE_KeyNotFound else Inr m)"
| "match_loop identity root (f # fs) m =
     (if same_fabric identity root f
      then if m \<noteq> kUndefinedFabricIndex then Inl SE_DuplicateKeyId else match_loop identity root fs (fe_index f)
      else match_loop identity root fs m)"

text \<open>The fabric or the chain that the commissioner is set up with.\<close>

datatype setup_identity = New_fabric "u8 list" "u8 list \<times> u8 list" | Known_fabric u8

definition root_public_key :: "'k sdk_crypto \<Rightarrow> 'k RootAuthority \<Rightarrow> u8 list" where
  "root_public_key C a = cx_pubkey C (the (ra_root_key a))"

definition choose_identity ::
    "'k startup_env \<Rightarrow> 'k Lifecycle \<Rightarrow> startup_error + setup_identity" where
  "choose_identity V l =
     (let A = ev_setup V
      in if lc_storage_mode l = ''create_new''
         then case sa_key A of
           Inl e \<Rightarrow> Inl e
         | Inr key \<Rightarrow>
             (case GenerateControllerChain (ev_crypto V) (sa_serial A) (lc_authority l) key of
                Inl e \<Rightarrow> Inl (SE_Authority e)
              | Inr issued \<Rightarrow> Inr (New_fabric key issued))
         else case sa_fabrics A of
           None \<Rightarrow> Inl SE_IncorrectState
         | Some fabrics \<Rightarrow>
             (case match_loop (lc_identity l) (root_public_key (ev_crypto V) (lc_authority l)) fabrics kUndefinedFabricIndex of
                Inl e \<Rightarrow> Inl e
              | Inr i \<Rightarrow> Inr (Known_fabric i)))"

definition SetupOnSdkThread :: "'k startup_env \<Rightarrow> 'k Lifecycle \<Rightarrow> startup_error option \<times> 'k Lifecycle" where
  "SetupOnSdkThread V l =
     (let A = ev_setup V
      in case choose_identity V l of
           Inl e \<Rightarrow> (Some e, l)
         | Inr _ \<Rightarrow>
             (case sa_commissioner A of
                Some e \<Rightarrow> (Some e, l)
              | None \<Rightarrow>
                  let l = (used [Acquired R_Commissioner] l)\<lparr>lc_commissioner_initialized := True\<rparr>
                  in if \<not> (sa_fabric_id A = ci_fabric_id (lc_identity l) \<and> sa_node_id A = ci_controller_node_id (lc_identity l))
                     then (Some SE_InvalidArgument, l)
                     else case sa_compressed A of
                       Some e \<Rightarrow> (Some e, l)
                     | None \<Rightarrow> (sa_epoch_key A, l)))"

section \<open>Closing\<close>

definition shutdown_action :: "'k Lifecycle \<Rightarrow> startup_error option \<times> 'k Lifecycle" where
  "shutdown_action l = (None, used [Released R_Commissioner] l)"

definition stop_commissioner :: "'k startup_env \<Rightarrow> 'k Lifecycle \<Rightarrow> 'k Lifecycle" where
  "stop_commissioner V l =
     (if lc_commissioner_initialized l \<and> lc_event_loop_started l
      then (snd (Execute (ev_shutdown V) False shutdown_action l))\<lparr>lc_commissioner_initialized := False\<rparr> else l)"

definition stop_event_loop :: "'k Lifecycle \<Rightarrow> 'k Lifecycle" where
  "stop_event_loop l =
     (if lc_event_loop_started l then (used [Released R_EventLoop] l)\<lparr>lc_event_loop_started := False\<rparr> else l)"

definition unregister_handlers :: "'k startup_env \<Rightarrow> 'k Lifecycle \<Rightarrow> 'k Lifecycle" where
  "unregister_handlers V l = (if lc_factory_initialized l \<and> ev_system V then used [Unregistered] l else l)"

definition release_factory :: "'k Lifecycle \<Rightarrow> 'k Lifecycle" where
  "release_factory l =
     (let l = (if lc_system_state_retained l then (used [Released R_SystemState] l)\<lparr>lc_system_state_retained := False\<rparr> else l)
      in if lc_factory_initialized l then (used [Released R_Factory] l)\<lparr>lc_factory_initialized := False\<rparr> else l)"

definition release_groups :: "'k Lifecycle \<Rightarrow> 'k Lifecycle" where
  "release_groups l =
     (if lc_group_initialized l
      then (used [Released R_GroupPointer, Released R_Groups] l)\<lparr>lc_group_initialized := False\<rparr> else l)"

definition release_attestation :: "'k Lifecycle \<Rightarrow> 'k Lifecycle" where
  "release_attestation l =
     (used ((if lc_attestation_verifier l then [Released R_Verifier] else []) @ (if lc_paa_store l then [Released R_PaaStore] else [])) l)
       \<lparr>lc_attestation_verifier := False, lc_paa_store := False\<rparr>"

definition release_storage :: "'k Lifecycle \<Rightarrow> 'k Lifecycle" where
  "release_storage l =
     (let l = (if lc_sdk_storage_initialized l
               then case Finish_binding (lc_sdk_storage l) of
                 (b, us) \<Rightarrow> (used us l)\<lparr>lc_sdk_storage := b, lc_sdk_storage_initialized := False\<rparr>
               else l)
      in case lc_storage l of
           None \<Rightarrow> l
         | Some s \<Rightarrow> (used [Released R_Storage] l)\<lparr>lc_storage := None, lc_world := Destroy s (lc_world l)\<rparr>)"

definition release_memory :: "'k Lifecycle \<Rightarrow> 'k Lifecycle" where
  "release_memory l = (if lc_memory_initialized l then (used [Released R_Memory] l)\<lparr>lc_memory_initialized := False\<rparr> else l)"

definition Cleanup :: "'k startup_env \<Rightarrow> 'k Lifecycle \<Rightarrow> 'k Lifecycle" where
  "Cleanup V l =
     release_memory (release_storage (release_attestation (release_groups (release_factory (unregister_handlers V
       (stop_event_loop (stop_commissioner V (l\<lparr>lc_open := False, lc_accepting_interactions := False\<rparr>))))))))"

section \<open>Opening\<close>

text \<open>Each stage gives the error code with which \<open>Open\<close> cleans up and returns.\<close>

definition stage_storage :: "'k startup_env \<Rightarrow> NativeOpenOptions \<Rightarrow> 'k Lifecycle \<Rightarrow> string option \<times> 'k Lifecycle" where
  "stage_storage V options l =
     (let storage_mode = (if no_storage_mode options = ''create_new'' then SM_CreateNew else SM_OpenExisting);
          authority_mode = (if no_authority options = ''generate_root'' then AM_GenerateRoot else AM_Stored)
      in case Open (ev_dump V) (ev_events V) (ev_document V) (no_storage_path options) storage_mode authority_mode (lc_identity l) (lc_world l) of
           (Inl _, w) \<Rightarrow> (Some ''storage_open_failed'', l\<lparr>lc_world := w\<rparr>)
         | (Inr s, w) \<Rightarrow> (None, (used [Acquired R_Storage] l)\<lparr>lc_world := w, lc_storage := Some s\<rparr>))"

definition stage_directory :: "'k Lifecycle \<Rightarrow> string option \<times> 'k Lifecycle" where
  "stage_directory l =
     (case sys_call do_nothing (lc_world l) of
        (ok, w) \<Rightarrow> (if ok then None else Some ''storage_open_failed'', l\<lparr>lc_world := w\<rparr>))"

definition stage_sdk_storage :: "'k startup_env \<Rightarrow> 'k Lifecycle \<Rightarrow> string option \<times> 'k Lifecycle" where
  "stage_sdk_storage V l =
     (case Init_binding (ev_keystore V) (ev_certificates V) (lc_sdk_storage l) of
        (Some _, b, us) \<Rightarrow> (Some ''sdk_storage_failed'', (used us l)\<lparr>lc_sdk_storage := b\<rparr>)
      | (None, b, us) \<Rightarrow> (None, (used us l)\<lparr>lc_sdk_storage := b, lc_sdk_storage_initialized := True\<rparr>))"

definition stage_authority :: "'k startup_env \<Rightarrow> NativeOpenOptions \<Rightarrow> 'k Lifecycle \<Rightarrow> string option \<times> 'k Lifecycle" where
  "stage_authority V options l =
     (let mode = (if no_authority options = ''generate_root'' then AM_GenerateRoot else AM_Stored)
      in case Init (ev_crypto V) (ev_dump V) (ev_entropy V) mode (lc_identity l) (lc_authority l) (the (lc_storage l), lc_world l) of
           (error, a, s, w) \<Rightarrow>
             (map_option (\<lambda>_. ''authority_invalid'') error, l\<lparr>lc_authority := a, lc_storage := Some s, lc_world := w\<rparr>))"

definition stage_attestation :: "'k startup_env \<Rightarrow> 'k Lifecycle \<Rightarrow> string option \<times> 'k Lifecycle" where
  "stage_attestation V l =
     (let l = (used [Acquired R_PaaStore] l)\<lparr>lc_paa_store := True\<rparr>
      in if \<not> ev_paa_initialized V \<or> ev_paa_count V = 0 then (Some ''paa_trust_store_invalid'', l)
         else (None, (used [Acquired R_Verifier] l)\<lparr>lc_attestation_verifier := True\<rparr>))"

definition stage_groups :: "'k startup_env \<Rightarrow> 'k Lifecycle \<Rightarrow> string option \<times> 'k Lifecycle" where
  "stage_groups V l =
     (case ev_groups V of
        Some _ \<Rightarrow> (Some ''controller_start_failed'', l)
      | None \<Rightarrow> (None, (used [Acquired R_Groups, Acquired R_GroupPointer] l)\<lparr>lc_group_initialized := True\<rparr>))"

definition stage_factory :: "'k startup_env \<Rightarrow> 'k Lifecycle \<Rightarrow> string option \<times> 'k Lifecycle" where
  "stage_factory V l =
     (case ev_factory V of
        Some _ \<Rightarrow> (Some ''controller_start_failed'', l)
      | None \<Rightarrow>
          (None, (used [Acquired R_Factory, Acquired R_SystemState] l)\<lparr>lc_factory_initialized := True, lc_system_state_retained := True\<rparr>))"

definition stage_event_loop :: "'k startup_env \<Rightarrow> 'k Lifecycle \<Rightarrow> string option \<times> 'k Lifecycle" where
  "stage_event_loop V l =
     (case ev_service V of
        Some _ \<Rightarrow> (Some ''controller_start_failed'', l)
      | None \<Rightarrow> (None, (used [Acquired R_EventLoop] l)\<lparr>lc_event_loop_started := True\<rparr>))"

definition stage_setup :: "'k startup_env \<Rightarrow> 'k Lifecycle \<Rightarrow> string option \<times> 'k Lifecycle" where
  "stage_setup V l =
     (case Execute (ev_schedule V) (ev_late V) (SetupOnSdkThread V) l of
        (error, l) \<Rightarrow>
          (map_option (\<lambda>e. if e = SE_Timeout then ''controller_start_timeout'' else ''controller_start_failed'') error, l))"

fun run_stages :: "('s \<Rightarrow> string option \<times> 's) list \<Rightarrow> 's \<Rightarrow> string option \<times> 's" where
  "run_stages [] l = (None, l)"
| "run_stages (f # fs) l = (case f l of (Some code, l) \<Rightarrow> (Some code, l) | (None, l) \<Rightarrow> run_stages fs l)"

definition open_stages :: "'k startup_env \<Rightarrow> NativeOpenOptions \<Rightarrow> ('k Lifecycle \<Rightarrow> string option \<times> 'k Lifecycle) list" where
  "open_stages V options =
     [stage_storage V options, stage_directory, stage_sdk_storage V, stage_authority V options, stage_attestation V, stage_groups V,
      stage_factory V, stage_event_loop V, stage_setup V]"

text \<open>The answer is the error code.\<close>

definition Open_controller :: "'k startup_env \<Rightarrow> NativeOpenOptions \<Rightarrow> 'k Lifecycle \<Rightarrow> string option \<times> 'k Lifecycle" where
  "Open_controller V options l =
     (if lc_open l \<or> lc_memory_initialized l then (Some ''controller_already_open'', l)
      else
        let l = l\<lparr>lc_storage_mode := no_storage_mode options,
                  lc_identity := \<lparr>ci_fabric_id = no_fabric_id options, ci_controller_node_id = no_controller_node_id options,
                                  ci_vendor_id = no_vendor_id options\<rparr>\<rparr>
        in if \<not> cx_operational_node (ev_crypto V) (ci_controller_node_id (lc_identity l)) \<or> \<not> ev_vendor_ok V (ci_vendor_id (lc_identity l))
           then (Some ''invalid_controller_identity'', l)
           else case ev_memory V of
             Some _ \<Rightarrow> (Some ''controller_start_failed'', l)
           | None \<Rightarrow>
               (case run_stages (open_stages V options) ((used [Acquired R_Memory] l)\<lparr>lc_memory_initialized := True\<rparr>) of
                  (Some code, l) \<Rightarrow> (Some code, Cleanup V l)
                | (None, l) \<Rightarrow> (None, l\<lparr>lc_open := True, lc_accepting_interactions := True\<rparr>)))"

definition Close_controller :: "'k startup_env \<Rightarrow> 'k Lifecycle \<Rightarrow> 'k Lifecycle" where
  "Close_controller V l = Cleanup V l"

section \<open>Runs\<close>

datatype 'k lifecycle_op = LO_Open "'k startup_env" NativeOpenOptions | LO_Close "'k startup_env"

fun lifecycle_step :: "'k lifecycle_op \<Rightarrow> 'k Lifecycle \<Rightarrow> 'k Lifecycle" where
  "lifecycle_step (LO_Open V options) l = snd (Open_controller V options l)"
| "lifecycle_step (LO_Close V) l = Close_controller V l"

fun op_env :: "'k lifecycle_op \<Rightarrow> 'k startup_env" where
  "op_env (LO_Open V options) = V"
| "op_env (LO_Close V) = V"

section \<open>What is held\<close>

text \<open>The resources that are held after a log, the latest first; \<open>None\<close> when one was released out of order.\<close>

fun held :: "usage list \<Rightarrow> resource list \<Rightarrow> resource list option" where
  "held [] st = Some st"
| "held (Acquired r # us) st = held us (r # st)"
| "held (Released r # us) st = (case st of [] \<Rightarrow> None | x # st' \<Rightarrow> if x = r then held us st' else None)"
| "held (Unregistered # us) st = held us st"

lemma held_append: "held (us @ vs) st = (case held us st of None \<Rightarrow> None | Some st' \<Rightarrow> held vs st')"
  by (induction us st rule: held.induct) (auto split: list.split)

definition all_resources :: "resource list" where
  "all_resources = [R_Memory, R_Storage, R_Keystore, R_CertificateStore, R_PaaStore, R_Verifier, R_Groups, R_GroupPointer, R_Factory,
     R_SystemState, R_EventLoop, R_Commissioner]"

definition level_set :: "nat set" where
  "level_set = {0, 1, 2, 4, 5, 6, 8, 10, 11, 12}"

lemma level_set [simp]: "0 \<in> level_set" "Suc 0 \<in> level_set" "2 \<in> level_set" "4 \<in> level_set" "5 \<in> level_set" "6 \<in> level_set"
  "8 \<in> level_set" "10 \<in> level_set" "11 \<in> level_set" "12 \<in> level_set"
  by (simp_all add: level_set_def)

text \<open>The flags agree with the first \<open>n\<close> resources.\<close>

definition at_level :: "nat \<Rightarrow> 'k Lifecycle \<Rightarrow> bool" where
  "at_level n l \<longleftrightarrow>
     n \<in> level_set \<and> held (lc_log l) [] = Some (rev (take n all_resources)) \<and>
     lc_memory_initialized l = (1 \<le> n) \<and> (lc_storage l \<noteq> None) = (2 \<le> n) \<and> lc_sdk_storage_initialized l = (4 \<le> n) \<and>
     sb_initialized (lc_sdk_storage l) = (4 \<le> n) \<and> sb_operational_keystore (lc_sdk_storage l) = (4 \<le> n) \<and>
     sb_certificate_store (lc_sdk_storage l) = (4 \<le> n) \<and> lc_paa_store l = (5 \<le> n) \<and> lc_attestation_verifier l = (6 \<le> n) \<and>
     lc_group_initialized l = (8 \<le> n) \<and> lc_factory_initialized l = (10 \<le> n) \<and> lc_system_state_retained l = (10 \<le> n) \<and>
     lc_event_loop_started l = (11 \<le> n) \<and> lc_commissioner_initialized l = (12 \<le> n)"

lemma levels [simp]:
  "rev (take (Suc 0) all_resources) = [R_Memory]"
  "rev (take 2 all_resources) = [R_Storage, R_Memory]"
  "rev (take 4 all_resources) = [R_CertificateStore, R_Keystore, R_Storage, R_Memory]"
  "rev (take 5 all_resources) = [R_PaaStore, R_CertificateStore, R_Keystore, R_Storage, R_Memory]"
  "rev (take 6 all_resources) = [R_Verifier, R_PaaStore, R_CertificateStore, R_Keystore, R_Storage, R_Memory]"
  "rev (take 8 all_resources) = [R_GroupPointer, R_Groups, R_Verifier, R_PaaStore, R_CertificateStore, R_Keystore, R_Storage, R_Memory]"
  "rev (take 10 all_resources) = [R_SystemState, R_Factory, R_GroupPointer, R_Groups, R_Verifier, R_PaaStore, R_CertificateStore, R_Keystore, R_Storage, R_Memory]"
  "rev (take 11 all_resources) = [R_EventLoop, R_SystemState, R_Factory, R_GroupPointer, R_Groups, R_Verifier, R_PaaStore, R_CertificateStore, R_Keystore, R_Storage, R_Memory]"
  "rev (take 12 all_resources) = [R_Commissioner, R_EventLoop, R_SystemState, R_Factory, R_GroupPointer, R_Groups, R_Verifier, R_PaaStore, R_CertificateStore, R_Keystore, R_Storage, R_Memory]"
  by (simp_all add: all_resources_def)

lemmas level_defs = at_level_def used_def held_append

subsection \<open>Closing\<close>

lemma level_cases:
  assumes "at_level n l"
  shows "n \<le> 12" "n \<noteq> 12 \<Longrightarrow> n \<le> 11" "n \<noteq> 11 \<Longrightarrow> n \<le> 11 \<Longrightarrow> n \<le> 10" "n \<noteq> 10 \<Longrightarrow> n \<le> 10 \<Longrightarrow> n \<le> 8" "n \<noteq> 8 \<Longrightarrow> n \<le> 8 \<Longrightarrow> n \<le> 6"
    "n \<noteq> 4 \<Longrightarrow> n \<le> 4 \<Longrightarrow> n \<le> 2"
proof -
  have "n \<in> level_set" using assms by (simp add: at_level_def)
  then show "n \<le> 12" "n \<noteq> 12 \<Longrightarrow> n \<le> 11" "n \<noteq> 11 \<Longrightarrow> n \<le> 11 \<Longrightarrow> n \<le> 10" "n \<noteq> 10 \<Longrightarrow> n \<le> 10 \<Longrightarrow> n \<le> 8" "n \<noteq> 8 \<Longrightarrow> n \<le> 8 \<Longrightarrow> n \<le> 6"
    "n \<noteq> 4 \<Longrightarrow> n \<le> 4 \<Longrightarrow> n \<le> 2"
    by (auto simp: level_set_def)
qed

lemma stop_commissioner_level: "at_level n l \<Longrightarrow> ev_shutdown V = None \<Longrightarrow> at_level (min n 11) (stop_commissioner V l)"
  using level_cases(2) [of n l]
  by (cases "n = 12") (simp_all add: stop_commissioner_def Execute_def shutdown_action_def level_defs)

lemma stop_event_loop_level: "at_level n l \<Longrightarrow> n \<le> 11 \<Longrightarrow> at_level (min n 10) (stop_event_loop l)"
  using level_cases(3) [of n l] by (cases "n = 11") (simp_all add: stop_event_loop_def level_defs)

lemma unregister_level: "at_level n l \<Longrightarrow> at_level n (unregister_handlers V l)"
  by (simp add: unregister_handlers_def at_level_def used_def held_append)

lemma release_factory_level: "at_level n l \<Longrightarrow> n \<le> 10 \<Longrightarrow> at_level (min n 8) (release_factory l)"
  using level_cases(4) [of n l] by (cases "n = 10") (simp_all add: release_factory_def Let_def level_defs)

lemma release_groups_level: "at_level n l \<Longrightarrow> n \<le> 8 \<Longrightarrow> at_level (min n 6) (release_groups l)"
  using level_cases(5) [of n l] by (cases "n = 8") (simp_all add: release_groups_def level_defs)

lemma release_attestation_level:
  assumes "at_level n l" "n \<le> 6"
  shows "at_level (min n 4) (release_attestation l)"
proof -
  consider "n = 6" | "n = 5" | "n \<le> 4" using assms(2) by linarith
  then show ?thesis using assms(1) by cases (simp_all add: release_attestation_def level_defs)
qed

lemma release_storage_level:
  assumes "at_level n l" "n \<le> 4"
  shows "at_level (min n 1) (release_storage l)"
proof -
  consider "n = 4" | "n = 2" | "n \<le> 1" using assms by (auto simp: at_level_def level_set_def)
  then show ?thesis using assms(1) by cases (auto simp: release_storage_def Finish_binding_def level_defs)
qed

lemma release_memory_level: "at_level n l \<Longrightarrow> n \<le> 1 \<Longrightarrow> at_level 0 (release_memory l)"
  by (cases "n = 1") (auto simp: release_memory_def level_defs)

lemma Cleanup_level:
  assumes "at_level n l" "ev_shutdown V = None"
  shows "at_level 0 (Cleanup V l)"
proof -
  have "at_level n (l\<lparr>lc_open := False, lc_accepting_interactions := False\<rparr>)" using assms(1) by (simp add: at_level_def)
  from stop_commissioner_level [OF this assms(2)] have "at_level (min n 11) (stop_commissioner V (l\<lparr>lc_open := False, lc_accepting_interactions := False\<rparr>))" .
  from unregister_level [OF stop_event_loop_level [OF this]]
  have "at_level (min n 10) (unregister_handlers V (stop_event_loop (stop_commissioner V (l\<lparr>lc_open := False, lc_accepting_interactions := False\<rparr>))))"
    by (simp add: min.assoc)
  from release_attestation_level [OF release_groups_level [OF release_factory_level [OF this]]]
  have "at_level (min n 4) (release_attestation (release_groups (release_factory (unregister_handlers V (stop_event_loop (stop_commissioner V
      (l\<lparr>lc_open := False, lc_accepting_interactions := False\<rparr>)))))))"
    by (simp add: min.assoc)
  from release_memory_level [OF release_storage_level [OF this]] show ?thesis by (simp add: Cleanup_def)
qed

lemma cleanup_frames [simp]:
  "lc_open (release_memory l) = lc_open l" "lc_accepting_interactions (release_memory l) = lc_accepting_interactions l" "lc_authority (release_memory l) = lc_authority l"
  "lc_open (release_storage l) = lc_open l" "lc_accepting_interactions (release_storage l) = lc_accepting_interactions l" "lc_authority (release_storage l) = lc_authority l"
  "lc_open (release_attestation l) = lc_open l" "lc_accepting_interactions (release_attestation l) = lc_accepting_interactions l" "lc_authority (release_attestation l) = lc_authority l"
  "lc_open (release_groups l) = lc_open l" "lc_accepting_interactions (release_groups l) = lc_accepting_interactions l" "lc_authority (release_groups l) = lc_authority l"
  "lc_open (release_factory l) = lc_open l" "lc_accepting_interactions (release_factory l) = lc_accepting_interactions l" "lc_authority (release_factory l) = lc_authority l"
  "lc_open (unregister_handlers V l) = lc_open l" "lc_accepting_interactions (unregister_handlers V l) = lc_accepting_interactions l" "lc_authority (unregister_handlers V l) = lc_authority l"
  "lc_open (stop_event_loop l) = lc_open l" "lc_accepting_interactions (stop_event_loop l) = lc_accepting_interactions l" "lc_authority (stop_event_loop l) = lc_authority l"
  "lc_open (stop_commissioner V l) = lc_open l" "lc_accepting_interactions (stop_commissioner V l) = lc_accepting_interactions l" "lc_authority (stop_commissioner V l) = lc_authority l"
  by (simp_all add: used_def release_memory_def release_storage_def Let_def release_attestation_def release_groups_def release_factory_def Let_def unregister_handlers_def stop_event_loop_def stop_commissioner_def Execute_def shutdown_action_def split: option.split prod.split)

lemma Cleanup_closed [simp]: "\<not> lc_open (Cleanup V l)" "\<not> lc_accepting_interactions (Cleanup V l)" "lc_authority (Cleanup V l) = lc_authority l"
  by (simp_all add: Cleanup_def)

subsection \<open>Opening\<close>

lemma stage_storage_level:
  "at_level 1 l \<Longrightarrow> stage_storage V options l = (r, l') \<Longrightarrow> at_level (if r = None then 2 else 1) l'"
  unfolding stage_storage_def Let_def by (clarsimp simp: level_defs split: prod.splits sum.splits; auto)

lemma stage_directory_level: "at_level n l \<Longrightarrow> stage_directory l = (r, l') \<Longrightarrow> at_level n l'"
  unfolding stage_directory_def by (clarsimp simp: at_level_def split: prod.splits)

lemma stage_sdk_storage_level:
  "at_level 2 l \<Longrightarrow> stage_sdk_storage V l = (r, l') \<Longrightarrow> at_level (if r = None then 4 else 2) l'"
  by (clarsimp simp: stage_sdk_storage_def Init_binding_def level_defs split: option.splits; auto)

lemma stage_authority_level: "at_level 4 l \<Longrightarrow> stage_authority V options l = (r, l') \<Longrightarrow> at_level 4 l'"
  unfolding stage_authority_def Let_def by (clarsimp simp: at_level_def split: prod.splits)

lemma stage_attestation_level:
  "at_level 4 l \<Longrightarrow> stage_attestation V l = (r, l') \<Longrightarrow> at_level (if r = None then 6 else 5) l'"
  by (clarsimp simp: stage_attestation_def Let_def level_defs split: if_splits; auto)

lemma stage_groups_level: "at_level 6 l \<Longrightarrow> stage_groups V l = (r, l') \<Longrightarrow> at_level (if r = None then 8 else 6) l'"
  by (clarsimp simp: stage_groups_def level_defs split: option.splits; auto)

lemma stage_factory_level: "at_level 8 l \<Longrightarrow> stage_factory V l = (r, l') \<Longrightarrow> at_level (if r = None then 10 else 8) l'"
  by (clarsimp simp: stage_factory_def level_defs split: option.splits; auto)

lemma stage_event_loop_level: "at_level 10 l \<Longrightarrow> stage_event_loop V l = (r, l') \<Longrightarrow> at_level (if r = None then 11 else 10) l'"
  by (clarsimp simp: stage_event_loop_def level_defs split: option.splits; auto)

lemma commissioner_level: "at_level 11 l \<Longrightarrow> at_level 12 ((used [Acquired R_Commissioner] l)\<lparr>lc_commissioner_initialized := True\<rparr>)"
  by (simp add: level_defs)

lemma SetupOnSdkThread_level:
  assumes "at_level 11 l" "SetupOnSdkThread V l = (r, l')"
  shows "at_level 12 l' \<or> (at_level 11 l' \<and> r \<noteq> None)"
  using assms commissioner_level [OF assms(1)]
  unfolding SetupOnSdkThread_def Let_def by (auto split: sum.splits option.splits if_splits)

lemma stage_setup_level:
  assumes "at_level 11 l" "stage_setup V l = (r, l')"
  shows "at_level 12 l' \<or> (at_level 11 l' \<and> r \<noteq> None)"
proof (cases "ev_schedule V")
  case None
  obtain e l1 where "SetupOnSdkThread V l = (e, l1)" by fastforce
  with SetupOnSdkThread_level [OF assms(1) this] None assms(2) show ?thesis by (auto simp: stage_setup_def Execute_def split: if_splits)
qed (use assms in \<open>auto simp: stage_setup_def Execute_def\<close>)

text \<open>Stages that lead from one level to another, or stop somewhere.\<close>

definition climbs :: "nat \<Rightarrow> nat \<Rightarrow> ('k Lifecycle \<Rightarrow> string option \<times> 'k Lifecycle) \<Rightarrow> bool" where
  "climbs a b f \<longleftrightarrow> (\<forall>l r l'. at_level a l \<and> f l = (r, l') \<longrightarrow> (if r = None then at_level b l' else (\<exists>n. at_level n l')))"

lemma climbs_Nil: "climbs a a (run_stages [])"
  by (simp add: climbs_def)

lemma climbs_Cons: "climbs a b f \<Longrightarrow> climbs b c (run_stages fs) \<Longrightarrow> climbs a c (run_stages (f # fs))"
  unfolding climbs_def
proof (intro allI impI, elim conjE)
  fix l r l'
  assume f: "\<forall>l r l'. at_level a l \<and> f l = (r, l') \<longrightarrow> (if r = None then at_level b l' else (\<exists>n. at_level n l'))"
    and fs: "\<forall>l r l'. at_level b l \<and> run_stages fs l = (r, l') \<longrightarrow> (if r = None then at_level c l' else (\<exists>n. at_level n l'))"
    and l: "at_level a l" "run_stages (f # fs) l = (r, l')"
  obtain x m where x: "f l = (x, m)" by fastforce
  with f l(1) have "if x = None then at_level b m else (\<exists>n. at_level n m)" by blast
  with fs l(2) x show "if r = None then at_level c l' else (\<exists>n. at_level n l')" by (cases x) auto
qed

lemma open_stages_climb: "climbs 1 12 (run_stages (open_stages V options))"
proof -
  have "climbs 1 2 (stage_storage V options)" using stage_storage_level unfolding climbs_def by metis
  moreover have "climbs 2 2 stage_directory" using stage_directory_level unfolding climbs_def by metis
  moreover have "climbs 2 4 (stage_sdk_storage V)" using stage_sdk_storage_level unfolding climbs_def by metis
  moreover have "climbs 4 4 (stage_authority V options)" using stage_authority_level unfolding climbs_def by metis
  moreover have "climbs 4 6 (stage_attestation V)" using stage_attestation_level unfolding climbs_def by metis
  moreover have "climbs 6 8 (stage_groups V)" using stage_groups_level unfolding climbs_def by metis
  moreover have "climbs 8 10 (stage_factory V)" using stage_factory_level unfolding climbs_def by metis
  moreover have "climbs 10 11 (stage_event_loop V)" using stage_event_loop_level unfolding climbs_def by metis
  moreover have "climbs 11 12 (stage_setup V)" using stage_setup_level unfolding climbs_def by metis
  ultimately show ?thesis unfolding open_stages_def by (intro climbs_Cons) (assumption | rule climbs_Nil)+
qed

lemma Open_level:
  assumes "at_level 0 l" "\<not> lc_open l" "ev_shutdown V = None" "Open_controller V options l = (r, l')"
  shows "if r = None then at_level 12 l' \<and> lc_open l' \<and> lc_accepting_interactions l' else at_level 0 l' \<and> \<not> lc_open l'"
proof -
  let ?l = "l\<lparr>lc_storage_mode := no_storage_mode options,
      lc_identity := \<lparr>ci_fabric_id = no_fabric_id options, ci_controller_node_id = no_controller_node_id options, ci_vendor_id = no_vendor_id options\<rparr>\<rparr>"
  have l: "at_level 0 ?l" "\<not> lc_memory_initialized l" using assms(1) by (simp_all add: at_level_def)
  have "at_level 1 ((used [Acquired R_Memory] ?l)\<lparr>lc_memory_initialized := True\<rparr>)" using l(1) by (simp add: level_defs)
  moreover obtain x m where x: "run_stages (open_stages V options) ((used [Acquired R_Memory] ?l)\<lparr>lc_memory_initialized := True\<rparr>) = (x, m)" by fastforce
  ultimately have m: "if x = None then at_level 12 m else (\<exists>n. at_level n m)" using open_stages_climb unfolding climbs_def by blast
  show ?thesis
  proof (cases "\<not> cx_operational_node (ev_crypto V) (no_controller_node_id options) \<or> \<not> ev_vendor_ok V (no_vendor_id options) \<or> ev_memory V \<noteq> None")
    case True
    then have "r \<noteq> None" "l' = ?l" using assms(2,4) l(2) by (auto simp: Open_controller_def Let_def split: if_splits option.splits)
    then show ?thesis using l(1) assms(2) by simp
  next
    case False
    then have o: "Open_controller V options l =
        (case x of Some code \<Rightarrow> (Some code, Cleanup V m) | None \<Rightarrow> (None, m\<lparr>lc_open := True, lc_accepting_interactions := True\<rparr>))"
      using assms(2) l(2) x by (simp add: Open_controller_def Let_def split: option.split)
    show ?thesis
    proof (cases x)
      case None
      then have "at_level 12 (m\<lparr>lc_open := True, lc_accepting_interactions := True\<rparr>)" using m by (simp add: at_level_def)
      then show ?thesis using assms(4) o None by auto
    next
      case (Some code)
      then show ?thesis using assms(4) o m Cleanup_level [OF _ assms(3)] by auto
    qed
  qed
qed

lemma lifecycle_level:
  assumes "list_all (\<lambda>x. ev_shutdown (op_env x) = None) ops"
  shows "(if lc_open (fold lifecycle_step ops (mk_lifecycle w)) then at_level 12 (fold lifecycle_step ops (mk_lifecycle w))
    else at_level 0 (fold lifecycle_step ops (mk_lifecycle w)))"
  using assms
proof (induction ops rule: rev_induct)
  case Nil
  then show ?case by (simp add: mk_lifecycle_def at_level_def)
next
  case (snoc x ops)
  let ?l = "fold lifecycle_step ops (mk_lifecycle w)"
  have IH: "if lc_open ?l then at_level 12 ?l else at_level 0 ?l" using snoc by simp
  show ?case
  proof (cases x)
    case (LO_Open V options)
    obtain r l' where o: "Open_controller V options ?l = (r, l')" by fastforce
    show ?thesis
    proof (cases "lc_open ?l")
      case True
      then show ?thesis using IH LO_Open by (simp add: Open_controller_def)
    next
      case False
      then show ?thesis using IH o LO_Open snoc.prems Open_level [OF _ False _ o] by (cases r) auto
    qed
  next
    case (LO_Close V)
    have "\<exists>n. at_level n ?l" using IH by (auto split: if_splits)
    then show ?thesis using LO_Close snoc.prems Cleanup_level by (auto simp: Close_controller_def)
  qed
qed

section \<open>The choice of the fabric\<close>

lemma match_loop_found:
  "m \<noteq> kUndefinedFabricIndex \<Longrightarrow>
   match_loop identity root fs m = (if filter (same_fabric identity root) fs = [] then Inr m else Inl SE_DuplicateKeyId)"
  by (induction fs) auto

lemma match_loop_filter:
  "\<forall>f\<in>set fs. fe_index f \<noteq> kUndefinedFabricIndex \<Longrightarrow>
   match_loop identity root fs kUndefinedFabricIndex =
     (case filter (same_fabric identity root) fs of [] \<Rightarrow> Inl SE_KeyNotFound | [f] \<Rightarrow> Inr (fe_index f) | _ \<Rightarrow> Inl SE_DuplicateKeyId)"
  by (induction fs) (auto simp: match_loop_found split: list.split)

section \<open>What a success means\<close>

lemma stage_identity:
  "stage_storage V options l = (r, l') \<Longrightarrow> lc_identity l' = lc_identity l \<and> lc_storage_mode l' = lc_storage_mode l \<and> lc_authority l' = lc_authority l"
  "stage_directory l = (r, l') \<Longrightarrow> lc_identity l' = lc_identity l \<and> lc_storage_mode l' = lc_storage_mode l \<and> lc_authority l' = lc_authority l"
  "stage_sdk_storage V l = (r, l') \<Longrightarrow> lc_identity l' = lc_identity l \<and> lc_storage_mode l' = lc_storage_mode l \<and> lc_authority l' = lc_authority l"
  "stage_authority V options l = (r, l') \<Longrightarrow> lc_identity l' = lc_identity l \<and> lc_storage_mode l' = lc_storage_mode l"
  "stage_attestation V l = (r, l') \<Longrightarrow> lc_identity l' = lc_identity l \<and> lc_storage_mode l' = lc_storage_mode l \<and> lc_authority l' = lc_authority l"
  "stage_groups V l = (r, l') \<Longrightarrow> lc_identity l' = lc_identity l \<and> lc_storage_mode l' = lc_storage_mode l \<and> lc_authority l' = lc_authority l"
  "stage_factory V l = (r, l') \<Longrightarrow> lc_identity l' = lc_identity l \<and> lc_storage_mode l' = lc_storage_mode l \<and> lc_authority l' = lc_authority l"
  "stage_event_loop V l = (r, l') \<Longrightarrow> lc_identity l' = lc_identity l \<and> lc_storage_mode l' = lc_storage_mode l \<and> lc_authority l' = lc_authority l"
  by (auto simp: stage_storage_def stage_directory_def stage_sdk_storage_def stage_authority_def stage_attestation_def stage_groups_def
      stage_factory_def stage_event_loop_def used_def Let_def split: prod.splits sum.splits option.splits if_splits)

lemma run_stages_ConsE:
  assumes "run_stages (f # fs) l = (None, l')"
  obtains m where "f l = (None, m)" "run_stages fs m = (None, l')"
  using assms by (auto split: prod.splits option.splits)

lemma Init_done:
  assumes "Init C dump R mode identity a st = (None, a', st')"
  shows "\<not> ra_initialized a \<and> ra_initialized a'"
  using assms by (auto simp: Init_def Let_def split: if_splits prod.splits option.splits)

lemma Open_done:
  assumes "Open_controller V options l = (None, l')"
  obtains m where "choose_identity V m \<in> range Inr" "lc_identity m = lc_identity l'" "lc_storage_mode m = no_storage_mode options"
    "lc_authority m = lc_authority l'" "ra_initialized (lc_authority l')" "\<not> ra_initialized (lc_authority l)"
    "lc_identity l' = \<lparr>ci_fabric_id = no_fabric_id options, ci_controller_node_id = no_controller_node_id options, ci_vendor_id = no_vendor_id options\<rparr>"
    "sa_fabric_id (ev_setup V) = no_fabric_id options" "sa_node_id (ev_setup V) = no_controller_node_id options" "\<not> ev_late V"
proof -
  let ?l = "l\<lparr>lc_storage_mode := no_storage_mode options,
      lc_identity := \<lparr>ci_fabric_id = no_fabric_id options, ci_controller_node_id = no_controller_node_id options, ci_vendor_id = no_vendor_id options\<rparr>\<rparr>"
  obtain x where run: "run_stages (open_stages V options) ((used [Acquired R_Memory] ?l)\<lparr>lc_memory_initialized := True\<rparr>) = (None, x)"
      and l': "l' = x\<lparr>lc_open := True, lc_accepting_interactions := True\<rparr>"
    using assms by (auto simp: Open_controller_def Let_def split: if_splits option.splits prod.splits)
  from run [unfolded open_stages_def] obtain a b c d e f g m where
      s: "stage_storage V options ((used [Acquired R_Memory] ?l)\<lparr>lc_memory_initialized := True\<rparr>) = (None, a)" "stage_directory a = (None, b)"
        "stage_sdk_storage V b = (None, c)" "stage_authority V options c = (None, d)" "stage_attestation V d = (None, e)"
        "stage_groups V e = (None, f)" "stage_factory V f = (None, g)" "stage_event_loop V g = (None, m)" and final: "stage_setup V m = (None, x)"
    by (elim run_stages_ConsE) simp
  note keep = stage_identity(1) [OF s(1)] stage_identity(2) [OF s(2)] stage_identity(3) [OF s(3)] stage_identity(4) [OF s(4)]
    stage_identity(5) [OF s(5)] stage_identity(6) [OF s(6)] stage_identity(7) [OF s(7)] stage_identity(8) [OF s(8)]
  have auth: "ra_initialized (lc_authority d)" "\<not> ra_initialized (lc_authority c)"
    using s(4) Init_done by (auto simp: stage_authority_def Let_def split: prod.splits) blast+
  have "SetupOnSdkThread V m = (None, x) \<and> \<not> ev_late V"
    using final by (auto simp: stage_setup_def Execute_def split: option.splits prod.splits if_splits)
  then have ok: "choose_identity V m \<in> range Inr" "lc_identity x = lc_identity m" "lc_authority x = lc_authority m"
      "sa_fabric_id (ev_setup V) = ci_fabric_id (lc_identity m)" "sa_node_id (ev_setup V) = ci_controller_node_id (lc_identity m)" "\<not> ev_late V"
    by (auto simp: SetupOnSdkThread_def used_def Let_def split: sum.splits option.splits if_splits)
  show thesis
    by (rule that [of m]) (use ok keep auth l' in \<open>simp_all add: used_def\<close>)
qed

section \<open>An example\<close>

definition example_startup :: "u8 list startup_env" where
  "example_startup =
     \<lparr>ev_dump = (\<lambda>_. Some ''E''), ev_events = example_events, ev_document = example_doc, ev_crypto = example_crypto, ev_entropy = example_entropy,
      ev_vendor_ok = (\<lambda>v. v \<noteq> 0), ev_memory = None, ev_keystore = None, ev_certificates = None, ev_paa_initialized = True, ev_paa_count = 1,
      ev_groups = None, ev_factory = None, ev_service = None, ev_schedule = None, ev_late = False,
      ev_setup = \<lparr>sa_key = Inr [9], sa_serial = Inr 3, sa_fabrics = None, sa_commissioner = None, sa_fabric_id = 1, sa_node_id = 112233,
        sa_compressed = None, sa_epoch_key = None\<rparr>,
      ev_shutdown = None, ev_system = True\<rparr>"

definition example_options :: NativeOpenOptions where
  "example_options =
     \<lparr>no_lifecycle = ''persistent'', no_storage_path = ''/s'', no_storage_mode = ''create_new'', no_authority = ''generate_root'',
      no_paa_trust_store = ''/p'', no_fabric_id = 1, no_controller_node_id = 112233, no_vendor_id = 0xFFF1, no_timeout_ms = 1000\<rparr>"

definition example_machine :: world where
  "example_machine = example_world example_absent (create_outcomes @ [Sys_Ok] @ concat (replicate 3 (cut_outcomes @ [Sys_Ok])))"

lemma example_create_from:
  "\<exists>w'. Open (\<lambda>_. Some ''E'') example_events example_doc ''/s'' SM_CreateNew AM_GenerateRoot example_identity
     (example_world example_absent (create_outcomes @ xs)) = (Inr (example_store [] False), w') \<and> wd_outcomes w' = xs \<and> clean (wd_disk w')"
  by (simp add: Open_def example_wf(1) OpenLock_def CleanCommitState_def ExactRegularFile_def Commit_def Let_def clean_def
      call_defs example_world_def create_outcomes_def cut_outcomes_def example_absent_def example_store_def
      do_dir_absent_def do_mkdir_def SerializeState_def kMaximumFileBytes_def commit_files_def kTemporaryFile_def kIntentFile_def
      kStateFile_def kLockFile_def)

lemma example_opens: "\<exists>l. Open_controller example_startup example_options (mk_lifecycle example_machine) = (None, l)"
proof -
  obtain w1 where w1: "Open (\<lambda>_. Some ''E'') example_events example_doc ''/s'' SM_CreateNew AM_GenerateRoot example_identity example_machine =
      (Inr (example_store [] False), w1)" "wd_outcomes w1 = [Sys_Ok] @ concat (replicate 3 (cut_outcomes @ [Sys_Ok]))" "clean (wd_disk w1)"
    using example_create_from unfolding example_machine_def by blast
  then have w2: "sys_call do_nothing w1 = (True, w1\<lparr>wd_outcomes := concat (replicate 3 (cut_outcomes @ [Sys_Ok]))\<rparr>)"
    by (simp add: sys_call_def do_nothing_def)
  obtain w3 where w3: "Init example_crypto (\<lambda>_. Some ''E'') example_entropy AM_GenerateRoot example_identity mk_authority
      (example_store [] False, w1\<lparr>wd_outcomes := concat (replicate 3 (cut_outcomes @ [Sys_Ok]))\<rparr>) =
      (None, example_root, example_store example_held False, w3)"
    using example_init_from [of "w1\<lparr>wd_outcomes := concat (replicate 3 (cut_outcomes @ [Sys_Ok]))\<rparr>"] w1(3) by auto
  obtain p where p: "GenerateControllerChain example_crypto (Inr 3) example_root [9] = Inr p"
    by (simp add: GenerateControllerChain_def IssueNoc_def RandomPositive_def example_root_def example_crypto_def example_identity_def)
  have node: "cx_operational_node example_crypto 112233" by (simp add: example_crypto_def)
  show ?thesis
    using w2 p node w1(1) [unfolded example_identity_def] w3 [unfolded example_identity_def]
    by (simp add: Open_controller_def example_options_def example_startup_def mk_lifecycle_def used_def open_stages_def stage_storage_def
        stage_directory_def stage_sdk_storage_def stage_authority_def stage_attestation_def stage_groups_def stage_factory_def
        stage_event_loop_def stage_setup_def Execute_def SetupOnSdkThread_def choose_identity_def Init_binding_def Let_def)
qed

section \<open>Properties\<close>

text \<open>
  Property C14. However often the controller is opened and closed, and whatever step of the startup fails: as long as the SDK takes the work
  that shuts the commissioner down, everything that was acquired is released in the reverse order; between a failed or
  finished session and the next nothing is held, and in particular the lock of the store is given up.
\<close>

theorem lifecycle_balanced:
  assumes "list_all (\<lambda>x. ev_shutdown (op_env x) = None) ops"
  shows "held (lc_log (fold lifecycle_step ops (mk_lifecycle w))) [] =
      Some (if lc_open (fold lifecycle_step ops (mk_lifecycle w)) then rev all_resources else []) \<and>
    (lc_open (fold lifecycle_step ops (mk_lifecycle w)) \<longleftrightarrow> lc_storage (fold lifecycle_step ops (mk_lifecycle w)) \<noteq> None)"
proof -
  have "take 12 all_resources = all_resources" by (simp add: all_resources_def)
  then show ?thesis using lifecycle_level [OF assms, of w] by (simp add: at_level_def split: if_splits)
qed

theorem lifecycle_balanced_witness:
  "\<exists>l. Open_controller example_startup example_options (mk_lifecycle example_machine) = (None, l) \<and>
     held (lc_log l) [] = Some (rev all_resources) \<and> held (lc_log (Close_controller example_startup l)) [] = Some []"
proof -
  obtain l where l: "Open_controller example_startup example_options (mk_lifecycle example_machine) = (None, l)" using example_opens by blast
  have "lc_open l" using l by (auto simp: Open_controller_def Let_def split: if_splits option.splits prod.splits)
  moreover have "\<not> lc_open (Close_controller example_startup l)" by (simp add: Close_controller_def)
  moreover have "ev_shutdown example_startup = None" by (simp add: example_startup_def)
  ultimately show ?thesis
    using l lifecycle_balanced [of "[LO_Open example_startup example_options]" example_machine]
      lifecycle_balanced [of "[LO_Open example_startup example_options, LO_Close example_startup]" example_machine] by simp
qed

text \<open>
  A controller that answers that it is open runs with the identity of the request: the commissioner reports its fabric and
  node, the authority is initialised, and for a store that existed exactly one fabric of the SDK's table has that
  fabric, node, vendor and the authority's root key.
\<close>

theorem open_controller_identity:
  assumes "Open_controller V options l = (None, l')" "\<forall>fabrics. sa_fabrics (ev_setup V) = Some fabrics \<longrightarrow> (\<forall>f\<in>set fabrics. fe_index f \<noteq> kUndefinedFabricIndex)"
  shows "lc_open l' \<and> ci_fabric_id (lc_identity l') = no_fabric_id options \<and> ci_controller_node_id (lc_identity l') = no_controller_node_id options \<and>
    sa_fabric_id (ev_setup V) = no_fabric_id options \<and> sa_node_id (ev_setup V) = no_controller_node_id options \<and> ra_initialized (lc_authority l') \<and>
    (no_storage_mode options \<noteq> ''create_new'' \<longrightarrow>
      (\<exists>fabrics f. sa_fabrics (ev_setup V) = Some fabrics \<and>
        filter (same_fabric (lc_identity l') (root_public_key (ev_crypto V) (lc_authority l'))) fabrics = [f]))"
proof -
  have "lc_open l'" using assms(1) by (auto simp: Open_controller_def Let_def split: if_splits option.splits prod.splits)
  moreover from assms(1) obtain m where m: "choose_identity V m \<in> range Inr" "lc_identity m = lc_identity l'" "lc_storage_mode m = no_storage_mode options"
    "lc_authority m = lc_authority l'" "ra_initialized (lc_authority l')"
    "lc_identity l' = \<lparr>ci_fabric_id = no_fabric_id options, ci_controller_node_id = no_controller_node_id options, ci_vendor_id = no_vendor_id options\<rparr>"
    "sa_fabric_id (ev_setup V) = no_fabric_id options" "sa_node_id (ev_setup V) = no_controller_node_id options"
    by (rule Open_done)
  moreover have "\<exists>fabrics f. sa_fabrics (ev_setup V) = Some fabrics \<and>
      filter (same_fabric (lc_identity l') (root_public_key (ev_crypto V) (lc_authority l'))) fabrics = [f]" if existing: "no_storage_mode options \<noteq> ''create_new''"
  proof -
    obtain fabrics i where f: "sa_fabrics (ev_setup V) = Some fabrics"
        "match_loop (lc_identity l') (root_public_key (ev_crypto V) (lc_authority l')) fabrics kUndefinedFabricIndex = Inr i"
      using m(1-4) existing by (auto simp: choose_identity_def Let_def split: option.splits sum.splits if_splits)
    then show ?thesis using match_loop_filter [of fabrics "lc_identity l'"] assms(2) by (auto split: list.splits)
  qed
  ultimately show ?thesis by simp
qed

theorem open_controller_identity_witness:
  "\<exists>l. Open_controller example_startup example_options (mk_lifecycle example_machine) = (None, l) \<and> lc_open l \<and>
     ci_fabric_id (lc_identity l) = 1 \<and> ra_initialized (lc_authority l)"
proof -
  obtain l where l: "Open_controller example_startup example_options (mk_lifecycle example_machine) = (None, l)" using example_opens by blast
  have "\<forall>fabrics. sa_fabrics (ev_setup example_startup) = Some fabrics \<longrightarrow> (\<forall>f\<in>set fabrics. fe_index f \<noteq> kUndefinedFabricIndex)"
    by (simp add: example_startup_def)
  from open_controller_identity [OF l this] l show ?thesis by (simp add: example_options_def)
qed

text \<open>
  The authority of a controller is initialised once and never reset: after a session that reached the authority has been
  closed, no further \<open>Open\<close> of the same controller succeeds, although it releases everything and starts over.
\<close>

theorem reopen_never_succeeds:
  assumes "Open_controller V options l = (None, l1)"
  shows "fst (Open_controller V' options' (Close_controller W l1)) \<noteq> None"
proof
  assume "fst (Open_controller V' options' (Close_controller W l1)) = None"
  then obtain l2 where "Open_controller V' options' (Close_controller W l1) = (None, l2)" by (metis prod.collapse)
  then have "\<not> ra_initialized (lc_authority (Close_controller W l1))" by (rule Open_done)
  moreover have "ra_initialized (lc_authority l1)" using assms by (rule Open_done)
  ultimately show False by (simp add: Close_controller_def)
qed

theorem reopen_never_succeeds_witness:
  "\<exists>l. Open_controller example_startup example_options (mk_lifecycle example_machine) = (None, l) \<and>
     fst (Open_controller example_startup example_options (Close_controller example_startup l)) \<noteq> None"
  using example_opens reopen_never_succeeds by blast

end
