(* ===== verification/ControllerWait.thy ===== *)
theory ControllerWait
  imports Prelude
begin

text \<open>
  \<open>Impl::WaitForControl\<close> of \<^verbatim>\<open>native/src/controller.cpp\<close>: how the control thread waits for an operation and handles further
  control lines meanwhile, which may wait themselves.

  The environment decides, turn by turn, what the predicate says, which time the clock shows, whether the slice of the wait
  ends early, which waits the pumped lines make and whether the pump goes on.  Times are milliseconds.
\<close>

section \<open>Waiting\<close>

datatype control_turn = Control_turn (tn_complete: bool) (tn_now: nat) (tn_woken: bool) (tn_nested: "control_wait list") (tn_keep: bool)
  and control_wait = Control_wait (cw_start: nat) (cw_timeout: nat) (cw_turns: "control_turn list")

text \<open>\<open>slot\<close> is \<open>control_deadline_\<close>.  The answer is \<open>None\<close> when the turns are used up, the list holds the times up to which the
  thread went to sleep, and the last component is the slot after the call, which \<open>DeadlineOwner\<close> restores.\<close>

function (sequential)
  WaitForControl :: "nat option \<Rightarrow> control_wait \<Rightarrow> bool option \<times> nat list \<times> nat option" and
  wait_turns :: "nat \<Rightarrow> control_turn list \<Rightarrow> nat option \<Rightarrow> bool option \<times> nat list \<times> nat option" and
  pump_waits :: "control_wait list \<Rightarrow> nat option \<Rightarrow> nat list \<times> nat option"
where
  "WaitForControl slot (Control_wait start timeout turns) =
     (let deadline = start + timeout;
          deadline = (case slot of None \<Rightarrow> deadline | Some d \<Rightarrow> min deadline d);
          previous = slot
      in case wait_turns deadline turns (Some deadline) of (r, log, _) \<Rightarrow> (r, log, previous))"
| "wait_turns deadline [] slot = (None, [], slot)"
| "wait_turns deadline (Control_turn complete now woken nested keep # turns) slot =
     (if complete then (Some True, [], slot)
      else if now \<ge> deadline then (Some False, [], slot)
      else
        let till = min deadline (now + 5)
        in if woken then (Some True, [till], slot)
           else case pump_waits nested slot of
             (log, slot) \<Rightarrow>
               if \<not> keep then (Some False, till # log, slot)
               else (case wait_turns deadline turns slot of (r, log', slot) \<Rightarrow> (r, till # log @ log', slot)))"
| "pump_waits [] slot = ([], slot)"
| "pump_waits (w # ws) slot =
     (case WaitForControl slot w of (_, log, slot) \<Rightarrow> (case pump_waits ws slot of (log', slot) \<Rightarrow> (log @ log', slot)))"
  by pat_completeness auto

termination
  by (relation "measure (case_sum (\<lambda>(s, w). size w) (case_sum (\<lambda>(d, ts, s). size_list size ts) (\<lambda>(ws, s). size_list size ws)))") auto

declare WaitForControl.simps [simp del] wait_turns.simps [simp del] pump_waits.simps [simp del]

text \<open>Outside the control thread the wait is one wait with the timeout.\<close>

definition wait_for_condition :: "bool \<Rightarrow> bool \<Rightarrow> bool \<Rightarrow> nat option \<Rightarrow> control_wait \<Rightarrow> bool option \<times> nat list \<times> nat option" where
  "wait_for_condition has_pump control_thread completes slot w =
     (if \<not> has_pump \<or> \<not> control_thread then (Some completes, [cw_start w + cw_timeout w], slot) else WaitForControl slot w)"

section \<open>Deadlines\<close>

lemma waits_bounded:
  "WaitForControl slot w = (r, log, slot') \<Longrightarrow>
     slot' = slot \<and> (\<forall>t\<in>set log. t \<le> cw_start w + cw_timeout w \<and> (\<forall>d. slot = Some d \<longrightarrow> t \<le> d))"
  "wait_turns deadline turns s = (r1, log1, s1) \<Longrightarrow> s = Some deadline \<Longrightarrow> s1 = s \<and> (\<forall>t\<in>set log1. t \<le> deadline)"
  "pump_waits ws s2 = (log2, s3) \<Longrightarrow> s3 = s2 \<and> (\<forall>t\<in>set log2. \<forall>d. s2 = Some d \<longrightarrow> t \<le> d)"
proof (induction slot w and deadline turns s and ws s2 arbitrary: r log slot' and r1 log1 s1 and log2 s3
    rule: WaitForControl_wait_turns_pump_waits.induct)
  case (1 slot start timeout turns)
  define d where "d = (case slot of None \<Rightarrow> start + timeout | Some d \<Rightarrow> min (start + timeout) d)"
  obtain r' log' s' where w: "wait_turns d turns (Some d) = (r', log', s')" by (metis prod_cases3)
  have "\<forall>t\<in>set log'. t \<le> d" using "1.IH" [OF refl refl refl] w unfolding d_def by blast
  moreover have "d \<le> start + timeout" "\<forall>x. slot = Some x \<longrightarrow> d \<le> x" by (auto simp: d_def split: option.split)
  moreover have "log = log'" "slot' = slot" using "1.prems" w by (simp_all add: WaitForControl.simps Let_def d_def [symmetric])
  ultimately show ?case by fastforce
next
  case (3 deadline complete now woken nested keep turns slot)
  show ?case
  proof (cases "complete \<or> now \<ge> deadline \<or> woken")
    case True
    then show ?thesis using "3.prems" by (auto simp: wait_turns.simps Let_def split: if_splits)
  next
    case False
    obtain log s4 where p: "pump_waits nested slot = (log, s4)" by fastforce
    obtain r' log' s5 where w: "wait_turns deadline turns s4 = (r', log', s5)" by (metis prod_cases3)
    have inner: "s4 = slot" "\<forall>t\<in>set log. t \<le> deadline" using "3.IH"(1) False p "3.prems"(2) by auto
    show ?thesis
    proof (cases keep)
      case True
      have "s5 = slot \<and> (\<forall>t\<in>set log'. t \<le> deadline)" using "3.IH"(2) [of "min deadline (now + 5)" log s4 r' log' s5] False True p w inner "3.prems"(2) by simp
      then show ?thesis using "3.prems"(1) False True p w inner by (auto simp: wait_turns.simps Let_def)
    next
      case keep: False
      then show ?thesis using "3.prems"(1) False p inner by (auto simp: wait_turns.simps Let_def)
    qed
  qed
next
  case (5 w ws slot)
  obtain r' log' s' where w: "WaitForControl slot w = (r', log', s')" by (metis prod_cases3)
  have a: "s' = slot" "\<forall>t\<in>set log'. \<forall>d. slot = Some d \<longrightarrow> t \<le> d" using "5.IH"(1) [OF w] by blast+
  obtain log'' s'' where p: "pump_waits ws slot = (log'', s'')" by fastforce
  have b: "s'' = slot" "\<forall>t\<in>set log''. \<forall>d. slot = Some d \<longrightarrow> t \<le> d"
    using "5.IH"(2) [of r' "(log', s')" log' s' log'' s''] w p a(1) by simp_all
  show ?case using "5.prems" w p a b by (auto simp: pump_waits.simps)
qed (auto simp: wait_turns.simps pump_waits.simps)

text \<open>The number of turns after which the deadline has come, when the clock moves on by the slice or the pump.\<close>

lemma wait_turns_ends:
  assumes "turns \<noteq> []" "tn_now (last turns) \<ge> deadline"
  shows "fst (wait_turns deadline turns slot) \<noteq> None"
  using assms
proof (induction turns arbitrary: slot)
  case (Cons t turns)
  obtain complete now woken nested keep where t: "t = Control_turn complete now woken nested keep" by (cases t)
  show ?case
  proof (cases "turns = []")
    case True
    then show ?thesis using Cons.prems t by (cases complete) (simp_all add: wait_turns.simps)
  next
    case False
    then have "fst (wait_turns deadline turns slot') \<noteq> None" for slot' using Cons by simp
    then show ?thesis using t by (auto simp: wait_turns.simps Let_def split: prod.splits) (metis fst_conv)+
  qed
qed simp

lemma wait_turns_prefix: "fst (wait_turns deadline ts slot) \<noteq> None \<Longrightarrow> fst (wait_turns deadline (ts @ us) slot) \<noteq> None"
proof (induction ts arbitrary: slot)
  case (Cons t ts)
  then show ?case
    by (cases t) (auto simp: wait_turns.simps Let_def split: prod.splits if_splits, metis fst_conv)
qed (simp add: wait_turns.simps)

section \<open>Properties\<close>

text \<open>
  Property C15. A control line that is handled while another operation is waited for cannot prolong that wait: every sleep of a wait, however
  deeply nested, ends by its own deadline and by the deadline of each wait around it, and the deadline of the outer wait
  is in force again afterwards; a wait answers at the latest at the first turn that sees its deadline passed.
\<close>

theorem nested_waits_bounded:
  assumes "WaitForControl slot w = (r, log, slot')"
  shows "slot' = slot \<and> (\<forall>t\<in>set log. t \<le> cw_start w + cw_timeout w \<and> (\<forall>d. slot = Some d \<longrightarrow> t \<le> d)) \<and>
    (\<forall>ts t us. cw_turns w = ts @ t # us \<and> tn_now t \<ge> cw_start w + cw_timeout w \<longrightarrow> r \<noteq> None)"
proof (intro conjI allI impI)
  show "slot' = slot" "\<forall>t\<in>set log. t \<le> cw_start w + cw_timeout w \<and> (\<forall>d. slot = Some d \<longrightarrow> t \<le> d)"
    using waits_bounded(1) [OF assms] by blast+
next
  fix ts t us
  assume turns: "cw_turns w = ts @ t # us \<and> tn_now t \<ge> cw_start w + cw_timeout w"
  have "fst (wait_turns d (ts @ t # us) s) \<noteq> None" if "tn_now t \<ge> d" for d s
    using that wait_turns_prefix [of d "ts @ [t]" s us] wait_turns_ends [of "ts @ [t]" d s] by simp
  note ends = this
  obtain start timeout where w: "w = Control_wait start timeout (ts @ t # us)" using turns by (cases w) auto
  define d where "d = (case slot of None \<Rightarrow> start + timeout | Some d \<Rightarrow> min (start + timeout) d)"
  have "d \<le> tn_now t" using turns w by (auto simp: d_def split: option.split)
  moreover have "r = fst (wait_turns d (ts @ t # us) (Some d))"
    using assms w by (auto simp: WaitForControl.simps Let_def d_def [symmetric] split: prod.splits)
  ultimately show "r \<noteq> None" using ends by simp
qed

text \<open>A wait of 12 ms in which a pumped line waits for 100 ms.\<close>

definition example_wait :: control_wait where
  "example_wait = Control_wait 0 12
     [Control_turn False 0 False [Control_wait 6 100 [Control_turn False 6 False [] True, Control_turn False 11 False [] True,
        Control_turn False 12 False [] True]] True,
      Control_turn False 13 False [] True]"

theorem nested_waits_bounded_witness:
  "\<exists>log. WaitForControl None example_wait = (Some False, log, None) \<and> length log = 3 \<and> (\<forall>t\<in>set log. t \<le> 12)"
proof -
  have run: "WaitForControl None example_wait = (Some False, [5, 11, 12], None)" by code_simp
  have "\<forall>t\<in>set [5, 11, 12 :: nat]. t \<le> 12"
    using nested_waits_bounded [OF run] by (simp add: example_wait_def)
  then show ?thesis using run by simp
qed

end
