(* ===== verification/Spec2Isabelle.thy ===== *)
theory Spec2Isabelle
  imports Commissioning StoreContract HostProcess ControllerContract ControllerStartup ControllerWait
begin

text \<open>
  Verification of the native Matter host of wotex-matter (the C++ program under \<^verbatim>\<open>src/native\<close>).

  \<^bold>\<open>The program.\<close>  The host is a process that the Elixir side starts and talks to over two pipes, one JSON
  document per line.  It opens a Matter controller on a durable store, carries out interactions (read, write,
  invoke), commissioning and subscriptions, and sends subscription reports back under flow control.
  Its parts are the value schemas (\<^verbatim>\<open>value.cpp\<close>), the validators of requests and answers
  (\<^verbatim>\<open>interaction.cpp\<close>, \<^verbatim>\<open>commissioning.cpp\<close>, \<^verbatim>\<open>subscription.cpp\<close>), the buffer, the recovery policy and
  the credit manager of subscriptions (\<^verbatim>\<open>subscription.cpp\<close>), the session, its decoders, encoders, reader and
  writer (\<^verbatim>\<open>protocol.cpp\<close>, \<^verbatim>\<open>input.hpp\<close>), the store (\<^verbatim>\<open>storage.cpp\<close>) and the controller on the Matter SDK
  (\<^verbatim>\<open>controller.cpp\<close>).

  \<^bold>\<open>The theories\<close>, in the order of their imports:

  \<^item> \<open>Prelude\<close>: word types, string maps, the locale \<open>machine\<close> (an invariant and a promise on the answer that every operation keeps
    hold on every run), generic lemmas.
  \<^item> \<open>MatterValue\<close> (\<^verbatim>\<open>value.hpp\<close>, \<^verbatim>\<open>value.cpp\<close>): the table \<open>kDescriptors\<close>, \<open>convert_value\<close>, \<open>validate_element\<close>
    and the rules of access control lists.  Whatever the conversion produces is accepted by the validator.
  \<^item> \<open>Interaction\<close>, \<open>Commissioning\<close> (\<^verbatim>\<open>interaction.*\<close>, \<^verbatim>\<open>commissioning.*\<close>): the validators, the passcode rule,
    \<open>remaining_timeout_ms\<close> and the latch \<open>MutationCompletion\<close>.  Validated requests have the components the executor
    dereferences; one completion wins under every interleaving.
  \<^item> \<open>Subscription\<close> (\<^verbatim>\<open>subscription.*\<close>): the validators, \<open>SubscriptionBuffer\<close> and \<open>SubscriptionRecovery\<close>.
    What a buffer delivers is valid, ordered and free of duplicates; a recovery is bounded in attempts and time.
  \<^item> \<open>ReportCredit\<close> (\<^verbatim>\<open>subscription.*\<close>): \<open>ReportCreditManager\<close>.  Credits, counters and sequence numbers are exact on
    every run, acknowledgements release what they name, the queue cannot deadlock, a retired stream stays silent.
  \<^item> \<open>Codec\<close>, \<open>StoreFormat\<close> (\<^verbatim>\<open>storage.cpp\<close>): \<open>ValidUtf8\<close>, \<open>Base64Encode\<close>, \<open>Base64Decode\<close>, \<open>ParseState\<close>, \<open>SerializeState\<close>.
    The validator accepts exactly UTF-8, decoding accepts exactly the canonical encodings, documents are read back.
  \<^item> \<open>Storage\<close>, \<open>StoreRecovery\<close>, \<open>StoreContract\<close> (\<^verbatim>\<open>storage.*\<close>): \<open>DurableStorage\<close> over a model of its directory, in which
    a system call can fail, a sync can be lost with the power and the process can die between any two calls.  An \<open>Open\<close>
    that succeeds after a crash loads what the acknowledged calls stored, or what the one call that failed meant to store; an interrupted
    commit may leave a directory that \<open>Open\<close> refuses, a session without a failed call leaves none.  As long as it runs the store refines a map
    (locale \<open>key_value\<close>); two owners exclude each other, however the first one got its store.
  \<^item> \<open>Json\<close>, \<open>WireDecode\<close>, \<open>WireEncode\<close> (\<^verbatim>\<open>protocol.cpp\<close>): the bounded reader, the decoders of requests and the encoders of
    frames.  The reader accepts exactly the documents within its bounds; elements survive a round trip.
  \<^item> \<open>BoundedIO\<close> (\<^verbatim>\<open>input.hpp\<close>, \<^verbatim>\<open>protocol.cpp\<close>): \<open>BoundedInput\<close>, \<open>ReadLineBounded\<close> and \<open>BoundedOutput\<close> with its worker.
    Framing loses no byte, the writer is a bounded queue that drains on stop.
  \<^item> \<open>HostProtocol\<close>, \<open>HostChannel\<close>, \<open>HostSession\<close>, \<open>HostContract\<close> (\<^verbatim>\<open>protocol.*\<close>): the class \<open>HostProtocol\<close>.  The session is a transition
    system whose steps are the events of the backend, the lines of the peer (nested while the backend waits) and requests to close.  On every
    run registered subscriptions are live, the backend is called in order, a request number is used once, and
    failures close the session.

  \<^item> \<open>HostRun\<close>, \<open>HostProcess\<close> (\<^verbatim>\<open>protocol.cpp\<close>, \<^verbatim>\<open>input_lifetime.hpp\<close>, \<^verbatim>\<open>host.cpp\<close>): \<open>RunHost\<close> over the models of the reader, the writer and
    the session, and the watch on the input.  However the loop ends the session is closed and the writer has stopped, on every schedule the host returns
    once its input ends, a pump handles at most 16 lines, and the watch ends the process only after a failure and a grace that nothing extends.
  \<^item> \<open>ControllerCodec\<close> (\<^verbatim>\<open>controller.cpp\<close>): the decoders and encoders of attributes, events and access control lists over the TLV
    reader and writer.  What they decode fits the descriptor table; access control lists survive a round trip.
  \<^item> \<open>ControllerPending\<close>, \<open>ControllerSubscription\<close>, \<open>ControllerCommissioning\<close> (\<^verbatim>\<open>controller.cpp\<close>): the classes \<open>Pending\<close>,
    \<open>NativeSubscription\<close>, \<open>PendingCommissioning\<close> and \<open>PendingWindow\<close>, each a transition system between the waiting thread, the SDK
    thread and the SDK's callbacks.  The answers of commissionings and windows pass the session's validators; those of interactions do so
    exactly when the SDK reported nothing that was not asked for, which the callbacks do not check; a mutation is sent once and its effect reported
    honestly up to the races that are shown, a failure is emitted once, nothing is left behind.
  \<^item> \<open>ControllerTable\<close>, \<open>Controller\<close>, \<open>ControllerContract\<close> (\<^verbatim>\<open>controller.cpp\<close>): \<open>Impl\<close> as the owner of operations.  The locales \<open>operation\<close>,
    \<open>startable\<close> and \<open>booked\<close> state what a class owes to its table and the work queue and are interpreted on the four classes; on
    every run no queued work misses its operation (a cancelled commissioning or window may have left its slot and is then kept by the
    cancellation), the tables are bounded, every entry is a run of its own class, and a shutdown answers and finishes everything,
    after which no request is admitted.
  \<^item> \<open>Authority\<close> (\<^verbatim>\<open>authority.*\<close>): \<open>RootAuthority\<close> over the store.  A created authority is the one that is loaded, nothing is
    overwritten, certificates are issued on request only.
  \<^item> \<open>ControllerStartup\<close> (\<^verbatim>\<open>controller.cpp\<close>, \<^verbatim>\<open>sdk_storage.*\<close>): \<open>Open\<close>, \<open>SetupOnSdkThread\<close> and \<open>Cleanup\<close> over the store and the authority.
    Whatever fails, what was acquired is released in reverse order; an open controller runs with the identity of the request.
  \<^item> \<open>ControllerWait\<close> (\<^verbatim>\<open>controller.cpp\<close>): \<open>WaitForControl\<close>.  Nested waits stay within the deadlines around them.

  \<^bold>\<open>Conventions.\<close>  A class is a record with a prefix of its own for the fields, a method is a function on it, a result or error is a value.
  Unsigned integers are words of their width, so wrap-around is that of the machine; sizes the code keeps in
  \<^verbatim>\<open>std::size_t\<close> are 64-bit words where it counts with them and natural numbers where it only measures a container.
  An unordered map with string keys is an association list.  A mutex-protected section is one atomic step.  All loops are
  total functions: they recurse on the list they traverse or have a measure, so no fuel is used.

  \<^bold>\<open>Parameters.\<close>  The JSON library (its parser, its stream of SAX calls, its serialiser), the output sink,
  for the session the controller backend (its answers, and what it does to the session while it works), for the controller the Matter SDK
  (its callbacks, its TLV streams, its identifiers, its cryptography and the errors of its calls), the outcomes of system calls, and
  clocks and random numbers are arguments of the definitions; what the theorems need of them is a hypothesis that a
  witness instantiates.

  \<^bold>\<open>Not modelled.\<close>  The Matter SDK is not in the repository: what it does between a call and a callback is left to the environment, and
  so is what it stores on its own while it starts.  The forwarding members of \<open>SdkControllerBackend\<close> and the hand-over of the sinks
  have no definitions of their own, \<^verbatim>\<open>logging.cpp\<close> prints, and \<^verbatim>\<open>main\<close> sets a signal disposition.  Test-only hooks
  (\<^verbatim>\<open>resource_testing.hpp\<close>, \<^verbatim>\<open>flow_testing.hpp\<close>) and the hosts under \<^verbatim>\<open>native/testing\<close> are left out, as are the Elixir and Python sources.
\<close>

end
